(* ===== verification/Prelude.thy ===== *)
theory Prelude
  imports Main "HOL-Library.AList" "HOL-Library.Word" "HOL-Library.Multiset"
begin

text \<open>
  What every component of the development shares: Rust's fixed-width integer
  operations written out on \<^typ>\<open>nat\<close>, the standard collections the sources
  use (\<^verbatim>\<open>HashMap\<close> as an association list with distinct keys, \<^verbatim>\<open>VecDeque\<close>
  and \<^verbatim>\<open>Vec\<close> as lists), and the lemmas on them that carry the component
  proofs.  The targets Logan supports are 64-bit, so \<^verbatim>\<open>usize\<close> has 64 bits.
\<close>

named_theorems rust_int \<open>definitions of the fixed-width operations\<close>
named_theorems hm_simps \<open>rewrite rules for hash maps\<close>

section \<open>Fixed-width integers\<close>

definition u32_max :: nat where
  "u32_max = 4294967295"

definition u64_max :: nat where
  "u64_max = 18446744073709551615"

definition usize_max :: nat where
  "usize_max = 18446744073709551615"

definition wrapping_add_u32 :: "nat \<Rightarrow> nat \<Rightarrow> nat" where
  "wrapping_add_u32 a b = (a + b) mod (u32_max + 1)"

definition wrapping_add_u64 :: "nat \<Rightarrow> nat \<Rightarrow> nat" where
  "wrapping_add_u64 a b = (a + b) mod (u64_max + 1)"

definition wrapping_add_usize :: "nat \<Rightarrow> nat \<Rightarrow> nat" where
  "wrapping_add_usize a b = (a + b) mod (usize_max + 1)"

definition saturating_add_u64 :: "nat \<Rightarrow> nat \<Rightarrow> nat" where
  "saturating_add_u64 a b = min (a + b) u64_max"

definition saturating_add_usize :: "nat \<Rightarrow> nat \<Rightarrow> nat" where
  "saturating_add_usize a b = min (a + b) usize_max"

definition saturating_mul_usize :: "nat \<Rightarrow> nat \<Rightarrow> nat" where
  "saturating_mul_usize a b = min (a * b) usize_max"

definition saturating_sub :: "nat \<Rightarrow> nat \<Rightarrow> nat" where
  "saturating_sub a b = a - b"

definition checked_add_usize :: "nat \<Rightarrow> nat \<Rightarrow> nat option" where
  "checked_add_usize a b = (if a + b \<le> usize_max then Some (a + b) else None)"

definition checked_mul_usize :: "nat \<Rightarrow> nat \<Rightarrow> nat option" where
  "checked_mul_usize a b = (if a * b \<le> usize_max then Some (a * b) else None)"

definition checked_add_u64 :: "nat \<Rightarrow> nat \<Rightarrow> nat option" where
  "checked_add_u64 a b = (if a + b \<le> u64_max then Some (a + b) else None)"

definition checked_mul_u64 :: "nat \<Rightarrow> nat \<Rightarrow> nat option" where
  "checked_mul_u64 a b = (if a * b \<le> u64_max then Some (a * b) else None)"

declare u32_max_def [rust_int] u64_max_def [rust_int] usize_max_def [rust_int]
  wrapping_add_u32_def [rust_int] wrapping_add_u64_def [rust_int] wrapping_add_usize_def [rust_int]
  saturating_add_u64_def [rust_int] saturating_add_usize_def [rust_int]
  saturating_mul_usize_def [rust_int] saturating_sub_def [rust_int]
  checked_add_usize_def [rust_int] checked_mul_usize_def [rust_int]

lemma wrapping_add_u64_below: "a < u64_max \<Longrightarrow> wrapping_add_u64 a (Suc 0) = Suc a"
  by (simp add: wrapping_add_u64_def)

lemma wrapping_add_u32_below: "a < u32_max \<Longrightarrow> wrapping_add_u32 a (Suc 0) = Suc a"
  by (simp add: wrapping_add_u32_def)

lemma wrapping_add_usize_fits: "a + b \<le> usize_max \<Longrightarrow> wrapping_add_usize a b = a + b"
  by (simp add: wrapping_add_usize_def)

lemma saturating_add_u64_below: "a < u64_max \<Longrightarrow> saturating_add_u64 a (Suc 0) = Suc a"
  by (simp add: saturating_add_u64_def)

lemma saturating_add_u64_ge: "a \<le> u64_max \<Longrightarrow> a \<le> saturating_add_u64 a b"
  by (simp add: saturating_add_u64_def)

lemma saturating_add_usize_le_iff:
  "n < usize_max \<Longrightarrow> saturating_add_usize a b \<le> n \<longleftrightarrow> a + b \<le> n"
  by (auto simp: saturating_add_usize_def)

type_synonym byte = "8 word"

text \<open>Decimal output of an integer.\<close>

function show_nat :: "nat \<Rightarrow> string" where
  "show_nat n = (if n < 10 then [char_of (48 + n)] else show_nat (n div 10) @ [char_of (48 + n mod 10)])"
  by pat_completeness auto

termination show_nat
  by (relation "measure id") auto

declare show_nat.simps [simp del]

section \<open>Results\<close>

text \<open>The operator \<^verbatim>\<open>?\<close>: an error ends the function, a value goes on.\<close>

definition try_bind :: "'e + 'a \<Rightarrow> ('a \<Rightarrow> 'e + 'b) \<Rightarrow> 'e + 'b" where
  "try_bind r f = (case r of Inl e \<Rightarrow> Inl e | Inr x \<Rightarrow> f x)"

lemma try_bind_simps [simp]:
  "try_bind (Inr x) f = f x"
  "try_bind (Inl e) f = Inl e"
  by (simp_all add: try_bind_def)

lemma try_bind_Inr: "try_bind r f = Inr y \<longleftrightarrow> (\<exists>x. r = Inr x \<and> f x = Inr y)"
  by (cases r) auto

lemma try_bind_assoc: "try_bind (try_bind r f) g = try_bind r (\<lambda>x. try_bind (f x) g)"
  by (cases r) auto

text \<open>Guards joined by \<^verbatim>\<open>||\<close>, each of which reads: the first that holds refuses, a failed read ends.\<close>

fun refuse_any :: "'e \<Rightarrow> ('e + bool) list \<Rightarrow> 'e + unit" where
  "refuse_any e [] = Inr ()"
| "refuse_any e (c # cs) = try_bind c (\<lambda>b. if b then Inl e else refuse_any e cs)"

definition differs :: "'e + 'a \<Rightarrow> 'a \<Rightarrow> 'e + bool" where
  "differs r v = try_bind r (\<lambda>x. Inr (x \<noteq> v))"

lemma differs_simps [simp]:
  "differs (Inl e) v = Inl e"
  "differs (Inr x) v = Inr (x \<noteq> v)"
  by (simp_all add: differs_def)

lemma differs_iff: "differs r v = Inr False \<longleftrightarrow> r = Inr v"
  by (cases r) auto

text \<open>A loop that collects one result per element, and stops at the first error.\<close>

fun try_map :: "('a \<Rightarrow> 'e + 'b) \<Rightarrow> 'a list \<Rightarrow> 'e + 'b list" where
  "try_map f [] = Inr []"
| "try_map f (x # xs) = try_bind (f x) (\<lambda>y. try_bind (try_map f xs) (\<lambda>ys. Inr (y # ys)))"

text \<open>What a caller that only asks for success sees of a result.\<close>

definition ok :: "'e + 'a \<Rightarrow> 'a option" where
  "ok r = (case r of Inl e \<Rightarrow> None | Inr x \<Rightarrow> Some x)"

lemma ok_simps [simp]:
  "ok (Inr x) = Some x"
  "ok (Inl e) = None"
  "ok (try_bind r f) = Option.bind (ok r) (\<lambda>x. ok (f x))"
  "ok (if b then r else r') = (if b then ok r else ok r')"
  by (simp_all add: ok_def try_bind_def split: sum.split)

lemma ok_case_sum: "ok (case r of Inl e \<Rightarrow> g e | Inr x \<Rightarrow> f x) = (case ok r of None \<Rightarrow> ok (g (projl r)) | Some x \<Rightarrow> ok (f x))"
  by (simp add: ok_def split: sum.split)

lemma ok_eq_Some [simp]: "ok r = Some x \<longleftrightarrow> r = Inr x"
  by (simp add: ok_def split: sum.split)

lemma ok_eq_iff: "ok r = ok r' \<longleftrightarrow> (\<forall>x. r = Inr x \<longleftrightarrow> r' = Inr x)"
  by (auto simp: ok_def split: sum.split)

section \<open>Hash maps\<close>

text \<open>
  A \<^verbatim>\<open>HashMap\<close> is an association list whose keys are distinct.  Iteration
  order, which Rust leaves open, is the order of the list; the theorems that
  depend on an iteration show that the order cannot matter.
\<close>

type_synonym ('k, 'v) hash_map = "('k \<times> 'v) list"

abbreviation hm_get :: "('k, 'v) hash_map \<Rightarrow> 'k \<Rightarrow> 'v option" where
  "hm_get m k \<equiv> map_of m k"

abbreviation hm_insert :: "'k \<Rightarrow> 'v \<Rightarrow> ('k, 'v) hash_map \<Rightarrow> ('k, 'v) hash_map" where
  "hm_insert k v m \<equiv> AList.update k v m"

abbreviation hm_remove :: "'k \<Rightarrow> ('k, 'v) hash_map \<Rightarrow> ('k, 'v) hash_map" where
  "hm_remove k m \<equiv> AList.delete k m"

abbreviation hm_modify :: "'k \<Rightarrow> ('v \<Rightarrow> 'v) \<Rightarrow> ('k, 'v) hash_map \<Rightarrow> ('k, 'v) hash_map" where
  "hm_modify k f m \<equiv> AList.map_entry k f m"

abbreviation hm_keys :: "('k, 'v) hash_map \<Rightarrow> 'k list" where
  "hm_keys m \<equiv> map fst m"

abbreviation hm_ok :: "('k, 'v) hash_map \<Rightarrow> bool" where
  "hm_ok m \<equiv> distinct (map fst m)"

declare map_of_eq_Some_iff [simp del] Some_eq_map_of_iff [simp del]

lemma hm_get_insert [hm_simps]: "hm_get (hm_insert k v m) = (hm_get m)(k \<mapsto> v)"
  by (rule AList.update_conv')

lemma hm_get_remove [hm_simps]: "hm_get (hm_remove k m) = (hm_get m)(k := None)"
  by (rule AList.delete_conv')

lemma hm_get_modify [hm_simps]:
  "hm_get (hm_modify k f m) = (hm_get m)(k := map_option f (hm_get m k))"
  by (induction m) (auto simp: fun_eq_iff)

lemma hm_keys_modify [hm_simps]: "hm_keys (hm_modify k f m) = hm_keys m"
  by (induction m) auto

lemma hm_ok_insert [hm_simps]: "hm_ok (hm_insert k v m) = hm_ok m"
proof (induction m)
  case (Cons p m)
  then show ?case by (cases p) (auto simp: dom_update split: if_splits)
qed simp

lemma hm_ok_remove [hm_simps]: "hm_ok m \<Longrightarrow> hm_ok (hm_remove k m)"
  by (rule AList.distinct_delete)

lemma hm_ok_modify [hm_simps]: "hm_ok (hm_modify k f m) = hm_ok m"
  by (simp add: hm_keys_modify)

lemma hm_set_remove [hm_simps]: "set (hm_remove k m) = {p \<in> set m. fst p \<noteq> k}"
  by (auto simp: AList.delete_eq)

lemma hm_key_iff: "k \<in> set (hm_keys m) \<longleftrightarrow> (\<exists>v. hm_get m k = Some v)"
  by (metis map_of_eq_None_iff not_None_eq set_map)

lemma hm_get_in_set: "hm_get m k = Some v \<Longrightarrow> (k, v) \<in> set m"
  by (rule map_of_SomeD)

lemma hm_in_set_get: "hm_ok m \<Longrightarrow> (k, v) \<in> set m \<Longrightarrow> hm_get m k = Some v"
  by (rule map_of_is_SomeI)

lemma hm_remove_absent: "hm_get m k = None \<Longrightarrow> hm_remove k m = m"
  by (induction m) (auto split: if_splits)

lemma hm_modify_absent: "hm_get m k = None \<Longrightarrow> hm_modify k f m = m"
  by (induction m) (auto split: if_splits)

lemma hm_modify_modify: "hm_modify k f (hm_modify k g m) = hm_modify k (\<lambda>v. f (g v)) m"
  by (induction m) auto

lemma hm_modify_cong:
  "(\<And>v. hm_get m k = Some v \<Longrightarrow> f v = g v) \<Longrightarrow> hm_modify k f m = hm_modify k g m"
  by (induction m) auto

lemma hm_length_remove: "hm_get m k = Some v \<Longrightarrow> length (hm_remove k m) < length m"
proof (induction m)
  case (Cons p m)
  have "length (hm_remove k m) \<le> length m" by (simp add: AList.length_delete_le)
  with Cons show ?case by (cases p) auto
qed simp

lemma hm_get_fold_remove [hm_simps]:
  "hm_get (fold hm_remove ks m) = (\<lambda>k. if k \<in> set ks then None else hm_get m k)"
  by (induction ks arbitrary: m) (auto simp: hm_simps fun_eq_iff)

lemma hm_ok_fold_remove [hm_simps]: "hm_ok m \<Longrightarrow> hm_ok (fold hm_remove ks m)"
  by (induction ks arbitrary: m) (auto simp: hm_simps)

subsection \<open>Sums over a map\<close>

text \<open>
  \<open>tally f m\<close> adds up a quantity over the entries; every update is expressed
  through the map without the key, so that accounting proofs are linear
  arithmetic.
\<close>

definition tally :: "('k \<times> 'v \<Rightarrow> nat) \<Rightarrow> ('k, 'v) hash_map \<Rightarrow> nat" where
  "tally f m = sum_list (map f m)"

lemma tally_Nil [simp]: "tally f [] = 0"
  by (simp add: tally_def)

lemma tally_Cons [simp]: "tally f (p # m) = f p + tally f m"
  by (simp add: tally_def)

lemma tally_append [simp]: "tally f (m @ n) = tally f m + tally f n"
  by (simp add: tally_def)

lemma tally_cong: "(\<And>p. p \<in> set m \<Longrightarrow> f p = g p) \<Longrightarrow> tally f m = tally g m"
  by (simp add: tally_def cong: map_cong)

lemma tally_remove_le: "tally f (hm_remove k m) \<le> tally f m"
  by (induction m) auto

lemma tally_remove:
  "hm_ok m \<Longrightarrow> hm_get m k = Some v \<Longrightarrow> tally f m = tally f (hm_remove k m) + f (k, v)"
proof (induction m)
  case (Cons p m)
  show ?case
  proof (cases "fst p = k")
    case True
    with Cons.prems have "hm_get m k = None" and "p = (k, v)"
      by (cases p, auto simp: map_of_eq_None_iff)+
    with True show ?thesis by (simp add: hm_remove_absent)
  next
    case False
    with Cons show ?thesis by (cases p) auto
  qed
qed simp

lemma tally_insert:
  "hm_ok m \<Longrightarrow> tally f (hm_insert k v m) = tally f (hm_remove k m) + f (k, v)"
proof (induction m)
  case (Cons p m)
  show ?case
  proof (cases "fst p = k")
    case True
    with Cons.prems have "hm_get m k = None"
      by (auto simp: map_of_eq_None_iff)
    with True show ?thesis by (cases p) (simp add: hm_remove_absent)
  next
    case False
    with Cons show ?thesis by (cases p) auto
  qed
qed simp

lemma tally_modify:
  "hm_ok m \<Longrightarrow> hm_get m k = Some v \<Longrightarrow>
    tally f (hm_modify k g m) = tally f (hm_remove k m) + f (k, g v)"
proof (induction m)
  case (Cons p m)
  show ?case
  proof (cases "fst p = k")
    case True
    with Cons.prems have "hm_get m k = None" and "p = (k, v)"
      by (cases p, auto simp: map_of_eq_None_iff)+
    with True show ?thesis by (simp add: hm_remove_absent)
  next
    case False
    with Cons show ?thesis by (cases p) auto
  qed
qed simp

lemma tally_member_le: "p \<in> set m \<Longrightarrow> f p \<le> tally f m"
  by (induction m) auto

lemma tally_zero: "tally f m = 0 \<longleftrightarrow> (\<forall>p \<in> set m. f p = 0)"
  by (induction m) auto

lemma tally_submap:
  assumes "hm_ok m'" "hm_ok m" "\<And>k v. hm_get m' k = Some v \<Longrightarrow> hm_get m k = Some v"
  shows "tally f m' \<le> tally f m"
  using assms
proof (induction m' arbitrary: m)
  case (Cons p m')
  obtain k v where p: "p = (k, v)" by force
  have get: "hm_get m k = Some v" using Cons.prems(3) [of k v] p by simp
  have "hm_get m' k = None" using Cons.prems(1) p by (simp add: map_of_eq_None_iff)
  then have "hm_get (hm_remove k m) k' = Some v'" if "hm_get m' k' = Some v'" for k' v'
    using Cons.prems(3) [of k' v'] that p by (auto simp: hm_simps)
  then have "tally f m' \<le> tally f (hm_remove k m)"
    using Cons.prems by (intro Cons.IH) (simp_all add: hm_simps)
  then show ?case using tally_remove [OF Cons.prems(2) get, of f] p by simp
qed simp

section \<open>Lists\<close>

lemma filter_neq_absent: "x \<notin> set xs \<Longrightarrow> filter (\<lambda>y. y \<noteq> x) xs = xs"
  by (induction xs) auto

lemma distinct_snoc: "distinct (xs @ [x]) \<longleftrightarrow> distinct xs \<and> x \<notin> set xs"
  by auto

end
