(* ===== verification/Sched_Core.thy ===== *)
theory Sched_Core
  imports Prelude
begin

text \<open>
  The single-owner scheduler state machine of \<^verbatim>\<open>logan-core/src/sched/core.rs\<close>
  and the typed identifiers of \<^verbatim>\<open>sched/ids.rs\<close>: sessions with a lifecycle,
  a ready queue with a membership bit, and tickets owned by sessions.  Every
  public operation is one definition; it takes the scheduler and returns the
  result together with the new scheduler.  The theory ends with the invariant,
  its preservation, and the facts the properties of the root theory rest on.
\<close>

section \<open>Identifiers\<close>

datatype session_id = SessionId (session_no: nat)

datatype ticket = Ticket (ticket_no: nat)

datatype load_id = LoadId (load_no: nat)

datatype generation = Generation (generation_no: nat)

instantiation session_id :: linorder
begin

definition less_eq_session_id :: "session_id \<Rightarrow> session_id \<Rightarrow> bool" where
  "less_eq_session_id a b \<longleftrightarrow> session_no a \<le> session_no b"

definition less_session_id :: "session_id \<Rightarrow> session_id \<Rightarrow> bool" where
  "less_session_id a b \<longleftrightarrow> session_no a < session_no b"

instance
  by standard (auto simp: less_eq_session_id_def less_session_id_def session_id.expand)

end

section \<open>Data\<close>

datatype action_kind = Io | Cpu | Accelerator

record action =
  act_kind :: action_kind
  act_payload :: "byte list"

datatype outcome = OutcomeOk | OutcomeErr string

datatype effect =
    Dispatch ticket action
  | CancelTicket ticket
  | WakeSession session_id
  | SessionFinished session_id
  | SessionFailed session_id string

record budget =
  max_inflight_per_session :: nat

definition default_budget :: budget where
  "default_budget = \<lparr>max_inflight_per_session = 64\<rparr>"

datatype session_state = Runnable | Blocked | Cancelling | Finished | Failed

record session =
  sess_id :: session_id
  sess_state :: session_state
  sess_inflight :: "ticket list"
  sess_in_ready :: bool

definition new_session :: "session_id \<Rightarrow> session" where
  "new_session i = \<lparr>sess_id = i, sess_state = Runnable, sess_inflight = [], sess_in_ready = True\<rparr>"

datatype step_result = Run session_id | Idle

text \<open>The last constructor is the panic of an \<^verbatim>\<open>unreachable!\<close>.\<close>

datatype sched_error =
    UnknownSession session_id
  | IllegalTransition session_id session_state
  | NotRunnable session_id
  | InflightLimit session_id
  | Unreachable string

record scheduler_core =
  core_budget :: budget
  core_sessions :: "(session_id, session) hash_map"
  core_ready :: "session_id list"
  core_next_session :: nat
  core_next_ticket :: nat
  core_inflight :: "(ticket, session_id \<times> generation) hash_map"

type_synonym sched_result = "(sched_error + effect list) \<times> scheduler_core"

section \<open>Operations\<close>

definition new_core :: "budget \<Rightarrow> scheduler_core" where
  "new_core b = \<lparr>core_budget = b, core_sessions = [], core_ready = [],
     core_next_session = 0, core_next_ticket = 0, core_inflight = []\<rparr>"

definition alloc_session_id :: "scheduler_core \<Rightarrow> session_id \<times> scheduler_core" where
  "alloc_session_id c =
     (SessionId (core_next_session c),
      c\<lparr>core_next_session := wrapping_add_u64 (core_next_session c) 1\<rparr>)"

definition alloc_ticket :: "scheduler_core \<Rightarrow> ticket \<times> scheduler_core" where
  "alloc_ticket c =
     (Ticket (core_next_ticket c),
      c\<lparr>core_next_ticket := wrapping_add_u64 (core_next_ticket c) 1\<rparr>)"

definition remove_from_ready :: "session_id \<Rightarrow> scheduler_core \<Rightarrow> scheduler_core" where
  "remove_from_ready s c = c\<lparr>
     core_ready := filter (\<lambda>queued. queued \<noteq> s) (core_ready c),
     core_sessions := hm_modify s (\<lambda>r. r\<lparr>sess_in_ready := False\<rparr>) (core_sessions c)\<rparr>"

definition enqueue_if_runnable :: "session_id \<Rightarrow> scheduler_core \<Rightarrow> scheduler_core" where
  "enqueue_if_runnable s c =
     (case hm_get (core_sessions c) s of
        None \<Rightarrow> c
      | Some r \<Rightarrow>
          if sess_state r = Runnable \<and> \<not> sess_in_ready r
          then c\<lparr>core_sessions := hm_modify s (\<lambda>r. r\<lparr>sess_in_ready := True\<rparr>) (core_sessions c),
                 core_ready := core_ready c @ [s]\<rparr>
          else c)"

definition create_session :: "scheduler_core \<Rightarrow> session_id \<times> scheduler_core" where
  "create_session c =
     (let (i, c') = alloc_session_id c in
      (i, c'\<lparr>core_sessions := hm_insert i (new_session i) (core_sessions c'),
             core_ready := core_ready c' @ [i]\<rparr>))"

definition session_state_of :: "scheduler_core \<Rightarrow> session_id \<Rightarrow> session_state option" where
  "session_state_of c s = map_option sess_state (hm_get (core_sessions c) s)"

definition inflight_count :: "scheduler_core \<Rightarrow> session_id \<Rightarrow> nat option" where
  "inflight_count c s = map_option (\<lambda>r. length (sess_inflight r)) (hm_get (core_sessions c) s)"

definition ready_len :: "scheduler_core \<Rightarrow> nat" where
  "ready_len c = length (core_ready c)"

definition session_ids :: "scheduler_core \<Rightarrow> session_id list" where
  "session_ids c = sort (hm_keys (core_sessions c))"

definition total_inflight :: "scheduler_core \<Rightarrow> nat" where
  "total_inflight c = length (core_inflight c)"

definition set_state :: "session_id \<Rightarrow> session_state \<Rightarrow> scheduler_core \<Rightarrow> scheduler_core" where
  "set_state s st c =
     c\<lparr>core_sessions := hm_modify s (\<lambda>r. r\<lparr>sess_state := st\<rparr>) (core_sessions c)\<rparr>"

definition block :: "session_id \<Rightarrow> scheduler_core \<Rightarrow> sched_result" where
  "block s c =
     (case hm_get (core_sessions c) s of
        None \<Rightarrow> (Inl (UnknownSession s), c)
      | Some r \<Rightarrow>
         (case sess_state r of
            Runnable \<Rightarrow> (Inr [], set_state s Blocked (remove_from_ready s c))
          | Blocked \<Rightarrow> (Inr [], c)
          | Cancelling \<Rightarrow> (Inr [], c)
          | st \<Rightarrow> (Inl (IllegalTransition s st), c)))"

definition wake :: "session_id \<Rightarrow> scheduler_core \<Rightarrow> sched_result" where
  "wake s c =
     (case hm_get (core_sessions c) s of
        None \<Rightarrow> (Inl (UnknownSession s), c)
      | Some r \<Rightarrow>
         (case sess_state r of
            Blocked \<Rightarrow> (Inr [WakeSession s], enqueue_if_runnable s (set_state s Runnable c))
          | Runnable \<Rightarrow> (Inr [], c)
          | Cancelling \<Rightarrow> (Inr [], c)
          | st \<Rightarrow> (Inl (IllegalTransition s st), c)))"

definition submit ::
  "session_id \<Rightarrow> action \<Rightarrow> scheduler_core \<Rightarrow> (sched_error + ticket \<times> effect) \<times> scheduler_core" where
  "submit s a c =
     (case hm_get (core_sessions c) s of
        None \<Rightarrow> (Inl (UnknownSession s), c)
      | Some r \<Rightarrow>
          if sess_state r \<noteq> Runnable then (Inl (NotRunnable s), c)
          else if max_inflight_per_session (core_budget c) \<le> length (sess_inflight r)
          then (Inl (InflightLimit s), c)
          else
            (let (t, c1) = alloc_ticket c; g = Generation (ticket_no t) in
             (Inr (t, Dispatch t a),
              c1\<lparr>core_sessions :=
                   hm_modify s (\<lambda>r. r\<lparr>sess_inflight := sess_inflight r @ [t]\<rparr>) (core_sessions c1),
                 core_inflight := hm_insert t (s, g) (core_inflight c1)\<rparr>)))"

definition take_inflight ::
  "session_id \<Rightarrow> session_state \<Rightarrow> ticket list \<Rightarrow> scheduler_core \<Rightarrow> scheduler_core" where
  "take_inflight s st ts c = c\<lparr>
     core_sessions :=
       hm_modify s (\<lambda>r. r\<lparr>sess_inflight := [], sess_state := st\<rparr>) (core_sessions c),
     core_inflight := fold hm_remove ts (core_inflight c)\<rparr>"

definition terminalize ::
  "session_id \<Rightarrow> session_state \<Rightarrow> string option \<Rightarrow> scheduler_core \<Rightarrow> sched_result" where
  "terminalize s st err c =
     (let c1 = remove_from_ready s c in
      case hm_get (core_sessions c1) s of
        None \<Rightarrow> (Inl (UnknownSession s), c1)
      | Some r \<Rightarrow>
          (let tickets = sess_inflight r;
               effects = map CancelTicket tickets;
               c2 = take_inflight s st tickets c1
           in case (st, err) of
                (Finished, None) \<Rightarrow> (Inr (effects @ [SessionFinished s]), c2)
              | (Failed, Some e) \<Rightarrow> (Inr (effects @ [SessionFailed s e]), c2)
              | _ \<Rightarrow> (Inl (Unreachable ''terminal state and effect must agree''), c2)))"

definition complete :: "ticket \<Rightarrow> outcome \<Rightarrow> scheduler_core \<Rightarrow> sched_result" where
  "complete t out c =
     (case hm_get (core_inflight c) t of
        None \<Rightarrow> (Inr [], c)
      | Some (s, g) \<Rightarrow>
         (let c1 = c\<lparr>core_inflight := hm_remove t (core_inflight c)\<rparr> in
          case hm_get (core_sessions c1) s of
            None \<Rightarrow> (Inl (UnknownSession s), c1)
          | Some r0 \<Rightarrow>
             (let retain = (\<lambda>r. r\<lparr>sess_inflight := filter (\<lambda>owned. owned \<noteq> t) (sess_inflight r)\<rparr>);
                  r = retain r0;
                  c2 = c1\<lparr>core_sessions := hm_modify s retain (core_sessions c1)\<rparr>
              in case out of
                   OutcomeOk \<Rightarrow>
                     if sess_state r = Blocked \<and> sess_inflight r = []
                     then (Inr [WakeSession s],
                           c2\<lparr>core_sessions :=
                                hm_modify s (\<lambda>r. r\<lparr>sess_state := Runnable, sess_in_ready := True\<rparr>)
                                  (core_sessions c2),
                              core_ready := core_ready c2 @ [s]\<rparr>)
                     else (Inr [], c2)
                 | OutcomeErr e \<Rightarrow> terminalize s Failed (Some e) c2)))"

definition cancel :: "session_id \<Rightarrow> scheduler_core \<Rightarrow> sched_result" where
  "cancel s c =
     (case hm_get (core_sessions c) s of
        None \<Rightarrow> (Inl (UnknownSession s), c)
      | Some r \<Rightarrow>
         (case sess_state r of
            Finished \<Rightarrow> (Inl (IllegalTransition s Finished), c)
          | Failed \<Rightarrow> (Inl (IllegalTransition s Failed), c)
          | Cancelling \<Rightarrow> (Inr [], c)
          | _ \<Rightarrow> (Inr (map CancelTicket (sess_inflight r)),
                  take_inflight s Cancelling (sess_inflight r) (remove_from_ready s c))))"

definition finish :: "session_id \<Rightarrow> scheduler_core \<Rightarrow> sched_result" where
  "finish s c =
     (case hm_get (core_sessions c) s of
        None \<Rightarrow> (Inl (UnknownSession s), c)
      | Some r \<Rightarrow>
         (case sess_state r of
            Finished \<Rightarrow> (Inr [], c)
          | Failed \<Rightarrow> (Inl (IllegalTransition s Failed), c)
          | _ \<Rightarrow> terminalize s Finished None c))"

definition fail :: "session_id \<Rightarrow> string \<Rightarrow> scheduler_core \<Rightarrow> sched_result" where
  "fail s e c =
     (case hm_get (core_sessions c) s of
        None \<Rightarrow> (Inl (UnknownSession s), c)
      | Some r \<Rightarrow>
         (case sess_state r of
            Failed \<Rightarrow> (Inr [], c)
          | Finished \<Rightarrow> (Inl (IllegalTransition s Finished), c)
          | _ \<Rightarrow> terminalize s Failed (Some e) c))"

text \<open>The \<^verbatim>\<open>while let\<close> loop of \<^verbatim>\<open>step\<close>, over the queue that is left.\<close>

fun step_loop ::
  "session_id list \<Rightarrow> (session_id, session) hash_map \<Rightarrow>
     step_result \<times> session_id list \<times> (session_id, session) hash_map" where
  "step_loop [] ss = (Idle, [], ss)"
| "step_loop (s # ready) ss =
     (case hm_get ss s of
        None \<Rightarrow> step_loop ready ss
      | Some r \<Rightarrow>
          if sess_state r \<noteq> Runnable \<or> \<not> sess_in_ready r then step_loop ready ss
          else (Run s, ready, hm_modify s (\<lambda>r. r\<lparr>sess_in_ready := False\<rparr>) ss))"

definition step :: "scheduler_core \<Rightarrow> step_result \<times> scheduler_core" where
  "step c =
     (case step_loop (core_ready c) (core_sessions c) of
        (res, ready, ss) \<Rightarrow> (res, c\<lparr>core_ready := ready, core_sessions := ss\<rparr>))"

definition requeue :: "session_id \<Rightarrow> scheduler_core \<Rightarrow> scheduler_core" where
  "requeue s c = enqueue_if_runnable s c"

text \<open>The debug-build checker; \<open>False\<close> is a failed assertion.\<close>

definition assert_invariants :: "scheduler_core \<Rightarrow> bool" where
  "assert_invariants c \<longleftrightarrow>
     distinct (core_ready c)
   \<and> list_all (\<lambda>s. case hm_get (core_sessions c) s of
        None \<Rightarrow> False
      | Some r \<Rightarrow> sess_in_ready r \<and> sess_state r = Runnable) (core_ready c)
   \<and> list_all (\<lambda>(s, r).
        sess_in_ready r = (s \<in> set (core_ready c))
      \<and> (sess_state r \<in> {Finished, Failed} \<longrightarrow> \<not> sess_in_ready r)
      \<and> list_all (\<lambda>t. map_option fst (hm_get (core_inflight c) t) = Some s) (sess_inflight r))
       (core_sessions c)
   \<and> list_all (\<lambda>(t, s, g).
        case hm_get (core_sessions c) s of
          None \<Rightarrow> False
        | Some r \<Rightarrow> t \<in> set (sess_inflight r))
       (core_inflight c)"

section \<open>The invariant\<close>

definition session_ok :: "scheduler_core \<Rightarrow> session_id \<Rightarrow> session \<Rightarrow> bool" where
  "session_ok c s r \<longleftrightarrow>
     sess_id r = s
   \<and> session_no s < core_next_session c
   \<and> sess_in_ready r = (s \<in> set (core_ready c))
   \<and> (sess_in_ready r \<longrightarrow> sess_state r = Runnable)
   \<and> distinct (sess_inflight r)
   \<and> length (sess_inflight r) \<le> max_inflight_per_session (core_budget c)
   \<and> (sess_state r \<in> {Cancelling, Finished, Failed} \<longrightarrow> sess_inflight r = [])
   \<and> (\<forall>t \<in> set (sess_inflight r). \<exists>g. hm_get (core_inflight c) t = Some (s, g))"

definition ticket_ok :: "scheduler_core \<Rightarrow> ticket \<Rightarrow> session_id \<Rightarrow> generation \<Rightarrow> bool" where
  "ticket_ok c t s g \<longleftrightarrow>
     g = Generation (ticket_no t)
   \<and> ticket_no t < core_next_ticket c
   \<and> (\<exists>r. hm_get (core_sessions c) s = Some r \<and> t \<in> set (sess_inflight r))"

definition sched_inv :: "scheduler_core \<Rightarrow> bool" where
  "sched_inv c \<longleftrightarrow>
     hm_ok (core_sessions c)
   \<and> hm_ok (core_inflight c)
   \<and> distinct (core_ready c)
   \<and> (\<forall>s \<in> set (core_ready c). hm_get (core_sessions c) s \<noteq> None)
   \<and> (\<forall>s r. hm_get (core_sessions c) s = Some r \<longrightarrow> session_ok c s r)
   \<and> (\<forall>t s g. hm_get (core_inflight c) t = Some (s, g) \<longrightarrow> ticket_ok c t s g)"

lemma sched_inv_new: "sched_inv (new_core b)"
  by (simp add: sched_inv_def new_core_def)

lemmas inv_defs = sched_inv_def session_ok_def ticket_ok_def

lemma inv_session: "sched_inv c \<Longrightarrow> hm_get (core_sessions c) s = Some r \<Longrightarrow> session_ok c s r"
  by (simp add: sched_inv_def)

lemma inv_ticket: "sched_inv c \<Longrightarrow> hm_get (core_inflight c) t = Some (s, g) \<Longrightarrow> ticket_ok c t s g"
  by (simp add: sched_inv_def)

lemma inv_maps:
  "sched_inv c \<Longrightarrow> hm_ok (core_sessions c) \<and> hm_ok (core_inflight c) \<and> distinct (core_ready c)"
  by (simp add: sched_inv_def)

lemma inv_owner:
  "sched_inv c \<Longrightarrow> hm_get (core_sessions c) s = Some r \<Longrightarrow>
     hm_get (core_inflight c) t = Some (s, g) \<Longrightarrow>
     t \<in> set (sess_inflight r) \<and> g = Generation (ticket_no t) \<and> ticket_no t < core_next_ticket c"
  by (auto simp: ticket_ok_def dest!: inv_ticket)

text \<open>
  Every operation but the creation of a session rewrites one session and
  touches the queue and the ticket table only for that session.  This frame
  rule reduces the preservation of the invariant to the session that moved.
\<close>

lemma inv_frame:
  assumes inv: "sched_inv c"
    and sess: "hm_get (core_sessions c') = (hm_get (core_sessions c))(s \<mapsto> r)"
    and ok: "hm_ok (core_sessions c')" "hm_ok (core_inflight c')" "distinct (core_ready c')"
    and ready: "\<And>x. x \<noteq> s \<Longrightarrow> x \<in> set (core_ready c') \<longleftrightarrow> x \<in> set (core_ready c)"
    and other: "\<And>t x g. x \<noteq> s \<Longrightarrow>
      hm_get (core_inflight c') t = Some (x, g) \<longleftrightarrow> hm_get (core_inflight c) t = Some (x, g)"
    and own: "\<And>t g. hm_get (core_inflight c') t = Some (s, g) \<Longrightarrow> ticket_ok c' t s g"
    and sok: "session_ok c' s r"
    and counters: "core_next_session c' = core_next_session c"
      "core_next_ticket c \<le> core_next_ticket c'" "core_budget c' = core_budget c"
  shows "sched_inv c'"
proof -
  have queued: "hm_get (core_sessions c') x \<noteq> None" if "x \<in> set (core_ready c')" for x
    using inv that ready[of x] sess by (cases "x = s") (auto simp: sched_inv_def)
  have "session_ok c' x q" if "hm_get (core_sessions c') x = Some q" for x q
  proof (cases "x = s")
    case True
    with that sess sok show ?thesis by simp
  next
    case False
    with that sess have "hm_get (core_sessions c) x = Some q" by simp
    then have "session_ok c x q" by (rule inv_session [OF inv])
    with False ready[of x] other[of x] counters show ?thesis by (simp add: session_ok_def)
  qed
  moreover have "ticket_ok c' t x g" if "hm_get (core_inflight c') t = Some (x, g)" for t x g
  proof (cases "x = s")
    case True
    with that own show ?thesis by simp
  next
    case False
    with that other have "ticket_ok c t x g" by (blast intro: inv_ticket [OF inv])
    with False sess counters show ?thesis by (simp add: ticket_ok_def)
  qed
  ultimately show ?thesis using ok queued by (simp add: sched_inv_def)
qed

lemma inv_remove_from_ready:
  assumes inv: "sched_inv c"
  shows "sched_inv (remove_from_ready s c)"
proof (cases "hm_get (core_sessions c) s")
  case None
  with inv have "s \<notin> set (core_ready c)" by (auto simp: sched_inv_def)
  with inv None show ?thesis
    by (simp add: remove_from_ready_def filter_neq_absent hm_modify_absent)
next
  case (Some r)
  show ?thesis
    by (rule inv_frame [OF inv, where s = s and r = "r\<lparr>sess_in_ready := False\<rparr>"])
      (insert inv_maps [OF inv] inv_session [OF inv Some] inv_owner [OF inv Some] Some,
       auto simp: remove_from_ready_def hm_simps session_ok_def ticket_ok_def)
qed

lemma inv_set_state:
  assumes inv: "sched_inv c" and get: "hm_get (core_sessions c) s = Some r"
    and st: "\<not> sess_in_ready r" "st \<in> {Runnable, Blocked}"
  shows "sched_inv (set_state s st c)"
  by (rule inv_frame [OF inv, where s = s and r = "r\<lparr>sess_state := st\<rparr>"])
    (insert inv_maps [OF inv] inv_session [OF inv get] inv_owner [OF inv get] get st,
     auto simp: set_state_def hm_simps session_ok_def ticket_ok_def)

lemma inv_enqueue:
  assumes inv: "sched_inv c"
  shows "sched_inv (enqueue_if_runnable s c)"
proof (cases "\<exists>r. hm_get (core_sessions c) s = Some r \<and> sess_state r = Runnable \<and> \<not> sess_in_ready r")
  case False
  then show ?thesis using inv by (auto simp: enqueue_if_runnable_def split: option.splits)
next
  case True
  then obtain r where get: "hm_get (core_sessions c) s = Some r"
    and r: "sess_state r = Runnable" "\<not> sess_in_ready r" by blast
  show ?thesis
    by (rule inv_frame [OF inv, where s = s and r = "r\<lparr>sess_in_ready := True\<rparr>"])
      (insert inv_maps [OF inv] inv_session [OF inv get] inv_owner [OF inv get] get r,
       auto simp: enqueue_if_runnable_def hm_simps session_ok_def ticket_ok_def)
qed

lemma inv_take_inflight:
  assumes inv: "sched_inv c" and get: "hm_get (core_sessions c) s = Some r"
    and st: "\<not> sess_in_ready r"
  shows "sched_inv (take_inflight s st (sess_inflight r) c)"
proof -
  have sok: "session_ok c s r" by (rule inv_session [OF inv get])
  have own: "hm_get (core_inflight c) t = Some (x, g) \<Longrightarrow> t \<in> set (sess_inflight r) \<longleftrightarrow> x = s" for t x g
    using inv_ticket [OF inv, of t x g] sok get by (auto simp: ticket_ok_def session_ok_def)
  show ?thesis
    by (rule inv_frame [OF inv, where s = s and r = "r\<lparr>sess_inflight := [], sess_state := st\<rparr>"])
      (insert inv_maps [OF inv] sok get st own,
       auto simp: take_inflight_def hm_simps session_ok_def ticket_ok_def
         split: if_splits)
qed

lemma get_remove_from_ready:
  "hm_get (core_sessions (remove_from_ready s c)) x =
     (if x = s then map_option (\<lambda>r. r\<lparr>sess_in_ready := False\<rparr>) (hm_get (core_sessions c) s)
      else hm_get (core_sessions c) x)"
  by (simp add: remove_from_ready_def hm_simps)

lemma inv_terminalize:
  assumes inv: "sched_inv c"
  shows "sched_inv (snd (terminalize s st err c))"
proof (cases "hm_get (core_sessions (remove_from_ready s c)) s")
  case None
  then show ?thesis using inv_remove_from_ready [OF inv] by (simp add: terminalize_def)
next
  case (Some r)
  then have "\<not> sess_in_ready r" by (auto simp: get_remove_from_ready)
  from inv_take_inflight [OF inv_remove_from_ready [OF inv] Some this]
  have "sched_inv (take_inflight s st (sess_inflight r) (remove_from_ready s c))" .
  with Some show ?thesis
    by (auto simp: terminalize_def Let_def split: session_state.split option.split)
qed

lemma inv_block:
  assumes inv: "sched_inv c"
  shows "sched_inv (snd (block s c))"
proof (cases "\<exists>r. hm_get (core_sessions c) s = Some r \<and> sess_state r = Runnable")
  case False
  then show ?thesis using inv by (auto simp: block_def split: option.split session_state.split)
next
  case True
  then obtain r where get: "hm_get (core_sessions c) s = Some r" and st: "sess_state r = Runnable"
    by blast
  have "sched_inv (set_state s Blocked (remove_from_ready s c))"
    by (rule inv_set_state [OF inv_remove_from_ready [OF inv]])
      (auto simp: get_remove_from_ready get)
  with get st show ?thesis by (simp add: block_def)
qed

lemma inv_wake:
  assumes inv: "sched_inv c"
  shows "sched_inv (snd (wake s c))"
proof (cases "\<exists>r. hm_get (core_sessions c) s = Some r \<and> sess_state r = Blocked")
  case False
  then show ?thesis using inv by (auto simp: wake_def split: option.split session_state.split)
next
  case True
  then obtain r where get: "hm_get (core_sessions c) s = Some r" and st: "sess_state r = Blocked"
    by blast
  with inv_session [OF inv get] have "\<not> sess_in_ready r" by (auto simp: session_ok_def)
  then have "sched_inv (enqueue_if_runnable s (set_state s Runnable c))"
    by (intro inv_enqueue inv_set_state [OF inv get]) auto
  with get st show ?thesis by (simp add: wake_def)
qed

lemma inv_cancel:
  assumes inv: "sched_inv c"
  shows "sched_inv (snd (cancel s c))"
proof (cases "hm_get (core_sessions c) s")
  case None
  then show ?thesis using inv by (simp add: cancel_def)
next
  case (Some r)
  have "sched_inv (take_inflight s Cancelling (sess_inflight (r\<lparr>sess_in_ready := False\<rparr>))
          (remove_from_ready s c))"
    by (rule inv_take_inflight [OF inv_remove_from_ready [OF inv]])
      (auto simp: get_remove_from_ready Some)
  with Some inv show ?thesis by (simp add: cancel_def split: session_state.split)
qed

lemma inv_finish: "sched_inv c \<Longrightarrow> sched_inv (snd (finish s c))"
  by (auto simp: finish_def inv_terminalize split: option.split session_state.split)

lemma inv_fail: "sched_inv c \<Longrightarrow> sched_inv (snd (fail s e c))"
  by (auto simp: fail_def inv_terminalize split: option.split session_state.split)

lemma inv_requeue: "sched_inv c \<Longrightarrow> sched_inv (requeue s c)"
  by (simp add: requeue_def inv_enqueue)

lemma inv_create_session:
  assumes inv: "sched_inv c" and room: "core_next_session c < u64_max"
  shows "sched_inv (snd (create_session c))"
proof -
  let ?i = "SessionId (core_next_session c)"
  let ?c = "snd (create_session c)"
  have fresh: "hm_get (core_sessions c) ?i = None"
  proof (cases "hm_get (core_sessions c) ?i")
    case (Some r)
    then show ?thesis using inv_session [OF inv Some] by (simp add: session_ok_def)
  qed
  then have unqueued: "?i \<notin> set (core_ready c)" using inv by (auto simp: sched_inv_def)
  have sess: "core_sessions ?c = hm_insert ?i (new_session ?i) (core_sessions c)"
    and ready: "core_ready ?c = core_ready c @ [?i]"
    and rest: "core_inflight ?c = core_inflight c" "core_budget ?c = core_budget c"
      "core_next_ticket ?c = core_next_ticket c" "core_next_session ?c = core_next_session c + 1"
    using room by (simp_all add: create_session_def alloc_session_id_def wrapping_add_u64_below)
  have "session_ok ?c s r" if "hm_get (core_sessions ?c) s = Some r" for s r
  proof (cases "s = ?i")
    case True
    with that show ?thesis
      by (auto simp: sess ready rest hm_simps new_session_def session_ok_def)
  next
    case False
    with that have "hm_get (core_sessions c) s = Some r" by (simp add: sess hm_simps)
    from inv_session [OF inv this] False show ?thesis
      by (auto simp: session_ok_def ready rest)
  qed
  moreover have "ticket_ok ?c t s g" if "hm_get (core_inflight ?c) t = Some (s, g)" for t s g
    using inv_ticket [OF inv, of t s g] that fresh
    by (auto simp: ticket_ok_def sess rest hm_simps)
  ultimately show ?thesis
    using inv_maps [OF inv] inv unqueued
    by (auto simp: sched_inv_def sess ready rest hm_simps)
qed

lemma inv_submit:
  assumes inv: "sched_inv c" and room: "core_next_ticket c < u64_max"
  shows "sched_inv (snd (submit s a c))"
proof (cases "\<exists>r. hm_get (core_sessions c) s = Some r \<and> sess_state r = Runnable \<and>
    length (sess_inflight r) < max_inflight_per_session (core_budget c)")
  case False
  then show ?thesis using inv by (auto simp: submit_def split: option.split)
next
  case True
  then obtain r where get: "hm_get (core_sessions c) s = Some r" and st: "sess_state r = Runnable"
    "length (sess_inflight r) < max_inflight_per_session (core_budget c)" by blast
  let ?t = "Ticket (core_next_ticket c)"
  have fresh: "hm_get (core_inflight c) ?t = None"
  proof (cases "hm_get (core_inflight c) ?t")
    case (Some sg)
    then show ?thesis using inv_ticket [OF inv, of ?t "fst sg" "snd sg"] by (simp add: ticket_ok_def)
  qed
  have sok: "session_ok c s r" by (rule inv_session [OF inv get])
  with fresh have new: "?t \<notin> set (sess_inflight r)" by (auto simp: session_ok_def)
  show ?thesis
    by (rule inv_frame [OF inv, where s = s and r = "r\<lparr>sess_inflight := sess_inflight r @ [?t]\<rparr>"])
      (insert inv_maps [OF inv] sok inv_owner [OF inv get] get st fresh new room,
       auto simp: submit_def alloc_ticket_def wrapping_add_u64_below hm_simps session_ok_def
         ticket_ok_def Let_def less_Suc_eq split: if_splits)
qed

text \<open>The state after a live ticket has been taken off its owner.\<close>

definition drop_ticket :: "ticket \<Rightarrow> session_id \<Rightarrow> scheduler_core \<Rightarrow> scheduler_core" where
  "drop_ticket t s c = c\<lparr>
     core_inflight := hm_remove t (core_inflight c),
     core_sessions := hm_modify s
       (\<lambda>r. r\<lparr>sess_inflight := filter (\<lambda>owned. owned \<noteq> t) (sess_inflight r)\<rparr>) (core_sessions c)\<rparr>"

lemma inv_drop_ticket:
  assumes inv: "sched_inv c" and own: "hm_get (core_inflight c) t = Some (s, g)"
  shows "sched_inv (drop_ticket t s c)"
proof -
  from inv_ticket [OF inv own] obtain r where get: "hm_get (core_sessions c) s = Some r"
    by (auto simp: ticket_ok_def)
  have sok: "session_ok c s r" by (rule inv_session [OF inv get])
  have len: "length (filter (\<lambda>owned. owned \<noteq> t) (sess_inflight r))
      \<le> max_inflight_per_session (core_budget c)"
    using sok unfolding session_ok_def by (blast intro: order_trans [OF length_filter_le])
  show ?thesis
    by (rule inv_frame [OF inv, where s = s and
          r = "r\<lparr>sess_inflight := filter (\<lambda>owned. owned \<noteq> t) (sess_inflight r)\<rparr>"])
      (insert inv_maps [OF inv] sok inv_owner [OF inv get] get own len,
       auto simp: drop_ticket_def hm_simps session_ok_def ticket_ok_def split: if_splits)
qed

lemma complete_live:
  assumes own: "hm_get (core_inflight c) t = Some (s, g)"
    and get: "hm_get (core_sessions c) s = Some r"
    and unready: "sess_state r = Blocked \<longrightarrow> \<not> sess_in_ready r"
  shows "complete t out c =
    (case out of
       OutcomeOk \<Rightarrow>
         if sess_state r = Blocked \<and> filter (\<lambda>owned. owned \<noteq> t) (sess_inflight r) = []
         then (Inr [WakeSession s], enqueue_if_runnable s (set_state s Runnable (drop_ticket t s c)))
         else (Inr [], drop_ticket t s c)
     | OutcomeErr e \<Rightarrow> terminalize s Failed (Some e) (drop_ticket t s c))"
proof -
  have wake: "enqueue_if_runnable s (set_state s Runnable (drop_ticket t s c)) =
      (drop_ticket t s c)\<lparr>core_sessions :=
         hm_modify s (\<lambda>r. r\<lparr>sess_state := Runnable, sess_in_ready := True\<rparr>)
           (core_sessions (drop_ticket t s c)),
       core_ready := core_ready (drop_ticket t s c) @ [s]\<rparr>" if "sess_state r = Blocked"
    using get that unready
    by (simp add: enqueue_if_runnable_def set_state_def drop_ticket_def hm_simps hm_modify_modify)
  show ?thesis
    using own get wake by (simp add: complete_def Let_def drop_ticket_def split: outcome.split)
qed

lemma inv_complete:
  assumes inv: "sched_inv c"
  shows "sched_inv (snd (complete t out c))"
proof (cases "hm_get (core_inflight c) t")
  case None
  then show ?thesis using inv by (simp add: complete_def)
next
  case (Some sg)
  then obtain s g where own: "hm_get (core_inflight c) t = Some (s, g)" by (cases sg) auto
  from inv_ticket [OF inv own] obtain r where get: "hm_get (core_sessions c) s = Some r"
    by (auto simp: ticket_ok_def)
  have unready: "sess_state r = Blocked \<longrightarrow> \<not> sess_in_ready r"
    using inv_session [OF inv get] by (auto simp: session_ok_def)
  have inv': "sched_inv (drop_ticket t s c)" by (rule inv_drop_ticket [OF inv own])
  have get': "hm_get (core_sessions (drop_ticket t s c)) s =
      Some (r\<lparr>sess_inflight := filter (\<lambda>owned. owned \<noteq> t) (sess_inflight r)\<rparr>)"
    using get by (simp add: drop_ticket_def hm_simps)
  have "sched_inv (enqueue_if_runnable s (set_state s Runnable (drop_ticket t s c)))"
    if "\<not> sess_in_ready r"
    using that by (intro inv_enqueue inv_set_state [OF inv' get']) auto
  then show ?thesis
    using unready inv' by (auto simp: complete_live [OF own get unready] inv_terminalize
        split: outcome.split)
qed

text \<open>Under the invariant no queue entry is stale, so \<^verbatim>\<open>step\<close> is a plain dequeue.\<close>

lemma step_dequeue:
  assumes inv: "sched_inv c"
  shows "step c =
    (case core_ready c of
       [] \<Rightarrow> (Idle, c)
     | s # ready \<Rightarrow>
         (Run s, c\<lparr>core_ready := ready,
            core_sessions := hm_modify s (\<lambda>r. r\<lparr>sess_in_ready := False\<rparr>) (core_sessions c)\<rparr>))"
proof (cases "core_ready c")
  case Nil
  then show ?thesis by (simp add: step_def)
next
  case (Cons s ready)
  with inv obtain r where get: "hm_get (core_sessions c) s = Some r"
    by (auto simp: sched_inv_def)
  with inv_session [OF inv get] Cons have "sess_state r = Runnable" "sess_in_ready r"
    by (auto simp: session_ok_def)
  with Cons get show ?thesis by (simp add: step_def)
qed

lemma inv_step:
  assumes inv: "sched_inv c"
  shows "sched_inv (snd (step c))"
proof (cases "core_ready c")
  case Nil
  then show ?thesis using inv by (simp add: step_dequeue)
next
  case (Cons s ready)
  with inv obtain r where get: "hm_get (core_sessions c) s = Some r"
    by (auto simp: sched_inv_def)
  have "snd (step c) = remove_from_ready s c"
    using inv_maps [OF inv] Cons
    by (simp add: step_dequeue [OF inv] remove_from_ready_def filter_neq_absent)
  then show ?thesis by (simp add: inv_remove_from_ready [OF inv])
qed

end
