(* ===== verification/Trace_Replay.thy ===== *)
theory Trace_Replay
  imports Prelude
begin

text \<open>
  The two deterministic simulators (\<^verbatim>\<open>sched/sim.rs\<close> and
  \<^verbatim>\<open>sched/residency_sim.rs\<close>) have the same shape: apply an operation, append one
  event to the trace, and replay a trace against a fresh simulator.  The
  locale states that shape as a contract; what follows from it is proved once.
\<close>

record ('op, 'out) trace_event =
  ev_seq :: nat
  ev_op :: 'op
  ev_outcome :: 'out

record ('op, 'out) replay_error =
  re_seq :: nat
  re_expected :: "('op, 'out) trace_event"
  re_actual :: "('op, 'out) trace_event"

locale trace_simulator =
  fixes fresh :: 'sim
    and apply_op :: "'sim \<Rightarrow> 'op \<Rightarrow> 'out \<times> 'sim"
    and trace_of :: "'sim \<Rightarrow> ('op, 'out) trace_event list"
    and replay_from :: "'sim \<Rightarrow> ('op, 'out) trace_event list \<Rightarrow> ('op, 'out) replay_error + unit"
  assumes trace_fresh: "trace_of fresh = []"
    and trace_apply: "\<exists>n. trace_of (snd (apply_op s x)) =
      trace_of s @ [\<lparr>ev_seq = n, ev_op = x, ev_outcome = fst (apply_op s x)\<rparr>]"
    and replay_Nil: "replay_from s [] = Inr ()"
    and replay_Cons: "replay_from s (e # es) =
      (let s' = snd (apply_op s (ev_op e)); actual = last (trace_of s') in
       if actual \<noteq> e
       then Inl \<lparr>re_seq = ev_seq e, re_expected = e, re_actual = actual\<rparr>
       else replay_from s' es)"
begin

lemma trace_step:
  "trace_of (snd (apply_op s x)) = trace_of s @ [last (trace_of (snd (apply_op s x)))]"
  using trace_apply [of s x] by auto

lemma op_step: "ev_op (last (trace_of (snd (apply_op s x)))) = x"
  using trace_apply [of s x] by auto

lemma trace_extends:
  "\<exists>es. trace_of (fold (\<lambda>x s. snd (apply_op s x)) xs s) = trace_of s @ es \<and> map ev_op es = xs"
proof (induction xs arbitrary: s)
  case (Cons x xs)
  let ?s = "snd (apply_op s x)"
  from Cons.IH [of ?s] obtain es where
    "trace_of (fold (\<lambda>x s. snd (apply_op s x)) xs ?s) = trace_of ?s @ es" "map ev_op es = xs"
    by blast
  then show ?case
    using trace_step [of s x] op_step [of s x]
    by (intro exI [where x = "last (trace_of ?s) # es"]) simp
qed simp

lemma replay_iff:
  "replay_from s es = Inr () \<longleftrightarrow>
     trace_of (fold (\<lambda>x s. snd (apply_op s x)) (map ev_op es) s) = trace_of s @ es"
proof (induction es arbitrary: s)
  case Nil
  then show ?case by (simp add: replay_Nil)
next
  case (Cons e es)
  let ?s = "snd (apply_op s (ev_op e))"
  obtain rest where rest:
    "trace_of (fold (\<lambda>x s. snd (apply_op s x)) (map ev_op es) ?s) = trace_of ?s @ rest"
    using trace_extends by blast
  obtain a where a: "trace_of ?s = trace_of s @ [a]" using trace_step by blast
  show ?case
    using Cons.IH [of ?s] rest by (auto simp: replay_Cons Let_def a)
qed

lemma replay_fresh_iff:
  "replay_from fresh es = Inr () \<longleftrightarrow>
     trace_of (fold (\<lambda>x s. snd (apply_op s x)) (map ev_op es) fresh) = es"
  by (simp add: replay_iff trace_fresh)

lemma replay_own_trace:
  "replay_from fresh (trace_of (fold (\<lambda>x s. snd (apply_op s x)) xs fresh)) = Inr ()"
proof -
  obtain es where "trace_of (fold (\<lambda>x s. snd (apply_op s x)) xs fresh) = es" "map ev_op es = xs"
    using trace_extends [of xs fresh] by (auto simp: trace_fresh)
  then show ?thesis by (simp add: replay_fresh_iff)
qed

end

text \<open>
  Counters of fixed width bound how long a run the guarantees cover.  \<open>room s n\<close>
  says that the state is consistent and that \<open>n\<close> more operations fit; each
  admissible operation uses up one.  What a single operation keeps, a whole
  run keeps.
\<close>

locale bounded_machine =
  fixes step :: "'s \<Rightarrow> 'op \<Rightarrow> 's"
    and admissible :: "'op \<Rightarrow> bool"
    and room :: "'s \<Rightarrow> nat \<Rightarrow> bool"
  assumes room_step: "room s (Suc n) \<Longrightarrow> admissible x \<Longrightarrow> room (step s x) n"
    and room_less: "room s (Suc n) \<Longrightarrow> room s n"
begin

lemma room_mono: "room s (m + n) \<Longrightarrow> room s n"
  by (induction m) (auto dest: room_less)

lemma room_run: "room s (length xs + n) \<Longrightarrow> list_all admissible xs \<Longrightarrow> room (foldl step s xs) n"
  by (induction xs arbitrary: s) (auto dest: room_step)

lemma stable_run:
  assumes "room s (length xs)" "list_all admissible xs" "list_all Q xs" "P s"
    and step: "\<And>s n x. room s (Suc n) \<Longrightarrow> admissible x \<Longrightarrow> Q x \<Longrightarrow> P s \<Longrightarrow> P (step s x)"
  shows "P (foldl step s xs)"
  using assms(1-4)
proof (induction xs arbitrary: s)
  case (Cons x xs)
  then have "room (step s x) (length xs)" "P (step s x)"
    using room_step [of s "length xs" x] step [of s "length xs" x] by auto
  with Cons show ?case by simp
qed simp

end

end
