(* ===== verification/Sched_Sim.thy ===== *)
theory Sched_Sim
  imports Sched_Core Trace_Replay
begin

text \<open>
  The deterministic simulator of \<^verbatim>\<open>logan-core/src/sched/sim.rs\<close>, which drives the
  production scheduler with scripted operations.  Its \<^verbatim>\<open>execute\<close> is also the
  transition function over which the run-level properties of the scheduler are
  stated.
\<close>

datatype sim_op =
    CreateSession
  | Submit session_id action
  | StepOp
  | Requeue session_id
  | Block session_id
  | Wake session_id
  | Complete ticket outcome
  | CancelOp session_id
  | Finish session_id
  | Fail session_id string

datatype sim_outcome =
    SessionCreated session_id
  | Submitted ticket effect
  | Stepped step_result
  | Effects "effect list"
  | Noop
  | SimError sched_error

type_synonym sim_event = "(sim_op, sim_outcome) trace_event"

record scheduler_simulator =
  sim_core :: scheduler_core
  sim_trace :: "sim_event list"
  sim_next_seq :: nat

definition new_simulator :: "budget \<Rightarrow> scheduler_simulator" where
  "new_simulator b = \<lparr>sim_core = new_core b, sim_trace = [], sim_next_seq = 0\<rparr>"

definition effects :: "sched_result \<Rightarrow> sim_outcome \<times> scheduler_core" where
  "effects res =
     (case res of
        (Inr es, c) \<Rightarrow> (if es = [] then Noop else Effects es, c)
      | (Inl e, c) \<Rightarrow> (SimError e, c))"

fun execute :: "scheduler_core \<Rightarrow> sim_op \<Rightarrow> sim_outcome \<times> scheduler_core" where
  "execute c CreateSession = (let (s, c') = create_session c in (SessionCreated s, c'))"
| "execute c (Submit s a) =
     (case submit s a c of
        (Inr (t, e), c') \<Rightarrow> (Submitted t e, c')
      | (Inl e, c') \<Rightarrow> (SimError e, c'))"
| "execute c StepOp = (let (r, c') = step c in (Stepped r, c'))"
| "execute c (Requeue s) = (Noop, requeue s c)"
| "execute c (Block s) = effects (block s c)"
| "execute c (Wake s) = effects (wake s c)"
| "execute c (Complete t out) = effects (complete t out c)"
| "execute c (CancelOp s) = effects (cancel s c)"
| "execute c (Finish s) = effects (finish s c)"
| "execute c (Fail s e) = effects (fail s e c)"

definition apply_sim :: "scheduler_simulator \<Rightarrow> sim_op \<Rightarrow> sim_outcome \<times> scheduler_simulator" where
  "apply_sim sim op =
     (let (out, c) = execute (sim_core sim) op in
      (out, \<lparr>sim_core = c,
             sim_trace = sim_trace sim @
               [\<lparr>ev_seq = sim_next_seq sim, ev_op = op, ev_outcome = out\<rparr>],
             sim_next_seq = wrapping_add_u64 (sim_next_seq sim) 1\<rparr>))"

fun replay_from :: "scheduler_simulator \<Rightarrow> sim_event list \<Rightarrow> (sim_op, sim_outcome) replay_error + unit"
where
  "replay_from sim [] = Inr ()"
| "replay_from sim (e # es) =
     (let (out, sim') = apply_sim sim (ev_op e); actual = last (sim_trace sim') in
      if actual \<noteq> e
      then Inl \<lparr>re_seq = ev_seq e, re_expected = e, re_actual = actual\<rparr>
      else replay_from sim' es)"

definition replay :: "budget \<Rightarrow> sim_event list \<Rightarrow> (sim_op, sim_outcome) replay_error + unit" where
  "replay b expected = replay_from (new_simulator b) expected"

type_synonym completion_script = "(ticket \<times> outcome) list"

definition script_next :: "completion_script \<Rightarrow> (ticket \<times> outcome) option \<times> completion_script" where
  "script_next cs = (if cs = [] then (None, cs) else (Some (cs ! 0), drop 1 cs))"

text \<open>A whole script, and the scheduler and the outcomes it leads to.\<close>

definition run_sim :: "budget \<Rightarrow> sim_op list \<Rightarrow> scheduler_simulator" where
  "run_sim b ops = fold (\<lambda>op sim. snd (apply_sim sim op)) ops (new_simulator b)"

fun run_core :: "scheduler_core \<Rightarrow> sim_op list \<Rightarrow> scheduler_core" where
  "run_core c [] = c"
| "run_core c (op # ops) = run_core (snd (execute c op)) ops"

fun run_outcomes :: "scheduler_core \<Rightarrow> sim_op list \<Rightarrow> sim_outcome list" where
  "run_outcomes c [] = []"
| "run_outcomes c (op # ops) = fst (execute c op) # run_outcomes (snd (execute c op)) ops"

interpretation sim: trace_simulator "new_simulator b" apply_sim sim_trace replay_from for b
  by unfold_locales
    (auto simp: new_simulator_def apply_sim_def Let_def split: prod.split)

lemma snd_effects [simp]: "snd (effects res) = snd res"
  by (auto simp: effects_def split: prod.split sum.split)

lemma snd_execute [simp]:
  "snd (execute c CreateSession) = snd (create_session c)"
  "snd (execute c (Submit s a)) = snd (submit s a c)"
  "snd (execute c StepOp) = snd (step c)"
  by (auto simp: Let_def split: prod.split sum.split)

declare execute.simps(1-3) [simp del]

lemma sim_core_run:
  "sim_core (fold (\<lambda>op sim. snd (apply_sim sim op)) ops sim) = run_core (sim_core sim) ops"
  by (induction ops arbitrary: sim) (simp_all add: apply_sim_def Let_def split: prod.split)

lemma sim_core_run_sim: "sim_core (run_sim b ops) = run_core (new_core b) ops"
  by (simp add: run_sim_def sim_core_run new_simulator_def)

section \<open>The invariant along runs\<close>

lemma inv_execute:
  assumes "sched_inv c" "core_next_session c < u64_max" "core_next_ticket c < u64_max"
  shows "sched_inv (snd (execute c op))"
  using assms by (cases op)
    (simp_all add: inv_create_session inv_submit inv_step inv_requeue
      inv_block inv_wake inv_complete inv_cancel inv_finish inv_fail)

text \<open>Identifiers are handed out one at a time, so a run of \<open>n\<close> operations uses at most \<open>n\<close>.\<close>

lemma wrapping_add_u64_le: "wrapping_add_u64 a (Suc 0) \<le> Suc a"
  by (simp add: wrapping_add_u64_def mod_less_eq_dividend)

lemma counters_terminalize [simp]:
  "core_next_session (snd (terminalize s st e c)) = core_next_session c"
  "core_next_ticket (snd (terminalize s st e c)) = core_next_ticket c"
  by (auto simp: terminalize_def Let_def take_inflight_def remove_from_ready_def
      split: option.split session_state.split)

lemma counters_enqueue [simp]:
  "core_next_session (enqueue_if_runnable s c) = core_next_session c"
  "core_next_ticket (enqueue_if_runnable s c) = core_next_ticket c"
  by (auto simp: enqueue_if_runnable_def split: option.split)

lemmas op_defs = block_def wake_def complete_def cancel_def finish_def fail_def requeue_def
  set_state_def take_inflight_def remove_from_ready_def step_def

lemma counters_execute:
  "core_next_session (snd (execute c op)) \<le> Suc (core_next_session c)"
  "core_next_ticket (snd (execute c op)) \<le> Suc (core_next_ticket c)"
  by (cases op; auto simp: op_defs create_session_def submit_def
      alloc_session_id_def alloc_ticket_def wrapping_add_u64_le Let_def
      split: option.split session_state.split outcome.split prod.split)+

lemma inv_run_core:
  assumes "sched_inv c" "core_next_session c + length ops \<le> u64_max"
    "core_next_ticket c + length ops \<le> u64_max"
  shows "sched_inv (run_core c ops)"
  using assms
proof (induction ops arbitrary: c)
  case (Cons op ops)
  have "sched_inv (snd (execute c op))"
    using Cons.prems by (intro inv_execute) auto
  moreover have "core_next_session (snd (execute c op)) + length ops \<le> u64_max"
    "core_next_ticket (snd (execute c op)) + length ops \<le> u64_max"
    using counters_execute [of c op] Cons.prems by simp_all
  ultimately show ?case using Cons.IH by simp
qed simp

lemma inv_run_new: "length ops \<le> u64_max \<Longrightarrow> sched_inv (run_core (new_core b) ops)"
  by (rule inv_run_core [OF sched_inv_new]) (simp_all add: new_core_def)

text \<open>The equations that evaluate a scheduler on a concrete script.\<close>

lemmas sched_eval = new_core_def create_session_def alloc_session_id_def new_session_def
  submit_def alloc_ticket_def block_def wake_def complete_def cancel_def finish_def fail_def
  terminalize_def requeue_def enqueue_if_runnable_def set_state_def take_inflight_def
  remove_from_ready_def step_def effects_def execute.simps session_state_of_def
  inflight_count_def default_budget_def wrapping_add_u64_def u64_max_def Let_def

end
