(* ===== verification/Sched_Spec.thy ===== *)
theory Sched_Spec
  imports Sched_Sim
begin

text \<open>
  What the scheduler promises, without its bookkeeping: a lifecycle state per
  session, one queue, and an ownership relation from live tickets to sessions.
  There is no membership bit and no per-session ticket list.  The theory shows
  that every operation of the detailed model refines the operation stated here.
\<close>

record abs_sched =
  abs_state :: "session_id \<rightharpoonup> session_state"
  abs_queue :: "session_id list"
  abs_owner :: "ticket \<rightharpoonup> session_id"
  abs_next_session :: nat
  abs_next_ticket :: nat
  abs_limit :: nat

definition abs_leave :: "session_id \<Rightarrow> session_state \<Rightarrow> abs_sched \<Rightarrow> abs_sched" where
  "abs_leave s st a = a\<lparr>
     abs_state := (abs_state a)(s \<mapsto> st),
     abs_queue := filter (\<lambda>x. x \<noteq> s) (abs_queue a),
     abs_owner := (\<lambda>t. if abs_owner a t = Some s then None else abs_owner a t)\<rparr>"

definition abs_wake :: "session_id \<Rightarrow> abs_sched \<Rightarrow> abs_sched" where
  "abs_wake s a = a\<lparr>abs_state := (abs_state a)(s \<mapsto> Runnable), abs_queue := abs_queue a @ [s]\<rparr>"

fun spec_exec :: "abs_sched \<Rightarrow> sim_op \<Rightarrow> abs_sched" where
  "spec_exec a CreateSession =
     (let s = SessionId (abs_next_session a) in
      a\<lparr>abs_state := (abs_state a)(s \<mapsto> Runnable), abs_queue := abs_queue a @ [s],
        abs_next_session := Suc (abs_next_session a)\<rparr>)"
| "spec_exec a (Submit s act) =
     (if abs_state a s = Some Runnable \<and> card {t. abs_owner a t = Some s} < abs_limit a
      then a\<lparr>abs_owner := (abs_owner a)(Ticket (abs_next_ticket a) \<mapsto> s),
             abs_next_ticket := Suc (abs_next_ticket a)\<rparr>
      else a)"
| "spec_exec a StepOp = a\<lparr>abs_queue := tl (abs_queue a)\<rparr>"
| "spec_exec a (Requeue s) =
     (if abs_state a s = Some Runnable \<and> s \<notin> set (abs_queue a)
      then a\<lparr>abs_queue := abs_queue a @ [s]\<rparr> else a)"
| "spec_exec a (Block s) =
     (if abs_state a s = Some Runnable
      then a\<lparr>abs_state := (abs_state a)(s \<mapsto> Blocked),
             abs_queue := filter (\<lambda>x. x \<noteq> s) (abs_queue a)\<rparr>
      else a)"
| "spec_exec a (Wake s) = (if abs_state a s = Some Blocked then abs_wake s a else a)"
| "spec_exec a (Complete t OutcomeOk) =
     (case abs_owner a t of
        None \<Rightarrow> a
      | Some s \<Rightarrow>
          (let a' = a\<lparr>abs_owner := (abs_owner a)(t := None)\<rparr> in
           if abs_state a s = Some Blocked \<and> s \<notin> ran (abs_owner a') then abs_wake s a' else a'))"
| "spec_exec a (Complete t (OutcomeErr e)) =
     (case abs_owner a t of None \<Rightarrow> a | Some s \<Rightarrow> abs_leave s Failed a)"
| "spec_exec a (CancelOp s) =
     (if abs_state a s \<in> {Some Runnable, Some Blocked} then abs_leave s Cancelling a else a)"
| "spec_exec a (Finish s) =
     (if abs_state a s \<in> {Some Runnable, Some Blocked, Some Cancelling}
      then abs_leave s Finished a else a)"
| "spec_exec a (Fail s e) =
     (if abs_state a s \<in> {Some Runnable, Some Blocked, Some Cancelling}
      then abs_leave s Failed a else a)"

definition abs_of :: "scheduler_core \<Rightarrow> abs_sched" where
  "abs_of c = \<lparr>
     abs_state = session_state_of c,
     abs_queue = core_ready c,
     abs_owner = (\<lambda>t. map_option fst (hm_get (core_inflight c) t)),
     abs_next_session = core_next_session c,
     abs_next_ticket = core_next_ticket c,
     abs_limit = max_inflight_per_session (core_budget c)\<rparr>"

lemma abs_sel [simp]:
  "abs_state (abs_of c) = session_state_of c"
  "abs_queue (abs_of c) = core_ready c"
  "abs_owner (abs_of c) t = map_option fst (hm_get (core_inflight c) t)"
  "abs_next_session (abs_of c) = core_next_session c"
  "abs_next_ticket (abs_of c) = core_next_ticket c"
  "abs_limit (abs_of c) = max_inflight_per_session (core_budget c)"
  by (simp_all add: abs_of_def)

lemma abs_eqI:
  assumes "\<And>s. session_state_of c s = abs_state a s" "core_ready c = abs_queue a"
    "\<And>t. map_option fst (hm_get (core_inflight c) t) = abs_owner a t"
    "core_next_session c = abs_next_session a" "core_next_ticket c = abs_next_ticket a"
    "max_inflight_per_session (core_budget c) = abs_limit a"
  shows "abs_of c = a"
  using assms by (cases a) (auto simp: abs_of_def fun_eq_iff)

text \<open>Under the invariant the ticket list of a session is exactly what it owns.\<close>

lemma inflight_eq_owned:
  assumes inv: "sched_inv c" and get: "hm_get (core_sessions c) s = Some r"
  shows "set (sess_inflight r) = {t. map_option fst (hm_get (core_inflight c) t) = Some s}"
  using inv_session [OF inv get] inv_owner [OF inv get] by (auto simp: session_ok_def)

lemma card_owned:
  assumes inv: "sched_inv c" and get: "hm_get (core_sessions c) s = Some r"
  shows "card {t. map_option fst (hm_get (core_inflight c) t) = Some s} = length (sess_inflight r)"
proof -
  have "card (set (sess_inflight r)) = length (sess_inflight r)"
    using inv_session [OF inv get] by (auto simp: session_ok_def distinct_card)
  then show ?thesis by (simp only: inflight_eq_owned [OF inv get])
qed

lemma abs_leave_refines:
  assumes inv: "sched_inv c" and get: "hm_get (core_sessions c) s = Some r"
  shows "abs_of (take_inflight s st (sess_inflight r) (remove_from_ready s c)) =
    abs_leave s st (abs_of c)"
proof -
  have "t \<in> set (sess_inflight r) \<longleftrightarrow> map_option fst (hm_get (core_inflight c) t) = Some s" for t
    using inflight_eq_owned [OF inv get] by auto
  then show ?thesis
    by (intro abs_eqI)
      (auto simp: abs_leave_def take_inflight_def remove_from_ready_def session_state_of_def
        hm_simps get split: if_splits)
qed

lemma terminalize_refines:
  assumes inv: "sched_inv c" and get: "hm_get (core_sessions c) s = Some r"
  shows "abs_of (snd (terminalize s st e c)) = abs_leave s st (abs_of c)"
  using abs_leave_refines [OF inv get]
  by (auto simp: terminalize_def Let_def get_remove_from_ready get
      split: session_state.split option.split)

lemma wake_refines:
  assumes inv: "sched_inv c" and get: "hm_get (core_sessions c) s = Some r"
    and st: "sess_state r = Blocked"
  shows "abs_of (enqueue_if_runnable s (set_state s Runnable c)) = abs_wake s (abs_of c)"
  using inv_session [OF inv get] st
  by (intro abs_eqI)
    (auto simp: abs_wake_def enqueue_if_runnable_def set_state_def session_state_of_def
      session_ok_def hm_simps get)

lemma drop_ticket_refines:
  assumes "hm_get (core_inflight c) t = Some (s, g)"
  shows "abs_of (drop_ticket t s c) = (abs_of c)\<lparr>abs_owner := (abs_owner (abs_of c))(t := None)\<rparr>"
  using assms
  by (intro abs_eqI) (auto simp: drop_ticket_def session_state_of_def hm_simps option.map_comp
      comp_def)

lemma complete_refines:
  assumes inv: "sched_inv c"
  shows "abs_of (snd (complete t out c)) = spec_exec (abs_of c) (Complete t out)"
proof (cases "hm_get (core_inflight c) t")
  case None
  then show ?thesis by (cases out) (simp_all add: complete_def)
next
  case (Some sg)
  then obtain s g where own: "hm_get (core_inflight c) t = Some (s, g)" by (cases sg) auto
  from inv_ticket [OF inv own] obtain r where get: "hm_get (core_sessions c) s = Some r"
    by (auto simp: ticket_ok_def)
  have unready: "sess_state r = Blocked \<longrightarrow> \<not> sess_in_ready r"
    using inv_session [OF inv get] by (auto simp: session_ok_def)
  let ?r = "r\<lparr>sess_inflight := filter (\<lambda>owned. owned \<noteq> t) (sess_inflight r)\<rparr>"
  have inv': "sched_inv (drop_ticket t s c)" by (rule inv_drop_ticket [OF inv own])
  have get': "hm_get (core_sessions (drop_ticket t s c)) s = Some ?r"
    using get by (simp add: drop_ticket_def hm_simps)
  have last: "filter (\<lambda>owned. owned \<noteq> t) (sess_inflight r) = [] \<longleftrightarrow>
      s \<notin> ran ((abs_owner (abs_of c))(t := None))"
    using inflight_eq_owned [OF inv' get']
    by (auto simp: drop_ticket_def hm_simps ran_def filter_empty_conv split: if_splits)
  show ?thesis
  proof (cases out)
    case OutcomeOk
    then show ?thesis
      using own get wake_refines [OF inv' get']
      by (simp add: complete_live [OF own get unready] last drop_ticket_refines [OF own]
          session_state_of_def Let_def)
  next
    case (OutcomeErr e)
    have "abs_leave s Failed ((abs_of c)\<lparr>abs_owner := (abs_owner (abs_of c))(t := None)\<rparr>) =
        abs_leave s Failed (abs_of c)"
      using own by (intro abs_sched.equality) (auto simp: abs_leave_def fun_eq_iff)
    with OutcomeErr own show ?thesis
      by (simp add: complete_live [OF own get unready] terminalize_refines [OF inv' get']
          drop_ticket_refines [OF own])
  qed
qed

lemma submit_refines:
  assumes inv: "sched_inv c" and room: "core_next_ticket c < u64_max"
  shows "abs_of (snd (submit s a c)) = spec_exec (abs_of c) (Submit s a)"
proof (cases "hm_get (core_sessions c) s")
  case None
  then show ?thesis by (simp add: submit_def session_state_of_def)
next
  case (Some r)
  show ?thesis
    unfolding submit_def spec_exec.simps abs_sel(3) card_owned [OF inv Some]
    using Some room
    by (auto simp: session_state_of_def alloc_ticket_def wrapping_add_u64_below hm_simps Let_def
        intro!: abs_eqI)
qed

lemma create_refines:
  "core_next_session c < u64_max \<Longrightarrow>
     abs_of (snd (create_session c)) = spec_exec (abs_of c) CreateSession"
  by (intro abs_eqI) (auto simp: create_session_def alloc_session_id_def new_session_def
      session_state_of_def wrapping_add_u64_below hm_simps Let_def)

lemma step_refines:
  assumes inv: "sched_inv c"
  shows "abs_of (snd (step c)) = spec_exec (abs_of c) StepOp"
  by (intro abs_eqI) (auto simp: step_dequeue [OF inv] session_state_of_def hm_simps
      option.map_comp comp_def split: list.split)

lemma requeue_refines:
  assumes inv: "sched_inv c"
  shows "abs_of (requeue s c) = spec_exec (abs_of c) (Requeue s)"
proof (cases "hm_get (core_sessions c) s")
  case None
  then show ?thesis by (simp add: requeue_def enqueue_if_runnable_def session_state_of_def)
next
  case (Some r)
  with inv_session [OF inv Some] show ?thesis
    by (auto simp: requeue_def enqueue_if_runnable_def session_state_of_def session_ok_def
        hm_simps intro!: abs_eqI)
qed

lemma block_refines: "abs_of (snd (block s c)) = spec_exec (abs_of c) (Block s)"
proof (cases "hm_get (core_sessions c) s")
  case None
  then show ?thesis by (simp add: block_def session_state_of_def)
next
  case (Some r)
  then show ?thesis
    by (auto simp: block_def set_state_def remove_from_ready_def session_state_of_def hm_simps
        intro!: abs_eqI split: session_state.split)
qed

lemma execute_refines:
  assumes inv: "sched_inv c" and room: "core_next_session c < u64_max" "core_next_ticket c < u64_max"
  shows "abs_of (snd (execute c op)) = spec_exec (abs_of c) op"
proof (cases op)
  case (Wake s)
  then show ?thesis
    using wake_refines [OF inv]
    by (simp add: wake_def session_state_of_def split: option.split session_state.split)
next
  case (CancelOp s)
  then show ?thesis
    using abs_leave_refines [OF inv]
    by (simp add: cancel_def session_state_of_def split: option.split session_state.split)
next
  case (Finish s)
  then show ?thesis
    using terminalize_refines [OF inv]
    by (simp add: finish_def session_state_of_def split: option.split session_state.split)
next
  case (Fail s e)
  then show ?thesis
    using terminalize_refines [OF inv]
    by (simp add: fail_def session_state_of_def split: option.split session_state.split)
qed (simp_all del: spec_exec.simps add: create_refines submit_refines
      step_refines requeue_refines block_refines complete_refines assms)

end
