(* ===== verification/Sched_Props.thy ===== *)
theory Sched_Props
  imports Sched_Spec
begin

text \<open>
  Properties of the scheduler over whole scripts.  They are proved on the
  specification of \<^theory_text>\<open>Sched_Spec\<close> and carried to the detailed model by the
  refinement.
\<close>

section \<open>One step through the specification\<close>

definition roomy :: "scheduler_core \<Rightarrow> nat \<Rightarrow> bool" where
  "roomy c n \<longleftrightarrow>
     sched_inv c \<and> core_next_session c + n \<le> u64_max \<and> core_next_ticket c + n \<le> u64_max"

lemma roomy_new: "n \<le> u64_max \<Longrightarrow> roomy (new_core b) n"
  by (simp only: roomy_def sched_inv_new) (simp add: new_core_def)

lemma roomy_inv: "roomy c n \<Longrightarrow> sched_inv c"
  by (simp add: roomy_def)

lemma roomy_execute: "roomy c (Suc n) \<Longrightarrow> roomy (snd (execute c op)) n"
  using inv_execute [of c op] counters_execute [of c op] by (auto simp: roomy_def)

interpretation sm: bounded_machine "\<lambda>c op. snd (execute c op)" "\<lambda>_. True" roomy
  by unfold_locales (simp_all add: roomy_execute, simp add: roomy_def)

lemma run_core_foldl: "run_core c ops = foldl (\<lambda>c op. snd (execute c op)) c ops"
  by (induction ops arbitrary: c) auto

lemma roomy_run: "roomy c (length ops + n) \<Longrightarrow> roomy (run_core c ops) n"
  unfolding run_core_foldl by (rule sm.room_run) (simp_all add: list_all_iff)

lemma roomy_refines: "roomy c (Suc n) \<Longrightarrow> abs_of (snd (execute c op)) = spec_exec (abs_of c) op"
  by (rule execute_refines) (auto simp: roomy_def)

lemma run_append: "run_core c (xs @ ys) = run_core (run_core c xs) ys"
  by (induction xs arbitrary: c) auto

lemma state_after:
  "roomy c (Suc n) \<Longrightarrow>
     session_state_of (snd (execute c op)) = abs_state (spec_exec (abs_of c) op)"
  by (metis abs_sel(1) roomy_refines)

lemma queue_after:
  "roomy c (Suc n) \<Longrightarrow> core_ready (snd (execute c op)) = abs_queue (spec_exec (abs_of c) op)"
  by (metis abs_sel(2) roomy_refines)

lemma owner_after:
  "roomy c (Suc n) \<Longrightarrow>
     map_option fst (hm_get (core_inflight (snd (execute c op))) t) =
       abs_owner (spec_exec (abs_of c) op) t"
  by (metis abs_sel(3) roomy_refines)

lemma run_refines:
  "roomy c (length ops) \<Longrightarrow> abs_of (run_core c ops) = foldl spec_exec (abs_of c) ops"
proof (induction ops arbitrary: c)
  case (Cons op ops)
  then show ?case using roomy_execute [of c "length ops" op] roomy_refines [of c _ op] by simp
qed simp

section \<open>Submission\<close>

lemma submit_refused: "submit s act c = (Inl e, c') \<Longrightarrow> c' = c"
  by (auto simp: submit_def Let_def split: option.splits if_splits prod.splits)

lemma submit_accepted:
  assumes "roomy c (Suc n)" "submit s act c = (Inr (t, e), c')"
  shows "t = Ticket (core_next_ticket c)" "core_next_ticket c' = Suc (core_next_ticket c)" "roomy c' n"
    "map_option fst (hm_get (core_inflight c') t) = Some s" "e = Dispatch t act"
    "\<And>u. u \<noteq> t \<Longrightarrow> hm_get (core_inflight c') u = hm_get (core_inflight c) u"
proof -
  show "t = Ticket (core_next_ticket c)" "core_next_ticket c' = Suc (core_next_ticket c)"
    "map_option fst (hm_get (core_inflight c') t) = Some s" "e = Dispatch t act"
    "\<And>u. u \<noteq> t \<Longrightarrow> hm_get (core_inflight c') u = hm_get (core_inflight c) u"
    using assms by (auto simp: submit_def alloc_ticket_def Let_def roomy_def wrapping_add_u64_below hm_simps
        split: option.splits if_splits)
  have "roomy (snd (execute c (Submit s act))) n" by (rule sm.room_step [OF assms(1)]) simp
  with assms(2) show "roomy c' n" by simp
qed

section \<open>The checker never fires\<close>

lemma assert_of_inv:
  assumes inv: "sched_inv c"
  shows "assert_invariants c"
proof -
  have queued: "case hm_get (core_sessions c) s of
      None \<Rightarrow> False | Some r \<Rightarrow> sess_in_ready r \<and> sess_state r = Runnable"
    if "s \<in> set (core_ready c)" for s
  proof -
    from inv that obtain r where get: "hm_get (core_sessions c) s = Some r"
      by (auto simp: sched_inv_def)
    from inv_session [OF inv get] that get show ?thesis by (auto simp: session_ok_def)
  qed
  have session: "session_ok c s r" if "(s, r) \<in> set (core_sessions c)" for s r
    using inv_session [OF inv] hm_in_set_get [OF _ that] inv_maps [OF inv] by blast
  have ticket: "ticket_ok c t s g" if "(t, s, g) \<in> set (core_inflight c)" for t s g
    using inv_ticket [OF inv] hm_in_set_get [OF _ that] inv_maps [OF inv] by blast
  show ?thesis
    unfolding assert_invariants_def list_all_iff
    using inv_maps [OF inv] queued
    by (auto dest!: session ticket simp: session_ok_def ticket_ok_def)
qed

section \<open>Stale tickets and terminal sessions\<close>

definition stale :: "ticket \<Rightarrow> scheduler_core \<Rightarrow> bool" where
  "stale t c \<longleftrightarrow> ticket_no t < core_next_ticket c \<and> hm_get (core_inflight c) t = None"

lemma stale_execute:
  assumes room: "roomy c (Suc n)" and stale: "stale t c"
  shows "stale t (snd (execute c op))"
proof -
  let ?a = "abs_of c"
  have nxt: "core_next_ticket (snd (execute c op)) = abs_next_ticket (spec_exec ?a op)"
    by (metis abs_sel(5) room roomy_refines)
  have kept: "abs_owner (spec_exec ?a op) t = None \<and> core_next_ticket c \<le> abs_next_ticket (spec_exec ?a op)"
    using stale
    by (cases "(?a, op)" rule: spec_exec.cases)
      (auto simp: stale_def abs_leave_def abs_wake_def Let_def split: option.split)
  then have "hm_get (core_inflight (snd (execute c op))) t = None"
    using owner_after [OF room, of op t] by simp
  with nxt kept stale show ?thesis by (simp add: stale_def)
qed

lemma stale_run:
  "roomy c (length ops) \<Longrightarrow> stale t c \<Longrightarrow> stale t (run_core c ops)"
  unfolding run_core_foldl
  by (rule sm.stable_run [where Q = "\<lambda>_. True"]) (auto simp: list_all_iff intro: stale_execute)

lemma stale_complete: "stale t c \<Longrightarrow> complete t out c = (Inr [], c)"
  by (simp add: stale_def complete_def)

lemma complete_makes_stale:
  assumes room: "roomy c (Suc n)" and issued: "ticket_no t < core_next_ticket c"
  shows "stale t (snd (complete t out c))"
proof -
  have exec: "snd (execute c (Complete t out)) = snd (complete t out c)" by simp
  have none: "abs_owner (spec_exec (abs_of c) (Complete t out)) t = None"
    by (cases out) (auto simp: abs_leave_def abs_wake_def Let_def split: option.split)
  have "abs_next_ticket (spec_exec (abs_of c) (Complete t out)) = core_next_ticket c"
    by (cases out) (auto simp: abs_leave_def abs_wake_def Let_def split: option.split)
  moreover have "core_next_ticket (snd (complete t out c)) =
      abs_next_ticket (spec_exec (abs_of c) (Complete t out))"
    by (metis abs_sel(5) exec room roomy_refines)
  moreover have "hm_get (core_inflight (snd (complete t out c))) t = None"
    using owner_after [OF room, of "Complete t out" t] none exec by simp
  ultimately show ?thesis using issued by (simp add: stale_def)
qed

lemma terminal_owns_nothing:
  assumes inv: "sched_inv c" and st: "session_state_of c s = Some st" "st \<in> {Finished, Failed}"
  shows "map_option fst (hm_get (core_inflight c) t) \<noteq> Some s"
proof -
  from st obtain r where get: "hm_get (core_sessions c) s = Some r" and "sess_state r = st"
    by (auto simp: session_state_of_def)
  with inv_session [OF inv get] st have "sess_inflight r = []" by (auto simp: session_ok_def)
  with inflight_eq_owned [OF inv get] show ?thesis by auto
qed

lemma terminal_execute:
  assumes room: "roomy c (Suc n)" and st: "session_state_of c s = Some st" "st \<in> {Finished, Failed}"
  shows "session_state_of (snd (execute c op)) s = Some st"
proof -
  note inv = roomy_inv [OF room]
  have old: "session_no s < core_next_session c"
    using st inv_session [OF inv] by (auto simp: session_state_of_def session_ok_def)
  have "abs_state (spec_exec (abs_of c) op) s = Some st"
    using st old terminal_owns_nothing [OF inv st]
    by (cases "(abs_of c, op)" rule: spec_exec.cases)
      (auto simp: abs_leave_def abs_wake_def Let_def split: option.split)
  then show ?thesis by (simp add: state_after [OF room])
qed

lemma terminal_run:
  "roomy c (length ops) \<Longrightarrow> session_state_of c s = Some st \<Longrightarrow> st \<in> {Finished, Failed} \<Longrightarrow>
     session_state_of (run_core c ops) s = Some st"
proof (induction ops arbitrary: c)
  case (Cons op ops)
  then show ?case
    using roomy_execute [of c "length ops" op] terminal_execute [of c "length ops" s st op] by simp
qed simp

section \<open>Bounded waiting\<close>

text \<open>A session that stays runnable keeps its place in the queue, or moves towards its head.\<close>

lemma waiting_execute:
  assumes room: "roomy c (Suc n)" and at: "core_ready c = pre @ s # post"
    and still: "session_state_of (snd (execute c op)) s = Some Runnable"
    and not_run: "op = StepOp \<Longrightarrow> pre \<noteq> []"
  shows "\<exists>pre' post'. core_ready (snd (execute c op)) = pre' @ s # post' \<and>
    length pre' + (if op = StepOp then 1 else 0) \<le> length pre"
proof -
  let ?a = "abs_of c"
  have queue: "\<exists>x. abs_queue (spec_exec ?a op) = core_ready c
      \<or> abs_queue (spec_exec ?a op) = core_ready c @ [x]
      \<or> (abs_queue (spec_exec ?a op) = filter (\<lambda>y. y \<noteq> x) (core_ready c) \<and>
         abs_state (spec_exec ?a op) x \<noteq> Some Runnable)" if "op \<noteq> StepOp"
    using that by (cases "(?a, op)" rule: spec_exec.cases)
      (auto simp: abs_leave_def abs_wake_def Let_def split: option.split)
  show ?thesis
  proof (cases "op = StepOp")
    case True
    with not_run obtain p pre' where "pre = p # pre'" by (cases pre) auto
    with True at have "core_ready (snd (execute c op)) = pre' @ s # post"
      using queue_after [OF room, of StepOp] by simp
    with True \<open>pre = p # pre'\<close> show ?thesis by auto
  next
    case False
    from queue [OF False] obtain x where x:
      "core_ready (snd (execute c op)) = pre @ s # post
       \<or> core_ready (snd (execute c op)) = pre @ s # (post @ [x])
       \<or> (core_ready (snd (execute c op)) =
            filter (\<lambda>y. y \<noteq> x) pre @ filter (\<lambda>y. y \<noteq> x) (s # post) \<and> x \<noteq> s)"
      using at still by (auto simp: queue_after [OF room] state_after [OF room])
    have shorter: "length (filter (\<lambda>y. y \<noteq> x) pre) \<le> length pre" by simp
    from x False shorter show ?thesis by (elim disjE conjE) (simp, blast intro: shorter)+
  qed
qed

lemma waiting_run:
  assumes "roomy c (length ops)" "core_ready c = pre @ s # post"
    "\<forall>n \<le> length ops. session_state_of (run_core c (take n ops)) s = Some Runnable"
    "length pre < count_list ops StepOp"
  shows "Stepped (Run s) \<in> set (run_outcomes c ops)"
  using assms
proof (induction ops arbitrary: c pre post)
  case (Cons op ops)
  have room: "roomy c (Suc (length ops))" using Cons.prems(1) by simp
  have still: "session_state_of (snd (execute c op)) s = Some Runnable"
    using Cons.prems(3) by (auto dest: spec [of _ 1])
  have later: "\<forall>n \<le> length ops. session_state_of (run_core (snd (execute c op)) (take n ops)) s = Some Runnable"
  proof (intro allI impI)
    fix n assume "n \<le> length ops"
    then show "session_state_of (run_core (snd (execute c op)) (take n ops)) s = Some Runnable"
      using Cons.prems(3) by (auto dest: spec [of _ "Suc n"])
  qed
  show ?case
  proof (cases "op = StepOp \<and> pre = []")
    case True
    then have "fst (execute c op) = Stepped (Run s)"
      using Cons.prems(2) by (simp add: execute.simps step_dequeue [OF roomy_inv [OF room]])
    then show ?thesis by simp
  next
    case False
    then obtain pre' post' where after: "core_ready (snd (execute c op)) = pre' @ s # post'"
      and len: "length pre' + (if op = StepOp then 1 else 0) \<le> length pre"
      using waiting_execute [OF room Cons.prems(2) still] by blast
    have "length pre' < count_list ops StepOp"
      using len Cons.prems(4) by (auto split: if_splits)
    from Cons.IH [OF roomy_execute [OF room] after later this] show ?thesis by simp
  qed
qed simp

section \<open>Properties\<close>

text \<open>C1: after any script of at most \<open>2^64 - 1\<close> operations the scheduler satisfies its
  invariant (queue and membership bits agree, no session is queued twice, tickets and sessions own
  each other, nobody exceeds the ticket limit), and the debug-build checker accepts the state.\<close>
theorem sched_run_invariant:
  assumes "length ops \<le> u64_max"
  shows "sched_inv (sim_core (run_sim b ops)) \<and> assert_invariants (sim_core (run_sim b ops))"
  using inv_run_new [OF assms, of b] by (simp add: sim_core_run_sim assert_of_inv)

theorem sched_run_invariant_witness:
  "length [CreateSession, Submit (SessionId 0) \<lparr>act_kind = Io, act_payload = [7]\<rparr>,
       Block (SessionId 0), Complete (Ticket 0) OutcomeOk] \<le> u64_max \<and>
   assert_invariants (sim_core (run_sim default_budget
     [CreateSession, Submit (SessionId 0) \<lparr>act_kind = Io, act_payload = [7]\<rparr>,
       Block (SessionId 0), Complete (Ticket 0) OutcomeOk]))"
  using sched_run_invariant [of "[CreateSession,
      Submit (SessionId 0) \<lparr>act_kind = Io, act_payload = [7]\<rparr>,
      Block (SessionId 0), Complete (Ticket 0) OutcomeOk]" default_budget]
  by (simp add: u64_max_def)

text \<open>C2: the detailed scheduler refines the specification without bookkeeping: the abstraction
  of the state after any script is the state the specification reaches by the same script.\<close>
theorem sched_refines_spec:
  assumes "length ops \<le> u64_max"
  shows "abs_of (sim_core (run_sim b ops)) = foldl spec_exec (abs_of (new_core b)) ops"
  using run_refines [OF roomy_new [OF assms]] by (simp add: sim_core_run_sim)

theorem sched_refines_spec_witness:
  "length [CreateSession, Block (SessionId 0), Wake (SessionId 0), StepOp] \<le> u64_max \<and>
   abs_of (sim_core (run_sim default_budget [CreateSession, Block (SessionId 0), Wake (SessionId 0), StepOp])) =
     foldl spec_exec (abs_of (new_core default_budget))
       [CreateSession, Block (SessionId 0), Wake (SessionId 0), StepOp]"
  using sched_refines_spec [of "[CreateSession, Block (SessionId 0), Wake (SessionId 0), StepOp]"
      default_budget]
  by (simp add: u64_max_def)

text \<open>C3: a ticket is consumed at most once.  After an issued ticket has been completed, every
  further completion of it, whatever happened in between and whatever it reports, returns no effect
  and leaves the scheduler unchanged.\<close>
theorem ticket_consumed_once:
  assumes "length ops1 + length ops2 < u64_max"
    and "ticket_no t < core_next_ticket (run_core (new_core b) ops1)"
    and "c = run_core (new_core b) (ops1 @ Complete t first # ops2)"
  shows "complete t again c = (Inr [], c)"
proof -
  have "roomy (new_core b) (length ops1 + Suc (length ops2))" using assms(1) by (simp add: roomy_new)
  then have room: "roomy (run_core (new_core b) ops1) (Suc (length ops2))" by (rule roomy_run)
  have "stale t (run_core (snd (execute (run_core (new_core b) ops1) (Complete t first))) ops2)"
    using complete_makes_stale [OF room assms(2), of first] roomy_execute [OF room, of "Complete t first"]
    by (intro stale_run) simp_all
  then show ?thesis using assms(3) by (simp add: run_append stale_complete)
qed

theorem ticket_consumed_once_witness:
  "complete (Ticket 0) (OutcomeErr ''late'')
     (run_core (new_core default_budget)
       ([CreateSession, Submit (SessionId 0) \<lparr>act_kind = Cpu, act_payload = []\<rparr>] @
        Complete (Ticket 0) OutcomeOk # [Block (SessionId 0)])) =
   (Inr [], run_core (new_core default_budget)
       ([CreateSession, Submit (SessionId 0) \<lparr>act_kind = Cpu, act_payload = []\<rparr>] @
        Complete (Ticket 0) OutcomeOk # [Block (SessionId 0)]))"
proof (rule ticket_consumed_once [OF _ _ refl])
  show "length [CreateSession, Submit (SessionId 0) \<lparr>act_kind = Cpu, act_payload = []\<rparr>] +
      length [Block (SessionId 0)] < u64_max"
    by (simp add: u64_max_def)
  show "ticket_no (Ticket 0) < core_next_ticket (run_core (new_core default_budget)
      [CreateSession, Submit (SessionId 0) \<lparr>act_kind = Cpu, act_payload = []\<rparr>])"
    by (simp add: sched_eval)
qed

text \<open>finished and failed are final.  Once a session has reached one of the two states, no
  script changes its state, brings it back into the ready queue or gives it a ticket.\<close>
lemma terminal_is_final:
  assumes "length ops1 + length ops2 \<le> u64_max"
    and "session_state_of (run_core (new_core b) ops1) s = Some st" and "st \<in> {Finished, Failed}"
    and "c = run_core (new_core b) (ops1 @ ops2)"
  shows "session_state_of c s = Some st \<and> s \<notin> set (core_ready c) \<and> inflight_count c s = Some 0"
proof -
  have room: "roomy (run_core (new_core b) ops1) (length ops2)"
    by (rule roomy_run) (use assms(1) in \<open>simp add: roomy_new\<close>)
  have st: "session_state_of c s = Some st"
    using terminal_run [OF room assms(2,3)] assms(4) by (simp add: run_append)
  then obtain r where get: "hm_get (core_sessions c) s = Some r" and r: "sess_state r = st"
    by (auto simp: session_state_of_def)
  have "roomy (run_core (run_core (new_core b) ops1) ops2) 0"
    by (rule roomy_run) (simp add: room)
  then have "sched_inv c" using assms(4) by (simp add: run_append roomy_inv)
  from inv_session [OF this get] r st assms(3) show ?thesis
    by (auto simp: session_ok_def inflight_count_def get)
qed

text \<open>C4: bounded waiting.  A session at position \<open>k\<close> of the ready queue that stays runnable is
  returned by one of the next \<open>k + 1\<close> calls of \<^verbatim>\<open>step\<close>, whatever other operations (creations,
  wake-ups and requeues of other sessions included) are interleaved.\<close>
theorem bounded_waiting:
  assumes "length ops0 + length ops \<le> u64_max" and "c = run_core (new_core b) ops0"
    and "k < length (core_ready c)" and "s = core_ready c ! k"
    and "\<forall>n \<le> length ops. session_state_of (run_core c (take n ops)) s = Some Runnable"
    and "k < count_list ops StepOp"
  shows "Stepped (Run s) \<in> set (run_outcomes c ops)"
proof (rule waiting_run)
  show "roomy c (length ops)"
    unfolding assms(2) by (rule roomy_run) (use assms(1) in \<open>simp add: roomy_new\<close>)
  show "core_ready c = take k (core_ready c) @ s # drop (Suc k) (core_ready c)"
    using assms(3,4) by (simp add: id_take_nth_drop)
  show "length (take k (core_ready c)) < count_list ops StepOp"
    using assms(3,6) by simp
qed (rule assms(5))

theorem bounded_waiting_witness:
  "Stepped (Run (SessionId 1)) \<in> set (run_outcomes
     (run_core (new_core default_budget) [CreateSession, CreateSession])
     [StepOp, Requeue (SessionId 0), StepOp])"
proof (rule bounded_waiting [OF _ refl, where k = 1 and s = "SessionId 1"])
  show "\<forall>n \<le> length [StepOp, Requeue (SessionId 0), StepOp].
      session_state_of (run_core (run_core (new_core default_budget) [CreateSession, CreateSession])
        (take n [StepOp, Requeue (SessionId 0), StepOp])) (SessionId 1) = Some Runnable"
    by (auto simp: sched_eval le_Suc_eq numeral_3_eq_3)
qed (simp_all add: sched_eval)

text \<open>an error completion of a live ticket fails its session: the session's other live tickets
  are cancelled in submission order, then the failure is reported, the session is failed and off
  the queue, and no ticket of it is left.\<close>
lemma failure_cancels_siblings:
  assumes inv: "sched_inv c" and own: "hm_get (core_inflight c) t = Some (s, g)"
    and get: "hm_get (core_sessions c) s = Some r"
    and c': "(res, c') = complete t (OutcomeErr e) c"
  shows "res = Inr (map CancelTicket (filter (\<lambda>u. u \<noteq> t) (sess_inflight r)) @ [SessionFailed s e])
    \<and> session_state_of c' s = Some Failed \<and> s \<notin> set (core_ready c')
    \<and> (\<forall>u h. hm_get (core_inflight c') u \<noteq> Some (s, h))"
proof (intro conjI allI)
  have unready: "sess_state r = Blocked \<longrightarrow> \<not> sess_in_ready r"
    using inv_session [OF inv get] by (auto simp: session_ok_def)
  show "res = Inr (map CancelTicket (filter (\<lambda>u. u \<noteq> t) (sess_inflight r)) @ [SessionFailed s e])"
    using get complete_live [OF own get unready, of "OutcomeErr e"] c' [symmetric]
    by (simp add: terminalize_def Let_def get_remove_from_ready drop_ticket_def hm_simps)
  have abs: "abs_of c' = abs_leave s Failed (abs_of c)"
    using complete_refines [OF inv, of t "OutcomeErr e"] own c' [symmetric] by simp
  show "session_state_of c' s = Some Failed"
    using arg_cong [OF abs, of abs_state] by (simp add: abs_leave_def)
  show "s \<notin> set (core_ready c')"
    using arg_cong [OF abs, of abs_queue] by (simp add: abs_leave_def)
  fix u h
  have "map_option fst (hm_get (core_inflight c') u) = abs_owner (abs_leave s Failed (abs_of c)) u"
    by (metis abs abs_sel(3))
  then show "hm_get (core_inflight c') u \<noteq> Some (s, h)"
    by (cases "hm_get (core_inflight c) u") (auto simp: abs_leave_def split: if_splits)
qed

text \<open>A session with two live tickets, used by the witnesses below.\<close>

definition demo_core :: scheduler_core where
  "demo_core = run_core (new_core default_budget)
     [CreateSession, Submit (SessionId 0) \<lparr>act_kind = Io, act_payload = []\<rparr>,
      Submit (SessionId 0) \<lparr>act_kind = Cpu, act_payload = []\<rparr>, Block (SessionId 0)]"

lemma demo_core_inv: "sched_inv demo_core"
  unfolding demo_core_def by (rule inv_run_new) (simp add: u64_max_def)

lemma demo_core_value: "demo_core = \<lparr>core_budget = \<lparr>max_inflight_per_session = 64\<rparr>,
   core_sessions = [(SessionId 0, \<lparr>sess_id = SessionId 0, sess_state = Blocked,
     sess_inflight = [Ticket 0, Ticket 1], sess_in_ready = False\<rparr>)],
   core_ready = [], core_next_session = 1, core_next_ticket = 2,
   core_inflight = [(Ticket 0, SessionId 0, Generation 0), (Ticket 1, SessionId 0, Generation 1)]\<rparr>"
  by (simp add: demo_core_def sched_eval)

text \<open>a successful completion wakes its session exactly when the session is blocked and the
  ticket was its last live one; then the session is runnable and at the back of the queue.
  Otherwise nothing is reported and the session keeps its state.\<close>
lemma wake_on_last_dependency:
  assumes inv: "sched_inv c" and own: "hm_get (core_inflight c) t = Some (s, g)"
    and get: "hm_get (core_sessions c) s = Some r"
    and c': "(res, c') = complete t OutcomeOk c"
  shows "if sess_state r = Blocked \<and> sess_inflight r = [t]
    then res = Inr [WakeSession s] \<and> session_state_of c' s = Some Runnable \<and>
         core_ready c' = core_ready c @ [s]
    else res = Inr [] \<and> session_state_of c' s = Some (sess_state r) \<and> core_ready c' = core_ready c"
proof -
  have sok: "session_ok c s r" by (rule inv_session [OF inv get])
  then have unready: "sess_state r = Blocked \<longrightarrow> \<not> sess_in_ready r" by (auto simp: session_ok_def)
  have "t \<in> set (sess_inflight r)" using inv_owner [OF inv get own] by simp
  moreover have "distinct (sess_inflight r)" using sok by (auto simp: session_ok_def)
  ultimately have last: "filter (\<lambda>owned. owned \<noteq> t) (sess_inflight r) = [] \<longleftrightarrow> sess_inflight r = [t]"
    by (cases "sess_inflight r"; cases "tl (sess_inflight r)") (auto simp: filter_empty_conv)
  show ?thesis
    using complete_live [OF own get unready, of OutcomeOk] c' [symmetric] get unready
    by (auto simp: last enqueue_if_runnable_def set_state_def drop_ticket_def session_state_of_def
        hm_simps)
qed

text \<open>backpressure.  After any script no session has more live tickets than the budget allows,
  and a runnable session that is at the limit gets \<open>InflightLimit\<close> with the scheduler unchanged.\<close>
lemma inflight_bounded:
  assumes "length ops \<le> u64_max" and "c = run_core (new_core b) ops"
    and "hm_get (core_sessions c) s = Some r"
  shows "length (sess_inflight r) \<le> max_inflight_per_session b \<and>
    (sess_state r = Runnable \<and> length (sess_inflight r) = max_inflight_per_session b \<longrightarrow>
       submit s a c = (Inl (InflightLimit s), c))"
proof -
  have budget: "core_budget (snd (execute d op)) = core_budget d" for d op
    by (cases op) (auto simp: sched_eval split: option.split session_state.split outcome.split prod.split)
  have "core_budget (run_core d xs) = core_budget d" for d xs
    by (induction xs arbitrary: d) (simp_all add: budget)
  then have b: "core_budget c = b" by (simp add: assms(2) new_core_def)
  have "sched_inv c" unfolding assms(2) by (rule inv_run_new [OF assms(1)])
  from inv_session [OF this assms(3)] b have "length (sess_inflight r) \<le> max_inflight_per_session b"
    by (simp add: session_ok_def)
  with b assms(3) show ?thesis by (simp add: submit_def)
qed

text \<open>C5: replay is exact.  \<^verbatim>\<open>replay\<close> accepts a list of trace events if and only if it is, event
  for event and sequence number for sequence number, the trace that a fresh simulator records for
  its operations.\<close>
theorem replay_accepts_exactly_own_traces:
  "replay b es = Inr () \<longleftrightarrow> sim_trace (run_sim b (map ev_op es)) = es"
  unfolding replay_def run_sim_def by (rule sim.replay_fresh_iff)

text \<open>The panic branch of \<^verbatim>\<open>terminalize\<close> is dead: no operation, from any state, reports it.\<close>
lemma never_unreachable: "fst (execute c op) \<noteq> SimError (Unreachable msg)"
  by (cases op) (auto simp: sched_eval split: option.split session_state.split outcome.split
      prod.split sum.split if_splits)

end
