(* ===== verification/Residency.thy ===== *)
theory Residency
  imports Sched_Core
begin

text \<open>
  The residency manager of \<^verbatim>\<open>logan-core/src/sched/residency.rs\<close>: memory pools with
  hard byte budgets, load coalescing, generations, leases that pin a resident
  entry, and least-recently-used eviction.  Operations take the manager and
  return the result with the new manager; the counters keep their Rust widths
  (saturating where the source saturates, wrapping where it adds).
\<close>

section \<open>Data\<close>

datatype memory_pool_id = MemoryPoolId (pool_no: nat)

datatype device_id = DeviceId (device_no: nat)

datatype lease_id = LeaseId (lease_no: nat)

record representation_key =
  rep_layout :: nat
  rep_kernel_abi :: nat
  rep_quant :: nat

record expert_key =
  ek_model :: nat
  ek_package :: nat
  ek_layer :: nat
  ek_expert :: nat
  ek_representation :: representation_key
  ek_pool :: memory_pool_id

datatype residency_state =
    Absent
  | Loading load_id
  | Resident generation
  | LoadFailed string

datatype load_disposition =
    Started load_id
  | Joined load_id
  | AlreadyResident generation

datatype load_result = LoadSuccess | LoadError string | LoadPartial string | LoadCancelled

record lease =
  le_id :: lease_id
  le_key :: expert_key
  le_generation :: generation
  le_owner :: session_id

record load_wake =
  lw_session :: session_id
  lw_result :: "string + lease"

datatype completion_disposition =
    Published generation "load_wake list"
  | WakesFailed "load_wake list"
  | StaleLoad

record load_completion =
  lc_load_id :: load_id
  lc_result :: load_result

record pool_stats =
  budget_bytes :: nat
  resident_bytes :: nat
  reserved_loading_bytes :: nat
  pinned_bytes :: nat
  hits :: nat
  misses :: nat
  loads_started :: nat
  loads_joined :: nat
  evictions :: nat
  failures :: nat
  transfers :: nat
  transfer_bytes :: nat
  exposed_wait_ns :: nat

record entry =
  en_state :: residency_state
  en_bytes :: nat
  en_waiters :: "session_id list"
  en_leases :: nat
  en_last_touch :: nat

datatype residency_error =
    DuplicatePool memory_pool_id
  | DuplicateDevice device_id
  | UnknownPool memory_pool_id
  | UnknownDevice device_id
  | UnknownKey
  | UnknownLease lease_id
  | StaleGeneration
  | SizeMismatch nat nat
  | BudgetExceeded memory_pool_id nat nat

text \<open>A pool's state is its statistics, so \<open>rm_pools\<close> holds these directly.\<close>

record residency_manager =
  rm_pools :: "(memory_pool_id, pool_stats) hash_map"
  rm_devices :: "(device_id, memory_pool_id list) hash_map"
  rm_entries :: "(expert_key, entry) hash_map"
  rm_loads :: "(load_id, expert_key) hash_map"
  rm_leases :: "(lease_id, expert_key \<times> generation \<times> session_id) hash_map"
  rm_next_load :: nat
  rm_next_generation :: "(expert_key, nat) hash_map"
  rm_next_lease :: nat
  rm_clock :: nat

section \<open>Operations\<close>

definition new_manager :: residency_manager where
  "new_manager = \<lparr>rm_pools = [], rm_devices = [], rm_entries = [], rm_loads = [], rm_leases = [],
     rm_next_load = 0, rm_next_generation = [], rm_next_lease = 0, rm_clock = 0\<rparr>"

definition empty_stats :: "nat \<Rightarrow> pool_stats" where
  "empty_stats b = \<lparr>budget_bytes = b, resident_bytes = 0, reserved_loading_bytes = 0,
     pinned_bytes = 0, hits = 0, misses = 0, loads_started = 0, loads_joined = 0, evictions = 0,
     failures = 0, transfers = 0, transfer_bytes = 0, exposed_wait_ns = 0\<rparr>"

definition add_pool ::
  "memory_pool_id \<Rightarrow> nat \<Rightarrow> residency_manager \<Rightarrow> (residency_error + unit) \<times> residency_manager" where
  "add_pool p b m =
     (if hm_get (rm_pools m) p \<noteq> None then (Inl (DuplicatePool p), m)
      else (Inr (), m\<lparr>rm_pools := hm_insert p (empty_stats b) (rm_pools m)\<rparr>))"

fun first_unknown_pool :: "residency_manager \<Rightarrow> memory_pool_id list \<Rightarrow> memory_pool_id option" where
  "first_unknown_pool m [] = None"
| "first_unknown_pool m (p # ps) =
     (if hm_get (rm_pools m) p = None then Some p else first_unknown_pool m ps)"

definition add_device ::
  "device_id \<Rightarrow> memory_pool_id list \<Rightarrow> residency_manager \<Rightarrow>
     (residency_error + unit) \<times> residency_manager" where
  "add_device d ps m =
     (if hm_get (rm_devices m) d \<noteq> None then (Inl (DuplicateDevice d), m)
      else case first_unknown_pool m ps of
             Some p \<Rightarrow> (Inl (UnknownPool p), m)
           | None \<Rightarrow> (Inr (), m\<lparr>rm_devices := hm_insert d ps (rm_devices m)\<rparr>))"

definition device_pools :: "residency_manager \<Rightarrow> device_id \<Rightarrow> residency_error + memory_pool_id list" where
  "device_pools m d =
     (case hm_get (rm_devices m) d of None \<Rightarrow> Inl (UnknownDevice d) | Some ps \<Rightarrow> Inr ps)"

definition pool_stats_of :: "residency_manager \<Rightarrow> memory_pool_id \<Rightarrow> residency_error + pool_stats" where
  "pool_stats_of m p =
     (case hm_get (rm_pools m) p of None \<Rightarrow> Inl (UnknownPool p) | Some st \<Rightarrow> Inr st)"

definition residency_state_of :: "residency_manager \<Rightarrow> expert_key \<Rightarrow> residency_state" where
  "residency_state_of m k =
     (case hm_get (rm_entries m) k of None \<Rightarrow> Absent | Some e \<Rightarrow> en_state e)"

definition tick :: "residency_manager \<Rightarrow> nat \<times> residency_manager" where
  "tick m = (let now = saturating_add_u64 (rm_clock m) 1 in (now, m\<lparr>rm_clock := now\<rparr>))"

definition touch :: "expert_key \<Rightarrow> residency_manager \<Rightarrow> residency_manager" where
  "touch k m =
     (let (now, m') = tick m in
      m'\<lparr>rm_entries := hm_modify k (\<lambda>e. e\<lparr>en_last_touch := now\<rparr>) (rm_entries m')\<rparr>)"

definition alloc_load :: "residency_manager \<Rightarrow> load_id \<times> residency_manager" where
  "alloc_load m =
     (LoadId (rm_next_load m), m\<lparr>rm_next_load := saturating_add_u64 (rm_next_load m) 1\<rparr>)"

definition alloc_generation :: "expert_key \<Rightarrow> residency_manager \<Rightarrow> generation \<times> residency_manager" where
  "alloc_generation k m =
     (let n = (case hm_get (rm_next_generation m) k of None \<Rightarrow> 0 | Some n \<Rightarrow> n) in
      (Generation n,
       m\<lparr>rm_next_generation := hm_insert k (saturating_add_u64 n 1) (rm_next_generation m)\<rparr>))"

definition new_lease ::
  "expert_key \<Rightarrow> generation \<Rightarrow> session_id \<Rightarrow> residency_manager \<Rightarrow> lease \<times> residency_manager" where
  "new_lease k g s m =
     (let i = LeaseId (rm_next_lease m) in
      (\<lparr>le_id = i, le_key = k, le_generation = g, le_owner = s\<rparr>,
       m\<lparr>rm_next_lease := saturating_add_u64 (rm_next_lease m) 1,
         rm_leases := hm_insert i (k, g, s) (rm_leases m)\<rparr>))"

definition is_resident :: "entry \<Rightarrow> bool" where
  "is_resident e \<longleftrightarrow> (case en_state e of Resident _ \<Rightarrow> True | _ \<Rightarrow> False)"

definition with_stats ::
  "memory_pool_id \<Rightarrow> (pool_stats \<Rightarrow> pool_stats) \<Rightarrow> residency_manager \<Rightarrow> residency_manager" where
  "with_stats p f m = m\<lparr>rm_pools := hm_modify p f (rm_pools m)\<rparr>"

definition refresh_pinned :: "memory_pool_id \<Rightarrow> residency_manager \<Rightarrow> residency_manager" where
  "refresh_pinned p m =
     (let pinned = sum_list (map (\<lambda>(k, e). en_bytes e)
            (filter (\<lambda>(k, e). ek_pool k = p \<and> 0 < en_leases e \<and> is_resident e) (rm_entries m)))
      in with_stats p (\<lambda>st. st\<lparr>pinned_bytes := pinned\<rparr>) m)"

text \<open>\<^verbatim>\<open>Iterator::min_by_key\<close> returns the first of the least elements.\<close>

fun min_by_key :: "('a \<Rightarrow> nat) \<Rightarrow> 'a list \<Rightarrow> 'a option" where
  "min_by_key f [] = None"
| "min_by_key f (x # xs) =
     (case min_by_key f xs of
        None \<Rightarrow> Some x
      | Some y \<Rightarrow> if f x \<le> f y then Some x else Some y)"

definition evictable_in :: "memory_pool_id \<Rightarrow> expert_key \<times> entry \<Rightarrow> bool" where
  "evictable_in p = (\<lambda>(k, e). ek_pool k = p \<and> en_leases e = 0 \<and> is_resident e)"

definition evict ::
  "memory_pool_id \<Rightarrow> residency_manager \<Rightarrow>
     (residency_error + expert_key option) \<times> residency_manager" where
  "evict p m =
     (if hm_get (rm_pools m) p = None then (Inl (UnknownPool p), m)
      else case min_by_key (\<lambda>(k, e). en_last_touch e) (filter (evictable_in p) (rm_entries m)) of
             None \<Rightarrow> (Inr None, m)
           | Some (k, e) \<Rightarrow>
               (Inr (Some k),
                refresh_pinned p
                  (with_stats p (\<lambda>st. st\<lparr>
                       resident_bytes := saturating_sub (resident_bytes st) (en_bytes e),
                       evictions := wrapping_add_u64 (evictions st) 1\<rparr>)
                     (m\<lparr>rm_entries := hm_remove k (rm_entries m)\<rparr>))))"

lemma min_by_key_in: "min_by_key f xs = Some x \<Longrightarrow> x \<in> set xs"
  by (induction xs arbitrary: x) (auto split: option.splits if_splits)

lemma min_by_key_None: "min_by_key f xs = None \<longleftrightarrow> xs = []"
  by (cases xs) (auto split: option.split)

lemma min_by_key_le: "min_by_key f xs = Some x \<Longrightarrow> y \<in> set xs \<Longrightarrow> f x \<le> f y"
proof (induction xs arbitrary: x)
  case (Cons a xs)
  show ?case
  proof (cases "min_by_key f xs")
    case None
    with Cons.prems show ?thesis by (simp add: min_by_key_None)
  next
    case (Some z)
    with Cons.prems Cons.IH [OF Some] show ?thesis by (auto split: if_splits)
  qed
qed simp

lemma hm_length_remove_key: "k \<in> set (hm_keys m) \<Longrightarrow> length (hm_remove k m) < length m"
  by (auto simp: hm_key_iff simp del: set_map intro: hm_length_remove)

lemma rm_entries_stats [simp]:
  "rm_entries (with_stats p f m) = rm_entries m" "rm_entries (refresh_pinned p m) = rm_entries m"
  by (simp_all add: with_stats_def refresh_pinned_def Let_def)

lemma evict_shrinks:
  assumes "evict p m = (Inr (Some k), m')"
  shows "length (rm_entries m') < length (rm_entries m)"
proof -
  from assms obtain e where
    "min_by_key (\<lambda>(k, e). en_last_touch e) (filter (evictable_in p) (rm_entries m)) = Some (k, e)"
    and m': "rm_entries m' = hm_remove k (rm_entries m)"
    by (auto simp: evict_def split: if_splits option.splits)
  then have "(k, e) \<in> set (rm_entries m)" by (auto dest!: min_by_key_in)
  then have "k \<in> set (hm_keys (rm_entries m))" by force
  then show ?thesis unfolding m' by (rule hm_length_remove_key)
qed

function ensure_loop ::
  "memory_pool_id \<Rightarrow> nat \<Rightarrow> nat \<Rightarrow> residency_manager \<Rightarrow>
     (residency_error + unit) \<times> residency_manager" where
  "ensure_loop p bytes budget m =
     (case hm_get (rm_pools m) p of
        None \<Rightarrow> (Inl (UnknownPool p), m)
      | Some st \<Rightarrow>
          (let used = saturating_add_usize (resident_bytes st) (reserved_loading_bytes st) in
           if saturating_add_usize used bytes \<le> budget then (Inr (), m)
           else case evict p m of
                  (Inl e, m') \<Rightarrow> (Inl e, m')
                | (Inr None, m') \<Rightarrow>
                    (Inl (BudgetExceeded p bytes (saturating_sub budget used)), m')
                | (Inr (Some _), m') \<Rightarrow> ensure_loop p bytes budget m'))"
  by pat_completeness auto
termination
  by (relation "measure (\<lambda>(p, bytes, budget, m). length (rm_entries m))")
    (auto dest: evict_shrinks [OF sym])

declare ensure_loop.simps [simp del]

definition ensure_space ::
  "memory_pool_id \<Rightarrow> nat \<Rightarrow> residency_manager \<Rightarrow> (residency_error + unit) \<times> residency_manager" where
  "ensure_space p bytes m =
     (case hm_get (rm_pools m) p of
        None \<Rightarrow> (Inl (UnknownPool p), m)
      | Some st \<Rightarrow>
          if budget_bytes st < bytes then (Inl (BudgetExceeded p bytes (budget_bytes st)), m)
          else ensure_loop p bytes (budget_bytes st) m)"

definition start_load ::
  "expert_key \<Rightarrow> nat \<Rightarrow> session_id \<Rightarrow> residency_manager \<Rightarrow>
     (residency_error + load_disposition) \<times> residency_manager" where
  "start_load k bytes w m =
     (let (l, m1) = alloc_load m;
          (now, m2) = tick m1;
          e = \<lparr>en_state = Loading l, en_bytes = bytes, en_waiters = [w], en_leases = 0,
               en_last_touch = now\<rparr>;
          m3 = m2\<lparr>rm_entries := hm_insert k e (rm_entries m2),
                  rm_loads := hm_insert l k (rm_loads m2)\<rparr>
      in if hm_get (rm_pools m3) (ek_pool k) = None then (Inl (UnknownPool (ek_pool k)), m3)
         else (Inr (Started l),
               with_stats (ek_pool k) (\<lambda>st. st\<lparr>
                 misses := wrapping_add_u64 (misses st) 1,
                 loads_started := wrapping_add_u64 (loads_started st) 1,
                 reserved_loading_bytes := wrapping_add_usize (reserved_loading_bytes st) bytes\<rparr>) m3))"

definition begin_load ::
  "expert_key \<Rightarrow> nat \<Rightarrow> session_id \<Rightarrow> residency_manager \<Rightarrow>
     (residency_error + load_disposition) \<times> residency_manager" where
  "begin_load k bytes w m =
     (let fresh =
        (case ensure_space (ek_pool k) bytes m of
           (Inl e, m') \<Rightarrow> (Inl e, m')
         | (Inr _, m') \<Rightarrow> start_load k bytes w m')
      in case hm_get (rm_entries m) k of
           None \<Rightarrow> fresh
         | Some e \<Rightarrow>
             (case en_state e of
                Resident g \<Rightarrow>
                  (let m' = touch k m in
                   if hm_get (rm_pools m') (ek_pool k) = None
                   then (Inl (UnknownPool (ek_pool k)), m')
                   else (Inr (AlreadyResident g),
                         with_stats (ek_pool k)
                           (\<lambda>st. st\<lparr>hits := wrapping_add_u64 (hits st) 1\<rparr>) m'))
              | Loading l \<Rightarrow>
                  if en_bytes e \<noteq> bytes then (Inl (SizeMismatch (en_bytes e) bytes), m)
                  else
                    (let m' = m\<lparr>rm_entries :=
                           hm_modify k (\<lambda>e. if w \<in> set (en_waiters e) then e
                                            else e\<lparr>en_waiters := en_waiters e @ [w]\<rparr>)
                             (rm_entries m)\<rparr> in
                     if hm_get (rm_pools m') (ek_pool k) = None
                     then (Inl (UnknownPool (ek_pool k)), m')
                     else (Inr (Joined l),
                           with_stats (ek_pool k)
                             (\<lambda>st. st\<lparr>loads_joined := wrapping_add_u64 (loads_joined st) 1\<rparr>) m'))
              | LoadFailed _ \<Rightarrow> fresh
              | Absent \<Rightarrow> fresh))"

fun lease_waiters ::
  "expert_key \<Rightarrow> generation \<Rightarrow> session_id list \<Rightarrow> residency_manager \<Rightarrow>
     load_wake list \<times> residency_manager" where
  "lease_waiters k g [] m = ([], m)"
| "lease_waiters k g (s # ss) m =
     (let (l, m1) = new_lease k g s m; (ws, m2) = lease_waiters k g ss m1
      in (\<lparr>lw_session = s, lw_result = Inr l\<rparr> # ws, m2))"

definition publish_load ::
  "expert_key \<Rightarrow> nat \<Rightarrow> session_id list \<Rightarrow> residency_manager \<Rightarrow>
     (residency_error + completion_disposition) \<times> residency_manager" where
  "publish_load k bytes waiters m =
     (let (g, m1) = alloc_generation k m;
          (now, m2) = tick m1;
          m3 = m2\<lparr>rm_entries := hm_modify k
                (\<lambda>e. e\<lparr>en_state := Resident g, en_last_touch := now\<rparr>) (rm_entries m2)\<rparr>;
          (wakes, m4) = lease_waiters k g waiters m3;
          m5 = m4\<lparr>rm_entries := hm_modify k
                (\<lambda>e. e\<lparr>en_leases := length wakes mod (u32_max + 1)\<rparr>) (rm_entries m4)\<rparr>
      in if hm_get (rm_pools m5) (ek_pool k) = None then (Inl (UnknownPool (ek_pool k)), m5)
         else (Inr (Published g wakes),
               refresh_pinned (ek_pool k)
                 (with_stats (ek_pool k)
                    (\<lambda>st. st\<lparr>resident_bytes := wrapping_add_usize (resident_bytes st) bytes\<rparr>) m5)))"

definition fail_load ::
  "expert_key \<Rightarrow> string \<Rightarrow> session_id list \<Rightarrow> residency_manager \<Rightarrow>
     (residency_error + completion_disposition) \<times> residency_manager" where
  "fail_load k msg waiters m =
     (let m1 = m\<lparr>rm_entries := hm_modify k (\<lambda>e. e\<lparr>en_state := LoadFailed msg\<rparr>) (rm_entries m)\<rparr>
      in if hm_get (rm_pools m1) (ek_pool k) = None then (Inl (UnknownPool (ek_pool k)), m1)
         else (Inr (WakesFailed (map (\<lambda>s. \<lparr>lw_session = s, lw_result = Inl msg\<rparr>) waiters)),
               with_stats (ek_pool k)
                 (\<lambda>st. st\<lparr>failures := wrapping_add_u64 (failures st) 1\<rparr>) m1))"

definition complete_load ::
  "load_completion \<Rightarrow> residency_manager \<Rightarrow>
     (residency_error + completion_disposition) \<times> residency_manager" where
  "complete_load lc m =
     (case hm_get (rm_loads m) (lc_load_id lc) of
        None \<Rightarrow> (Inr StaleLoad, m)
      | Some k \<Rightarrow>
         (let m1 = m\<lparr>rm_loads := hm_remove (lc_load_id lc) (rm_loads m)\<rparr> in
          case hm_get (rm_entries m1) k of
            None \<Rightarrow> (Inr StaleLoad, m1)
          | Some e \<Rightarrow>
             (case en_state e of
                Loading l \<Rightarrow>
                  if l \<noteq> lc_load_id lc then (Inr StaleLoad, m1)
                  else
                    (let m2 = m1\<lparr>rm_entries :=
                           hm_modify k (\<lambda>e. e\<lparr>en_waiters := []\<rparr>) (rm_entries m1)\<rparr> in
                     if hm_get (rm_pools m2) (ek_pool k) = None
                     then (Inl (UnknownPool (ek_pool k)), m2)
                     else
                       (let m3 = with_stats (ek_pool k) (\<lambda>st. st\<lparr>reserved_loading_bytes :=
                              saturating_sub (reserved_loading_bytes st) (en_bytes e)\<rparr>) m2 in
                        case lc_result lc of
                          LoadSuccess \<Rightarrow> publish_load k (en_bytes e) (en_waiters e) m3
                        | LoadError msg \<Rightarrow> fail_load k msg (en_waiters e) m3
                        | LoadPartial msg \<Rightarrow> fail_load k msg (en_waiters e) m3
                        | LoadCancelled \<Rightarrow> fail_load k ''load cancelled'' (en_waiters e) m3))
              | _ \<Rightarrow> (Inr StaleLoad, m1))))"

definition cancel_waiter :: "load_id \<Rightarrow> session_id \<Rightarrow> residency_manager \<Rightarrow> bool \<times> residency_manager" where
  "cancel_waiter l s m =
     (case hm_get (rm_loads m) l of
        None \<Rightarrow> (False, m)
      | Some k \<Rightarrow>
         (case hm_get (rm_entries m) k of
            None \<Rightarrow> (False, m)
          | Some e \<Rightarrow>
              (let kept = filter (\<lambda>c. c \<noteq> s) (en_waiters e) in
               (length (en_waiters e) \<noteq> length kept,
                m\<lparr>rm_entries := hm_modify k (\<lambda>e. e\<lparr>en_waiters := kept\<rparr>) (rm_entries m)\<rparr>))))"

definition acquire ::
  "expert_key \<Rightarrow> session_id \<Rightarrow> residency_manager \<Rightarrow> (residency_error + lease) \<times> residency_manager" where
  "acquire k s m =
     (case residency_state_of m k of
        Resident g \<Rightarrow>
          (let (l, m1) = new_lease k g s m;
               (now, m2) = tick m1;
               m3 = m2\<lparr>rm_entries := hm_modify k
                     (\<lambda>e. e\<lparr>en_leases := wrapping_add_u32 (en_leases e) 1, en_last_touch := now\<rparr>)
                     (rm_entries m2)\<rparr>
           in (Inr l, refresh_pinned (ek_pool k) m3))
      | _ \<Rightarrow> (Inl UnknownKey, m))"

definition release :: "lease \<Rightarrow> residency_manager \<Rightarrow> (residency_error + unit) \<times> residency_manager" where
  "release l m =
     (case hm_get (rm_leases m) (le_id l) of
        None \<Rightarrow> (Inl (UnknownLease (le_id l)), m)
      | Some (k, g, _) \<Rightarrow>
          if k \<noteq> le_key l \<or> g \<noteq> le_generation l then (Inl StaleGeneration, m)
          else (case hm_get (rm_entries m) k of
                  None \<Rightarrow> (Inl StaleGeneration, m)
                | Some e \<Rightarrow>
                    if en_state e \<noteq> Resident g then (Inl StaleGeneration, m)
                    else (Inr (), refresh_pinned (ek_pool k)
                      (m\<lparr>rm_entries := hm_modify k
                            (\<lambda>e. e\<lparr>en_leases := saturating_sub (en_leases e) 1\<rparr>) (rm_entries m),
                         rm_leases := hm_remove (le_id l) (rm_leases m)\<rparr>))))"

definition record_transfer ::
  "memory_pool_id \<Rightarrow> nat \<Rightarrow> nat \<Rightarrow> residency_manager \<Rightarrow>
     (residency_error + unit) \<times> residency_manager" where
  "record_transfer p bytes wait m =
     (if hm_get (rm_pools m) p = None then (Inl (UnknownPool p), m)
      else (Inr (), with_stats p (\<lambda>st. st\<lparr>
              transfers := wrapping_add_u64 (transfers st) 1,
              transfer_bytes := wrapping_add_u64 (transfer_bytes st) bytes,
              exposed_wait_ns := wrapping_add_u64 (exposed_wait_ns st) wait\<rparr>) m))"

text \<open>The checker of debug and test builds; \<open>False\<close> is a failed assertion or the panic.\<close>

definition assert_residency :: "residency_manager \<Rightarrow> bool" where
  "assert_residency m \<longleftrightarrow>
     list_all (\<lambda>(p, st).
        resident_bytes st + reserved_loading_bytes st \<le> budget_bytes st
      \<and> sum_list (map (\<lambda>(k, e). en_bytes e)
          (filter (\<lambda>(k, e). ek_pool k = p \<and> is_resident e) (rm_entries m))) = resident_bytes st)
       (rm_pools m)
   \<and> list_all (\<lambda>(i, k, g, s).
        case hm_get (rm_entries m) k of
          None \<Rightarrow> False
        | Some e \<Rightarrow> en_state e = Resident g)
       (rm_leases m)"

end
