(* ===== verification/Residency_Inv.thy ===== *)
theory Residency_Inv
  imports Residency
begin

text \<open>
  The invariant of the residency manager and its preservation by every
  operation: byte accounting per pool, the correspondence between loads and
  loading entries, between leases and lease counts, and the freshness of
  identifiers, generations and touch times.
\<close>

section \<open>The invariant\<close>

definition is_loading :: "entry \<Rightarrow> bool" where
  "is_loading e \<longleftrightarrow> (case en_state e of Loading _ \<Rightarrow> True | _ \<Rightarrow> False)"

definition resident_in :: "memory_pool_id \<Rightarrow> expert_key \<times> entry \<Rightarrow> nat" where
  "resident_in p = (\<lambda>(k, e). if ek_pool k = p \<and> is_resident e then en_bytes e else 0)"

definition loading_in :: "memory_pool_id \<Rightarrow> expert_key \<times> entry \<Rightarrow> nat" where
  "loading_in p = (\<lambda>(k, e). if ek_pool k = p \<and> is_loading e then en_bytes e else 0)"

definition pinned_in :: "memory_pool_id \<Rightarrow> expert_key \<times> entry \<Rightarrow> nat" where
  "pinned_in p =
     (\<lambda>(k, e). if ek_pool k = p \<and> 0 < en_leases e \<and> is_resident e then en_bytes e else 0)"

definition lease_on :: "expert_key \<Rightarrow> lease_id \<times> expert_key \<times> generation \<times> session_id \<Rightarrow> nat" where
  "lease_on k = (\<lambda>(i, k', g, s). if k' = k then 1 else 0)"

abbreviation lease_count ::
  "expert_key \<Rightarrow> (lease_id, expert_key \<times> generation \<times> session_id) hash_map \<Rightarrow> nat" where
  "lease_count k ls \<equiv> tally (lease_on k) ls"

definition next_generation :: "residency_manager \<Rightarrow> expert_key \<Rightarrow> nat" where
  "next_generation m k = (case hm_get (rm_next_generation m) k of None \<Rightarrow> 0 | Some n \<Rightarrow> n)"

definition pool_ok :: "residency_manager \<Rightarrow> memory_pool_id \<Rightarrow> pool_stats \<Rightarrow> bool" where
  "pool_ok m p st \<longleftrightarrow>
     resident_bytes st = tally (resident_in p) (rm_entries m)
   \<and> reserved_loading_bytes st = tally (loading_in p) (rm_entries m)
   \<and> pinned_bytes st = tally (pinned_in p) (rm_entries m)
   \<and> resident_bytes st + reserved_loading_bytes st \<le> budget_bytes st
   \<and> budget_bytes st < usize_max"

definition entry_ok :: "residency_manager \<Rightarrow> expert_key \<Rightarrow> entry \<Rightarrow> bool" where
  "entry_ok m k e \<longleftrightarrow>
     hm_get (rm_pools m) (ek_pool k) \<noteq> None
   \<and> en_last_touch e \<le> rm_clock m
   \<and> en_leases e = lease_count k (rm_leases m)
   \<and> distinct (en_waiters e)
   \<and> (case en_state e of
        Loading l \<Rightarrow> hm_get (rm_loads m) l = Some k \<and> en_leases e = 0
      | Resident g \<Rightarrow> en_waiters e = [] \<and> generation_no g < next_generation m k
      | LoadFailed _ \<Rightarrow> en_waiters e = [] \<and> en_leases e = 0
      | Absent \<Rightarrow> False)"

definition load_ok :: "residency_manager \<Rightarrow> load_id \<Rightarrow> expert_key \<Rightarrow> bool" where
  "load_ok m l k \<longleftrightarrow>
     load_no l < rm_next_load m
   \<and> (\<exists>e. hm_get (rm_entries m) k = Some e \<and> en_state e = Loading l)"

definition lease_ok :: "residency_manager \<Rightarrow> lease_id \<Rightarrow> expert_key \<Rightarrow> generation \<Rightarrow> bool" where
  "lease_ok m i k g \<longleftrightarrow>
     lease_no i < rm_next_lease m
   \<and> (\<exists>e. hm_get (rm_entries m) k = Some e \<and> en_state e = Resident g)"

definition touches_differ :: "residency_manager \<Rightarrow> bool" where
  "touches_differ m \<longleftrightarrow>
     (\<forall>k e k' e'. hm_get (rm_entries m) k = Some e \<longrightarrow> hm_get (rm_entries m) k' = Some e' \<longrightarrow>
        en_last_touch e = en_last_touch e' \<longrightarrow> k = k')"

definition maps_ok :: "residency_manager \<Rightarrow> bool" where
  "maps_ok m \<longleftrightarrow>
     hm_ok (rm_pools m) \<and> hm_ok (rm_entries m) \<and> hm_ok (rm_loads m) \<and> hm_ok (rm_leases m)"

definition res_inv :: "residency_manager \<Rightarrow> bool" where
  "res_inv m \<longleftrightarrow>
     maps_ok m
   \<and> (\<forall>p st. hm_get (rm_pools m) p = Some st \<longrightarrow> pool_ok m p st)
   \<and> (\<forall>k e. hm_get (rm_entries m) k = Some e \<longrightarrow> entry_ok m k e)
   \<and> (\<forall>l k. hm_get (rm_loads m) l = Some k \<longrightarrow> load_ok m l k)
   \<and> (\<forall>i k g s. hm_get (rm_leases m) i = Some (k, g, s) \<longrightarrow> lease_ok m i k g)
   \<and> touches_differ m"

lemma inv_maps_ok: "res_inv m \<Longrightarrow> maps_ok m"
  by (simp add: res_inv_def)

lemma inv_pool: "res_inv m \<Longrightarrow> hm_get (rm_pools m) p = Some st \<Longrightarrow> pool_ok m p st"
  by (simp add: res_inv_def)

lemma inv_entry: "res_inv m \<Longrightarrow> hm_get (rm_entries m) k = Some e \<Longrightarrow> entry_ok m k e"
  by (simp add: res_inv_def)

lemma inv_load: "res_inv m \<Longrightarrow> hm_get (rm_loads m) l = Some k \<Longrightarrow> load_ok m l k"
  by (simp add: res_inv_def)

lemma inv_lease: "res_inv m \<Longrightarrow> hm_get (rm_leases m) i = Some (k, g, s) \<Longrightarrow> lease_ok m i k g"
  by (simp add: res_inv_def)

lemma inv_touches: "res_inv m \<Longrightarrow> touches_differ m"
  by (simp add: res_inv_def)

lemma res_inv_new: "res_inv new_manager"
  by (simp add: res_inv_def new_manager_def maps_ok_def touches_differ_def)

lemma tally_old:
  "hm_ok m \<Longrightarrow> tally f m = tally f (hm_remove k m) +
     (case hm_get m k of None \<Rightarrow> 0 | Some v \<Rightarrow> f (k, v))"
  by (simp add: tally_remove hm_remove_absent split: option.split)

lemma tally_filter:
  "sum_list (map (\<lambda>(k, e). en_bytes e) (filter (\<lambda>(k, e). P k e) m)) =
     tally (\<lambda>(k, e). if P k e then en_bytes e else 0) m"
  by (induction m) (auto simp: tally_def)

lemma other_pool [simp]:
  "ek_pool k \<noteq> p \<Longrightarrow> resident_in p (k, e) = 0"
  "ek_pool k \<noteq> p \<Longrightarrow> loading_in p (k, e) = 0"
  "ek_pool k \<noteq> p \<Longrightarrow> pinned_in p (k, e) = 0"
  by (simp_all add: resident_in_def loading_in_def pinned_in_def)

text \<open>
  One entry is rewritten (or created); pools, loads and leases change only
  where they concern that entry.
\<close>

lemma res_frame:
  assumes inv: "res_inv m"
    and get: "\<And>x. hm_get (rm_entries m') x = (if x = k then Some e else hm_get (rm_entries m) x)"
    and sums: "\<And>f. tally f (rm_entries m') = tally f (hm_remove k (rm_entries m)) + f (k, e)"
    and maps: "maps_ok m'"
    and other_pools: "\<And>p. p \<noteq> ek_pool k \<Longrightarrow> hm_get (rm_pools m') p = hm_get (rm_pools m) p"
    and pool: "\<exists>st. hm_get (rm_pools m') (ek_pool k) = Some st \<and> pool_ok m' (ek_pool k) st"
    and other_loads: "\<And>l x. x \<noteq> k \<Longrightarrow> hm_get (rm_loads m') l = Some x \<longleftrightarrow> hm_get (rm_loads m) l = Some x"
    and own_load: "\<And>l. hm_get (rm_loads m') l = Some k \<Longrightarrow> load_ok m' l k"
    and other_leases: "\<And>i x g s. x \<noteq> k \<Longrightarrow>
      hm_get (rm_leases m') i = Some (x, g, s) \<longleftrightarrow> hm_get (rm_leases m) i = Some (x, g, s)"
    and counts: "\<And>x. x \<noteq> k \<Longrightarrow> lease_count x (rm_leases m') = lease_count x (rm_leases m)"
    and own_lease: "\<And>i g s. hm_get (rm_leases m') i = Some (k, g, s) \<Longrightarrow> lease_ok m' i k g"
    and counters: "rm_next_load m \<le> rm_next_load m'" "rm_next_lease m \<le> rm_next_lease m'"
      "rm_clock m \<le> rm_clock m'" "\<And>x. x \<noteq> k \<Longrightarrow> next_generation m' x = next_generation m x"
    and entry: "entry_ok m' k e"
    and touched: "rm_clock m < en_last_touch e \<or>
      (\<exists>e0. hm_get (rm_entries m) k = Some e0 \<and> en_last_touch e = en_last_touch e0)"
  shows "res_inv m'"
proof -
  have known: "hm_get (rm_pools m') p \<noteq> None \<longleftrightarrow> hm_get (rm_pools m) p \<noteq> None \<or> p = ek_pool k" for p
    using other_pools [of p] pool by (cases "p = ek_pool k") auto
  have same: "tally f (rm_entries m') = tally f (rm_entries m)" if "\<And>e. f (k, e) = 0" for f
    using sums [of f] tally_old [of "rm_entries m" f k] inv_maps_ok [OF inv] that
    by (simp add: maps_ok_def split: option.split)
  have "pool_ok m' p st" if "hm_get (rm_pools m') p = Some st" for p st
  proof (cases "p = ek_pool k")
    case True
    with that pool show ?thesis by auto
  next
    case False
    with that other_pools have "pool_ok m p st" by (metis inv_pool [OF inv])
    with False show ?thesis by (auto simp: pool_ok_def same)
  qed
  moreover have "entry_ok m' x q" if "hm_get (rm_entries m') x = Some q" for x q
  proof (cases "x = k")
    case True
    with that get entry show ?thesis by simp
  next
    case False
    with that get have "entry_ok m x q" by (intro inv_entry [OF inv]) simp
    with False known [of "ek_pool x"] other_loads [OF False] counts [OF False] counters
    show ?thesis by (auto simp: entry_ok_def split: residency_state.splits)
  qed
  moreover have "load_ok m' l x" if "hm_get (rm_loads m') l = Some x" for l x
  proof (cases "x = k")
    case False
    with that other_loads have "load_ok m l x" by (intro inv_load [OF inv]) simp
    with False get counters show ?thesis by (auto simp: load_ok_def)
  qed (use that own_load in simp)
  moreover have "lease_ok m' i x g" if "hm_get (rm_leases m') i = Some (x, g, s)" for i x g s
  proof (cases "x = k")
    case False
    with that other_leases have "lease_ok m i x g" by (metis inv_lease [OF inv])
    with False get counters show ?thesis by (auto simp: lease_ok_def)
  qed (use that own_lease in simp)
  moreover have "touches_differ m'"
  proof -
    have old: "en_last_touch q \<le> rm_clock m" if "hm_get (rm_entries m) x = Some q" for x q
      using inv_entry [OF inv that] by (simp add: entry_ok_def)
    have "en_last_touch q \<noteq> en_last_touch e" if "hm_get (rm_entries m) x = Some q" "x \<noteq> k" for x q
      using touched old [OF that(1)] inv_touches [OF inv] that by (auto simp: touches_differ_def)
    with inv_touches [OF inv] show ?thesis
      unfolding touches_differ_def get by (metis option.inject)
  qed
  ultimately show ?thesis using maps by (simp add: res_inv_def)
qed

section \<open>Statistics and sums\<close>

lemma with_stats_sel [simp]:
  "rm_loads (with_stats p f m) = rm_loads m" "rm_leases (with_stats p f m) = rm_leases m"
  "rm_devices (with_stats p f m) = rm_devices m"
  "rm_next_load (with_stats p f m) = rm_next_load m" "rm_next_lease (with_stats p f m) = rm_next_lease m"
  "rm_next_generation (with_stats p f m) = rm_next_generation m" "rm_clock (with_stats p f m) = rm_clock m"
  by (simp_all add: with_stats_def)

lemma with_stats_get [simp]:
  "hm_get (rm_pools (with_stats p f m)) q =
     (if q = p then map_option f (hm_get (rm_pools m) p) else hm_get (rm_pools m) q)"
  by (simp add: with_stats_def hm_simps)

lemma with_stats_ok [simp]: "hm_ok (rm_pools (with_stats p f m)) = hm_ok (rm_pools m)"
  by (simp add: with_stats_def hm_simps)

lemma refresh_pinned_eq:
  "refresh_pinned p m = with_stats p (\<lambda>st. st\<lparr>pinned_bytes := tally (pinned_in p) (rm_entries m)\<rparr>) m"
  by (simp add: refresh_pinned_def pinned_in_def tally_filter)

lemma next_generation_with_stats [simp]: "next_generation (with_stats p f m) = next_generation m"
  by (simp add: next_generation_def fun_eq_iff)

definition at_key :: "(expert_key \<times> entry \<Rightarrow> nat) \<Rightarrow> expert_key \<Rightarrow> residency_manager \<Rightarrow> nat" where
  "at_key f k m = (case hm_get (rm_entries m) k of None \<Rightarrow> 0 | Some e \<Rightarrow> f (k, e))"

lemma pool_split:
  assumes inv: "res_inv m" and st: "hm_get (rm_pools m) p = Some st"
  shows "resident_bytes st = tally (resident_in p) (hm_remove k (rm_entries m)) + at_key (resident_in p) k m"
    and "reserved_loading_bytes st = tally (loading_in p) (hm_remove k (rm_entries m)) + at_key (loading_in p) k m"
    and "pinned_bytes st = tally (pinned_in p) (hm_remove k (rm_entries m)) + at_key (pinned_in p) k m"
    and "resident_bytes st + reserved_loading_bytes st \<le> budget_bytes st"
    and "budget_bytes st < usize_max"
  using inv_pool [OF inv st] inv_maps_ok [OF inv]
  by (simp_all add: pool_ok_def at_key_def maps_ok_def tally_old [symmetric])

lemma inv_pool_known:
  assumes inv: "res_inv m" and get: "hm_get (rm_entries m) k = Some e"
  obtains st where "hm_get (rm_pools m) (ek_pool k) = Some st"
  using inv_entry [OF inv get] by (auto simp: entry_ok_def)

lemma hm_modify_sums:
  "hm_ok m \<Longrightarrow> hm_get m k = Some e \<Longrightarrow>
     tally f (hm_modify k g m) = tally f (hm_remove k m) + f (k, g e)"
  by (rule tally_modify)

lemma bytes_at:
  "resident_in p (k, e) = (if ek_pool k = p \<and> is_resident e then en_bytes e else 0)"
  "loading_in p (k, e) = (if ek_pool k = p \<and> is_loading e then en_bytes e else 0)"
  "pinned_in p (k, e) = (if ek_pool k = p \<and> 0 < en_leases e \<and> is_resident e then en_bytes e else 0)"
  by (simp_all add: resident_in_def loading_in_def pinned_in_def)

text \<open>Everything the invariant says about one key that has an entry.\<close>

definition at_pool :: "residency_manager \<Rightarrow> expert_key \<Rightarrow> pool_stats \<Rightarrow> entry \<Rightarrow> bool" where
  "at_pool m k st e \<longleftrightarrow>
     resident_bytes st = tally (resident_in (ek_pool k)) (hm_remove k (rm_entries m)) +
       (if is_resident e then en_bytes e else 0)
   \<and> reserved_loading_bytes st = tally (loading_in (ek_pool k)) (hm_remove k (rm_entries m)) +
       (if is_loading e then en_bytes e else 0)
   \<and> pinned_bytes st = tally (pinned_in (ek_pool k)) (hm_remove k (rm_entries m)) +
       (if 0 < en_leases e \<and> is_resident e then en_bytes e else 0)
   \<and> resident_bytes st + reserved_loading_bytes st \<le> budget_bytes st
   \<and> budget_bytes st < usize_max"

definition own_ids :: "residency_manager \<Rightarrow> expert_key \<Rightarrow> entry \<Rightarrow> bool" where
  "own_ids m k e \<longleftrightarrow>
     (\<forall>l. hm_get (rm_loads m) l = Some k \<longrightarrow> en_state e = Loading l \<and> load_no l < rm_next_load m)
   \<and> (\<forall>i g s. hm_get (rm_leases m) i = Some (k, g, s) \<longrightarrow>
        en_state e = Resident g \<and> lease_no i < rm_next_lease m)"

lemma inv_at:
  assumes inv: "res_inv m" and get: "hm_get (rm_entries m) k = Some e"
  obtains st where "hm_get (rm_pools m) (ek_pool k) = Some st" "at_pool m k st e" "own_ids m k e"
proof -
  obtain st where st: "hm_get (rm_pools m) (ek_pool k) = Some st" by (rule inv_pool_known [OF inv get])
  moreover have "at_pool m k st e"
    using pool_split(1-3) [OF inv st, of k] pool_split(4,5) [OF inv st] get
    by (simp add: at_pool_def at_key_def bytes_at)
  moreover have "own_ids m k e"
    using inv_load [OF inv] inv_lease [OF inv] get
    by (fastforce simp: own_ids_def load_ok_def lease_ok_def)
  ultimately show ?thesis by (rule that)
qed

lemmas entry_kind = is_resident_def is_loading_def

lemma inv_ok:
  assumes "res_inv m"
  shows "hm_ok (rm_pools m)" "hm_ok (rm_entries m)" "hm_ok (rm_loads m)" "hm_ok (rm_leases m)"
  using inv_maps_ok [OF assms] by (simp_all add: maps_ok_def)

lemmas res_defs = maps_ok_def pool_ok_def entry_ok_def load_ok_def lease_ok_def next_generation_def

section \<open>Preservation\<close>

lemma inv_add_pool:
  assumes inv: "res_inv m" and b: "b < usize_max"
  shows "res_inv (snd (add_pool p b m))"
proof (cases "hm_get (rm_pools m) p")
  case None
  let ?m = "snd (add_pool p b m)"
  have m: "?m = m\<lparr>rm_pools := hm_insert p (empty_stats b) (rm_pools m)\<rparr>"
    using None by (simp add: add_pool_def)
  have unused: "ek_pool (fst q) \<noteq> p" if "q \<in> set (rm_entries m)" for q
  proof -
    from that inv_maps_ok [OF inv] have "hm_get (rm_entries m) (fst q) = Some (snd q)"
      by (simp add: maps_ok_def hm_in_set_get)
    from inv_entry [OF inv this] None show ?thesis by (auto simp: entry_ok_def)
  qed
  then have "resident_in p q = 0 \<and> loading_in p q = 0 \<and> pinned_in p q = 0"
    if "q \<in> set (rm_entries m)" for q
    using that by (cases q) auto
  then have zero: "tally (resident_in p) (rm_entries m) = 0" "tally (loading_in p) (rm_entries m) = 0"
    "tally (pinned_in p) (rm_entries m) = 0"
    by (simp_all add: tally_zero)
  have "pool_ok ?m q st" if "hm_get (rm_pools ?m) q = Some st" for q st
  proof (cases "q = p")
    case True
    with that zero b show ?thesis by (auto simp: m pool_ok_def empty_stats_def hm_simps)
  next
    case False
    with that have "pool_ok m q st" by (intro inv_pool [OF inv]) (simp add: m hm_simps)
    then show ?thesis by (simp add: pool_ok_def m)
  qed
  moreover have "entry_ok ?m k e" if "hm_get (rm_entries ?m) k = Some e" for k e
    using inv_entry [OF inv, of k e] that
    by (auto simp: m entry_ok_def hm_simps next_generation_def split: residency_state.splits)
  ultimately show ?thesis
    using inv by (auto simp: res_inv_def m maps_ok_def hm_simps load_ok_def lease_ok_def
        touches_differ_def)
qed (use inv in \<open>simp add: add_pool_def\<close>)

lemma res_inv_devices: "res_inv (m\<lparr>rm_devices := ds\<rparr>) = res_inv m"
  by (simp add: res_inv_def maps_ok_def pool_ok_def entry_ok_def load_ok_def lease_ok_def
      touches_differ_def next_generation_def cong: residency_state.case_cong)

lemma inv_add_device: "res_inv m \<Longrightarrow> res_inv (snd (add_device d ps m))"
  by (simp add: add_device_def res_inv_devices split: option.split)

lemma inv_stats_only:
  assumes inv: "res_inv m"
    and f: "\<And>st. resident_bytes (f st) = resident_bytes st \<and> pinned_bytes (f st) = pinned_bytes st \<and>
      reserved_loading_bytes (f st) = reserved_loading_bytes st \<and> budget_bytes (f st) = budget_bytes st"
  shows "res_inv (with_stats p f m)"
proof -
  have "pool_ok (with_stats p f m) q st" if "hm_get (rm_pools (with_stats p f m)) q = Some st" for q st
    using that inv_pool [OF inv, of q] f by (auto simp: pool_ok_def split: if_splits)
  moreover have "entry_ok (with_stats p f m) k e" if "hm_get (rm_entries m) k = Some e" for k e
    using inv_entry [OF inv that] by (auto simp: entry_ok_def split: residency_state.splits)
  ultimately show ?thesis
    using inv by (auto simp: res_inv_def maps_ok_def load_ok_def lease_ok_def touches_differ_def)
qed

text \<open>An update of one entry's waiters or touch time, with the clock it reads.\<close>

lemma inv_entry_only:
  assumes inv: "res_inv m" and get: "hm_get (rm_entries m) k = Some e"
    and same: "en_state (g e) = en_state e" "en_bytes (g e) = en_bytes e" "en_leases (g e) = en_leases e"
    and waiters: "distinct (en_waiters (g e))" "en_waiters e = [] \<and> \<not> is_loading e \<Longrightarrow> en_waiters (g e) = []"
    and clock: "rm_clock m \<le> c" "en_last_touch (g e) \<le> c"
      "rm_clock m < en_last_touch (g e) \<or> en_last_touch (g e) = en_last_touch e"
  shows "res_inv (m\<lparr>rm_clock := c, rm_entries := hm_modify k g (rm_entries m)\<rparr>)"
    (is "res_inv ?m")
proof (rule res_frame [OF inv, of _ k "g e"])
  show sums: "tally f (rm_entries ?m) = tally f (hm_remove k (rm_entries m)) + f (k, g e)" for f
    using inv_ok [OF inv] get by (simp add: tally_modify)
  obtain st where st: "hm_get (rm_pools m) (ek_pool k) = Some st" and at: "at_pool m k st e" "own_ids m k e"
    by (rule inv_at [OF inv get])
  show "\<exists>st. hm_get (rm_pools ?m) (ek_pool k) = Some st \<and> pool_ok ?m (ek_pool k) st"
    using at st same
    by (simp add: pool_ok_def sums [simplified] bytes_at at_pool_def entry_kind)
  show "load_ok ?m l k" if "hm_get (rm_loads ?m) l = Some k" for l
    using at that by (simp add: load_ok_def own_ids_def hm_simps get same)
  show "lease_ok ?m i k y" if "hm_get (rm_leases ?m) i = Some (k, y, s)" for i y s
    using at that by (auto simp add: lease_ok_def own_ids_def hm_simps get same)
  show "entry_ok ?m k (g e)"
    using inv_entry [OF inv get] waiters clock same
    by (auto simp: entry_ok_def next_generation_def entry_kind split: residency_state.splits)
qed (use inv_ok [OF inv] clock get in \<open>auto simp: hm_simps maps_ok_def next_generation_def\<close>)

lemma inv_touch:
  assumes inv: "res_inv m" and get: "hm_get (rm_entries m) k = Some e" and room: "rm_clock m < u64_max"
  shows "res_inv (touch k m)"
proof -
  have "touch k m = m\<lparr>rm_clock := Suc (rm_clock m),
      rm_entries := hm_modify k (\<lambda>e. e\<lparr>en_last_touch := Suc (rm_clock m)\<rparr>) (rm_entries m)\<rparr>"
    using room by (simp add: touch_def tick_def Let_def saturating_add_u64_below)
  moreover have "distinct (en_waiters e)"
    using inv_entry [OF inv get] by (simp add: entry_ok_def)
  ultimately show ?thesis
    using inv_entry_only [OF inv get, of "\<lambda>e. e\<lparr>en_last_touch := Suc (rm_clock m)\<rparr>" "Suc (rm_clock m)"]
    by simp
qed

lemma inv_join:
  assumes inv: "res_inv m" and get: "hm_get (rm_entries m) k = Some e" and loading: "en_state e = Loading l"
  shows "res_inv (m\<lparr>rm_entries := hm_modify k (\<lambda>e. if w \<in> set (en_waiters e) then e
    else e\<lparr>en_waiters := en_waiters e @ [w]\<rparr>) (rm_entries m)\<rparr>)"
proof -
  let ?g = "\<lambda>e. if w \<in> set (en_waiters e) then e else e\<lparr>en_waiters := en_waiters e @ [w]\<rparr>"
  have "res_inv (m\<lparr>rm_clock := rm_clock m, rm_entries := hm_modify k ?g (rm_entries m)\<rparr>)"
    using inv_entry [OF inv get] loading
    by (intro inv_entry_only [OF inv get]) (auto simp: entry_ok_def entry_kind)
  then show ?thesis by simp
qed

lemma inv_cancel_waiter:
  assumes inv: "res_inv m"
  shows "res_inv (snd (cancel_waiter l s m))"
proof -
  have "res_inv (m\<lparr>rm_clock := rm_clock m, rm_entries := hm_modify k (\<lambda>e'. e'\<lparr>en_waiters :=
      filter (\<lambda>c. c \<noteq> s) (en_waiters e)\<rparr>) (rm_entries m)\<rparr>)"
    if get: "hm_get (rm_entries m) k = Some e" for k e
    using inv_entry [OF inv get]
    by (intro inv_entry_only [OF inv get]) (auto simp: entry_ok_def)
  then show ?thesis using inv by (auto simp: cancel_waiter_def Let_def split: option.split)
qed

section \<open>Eviction\<close>

lemma with_stats_compose:
  "with_stats p f (with_stats p g m) = with_stats p (\<lambda>st. f (g st)) m"
  by (simp add: with_stats_def hm_modify_modify)

lemma rm_update_with_stats [simp]:
  "rm_pools (m\<lparr>rm_entries := es\<rparr>) = rm_pools m"
  by simp

lemma no_lease_on:
  assumes inv: "res_inv m" and none: "lease_count k (rm_leases m) = 0"
  shows "hm_get (rm_leases m) i \<noteq> Some (k, g, s)"
proof
  assume "hm_get (rm_leases m) i = Some (k, g, s)"
  then have "(i, k, g, s) \<in> set (rm_leases m)" by (rule hm_get_in_set)
  with none have "lease_on k (i, k, g, s) = 0" unfolding tally_zero by blast
  then show False by (simp add: lease_on_def)
qed

definition dropped :: "expert_key \<Rightarrow> entry \<Rightarrow> residency_manager \<Rightarrow> residency_manager" where
  "dropped k e m = refresh_pinned (ek_pool k)
     (with_stats (ek_pool k) (\<lambda>st. st\<lparr>
          resident_bytes := saturating_sub (resident_bytes st) (en_bytes e),
          evictions := wrapping_add_u64 (evictions st) 1\<rparr>)
        (m\<lparr>rm_entries := hm_remove k (rm_entries m)\<rparr>))"

lemma inv_dropped:
  assumes inv: "res_inv m" and get: "hm_get (rm_entries m) k = Some e"
    and free: "en_leases e = 0" and resident: "is_resident e"
  shows "res_inv (dropped k e m)" (is "res_inv ?m")
proof -
  obtain st where st: "hm_get (rm_pools m) (ek_pool k) = Some st" and at: "at_pool m k st e" "own_ids m k e"
    by (rule inv_at [OF inv get])
  have entries: "rm_entries ?m = hm_remove k (rm_entries m)" by (simp add: dropped_def)
  have sel: "rm_loads ?m = rm_loads m" "rm_leases ?m = rm_leases m" "rm_clock ?m = rm_clock m"
    "rm_next_load ?m = rm_next_load m" "rm_next_lease ?m = rm_next_lease m"
    "next_generation ?m = next_generation m"
    by (simp_all add: dropped_def refresh_pinned_eq next_generation_def fun_eq_iff)
  have unloaded: "hm_get (rm_loads m) l \<noteq> Some k" for l
    using at(2) resident by (auto simp: own_ids_def is_resident_def)
  have unleased: "hm_get (rm_leases m) i \<noteq> Some (k, g, s)" for i g s
    using no_lease_on [OF inv] inv_entry [OF inv get] free by (simp add: entry_ok_def)
  have same: "tally f (rm_entries m) = tally f (hm_remove k (rm_entries m)) + f (k, e)" for f
    using inv_ok [OF inv] get by (simp add: tally_remove)
  have pools: "hm_get (rm_pools ?m) p = (if p = ek_pool k then Some (st\<lparr>
      resident_bytes := resident_bytes st - en_bytes e, evictions := wrapping_add_u64 (evictions st) 1,
      pinned_bytes := tally (pinned_in p) (hm_remove k (rm_entries m))\<rparr>) else hm_get (rm_pools m) p)" for p
    using st by (simp add: dropped_def refresh_pinned_eq saturating_sub_def)
  have "pool_ok ?m p s" if "hm_get (rm_pools ?m) p = Some s" for p s
  proof (cases "p = ek_pool k")
    case True
    with that at st resident show ?thesis
      by (auto simp: pools pool_ok_def entries at_pool_def bytes_at entry_kind split: residency_state.splits)
  next
    case False
    with that have "pool_ok m p s" by (intro inv_pool [OF inv]) (simp add: pools)
    with False show ?thesis by (simp add: pool_ok_def entries same)
  qed
  moreover have "entry_ok ?m x q" if "hm_get (rm_entries ?m) x = Some q" for x q
  proof -
    from that have "entry_ok m x q"
      by (intro inv_entry [OF inv]) (auto simp: entries hm_simps split: if_splits)
    then show ?thesis using st
      by (auto simp: entry_ok_def sel pools split: residency_state.splits)
  qed
  moreover have "load_ok ?m l x" if "hm_get (rm_loads m) l = Some x" for l x
    using inv_load [OF inv that] unloaded [of l] that by (auto simp: load_ok_def sel entries hm_simps)
  moreover have "lease_ok ?m i x g" if "hm_get (rm_leases m) i = Some (x, g, s)" for i x g s
    using inv_lease [OF inv that] unleased [of i] that by (auto simp: lease_ok_def sel entries hm_simps)
  moreover have "touches_differ ?m"
    using inv_touches [OF inv] by (auto simp: touches_differ_def entries hm_simps split: if_splits)
  moreover have "maps_ok ?m"
    using inv_ok [OF inv] by (simp add: maps_ok_def sel entries hm_simps dropped_def refresh_pinned_eq)
  ultimately show ?thesis by (simp add: res_inv_def sel)
qed

text \<open>What an eviction does, read off the victim search.\<close>

lemma evict_cases:
  assumes inv: "res_inv m"
  obtains (unknown) "hm_get (rm_pools m) p = None" "evict p m = (Inl (UnknownPool p), m)"
    | (stuck) "hm_get (rm_pools m) p \<noteq> None" "evict p m = (Inr None, m)"
        "\<And>k e. hm_get (rm_entries m) k = Some e \<Longrightarrow> \<not> evictable_in p (k, e)"
    | (victim) k e where "ek_pool k = p" "hm_get (rm_entries m) k = Some e" "en_leases e = 0"
        "is_resident e" "evict p m = (Inr (Some k), dropped k e m)"
        "\<And>k' e'. hm_get (rm_entries m) k' = Some e' \<Longrightarrow> evictable_in p (k', e') \<Longrightarrow>
           en_last_touch e \<le> en_last_touch e'"
proof (cases "hm_get (rm_pools m) p")
  case None
  with unknown show thesis by (simp add: evict_def)
next
  case (Some st)
  let ?c = "filter (evictable_in p) (rm_entries m)"
  show thesis
  proof (cases "min_by_key (\<lambda>(k, e). en_last_touch e) ?c")
    case None
    then have "?c = []" by (simp add: min_by_key_None)
    then have "\<not> evictable_in p (k, e)" if "hm_get (rm_entries m) k = Some e" for k e
      using hm_get_in_set [OF that] by (auto simp: filter_empty_conv)
    with None Some stuck show thesis by (simp add: evict_def)
  next
    case least: (Some ke)
    obtain k e where ke: "ke = (k, e)" by force
    from min_by_key_in [OF least] ke have mem: "(k, e) \<in> set (rm_entries m)" and "evictable_in p (k, e)"
      by auto
    then have kind: "ek_pool k = p" "en_leases e = 0" "is_resident e" by (auto simp: evictable_in_def)
    have get: "hm_get (rm_entries m) k = Some e" using mem inv_ok [OF inv] by (simp add: hm_in_set_get)
    have evicts: "evict p m = (Inr (Some k), dropped k e m)"
      using Some least ke kind by (simp add: evict_def dropped_def)
    have "en_last_touch e \<le> en_last_touch e'"
      if "hm_get (rm_entries m) k' = Some e'" "evictable_in p (k', e')" for k' e'
      using min_by_key_le [OF least, of "(k', e')"] hm_get_in_set [OF that(1)] that(2) ke by simp
    with kind(1) get kind(2,3) evicts show thesis by (rule victim)
  qed
qed

lemma inv_evict:
  assumes inv: "res_inv m"
  shows "res_inv (snd (evict p m))"
  by (rule evict_cases [OF inv, of p]) (simp_all add: inv inv_dropped)

section \<open>Making room\<close>

text \<open>The manager after some evictions: only unpinned resident entries are gone.\<close>

definition evicted_some :: "residency_manager \<Rightarrow> residency_manager \<Rightarrow> bool" where
  "evicted_some m m' \<longleftrightarrow>
     rm_loads m' = rm_loads m \<and> rm_leases m' = rm_leases m \<and> rm_clock m' = rm_clock m
   \<and> rm_next_load m' = rm_next_load m \<and> rm_next_lease m' = rm_next_lease m
   \<and> rm_next_generation m' = rm_next_generation m
   \<and> (\<forall>p. map_option budget_bytes (hm_get (rm_pools m') p) =
          map_option budget_bytes (hm_get (rm_pools m) p))
   \<and> (\<forall>k. hm_get (rm_entries m') k = hm_get (rm_entries m) k
        \<or> hm_get (rm_entries m') k = None
          \<and> (\<exists>e. hm_get (rm_entries m) k = Some e \<and> en_leases e = 0 \<and> is_resident e))"

lemma evicted_some_refl [simp]: "evicted_some m m"
  by (simp add: evicted_some_def)

lemma evicted_some_sel:
  assumes "evicted_some m m'"
  shows "rm_loads m' = rm_loads m" "rm_leases m' = rm_leases m" "rm_clock m' = rm_clock m"
    "rm_next_load m' = rm_next_load m" "rm_next_lease m' = rm_next_lease m"
    "rm_next_generation m' = rm_next_generation m"
  using assms by (simp_all add: evicted_some_def)

lemma evicted_some_entry:
  "evicted_some m m' \<Longrightarrow> hm_get (rm_entries m') k = Some e \<Longrightarrow> hm_get (rm_entries m) k = Some e"
  unfolding evicted_some_def by (metis option.distinct(1))

lemma evicted_some_trans: "evicted_some m m' \<Longrightarrow> evicted_some m' m'' \<Longrightarrow> evicted_some m m''"
  unfolding evicted_some_def by metis

lemma evicted_some_dropped:
  assumes "hm_get (rm_entries m) k = Some e" "en_leases e = 0" "is_resident e"
  shows "evicted_some m (dropped k e m)"
  using assms by (auto simp: evicted_some_def dropped_def refresh_pinned_eq hm_simps option.map_comp o_def)

lemma evict_shape:
  assumes inv: "res_inv m"
  shows "evicted_some m (snd (evict p m))"
  by (rule evict_cases [OF inv, of p]) (simp_all add: evicted_some_dropped)

definition used_bytes :: "pool_stats \<Rightarrow> nat" where
  "used_bytes st = resident_bytes st + reserved_loading_bytes st"

lemma ensure_loop_spec:
  assumes "res_inv m" "hm_get (rm_pools m) p = Some st" "budget_bytes st = budget"
    and "ensure_loop p bytes budget m = (r, m')"
  shows "res_inv m' \<and> evicted_some m m' \<and>
    (\<exists>st'. hm_get (rm_pools m') p = Some st' \<and> budget_bytes st' = budget \<and>
      (if r = Inr () then used_bytes st' + bytes \<le> budget
       else r = Inl (BudgetExceeded p bytes (budget - used_bytes st')) \<and> budget < used_bytes st' + bytes \<and>
         (\<forall>k e. hm_get (rm_entries m') k = Some e \<longrightarrow> \<not> evictable_in p (k, e))))"
  using assms
proof (induction p bytes budget m arbitrary: st rule: ensure_loop.induct)
  case (1 p bytes budget m)
  have inv: "res_inv m" and st: "hm_get (rm_pools m) p = Some st" and b: "budget_bytes st = budget"
    by (rule "1.prems")+
  have fits: "used_bytes st \<le> budget" "budget < usize_max"
    using inv_pool [OF inv st] b by (simp_all add: pool_ok_def used_bytes_def)
  have used: "saturating_add_usize (resident_bytes st) (reserved_loading_bytes st) = used_bytes st"
    using fits by (simp add: saturating_add_usize_def used_bytes_def)
  have cond: "saturating_add_usize (used_bytes st) bytes \<le> budget \<longleftrightarrow> used_bytes st + bytes \<le> budget"
    using fits by (simp add: saturating_add_usize_le_iff)
  have loop: "ensure_loop p bytes budget m =
     (if used_bytes st + bytes \<le> budget then (Inr (), m)
      else case evict p m of (Inl e, m') \<Rightarrow> (Inl e, m')
        | (Inr None, m') \<Rightarrow> (Inl (BudgetExceeded p bytes (saturating_sub budget (used_bytes st))), m')
        | (Inr (Some _), m') \<Rightarrow> ensure_loop p bytes budget m')"
    by (subst ensure_loop.simps) (simp add: st used cond Let_def)
  show ?case
  proof (cases "used_bytes st + bytes \<le> budget")
    case True
    with "1.prems" loop show ?thesis by auto
  next
    case False
    from inv show ?thesis
    proof (rule evict_cases [of m p])
      assume "hm_get (rm_pools m) p = None" with st show ?thesis by simp
    next
      assume "evict p m = (Inr None, m)"
        "\<And>k e. hm_get (rm_entries m) k = Some e \<Longrightarrow> \<not> evictable_in p (k, e)"
      with False loop "1.prems" show ?thesis by (auto simp: saturating_sub_def)
    next
      fix k e
      assume ev: "evict p m = (Inr (Some k), dropped k e m)"
        and e: "hm_get (rm_entries m) k = Some e" "en_leases e = 0" "is_resident e"
      have inv': "res_inv (dropped k e m)" by (rule inv_dropped [OF inv e])
      have gone: "evicted_some m (dropped k e m)" by (rule evicted_some_dropped [OF e])
      then obtain st' where st': "hm_get (rm_pools (dropped k e m)) p = Some st'" "budget_bytes st' = budget"
        using st b unfolding evicted_some_def by (metis (no_types, lifting) map_option_eq_Some)
      have "ensure_loop p bytes budget (dropped k e m) = (r, m')"
        using "1.prems" False loop ev by simp
      with "1.IH" [OF st refl _ ev [symmetric] refl refl inv' st'] gone False
      show ?thesis by (auto simp: used cond dest: evicted_some_trans)
    qed
  qed
qed

lemma ensure_space_spec:
  assumes inv: "res_inv m" and run: "ensure_space p bytes m = (r, m')"
  shows "res_inv m'" and "evicted_some m m'"
    and "r = Inr () \<Longrightarrow> \<exists>st'. hm_get (rm_pools m') p = Some st' \<and> used_bytes st' + bytes \<le> budget_bytes st'"
  using run ensure_loop_spec [OF inv _ refl] inv
  by (fastforce simp: ensure_space_def split: option.splits if_splits)+

section \<open>Loads\<close>

lemma lease_count_absent:
  assumes inv: "res_inv m" and none: "\<And>e g. hm_get (rm_entries m) k = Some e \<Longrightarrow> en_state e \<noteq> Resident g"
  shows "lease_count k (rm_leases m) = 0"
proof -
  have "lease_on k q = 0" if "q \<in> set (rm_leases m)" for q
  proof -
    obtain i k' g s where q: "q = (i, k', g, s)" by (cases q) auto
    have "hm_get (rm_leases m) i = Some (k', g, s)"
      using that q inv_ok [OF inv] by (simp add: hm_in_set_get)
    from inv_lease [OF inv this] none show ?thesis by (auto simp: q lease_on_def lease_ok_def)
  qed
  then show ?thesis by (simp add: tally_zero)
qed

lemma inv_start_load:
  assumes inv: "res_inv m"
    and idle: "\<And>e. hm_get (rm_entries m) k = Some e \<Longrightarrow> \<not> is_resident e \<and> \<not> is_loading e"
    and st: "hm_get (rm_pools m) (ek_pool k) = Some st" and fits: "used_bytes st + bytes \<le> budget_bytes st"
    and room: "rm_clock m < u64_max" "rm_next_load m < u64_max"
  shows "res_inv (snd (start_load k bytes w m))" (is "res_inv ?m")
proof -
  let ?l = "LoadId (rm_next_load m)"
  let ?e = "\<lparr>en_state = Loading ?l, en_bytes = bytes, en_waiters = [w], en_leases = 0,
               en_last_touch = Suc (rm_clock m)\<rparr>"
  have m': "?m = with_stats (ek_pool k) (\<lambda>st. st\<lparr>misses := wrapping_add_u64 (misses st) 1,
        loads_started := wrapping_add_u64 (loads_started st) 1,
        reserved_loading_bytes := wrapping_add_usize (reserved_loading_bytes st) bytes\<rparr>)
      (m\<lparr>rm_next_load := Suc (rm_next_load m), rm_clock := Suc (rm_clock m),
         rm_entries := hm_insert k ?e (rm_entries m), rm_loads := hm_insert ?l k (rm_loads m)\<rparr>)"
    using st room by (simp add: start_load_def alloc_load_def tick_def Let_def saturating_add_u64_below)
  have sums: "tally f (rm_entries ?m) = tally f (hm_remove k (rm_entries m)) + f (k, ?e)" for f
    using inv_ok [OF inv] by (simp add: m' tally_insert)
  have pool: "budget_bytes st < usize_max"
    "resident_bytes st = tally (resident_in (ek_pool k)) (hm_remove k (rm_entries m))"
    "reserved_loading_bytes st = tally (loading_in (ek_pool k)) (hm_remove k (rm_entries m))"
    "pinned_bytes st = tally (pinned_in (ek_pool k)) (hm_remove k (rm_entries m))"
    using pool_split(1-3) [OF inv st, of k] pool_split(5) [OF inv st] idle
    by (simp_all add: at_key_def bytes_at split: option.splits)
  have unloaded: "hm_get (rm_loads m) l \<noteq> Some k" for l
    using inv_load [OF inv, of l k] idle by (auto simp: load_ok_def is_loading_def)
  have fresh: "hm_get (rm_loads m) ?l = None"
    using inv_load [OF inv, of ?l] by (cases "hm_get (rm_loads m) ?l") (auto simp: load_ok_def)
  have unleased: "lease_count k (rm_leases m) = 0"
    using idle by (intro lease_count_absent [OF inv]) (auto simp: is_resident_def)
  have wrap: "wrapping_add_usize (reserved_loading_bytes st) bytes = reserved_loading_bytes st + bytes"
    using fits pool by (intro wrapping_add_usize_fits) (simp add: used_bytes_def)
  show ?thesis
  proof (rule res_frame [OF inv, of _ k ?e])
    show "tally f (rm_entries ?m) = tally f (hm_remove k (rm_entries m)) + f (k, ?e)" for f
      by (rule sums)
    show "\<exists>st. hm_get (rm_pools ?m) (ek_pool k) = Some st \<and> pool_ok ?m (ek_pool k) st"
      using st pool(1) fits sums
      by (simp add: pool_ok_def bytes_at entry_kind m' wrap used_bytes_def pool(2-4) [symmetric])
    show "lease_ok ?m i k g" if "hm_get (rm_leases ?m) i = Some (k, g, s)" for i g s
      using that no_lease_on [OF inv unleased] by (simp add: m')
  qed (use inv_ok [OF inv] unloaded fresh unleased st in
      \<open>auto simp: m' hm_simps maps_ok_def next_generation_def load_ok_def entry_ok_def
        split: if_splits\<close>)
qed

lemma inv_begin_load:
  assumes inv: "res_inv m" and room: "rm_clock m < u64_max" "rm_next_load m < u64_max"
  shows "res_inv (snd (begin_load k bytes w m))"
proof -
  have fresh: "res_inv (snd (case ensure_space (ek_pool k) bytes m of
      (Inl e, m') \<Rightarrow> (Inl e, m') | (Inr _, m') \<Rightarrow> start_load k bytes w m'))"
    if idle: "\<And>e. hm_get (rm_entries m) k = Some e \<Longrightarrow> \<not> is_resident e \<and> \<not> is_loading e"
  proof (cases "ensure_space (ek_pool k) bytes m")
    case (Pair r m')
    have "res_inv (snd (start_load k bytes w m'))" if r: "r = Inr ()"
    proof -
      obtain st where "hm_get (rm_pools m') (ek_pool k) = Some st" "used_bytes st + bytes \<le> budget_bytes st"
        using ensure_space_spec(3) [OF inv Pair r] by blast
      with ensure_space_spec(1,2) [OF inv Pair] idle room show ?thesis
        by (intro inv_start_load) (auto dest: evicted_some_entry simp: evicted_some_sel)
    qed
    with Pair ensure_space_spec(1) [OF inv Pair] show ?thesis by (cases r) auto
  qed
  show ?thesis
  proof (cases "hm_get (rm_entries m) k")
    case None
    then show ?thesis using fresh by (simp add: begin_load_def)
  next
    case (Some e)
    show ?thesis
      using fresh Some room inv_touch [OF inv Some] inv_join [OF inv Some] inv
      by (cases "en_state e")
        (auto simp: begin_load_def Let_def entry_kind intro!: inv_stats_only)
  qed
qed

section \<open>Completions\<close>

definition granted :: "nat \<Rightarrow> expert_key \<Rightarrow> generation \<Rightarrow> session_id list \<Rightarrow> load_wake list" where
  "granted n k g ss = map (\<lambda>(i, s). \<lparr>lw_session = s, lw_result =
     Inr \<lparr>le_id = LeaseId i, le_key = k, le_generation = g, le_owner = s\<rparr>\<rparr>) (enumerate n ss)"

definition fresh_leases :: "residency_manager \<Rightarrow> bool" where
  "fresh_leases m \<longleftrightarrow> (\<forall>i v. hm_get (rm_leases m) i = Some v \<longrightarrow> lease_no i < rm_next_lease m)"

lemma inv_fresh_leases: "res_inv m \<Longrightarrow> fresh_leases m"
  by (auto simp: fresh_leases_def dest: inv_lease simp: lease_ok_def)

lemma lease_waiters_spec:
  assumes "fresh_leases m" "hm_ok (rm_leases m)" "rm_next_lease m + length ss \<le> u64_max"
  shows "\<exists>ls. lease_waiters k g ss m =
      (granted (rm_next_lease m) k g ss, m\<lparr>rm_next_lease := rm_next_lease m + length ss, rm_leases := ls\<rparr>)
    \<and> hm_ok ls
    \<and> (\<forall>i. hm_get ls i = (if rm_next_lease m \<le> lease_no i \<and> lease_no i < rm_next_lease m + length ss
         then Some (k, g, ss ! (lease_no i - rm_next_lease m)) else hm_get (rm_leases m) i))
    \<and> (\<forall>x. lease_count x ls = lease_count x (rm_leases m) + (if x = k then length ss else 0))"
  using assms
proof (induction ss arbitrary: m)
  case Nil
  then show ?case by (intro exI [of _ "rm_leases m"]) (auto simp: granted_def)
next
  case (Cons s ss)
  let ?i = "LeaseId (rm_next_lease m)"
  let ?m = "m\<lparr>rm_next_lease := Suc (rm_next_lease m), rm_leases := hm_insert ?i (k, g, s) (rm_leases m)\<rparr>"
  have new: "new_lease k g s m = (\<lparr>le_id = ?i, le_key = k, le_generation = g, le_owner = s\<rparr>, ?m)"
    using Cons.prems by (simp add: new_lease_def Let_def saturating_add_u64_below)
  have "hm_get (rm_leases m) ?i = None"
    using Cons.prems(1) unfolding fresh_leases_def
    by (metis lease_id.sel less_irrefl option.exhaust)
  then have count: "lease_count x (rm_leases ?m) = lease_count x (rm_leases m) + (if x = k then 1 else 0)" for x
    using Cons.prems(2) by (simp add: tally_insert hm_remove_absent lease_on_def)
  have "fresh_leases ?m" "hm_ok (rm_leases ?m)" "rm_next_lease ?m + length ss \<le> u64_max"
    using Cons.prems by (auto simp: fresh_leases_def hm_simps less_Suc_eq)
  from Cons.IH [OF this] obtain ls where ls:
    "lease_waiters k g ss ?m = (granted (rm_next_lease ?m) k g ss,
        ?m\<lparr>rm_next_lease := rm_next_lease ?m + length ss, rm_leases := ls\<rparr>)" "hm_ok ls"
    "\<forall>i. hm_get ls i = (if rm_next_lease ?m \<le> lease_no i \<and> lease_no i < rm_next_lease ?m + length ss
         then Some (k, g, ss ! (lease_no i - rm_next_lease ?m)) else hm_get (rm_leases ?m) i)"
    "\<forall>x. lease_count x ls = lease_count x (rm_leases ?m) + (if x = k then length ss else 0)"
    by blast
  have "hm_get ls i = (if rm_next_lease m \<le> lease_no i \<and> lease_no i < rm_next_lease m + length (s # ss)
         then Some (k, g, (s # ss) ! (lease_no i - rm_next_lease m)) else hm_get (rm_leases m) i)" for i
    using ls(3) by (cases i) (auto simp: hm_simps nth_Cons' not_less_eq_eq)
  with ls count show ?case
    by (intro exI [of _ ls]) (simp add: new granted_def Let_def)
qed

lemma refresh_after:
  "hm_get (rm_pools (refresh_pinned p (with_stats p f m))) q =
     (if q = p then map_option (\<lambda>st. (f st)\<lparr>pinned_bytes := tally (pinned_in p) (rm_entries m)\<rparr>)
        (hm_get (rm_pools m) p) else hm_get (rm_pools m) q)"
  by (simp add: refresh_pinned_eq option.map_comp o_def)

lemma refresh_sel [simp]:
  "rm_loads (refresh_pinned p m) = rm_loads m" "rm_leases (refresh_pinned p m) = rm_leases m"
  "rm_next_load (refresh_pinned p m) = rm_next_load m" "rm_next_lease (refresh_pinned p m) = rm_next_lease m"
  "rm_next_generation (refresh_pinned p m) = rm_next_generation m" "rm_clock (refresh_pinned p m) = rm_clock m"
  "hm_ok (rm_pools (refresh_pinned p m)) = hm_ok (rm_pools m)"
  by (simp_all add: refresh_pinned_eq)

text \<open>The state a successful completion leads to, field by field.\<close>

lemma complete_success:
  assumes inv: "res_inv m" and load: "hm_get (rm_loads m) l = Some k" and get: "hm_get (rm_entries m) k = Some e"
    and st: "hm_get (rm_pools m) (ek_pool k) = Some st"
    and room: "rm_clock m < u64_max" "next_generation m k < u64_max"
      "rm_next_lease m + length (en_waiters e) \<le> u64_max" "length (en_waiters e) \<le> u32_max"
  defines "g \<equiv> Generation (next_generation m k)"
  obtains m' where
    "complete_load \<lparr>lc_load_id = l, lc_result = LoadSuccess\<rparr> m =
       (Inr (Published g (granted (rm_next_lease m) k g (en_waiters e))), m')"
    "rm_entries m' = hm_modify k (\<lambda>e'. e'\<lparr>en_state := Resident g, en_waiters := [],
       en_leases := length (en_waiters e), en_last_touch := Suc (rm_clock m)\<rparr>) (rm_entries m)"
    "rm_loads m' = hm_remove l (rm_loads m)" "rm_clock m' = Suc (rm_clock m)"
    "rm_next_load m' = rm_next_load m" "rm_next_lease m' = rm_next_lease m + length (en_waiters e)"
    "next_generation m' = (next_generation m)(k := Suc (next_generation m k))"
    "hm_ok (rm_pools m')" "hm_ok (rm_leases m')"
    "\<And>i. hm_get (rm_leases m') i = (if rm_next_lease m \<le> lease_no i \<and>
         lease_no i < rm_next_lease m + length (en_waiters e)
         then Some (k, g, en_waiters e ! (lease_no i - rm_next_lease m)) else hm_get (rm_leases m) i)"
    "\<And>x. lease_count x (rm_leases m') =
       lease_count x (rm_leases m) + (if x = k then length (en_waiters e) else 0)"
    "\<And>p. hm_get (rm_pools m') p = (if p = ek_pool k then Some (st\<lparr>
         reserved_loading_bytes := reserved_loading_bytes st - en_bytes e,
         resident_bytes := wrapping_add_usize (resident_bytes st) (en_bytes e),
         pinned_bytes := tally (pinned_in p) (rm_entries m')\<rparr>) else hm_get (rm_pools m) p)"
proof -
  have loading: "en_state e = Loading l"
    using inv_load [OF inv load] get by (simp add: load_ok_def)
  define m3 where "m3 = with_stats (ek_pool k) (\<lambda>st. st\<lparr>reserved_loading_bytes :=
        saturating_sub (reserved_loading_bytes st) (en_bytes e)\<rparr>)
      (m\<lparr>rm_loads := hm_remove l (rm_loads m),
         rm_entries := hm_modify k (\<lambda>e. e\<lparr>en_waiters := []\<rparr>) (rm_entries m)\<rparr>)"
  define m4 where "m4 = m3\<lparr>rm_next_generation := hm_insert k (Suc (next_generation m k)) (rm_next_generation m),
      rm_clock := Suc (rm_clock m), rm_entries := hm_modify k
        (\<lambda>e. e\<lparr>en_state := Resident g, en_last_touch := Suc (rm_clock m)\<rparr>) (rm_entries m3)\<rparr>"
  have "fresh_leases m4" "hm_ok (rm_leases m4)" "rm_next_lease m4 + length (en_waiters e) \<le> u64_max"
    using inv_fresh_leases [OF inv] inv_ok [OF inv] room
    by (simp_all add: m4_def m3_def fresh_leases_def with_stats_def)
  from lease_waiters_spec [OF this, of k g] obtain ls where ls:
    "lease_waiters k g (en_waiters e) m4 = (granted (rm_next_lease m4) k g (en_waiters e),
        m4\<lparr>rm_next_lease := rm_next_lease m4 + length (en_waiters e), rm_leases := ls\<rparr>)" "hm_ok ls"
    "\<forall>i. hm_get ls i = (if rm_next_lease m4 \<le> lease_no i \<and> lease_no i < rm_next_lease m4 + length (en_waiters e)
         then Some (k, g, en_waiters e ! (lease_no i - rm_next_lease m4)) else hm_get (rm_leases m4) i)"
    "\<forall>x. lease_count x ls = lease_count x (rm_leases m4) + (if x = k then length (en_waiters e) else 0)"
    by blast
  have len: "length (granted n k g ss) = length ss" for n ss by (simp add: granted_def)
  define m5 where "m5 = m4\<lparr>rm_next_lease := rm_next_lease m + length (en_waiters e), rm_leases := ls,
      rm_entries := hm_modify k (\<lambda>e'. e'\<lparr>en_leases := length (en_waiters e)\<rparr>) (rm_entries m4)\<rparr>"
  define m' where "m' = refresh_pinned (ek_pool k) (with_stats (ek_pool k)
      (\<lambda>st. st\<lparr>resident_bytes := wrapping_add_usize (resident_bytes st) (en_bytes e)\<rparr>) m5)"
  have gen: "alloc_generation k m3 = (g, m3\<lparr>rm_next_generation :=
      hm_insert k (Suc (next_generation m k)) (rm_next_generation m)\<rparr>)"
    using room by (simp add: alloc_generation_def Let_def m3_def with_stats_def next_generation_def
        saturating_add_u64_below g_def)
  have tck: "tick (m3\<lparr>rm_next_generation := x\<rparr>) = (Suc (rm_clock m),
      m3\<lparr>rm_next_generation := x, rm_clock := Suc (rm_clock m)\<rparr>)" for x
    using room by (simp add: tick_def Let_def m3_def saturating_add_u64_below)
  have wakes: "lease_waiters k g (en_waiters e) m4 = (granted (rm_next_lease m) k g (en_waiters e),
      m4\<lparr>rm_next_lease := rm_next_lease m + length (en_waiters e), rm_leases := ls\<rparr>)"
    using ls(1) by (simp add: m4_def m3_def)
  have known: "hm_get (rm_pools m4) (ek_pool k) \<noteq> None"
    using st by (simp add: m4_def m3_def)
  have "publish_load k (en_bytes e) (en_waiters e) m3 =
     (Inr (Published g (granted (rm_next_lease m) k g (en_waiters e))), m')"
    using known room wakes
    by (simp add: publish_load_def gen tck m4_def [symmetric] wakes len m5_def [symmetric] m'_def Let_def)
  then have run: "complete_load \<lparr>lc_load_id = l, lc_result = LoadSuccess\<rparr> m =
       (Inr (Published g (granted (rm_next_lease m) k g (en_waiters e))), m')"
    using load get loading st by (simp add: complete_load_def Let_def m3_def)
  have entries: "rm_entries m' = hm_modify k (\<lambda>e'. e'\<lparr>en_state := Resident g, en_waiters := [],
       en_leases := length (en_waiters e), en_last_touch := Suc (rm_clock m)\<rparr>) (rm_entries m)"
    by (simp add: m'_def m5_def m4_def m3_def hm_modify_modify) (rule hm_modify_cong, simp)
  show thesis
    by (rule that [OF run entries])
      (use ls st inv_ok [OF inv] entries in \<open>simp_all add: m'_def m5_def m4_def m3_def refresh_after
        next_generation_def fun_eq_iff hm_simps saturating_sub_def\<close>)
qed

lemma inv_complete_success:
  assumes inv: "res_inv m" and load: "hm_get (rm_loads m) l = Some k" and get: "hm_get (rm_entries m) k = Some e"
    and room: "rm_clock m < u64_max" "next_generation m k < u64_max"
      "rm_next_lease m + length (en_waiters e) \<le> u64_max" "length (en_waiters e) \<le> u32_max"
  shows "res_inv (snd (complete_load \<lparr>lc_load_id = l, lc_result = LoadSuccess\<rparr> m))"
proof -
  obtain st where st: "hm_get (rm_pools m) (ek_pool k) = Some st" and at: "at_pool m k st e" "own_ids m k e"
    by (rule inv_at [OF inv get])
  define g where "g = Generation (next_generation m k)"
  obtain m' where run: "snd (complete_load \<lparr>lc_load_id = l, lc_result = LoadSuccess\<rparr> m) = m'"
    and m': "rm_entries m' = hm_modify k (\<lambda>e'. e'\<lparr>en_state := Resident g, en_waiters := [],
       en_leases := length (en_waiters e), en_last_touch := Suc (rm_clock m)\<rparr>) (rm_entries m)"
    "rm_loads m' = hm_remove l (rm_loads m)" "rm_clock m' = Suc (rm_clock m)"
    "rm_next_load m' = rm_next_load m" "rm_next_lease m' = rm_next_lease m + length (en_waiters e)"
    "next_generation m' = (next_generation m)(k := Suc (next_generation m k))"
    "hm_ok (rm_pools m')" "hm_ok (rm_leases m')"
    and leases: "\<And>i. hm_get (rm_leases m') i = (if rm_next_lease m \<le> lease_no i \<and>
         lease_no i < rm_next_lease m + length (en_waiters e)
         then Some (k, g, en_waiters e ! (lease_no i - rm_next_lease m)) else hm_get (rm_leases m) i)"
    and counts: "\<And>x. lease_count x (rm_leases m') =
       lease_count x (rm_leases m) + (if x = k then length (en_waiters e) else 0)"
    and pools: "\<And>p. hm_get (rm_pools m') p = (if p = ek_pool k then Some (st\<lparr>
         reserved_loading_bytes := reserved_loading_bytes st - en_bytes e,
         resident_bytes := wrapping_add_usize (resident_bytes st) (en_bytes e),
         pinned_bytes := tally (pinned_in p) (rm_entries m')\<rparr>) else hm_get (rm_pools m) p)"
    unfolding g_def by (rule complete_success [OF inv load get st room]) (metis snd_conv)
  let ?e = "e\<lparr>en_state := Resident g, en_waiters := [], en_leases := length (en_waiters e),
    en_last_touch := Suc (rm_clock m)\<rparr>"
  have loading: "en_state e = Loading l" using inv_load [OF inv load] get by (simp add: load_ok_def)
  have unleased: "lease_count k (rm_leases m) = 0"
    using inv_entry [OF inv get] loading by (simp add: entry_ok_def)
  note none = no_lease_on [OF inv unleased]
  have sums: "tally f (rm_entries m') = tally f (hm_remove k (rm_entries m)) + f (k, ?e)" for f
    using inv_ok [OF inv] get by (simp add: m' tally_modify)
  have wrap: "wrapping_add_usize (resident_bytes st) (en_bytes e) = resident_bytes st + en_bytes e"
    using at loading by (intro wrapping_add_usize_fits) (simp add: at_pool_def entry_kind)
  have old: "lease_no i < rm_next_lease m" if "hm_get (rm_leases m) i = Some v" for i v
    using inv_fresh_leases [OF inv] that unfolding fresh_leases_def by blast
  have "res_inv m'"
  proof (rule res_frame [OF inv, of _ k ?e])
    show "tally f (rm_entries m') = tally f (hm_remove k (rm_entries m)) + f (k, ?e)" for f
      by (rule sums)
    show "\<exists>st. hm_get (rm_pools m') (ek_pool k) = Some st \<and> pool_ok m' (ek_pool k) st"
      using at(1) loading wrap by (auto simp: pools pool_ok_def sums bytes_at at_pool_def entry_kind)
    show "load_ok m' x k" if "hm_get (rm_loads m') x = Some k" for x
      using that at(2) loading by (auto simp: m' hm_simps own_ids_def split: if_splits)
    show "hm_get (rm_leases m') i = Some (x, y, s) \<longleftrightarrow> hm_get (rm_leases m) i = Some (x, y, s)"
      if "x \<noteq> k" for i x y s
      using that old [of i] by (auto simp: leases)
    show "lease_ok m' i k y" if "hm_get (rm_leases m') i = Some (k, y, s)" for i y s
      using that none [of i] by (auto simp: leases lease_ok_def m' hm_simps get split: if_splits)
    show "entry_ok m' k ?e"
      by (simp add: entry_ok_def pools counts unleased m' g_def)
    show "hm_get (rm_loads m') x = Some y \<longleftrightarrow> hm_get (rm_loads m) x = Some y" if "y \<noteq> k" for x y
      using that load by (auto simp: m' hm_simps)
  qed (use inv_ok [OF inv] m' get pools counts in \<open>auto simp: hm_simps maps_ok_def\<close>)
  then show ?thesis by (simp add: run)
qed

lemma complete_failure:
  assumes inv: "res_inv m" and load: "hm_get (rm_loads m) l = Some k" and get: "hm_get (rm_entries m) k = Some e"
    and failed: "r \<noteq> LoadSuccess"
  defines "msg \<equiv> (case r of LoadError x \<Rightarrow> x | LoadPartial x \<Rightarrow> x | _ \<Rightarrow> ''load cancelled'')"
  shows "complete_load \<lparr>lc_load_id = l, lc_result = r\<rparr> m =
    (Inr (WakesFailed (map (\<lambda>s. \<lparr>lw_session = s, lw_result = Inl msg\<rparr>) (en_waiters e))),
     with_stats (ek_pool k) (\<lambda>st. st\<lparr>reserved_loading_bytes := reserved_loading_bytes st - en_bytes e,
         failures := wrapping_add_u64 (failures st) 1\<rparr>)
       (m\<lparr>rm_loads := hm_remove l (rm_loads m), rm_entries :=
          hm_modify k (\<lambda>e. e\<lparr>en_waiters := [], en_state := LoadFailed msg\<rparr>) (rm_entries m)\<rparr>))"
proof -
  obtain st where st: "hm_get (rm_pools m) (ek_pool k) = Some st" by (rule inv_pool_known [OF inv get])
  have loading: "en_state e = Loading l" using inv_load [OF inv load] get by (simp add: load_ok_def)
  show ?thesis
    using st loading load get failed
    by (cases r) (simp_all add: complete_load_def fail_load_def Let_def msg_def with_stats_def hm_simps
        hm_modify_modify saturating_sub_def)
qed

lemma inv_complete_failure:
  assumes inv: "res_inv m" and load: "hm_get (rm_loads m) l = Some k" and get: "hm_get (rm_entries m) k = Some e"
    and failed: "r \<noteq> LoadSuccess"
  shows "res_inv (snd (complete_load \<lparr>lc_load_id = l, lc_result = r\<rparr> m))" (is "res_inv ?m")
proof -
  obtain st where st: "hm_get (rm_pools m) (ek_pool k) = Some st" and at: "at_pool m k st e" "own_ids m k e"
    by (rule inv_at [OF inv get])
  have loading: "en_state e = Loading l" using inv_load [OF inv load] get by (simp add: load_ok_def)
  obtain msg where m': "?m = with_stats (ek_pool k) (\<lambda>st. st\<lparr>
       reserved_loading_bytes := reserved_loading_bytes st - en_bytes e,
       failures := wrapping_add_u64 (failures st) 1\<rparr>)
       (m\<lparr>rm_loads := hm_remove l (rm_loads m), rm_entries :=
          hm_modify k (\<lambda>e. e\<lparr>en_waiters := [], en_state := LoadFailed msg\<rparr>) (rm_entries m)\<rparr>)"
    using complete_failure [OF inv load get failed] by auto
  let ?e = "e\<lparr>en_waiters := [], en_state := LoadFailed msg\<rparr>"
  have unleased: "lease_count k (rm_leases m) = 0" "en_leases e = 0" "en_last_touch e \<le> rm_clock m"
    using inv_entry [OF inv get] loading by (simp_all add: entry_ok_def)
  have sums: "tally f (rm_entries ?m) = tally f (hm_remove k (rm_entries m)) + f (k, ?e)" for f
    using inv_ok [OF inv] get by (simp add: m' tally_modify)
  show ?thesis
  proof (rule res_frame [OF inv, of _ k ?e])
    show "tally f (rm_entries ?m) = tally f (hm_remove k (rm_entries m)) + f (k, ?e)" for f
      by (rule sums)
    show "\<exists>st. hm_get (rm_pools ?m) (ek_pool k) = Some st \<and> pool_ok ?m (ek_pool k) st"
      using at(1) loading st sums by (simp add: m' pool_ok_def bytes_at at_pool_def entry_kind)
    show "load_ok ?m x k" if "hm_get (rm_loads ?m) x = Some k" for x
      using that at(2) loading by (auto simp: m' hm_simps own_ids_def split: if_splits)
    show "lease_ok ?m i k y" if "hm_get (rm_leases ?m) i = Some (k, y, s)" for i y s
      using that no_lease_on [OF inv unleased(1)] by (auto simp: m')
    show "hm_get (rm_loads ?m) x = Some y \<longleftrightarrow> hm_get (rm_loads m) x = Some y" if "y \<noteq> k" for x y
      using that load by (auto simp: m' hm_simps)
  qed (use inv_ok [OF inv] get unleased st in
      \<open>auto simp: m' hm_simps maps_ok_def entry_ok_def next_generation_def\<close>)
qed

lemma complete_unknown:
  "hm_get (rm_loads m) (lc_load_id c) = None \<Longrightarrow> complete_load c m = (Inr StaleLoad, m)"
  by (simp add: complete_load_def)

lemma inv_complete_load:
  assumes inv: "res_inv m"
    and room: "rm_clock m < u64_max" "\<And>k. next_generation m k < u64_max"
      "\<And>k e. hm_get (rm_entries m) k = Some e \<Longrightarrow>
         rm_next_lease m + length (en_waiters e) \<le> u64_max \<and> length (en_waiters e) \<le> u32_max"
  shows "res_inv (snd (complete_load c m))"
proof (cases "hm_get (rm_loads m) (lc_load_id c)")
  case None
  then show ?thesis using inv by (simp add: complete_unknown)
next
  case (Some k)
  from inv_load [OF inv Some] obtain e where get: "hm_get (rm_entries m) k = Some e"
    by (auto simp: load_ok_def)
  have c: "c = \<lparr>lc_load_id = lc_load_id c, lc_result = lc_result c\<rparr>" by simp
  show ?thesis
  proof (cases "lc_result c = LoadSuccess")
    case True
    with inv_complete_success [OF inv Some get] room get c show ?thesis by metis
  next
    case False
    with inv_complete_failure [OF inv Some get] c show ?thesis by metis
  qed
qed

section \<open>Leases\<close>

lemma residency_state_Resident:
  "residency_state_of m k = Resident g \<longleftrightarrow>
     (\<exists>e. hm_get (rm_entries m) k = Some e \<and> en_state e = Resident g)"
  by (auto simp: residency_state_of_def split: option.split)

lemma acquire_resident:
  assumes get: "hm_get (rm_entries m) k = Some e" and res: "en_state e = Resident g"
    and room: "rm_clock m < u64_max" "rm_next_lease m < u64_max" "en_leases e < u32_max"
  shows "acquire k s m =
    (Inr \<lparr>le_id = LeaseId (rm_next_lease m), le_key = k, le_generation = g, le_owner = s\<rparr>,
     refresh_pinned (ek_pool k) (m\<lparr>rm_next_lease := Suc (rm_next_lease m),
       rm_leases := hm_insert (LeaseId (rm_next_lease m)) (k, g, s) (rm_leases m),
       rm_clock := Suc (rm_clock m),
       rm_entries := hm_modify k (\<lambda>e'. e'\<lparr>en_leases := Suc (en_leases e),
         en_last_touch := Suc (rm_clock m)\<rparr>) (rm_entries m)\<rparr>))"
proof -
  have "hm_modify k (\<lambda>e. e\<lparr>en_leases := wrapping_add_u32 (en_leases e) 1, en_last_touch := x\<rparr>) (rm_entries m) =
    hm_modify k (\<lambda>e'. e'\<lparr>en_leases := Suc (en_leases e), en_last_touch := x\<rparr>) (rm_entries m)" for x
    using get room by (intro hm_modify_cong) (simp add: wrapping_add_u32_below)
  then show ?thesis
    using get res room
    by (simp add: acquire_def residency_state_of_def new_lease_def tick_def Let_def saturating_add_u64_below)
qed

lemma inv_acquire:
  assumes inv: "res_inv m"
    and room: "rm_clock m < u64_max" "rm_next_lease m < u64_max"
      "\<And>k e. hm_get (rm_entries m) k = Some e \<Longrightarrow> en_leases e < u32_max"
  shows "res_inv (snd (acquire k s m))"
proof (cases "\<exists>g. residency_state_of m k = Resident g")
  case False
  then show ?thesis using inv by (auto simp: acquire_def split: residency_state.split)
next
  case True
  then obtain g e where get: "hm_get (rm_entries m) k = Some e" and res: "en_state e = Resident g"
    by (auto simp: residency_state_Resident)
  let ?m = "snd (acquire k s m)"
  let ?i = "LeaseId (rm_next_lease m)"
  let ?e = "e\<lparr>en_leases := Suc (en_leases e), en_last_touch := Suc (rm_clock m)\<rparr>"
  obtain st where st: "hm_get (rm_pools m) (ek_pool k) = Some st" and at: "at_pool m k st e" "own_ids m k e"
    by (rule inv_at [OF inv get])
  note m' = acquire_resident [OF get res room(1,2) room(3) [OF get], of s] refresh_pinned_eq
  have fresh: "hm_get (rm_leases m) ?i = None"
    using inv_fresh_leases [OF inv] unfolding fresh_leases_def
    by (metis lease_id.sel less_irrefl option.exhaust)
  have count: "lease_count x (rm_leases ?m) = lease_count x (rm_leases m) + (if x = k then 1 else 0)" for x
    using inv_ok [OF inv] fresh by (simp add: m' tally_insert hm_remove_absent lease_on_def)
  have sums: "tally f (rm_entries ?m) = tally f (hm_remove k (rm_entries m)) + f (k, ?e)" for f
    using inv_ok [OF inv] get by (simp add: m' tally_modify)
  show ?thesis
  proof (rule res_frame [OF inv, of _ k ?e])
    show "tally f (rm_entries ?m) = tally f (hm_remove k (rm_entries m)) + f (k, ?e)" for f
      by (rule sums)
    show "\<exists>st. hm_get (rm_pools ?m) (ek_pool k) = Some st \<and> pool_ok ?m (ek_pool k) st"
      using at(1) res st sums by (simp add: m' pool_ok_def bytes_at at_pool_def entry_kind)
    show "load_ok ?m x k" if "hm_get (rm_loads ?m) x = Some k" for x
      using that at(2) res by (auto simp: m' own_ids_def)
    show "lease_ok ?m i k y" if "hm_get (rm_leases ?m) i = Some (k, y, t)" for i y t
      using that at(2) get res
      by (fastforce simp: m' lease_ok_def own_ids_def hm_simps split: if_splits)
    show "entry_ok ?m k ?e"
      using inv_entry [OF inv get] res st count [of k]
      by (simp add: entry_ok_def m' next_generation_def)
    show "lease_count x (rm_leases ?m) = lease_count x (rm_leases m)" if "x \<noteq> k" for x
      using that count by simp
  qed (use inv_ok [OF inv] get fresh in \<open>auto simp: m' hm_simps maps_ok_def next_generation_def\<close>)
qed

lemma inv_release:
  assumes inv: "res_inv m"
  shows "res_inv (snd (release l m))"
proof (cases "\<exists>k g s e. hm_get (rm_leases m) (le_id l) = Some (k, g, s) \<and> k = le_key l \<and> g = le_generation l
    \<and> hm_get (rm_entries m) k = Some e \<and> en_state e = Resident g")
  case False
  then show ?thesis using inv by (auto simp: release_def split: option.split)
next
  case True
  define k where "k = le_key l"
  define g where "g = le_generation l"
  from True obtain s e where lease: "hm_get (rm_leases m) (le_id l) = Some (k, g, s)"
    and get: "hm_get (rm_entries m) k = Some e" and res: "en_state e = Resident g"
    unfolding k_def g_def by blast
  let ?m = "snd (release l m)"
  let ?e = "e\<lparr>en_leases := en_leases e - 1\<rparr>"
  obtain st where st: "hm_get (rm_pools m) (ek_pool k) = Some st" and at: "at_pool m k st e" "own_ids m k e"
    by (rule inv_at [OF inv get])
  have m': "?m = with_stats (ek_pool k) (\<lambda>st. st\<lparr>pinned_bytes := tally (pinned_in (ek_pool k)) (rm_entries ?m)\<rparr>)
     (m\<lparr>rm_entries := hm_modify k (\<lambda>e. e\<lparr>en_leases := saturating_sub (en_leases e) 1\<rparr>) (rm_entries m),
        rm_leases := hm_remove (le_id l) (rm_leases m)\<rparr>)"
    using lease get res by (simp add: release_def k_def g_def refresh_pinned_eq)
  have fields: "rm_entries ?m = hm_modify k (\<lambda>e. e\<lparr>en_leases := saturating_sub (en_leases e) 1\<rparr>) (rm_entries m)"
    "rm_leases ?m = hm_remove (le_id l) (rm_leases m)" "rm_loads ?m = rm_loads m" "rm_clock ?m = rm_clock m"
    "rm_next_load ?m = rm_next_load m" "rm_next_lease ?m = rm_next_lease m"
    "next_generation ?m = next_generation m" "hm_ok (rm_pools ?m)"
    "\<And>p. hm_get (rm_pools ?m) p = (if p = ek_pool k then Some (st\<lparr>pinned_bytes :=
       tally (pinned_in (ek_pool k)) (rm_entries ?m)\<rparr>) else hm_get (rm_pools m) p)"
    using inv_ok [OF inv] st by (subst m', simp add: next_generation_def fun_eq_iff)+
  have count: "lease_count x (rm_leases m) = lease_count x (rm_leases ?m) + (if x = k then 1 else 0)" for x
    using tally_remove [OF inv_ok(4) [OF inv] lease, of "lease_on x"] by (simp add: fields lease_on_def)
  have sums: "tally f (rm_entries ?m) = tally f (hm_remove k (rm_entries m)) + f (k, ?e)" for f
    using inv_ok [OF inv] get by (simp add: fields tally_modify saturating_sub_def)
  show ?thesis
  proof (rule res_frame [OF inv, of _ k ?e])
    show "tally f (rm_entries ?m) = tally f (hm_remove k (rm_entries m)) + f (k, ?e)" for f
      by (rule sums)
    show "\<exists>st. hm_get (rm_pools ?m) (ek_pool k) = Some st \<and> pool_ok ?m (ek_pool k) st"
      using at(1) res by (simp add: fields(9) pool_ok_def sums bytes_at at_pool_def entry_kind)
    show "load_ok ?m x k" if "hm_get (rm_loads ?m) x = Some k" for x
      using that at(2) res by (auto simp: fields(3) own_ids_def)
    show "lease_ok ?m i k y" if "hm_get (rm_leases ?m) i = Some (k, y, t)" for i y t
      using that at(2) get res
      by (fastforce simp: fields lease_ok_def own_ids_def hm_simps split: if_splits)
    show "entry_ok ?m k ?e"
      using inv_entry [OF inv get] res count [of k]
      by (simp add: entry_ok_def fields(3-9))
    show "lease_count x (rm_leases ?m) = lease_count x (rm_leases m)" if "x \<noteq> k" for x
      using that count by simp
    show "hm_get (rm_leases ?m) i = Some (x, y, t) \<longleftrightarrow> hm_get (rm_leases m) i = Some (x, y, t)"
      if "x \<noteq> k" for i x y t
      using that lease by (auto simp: fields hm_simps)
  qed (use inv_ok [OF inv] get in \<open>auto simp: fields hm_simps maps_ok_def saturating_sub_def\<close>)
qed

lemma inv_record_transfer: "res_inv m \<Longrightarrow> res_inv (snd (record_transfer p b w m))"
  by (auto simp: record_transfer_def intro!: inv_stats_only)

lemma assert_of_res_inv:
  assumes inv: "res_inv m"
  shows "assert_residency m"
proof -
  have "pool_ok m p st" if "(p, st) \<in> set (rm_pools m)" for p st
    using inv_pool [OF inv] that inv_ok [OF inv] by (simp add: hm_in_set_get)
  moreover have "lease_ok m i k g" if "(i, k, g, s) \<in> set (rm_leases m)" for i k g s
    using inv_lease [OF inv] that inv_ok [OF inv] by (metis hm_in_set_get)
  ultimately show ?thesis
    unfolding assert_residency_def list_all_iff tally_filter
    by (fastforce simp: pool_ok_def lease_ok_def resident_in_def)
qed

end
