(* ===== verification/Residency_Sim.thy ===== *)
theory Residency_Sim
  imports Residency_Inv Trace_Replay
begin

text \<open>
  The deterministic driver of the residency manager
  (\<^verbatim>\<open>logan-core/src/sched/residency_sim.rs\<close>) and the bounds that hold along its
  runs: every operation uses at most one tick, one load id, one generation of a
  key, and adds at most one waiter or lease.
\<close>

datatype residency_op =
    AddPool memory_pool_id nat
  | AddDevice device_id "memory_pool_id list"
  | BeginLoad expert_key nat session_id
  | CancelWaiter load_id session_id
  | CompleteLoad load_completion
  | Acquire expert_key session_id
  | Release lease
  | Evict memory_pool_id

datatype residency_outcome =
    Configured "residency_error + unit"
  | Load "residency_error + load_disposition"
  | WaiterCancelled bool
  | Completion "residency_error + completion_disposition"
  | LeaseOutcome "residency_error + lease"
  | Released "residency_error + unit"
  | Evicted "residency_error + expert_key option"

type_synonym residency_event = "(residency_op, residency_outcome) trace_event"

record residency_simulator =
  rs_manager :: residency_manager
  rs_trace :: "residency_event list"
  rs_next_seq :: nat

definition new_residency_simulator :: residency_simulator where
  "new_residency_simulator = \<lparr>rs_manager = new_manager, rs_trace = [], rs_next_seq = 0\<rparr>"

fun execute_residency ::
  "residency_manager \<Rightarrow> residency_op \<Rightarrow> residency_outcome \<times> residency_manager" where
  "execute_residency m (AddPool p b) = map_prod Configured id (add_pool p b m)"
| "execute_residency m (AddDevice d ps) = map_prod Configured id (add_device d ps m)"
| "execute_residency m (BeginLoad k b w) = map_prod Load id (begin_load k b w m)"
| "execute_residency m (CancelWaiter l s) = map_prod WaiterCancelled id (cancel_waiter l s m)"
| "execute_residency m (CompleteLoad c) = map_prod Completion id (complete_load c m)"
| "execute_residency m (Acquire k s) = map_prod LeaseOutcome id (acquire k s m)"
| "execute_residency m (Release l) = map_prod Released id (release l m)"
| "execute_residency m (Evict p) = map_prod Evicted id (evict p m)"

definition apply_residency ::
  "residency_simulator \<Rightarrow> residency_op \<Rightarrow> residency_outcome \<times> residency_simulator" where
  "apply_residency sim op =
     (let (out, m) = execute_residency (rs_manager sim) op in
      (out, \<lparr>rs_manager = m,
             rs_trace = rs_trace sim @ [\<lparr>ev_seq = rs_next_seq sim, ev_op = op, ev_outcome = out\<rparr>],
             rs_next_seq = wrapping_add_u64 (rs_next_seq sim) 1\<rparr>))"

fun replay_residency_from ::
  "residency_simulator \<Rightarrow> residency_event list \<Rightarrow> (residency_op, residency_outcome) replay_error + unit"
where
  "replay_residency_from sim [] = Inr ()"
| "replay_residency_from sim (e # es) =
     (let (out, sim') = apply_residency sim (ev_op e); actual = last (rs_trace sim') in
      if actual \<noteq> e
      then Inl \<lparr>re_seq = ev_seq e, re_expected = e, re_actual = actual\<rparr>
      else replay_residency_from sim' es)"

definition replay_residency ::
  "residency_event list \<Rightarrow> (residency_op, residency_outcome) replay_error + unit" where
  "replay_residency es = replay_residency_from new_residency_simulator es"

text \<open>The manager after a script.\<close>

abbreviation res_step :: "residency_manager \<Rightarrow> residency_op \<Rightarrow> residency_manager" where
  "res_step m op \<equiv> snd (execute_residency m op)"

definition run_residency :: "residency_manager \<Rightarrow> residency_op list \<Rightarrow> residency_manager" where
  "run_residency m ops = foldl res_step m ops"

interpretation rsim: trace_simulator new_residency_simulator apply_residency rs_trace replay_residency_from
  by unfold_locales
    (auto simp: new_residency_simulator_def apply_residency_def Let_def split: prod.split)

section \<open>Growth\<close>

definition waiting :: "residency_manager \<Rightarrow> nat" where
  "waiting m = tally (\<lambda>(k, e). length (en_waiters e)) (rm_entries m)"

definition grows :: "residency_manager \<Rightarrow> residency_manager \<Rightarrow> bool" where
  "grows m m' \<longleftrightarrow>
     rm_clock m' \<le> Suc (rm_clock m) \<and> rm_next_load m' \<le> Suc (rm_next_load m)
   \<and> (\<forall>k. next_generation m' k \<le> Suc (next_generation m k))
   \<and> rm_next_lease m' + waiting m' \<le> Suc (rm_next_lease m + waiting m)"

lemma grows_refl [simp]: "grows m m"
  by (simp add: grows_def)

lemma grows_with_stats [simp]: "grows m (with_stats p f m') = grows m m'"
  by (simp add: grows_def waiting_def)

lemma grows_refresh [simp]: "grows m (refresh_pinned p m') = grows m m'"
  by (simp add: refresh_pinned_eq)

lemma saturating_step: "saturating_add_u64 n (Suc 0) \<le> Suc n"
  by (simp add: saturating_add_u64_def)

lemma waiting_split:
  "hm_ok (rm_entries m) \<Longrightarrow> hm_get (rm_entries m) k = Some e \<Longrightarrow>
     waiting m = tally (\<lambda>(k, e). length (en_waiters e)) (hm_remove k (rm_entries m)) + length (en_waiters e)"
  by (simp add: waiting_def tally_remove)

lemma waiters_le_waiting:
  "hm_get (rm_entries m) k = Some e \<Longrightarrow> length (en_waiters e) \<le> waiting m"
  using tally_member_le [OF hm_get_in_set, of "rm_entries m" k e "\<lambda>(k, e). length (en_waiters e)"]
  by (simp add: waiting_def)

lemma evicted_some_waiting:
  assumes inv: "res_inv m" and inv': "res_inv m'" and gone: "evicted_some m m'"
  shows "waiting m' \<le> waiting m"
  unfolding waiting_def
  using inv_ok [OF inv] inv_ok [OF inv'] evicted_some_entry [OF gone] by (rule_tac tally_submap) auto

lemma grows_evicted:
  "res_inv m \<Longrightarrow> res_inv m' \<Longrightarrow> evicted_some m m' \<Longrightarrow> grows m m'"
  using evicted_some_waiting [of m m']
  by (simp add: grows_def evicted_some_sel next_generation_def le_SucI)

lemma grows_touch: "hm_ok (rm_entries m) \<Longrightarrow> hm_get (rm_entries m) k = Some e \<Longrightarrow> grows m (touch k m)"
  by (simp add: grows_def touch_def tick_def Let_def saturating_step next_generation_def waiting_def
      tally_modify tally_remove)

lemma grows_start_load:
  assumes "hm_ok (rm_entries m)"
  shows "grows m (snd (start_load k b w m))"
proof -
  have "tally (\<lambda>(k, e). length (en_waiters e)) (hm_remove k (rm_entries m)) \<le> waiting m"
    by (simp add: waiting_def tally_remove_le)
  then show ?thesis
    using assms by (simp add: start_load_def alloc_load_def tick_def Let_def grows_def waiting_def
        saturating_step next_generation_def tally_insert)
qed

lemma grows_begin_load:
  assumes inv: "res_inv m"
  shows "grows m (snd (begin_load k b w m))"
proof -
  have fresh: "grows m (snd (case ensure_space (ek_pool k) b m of
      (Inl e, m') \<Rightarrow> (Inl e, m') | (Inr _, m') \<Rightarrow> start_load k b w m'))"
  proof (cases "ensure_space (ek_pool k) b m")
    case (Pair r m')
    note room = ensure_space_spec(1,2) [OF inv Pair]
    have "grows m' (snd (start_load k b w m'))" by (rule grows_start_load [OF inv_ok(2) [OF room(1)]])
    then have "grows m (snd (start_load k b w m'))"
      using evicted_some_sel [OF room(2)] evicted_some_waiting [OF inv room]
      by (simp add: grows_def next_generation_def)
    with Pair grows_evicted [OF inv room] show ?thesis by (cases r) auto
  qed
  have join: "grows m (m\<lparr>rm_entries := hm_modify k (\<lambda>e. if w \<in> set (en_waiters e) then e
      else e\<lparr>en_waiters := en_waiters e @ [w]\<rparr>) (rm_entries m)\<rparr>)"
    if "hm_get (rm_entries m) k = Some e" for e
    using that inv_ok [OF inv]
    by (simp add: grows_def waiting_def tally_modify tally_remove next_generation_def)
  show ?thesis
    using fresh join grows_touch [OF inv_ok(2) [OF inv], of k]
    by (auto simp: begin_load_def Let_def split: option.split residency_state.split)
qed

lemma grows_cancel_waiter:
  assumes inv: "res_inv m"
  shows "grows m (snd (cancel_waiter l s m))"
proof -
  have "grows m (m\<lparr>rm_entries := hm_modify k (\<lambda>e'. e'\<lparr>en_waiters :=
      filter (\<lambda>c. c \<noteq> s) (en_waiters e)\<rparr>) (rm_entries m)\<rparr>)"
    if "hm_get (rm_entries m) k = Some e" for k e
    using that inv_ok [OF inv]
    by (simp add: grows_def waiting_def tally_modify tally_remove next_generation_def le_SucI)
  then show ?thesis by (auto simp: cancel_waiter_def Let_def split: option.split)
qed

text \<open>The room that \<open>n\<close> more operations need.\<close>

definition res_room :: "residency_manager \<Rightarrow> nat \<Rightarrow> bool" where
  "res_room m n \<longleftrightarrow>
     res_inv m \<and> rm_clock m + n \<le> u32_max \<and> rm_next_load m + n \<le> u32_max
   \<and> (\<forall>k. next_generation m k + n \<le> u32_max) \<and> rm_next_lease m + waiting m + n \<le> u32_max"

lemma room_inv: "res_room m n \<Longrightarrow> res_inv m"
  by (simp add: res_room_def)

lemma u32_u64: "u32_max < u64_max"
  by (simp add: u32_max_def u64_max_def)

lemma room_bounds:
  assumes "res_room m (Suc n)"
  shows "rm_clock m < u64_max" "rm_next_load m < u64_max" "next_generation m k < u64_max"
    "rm_next_lease m < u64_max"
    "hm_get (rm_entries m) k = Some e \<Longrightarrow>
       rm_next_lease m + length (en_waiters e) \<le> u64_max \<and> length (en_waiters e) \<le> u32_max"
proof -
  have m: "rm_clock m + Suc n \<le> u32_max" "rm_next_load m + Suc n \<le> u32_max"
    "next_generation m k + Suc n \<le> u32_max" "rm_next_lease m + waiting m + Suc n \<le> u32_max"
    using assms unfolding res_room_def by blast+
  show "rm_clock m < u64_max" "rm_next_load m < u64_max" "next_generation m k < u64_max"
    "rm_next_lease m < u64_max" using m u32_u64 by linarith+
  assume "hm_get (rm_entries m) k = Some e"
  from waiters_le_waiting [OF this] m u32_u64
  show "rm_next_lease m + length (en_waiters e) \<le> u64_max \<and> length (en_waiters e) \<le> u32_max"
    by linarith
qed

lemma lease_count_le: "lease_count k ls \<le> length ls"
proof (induction ls)
  case (Cons p ls)
  then show ?case by (cases p) (simp add: lease_on_def)
qed simp

lemma leases_bounded:
  assumes inv: "res_inv m" and get: "hm_get (rm_entries m) k = Some e"
  shows "en_leases e \<le> rm_next_lease m"
proof -
  have "fst ` set (rm_leases m) \<subseteq> LeaseId ` {..<rm_next_lease m}"
  proof
    fix i assume "i \<in> fst ` set (rm_leases m)"
    then have "lease_no i < rm_next_lease m"
      using inv_fresh_leases [OF inv] inv_ok(4) [OF inv] by (force simp: fresh_leases_def hm_in_set_get)
    then show "i \<in> LeaseId ` {..<rm_next_lease m}" by (metis imageI lease_id.collapse lessThan_iff)
  qed
  then have "card (fst ` set (rm_leases m)) \<le> card (LeaseId ` {..<rm_next_lease m})"
    by (intro card_mono) auto
  also have "\<dots> \<le> rm_next_lease m" using card_image_le [of "{..<rm_next_lease m}" LeaseId] by simp
  finally have "length (rm_leases m) \<le> rm_next_lease m"
    using distinct_card [OF inv_ok(4) [OF inv]] by simp
  with lease_count_le [of k "rm_leases m"] inv_entry [OF inv get] show ?thesis
    by (simp add: entry_ok_def)
qed

lemma grows_complete_load:
  assumes room: "res_room m (Suc n)"
  shows "grows m (snd (complete_load c m))"
proof (cases "hm_get (rm_loads m) (lc_load_id c)")
  case None
  then show ?thesis by (simp add: complete_unknown)
next
  case (Some k)
  note inv = room_inv [OF room]
  from inv_load [OF inv Some] obtain e where get: "hm_get (rm_entries m) k = Some e"
    by (auto simp: load_ok_def)
  obtain st where st: "hm_get (rm_pools m) (ek_pool k) = Some st" by (rule inv_pool_known [OF inv get])
  have c: "c = \<lparr>lc_load_id = lc_load_id c, lc_result = lc_result c\<rparr>" by simp
  show ?thesis
  proof (cases "lc_result c = LoadSuccess")
    case True
    have "grows m (snd (complete_load \<lparr>lc_load_id = lc_load_id c, lc_result = LoadSuccess\<rparr> m))"
      by (rule complete_success [OF inv Some get st])
        (use room_bounds [OF room] get inv_ok [OF inv] in
         \<open>auto simp: grows_def waiting_def tally_modify tally_remove\<close>)
    with True c show ?thesis by metis
  next
    case False
    have "grows m (snd (complete_load \<lparr>lc_load_id = lc_load_id c, lc_result = lc_result c\<rparr> m))"
      using inv_ok [OF inv] get unfolding complete_failure [OF inv Some get False]
      by (simp add: grows_def waiting_def tally_modify tally_remove next_generation_def)
    with c show ?thesis by metis
  qed
qed

text \<open>
  The byte budget of a pool has to stay below the largest \<^verbatim>\<open>usize\<close>: at that
  value the saturating comparison in \<^verbatim>\<open>ensure_space\<close> accepts every request.
\<close>

fun op_ok :: "residency_op \<Rightarrow> bool" where
  "op_ok (AddPool p b) \<longleftrightarrow> b < usize_max"
| "op_ok _ \<longleftrightarrow> True"

lemma grows_configure:
  "grows m (snd (add_pool p b m))" "grows m (snd (add_device d ps m))"
  by (auto simp: add_pool_def add_device_def grows_def next_generation_def waiting_def split: option.split)

lemma grows_execute:
  assumes room: "res_room m (Suc n)"
  shows "grows m (res_step m op)"
proof (cases op)
  case (Acquire k s)
  have "grows m (snd (acquire k s m))"
    using inv_ok [OF room_inv [OF room]]
    by (auto simp: acquire_def residency_state_of_def new_lease_def tick_def Let_def grows_def saturating_step
        next_generation_def waiting_def tally_modify tally_remove
        split: residency_state.split option.splits)
  with Acquire show ?thesis by simp
next
  case (Release l)
  have "grows m (snd (release l m))"
    using inv_ok [OF room_inv [OF room]]
    by (auto simp: release_def grows_def next_generation_def waiting_def tally_modify tally_remove
        split: option.split)
  with Release show ?thesis by simp
next
  case (Evict p)
  with grows_evicted [OF _ inv_evict evict_shape] room_inv [OF room] show ?thesis by simp
qed (simp_all add: room_inv [OF room] grows_complete_load [OF room] grows_begin_load grows_cancel_waiter
    grows_configure)

lemma inv_execute_residency:
  assumes room: "res_room m (Suc n)" and ok: "op_ok op"
  shows "res_inv (res_step m op)"
proof -
  note inv = room_inv [OF room]
  have "en_leases e < u32_max" if "hm_get (rm_entries m) k = Some e" for k e
    using leases_bounded [OF inv that] room by (simp add: res_room_def)
  then show ?thesis
    using ok inv room_bounds [OF room]
    by (cases op) (simp_all add: inv_add_pool inv_add_device inv_begin_load inv_cancel_waiter
        inv_complete_load inv_acquire inv_release inv_evict)
qed

lemma room_execute:
  assumes room: "res_room m (Suc n)" and ok: "op_ok op"
  shows "res_room (res_step m op) n"
proof -
  have "next_generation (res_step m op) k + n \<le> u32_max" for k
    using grows_execute [OF room, of op] room unfolding grows_def res_room_def
    by (metis add_Suc_shift add_le_mono1 order_trans)
  then show ?thesis
    using grows_execute [OF room, of op] inv_execute_residency [OF room ok] room
    by (auto simp: grows_def res_room_def)
qed

interpretation rm: bounded_machine res_step op_ok res_room
  by unfold_locales (auto simp: room_execute, auto simp: res_room_def Suc_leD)

lemma room_new: "n \<le> u32_max \<Longrightarrow> res_room new_manager n"
  by (simp add: res_room_def res_inv_new) (simp add: new_manager_def next_generation_def waiting_def)

lemma room_run_new:
  "length ops + n \<le> u32_max \<Longrightarrow> list_all op_ok ops \<Longrightarrow> res_room (run_residency new_manager ops) n"
  unfolding run_residency_def by (rule rm.room_run) (simp_all add: room_new)

lemma rs_manager_fold:
  "rs_manager (fold (\<lambda>op sim. snd (apply_residency sim op)) ops sim) = run_residency (rs_manager sim) ops"
  by (induction ops arbitrary: sim)
    (simp_all add: run_residency_def apply_residency_def Let_def split: prod.split)

lemma run_residency_append: "run_residency m (xs @ ys) = run_residency (run_residency m xs) ys"
  by (simp add: run_residency_def)

end
