(* ===== verification/Residency_Props.thy ===== *)
theory Residency_Props
  imports Residency_Sim
begin

text \<open>
  Properties of the residency manager over whole scripts: hard budgets, leases
  that pin, victims chosen by age alone, coalesced loads, and identifiers that
  are never reused.
\<close>

section \<open>What one operation does to loads, leases and generations\<close>

lemma start_load_sel [simp]:
  "rm_leases (snd (start_load k b w m)) = rm_leases m"
  "rm_next_lease (snd (start_load k b w m)) = rm_next_lease m"
  "rm_next_generation (snd (start_load k b w m)) = rm_next_generation m"
  by (auto simp: start_load_def alloc_load_def tick_def Let_def)

lemma begin_load_sel:
  assumes inv: "res_inv m"
  shows "rm_leases (snd (begin_load k b w m)) = rm_leases m"
    and "rm_next_lease (snd (begin_load k b w m)) = rm_next_lease m"
    and "rm_next_generation (snd (begin_load k b w m)) = rm_next_generation m"
proof -
  obtain r m' where sp: "ensure_space (ek_pool k) b m = (r, m')" by force
  note sel = evicted_some_sel [OF ensure_space_spec(2) [OF inv sp]]
  show "rm_leases (snd (begin_load k b w m)) = rm_leases m"
    and "rm_next_lease (snd (begin_load k b w m)) = rm_next_lease m"
    and "rm_next_generation (snd (begin_load k b w m)) = rm_next_generation m"
    by (auto simp: begin_load_def sp sel touch_def tick_def Let_def
        split: option.split residency_state.split sum.split)
qed

lemma evict_sel:
  assumes inv: "res_inv m"
  shows "rm_leases (snd (evict p m)) = rm_leases m" "rm_next_lease (snd (evict p m)) = rm_next_lease m"
    "rm_next_generation (snd (evict p m)) = rm_next_generation m"
  using evicted_some_sel [OF evict_shape [OF inv, of p]] by simp_all

lemma cancel_waiter_sel [simp]:
  "rm_leases (snd (cancel_waiter l s m)) = rm_leases m"
  "rm_next_lease (snd (cancel_waiter l s m)) = rm_next_lease m"
  "rm_next_generation (snd (cancel_waiter l s m)) = rm_next_generation m"
  by (auto simp: cancel_waiter_def Let_def split: option.split)

lemma configure_sel [simp]:
  "rm_leases (snd (add_pool p b m)) = rm_leases m"
  "rm_next_lease (snd (add_pool p b m)) = rm_next_lease m"
  "rm_next_generation (snd (add_pool p b m)) = rm_next_generation m"
  "rm_leases (snd (add_device d ps m)) = rm_leases m"
  "rm_next_lease (snd (add_device d ps m)) = rm_next_lease m"
  "rm_next_generation (snd (add_device d ps m)) = rm_next_generation m"
  by (auto simp: add_pool_def add_device_def split: option.split)

text \<open>The three ways a completion ends.\<close>

lemma completion_cases:
  assumes room: "res_room m (Suc n)"
  obtains (stale) "hm_get (rm_loads m) (lc_load_id c) = None" "complete_load c m = (Inr StaleLoad, m)"
  | (success) k e g m' where "hm_get (rm_loads m) (lc_load_id c) = Some k" "hm_get (rm_entries m) k = Some e"
      "g = Generation (next_generation m k)"
      "complete_load c m = (Inr (Published g (granted (rm_next_lease m) k g (en_waiters e))), m')"
      "rm_next_lease m' = rm_next_lease m + length (en_waiters e)"
      "next_generation m' = (next_generation m)(k := Suc (next_generation m k))"
      "\<And>i. hm_get (rm_leases m') i = (if rm_next_lease m \<le> lease_no i \<and>
         lease_no i < rm_next_lease m + length (en_waiters e)
         then Some (k, g, en_waiters e ! (lease_no i - rm_next_lease m)) else hm_get (rm_leases m) i)"
  | (failure) k e ws m' where "hm_get (rm_loads m) (lc_load_id c) = Some k" "hm_get (rm_entries m) k = Some e"
      "complete_load c m = (Inr (WakesFailed ws), m')" "rm_leases m' = rm_leases m"
      "rm_next_lease m' = rm_next_lease m" "rm_next_generation m' = rm_next_generation m"
proof (cases c)
  case c: (fields l r)
  note inv = room_inv [OF room]
  show thesis
  proof (cases "hm_get (rm_loads m) l")
    case None
    with stale c show thesis by (simp add: complete_unknown)
  next
    case (Some k)
    from inv_load [OF inv Some] obtain e where get: "hm_get (rm_entries m) k = Some e"
      by (auto simp: load_ok_def)
    obtain st where st: "hm_get (rm_pools m) (ek_pool k) = Some st" by (rule inv_pool_known [OF inv get])
    show thesis
    proof (cases "r = LoadSuccess")
      case True
      show thesis
        by (rule complete_success [OF inv Some get st])
          (use room_bounds [OF room] get Some success c True in auto)
    next
      case False
      with failure Some get complete_failure [OF inv Some get False] c show thesis by auto
    qed
  qed
qed

lemma complete_leases:
  assumes room: "res_room m (Suc n)"
  shows "rm_next_lease m \<le> rm_next_lease (snd (complete_load c m))"
    and "lease_no i < rm_next_lease m \<Longrightarrow>
      hm_get (rm_leases (snd (complete_load c m))) i = hm_get (rm_leases m) i"
    and "next_generation m k \<le> next_generation (snd (complete_load c m)) k"
  by (rule completion_cases [OF room, of c]; simp add: next_generation_def)+

lemma complete_generation:
  assumes room: "res_room m (Suc n)" and load: "hm_get (rm_loads m) (lc_load_id c) = Some k"
    and published: "fst (complete_load c m) = Inr (Published g ws)"
  shows "generation_no g = next_generation m k"
    and "next_generation (snd (complete_load c m)) k = Suc (next_generation m k)"
proof -
  show "generation_no g = next_generation m k"
    using load published by (cases rule: completion_cases [OF room, of c]) auto
  show "next_generation (snd (complete_load c m)) k = Suc (next_generation m k)"
    using load published by (cases rule: completion_cases [OF room, of c]) auto
qed

lemma acquire_sel:
  assumes room: "res_room m (Suc n)"
  shows "rm_next_lease m \<le> rm_next_lease (snd (acquire k s m))"
    and "lease_no i < rm_next_lease m \<Longrightarrow>
      hm_get (rm_leases (snd (acquire k s m))) i = hm_get (rm_leases m) i"
    and "rm_next_generation (snd (acquire k s m)) = rm_next_generation m"
  using room_bounds(4) [OF room]
  by (auto simp: acquire_def new_lease_def tick_def Let_def saturating_add_u64_below hm_simps
      split: residency_state.split)

lemma acquire_id: "fst (acquire k s m) = Inr l \<Longrightarrow> lease_no (le_id l) = rm_next_lease m"
  by (auto simp: acquire_def new_lease_def tick_def Let_def split: residency_state.splits)

lemma release_sel:
  "rm_next_lease (snd (release l m)) = rm_next_lease m"
  "rm_next_generation (snd (release l m)) = rm_next_generation m"
  "hm_get (rm_leases (snd (release l m))) i =
     (if i = le_id l \<and> fst (release l m) = Inr () then None else hm_get (rm_leases m) i)"
  by (auto simp: release_def hm_simps split: option.split)

lemmas lease_step_simps = begin_load_sel evict_sel complete_leases acquire_sel release_sel room_inv

lemma step_next_lease:
  "res_room m (Suc n) \<Longrightarrow> rm_next_lease m \<le> rm_next_lease (res_step m op)"
  by (cases op) (simp_all add: lease_step_simps)

lemma step_generation:
  "res_room m (Suc n) \<Longrightarrow> next_generation m k \<le> next_generation (res_step m op) k"
  by (cases op) (simp_all add: lease_step_simps, simp_all add: lease_step_simps next_generation_def)

lemma step_lease:
  assumes room: "res_room m (Suc n)" and old: "lease_no i < rm_next_lease m"
  shows "hm_get (rm_leases (res_step m op)) i =
    (if \<exists>l. op = Release l \<and> le_id l = i \<and> fst (release l m) = Inr () then None
     else hm_get (rm_leases m) i)"
  using room old by (cases op) (auto simp: lease_step_simps)

lemma lease_issued:
  "res_inv m \<Longrightarrow> hm_get (rm_leases m) i = Some v \<Longrightarrow> lease_no i < rm_next_lease m"
  using inv_fresh_leases unfolding fresh_leases_def by blast

section \<open>Runs\<close>

definition spares :: "lease_id \<Rightarrow> residency_op \<Rightarrow> bool" where
  "spares i op \<longleftrightarrow> (case op of Release l \<Rightarrow> le_id l \<noteq> i | _ \<Rightarrow> True)"

lemma lease_survives:
  assumes room: "res_room m (length ops)" and ok: "list_all op_ok ops" and unreleased: "list_all (spares i) ops"
    and lease: "hm_get (rm_leases m) i = Some v"
  shows "hm_get (rm_leases (run_residency m ops)) i = Some v"
  unfolding run_residency_def
proof (rule rm.stable_run [OF room ok unreleased])
  fix m n op
  assume "res_room m (Suc n)" "spares i op" "hm_get (rm_leases m) i = Some v"
  then show "hm_get (rm_leases (res_step m op)) i = Some v"
    using lease_issued [OF room_inv] by (simp add: step_lease) (auto simp: spares_def)
qed (rule lease)

definition spent :: "lease_id \<Rightarrow> residency_manager \<Rightarrow> bool" where
  "spent i m \<longleftrightarrow> lease_no i < rm_next_lease m \<and> hm_get (rm_leases m) i = None"

lemma spent_run:
  assumes "res_room m (length ops)" "list_all op_ok ops" "spent i m"
  shows "spent i (run_residency m ops)"
  unfolding run_residency_def
proof (rule rm.stable_run [where Q = "\<lambda>_. True", OF assms(1,2)])
  fix m n op
  assume "res_room m (Suc n)" "spent i m"
  then show "spent i (res_step m op)"
    using step_next_lease [of m n op] by (simp add: spent_def step_lease)
qed (use assms in \<open>simp_all add: list_all_iff\<close>)

lemma generation_run:
  assumes "res_room m (length ops)" "list_all op_ok ops" "x \<le> next_generation m k"
  shows "x \<le> next_generation (run_residency m ops) k"
  unfolding run_residency_def
  by (rule rm.stable_run [where Q = "\<lambda>_. True", OF assms(1,2)])
    (use assms in \<open>auto simp: list_all_iff intro: order_trans step_generation\<close>)

lemma run_Cons: "run_residency m (op # ops) = run_residency (res_step m op) ops"
  by (simp add: run_residency_def)

lemmas res_eval = run_residency_def new_manager_def add_pool_def empty_stats_def add_device_def
  begin_load_def ensure_space_def ensure_loop.simps start_load_def alloc_load_def tick_def
  complete_load_def publish_load_def fail_load_def alloc_generation_def new_lease_def with_stats_def
  refresh_pinned_def is_resident_def evict_def evictable_in_def acquire_def release_def touch_def
  cancel_waiter_def residency_state_of_def pool_stats_of_def rust_int Let_def

section \<open>Budgets\<close>

lemma tally_mono: "(\<And>p. p \<in> set m \<Longrightarrow> f p \<le> g p) \<Longrightarrow> tally f m \<le> tally g m"
proof (induction m)
  case (Cons p m)
  then show ?case by (simp add: add_mono)
qed simp

lemma pinned_le_resident: "tally (pinned_in p) es \<le> tally (resident_in p) es"
  by (rule tally_mono) (auto simp: pinned_in_def resident_in_def)

text \<open>
  C6: After any script of at most \<open>u32_max\<close> operations on a fresh residency
  manager, the consistency checker accepts the state, every pool keeps
  resident plus reserved bytes within its hard budget, its resident, reserved
  and pinned counters are exactly the bytes of its resident, loading and leased
  entries, and pinned bytes never exceed resident bytes.
\<close>

theorem residency_run_invariant:
  assumes "length ops \<le> u32_max" and "list_all op_ok ops"
    and m: "m = run_residency new_manager ops"
  shows "assert_residency m \<and> (\<forall>p st. pool_stats_of m p = Inr st \<longrightarrow>
      resident_bytes st + reserved_loading_bytes st \<le> budget_bytes st \<and>
      resident_bytes st = tally (resident_in p) (rm_entries m) \<and>
      reserved_loading_bytes st = tally (loading_in p) (rm_entries m) \<and>
      pinned_bytes st = tally (pinned_in p) (rm_entries m) \<and>
      pinned_bytes st \<le> resident_bytes st)"
proof (intro conjI allI impI)
  have inv: "res_inv m"
    using room_run_new [of ops 0] assms by (simp add: res_room_def)
  show "assert_residency m" by (rule assert_of_res_inv [OF inv])
  fix p st
  assume "pool_stats_of m p = Inr st"
  then have "pool_ok m p st"
    by (auto simp: pool_stats_of_def split: option.splits intro: inv_pool [OF inv])
  then show "resident_bytes st + reserved_loading_bytes st \<le> budget_bytes st"
    "resident_bytes st = tally (resident_in p) (rm_entries m)"
    "reserved_loading_bytes st = tally (loading_in p) (rm_entries m)"
    "pinned_bytes st = tally (pinned_in p) (rm_entries m)" "pinned_bytes st \<le> resident_bytes st"
    by (simp_all add: pool_ok_def pinned_le_resident)
qed

definition demo_key :: "nat \<Rightarrow> expert_key" where
  "demo_key n = \<lparr>ek_model = 1, ek_package = 2, ek_layer = 3, ek_expert = n,
     ek_representation = \<lparr>rep_layout = 0, rep_kernel_abi = 7, rep_quant = 8\<rparr>, ek_pool = MemoryPoolId 0\<rparr>"

definition demo_script :: "residency_op list" where
  "demo_script = [AddPool (MemoryPoolId 0) 100, BeginLoad (demo_key 1) 60 (SessionId 1),
     BeginLoad (demo_key 1) 60 (SessionId 2),
     CompleteLoad \<lparr>lc_load_id = LoadId 0, lc_result = LoadSuccess\<rparr>]"

definition demo_lease :: lease where
  "demo_lease = \<lparr>le_id = LeaseId 0, le_key = demo_key 1, le_generation = Generation 0, le_owner = SessionId 1\<rparr>"

lemmas demo_defs = demo_key_def demo_script_def demo_lease_def

theorem residency_run_invariant_witness:
  "assert_residency (run_residency new_manager demo_script) \<and>
   (\<exists>st. pool_stats_of (run_residency new_manager demo_script) (MemoryPoolId 0) = Inr st \<and>
      resident_bytes st = 60 \<and> pinned_bytes st \<le> resident_bytes st)"
proof -
  have ok: "length demo_script \<le> u32_max" "list_all op_ok demo_script"
    by (simp_all add: demo_defs rust_int)
  have "\<exists>st. pool_stats_of (run_residency new_manager demo_script) (MemoryPoolId 0) = Inr st \<and>
      resident_bytes st = 60"
    by (simp add: demo_defs res_eval)
  then show ?thesis using residency_run_invariant [OF ok refl] by blast
qed

section \<open>Leases pin\<close>

text \<open>
  C7: As long as a lease has not been released, its entry stays resident in
  the very generation the lease was granted for, whatever other operations run:
  no eviction, load, failure or release of another lease takes it away, and an
  eviction never picks its key.
\<close>

theorem lease_pins_entry:
  assumes "length ops + length rest < u32_max" and "list_all op_ok (ops @ rest)"
    and "hm_get (rm_leases (run_residency new_manager ops)) i = Some (k, g, s)"
    and "list_all (spares i) rest"
  shows "residency_state_of (run_residency new_manager (ops @ rest)) k = Resident g \<and>
    (\<forall>p. fst (evict p (run_residency new_manager (ops @ rest))) \<noteq> Inr (Some k))"
proof -
  let ?m = "run_residency new_manager ops" and ?m' = "run_residency new_manager (ops @ rest)"
  have "res_room ?m (length rest)" using room_run_new [of ops "length rest"] assms by simp
  from lease_survives [OF this _ assms(4,3)] assms(2)
  have lease: "hm_get (rm_leases ?m') i = Some (k, g, s)" by (simp add: run_residency_append)
  have inv: "res_inv ?m'" using room_run_new [of "ops @ rest" 0] assms by (simp add: res_room_def)
  obtain e where e: "hm_get (rm_entries ?m') k = Some e" "en_state e = Resident g"
    using inv_lease [OF inv lease] by (auto simp: lease_ok_def)
  have "en_leases e \<noteq> 0"
    using no_lease_on [OF inv, of k i g s] lease inv_entry [OF inv e(1)] by (auto simp: entry_ok_def)
  then have "fst (evict p ?m') \<noteq> Inr (Some k)" for p
    using e(1) by (cases rule: evict_cases [OF inv, of p]) auto
  with e show ?thesis by (simp add: residency_state_of_def)
qed

theorem lease_pins_entry_witness:
  "residency_state_of (run_residency new_manager (demo_script @ [Evict (MemoryPoolId 0)])) (demo_key 1) =
     Resident (Generation 0)"
proof -
  have "hm_get (rm_leases (run_residency new_manager demo_script)) (LeaseId 0) =
      Some (demo_key 1, Generation 0, SessionId 1)"
    by (simp add: demo_defs res_eval)
  with lease_pins_entry [of demo_script "[Evict (MemoryPoolId 0)]" "LeaseId 0" "demo_key 1" "Generation 0"
      "SessionId 1"]
  show ?thesis by (simp add: spares_def demo_script_def rust_int)
qed

text \<open>
  A lease is released at most once.  A successful release retires its
  identifier: after it, whatever runs, releasing that identifier again is
  refused with \<open>UnknownLease\<close> and changes nothing, and no later lease is
  granted under the same identifier.
\<close>

lemma lease_released_once:
  assumes "length ops + length rest < u32_max" and "list_all op_ok (ops @ rest)"
    and released: "fst (release l (run_residency new_manager ops)) = Inr ()"
    and m: "m = run_residency new_manager (ops @ Release l # rest)"
    and same: "le_id l' = le_id l"
  shows "release l' m = (Inl (UnknownLease (le_id l)), m) \<and> fst (acquire k s m) \<noteq> Inr l'"
proof -
  let ?m = "run_residency new_manager ops"
  have room: "res_room ?m (Suc (length rest))" using room_run_new [of ops "Suc (length rest)"] assms by simp
  have "\<exists>v. hm_get (rm_leases ?m) (le_id l) = Some v"
    using released by (cases "hm_get (rm_leases ?m) (le_id l)") (auto simp: release_def)
  then have issued: "lease_no (le_id l) < rm_next_lease ?m"
    using lease_issued [OF room_inv [OF room]] by blast
  have "spent (le_id l) (res_step ?m (Release l))"
    using issued released by (simp add: spent_def release_sel)
  moreover have "res_room (res_step ?m (Release l)) (length rest)"
    by (rule room_execute [OF room]) simp
  ultimately have "spent (le_id l) m"
    using assms(2) by (simp add: m run_residency_append run_Cons spent_run)
  then show ?thesis
    using same acquire_id [of k s m l'] by (auto simp: spent_def release_def)
qed

section \<open>Eviction\<close>

lemma min_by_key_unique:
  assumes "\<And>y. y \<in> set xs \<Longrightarrow> y \<noteq> x \<Longrightarrow> f x < f y" and "x \<in> set xs"
  shows "min_by_key f xs = Some x"
proof -
  from assms(2) have "min_by_key f xs \<noteq> None" by (auto simp: min_by_key_None)
  then obtain y where y: "min_by_key f xs = Some y" by blast
  from min_by_key_le [OF y assms(2)] assms(1) min_by_key_in [OF y] have "y = x" by force
  with y show ?thesis by simp
qed

lemma evictable_mem:
  "hm_ok m \<Longrightarrow> (x, q) \<in> set (filter (evictable_in p) m) \<longleftrightarrow> hm_get m x = Some q \<and> evictable_in p (x, q)"
  unfolding set_filter mem_Collect_eq by (metis hm_in_set_get hm_get_in_set)

lemma evict_iff:
  assumes ok: "hm_ok (rm_entries m)" and differ: "touches_differ m" and known: "hm_get (rm_pools m) p \<noteq> None"
  shows "fst (evict p m) = Inr (Some k) \<longleftrightarrow>
    (\<exists>e. hm_get (rm_entries m) k = Some e \<and> evictable_in p (k, e) \<and>
      (\<forall>k' e'. hm_get (rm_entries m) k' = Some e' \<longrightarrow> evictable_in p (k', e') \<longrightarrow> k' \<noteq> k \<longrightarrow>
         en_last_touch e < en_last_touch e'))"
    (is "_ \<longleftrightarrow> (\<exists>e. ?least e)")
proof -
  let ?c = "filter (evictable_in p) (rm_entries m)" and ?f = "\<lambda>(k, e). en_last_touch e"
  note mem = evictable_mem [OF ok, of _ _ p]
  have fst: "fst (evict p m) = Inr (Some k) \<longleftrightarrow> (\<exists>e. min_by_key ?f ?c = Some (k, e))"
    using known by (auto simp: evict_def split: option.split)
  show ?thesis
  proof
    assume "fst (evict p m) = Inr (Some k)"
    then obtain e where e: "min_by_key ?f ?c = Some (k, e)" using fst by blast
    have in_c: "(k, e) \<in> set ?c" by (rule min_by_key_in [OF e])
    have "en_last_touch e < en_last_touch e'"
      if "hm_get (rm_entries m) k' = Some e'" "evictable_in p (k', e')" "k' \<noteq> k" for k' e'
    proof -
      have "en_last_touch e \<le> en_last_touch e'"
        using min_by_key_le [OF e, of "(k', e')"] mem that by auto
      moreover have "en_last_touch e \<noteq> en_last_touch e'"
        using differ in_c mem that unfolding touches_differ_def by metis
      ultimately show ?thesis by simp
    qed
    with in_c mem show "\<exists>e. ?least e" by blast
  next
    assume "\<exists>e. ?least e"
    then obtain e where e: "?least e" ..
    have "?f (k, e) < ?f y" if y: "y \<in> set ?c" "y \<noteq> (k, e)" for y
    proof -
      obtain k' e' where "y = (k', e')" by force
      with y e mem [of k' e'] show ?thesis by (cases "k' = k") auto
    qed
    then have "min_by_key ?f ?c = Some (k, e)"
      using e mem by (intro min_by_key_unique) auto
    with fst show "fst (evict p m) = Inr (Some k)" by blast
  qed
qed

lemma evict_None_iff:
  assumes "hm_ok (rm_entries m)" "hm_get (rm_pools m) p \<noteq> None"
  shows "fst (evict p m) = Inr None \<longleftrightarrow>
    (\<forall>k e. hm_get (rm_entries m) k = Some e \<longrightarrow> \<not> evictable_in p (k, e))"
proof -
  have "fst (evict p m) = Inr None \<longleftrightarrow> filter (evictable_in p) (rm_entries m) = []"
    using assms(2) by (auto simp: evict_def min_by_key_None split: option.split)
  also have "\<dots> \<longleftrightarrow> (\<forall>k e. (k, e) \<notin> set (filter (evictable_in p) (rm_entries m)))"
    by (simp only: set_empty [symmetric]) auto
  finally show ?thesis unfolding evictable_mem [OF assms(1)] by blast
qed

lemma map_of_permuted:
  assumes "mset es = mset es'" "hm_ok es"
  shows "hm_get es = hm_get es'"
proof -
  have "hm_ok es'" by (metis assms mset_eq_imp_distinct_iff mset_map)
  moreover have "set es = set es'" using assms(1) by (rule mset_eq_setD)
  ultimately show ?thesis using assms(2) by (simp add: map_of_inject_set)
qed

lemma inv_run_residency:
  "length ops \<le> u32_max \<Longrightarrow> list_all op_ok ops \<Longrightarrow> res_inv (run_residency new_manager ops)"
  using room_run_new [of ops 0] by (simp add: res_room_def)

text \<open>
  C8: Eviction is least recently used and does not depend on the iteration
  order of the hash map: the victim is exactly the unleased resident entry of
  the pool that was touched strictly before every other one, there is no victim
  exactly when the pool has no unleased resident entry, and any reordering of
  the map gives the same answer.
\<close>

theorem evict_is_lru:
  assumes "length ops \<le> u32_max" and "list_all op_ok ops" and m: "m = run_residency new_manager ops"
    and known: "hm_get (rm_pools m) p \<noteq> None" and reorder: "mset es = mset (rm_entries m)"
  shows "(fst (evict p m) = Inr (Some k) \<longleftrightarrow>
      (\<exists>e. hm_get (rm_entries m) k = Some e \<and> evictable_in p (k, e) \<and>
        (\<forall>k' e'. hm_get (rm_entries m) k' = Some e' \<longrightarrow> evictable_in p (k', e') \<longrightarrow> k' \<noteq> k \<longrightarrow>
           en_last_touch e < en_last_touch e')))
    \<and> (fst (evict p m) = Inr None \<longleftrightarrow>
      (\<forall>k e. hm_get (rm_entries m) k = Some e \<longrightarrow> \<not> evictable_in p (k, e)))
    \<and> fst (evict p (m\<lparr>rm_entries := es\<rparr>)) = fst (evict p m)"
proof -
  have inv: "res_inv m" unfolding m by (rule inv_run_residency [OF assms(1,2)])
  note ok = inv_ok(2) [OF inv] and differ = inv_touches [OF inv]
  let ?m = "m\<lparr>rm_entries := es\<rparr>"
  have get: "hm_get es = hm_get (rm_entries m)"
    using map_of_permuted [OF reorder [symmetric] ok] by simp
  have "hm_ok es" by (metis ok reorder mset_eq_imp_distinct_iff mset_map)
  then have ok': "hm_ok (rm_entries ?m)" "touches_differ ?m" "hm_get (rm_pools ?m) p \<noteq> None"
    using differ known get by (simp_all add: touches_differ_def)
  have same: "fst (evict p ?m) = Inr (Some x) \<longleftrightarrow> fst (evict p m) = Inr (Some x)" for x
    unfolding evict_iff [OF ok differ known] evict_iff [OF ok'] using get by simp
  have none: "fst (evict p ?m) = Inr None \<longleftrightarrow> fst (evict p m) = Inr None"
    unfolding evict_None_iff [OF ok known] evict_None_iff [OF ok'(1,3)] using get by simp
  have answer: "\<exists>r. fst (evict p x) = Inr r" if "hm_get (rm_pools x) p \<noteq> None" for x
    using that by (auto simp: evict_def split: option.split)
  have "fst (evict p ?m) = fst (evict p m)"
  proof -
    obtain r r' where "fst (evict p m) = Inr r" "fst (evict p ?m) = Inr r'"
      using answer [OF known] answer [OF ok'(3)] by blast
    with same none show ?thesis by (cases r; cases r') auto
  qed
  with evict_iff [OF ok differ known] evict_None_iff [OF ok known] show ?thesis by blast
qed

theorem evict_is_lru_witness:
  "fst (evict (MemoryPoolId 0) (run_residency new_manager (demo_script @
      [Release demo_lease, Release (demo_lease\<lparr>le_id := LeaseId 1\<rparr>)]))) = Inr (Some (demo_key 1)) \<and>
   fst (evict (MemoryPoolId 0) (run_residency new_manager demo_script)) = Inr None"
proof -
  let ?ops = "demo_script @ [Release demo_lease, Release (demo_lease\<lparr>le_id := LeaseId 1\<rparr>)]"
  let ?p = "MemoryPoolId 0"
  have known: "hm_get (rm_pools (run_residency new_manager ?ops)) ?p \<noteq> None"
    "hm_get (rm_pools (run_residency new_manager demo_script)) ?p \<noteq> None"
    by (simp_all add: demo_defs res_eval)
  have ok: "length ?ops \<le> u32_max" "list_all op_ok ?ops" "length demo_script \<le> u32_max" "list_all op_ok demo_script"
    by (simp_all add: demo_defs rust_int)
  have "rm_entries (run_residency new_manager ?ops) = [(demo_key 1, \<lparr>en_state = Resident (Generation 0),
      en_bytes = 60, en_waiters = [], en_leases = 0, en_last_touch = 2\<rparr>)]"
    by (simp add: demo_defs res_eval)
  then have "fst (evict ?p (run_residency new_manager ?ops)) = Inr (Some (demo_key 1))"
    using evict_is_lru [OF ok(1,2) refl known(1) refl, of "demo_key 1"]
    by (simp add: evictable_in_def is_resident_def) (simp add: demo_key_def)
  moreover have "rm_entries (run_residency new_manager demo_script) = [(demo_key 1, \<lparr>en_state = Resident (Generation 0),
      en_bytes = 60, en_waiters = [], en_leases = 2, en_last_touch = 2\<rparr>)]"
    by (simp add: demo_defs res_eval)
  then have "fst (evict ?p (run_residency new_manager demo_script)) = Inr None"
    using evict_is_lru [OF ok(3,4) refl known(2) refl] by (simp add: evictable_in_def)
  ultimately show ?thesis by blast
qed

section \<open>Loads\<close>

lemma loading_not_resident: "is_loading e \<Longrightarrow> \<not> is_resident e"
  by (simp add: entry_kind split: residency_state.splits)

lemma evicted_some_keeps:
  "evicted_some m m' \<Longrightarrow> hm_get (rm_entries m) x = Some e \<Longrightarrow> 0 < en_leases e \<or> is_loading e \<Longrightarrow>
     hm_get (rm_entries m') x = Some e"
  unfolding evicted_some_def
  by (metis less_numeral_extra(3) loading_not_resident option.inject)

lemma begin_fresh:
  assumes inv: "res_inv m" and idle: "residency_state_of m k = Absent \<or> residency_state_of m k = LoadFailed x"
    and run: "begin_load k b w m = (r, m')"
  obtains (refused) err where "r = Inl err" "evicted_some m m'"
    | (started) m1 st where "evicted_some m m1" "hm_get (rm_pools m1) (ek_pool k) = Some st"
        "start_load k b w m1 = (r, m')"
proof -
  obtain r1 m1 where sp: "ensure_space (ek_pool k) b m = (r1, m1)" by force
  have "begin_load k b w m = (case r1 of Inl e \<Rightarrow> (Inl e, m1) | Inr _ \<Rightarrow> start_load k b w m1)"
    using idle by (auto simp: begin_load_def sp residency_state_of_def Let_def split: option.splits sum.split)
  with run have "(case r1 of Inl e \<Rightarrow> (Inl e, m1) | Inr _ \<Rightarrow> start_load k b w m1) = (r, m')" by simp
  moreover note ensure_space_spec(2,3) [OF inv sp]
  ultimately show thesis using started refused by (cases r1) auto
qed

lemma start_load_effect:
  assumes "hm_get (rm_pools m) (ek_pool k) = Some st" "start_load k b w m = (r, m')"
  shows "r = Inr (Started (LoadId (rm_next_load m)))"
    and "hm_get (rm_loads m') (LoadId (rm_next_load m)) = Some k"
    and "\<exists>e. hm_get (rm_entries m') k = Some e \<and> en_state e = Loading (LoadId (rm_next_load m)) \<and>
      en_bytes e = b \<and> en_waiters e = [w]"
    and "x \<noteq> k \<Longrightarrow> hm_get (rm_entries m') x = hm_get (rm_entries m) x" and "rm_leases m' = rm_leases m"
  using assms by (auto simp: start_load_def alloc_load_def tick_def Let_def hm_simps)

lemma reserved_covers:
  assumes inv: "res_inv m" and get: "hm_get (rm_entries m) k = Some e" and loading: "en_state e = Loading l"
  obtains st where "hm_get (rm_pools m) (ek_pool k) = Some st" "en_bytes e \<le> reserved_loading_bytes st"
    "used_bytes st \<le> budget_bytes st"
proof -
  obtain st where "hm_get (rm_pools m) (ek_pool k) = Some st" "at_pool m k st e"
    by (rule inv_at [OF inv get])
  with that loading show thesis by (auto simp: at_pool_def used_bytes_def entry_kind)
qed

text \<open>The outcome on a key that is neither resident nor loading.\<close>

lemma begin_fresh_outcome:
  assumes inv: "res_inv m" and inv': "res_inv m'"
    and idle: "residency_state_of m k = Absent \<or> residency_state_of m k = LoadFailed x"
    and run: "begin_load k b w m = (r, m')"
  shows "((\<exists>x. r = Inl x) \<or> r = Inr (Started (LoadId (rm_next_load m))) \<and>
         hm_get (rm_loads m) (LoadId (rm_next_load m)) = None \<and>
         hm_get (rm_loads m') (LoadId (rm_next_load m)) = Some k \<and>
         (\<exists>e st. hm_get (rm_entries m') k = Some e \<and> en_state e = Loading (LoadId (rm_next_load m)) \<and>
            en_bytes e = b \<and> en_waiters e = [w] \<and> hm_get (rm_pools m') (ek_pool k) = Some st \<and>
            b \<le> reserved_loading_bytes st \<and> used_bytes st \<le> budget_bytes st))
    \<and> (\<forall>x e. x \<noteq> k \<longrightarrow> hm_get (rm_entries m) x = Some e \<longrightarrow> (0 < en_leases e \<or> is_loading e) \<longrightarrow>
         hm_get (rm_entries m') x = Some e)"
proof (cases rule: begin_fresh [OF inv idle run])
  case (1 err)
  then show ?thesis by (auto intro: evicted_some_keeps)
next
  case (2 m1 st)
  let ?l = "LoadId (rm_next_load m)"
  note eff = start_load_effect [OF 2(2,3)] and sel = evicted_some_sel [OF 2(1)]
  obtain e where e: "hm_get (rm_entries m') k = Some e" "en_state e = Loading ?l" "en_bytes e = b"
    "en_waiters e = [w]"
    using eff(3) sel by auto
  obtain st' where "hm_get (rm_pools m') (ek_pool k) = Some st'" "b \<le> reserved_loading_bytes st'"
    "used_bytes st' \<le> budget_bytes st'"
    using reserved_covers [OF inv' e(1,2)] e(3) by blast
  moreover have "hm_get (rm_loads m) ?l = None"
    using inv_load [OF inv, of ?l] by (cases "hm_get (rm_loads m) ?l") (auto simp: load_ok_def)
  moreover have "hm_get (rm_entries m') x = Some q"
    if "x \<noteq> k" "hm_get (rm_entries m) x = Some q" "0 < en_leases q \<or> is_loading q" for x q
    using eff(4) [OF that(1)] evicted_some_keeps [OF 2(1) that(2,3)] by simp
  ultimately show ?thesis using eff(1,2) sel e by auto
qed

text \<open>
  C9: A load request is coalesced, refused or started, and never costs a pinned
  or loading entry.  A resident key is answered with its generation; a key that
  is loading gains the waiter at most once and keeps its load (or the request is
  refused when the sizes differ); any other key starts a load under a fresh
  identifier, with its bytes reserved inside the budget, or is refused with an
  error.  In all cases leases are untouched and every entry that is leased or
  loading is still there.
\<close>

theorem begin_load_outcome:
  assumes "length ops < u32_max" and "list_all op_ok ops" and m: "m = run_residency new_manager ops"
    and run: "begin_load k b w m = (r, m')"
  shows "(case residency_state_of m k of
       Resident g \<Rightarrow> r = Inr (AlreadyResident g) \<and> residency_state_of m' k = Resident g
     | Loading l \<Rightarrow> (\<exists>e. hm_get (rm_entries m) k = Some e \<and>
         (if en_bytes e = b
          then r = Inr (Joined l) \<and> map_option en_waiters (hm_get (rm_entries m') k) =
            Some (if w \<in> set (en_waiters e) then en_waiters e else en_waiters e @ [w])
          else r = Inl (SizeMismatch (en_bytes e) b) \<and> m' = m))
     | _ \<Rightarrow> (\<exists>x. r = Inl x) \<or> r = Inr (Started (LoadId (rm_next_load m))) \<and>
         hm_get (rm_loads m) (LoadId (rm_next_load m)) = None \<and>
         hm_get (rm_loads m') (LoadId (rm_next_load m)) = Some k \<and>
         (\<exists>e st. hm_get (rm_entries m') k = Some e \<and> en_state e = Loading (LoadId (rm_next_load m)) \<and>
            en_bytes e = b \<and> en_waiters e = [w] \<and> hm_get (rm_pools m') (ek_pool k) = Some st \<and>
            b \<le> reserved_loading_bytes st \<and> used_bytes st \<le> budget_bytes st))
    \<and> rm_leases m' = rm_leases m
    \<and> (\<forall>x e. x \<noteq> k \<longrightarrow> hm_get (rm_entries m) x = Some e \<longrightarrow> (0 < en_leases e \<or> is_loading e) \<longrightarrow>
         hm_get (rm_entries m') x = Some e)"
proof -
  have room: "res_room m (Suc 0)"
    unfolding m using room_run_new [of ops "Suc 0"] assms(1,2) by simp
  note inv = room_inv [OF room]
  have inv': "res_inv m'" using inv_begin_load [OF inv room_bounds(1,2) [OF room], of k b w] run by simp
  have leases: "rm_leases m' = rm_leases m" using begin_load_sel(1) [OF inv, of k b w] run by simp
  show ?thesis
  proof (cases "residency_state_of m k")
    case Absent
    with leases begin_fresh_outcome [OF inv inv' _ run] show ?thesis by simp
  next
    case (LoadFailed x)
    with leases begin_fresh_outcome [OF inv inv' _ run] show ?thesis by simp
  next
    case (Resident g)
    then obtain e where get: "hm_get (rm_entries m) k = Some e" and res: "en_state e = Resident g"
      by (auto simp: residency_state_Resident)
    obtain st where "hm_get (rm_pools m) (ek_pool k) = Some st" by (rule inv_pool_known [OF inv get])
    with run get res Resident leases show ?thesis
      by (auto simp: begin_load_def touch_def tick_def Let_def residency_state_of_def hm_simps)
  next
    case (Loading l)
    then obtain e where get: "hm_get (rm_entries m) k = Some e" and res: "en_state e = Loading l"
      by (auto simp: residency_state_of_def split: option.splits)
    obtain st where "hm_get (rm_pools m) (ek_pool k) = Some st" by (rule inv_pool_known [OF inv get])
    with run get res Loading leases show ?thesis
      by (auto simp: begin_load_def Let_def hm_simps split: if_splits)
  qed
qed

theorem begin_load_outcome_witness:
  "fst (begin_load (demo_key 1) 60 (SessionId 2) (run_residency new_manager (take 2 demo_script))) =
     Inr (Joined (LoadId 0)) \<and>
   residency_state_of (snd (begin_load (demo_key 1) 60 (SessionId 9) (run_residency new_manager demo_script)))
     (demo_key 1) = Resident (Generation 0)"
proof -
  let ?m = "run_residency new_manager (take 2 demo_script)" and ?n = "run_residency new_manager demo_script"
  have ok: "length (take 2 demo_script) < u32_max" "list_all op_ok (take 2 demo_script)"
    "length demo_script < u32_max" "list_all op_ok demo_script"
    by (simp_all add: demo_defs rust_int)
  have "hm_get (rm_entries ?m) (demo_key 1) = Some \<lparr>en_state = Loading (LoadId 0), en_bytes = 60,
      en_waiters = [SessionId 1], en_leases = 0, en_last_touch = 1\<rparr>"
    "residency_state_of ?n (demo_key 1) = Resident (Generation 0)"
    by (simp_all add: demo_defs res_eval)
  then show ?thesis
    using begin_load_outcome [OF ok(1,2) refl surjective_pairing, of "demo_key 1" 60 "SessionId 2"]
      begin_load_outcome [OF ok(3,4) refl surjective_pairing, of "demo_key 1" 60 "SessionId 9"]
    by (simp add: residency_state_of_def)
qed

section \<open>Completions\<close>

lemma granted_sessions: "map lw_session (granted n k g ss) = ss"
  by (simp add: granted_def o_def case_prod_unfold enumerate_eq_zip)

lemma granted_lease:
  "w \<in> set (granted n k g ss) \<Longrightarrow>
     \<exists>j < length ss. lw_session w = ss ! j \<and>
       lw_result w = Inr \<lparr>le_id = LeaseId (n + j), le_key = k, le_generation = g, le_owner = ss ! j\<rparr>"
  by (auto simp: granted_def in_set_enumerate_eq) (metis le_add_diff_inverse less_diff_conv2)

text \<open>
  A successful completion publishes the entry under a new generation and
  wakes every waiter exactly once, in the order in which they joined, each with
  a registered lease of its own on that generation; the reservation becomes
  resident bytes, and the same load can only be reported as stale afterwards.
\<close>

lemma completion_wakes_all:
  assumes "length ops < u32_max" and "list_all op_ok ops" and m: "m = run_residency new_manager ops"
    and get: "hm_get (rm_entries m) k = Some e" and loading: "en_state e = Loading l"
    and run: "complete_load \<lparr>lc_load_id = l, lc_result = LoadSuccess\<rparr> m = (r, m')"
  shows "\<exists>g ws. r = Inr (Published g ws) \<and> residency_state_of m' k = Resident g \<and>
    map lw_session ws = en_waiters e \<and> distinct (map lw_session ws) \<and>
    (\<forall>w \<in> set ws. \<exists>ls. lw_result w = Inr ls \<and> le_owner ls = lw_session w \<and>
       hm_get (rm_leases m) (le_id ls) = None \<and>
       hm_get (rm_leases m') (le_id ls) = Some (k, g, lw_session w)) \<and>
    complete_load \<lparr>lc_load_id = l, lc_result = again\<rparr> m' = (Inr StaleLoad, m')"
proof -
  have room: "res_room m (Suc 0)"
    unfolding m using room_run_new [of ops "Suc 0"] assms(1,2) by simp
  note inv = room_inv [OF room]
  have entry: "entry_ok m k e" by (rule inv_entry [OF inv get])
  then have load: "hm_get (rm_loads m) l = Some k" using loading by (simp add: entry_ok_def)
  obtain st where st: "hm_get (rm_pools m) (ek_pool k) = Some st" by (rule inv_pool_known [OF inv get])
  define g where "g = Generation (next_generation m k)"
  obtain ws where r: "r = Inr (Published g ws)" and ws: "ws = granted (rm_next_lease m) k g (en_waiters e)"
    and entries: "rm_entries m' = hm_modify k (\<lambda>e'. e'\<lparr>en_state := Resident g, en_waiters := [],
       en_leases := length (en_waiters e), en_last_touch := Suc (rm_clock m)\<rparr>) (rm_entries m)"
    and loads: "rm_loads m' = hm_remove l (rm_loads m)"
    and leases: "\<And>i. hm_get (rm_leases m') i = (if rm_next_lease m \<le> lease_no i \<and>
         lease_no i < rm_next_lease m + length (en_waiters e)
         then Some (k, g, en_waiters e ! (lease_no i - rm_next_lease m)) else hm_get (rm_leases m) i)"
    unfolding g_def
    by (rule complete_success [OF inv load get st]) (use room_bounds [OF room] get run in auto)
  have "\<exists>ls. lw_result w = Inr ls \<and> le_owner ls = lw_session w \<and> hm_get (rm_leases m) (le_id ls) = None \<and>
       hm_get (rm_leases m') (le_id ls) = Some (k, g, lw_session w)" if "w \<in> set ws" for w
  proof -
    from granted_lease [OF that [unfolded ws]] obtain j where j: "j < length (en_waiters e)"
      "lw_session w = en_waiters e ! j" "lw_result w = Inr \<lparr>le_id = LeaseId (rm_next_lease m + j), le_key = k,
         le_generation = g, le_owner = en_waiters e ! j\<rparr>" by blast
    have "hm_get (rm_leases m) (LeaseId (rm_next_lease m + j)) = None"
      using lease_issued [OF inv, of "LeaseId (rm_next_lease m + j)"]
      by (metis lease_id.sel not_add_less1 option.exhaust)
    with j leases show ?thesis by simp
  qed
  moreover have "complete_load \<lparr>lc_load_id = l, lc_result = again\<rparr> m' = (Inr StaleLoad, m')"
    by (rule complete_unknown) (simp add: loads hm_simps)
  moreover have "residency_state_of m' k = Resident g"
    using get by (simp add: residency_state_of_def entries hm_simps)
  ultimately show ?thesis
    using r ws entry by (auto simp: granted_sessions entry_ok_def)
qed

text \<open>
  A failed, partial or cancelled load gives its reservation back and tells
  every waiter why: the pool's reserved bytes drop by exactly the load's bytes,
  resident bytes and leases are unchanged, the entry is marked failed, each
  waiter is woken once with the error, and the load itself is forgotten.
\<close>

lemma failed_load_releases:
  assumes "length ops \<le> u32_max" and "list_all op_ok ops" and m: "m = run_residency new_manager ops"
    and get: "hm_get (rm_entries m) k = Some e" and loading: "en_state e = Loading l"
    and failed: "res \<in> {LoadError msg, LoadPartial msg} \<or> res = LoadCancelled \<and> msg = ''load cancelled''"
    and st: "pool_stats_of m (ek_pool k) = Inr st"
    and run: "complete_load \<lparr>lc_load_id = l, lc_result = res\<rparr> m = (r, m')"
  shows "r = Inr (WakesFailed (map (\<lambda>s. \<lparr>lw_session = s, lw_result = Inl msg\<rparr>) (en_waiters e))) \<and>
    residency_state_of m' k = LoadFailed msg \<and> rm_leases m' = rm_leases m \<and>
    hm_get (rm_loads m') l = None \<and> en_bytes e \<le> reserved_loading_bytes st \<and>
    (\<exists>st'. pool_stats_of m' (ek_pool k) = Inr st' \<and> resident_bytes st' = resident_bytes st \<and>
       reserved_loading_bytes st' = reserved_loading_bytes st - en_bytes e)"
proof -
  have inv: "res_inv m" unfolding m by (rule inv_run_residency [OF assms(1,2)])
  have load: "hm_get (rm_loads m) l = Some k" using inv_entry [OF inv get] loading by (simp add: entry_ok_def)
  have pool: "hm_get (rm_pools m) (ek_pool k) = Some st"
    using st by (simp add: pool_stats_of_def split: option.splits)
  moreover have "en_bytes e \<le> reserved_loading_bytes st"
    by (rule reserved_covers [OF inv get loading]) (use pool in simp)
  moreover have "res \<noteq> LoadSuccess" using failed by auto
  note complete_failure [OF inv load get this]
  ultimately show ?thesis
    using run failed get by (auto simp: residency_state_of_def hm_simps pool_stats_of_def)
qed

text \<open>
  Generations of a key are never reused: whatever happens between two
  successful completions of loads of the same key, evictions included, the
  second publishes a strictly larger generation, so a lease of the first can
  never be mistaken for one of the second.
\<close>

lemma generations_increase:
  assumes "length ops + length rest + 1 < u32_max" and "list_all op_ok (ops @ rest)"
    and m: "m = run_residency new_manager ops"
    and m': "m' = run_residency new_manager (ops @ CompleteLoad c # rest)"
    and "hm_get (rm_loads m) (lc_load_id c) = Some k" "fst (complete_load c m) = Inr (Published g ws)"
    and "hm_get (rm_loads m') (lc_load_id c') = Some k" "fst (complete_load c' m') = Inr (Published g' ws')"
  shows "generation_no g < generation_no g'"
proof -
  have room: "res_room m (Suc (length rest))"
    unfolding m using room_run_new [of ops "Suc (length rest)"] assms(1,2) by simp
  have room': "res_room m' (Suc 0)"
    unfolding m' using room_run_new [of "ops @ CompleteLoad c # rest" "Suc 0"] assms(1,2) by simp
  have step: "res_room (snd (complete_load c m)) (length rest)"
    using room_execute [OF room, of "CompleteLoad c"] by simp
  have "Suc (generation_no g) \<le> next_generation (snd (complete_load c m)) k"
    using complete_generation [OF room assms(5,6)] by simp
  from generation_run [OF step _ this] assms(2)
  have "Suc (generation_no g) \<le> next_generation m' k"
    by (simp add: m' m run_residency_append run_Cons)
  then show ?thesis using complete_generation(1) [OF room' assms(7,8)] by simp
qed

text \<open>
  Replaying a recorded residency trace accepts exactly the traces that the
  manager itself produces: \<^verbatim>\<open>replay\<close> succeeds on an event list if and only if it is
  the trace of the run of its own operations.
\<close>

lemma residency_replay_exact:
  "replay_residency es = Inr () \<longleftrightarrow>
     rs_trace (fold (\<lambda>op sim. snd (apply_residency sim op)) (map ev_op es) new_residency_simulator) = es"
  unfolding replay_residency_def by (rule rsim.replay_fresh_iff)

end
