(* ===== verification/Wire.thy ===== *)
theory Wire
  imports Prelude
begin

text \<open>
  Little-endian byte encodings and the bounds-checked reader \<^verbatim>\<open>ByteCursor\<close> of
  \<^verbatim>\<open>logan-core/src/state/snapshot.rs\<close>.  The locale \<open>wire_field\<close> is the contract
  between a writer and its reader: the reader returns exactly what the writer
  wrote and accepts nothing else; sequences of fields are covered once, inside
  the locale.
\<close>

section \<open>Little-endian integers\<close>

fun le_bytes :: "nat \<Rightarrow> nat \<Rightarrow> byte list" where
  "le_bytes 0 x = []"
| "le_bytes (Suc n) x = word_of_nat x # le_bytes n (x div 256)"

fun le_nat :: "byte list \<Rightarrow> nat" where
  "le_nat [] = 0"
| "le_nat (b # bs) = unat b + 256 * le_nat bs"

lemma length_le_bytes [simp]: "length (le_bytes n x) = n"
  by (induction n arbitrary: x) simp_all

lemma unat_byte_lt: "unat (b :: byte) < 256"
  using unsigned_less [of b] by simp

lemma unat_byte_of_nat: "unat (word_of_nat x :: byte) = x mod 256"
  by (simp add: unsigned_of_nat take_bit_eq_mod)

lemma le_nat_le_bytes: "x < 256 ^ n \<Longrightarrow> le_nat (le_bytes n x) = x"
proof (induction n arbitrary: x)
  case (Suc n)
  then have "x div 256 < 256 ^ n" by (simp add: less_mult_imp_div_less mult.commute)
  with Suc.IH show ?case by (simp add: unat_byte_of_nat)
qed simp

lemma le_nat_less: "le_nat bs < 256 ^ length bs"
proof (induction bs)
  case (Cons b bs)
  then have "Suc (le_nat bs) \<le> 256 ^ length bs" by simp
  then have "256 * Suc (le_nat bs) \<le> 256 * 256 ^ length bs" by (rule mult_le_mono2)
  with unat_byte_lt [of b] show ?case by simp
qed simp

lemma le_bytes_le_nat: "le_bytes (length bs) (le_nat bs) = bs"
proof (induction bs)
  case (Cons b bs)
  have zero: "(256 :: byte) = 0" by simp
  have "(256 :: byte) * y = 0" for y by (subst zero) (rule mult_zero_left)
  then have "word_of_nat (unat b + 256 * le_nat bs) = b" by simp
  moreover have "(unat b + 256 * le_nat bs) div 256 = le_nat bs" using unat_byte_lt [of b] by simp
  ultimately show ?case using Cons by simp
qed simp

section \<open>UTF-8\<close>

text \<open>The strings \<^verbatim>\<open>std::str::from_utf8\<close> accepts: no overlong forms, no surrogates, at most U+10FFFF.\<close>

definition between :: "nat \<Rightarrow> nat \<Rightarrow> byte \<Rightarrow> bool" where
  "between lo hi b \<longleftrightarrow> lo \<le> unat b \<and> unat b \<le> hi"

fun utf8_ok :: "byte list \<Rightarrow> bool" where
  "utf8_ok [] \<longleftrightarrow> True"
| "utf8_ok (a # bs) \<longleftrightarrow>
     (if unat a < 128 then utf8_ok bs
      else case bs of
        [] \<Rightarrow> False
      | b # cs \<Rightarrow>
          if between 0xC2 0xDF a then between 0x80 0xBF b \<and> utf8_ok cs
          else case cs of
            [] \<Rightarrow> False
          | c # ds \<Rightarrow>
              if between 0xE0 0xEF a then
                between (if unat a = 0xE0 then 0xA0 else 0x80) (if unat a = 0xED then 0x9F else 0xBF) b \<and>
                between 0x80 0xBF c \<and> utf8_ok ds
              else case ds of
                [] \<Rightarrow> False
              | d # es \<Rightarrow>
                  between 0xF0 0xF4 a \<and>
                  between (if unat a = 0xF0 then 0x90 else 0x80) (if unat a = 0xF4 then 0x8F else 0xBF) b \<and>
                  between 0x80 0xBF c \<and> between 0x80 0xBF d \<and> utf8_ok es)"

declare utf8_ok.simps(2) [simp del]

section \<open>The cursor\<close>

text \<open>
  Reader errors; the source reports them as strings.  \<open>CapacityOverflow\<close> is the
  panic of \<^verbatim>\<open>Vec::with_capacity\<close> on a length whose allocation exceeds \<^verbatim>\<open>isize::MAX\<close>
  bytes.
\<close>

datatype wire_error =
    OffsetOverflow
  | TruncatedPayload
  | LengthExceedsHost
  | F32LengthOverflow
  | CapacityOverflow
  | InvalidTag string
  | UnknownKind nat
  | BadMagic string
  | UnsupportedVersion nat
  | NotUtf8
  | TrailingBytes string
  | InvalidSectionLength
  | NameTooLong
  | ChecksumMismatch
  | WrongSchema
  | WrongPrefixHash
  | MetadataOnly
  | Engine string

record byte_cursor =
  cu_bytes :: "byte list"
  cu_off :: nat

type_synonym 'a reader = "byte_cursor \<Rightarrow> wire_error + 'a \<times> byte_cursor"

definition new_cursor :: "byte list \<Rightarrow> byte_cursor" where
  "new_cursor bs = \<lparr>cu_bytes = bs, cu_off = 0\<rparr>"

definition is_done :: "byte_cursor \<Rightarrow> bool" where
  "is_done c \<longleftrightarrow> cu_off c = length (cu_bytes c)"

definition take_bytes :: "nat \<Rightarrow> byte list reader" where
  "take_bytes n c =
     (case checked_add_usize (cu_off c) n of
        None \<Rightarrow> Inl OffsetOverflow
      | Some end \<Rightarrow>
          if end \<le> length (cu_bytes c)
          then Inr (take n (drop (cu_off c) (cu_bytes c)), c\<lparr>cu_off := end\<rparr>)
          else Inl TruncatedPayload)"

text \<open>The \<^verbatim>\<open>?\<close> operator: an error ends the function, a value goes on with the new cursor.\<close>

definition bind_reader :: "'a reader \<Rightarrow> ('a \<Rightarrow> 'b reader) \<Rightarrow> 'b reader" where
  "bind_reader f g c = (case f c of Inl e \<Rightarrow> Inl e | Inr (v, c') \<Rightarrow> g v c')"

definition return_reader :: "'a \<Rightarrow> 'a reader" where
  "return_reader v c = Inr (v, c)"

definition fail_reader :: "wire_error \<Rightarrow> 'a reader" where
  "fail_reader e c = Inl e"

definition read_u8 :: "nat reader" where
  "read_u8 = bind_reader (take_bytes 1) (\<lambda>bs. return_reader (unat (bs ! 0)))"

definition read_u32 :: "nat reader" where
  "read_u32 = bind_reader (take_bytes 4) (\<lambda>bs. return_reader (le_nat bs))"

definition read_u64 :: "nat reader" where
  "read_u64 = bind_reader (take_bytes 8) (\<lambda>bs. return_reader (le_nat bs))"

definition read_usize :: "nat reader" where
  "read_usize = bind_reader read_u64
     (\<lambda>x. if x \<le> usize_max then return_reader x else fail_reader LengthExceedsHost)"

text \<open>A loop that reads \<open>n\<close> items and pushes them onto a vector.\<close>

primrec read_times :: "nat \<Rightarrow> 'a reader \<Rightarrow> 'a list reader" where
  "read_times 0 f = return_reader []"
| "read_times (Suc n) f =
     bind_reader f (\<lambda>x. bind_reader (read_times n f) (\<lambda>xs. return_reader (x # xs)))"

fun chunks_exact :: "nat \<Rightarrow> 'a list \<Rightarrow> 'a list list" where
  "chunks_exact n xs = (if n = 0 \<or> length xs < n then [] else take n xs # chunks_exact n (drop n xs))"

declare chunks_exact.simps [simp del]

text \<open>An \<^verbatim>\<open>f32\<close> is its bit pattern.\<close>

type_synonym f32 = "32 word"

definition read_f32_vec :: "f32 list reader" where
  "read_f32_vec =
     bind_reader read_usize (\<lambda>len.
       case checked_mul_usize len 4 of
         None \<Rightarrow> fail_reader F32LengthOverflow
       | Some n \<Rightarrow> bind_reader (take_bytes n)
           (\<lambda>raw. return_reader (map (\<lambda>bs. word_of_nat (le_nat bs)) (chunks_exact 4 raw))))"

text \<open>
  A vector of \<open>n\<close> elements of \<open>elem\<close> bytes can only be allocated up to \<^verbatim>\<open>isize::MAX\<close>
  bytes; beyond that the allocation panics.
\<close>

definition isize_max :: nat where
  "isize_max = 9223372036854775807"

definition alloc_ok :: "nat \<Rightarrow> nat \<Rightarrow> bool" where
  "alloc_ok n elem \<longleftrightarrow> n * elem \<le> isize_max"

text \<open>Writers; \<^verbatim>\<open>push_usize\<close> cannot fail where \<^verbatim>\<open>usize\<close> has 64 bits.\<close>

definition push_u64 :: "nat \<Rightarrow> byte list" where
  "push_u64 x = le_bytes 8 x"

definition push_usize :: "nat \<Rightarrow> byte list" where
  "push_usize x = push_u64 x"

definition push_f32_vec :: "f32 list \<Rightarrow> byte list" where
  "push_f32_vec xs = push_usize (length xs) @ concat (map (\<lambda>x. le_bytes 4 (unat x)) xs)"

section \<open>The contract of a field\<close>

definition cursor_ok :: "byte_cursor \<Rightarrow> bool" where
  "cursor_ok c \<longleftrightarrow> cu_off c \<le> length (cu_bytes c) \<and> length (cu_bytes c) \<le> usize_max"

definition remaining :: "byte_cursor \<Rightarrow> byte list" where
  "remaining c = drop (cu_off c) (cu_bytes c)"

definition reads :: "'a reader \<Rightarrow> byte list \<Rightarrow> 'a \<Rightarrow> bool" where
  "reads f bs v \<longleftrightarrow>
     (\<forall>c rest. cursor_ok c \<longrightarrow> remaining c = bs @ rest \<longrightarrow>
        (\<exists>c'. f c = Inr (v, c') \<and> cursor_ok c' \<and> remaining c' = rest))"

text \<open>
  \<open>exact f R\<close>: whatever \<open>f\<close> accepts, it has consumed bytes related to the value by \<open>R\<close>.
\<close>

definition exact :: "'a reader \<Rightarrow> (byte list \<Rightarrow> 'a \<Rightarrow> bool) \<Rightarrow> bool" where
  "exact f R \<longleftrightarrow>
     (\<forall>c v c'. cursor_ok c \<longrightarrow> f c = Inr (v, c') \<longrightarrow>
        cursor_ok c' \<and> (\<exists>bs. remaining c = bs @ remaining c' \<and> R bs v))"

lemma exactI:
  assumes "\<And>c v c'. cursor_ok c \<Longrightarrow> f c = Inr (v, c') \<Longrightarrow>
    cursor_ok c' \<and> (\<exists>bs. remaining c = bs @ remaining c' \<and> R bs v)"
  shows "exact f R"
  using assms by (simp add: exact_def)

lemma exactD:
  assumes "exact f R" "cursor_ok c" "f c = Inr (v, c')"
  obtains bs where "cursor_ok c'" "remaining c = bs @ remaining c'" "R bs v"
  using assms unfolding exact_def by metis

lemma reads_bind:
  assumes "reads f bs v" "reads (g v) bs' w"
  shows "reads (bind_reader f g) (bs @ bs') w"
  unfolding reads_def
proof (intro allI impI)
  fix c rest
  assume "cursor_ok c" "remaining c = (bs @ bs') @ rest"
  with assms(1) obtain c1 where "f c = Inr (v, c1)" "cursor_ok c1" "remaining c1 = bs' @ rest"
    unfolding reads_def by (metis append.assoc)
  with assms(2) show "\<exists>c'. bind_reader f g c = Inr (w, c') \<and> cursor_ok c' \<and> remaining c' = rest"
    unfolding reads_def bind_reader_def by auto
qed

lemma reads_return: "reads (return_reader v) [] v"
  by (simp add: reads_def return_reader_def)

lemma exact_bind:
  assumes "exact f R" "\<And>v. exact (g v) (S v)"
  shows "exact (bind_reader f g) (\<lambda>bs w. \<exists>b1 b2 v. bs = b1 @ b2 \<and> R b1 v \<and> S v b2 w)"
proof (rule exactI)
  fix c w c'
  assume ok: "cursor_ok c" and run: "bind_reader f g c = Inr (w, c')"
  from run obtain v c1 where f: "f c = Inr (v, c1)" and g: "g v c1 = Inr (w, c')"
    by (auto simp: bind_reader_def split: sum.splits)
  obtain b1 where b1: "cursor_ok c1" "remaining c = b1 @ remaining c1" "R b1 v"
    by (rule exactD [OF assms(1) ok f])
  obtain b2 where b2: "cursor_ok c'" "remaining c1 = b2 @ remaining c'" "S v b2 w"
    by (rule exactD [OF assms(2) b1(1) g])
  have "remaining c = (b1 @ b2) @ remaining c'" using b1(2) b2(2) by simp
  with b1(3) b2(1,3) show "cursor_ok c' \<and> (\<exists>bs. remaining c = bs @ remaining c' \<and>
      (\<exists>b1 b2 v. bs = b1 @ b2 \<and> R b1 v \<and> S v b2 w))"
    by blast
qed

lemma exact_return: "exact (return_reader v) (\<lambda>bs w. bs = [] \<and> w = v)"
  by (rule exactI) (simp add: return_reader_def)

lemma exact_fail: "exact (fail_reader e) R"
  by (rule exactI) (simp add: fail_reader_def)

lemma exact_if: "(b \<Longrightarrow> exact f R) \<Longrightarrow> (\<not> b \<Longrightarrow> exact g R) \<Longrightarrow> exact (if b then f else g) R"
  by simp

lemma exact_weaken: "exact f R \<Longrightarrow> (\<And>bs v. R bs v \<Longrightarrow> S bs v) \<Longrightarrow> exact f S"
  unfolding exact_def by metis

lemma remaining_advance: "remaining (c\<lparr>cu_off := cu_off c + n\<rparr>) = drop n (remaining c)"
  by (simp add: remaining_def add.commute)

lemma cursor_advance:
  "cursor_ok c \<Longrightarrow> n \<le> length (remaining c) \<Longrightarrow> cursor_ok (c\<lparr>cu_off := cu_off c + n\<rparr>)"
  by (auto simp: cursor_ok_def remaining_def)

lemma take_bytes_ok:
  assumes "cursor_ok c"
  shows "take_bytes n c =
    (if n \<le> length (remaining c) then Inr (take n (remaining c), c\<lparr>cu_off := cu_off c + n\<rparr>)
     else if usize_max < cu_off c + n then Inl OffsetOverflow else Inl TruncatedPayload)"
  using assms
  by (auto simp: take_bytes_def checked_add_usize_def cursor_ok_def remaining_def)

lemma reads_take: "length bs = n \<Longrightarrow> reads (take_bytes n) bs bs"
  unfolding reads_def by (auto simp: take_bytes_ok remaining_advance cursor_advance)

lemma exact_take: "exact (take_bytes n) (\<lambda>bs v. bs = v \<and> length v = n)"
  by (rule exactI) (auto simp: take_bytes_ok remaining_advance cursor_advance split: if_splits)

text \<open>
  The contract of one field: \<open>good\<close> values are read back from what the writer
  produces, and whatever the reader accepts is what the writer produces for the
  value, which is \<open>good\<close>.
\<close>

locale wire_field =
  fixes enc :: "'a \<Rightarrow> byte list"
    and dec :: "'a reader"
    and good :: "'a \<Rightarrow> bool"
  assumes dec_enc: "good v \<Longrightarrow> reads dec (enc v) v"
    and enc_dec: "exact dec (\<lambda>bs v. bs = enc v \<and> good v)"
begin

lemma times_reads: "list_all good vs \<Longrightarrow> reads (read_times (length vs) dec) (concat (map enc vs)) vs"
proof (induction vs)
  case Nil
  then show ?case by (simp add: reads_return)
next
  case (Cons v vs)
  have "reads (bind_reader (read_times (length vs) dec) (\<lambda>xs. return_reader (v # xs)))
      (concat (map enc vs) @ []) (v # vs)"
    using Cons by (intro reads_bind [OF _ reads_return]) simp
  then have "reads (bind_reader dec (\<lambda>x. bind_reader (read_times (length vs) dec)
      (\<lambda>xs. return_reader (x # xs)))) (enc v @ (concat (map enc vs) @ [])) (v # vs)"
    using Cons.prems by (intro reads_bind [OF dec_enc]) simp_all
  then show ?case by simp
qed

lemma times_exact:
  "exact (read_times n dec) (\<lambda>bs vs. bs = concat (map enc vs) \<and> length vs = n \<and> list_all good vs)"
proof (induction n)
  case 0
  show ?case unfolding read_times.simps by (rule exact_weaken [OF exact_return]) simp
next
  case (Suc n)
  show ?case
    unfolding read_times.simps
    by (rule exact_weaken, rule exact_bind [OF enc_dec], rule exact_bind [OF Suc exact_return]) auto
qed

end

text \<open>Field readers that check a value read before them.\<close>

lemma exact_bind_field:
  assumes "wire_field enc dec good" "\<And>v. good v \<Longrightarrow> exact (g v) (S v)"
  shows "exact (bind_reader dec g) (\<lambda>bs w. \<exists>v b2. good v \<and> bs = enc v @ b2 \<and> S v b2 w)"
proof (rule exactI)
  fix c w c'
  assume ok: "cursor_ok c" and run: "bind_reader dec g c = Inr (w, c')"
  from run obtain v c1 where f: "dec c = Inr (v, c1)" and g: "g v c1 = Inr (w, c')"
    by (auto simp: bind_reader_def split: sum.splits)
  obtain b1 where b1: "cursor_ok c1" "remaining c = b1 @ remaining c1" "b1 = enc v \<and> good v"
    by (rule exactD [OF wire_field.enc_dec [OF assms(1)] ok f])
  obtain b2 where b2: "cursor_ok c'" "remaining c1 = b2 @ remaining c'" "S v b2 w"
    by (rule exactD [OF assms(2) b1(1) g]) (use b1 in auto)
  then show "cursor_ok c' \<and> (\<exists>bs. remaining c = bs @ remaining c' \<and>
      (\<exists>v b2. good v \<and> bs = enc v @ b2 \<and> S v b2 w))"
    using b1 by (metis append.assoc)
qed

interpretation u8: wire_field "le_bytes 1" read_u8 "\<lambda>x. x < 256"
proof
  fix v :: nat
  assume v: "v < 256"
  have "reads read_u8 (le_bytes 1 v @ []) (unat (le_bytes 1 v ! 0))"
    unfolding read_u8_def by (rule reads_bind [OF reads_take reads_return]) simp
  with v show "reads read_u8 (le_bytes 1 v) v" by (simp add: unat_byte_of_nat)
next
  have "(bs :: byte list) = le_bytes 1 (unat (bs ! 0)) \<and> unat (bs ! 0) < 256" if "length bs = 1" for bs
    using that by (cases bs) (auto simp: unat_byte_lt)
  then show "exact read_u8 (\<lambda>bs v. bs = le_bytes 1 v \<and> v < 256)"
    unfolding read_u8_def
    by (rule_tac exact_weaken, rule_tac exact_bind [OF exact_take exact_return]) auto
qed

lemma le_field:
  "wire_field (le_bytes n) (bind_reader (take_bytes n) (\<lambda>bs. return_reader (le_nat bs))) (\<lambda>x. x < 256 ^ n)"
proof
  fix v :: nat
  assume v: "v < 256 ^ n"
  have "reads (bind_reader (take_bytes n) (\<lambda>bs. return_reader (le_nat bs))) (le_bytes n v @ [])
      (le_nat (le_bytes n v))"
    by (rule reads_bind [OF reads_take reads_return]) simp
  with v show "reads (bind_reader (take_bytes n) (\<lambda>bs. return_reader (le_nat bs))) (le_bytes n v) v"
    by (simp add: le_nat_le_bytes)
next
  have "bs = le_bytes n (le_nat bs) \<and> le_nat bs < 256 ^ n" if "length bs = n" for bs
    using that le_nat_less [of bs] le_bytes_le_nat [of bs] by simp
  then show "exact (bind_reader (take_bytes n) (\<lambda>bs. return_reader (le_nat bs)))
      (\<lambda>bs v. bs = le_bytes n v \<and> v < 256 ^ n)"
    by (rule_tac exact_weaken, rule_tac exact_bind [OF exact_take exact_return]) auto
qed

interpretation u32: wire_field "le_bytes 4" read_u32 "\<lambda>x. x \<le> u32_max"
  using le_field [of 4] by (simp add: read_u32_def u32_max_def less_Suc_eq_le [symmetric])

interpretation u64: wire_field push_u64 read_u64 "\<lambda>x. x \<le> u64_max"
  using le_field [of 8]
  by (simp add: read_u64_def push_u64_def [abs_def] u64_max_def less_Suc_eq_le [symmetric])

interpretation usize: wire_field push_usize read_usize "\<lambda>x. x \<le> usize_max"
proof
  fix v
  assume "v \<le> usize_max"
  then have "reads read_usize (push_u64 v @ []) v"
    unfolding read_usize_def
    by (intro reads_bind [OF u64.dec_enc]) (simp_all add: reads_return rust_int)
  then show "reads read_usize (push_usize v) v" by (simp add: push_usize_def)
next
  show "exact read_usize (\<lambda>bs v. bs = push_usize v \<and> v \<le> usize_max)"
    unfolding read_usize_def
    by (rule exact_weaken, rule exact_bind_field [OF u64.wire_field_axioms,
          where S = "\<lambda>x bs v. bs = [] \<and> v = x \<and> x \<le> usize_max"],
        rule exact_if [OF exact_weaken [OF exact_return] exact_fail])
      (auto simp: push_usize_def)
qed

section \<open>Vectors of floats\<close>

lemma chunks_step: "length xs = n \<Longrightarrow> 0 < n \<Longrightarrow> chunks_exact n (xs @ ys) = xs # chunks_exact n ys"
  by (subst chunks_exact.simps) simp

lemma chunks_Nil [simp]: "0 < n \<Longrightarrow> chunks_exact n [] = []"
  by (subst chunks_exact.simps) simp

lemma chunks_concat:
  "0 < n \<Longrightarrow> \<forall>x \<in> set xss. length x = n \<Longrightarrow> chunks_exact n (concat xss) = xss"
  by (induction xss) (simp_all add: chunks_step)

lemma chunks_parts:
  assumes "0 < n" "length xs = k * n"
  shows "concat (chunks_exact n xs) = xs \<and> length (chunks_exact n xs) = k \<and>
    (\<forall>x \<in> set (chunks_exact n xs). length x = n)"
  using assms(2)
proof (induction k arbitrary: xs)
  case 0
  then show ?case using assms(1) by simp
next
  case (Suc k)
  then have "length (drop n xs) = k * n" by simp
  from Suc.IH [OF this] show ?case
    using Suc.prems chunks_step [of "take n xs" n "drop n xs"] assms(1) by auto
qed

lemma f32_bits: "word_of_nat (le_nat (le_bytes 4 (unat x))) = (x :: f32)"
proof -
  have "unat x < 256 ^ 4" using unsigned_less [of x] by simp
  then show ?thesis by (simp only: le_nat_le_bytes) simp
qed

lemma f32_bytes:
  assumes "length bs = 4"
  shows "le_bytes 4 (unat (word_of_nat (le_nat bs) :: f32)) = bs"
proof -
  have "le_nat bs < 2 ^ 32" using le_nat_less [of bs] assms by simp
  then have "unat (word_of_nat (le_nat bs) :: f32) = le_nat bs"
    by (simp add: unsigned_of_nat take_bit_nat_eq_self)
  with assms le_bytes_le_nat [of bs] show ?thesis by simp
qed

interpretation f32_vec: wire_field push_f32_vec read_f32_vec "\<lambda>xs. length xs * 4 \<le> usize_max"
proof
  fix xs :: "f32 list"
  assume fits: "length xs * 4 \<le> usize_max"
  let ?chunks = "map (\<lambda>x. le_bytes 4 (unat x)) xs"
  have chunks: "chunks_exact 4 (concat ?chunks) = ?chunks" by (rule chunks_concat) auto
  have len: "length (concat ?chunks) = length xs * 4"
    by (simp add: length_concat o_def sum_list_triv)
  have "reads (bind_reader (take_bytes (length xs * 4))
      (\<lambda>raw. return_reader (map (\<lambda>bs. word_of_nat (le_nat bs)) (chunks_exact 4 raw))))
      (concat ?chunks @ []) (map (\<lambda>bs. word_of_nat (le_nat bs) :: f32) ?chunks)"
    by (rule reads_bind [OF reads_take [OF len]]) (simp add: chunks reads_return)
  then have "reads (bind_reader (take_bytes (length xs * 4))
      (\<lambda>raw. return_reader (map (\<lambda>bs. word_of_nat (le_nat bs)) (chunks_exact 4 raw))))
      (concat ?chunks) xs"
    by (simp add: o_def f32_bits)
  with fits have "reads read_f32_vec (push_usize (length xs) @ concat ?chunks) xs"
    unfolding read_f32_vec_def
    by (intro reads_bind [OF usize.dec_enc]) (simp_all add: checked_mul_usize_def)
  then show "reads read_f32_vec (push_f32_vec xs) xs" by (simp add: push_f32_vec_def)
next
  have parts: "raw = concat (map (\<lambda>x. le_bytes 4 (unat x)) vs) \<and> length vs = k"
    if "length raw = k * 4" "vs = map (\<lambda>bs. word_of_nat (le_nat bs) :: f32) (chunks_exact 4 raw)" for raw vs k
  proof -
    note ch = chunks_parts [of 4 raw k, OF _ that(1)]
    have "map (\<lambda>x. le_bytes 4 (unat x)) vs = chunks_exact 4 raw"
      using ch by (simp add: that(2) o_def f32_bytes cong: map_cong)
    with ch show ?thesis by (simp add: that(2))
  qed
  show "exact read_f32_vec (\<lambda>bs xs. bs = push_f32_vec xs \<and> length xs * 4 \<le> usize_max)"
    unfolding read_f32_vec_def
  proof (rule exact_weaken, rule exact_bind_field [OF usize.wire_field_axioms, where
        S = "\<lambda>k bs vs. bs = concat (map (\<lambda>x. le_bytes 4 (unat (x :: f32))) vs) \<and> length vs = k \<and> k * 4 \<le> usize_max"])
    fix k
    have "exact (bind_reader (take_bytes (k * 4)) (\<lambda>raw. return_reader
           (map (\<lambda>bs. word_of_nat (le_nat bs)) (chunks_exact 4 raw))))
      (\<lambda>bs vs. bs = concat (map (\<lambda>x. le_bytes 4 (unat (x :: f32))) vs) \<and> length vs = k)"
      by (rule exact_weaken [OF exact_bind [OF exact_take exact_return]])
        (use parts in \<open>metis append_Nil2\<close>)
    then show "exact (case checked_mul_usize k 4 of None \<Rightarrow> fail_reader F32LengthOverflow
       | Some n \<Rightarrow> bind_reader (take_bytes n) (\<lambda>raw. return_reader
           (map (\<lambda>bs. word_of_nat (le_nat bs)) (chunks_exact 4 raw))))
      (\<lambda>bs vs. bs = concat (map (\<lambda>x. le_bytes 4 (unat (x :: f32))) vs) \<and> length vs = k \<and> k * 4 \<le> usize_max)"
      by (cases "k * 4 \<le> usize_max") (simp_all add: checked_mul_usize_def exact_fail)
  qed (auto simp: push_f32_vec_def)
qed

section \<open>Flags and optional values\<close>

definition bool_byte :: "bool \<Rightarrow> byte list" where
  "bool_byte b = le_bytes 1 (if b then 1 else 0)"

definition read_flag :: "string \<Rightarrow> bool reader" where
  "read_flag msg = bind_reader read_u8
     (\<lambda>x. if x = 0 then return_reader False else if x = 1 then return_reader True
          else fail_reader (InvalidTag msg))"

interpretation flag: wire_field bool_byte "read_flag msg" "\<lambda>_. True" for msg
proof
  fix b
  have "reads (read_flag msg) (le_bytes 1 (if b then 1 else 0) @ []) b"
    unfolding read_flag_def by (rule reads_bind [OF u8.dec_enc]) (simp_all add: reads_return)
  then show "reads (read_flag msg) (bool_byte b) b" by (simp add: bool_byte_def)
next
  show "exact (read_flag msg) (\<lambda>bs b. bs = bool_byte b \<and> True)"
    unfolding read_flag_def
    by (rule exact_weaken, rule exact_bind_field [OF u8.wire_field_axioms,
          where S = "\<lambda>x bs b. bs = [] \<and> x = (if b then 1 else 0)"])
      (auto simp: bool_byte_def exact_fail intro!: exact_weaken [OF exact_return])
qed

definition opt_u64 :: "nat option \<Rightarrow> byte list" where
  "opt_u64 x = (case x of None \<Rightarrow> le_bytes 1 0 | Some v \<Rightarrow> le_bytes 1 1 @ push_u64 v)"

definition read_opt_u64 :: "string \<Rightarrow> nat option reader" where
  "read_opt_u64 msg = bind_reader read_u8
     (\<lambda>t. if t = 0 then return_reader None
          else if t = 1 then bind_reader read_u64 (\<lambda>v. return_reader (Some v))
          else fail_reader (InvalidTag msg))"

interpretation opt_u64: wire_field opt_u64 "read_opt_u64 msg" "\<lambda>x. \<forall>v. x = Some v \<longrightarrow> v \<le> u64_max" for msg
proof
  fix x :: "nat option"
  assume ok: "\<forall>v. x = Some v \<longrightarrow> v \<le> u64_max"
  show "reads (read_opt_u64 msg) (opt_u64 x) x"
  proof (cases x)
    case None
    have "reads (read_opt_u64 msg) (le_bytes 1 0 @ []) None"
      unfolding read_opt_u64_def by (rule reads_bind [OF u8.dec_enc]) (simp_all add: reads_return)
    with None show ?thesis by (simp add: opt_u64_def)
  next
    case (Some v)
    have "reads (bind_reader read_u64 (\<lambda>v. return_reader (Some v))) (push_u64 v @ []) (Some v)"
      using ok Some by (intro reads_bind [OF u64.dec_enc] reads_return) simp
    then have "reads (read_opt_u64 msg) (le_bytes 1 1 @ push_u64 v) (Some v)"
      unfolding read_opt_u64_def by (intro reads_bind [OF u8.dec_enc]) simp_all
    with Some show ?thesis by (simp add: opt_u64_def)
  qed
next
  have some: "exact (bind_reader read_u64 (\<lambda>v. return_reader (Some v)))
      (\<lambda>bs x. \<exists>v. x = Some v \<and> bs = push_u64 v \<and> v \<le> u64_max)"
    by (rule exact_weaken, rule exact_bind_field [OF u64.wire_field_axioms exact_return]) auto
  show "exact (read_opt_u64 msg) (\<lambda>bs x. bs = opt_u64 x \<and> (\<forall>v. x = Some v \<longrightarrow> v \<le> u64_max))"
    unfolding read_opt_u64_def
    by (rule exact_weaken, rule exact_bind_field [OF u8.wire_field_axioms, where
          S = "\<lambda>t bs x. t = 0 \<and> bs = [] \<and> x = None \<or>
            t = 1 \<and> (\<exists>v. x = Some v \<and> bs = push_u64 v \<and> v \<le> u64_max)"])
      (auto simp: opt_u64_def exact_fail intro!: exact_weaken [OF exact_return] exact_weaken [OF some])
qed

end
