(* ===== verification/Causal_State.thy ===== *)
theory Causal_State
  imports Wire
begin

text \<open>
  The model-neutral causal state (\<^verbatim>\<open>logan-core/src/state/mod.rs\<close>), its declarative
  schema with checked size accounting (\<^verbatim>\<open>state/schema.rs\<close>) and state pages
  (\<^verbatim>\<open>state/page.rs\<close>).  Rust strings are their UTF-8 bytes, floats their bits.
\<close>

section \<open>Causal state\<close>

type_synonym rust_string = "byte list"

record append_only_state =
  ao_keys :: "f32 list"
  ao_values :: "f32 list"
  ao_position :: nat
  ao_n_heads :: nat
  ao_dim :: nat

record ring_state =
  ri_buffer :: "f32 list"
  ri_capacity :: nat
  ri_write_pos :: nat
  ri_read_pos :: nat
  ri_len :: nat

record mutable_fixed_state =
  mf_data :: "f32 list"
  mf_write_pos :: nat
  mf_len :: nat
  mf_has_wrapped :: bool

record sparse_paged_state =
  sp_page_table :: "nat option list"
  sp_pages :: "f32 list list"
  sp_page_entries :: nat
  sp_max_pages :: nat
  sp_pinned :: bool

datatype causal_state =
    AppendOnly append_only_state
  | Ring ring_state
  | MutableFixed mutable_fixed_state
  | SparsePaged sparse_paged_state
  | Opaque "byte list"

definition append_only :: "nat \<Rightarrow> nat \<Rightarrow> nat \<Rightarrow> wire_error + causal_state" where
  "append_only n_heads dim max_seq =
     (let size = saturating_mul_usize (saturating_mul_usize n_heads max_seq) dim in
      if alloc_ok size 4
      then Inr (AppendOnly \<lparr>ao_keys = replicate size 0, ao_values = replicate size 0, ao_position = 0,
        ao_n_heads = n_heads, ao_dim = dim\<rparr>)
      else Inl CapacityOverflow)"

definition ring :: "nat \<Rightarrow> nat \<Rightarrow> wire_error + causal_state" where
  "ring capacity width =
     (let size = saturating_mul_usize capacity width in
      if alloc_ok size 4
      then Inr (Ring \<lparr>ri_buffer = replicate size 0, ri_capacity = capacity,
        ri_write_pos = 0, ri_read_pos = 0, ri_len = 0\<rparr>)
      else Inl CapacityOverflow)"

definition mutable_fixed :: "nat \<Rightarrow> wire_error + causal_state" where
  "mutable_fixed capacity =
     (if alloc_ok capacity 4
      then Inr (MutableFixed \<lparr>mf_data = replicate capacity 0, mf_write_pos = 0, mf_len = 0,
        mf_has_wrapped = False\<rparr>)
      else Inl CapacityOverflow)"

text \<open>A table slot takes 16 bytes and a page vector 24.\<close>

definition sparse_paged :: "nat \<Rightarrow> nat \<Rightarrow> wire_error + causal_state" where
  "sparse_paged max_pages page_entries =
     (if alloc_ok max_pages 16 \<and> alloc_ok page_entries 4 \<and> alloc_ok max_pages 24
      then Inr (SparsePaged \<lparr>sp_page_table = replicate max_pages None,
        sp_pages = replicate max_pages (replicate page_entries 0),
        sp_page_entries = page_entries, sp_max_pages = max_pages, sp_pinned = False\<rparr>)
      else Inl CapacityOverflow)"

definition opaque_state :: "byte list \<Rightarrow> causal_state" where
  "opaque_state bs = Opaque bs"

fun state_position :: "causal_state \<Rightarrow> nat option" where
  "state_position (AppendOnly s) = Some (ao_position s)"
| "state_position (Ring s) = Some (ri_read_pos s)"
| "state_position (MutableFixed s) = Some (mf_write_pos s)"
| "state_position _ = None"

fun state_len :: "causal_state \<Rightarrow> nat option" where
  "state_len (AppendOnly s) = Some (ao_position s)"
| "state_len (Ring s) = Some (ri_len s)"
| "state_len (MutableFixed s) = Some (mf_len s)"
| "state_len (SparsePaged s) = Some (length (filter (\<lambda>p. p \<noteq> None) (sp_page_table s)))"
| "state_len (Opaque _) = None"

definition state_is_empty :: "causal_state \<Rightarrow> bool" where
  "state_is_empty s \<longleftrightarrow> state_len s = Some 0"

record state_schema_id =
  ss_engine :: rust_string
  ss_version :: nat
  ss_sub_version :: nat

definition new_schema_id :: "rust_string \<Rightarrow> nat \<Rightarrow> nat \<Rightarrow> state_schema_id" where
  "new_schema_id engine version sub =
     \<lparr>ss_engine = engine, ss_version = version, ss_sub_version = sub\<rparr>"

definition is_compatible_with :: "state_schema_id \<Rightarrow> state_schema_id \<Rightarrow> bool" where
  "is_compatible_with a b \<longleftrightarrow> ss_engine a = ss_engine b \<and> ss_version a = ss_version b"

section \<open>Schemas\<close>

datatype region_kind = RegAppendOnly | RegRing | RegMutableFixed | RegSparsePaged | RegOpaque

datatype data_type = F32 | F16 | BF16 | I64 | I32 | U8 | RawType

record state_region =
  sr_name :: string
  sr_kind :: region_kind
  sr_shape :: "nat list"
  sr_dtype :: data_type
  sr_paged :: bool
  sr_page_size :: "nat option"

record state_schema =
  sc_schema_id :: state_schema_id
  sc_model_fingerprint :: "byte list"
  sc_tokenizer_fingerprint :: "byte list"
  sc_template_fingerprint :: "byte list option"
  sc_regions :: "state_region list"

datatype schema_error =
    LacksMaxSeq string
  | CapacityTooSmall string nat nat
  | ZeroGeometry string
  | NoPageSize string
  | RegionOverflow string
  | RegionByteOverflow string
  | StateOverflow

fun data_size :: "data_type \<Rightarrow> nat" where
  "data_size F32 = 4"
| "data_size I32 = 4"
| "data_size F16 = 2"
| "data_size BF16 = 2"
| "data_size I64 = 8"
| "data_size U8 = 1"
| "data_size RawType = 1"

definition validate_region :: "nat \<Rightarrow> state_region \<Rightarrow> schema_error + unit" where
  "validate_region prefix_len r =
     (case sr_kind r of
        RegAppendOnly \<Rightarrow>
          (if length (sr_shape r) \<le> 1 then Inl (LacksMaxSeq (sr_name r))
           else if sr_shape r ! 1 < prefix_len
           then Inl (CapacityTooSmall (sr_name r) (sr_shape r ! 1) prefix_len)
           else Inr ())
      | RegRing \<Rightarrow> if sr_shape r = [] \<or> 0 \<in> set (sr_shape r) then Inl (ZeroGeometry (sr_name r)) else Inr ()
      | RegMutableFixed \<Rightarrow>
          if sr_shape r = [] \<or> 0 \<in> set (sr_shape r) then Inl (ZeroGeometry (sr_name r)) else Inr ()
      | RegSparsePaged \<Rightarrow>
          (case sr_page_size r of None \<Rightarrow> Inl (NoPageSize (sr_name r))
           | Some n \<Rightarrow> if n = 0 then Inl (NoPageSize (sr_name r)) else Inr ())
      | RegOpaque \<Rightarrow> Inr ())"

fun validate_regions :: "nat \<Rightarrow> state_region list \<Rightarrow> schema_error + unit" where
  "validate_regions n [] = Inr ()"
| "validate_regions n (r # rs) =
     (case validate_region n r of Inl e \<Rightarrow> Inl e | Inr _ \<Rightarrow> validate_regions n rs)"

definition validate_prefix :: "state_schema \<Rightarrow> nat \<Rightarrow> schema_error + unit" where
  "validate_prefix s n = validate_regions n (sc_regions s)"

fun checked_product_from :: "nat \<Rightarrow> nat list \<Rightarrow> nat option" where
  "checked_product_from acc [] = Some acc"
| "checked_product_from acc (x # xs) =
     (case checked_mul_usize acc x of None \<Rightarrow> None | Some p \<Rightarrow> checked_product_from p xs)"

definition checked_product :: "nat list \<Rightarrow> nat option" where
  "checked_product xs = checked_product_from 1 xs"

definition get_or :: "'a list \<Rightarrow> nat \<Rightarrow> 'a \<Rightarrow> 'a" where
  "get_or xs i d = (if i < length xs then xs ! i else d)"

definition region_elements :: "state_region \<Rightarrow> nat \<Rightarrow> nat option" where
  "region_elements r prefix_len =
     (case sr_kind r of
        RegAppendOnly \<Rightarrow>
          (case checked_mul_usize (get_or (sr_shape r) 0 1) prefix_len of
             None \<Rightarrow> None
           | Some v \<Rightarrow> checked_mul_usize v (get_or (sr_shape r) 2 1))
      | RegSparsePaged \<Rightarrow>
          checked_mul_usize (get_or (sr_shape r) 0 0)
            (case sr_page_size r of None \<Rightarrow> 0 | Some n \<Rightarrow> n)
      | _ \<Rightarrow> checked_product (sr_shape r))"

definition size_bytes :: "state_region \<Rightarrow> nat \<Rightarrow> schema_error + nat" where
  "size_bytes r prefix_len =
     (case region_elements r prefix_len of
        None \<Rightarrow> Inl (RegionOverflow (sr_name r))
      | Some n \<Rightarrow>
          (case checked_mul_usize n (data_size (sr_dtype r)) of
             None \<Rightarrow> Inl (RegionByteOverflow (sr_name r))
           | Some b \<Rightarrow> Inr b))"

fun sum_sizes :: "nat \<Rightarrow> nat \<Rightarrow> state_region list \<Rightarrow> schema_error + nat" where
  "sum_sizes prefix_len acc [] = Inr acc"
| "sum_sizes prefix_len acc (r # rs) =
     (case size_bytes r prefix_len of
        Inl e \<Rightarrow> Inl e
      | Inr b \<Rightarrow>
          (case checked_add_usize acc b of
             None \<Rightarrow> Inl StateOverflow
           | Some t \<Rightarrow> sum_sizes prefix_len t rs))"

definition state_size_bytes :: "state_schema \<Rightarrow> nat \<Rightarrow> schema_error + nat" where
  "state_size_bytes s prefix_len = sum_sizes prefix_len 0 (sc_regions s)"

section \<open>Pages\<close>

record page_id =
  pg_index :: nat
  pg_sub :: nat

record state_page =
  sg_id :: page_id
  sg_data :: "f32 list"
  sg_pinned :: bool
  sg_generation :: nat
  sg_refs :: nat

definition new_page_id :: "nat \<Rightarrow> nat \<Rightarrow> page_id" where
  "new_page_id i s = \<lparr>pg_index = i, pg_sub = s\<rparr>"

definition new_page :: "page_id \<Rightarrow> nat \<Rightarrow> nat \<Rightarrow> wire_error + state_page" where
  "new_page i capacity g =
     (if alloc_ok capacity 4
      then Inr \<lparr>sg_id = i, sg_data = replicate capacity 0, sg_pinned = False, sg_generation = g,
        sg_refs = 1\<rparr>
      else Inl CapacityOverflow)"

text \<open>\<^verbatim>\<open>x == 0.0\<close> holds for both zeros.\<close>

definition f32_is_zero :: "f32 \<Rightarrow> bool" where
  "f32_is_zero x \<longleftrightarrow> x = 0 \<or> x = 0x80000000"

definition page_is_empty :: "state_page \<Rightarrow> bool" where
  "page_is_empty p \<longleftrightarrow> list_all f32_is_zero (sg_data p)"

definition is_evictable :: "state_page \<Rightarrow> bool" where
  "is_evictable p \<longleftrightarrow> \<not> sg_pinned p \<and> sg_refs p = 1"

definition pin_page :: "state_page \<Rightarrow> state_page" where
  "pin_page p = p\<lparr>sg_pinned := True\<rparr>"

definition unpin_page :: "state_page \<Rightarrow> state_page" where
  "unpin_page p = p\<lparr>sg_pinned := False\<rparr>"

section \<open>Size accounting is exact\<close>

text \<open>The size a region has, without machine arithmetic.\<close>

definition region_size :: "state_region \<Rightarrow> nat \<Rightarrow> nat" where
  "region_size r n =
     (case sr_kind r of
        RegAppendOnly \<Rightarrow> get_or (sr_shape r) 0 1 * n * get_or (sr_shape r) 2 1
      | RegSparsePaged \<Rightarrow> get_or (sr_shape r) 0 0 * (case sr_page_size r of None \<Rightarrow> 0 | Some n \<Rightarrow> n)
      | _ \<Rightarrow> prod_list (sr_shape r)) * data_size (sr_dtype r)"

text \<open>
  The products the code forms on its way to a region's size, in its order, each of
  which has to fit: a later zero dimension does not undo an overflow.
\<close>

fun running_products :: "nat \<Rightarrow> nat list \<Rightarrow> nat list" where
  "running_products acc [] = []"
| "running_products acc (x # xs) = acc * x # running_products (acc * x) xs"

definition region_products :: "state_region \<Rightarrow> nat \<Rightarrow> nat list" where
  "region_products r n =
     (case sr_kind r of
        RegAppendOnly \<Rightarrow>
          running_products (get_or (sr_shape r) 0 1) [n, get_or (sr_shape r) 2 1, data_size (sr_dtype r)]
      | RegSparsePaged \<Rightarrow>
          running_products (get_or (sr_shape r) 0 0)
            [case sr_page_size r of None \<Rightarrow> 0 | Some n \<Rightarrow> n, data_size (sr_dtype r)]
      | _ \<Rightarrow> running_products 1 (sr_shape r @ [data_size (sr_dtype r)]))"

text \<open>What a region may hold at most: an append-only one up to its declared \<^verbatim>\<open>max_seq\<close>.\<close>

definition region_ceiling :: "state_region \<Rightarrow> nat" where
  "region_ceiling r =
     (if sr_kind r = RegAppendOnly then region_size r (sr_shape r ! 1) else region_size r 0)"

lemma data_size_pos: "0 < data_size d"
  by (cases d) simp_all

lemma checked_product_from_iff:
  "checked_product_from acc xs =
     (if \<forall>p \<in> set (running_products acc xs). p \<le> usize_max then Some (acc * prod_list xs) else None)"
  by (induction xs arbitrary: acc) (auto simp: checked_mul_usize_def mult.assoc)

lemma checked_product_from_snoc:
  "checked_product_from acc (xs @ [y]) =
     (case checked_product_from acc xs of None \<Rightarrow> None | Some p \<Rightarrow> checked_mul_usize p y)"
  by (induction xs arbitrary: acc) (auto split: option.split)

lemma size_bytes_iff:
  "size_bytes r n = Inr b \<longleftrightarrow> b = region_size r n \<and> (\<forall>p \<in> set (region_products r n). p \<le> usize_max)"
proof (cases "sr_kind r = RegAppendOnly \<or> sr_kind r = RegSparsePaged")
  case True
  then show ?thesis
    by (auto simp: size_bytes_def region_elements_def region_size_def region_products_def checked_mul_usize_def
        split: option.splits if_splits)
next
  case False
  let ?d = "data_size (sr_dtype r)"
  have "size_bytes r n = Inr b \<longleftrightarrow> checked_product_from 1 (sr_shape r @ [?d]) = Some b"
    using False by (cases "sr_kind r")
      (auto simp: size_bytes_def region_elements_def checked_product_def checked_product_from_snoc split: option.splits)
  also have "\<dots> \<longleftrightarrow> b = region_size r n \<and> (\<forall>p \<in> set (region_products r n). p \<le> usize_max)"
    using False by (cases "sr_kind r") (auto simp: checked_product_from_iff region_size_def region_products_def)
  finally show ?thesis .
qed

lemma sum_sizes_iff:
  "acc \<le> usize_max \<Longrightarrow> sum_sizes n acc rs = Inr b \<longleftrightarrow>
     b = acc + (\<Sum>r \<leftarrow> rs. region_size r n) \<and> b \<le> usize_max \<and>
     (\<forall>r \<in> set rs. \<forall>p \<in> set (region_products r n). p \<le> usize_max)"
proof (induction rs arbitrary: acc)
  case (Cons r rs)
  show ?case
  proof (cases "size_bytes r n")
    case (Inl e)
    with size_bytes_iff [of r n "region_size r n"] have "\<not> (\<forall>p \<in> set (region_products r n). p \<le> usize_max)" by auto
    with Inl show ?thesis by auto
  next
    case (Inr x)
    with size_bytes_iff [of r n x] have "x = region_size r n" "\<forall>p \<in> set (region_products r n). p \<le> usize_max"
      by auto
    with Inr Cons show ?thesis by (auto simp: checked_add_usize_def)
  qed
qed auto

text \<open>Without zero dimensions the last product is the largest, so only the true size counts.\<close>

lemma running_products_le:
  "0 \<notin> set xs \<Longrightarrow> p \<in> set (running_products acc xs) \<Longrightarrow> p \<le> acc * prod_list xs"
proof (induction xs arbitrary: acc)
  case (Cons x xs)
  have "0 < prod_list xs" using Cons.prems(1) by (induction xs) auto
  then have "acc * x \<le> acc * x * prod_list xs" by simp
  with Cons.IH [of "acc * x"] Cons.prems show ?case by (auto simp: mult.assoc)
qed simp

lemma get_or_pos: "(0 :: nat) \<notin> set xs \<Longrightarrow> 0 < d \<Longrightarrow> 0 < get_or xs i d"
  by (auto simp: get_or_def) (metis neq0_conv nth_mem)

lemma region_products_le:
  assumes "0 \<notin> set (sr_shape r)" "p \<in> set (region_products r n)"
  shows "p \<le> region_size r n"
proof (cases "sr_kind r = RegAppendOnly \<or> sr_kind r = RegSparsePaged")
  case True
  let ?d = "data_size (sr_dtype r)"
  have "a \<le> a * k" if "0 < k" for a k :: nat using that by simp
  from this [OF data_size_pos] this [OF get_or_pos [OF assms(1), of 1 2]] True assms(2) show ?thesis
    by (auto simp: region_products_def region_size_def split: option.splits intro: order_trans)
next
  case False
  with assms running_products_le [of "sr_shape r @ [data_size (sr_dtype r)]" p 1] data_size_pos [of "sr_dtype r"]
  show ?thesis by (cases "sr_kind r") (auto simp: region_products_def region_size_def)
qed

text \<open>
  Overflow errors name their cause: the element product of a region, its byte
  product, or the running sum; no other error occurs.
\<close>

lemma sum_sizes_error:
  "sum_sizes n acc rs = Inl e \<Longrightarrow>
     e = StateOverflow \<or> (\<exists>r \<in> set rs. e = RegionOverflow (sr_name r) \<or> e = RegionByteOverflow (sr_name r))"
  by (induction rs arbitrary: acc)
    (auto simp: size_bytes_def split: sum.splits option.splits)

lemma validate_regions_iff: "validate_regions n rs = Inr () \<longleftrightarrow> (\<forall>r \<in> set rs. validate_region n r = Inr ())"
  by (induction rs) (auto split: sum.split)

lemma region_size_ceiling: "validate_region n r = Inr () \<Longrightarrow> region_size r n \<le> region_ceiling r"
  by (cases "sr_kind r")
    (auto simp: validate_region_def region_ceiling_def region_size_def split: if_splits intro!: mult_le_mono)

text \<open>
  C10: The admission size of a causal-state schema is exact.
  \<^verbatim>\<open>state_size_bytes\<close> succeeds precisely when the sum over the regions of their true
  sizes at the given prefix length fits a \<^verbatim>\<open>usize\<close> and so does every product formed on
  the way to each region's size, in the code's order of factors; it then returns
  that sum, and otherwise an overflow error of a region of the schema or of the sum.
  The second condition only bites with a zero dimension (the shape
  \<open>[2^40, 2^40, 0]\<close> has size 0 and is refused): when no region has one, the
  function succeeds precisely when the true size fits.  And at a prefix length that
  \<^verbatim>\<open>validate_prefix\<close> admits, the true size stays below the sum of the declared
  ceilings.
\<close>

theorem state_size_exact:
  "(state_size_bytes s n = Inr b \<longleftrightarrow>
      b = (\<Sum>r \<leftarrow> sc_regions s. region_size r n) \<and> b \<le> usize_max \<and>
      (\<forall>r \<in> set (sc_regions s). \<forall>p \<in> set (region_products r n). p \<le> usize_max)) \<and>
    (state_size_bytes s n = Inl e \<longrightarrow> e = StateOverflow \<or>
      (\<exists>r \<in> set (sc_regions s). e = RegionOverflow (sr_name r) \<or> e = RegionByteOverflow (sr_name r))) \<and>
    ((\<forall>r \<in> set (sc_regions s). 0 \<notin> set (sr_shape r)) \<longrightarrow>
      (state_size_bytes s n = Inr b \<longleftrightarrow>
        b = (\<Sum>r \<leftarrow> sc_regions s. region_size r n) \<and> b \<le> usize_max)) \<and>
    (validate_prefix s n = Inr () \<longrightarrow>
      (\<Sum>r \<leftarrow> sc_regions s. region_size r n) \<le> (\<Sum>r \<leftarrow> sc_regions s. region_ceiling r))"
proof (intro conjI impI)
  show exact: "state_size_bytes s n = Inr b \<longleftrightarrow>
      b = (\<Sum>r \<leftarrow> sc_regions s. region_size r n) \<and> b \<le> usize_max \<and>
      (\<forall>r \<in> set (sc_regions s). \<forall>p \<in> set (region_products r n). p \<le> usize_max)"
    using sum_sizes_iff [of 0 n "sc_regions s" b] by (simp add: state_size_bytes_def)
  show "e = StateOverflow \<or> (\<exists>r \<in> set (sc_regions s). e = RegionOverflow (sr_name r) \<or> e = RegionByteOverflow (sr_name r))"
    if "state_size_bytes s n = Inl e" using sum_sizes_error that by (simp add: state_size_bytes_def)
  show "state_size_bytes s n = Inr b \<longleftrightarrow> b = (\<Sum>r \<leftarrow> sc_regions s. region_size r n) \<and> b \<le> usize_max"
    if pos: "\<forall>r \<in> set (sc_regions s). 0 \<notin> set (sr_shape r)"
  proof -
    have "p \<le> (\<Sum>r \<leftarrow> sc_regions s. region_size r n)"
      if "r \<in> set (sc_regions s)" "p \<in> set (region_products r n)" for r p
    proof (rule order_trans)
      show "p \<le> region_size r n" using pos that region_products_le by blast
      show "region_size r n \<le> (\<Sum>r \<leftarrow> sc_regions s. region_size r n)" using that(1) by (intro member_le_sum_list) auto
    qed
    then show ?thesis unfolding exact by fastforce
  qed
  show "(\<Sum>r \<leftarrow> sc_regions s. region_size r n) \<le> (\<Sum>r \<leftarrow> sc_regions s. region_ceiling r)" if "validate_prefix s n = Inr ()"
    using that by (intro sum_list_mono) (simp add: validate_prefix_def validate_regions_iff region_size_ceiling)
qed

definition demo_schema :: state_schema where
  "demo_schema = \<lparr>sc_schema_id = new_schema_id [] 1 0, sc_model_fingerprint = [], sc_tokenizer_fingerprint = [],
     sc_template_fingerprint = None,
     sc_regions = [\<lparr>sr_name = ''kv'', sr_kind = RegAppendOnly, sr_shape = [8, 4096, 64], sr_dtype = F32,
       sr_paged = False, sr_page_size = None\<rparr>]\<rparr>"

definition zero_schema :: state_schema where
  "zero_schema = demo_schema\<lparr>sc_regions := [\<lparr>sr_name = ''z'', sr_kind = RegOpaque,
     sr_shape = [2 ^ 40, 2 ^ 40, 0], sr_dtype = U8, sr_paged = False, sr_page_size = None\<rparr>]\<rparr>"

theorem state_size_exact_witness:
  "state_size_bytes demo_schema 100 = Inr 204800 \<and> state_size_bytes zero_schema 100 \<noteq> Inr 0 \<and>
   (\<Sum>r \<leftarrow> sc_regions demo_schema. region_size r 100) \<le> 8388608"
  using state_size_exact [of demo_schema 100 204800] state_size_exact [of zero_schema 100 0]
  by (simp add: demo_schema_def zero_schema_def region_size_def region_products_def region_ceiling_def get_or_def
      usize_max_def validate_prefix_def validate_region_def)

end
