(* ===== verification/Transactions.thy ===== *)
theory Transactions
  imports Causal_State Trace_Replay
begin

text \<open>
  Generation-safe causal-state transactions
  (\<^verbatim>\<open>logan-core/src/state/transaction.rs\<close>).  The process-wide counter of manager
  identifiers is passed in and returned.
\<close>

section \<open>The manager\<close>

record transaction_checkpoint =
  tc_manager_id :: nat
  tc_generation :: nat
  tc_transaction_id :: nat
  tc_schema_id :: state_schema_id

datatype transaction_result = Committed | RolledBack | StaleCheckpoint | WrongSession | Cancelled

record transaction_info =
  ti_checkpoint :: transaction_checkpoint
  ti_state :: causal_state

record transaction_manager =
  tm_manager_id :: nat
  tm_schema_id :: state_schema_id
  tm_current_generation :: nat
  tm_next_transaction_id :: nat
  tm_active :: "transaction_info list"

definition new_transaction_manager :: "state_schema_id \<Rightarrow> nat \<Rightarrow> transaction_manager \<times> nat" where
  "new_transaction_manager schema next_id =
     (\<lparr>tm_manager_id = max next_id 1, tm_schema_id = schema, tm_current_generation = 0,
       tm_next_transaction_id = 1, tm_active = []\<rparr>,
      wrapping_add_u64 next_id 1)"

definition begin_transaction ::
  "causal_state \<Rightarrow> transaction_manager \<Rightarrow> transaction_checkpoint \<times> transaction_manager" where
  "begin_transaction s m =
     (let cp = \<lparr>tc_manager_id = tm_manager_id m, tc_generation = tm_current_generation m,
            tc_transaction_id = tm_next_transaction_id m, tc_schema_id = tm_schema_id m\<rparr>
      in (cp, m\<lparr>tm_next_transaction_id := max (wrapping_add_u64 (tm_next_transaction_id m) 1) 1,
                tm_active := tm_active m @ [\<lparr>ti_checkpoint = cp, ti_state = s\<rparr>]\<rparr>))"

fun position_of :: "('a \<Rightarrow> bool) \<Rightarrow> 'a list \<Rightarrow> nat option" where
  "position_of P [] = None"
| "position_of P (x # xs) = (if P x then Some 0 else map_option Suc (position_of P xs))"

definition validate_checkpoint ::
  "transaction_manager \<Rightarrow> transaction_checkpoint \<Rightarrow> transaction_result + nat" where
  "validate_checkpoint m cp =
     (if tc_manager_id cp \<noteq> tm_manager_id m \<or> tc_schema_id cp \<noteq> tm_schema_id m then Inl WrongSession
      else if tc_generation cp \<noteq> tm_current_generation m then Inl StaleCheckpoint
      else case position_of (\<lambda>info. ti_checkpoint info = cp) (tm_active m) of
             None \<Rightarrow> Inl StaleCheckpoint
           | Some i \<Rightarrow> Inr i)"

definition advance_generation :: "transaction_manager \<Rightarrow> transaction_manager" where
  "advance_generation m =
     m\<lparr>tm_current_generation := wrapping_add_u64 (tm_current_generation m) 1, tm_active := []\<rparr>"

definition remove_active :: "nat \<Rightarrow> transaction_manager \<Rightarrow> transaction_manager" where
  "remove_active i m = m\<lparr>tm_active := take i (tm_active m) @ drop (Suc i) (tm_active m)\<rparr>"

definition commit :: "transaction_checkpoint \<Rightarrow> transaction_manager \<Rightarrow> transaction_result \<times> transaction_manager" where
  "commit cp m =
     (case validate_checkpoint m cp of
        Inr i \<Rightarrow> (Committed, advance_generation (remove_active i m))
      | Inl r \<Rightarrow> (r, m))"

definition rollback ::
  "transaction_checkpoint \<Rightarrow> causal_state \<Rightarrow> transaction_manager \<Rightarrow>
     transaction_result \<times> causal_state \<times> transaction_manager" where
  "rollback cp s m =
     (case validate_checkpoint m cp of
        Inr i \<Rightarrow> (RolledBack, ti_state (tm_active m ! i), advance_generation (remove_active i m))
      | Inl r \<Rightarrow> (r, s, m))"

definition retain_prefix ::
  "transaction_checkpoint \<Rightarrow> causal_state \<Rightarrow> transaction_manager \<Rightarrow>
     transaction_result \<times> causal_state \<times> transaction_manager" where
  "retain_prefix cp s m = rollback cp s m"

definition cancel_transactions :: "transaction_manager \<Rightarrow> transaction_result \<times> transaction_manager" where
  "cancel_transactions m =
     (Cancelled, m\<lparr>tm_active := [],
        tm_current_generation := wrapping_add_u64 (tm_current_generation m) 1\<rparr>)"

definition is_valid_checkpoint :: "transaction_manager \<Rightarrow> transaction_checkpoint \<Rightarrow> bool" where
  "is_valid_checkpoint m cp \<longleftrightarrow> (\<exists>i. validate_checkpoint m cp = Inr i)"

text \<open>The operations of a session that owns a manager and its live state.\<close>

datatype txn_op =
    BeginTxn
  | CommitTxn transaction_checkpoint
  | RollbackTxn transaction_checkpoint
  | RetainTxn transaction_checkpoint
  | CancelTxn
  | Mutate causal_state

fun txn_step :: "causal_state \<times> transaction_manager \<Rightarrow> txn_op \<Rightarrow> causal_state \<times> transaction_manager" where
  "txn_step (s, m) BeginTxn = (s, snd (begin_transaction s m))"
| "txn_step (s, m) (CommitTxn cp) = (s, snd (commit cp m))"
| "txn_step (s, m) (RollbackTxn cp) = snd (rollback cp s m)"
| "txn_step (s, m) (RetainTxn cp) = snd (retain_prefix cp s m)"
| "txn_step (s, m) CancelTxn = (s, snd (cancel_transactions m))"
| "txn_step (s, m) (Mutate s') = (s', m)"

section \<open>The invariant\<close>

definition txn_ok :: "transaction_manager \<Rightarrow> bool" where
  "txn_ok m \<longleftrightarrow>
     distinct (map (tc_transaction_id \<circ> ti_checkpoint) (tm_active m))
   \<and> (\<forall>i \<in> set (tm_active m). tc_transaction_id (ti_checkpoint i) < tm_next_transaction_id m
        \<and> tc_generation (ti_checkpoint i) = tm_current_generation m
        \<and> tc_manager_id (ti_checkpoint i) = tm_manager_id m
        \<and> tc_schema_id (ti_checkpoint i) = tm_schema_id m)"

definition txn_room :: "causal_state \<times> transaction_manager \<Rightarrow> nat \<Rightarrow> bool" where
  "txn_room sm n \<longleftrightarrow> txn_ok (snd sm) \<and> tm_next_transaction_id (snd sm) + n \<le> u64_max"

lemma next_id_step:
  "tm_next_transaction_id m < u64_max \<Longrightarrow>
     max (wrapping_add_u64 (tm_next_transaction_id m) (Suc 0)) (Suc 0) = Suc (tm_next_transaction_id m)"
  by (simp add: wrapping_add_u64_below)

lemma txn_ok_cleared: "tm_active m = [] \<Longrightarrow> txn_ok m"
  by (simp add: txn_ok_def)

lemma commit_next: "tm_next_transaction_id (snd (commit cp m)) = tm_next_transaction_id m"
  and rollback_next: "tm_next_transaction_id (snd (snd (rollback cp s m))) = tm_next_transaction_id m"
  by (auto simp: commit_def rollback_def advance_generation_def remove_active_def split: sum.split)

lemma commit_ok: "txn_ok m \<Longrightarrow> txn_ok (snd (commit cp m))"
  and rollback_ok: "txn_ok m \<Longrightarrow> txn_ok (snd (snd (rollback cp s m)))"
  by (auto simp: commit_def rollback_def advance_generation_def txn_ok_cleared split: sum.split)

lemma begin_ok:
  "txn_ok m \<Longrightarrow> tm_next_transaction_id m < u64_max \<Longrightarrow> txn_ok (snd (begin_transaction s m))"
  by (fastforce simp: begin_transaction_def Let_def txn_ok_def next_id_step)

lemma txn_room_step: "txn_room sm (Suc n) \<Longrightarrow> txn_room (txn_step sm op) n"
proof -
  assume room: "txn_room sm (Suc n)"
  obtain s m where sm: "sm = (s, m)" by force
  from room sm have ok: "txn_ok m" and lim: "tm_next_transaction_id m + Suc n \<le> u64_max"
    by (simp_all add: txn_room_def)
  show ?thesis
  proof (cases op)
    case BeginTxn
    with ok lim begin_ok [OF ok] show ?thesis
      by (simp add: sm txn_room_def) (simp add: begin_transaction_def Let_def next_id_step)
  qed (use ok lim in \<open>auto simp: sm txn_room_def commit_ok rollback_ok commit_next rollback_next retain_prefix_def
      cancel_transactions_def txn_ok_cleared\<close>)
qed

interpretation txn: bounded_machine txn_step "\<lambda>_. True" txn_room
  by unfold_locales (simp add: txn_room_step, simp add: txn_room_def)

section \<open>Rollback and staleness\<close>

lemma position_of_Some:
  "position_of P xs = Some i \<Longrightarrow> i < length xs \<and> P (xs ! i)"
  by (induction xs arbitrary: i) (auto split: if_splits)

lemma position_of_None: "position_of P xs = None \<longleftrightarrow> (\<forall>x \<in> set xs. \<not> P x)"
  by (induction xs) auto

lemma valid_iff:
  "is_valid_checkpoint m cp \<longleftrightarrow>
     tc_manager_id cp = tm_manager_id m \<and> tc_schema_id cp = tm_schema_id m \<and>
     tc_generation cp = tm_current_generation m \<and> (\<exists>info \<in> set (tm_active m). ti_checkpoint info = cp)"
  using position_of_None [of "\<lambda>info. ti_checkpoint info = cp" "tm_active m"]
  by (auto simp: is_valid_checkpoint_def validate_checkpoint_def split: option.split)

text \<open>\<open>captures cp s\<close>: the checkpoint has been issued, and an active entry for it holds \<open>s\<close>.\<close>

definition captures :: "transaction_checkpoint \<Rightarrow> causal_state \<Rightarrow> transaction_manager \<Rightarrow> bool" where
  "captures cp s m \<longleftrightarrow>
     tc_transaction_id cp < tm_next_transaction_id m
   \<and> (\<forall>info \<in> set (tm_active m). ti_checkpoint info = cp \<longrightarrow> ti_state info = s)"

definition retired :: "transaction_checkpoint \<Rightarrow> transaction_manager \<Rightarrow> bool" where
  "retired cp m \<longleftrightarrow>
     tc_transaction_id cp < tm_next_transaction_id m \<and> (\<forall>info \<in> set (tm_active m). ti_checkpoint info \<noteq> cp)"

lemma active_step:
  assumes room: "txn_room (s, m) (Suc n)" and old: "tc_transaction_id cp < tm_next_transaction_id m"
  shows "tc_transaction_id cp < tm_next_transaction_id (snd (txn_step (s, m) op))"
    and "info \<in> set (tm_active (snd (txn_step (s, m) op))) \<Longrightarrow> ti_checkpoint info = cp \<Longrightarrow>
      info \<in> set (tm_active m)"
proof -
  have lim: "tm_next_transaction_id m < u64_max" using room by (simp add: txn_room_def)
  show "tc_transaction_id cp < tm_next_transaction_id (snd (txn_step (s, m) op))"
    using old lim by (cases op) (auto simp: commit_next rollback_next retain_prefix_def cancel_transactions_def
        begin_transaction_def Let_def next_id_step)
  show "info \<in> set (tm_active (snd (txn_step (s, m) op))) \<Longrightarrow> ti_checkpoint info = cp \<Longrightarrow>
      info \<in> set (tm_active m)"
    using old by (cases op) (auto simp: commit_def rollback_def retain_prefix_def cancel_transactions_def
        begin_transaction_def advance_generation_def Let_def split: sum.splits)
qed

lemma captures_run:
  assumes "txn_room sm (length ops)" "captures cp s (snd sm)"
  shows "captures cp s (snd (foldl txn_step sm ops))"
proof (rule txn.stable_run [where P = "\<lambda>sm. captures cp s (snd sm)" and Q = "\<lambda>_. True", OF assms(1)])
  fix sm n op
  assume "txn_room sm (Suc n)" "captures cp s (snd sm)"
  then show "captures cp s (snd (txn_step sm op))"
    using active_step [where s = "fst sm" and m = "snd sm" and op = op and cp = cp]
    by (auto simp: captures_def)
qed (use assms in \<open>simp_all add: list_all_iff\<close>)

lemma retired_run:
  assumes "txn_room sm (length ops)" "retired cp (snd sm)"
  shows "retired cp (snd (foldl txn_step sm ops))"
proof (rule txn.stable_run [where P = "\<lambda>sm. retired cp (snd sm)" and Q = "\<lambda>_. True", OF assms(1)])
  fix sm n op
  assume "txn_room sm (Suc n)" "retired cp (snd sm)"
  then show "retired cp (snd (txn_step sm op))"
    using active_step [where s = "fst sm" and m = "snd sm" and op = op and cp = cp]
    by (auto simp: retired_def)
qed (use assms in \<open>simp_all add: list_all_iff\<close>)

lemma new_txn_room:
  "n < u64_max \<Longrightarrow> txn_room (s, fst (new_transaction_manager schema k)) n"
  by (simp add: txn_room_def new_transaction_manager_def txn_ok_def)

lemma begin_captures:
  assumes room: "txn_room (s, m) (Suc n)" and b: "begin_transaction s m = (cp, m')"
  shows "captures cp s m'"
proof -
  have ok: "txn_ok m" and lim: "tm_next_transaction_id m < u64_max" using room by (simp_all add: txn_room_def)
  have old: "ti_checkpoint i \<noteq> cp" if "i \<in> set (tm_active m)" for i
    using ok that b by (auto simp: txn_ok_def begin_transaction_def Let_def)
  have "captures cp s (snd (begin_transaction s m))"
    using lim b old by (auto simp: captures_def begin_transaction_def Let_def next_id_step)
  then show ?thesis by (simp add: b)
qed

text \<open>
  C13: Rollback restores the captured state exactly.  Whatever a session does
  after beginning a transaction (mutations, further transactions, failed
  operations on other checkpoints), as long as the checkpoint is still valid a
  rollback to it gives back precisely the state the session had when it began,
  and empties the table of active checkpoints.
\<close>

theorem rollback_restores:
  assumes "length ops + length rest < u64_max - 1"
    and "(s1, m1) = foldl txn_step (s0, fst (new_transaction_manager schema k)) ops"
    and "(cp, m2) = begin_transaction s1 m1"
    and "(s3, m3) = foldl txn_step (s1, m2) rest"
    and valid: "is_valid_checkpoint m3 cp"
  shows "\<exists>m4. rollback cp s3 m3 = (RolledBack, s1, m4) \<and> tm_active m4 = [] \<and> \<not> is_valid_checkpoint m4 cp"
proof -
  have room1: "txn_room (s1, m1) (Suc (length rest))"
    unfolding assms(2) by (rule txn.room_run) (use assms(1) in \<open>auto intro!: new_txn_room simp: list_all_iff\<close>)
  have m2: "txn_step (s1, m1) BeginTxn = (s1, m2)" by (simp add: assms(3) [symmetric])
  have "captures cp s1 (snd (foldl txn_step (s1, m2) rest))"
    using txn_room_step [OF room1, of BeginTxn, unfolded m2] begin_captures [OF room1 assms(3) [symmetric]]
    by (intro captures_run) simp_all
  then have cap: "captures cp s1 m3" by (simp add: assms(4) [symmetric])
  from valid obtain i where i: "validate_checkpoint m3 cp = Inr i" by (auto simp: is_valid_checkpoint_def)
  then have "i < length (tm_active m3)" "ti_checkpoint (tm_active m3 ! i) = cp"
    by (auto simp: validate_checkpoint_def dest: position_of_Some split: if_splits option.splits)
  with cap have "ti_state (tm_active m3 ! i) = s1" by (simp add: captures_def)
  with i show ?thesis by (simp add: rollback_def advance_generation_def valid_iff)
qed

definition demo_txn :: transaction_manager where
  "demo_txn = fst (new_transaction_manager (new_schema_id [] 1 0) 1)"

definition demo_cp :: transaction_checkpoint where
  "demo_cp = \<lparr>tc_manager_id = 1, tc_generation = 0, tc_transaction_id = 1, tc_schema_id = new_schema_id [] 1 0\<rparr>"

lemmas txn_eval = demo_txn_def demo_cp_def new_transaction_manager_def begin_transaction_def Let_def
  validate_checkpoint_def is_valid_checkpoint_def rust_int

theorem rollback_restores_witness:
  "\<exists>m4. rollback demo_cp (Opaque [9]) (snd (foldl txn_step (Opaque [1], snd (begin_transaction (Opaque [1]) demo_txn))
     [Mutate (Opaque [9]), BeginTxn])) = (RolledBack, Opaque [1], m4)"
proof -
  let ?m = "snd (begin_transaction (Opaque [1]) demo_txn)"
  let ?r = "foldl txn_step (Opaque [1], ?m) [Mutate (Opaque [9]), BeginTxn]"
  have "(Opaque [1], demo_txn) = foldl txn_step (Opaque [1], fst (new_transaction_manager (new_schema_id [] 1 0) 1)) []"
    "(demo_cp, ?m) = begin_transaction (Opaque [1]) demo_txn" "(Opaque [9], snd ?r) = ?r"
    "is_valid_checkpoint (snd ?r) demo_cp"
    by (simp_all add: txn_eval)
  from rollback_restores [OF _ this] show ?thesis by (auto simp: u64_max_def)
qed

text \<open>
  A checkpoint is used at most once and dies with its generation.  After a
  successful commit or rollback of any checkpoint, or a cancellation, no
  checkpoint issued before is ever valid again: committing it is refused, and
  rolling back to it is refused and changes neither the live state nor the
  manager.
\<close>

lemma checkpoint_never_revived:
  assumes "length ops + length rest < u64_max - 1"
    and "(s1, m1) = foldl txn_step (s0, fst (new_transaction_manager schema k)) ops"
    and issued: "tc_transaction_id cp < tm_next_transaction_id m1"
    and ends: "op = CommitTxn other \<and> is_valid_checkpoint m1 other \<or>
      op = RollbackTxn other \<and> is_valid_checkpoint m1 other \<or> op = CancelTxn"
    and "(s3, m3) = foldl txn_step (txn_step (s1, m1) op) rest"
  shows "\<not> is_valid_checkpoint m3 cp \<and> snd (commit cp m3) = m3 \<and> fst (commit cp m3) \<noteq> Committed \<and>
    snd (rollback cp s m3) = (s, m3)"
proof -
  have room1: "txn_room (s1, m1) (Suc (length rest))"
    unfolding assms(2) by (rule txn.room_run) (use assms(1) in \<open>auto intro!: new_txn_room simp: list_all_iff\<close>)
  have "tm_active (snd (txn_step (s1, m1) op)) = []"
    using ends by (auto simp: is_valid_checkpoint_def commit_def rollback_def advance_generation_def
        cancel_transactions_def)
  then have "retired cp (snd (txn_step (s1, m1) op))"
    using active_step(1) [OF room1 issued, of op] by (simp add: retired_def)
  then have "retired cp (snd (foldl txn_step (txn_step (s1, m1) op) rest))"
    by (rule retired_run [OF txn_room_step [OF room1]])
  then have "retired cp m3" by (simp add: assms(5) [symmetric])
  then have stale: "\<not> is_valid_checkpoint m3 cp" by (auto simp: retired_def valid_iff)
  have "Inl Committed \<noteq> validate_checkpoint m3 cp"
    by (simp add: validate_checkpoint_def split: option.split)
  with stale show ?thesis
    by (cases "validate_checkpoint m3 cp") (auto simp: is_valid_checkpoint_def commit_def rollback_def)
qed

end
