(* ===== verification/Prefix_Key.thy ===== *)
theory Prefix_Key
  imports Wire "HOL-Library.Sublist"
begin

text \<open>
  Prefix identity (\<^verbatim>\<open>logan-core/src/prefix/key.rs\<close>): fingerprints, cache keys that
  retain their tokens, and the token hash.  SHA-256 is the parameter \<open>sha\<close>.
\<close>

type_synonym token = nat

text \<open>The four fingerprint types wrap a 32-byte digest each.\<close>

datatype model_fingerprint = ModelFingerprint (model_digest: "byte list")

datatype tokenizer_fingerprint = TokenizerFingerprint (tokenizer_digest: "byte list")

datatype state_schema_fingerprint = StateSchemaFingerprint (schema_digest: "byte list")

datatype plan_fingerprint = PlanFingerprint (plan_digest: "byte list")

record prefix_fingerprint =
  pf_model :: model_fingerprint
  pf_state_schema :: state_schema_fingerprint
  pf_tokenizer :: tokenizer_fingerprint
  pf_plan :: plan_fingerprint
  pf_prefix_token_hash :: nat
  pf_prefix_len :: nat

definition new_fingerprint ::
  "model_fingerprint \<Rightarrow> state_schema_fingerprint \<Rightarrow> tokenizer_fingerprint \<Rightarrow> plan_fingerprint \<Rightarrow> nat \<Rightarrow> nat \<Rightarrow>
     prefix_fingerprint" where
  "new_fingerprint m s t p h n =
     \<lparr>pf_model = m, pf_state_schema = s, pf_tokenizer = t, pf_plan = p, pf_prefix_token_hash = h,
      pf_prefix_len = n\<rparr>"

definition fp_same_contract :: "prefix_fingerprint \<Rightarrow> prefix_fingerprint \<Rightarrow> bool" where
  "fp_same_contract a b \<longleftrightarrow>
     pf_model a = pf_model b \<and> pf_state_schema a = pf_state_schema b
   \<and> pf_tokenizer a = pf_tokenizer b \<and> pf_plan a = pf_plan b"

definition fp_is_compatible_with :: "prefix_fingerprint \<Rightarrow> prefix_fingerprint \<Rightarrow> bool" where
  "fp_is_compatible_with a b \<longleftrightarrow>
     fp_same_contract a b \<and> pf_prefix_token_hash a = pf_prefix_token_hash b
   \<and> pf_prefix_len a = pf_prefix_len b"

record prefix_key =
  pk_model :: model_fingerprint
  pk_state_schema :: state_schema_fingerprint
  pk_tokenizer :: tokenizer_fingerprint
  pk_plan :: plan_fingerprint
  pk_tokens :: "token list"
  pk_token_hash :: nat

text \<open>The byte strings \<^verbatim>\<open>b"logan-prefix-tokens-v1"\<close> and \<^verbatim>\<open>b"logan-prefix-salt-v1"\<close>.\<close>

definition ascii :: "string \<Rightarrow> byte list" where
  "ascii s = map (\<lambda>c. word_of_nat (of_char c)) s"

definition checksum_tokens :: "(byte list \<Rightarrow> byte list) \<Rightarrow> token list \<Rightarrow> byte list" where
  "checksum_tokens sha ts = sha (ascii ''logan-prefix-tokens-v1'' @ concat (map (le_bytes 4) ts))"

definition hash_tokens :: "(byte list \<Rightarrow> byte list) \<Rightarrow> token list \<Rightarrow> nat" where
  "hash_tokens sha ts = le_nat (take 8 (checksum_tokens sha ts))"

definition new_prefix_key ::
  "(byte list \<Rightarrow> byte list) \<Rightarrow> model_fingerprint \<Rightarrow> state_schema_fingerprint \<Rightarrow> tokenizer_fingerprint \<Rightarrow>
     plan_fingerprint \<Rightarrow> token list \<Rightarrow> prefix_key" where
  "new_prefix_key sha m s t p ts =
     \<lparr>pk_model = m, pk_state_schema = s, pk_tokenizer = t, pk_plan = p, pk_tokens = ts,
      pk_token_hash = hash_tokens sha ts\<rparr>"

definition key_prefix_len :: "prefix_key \<Rightarrow> nat" where
  "key_prefix_len k = length (pk_tokens k)"

definition fingerprint :: "prefix_key \<Rightarrow> prefix_fingerprint" where
  "fingerprint k = new_fingerprint (pk_model k) (pk_state_schema k) (pk_tokenizer k) (pk_plan k)
     (pk_token_hash k) (key_prefix_len k)"

definition key_same_contract :: "prefix_key \<Rightarrow> prefix_key \<Rightarrow> bool" where
  "key_same_contract a b \<longleftrightarrow>
     pk_model a = pk_model b \<and> pk_state_schema a = pk_state_schema b
   \<and> pk_tokenizer a = pk_tokenizer b \<and> pk_plan a = pk_plan b"

definition is_prefix_of :: "prefix_key \<Rightarrow> prefix_key \<Rightarrow> bool" where
  "is_prefix_of k query \<longleftrightarrow> key_same_contract k query \<and> prefix (pk_tokens k) (pk_tokens query)"

definition with_salt :: "(byte list \<Rightarrow> byte list) \<Rightarrow> byte list \<Rightarrow> prefix_key \<Rightarrow> prefix_key" where
  "with_salt sha salt k =
     k\<lparr>pk_model := ModelFingerprint
        (sha (ascii ''logan-prefix-salt-v1'' @ model_digest (pk_model k) @ salt))\<rparr>"

text \<open>What \<^verbatim>\<open>PrefixKey::new\<close> establishes: the stored hash is the hash of the tokens.\<close>

definition key_ok :: "(byte list \<Rightarrow> byte list) \<Rightarrow> prefix_key \<Rightarrow> bool" where
  "key_ok sha k \<longleftrightarrow> pk_token_hash k = hash_tokens sha (pk_tokens k)"

lemma key_ok_new [simp]: "key_ok sha (new_prefix_key sha m s t p ts)"
  by (simp add: key_ok_def new_prefix_key_def)

lemma key_ok_salt [simp]: "key_ok sha (with_salt sha salt k) = key_ok sha k"
  by (simp add: key_ok_def with_salt_def)

text \<open>Of the keys that are prefixes of one query, those of one length are one fingerprint.\<close>

lemma same_length_prefix:
  assumes "is_prefix_of k q" "is_prefix_of k' q" "key_ok sha k" "key_ok sha k'"
    "key_prefix_len k = key_prefix_len k'"
  shows "fingerprint k = fingerprint k' \<and> pk_tokens k = pk_tokens k'"
proof -
  have "pk_tokens x = take (length (pk_tokens x)) (pk_tokens q)" if "is_prefix_of x q" for x
    using that by (auto simp: is_prefix_of_def prefix_def)
  from this [OF assms(1)] this [OF assms(2)] have "pk_tokens k = pk_tokens k'"
    using assms(5) by (simp add: key_prefix_len_def)
  with assms show ?thesis
    by (simp add: fingerprint_def is_prefix_of_def key_same_contract_def key_ok_def)
qed

end
