(* ===== verification/Prefix_Cache.thy ===== *)
theory Prefix_Cache
  imports Prefix_Key Trace_Replay
begin

text \<open>
  The byte-budgeted RAM cache (\<^verbatim>\<open>logan-core/src/prefix/memory.rs\<close>) and the metadata
  index of the SSD tier (\<^verbatim>\<open>prefix/index.rs\<close>): longest-prefix lookup over exact
  tokens and least-recently-used eviction.  A \<^verbatim>\<open>BTreeMap\<close> is an association list
  with distinct keys; that its order is irrelevant to every answer is proved.
\<close>

section \<open>The RAM cache\<close>

record 'v cache_hit =
  ch_fingerprint :: prefix_fingerprint
  ch_prefix_len :: nat
  ch_value :: 'v

record 'v cache_entry =
  ce_key :: prefix_key
  ce_value :: 'v
  ce_size :: nat

record 'v ram_prefix_cache =
  rc_entries :: "(prefix_fingerprint, 'v cache_entry) hash_map"
  rc_lru :: "prefix_fingerprint list"
  rc_total_bytes :: nat
  rc_max_bytes :: nat
  rc_total_lookups :: nat
  rc_total_hits :: nat
  rc_total_misses :: nat

datatype cache_error = EntryTooLarge nat nat

definition new_ram_cache :: "nat \<Rightarrow> 'v ram_prefix_cache" where
  "new_ram_cache max_bytes =
     \<lparr>rc_entries = [], rc_lru = [], rc_total_bytes = 0, rc_max_bytes = max_bytes,
      rc_total_lookups = 0, rc_total_hits = 0, rc_total_misses = 0\<rparr>"

text \<open>\<^verbatim>\<open>Iterator::max_by_key\<close> returns the last of the greatest elements.\<close>

fun max_by_key :: "('a \<Rightarrow> nat) \<Rightarrow> 'a list \<Rightarrow> 'a option" where
  "max_by_key f [] = None"
| "max_by_key f (x # xs) =
     (case max_by_key f xs of
        None \<Rightarrow> Some x
      | Some y \<Rightarrow> if f y < f x then Some x else Some y)"

definition ram_touch :: "prefix_fingerprint \<Rightarrow> 'v ram_prefix_cache \<Rightarrow> 'v ram_prefix_cache" where
  "ram_touch fp c = c\<lparr>rc_lru := filter (\<lambda>x. x \<noteq> fp) (rc_lru c) @ [fp]\<rparr>"

definition ram_lookup ::
  "prefix_key \<Rightarrow> 'v ram_prefix_cache \<Rightarrow> 'v cache_hit option \<times> 'v ram_prefix_cache" where
  "ram_lookup query c =
     (let c1 = c\<lparr>rc_total_lookups := saturating_add_u64 (rc_total_lookups c) 1\<rparr>;
          best = max_by_key (\<lambda>(fp, e). key_prefix_len (ce_key e))
            (filter (\<lambda>(fp, e). is_prefix_of (ce_key e) query) (rc_entries c1))
      in case best of
           Some (fp, e) \<Rightarrow>
             (Some \<lparr>ch_fingerprint = fp, ch_prefix_len = key_prefix_len (ce_key e), ch_value = ce_value e\<rparr>,
              ram_touch fp (c1\<lparr>rc_total_hits := saturating_add_u64 (rc_total_hits c1) 1\<rparr>))
         | None \<Rightarrow> (None, c1\<lparr>rc_total_misses := saturating_add_u64 (rc_total_misses c1) 1\<rparr>))"

definition ram_remove :: "prefix_fingerprint \<Rightarrow> 'v ram_prefix_cache \<Rightarrow> bool \<times> 'v ram_prefix_cache" where
  "ram_remove fp c =
     (case hm_get (rc_entries c) fp of
        None \<Rightarrow> (False, c)
      | Some e \<Rightarrow>
          (True, c\<lparr>rc_entries := hm_remove fp (rc_entries c),
                   rc_total_bytes := saturating_sub (rc_total_bytes c) (ce_size e),
                   rc_lru := filter (\<lambda>x. x \<noteq> fp) (rc_lru c)\<rparr>))"

lemma ram_remove_shrinks:
  "ram_remove fp c = (True, c') \<Longrightarrow> length (rc_entries c') < length (rc_entries c)"
  by (auto simp: ram_remove_def intro: hm_length_remove split: option.splits)

text \<open>
  The eviction loop.  When the oldest fingerprint has no entry, the loop body
  changes nothing and the loop never ends; that is the value \<open>None\<close>.
\<close>

function ram_evict_for :: "nat \<Rightarrow> 'v ram_prefix_cache \<Rightarrow> 'v ram_prefix_cache option" where
  "ram_evict_for incoming c =
     (if saturating_add_usize (rc_total_bytes c) incoming \<le> rc_max_bytes c then Some c
      else case rc_lru c of
             [] \<Rightarrow> Some c
           | oldest # _ \<Rightarrow>
               (case ram_remove oldest c of
                  (True, c') \<Rightarrow> ram_evict_for incoming c'
                | (False, _) \<Rightarrow> None))"
  by pat_completeness auto
termination
  by (relation "measure (\<lambda>(n, c). length (rc_entries c))") (auto dest: ram_remove_shrinks [OF sym])

declare ram_evict_for.simps [simp del]

definition ram_insert ::
  "prefix_key \<Rightarrow> 'v \<Rightarrow> nat \<Rightarrow> 'v ram_prefix_cache \<Rightarrow> ((cache_error + unit) \<times> 'v ram_prefix_cache) option" where
  "ram_insert key v n c =
     (if rc_max_bytes c < n then Some (Inl (EntryTooLarge n (rc_max_bytes c)), c)
      else
        (let fp = fingerprint key; c1 = snd (ram_remove fp c) in
         map_option (\<lambda>c2. (Inr (), c2\<lparr>
             rc_total_bytes := wrapping_add_usize (rc_total_bytes c2) n,
             rc_lru := rc_lru c2 @ [fp],
             rc_entries := hm_insert fp \<lparr>ce_key = key, ce_value = v, ce_size = n\<rparr> (rc_entries c2)\<rparr>))
           (ram_evict_for n c1)))"

definition ram_capacity_bytes :: "'v ram_prefix_cache \<Rightarrow> nat" where
  "ram_capacity_bytes c = rc_max_bytes c"

definition ram_clear :: "'v ram_prefix_cache \<Rightarrow> 'v ram_prefix_cache" where
  "ram_clear c = c\<lparr>rc_entries := [], rc_lru := [], rc_total_bytes := 0\<rparr>"

text \<open>Statistics; the hit rate is the quotient of the two counters it is computed from.\<close>

record cache_stats =
  cs_total_entries :: nat
  cs_total_bytes :: nat
  cs_max_bytes :: nat
  cs_total_lookups :: nat
  cs_total_hits :: nat
  cs_total_misses :: nat
  cs_hit_rate :: "(nat \<times> nat) option"

definition ram_stats :: "'v ram_prefix_cache \<Rightarrow> cache_stats" where
  "ram_stats c =
     \<lparr>cs_total_entries = length (rc_entries c), cs_total_bytes = rc_total_bytes c,
      cs_max_bytes = rc_max_bytes c, cs_total_lookups = rc_total_lookups c,
      cs_total_hits = rc_total_hits c, cs_total_misses = rc_total_misses c,
      cs_hit_rate = (if rc_total_lookups c = 0 then None
        else Some (rc_total_hits c, rc_total_lookups c))\<rparr>"

section \<open>The invariant\<close>

definition cache_ok :: "(byte list \<Rightarrow> byte list) \<Rightarrow> 'v ram_prefix_cache \<Rightarrow> bool" where
  "cache_ok sha c \<longleftrightarrow>
     hm_ok (rc_entries c) \<and> distinct (rc_lru c) \<and> set (rc_lru c) = set (hm_keys (rc_entries c))
   \<and> rc_total_bytes c = tally (\<lambda>(fp, e). ce_size e) (rc_entries c)
   \<and> rc_total_bytes c \<le> rc_max_bytes c \<and> rc_max_bytes c < usize_max
   \<and> (\<forall>fp e. hm_get (rc_entries c) fp = Some e \<longrightarrow> fp = fingerprint (ce_key e) \<and> key_ok sha (ce_key e))"

lemma cache_ok_new: "n < usize_max \<Longrightarrow> cache_ok sha (new_ram_cache n)"
  by (simp add: cache_ok_def new_ram_cache_def)

lemma cache_keys: "cache_ok sha c \<Longrightarrow> fp \<in> set (rc_lru c) \<longleftrightarrow> (\<exists>e. hm_get (rc_entries c) fp = Some e)"
  unfolding cache_ok_def hm_key_iff [symmetric] by simp

lemma cache_remove:
  assumes ok: "cache_ok sha c"
  shows "cache_ok sha (snd (ram_remove fp c))"
proof (cases "hm_get (rc_entries c) fp")
  case None
  with ok show ?thesis by (simp add: ram_remove_def)
next
  case (Some e)
  have "tally (\<lambda>(fp, e). ce_size e) (rc_entries c) =
      tally (\<lambda>(fp, e). ce_size e) (hm_remove fp (rc_entries c)) + ce_size e"
    using ok Some by (simp add: cache_ok_def tally_remove)
  with ok Some show ?thesis
    by (auto simp: ram_remove_def cache_ok_def hm_simps saturating_sub_def split: if_splits)
qed

lemma ram_remove_sel [simp]:
  "rc_max_bytes (snd (ram_remove fp c)) = rc_max_bytes c"
  "hm_get (rc_entries (snd (ram_remove fp c))) x = (if x = fp then None else hm_get (rc_entries c) x)"
  "rc_lru (snd (ram_remove fp c)) =
     (if hm_get (rc_entries c) fp = None then rc_lru c else filter (\<lambda>x. x \<noteq> fp) (rc_lru c))"
  by (auto simp: ram_remove_def hm_simps split: option.split)

text \<open>
  The loop drops the oldest entries, and only as many as are needed.
\<close>

lemma ram_evict_spec:
  assumes "cache_ok sha c" "incoming \<le> rc_max_bytes c"
  shows "\<exists>n c'. ram_evict_for incoming c = Some c' \<and> cache_ok sha c' \<and> rc_max_bytes c' = rc_max_bytes c \<and>
    rc_total_bytes c' + incoming \<le> rc_max_bytes c \<and> rc_lru c' = drop n (rc_lru c) \<and> n \<le> length (rc_lru c) \<and>
    (\<forall>x. hm_get (rc_entries c') x = (if x \<in> set (take n (rc_lru c)) then None else hm_get (rc_entries c) x))"
  using assms
proof (induction "length (rc_entries c)" arbitrary: c rule: less_induct)
  case less
  note ok = less.prems(1)
  have lt: "rc_max_bytes c < usize_max" using ok by (simp add: cache_ok_def)
  show ?case
  proof (cases "rc_total_bytes c + incoming \<le> rc_max_bytes c")
    case True
    then have "ram_evict_for incoming c = Some c"
      by (subst ram_evict_for.simps) (simp add: saturating_add_usize_le_iff [OF lt])
    with True ok show ?thesis by (intro exI [of _ 0] exI [of _ c]) simp
  next
    case False
    have "rc_lru c \<noteq> []"
    proof
      assume "rc_lru c = []"
      then have "rc_entries c = []" using ok by (auto simp: cache_ok_def)
      then have "rc_total_bytes c = 0" using ok by (simp add: cache_ok_def)
      with False less.prems(2) show False by simp
    qed
    then obtain old rest where lru: "rc_lru c = old # rest" by (cases "rc_lru c") auto
    then obtain e where e: "hm_get (rc_entries c) old = Some e" using cache_keys [OF ok, of old] by auto
    let ?c = "snd (ram_remove old c)"
    obtain c1 where "ram_remove old c = (True, c1)" using e by (simp add: ram_remove_def)
    then have rem: "ram_remove old c = (True, ?c)" and c1: "ram_remove old c = (True, c1)" "?c = c1" by simp_all
    have step: "ram_evict_for incoming c = ram_evict_for incoming ?c"
      by (subst ram_evict_for.simps) (use False lru c1 in \<open>simp add: saturating_add_usize_le_iff [OF lt]\<close>)
    have "old \<notin> set rest" using ok lru by (simp add: cache_ok_def)
    then have lru': "rc_lru ?c = rest" using e lru by (simp add: filter_neq_absent)
    obtain n c' where IH: "ram_evict_for incoming ?c = Some c'" "cache_ok sha c'" "rc_max_bytes c' = rc_max_bytes ?c"
      "rc_total_bytes c' + incoming \<le> rc_max_bytes ?c" "rc_lru c' = drop n (rc_lru ?c)" "n \<le> length (rc_lru ?c)"
      "\<forall>x. hm_get (rc_entries c') x = (if x \<in> set (take n (rc_lru ?c)) then None else hm_get (rc_entries ?c) x)"
      using less.hyps [OF ram_remove_shrinks [OF rem] cache_remove [OF ok]] less.prems(2) by auto
    show ?thesis
      by (rule exI [of _ "Suc n"], rule exI [of _ c']) (use IH step lru lru' in auto)
  qed
qed

lemma cache_add:
  assumes ok: "cache_ok sha c" and key: "key_ok sha key" and absent: "hm_get (rc_entries c) (fingerprint key) = None"
    and fits: "rc_total_bytes c + n \<le> rc_max_bytes c"
  shows "cache_ok sha (c\<lparr>rc_total_bytes := wrapping_add_usize (rc_total_bytes c) n,
     rc_lru := rc_lru c @ [fingerprint key],
     rc_entries := hm_insert (fingerprint key) \<lparr>ce_key = key, ce_value = v, ce_size = n\<rparr> (rc_entries c)\<rparr>)"
proof -
  have notin: "fingerprint key \<notin> set (rc_lru c)" using cache_keys [OF ok] absent by simp
  have lt: "rc_max_bytes c < usize_max" using ok by (simp add: cache_ok_def)
  have wrap: "wrapping_add_usize (rc_total_bytes c) n = rc_total_bytes c + n"
    using fits lt by (intro wrapping_add_usize_fits) simp
  have sum: "tally (\<lambda>(fp, e). ce_size e)
        (hm_insert (fingerprint key) \<lparr>ce_key = key, ce_value = v, ce_size = n\<rparr> (rc_entries c)) =
      tally (\<lambda>(fp, e). ce_size e) (rc_entries c) + n"
    using ok absent by (simp add: cache_ok_def tally_insert hm_remove_absent)
  have keys: "set (hm_keys (hm_insert (fingerprint key) x (rc_entries c))) =
      insert (fingerprint key) (set (hm_keys (rc_entries c)))" for x :: "'a cache_entry"
    by (simp add: dom_update)
  show ?thesis
    unfolding cache_ok_def
  proof (intro conjI allI impI)
    fix fp e
    assume "hm_get (rc_entries (c\<lparr>rc_total_bytes := wrapping_add_usize (rc_total_bytes c) n,
        rc_lru := rc_lru c @ [fingerprint key], rc_entries := hm_insert (fingerprint key)
          \<lparr>ce_key = key, ce_value = v, ce_size = n\<rparr> (rc_entries c)\<rparr>)) fp = Some e"
    with ok key show "fp = fingerprint (ce_key e)" "key_ok sha (ce_key e)"
      by (auto simp: hm_simps cache_ok_def split: if_splits)
  qed (use ok notin lt fits wrap sum keys in \<open>simp_all add: cache_ok_def hm_simps\<close>)
qed

text \<open>
  Inserting always ends; the new entry is there, the loop has dropped the oldest
  entries among the others, and every other entry is unchanged.
\<close>

lemma cache_insert:
  assumes ok: "cache_ok sha c" and key: "key_ok sha key" and fits: "n \<le> rc_max_bytes c"
  obtains k c' where "ram_insert key v n c = Some (Inr (), c')" "cache_ok sha c'"
    "rc_max_bytes c' = rc_max_bytes c"
    "rc_lru c' = drop k (filter (\<lambda>x. x \<noteq> fingerprint key) (rc_lru c)) @ [fingerprint key]"
    "\<And>x. hm_get (rc_entries c') x =
      (if x = fingerprint key then Some \<lparr>ce_key = key, ce_value = v, ce_size = n\<rparr>
       else if x \<in> set (take k (filter (\<lambda>x. x \<noteq> fingerprint key) (rc_lru c))) then None
       else hm_get (rc_entries c) x)"
proof -
  let ?fp = "fingerprint key"
  have lru: "rc_lru (snd (ram_remove ?fp c)) = filter (\<lambda>x. x \<noteq> ?fp) (rc_lru c)"
    using cache_keys [OF ok, of ?fp] by (auto simp: filter_neq_absent)
  obtain k c2 where c2: "ram_evict_for n (snd (ram_remove ?fp c)) = Some c2" "cache_ok sha c2"
    "rc_max_bytes c2 = rc_max_bytes c" "rc_total_bytes c2 + n \<le> rc_max_bytes c"
    "rc_lru c2 = drop k (filter (\<lambda>x. x \<noteq> ?fp) (rc_lru c))"
    "\<forall>x. hm_get (rc_entries c2) x = (if x \<in> set (take k (filter (\<lambda>x. x \<noteq> ?fp) (rc_lru c))) then None
       else hm_get (rc_entries (snd (ram_remove ?fp c))) x)"
    using ram_evict_spec [OF cache_remove [OF ok, of ?fp], of n] fits unfolding lru by auto
  then have absent: "hm_get (rc_entries c2) ?fp = None" by simp
  let ?c = "c2\<lparr>rc_total_bytes := wrapping_add_usize (rc_total_bytes c2) n, rc_lru := rc_lru c2 @ [?fp],
     rc_entries := hm_insert ?fp \<lparr>ce_key = key, ce_value = v, ce_size = n\<rparr> (rc_entries c2)\<rparr>"
  show thesis
  proof (rule that)
    show "ram_insert key v n c = Some (Inr (), ?c)" using c2(1) fits by (simp add: ram_insert_def Let_def)
    show "cache_ok sha ?c" by (rule cache_add [OF c2(2) key absent]) (use c2 in simp)
    show "hm_get (rc_entries ?c) x = (if x = ?fp then Some \<lparr>ce_key = key, ce_value = v, ce_size = n\<rparr>
       else if x \<in> set (take k (filter (\<lambda>x. x \<noteq> ?fp) (rc_lru c))) then None else hm_get (rc_entries c) x)" for x
      using c2(6) by (simp add: hm_simps)
  qed (use c2 in simp_all)
qed

lemma cache_insert_large:
  "rc_max_bytes c < n \<Longrightarrow> ram_insert key v n c = Some (Inl (EntryTooLarge n (rc_max_bytes c)), c)"
  by (simp add: ram_insert_def)

section \<open>Longest-prefix lookup\<close>

lemma max_by_key_in: "max_by_key f xs = Some x \<Longrightarrow> x \<in> set xs"
  by (induction xs arbitrary: x) (auto split: option.splits if_splits)

lemma max_by_key_None: "max_by_key f xs = None \<longleftrightarrow> xs = []"
  by (cases xs) (auto split: option.split)

lemma max_by_key_ge: "max_by_key f xs = Some x \<Longrightarrow> y \<in> set xs \<Longrightarrow> f y \<le> f x"
proof (induction xs arbitrary: x)
  case (Cons a xs)
  show ?case
  proof (cases "max_by_key f xs")
    case None
    with Cons.prems show ?thesis by (simp add: max_by_key_None)
  next
    case (Some z)
    with Cons.prems Cons.IH [OF Some] show ?thesis by (auto split: if_splits)
  qed
qed simp

definition best_match :: "prefix_key \<Rightarrow> (prefix_fingerprint, 'v cache_entry) hash_map \<Rightarrow> prefix_fingerprint \<Rightarrow>
    'v cache_entry \<Rightarrow> bool" where
  "best_match query es fp e \<longleftrightarrow>
     hm_get es fp = Some e \<and> is_prefix_of (ce_key e) query
   \<and> (\<forall>fp' e'. hm_get es fp' = Some e' \<longrightarrow> is_prefix_of (ce_key e') query \<longrightarrow>
        key_prefix_len (ce_key e') \<le> key_prefix_len (ce_key e))"

lemma best_match_unique:
  assumes ok: "cache_ok sha c" and a: "best_match q (rc_entries c) fp e" and b: "best_match q (rc_entries c) fp' e'"
  shows "fp = fp' \<and> e = e'"
proof -
  have "key_prefix_len (ce_key e) = key_prefix_len (ce_key e')"
    using a b unfolding best_match_def by (meson le_antisym)
  moreover have own: "x = fingerprint (ce_key y) \<and> key_ok sha (ce_key y)" if "hm_get (rc_entries c) x = Some y" for x y
    using ok that by (simp add: cache_ok_def)
  note own [of fp e] own [of fp' e']
  moreover have "hm_get (rc_entries c) fp = Some e" "hm_get (rc_entries c) fp' = Some e'"
    "is_prefix_of (ce_key e) q" "is_prefix_of (ce_key e') q" using a b by (simp_all add: best_match_def)
  ultimately have "fp = fp'" using same_length_prefix [of "ce_key e" q "ce_key e'" sha] by metis
  with a b show ?thesis by (simp add: best_match_def)
qed

lemma lookup_candidates:
  assumes "hm_ok es"
  shows "(fp, e) \<in> set (filter (\<lambda>(fp, e). is_prefix_of (ce_key e) q) es) \<longleftrightarrow>
    hm_get es fp = Some e \<and> is_prefix_of (ce_key e) q"
  unfolding set_filter mem_Collect_eq prod.case using assms hm_in_set_get hm_get_in_set by metis

lemma ram_lookup_best:
  assumes ok: "cache_ok sha c"
  shows "max_by_key (\<lambda>(fp, e). key_prefix_len (ce_key e))
      (filter (\<lambda>(fp, e). is_prefix_of (ce_key e) q) (rc_entries c)) = Some (fp, e) \<longleftrightarrow>
    best_match q (rc_entries c) fp e"
    (is "?best = _ \<longleftrightarrow> _")
proof -
  have hm: "hm_ok (rc_entries c)" using ok by (simp add: cache_ok_def)
  note mem = lookup_candidates [OF hm, of _ _ q]
  have best: "best_match q (rc_entries c) fp e" if "?best = Some (fp, e)" for fp e
    using max_by_key_in [OF that] max_by_key_ge [OF that] mem unfolding best_match_def by fastforce
  show ?thesis
  proof
    assume b: "best_match q (rc_entries c) fp e"
    then have "(fp, e) \<in> set (filter (\<lambda>(fp, e). is_prefix_of (ce_key e) q) (rc_entries c))"
      unfolding mem by (simp add: best_match_def)
    then have "?best \<noteq> None" unfolding max_by_key_None by force
    then obtain fp' e' where "?best = Some (fp', e')" by auto
    with best_match_unique [OF ok b best [OF this]] show "?best = Some (fp, e)" by simp
  qed (rule best)
qed

lemma ram_lookup_None:
  assumes ok: "cache_ok sha c"
  shows "max_by_key (\<lambda>(fp, e). key_prefix_len (ce_key e))
      (filter (\<lambda>(fp, e). is_prefix_of (ce_key e) q) (rc_entries c)) = None \<longleftrightarrow>
    (\<forall>fp e. hm_get (rc_entries c) fp = Some e \<longrightarrow> \<not> is_prefix_of (ce_key e) q)"
proof -
  have hm: "hm_ok (rc_entries c)" using ok by (simp add: cache_ok_def)
  have "filter (\<lambda>(fp, e). is_prefix_of (ce_key e) q) (rc_entries c) = [] \<longleftrightarrow>
      (\<forall>fp e. (fp, e) \<notin> set (filter (\<lambda>(fp, e). is_prefix_of (ce_key e) q) (rc_entries c)))"
    by (simp only: set_empty [symmetric]) auto
  then show ?thesis unfolding max_by_key_None lookup_candidates [OF hm] by blast
qed

lemma ram_lookup_result:
  assumes ok: "cache_ok sha c"
  shows "fst (ram_lookup q c) = Some h \<longleftrightarrow>
    (\<exists>e. best_match q (rc_entries c) (ch_fingerprint h) e \<and> ch_prefix_len h = key_prefix_len (ce_key e) \<and>
      ch_value h = ce_value e)"
proof -
  have "fst (ram_lookup q c) = Some h \<longleftrightarrow> (\<exists>fp e. max_by_key (\<lambda>(fp, e). key_prefix_len (ce_key e))
      (filter (\<lambda>(fp, e). is_prefix_of (ce_key e) q) (rc_entries c)) = Some (fp, e) \<and>
      h = \<lparr>ch_fingerprint = fp, ch_prefix_len = key_prefix_len (ce_key e), ch_value = ce_value e\<rparr>)"
    by (auto simp: ram_lookup_def Let_def split: option.split)
  then show ?thesis unfolding ram_lookup_best [OF ok] by (cases h) auto
qed

lemma cache_lookup:
  assumes ok: "cache_ok sha c"
  shows "cache_ok sha (snd (ram_lookup q c))" and "rc_entries (snd (ram_lookup q c)) = rc_entries c"
    and "rc_max_bytes (snd (ram_lookup q c)) = rc_max_bytes c"
proof -
  have touch: "cache_ok sha (ram_touch fp c)" if "fp \<in> set (rc_lru c)" for fp
    using ok that by (auto simp: cache_ok_def ram_touch_def)
  have "fp \<in> set (rc_lru c)" if "best_match q (rc_entries c) fp e" for fp e
    using that cache_keys [OF ok] by (simp add: best_match_def)
  with touch ok show "cache_ok sha (snd (ram_lookup q c))"
    using ram_lookup_best [OF ok, of q]
    by (auto simp: ram_lookup_def Let_def cache_ok_def ram_touch_def split: option.split)
  show "rc_entries (snd (ram_lookup q c)) = rc_entries c" "rc_max_bytes (snd (ram_lookup q c)) = rc_max_bytes c"
    by (auto simp: ram_lookup_def Let_def ram_touch_def split: option.split)
qed

section \<open>Scripts\<close>

datatype 'v cache_op =
    LookupOp prefix_key
  | InsertOp prefix_key 'v nat
  | RemoveOp prefix_fingerprint
  | ClearOp

fun ram_step :: "'v ram_prefix_cache \<Rightarrow> 'v cache_op \<Rightarrow> 'v ram_prefix_cache option" where
  "ram_step c (LookupOp q) = Some (snd (ram_lookup q c))"
| "ram_step c (InsertOp k v n) = map_option snd (ram_insert k v n c)"
| "ram_step c (RemoveOp fp) = Some (snd (ram_remove fp c))"
| "ram_step c ClearOp = Some (ram_clear c)"

fun ram_run :: "'v ram_prefix_cache \<Rightarrow> 'v cache_op list \<Rightarrow> 'v ram_prefix_cache option" where
  "ram_run c [] = Some c"
| "ram_run c (op # ops) = (case ram_step c op of None \<Rightarrow> None | Some c' \<Rightarrow> ram_run c' ops)"

fun op_key_ok :: "(byte list \<Rightarrow> byte list) \<Rightarrow> 'v cache_op \<Rightarrow> bool" where
  "op_key_ok sha (InsertOp k v n) \<longleftrightarrow> key_ok sha k"
| "op_key_ok sha _ \<longleftrightarrow> True"

lemma ram_step_ok:
  assumes ok: "cache_ok sha c" and op: "op_key_ok sha op"
  shows "\<exists>c'. ram_step c op = Some c' \<and> cache_ok sha c' \<and> rc_max_bytes c' = rc_max_bytes c"
proof (cases op)
  case (LookupOp q)
  with cache_lookup [OF ok, of q] show ?thesis by simp
next
  case (InsertOp k v n)
  show ?thesis
  proof (cases "n \<le> rc_max_bytes c")
    case True
    from InsertOp op have "key_ok sha k" by simp
    from cache_insert [OF ok this True, of v] InsertOp show ?thesis
      by (metis option.simps(9) ram_step.simps(2) snd_conv)
  next
    case False
    with InsertOp ok show ?thesis by (simp add: cache_insert_large)
  qed
next
  case (RemoveOp fp)
  with cache_remove [OF ok] show ?thesis by simp
next
  case ClearOp
  with ok show ?thesis by (simp add: ram_clear_def cache_ok_def)
qed

lemma ram_run_ok:
  "cache_ok sha c \<Longrightarrow> list_all (op_key_ok sha) ops \<Longrightarrow>
     \<exists>c'. ram_run c ops = Some c' \<and> cache_ok sha c' \<and> rc_max_bytes c' = rc_max_bytes c"
proof (induction ops arbitrary: c)
  case (Cons op ops)
  then obtain c1 where "ram_step c op = Some c1" "cache_ok sha c1" "rc_max_bytes c1 = rc_max_bytes c"
    using ram_step_ok [of sha c op] by auto
  with Cons.IH [of c1] Cons.prems show ?case by auto
qed simp

text \<open>
  C14: Longest-prefix lookup is exact.  After any script on a fresh cache, a
  lookup finds an entry if and only if some cached key has the query's contract
  and is token for token a prefix of it, and what it returns is the unique such
  entry of greatest length, with its own value; the answer does not depend on
  the order in which the map is iterated.
\<close>

theorem ram_lookup_longest:
  assumes "max_bytes < usize_max" and "list_all (op_key_ok sha) ops"
    and run: "ram_run (new_ram_cache max_bytes) ops = Some c"
    and reorder: "mset es = mset (rc_entries c)"
  shows "(fst (ram_lookup q c) = Some h \<longleftrightarrow>
      (\<exists>e. best_match q (rc_entries c) (ch_fingerprint h) e \<and> ch_prefix_len h = key_prefix_len (ce_key e) \<and>
        ch_value h = ce_value e))
    \<and> (fst (ram_lookup q c) = None \<longleftrightarrow>
      (\<forall>fp e. hm_get (rc_entries c) fp = Some e \<longrightarrow> \<not> is_prefix_of (ce_key e) q))
    \<and> fst (ram_lookup q (c\<lparr>rc_entries := es\<rparr>)) = fst (ram_lookup q c)"
proof -
  have ok: "cache_ok sha c"
    using ram_run_ok [OF cache_ok_new [OF assms(1)] assms(2)] run by auto
  have hm: "hm_ok (rc_entries c)" using ok by (simp add: cache_ok_def)
  have hm': "hm_ok es" by (metis hm reorder mset_eq_imp_distinct_iff mset_map)
  have set: "set es = set (rc_entries c)" using reorder by (rule mset_eq_setD)
  then have get: "hm_get es = hm_get (rc_entries c)" using hm hm' by (simp add: map_of_inject_set)
  have "tally (\<lambda>(fp, e). ce_size e) es = tally (\<lambda>(fp, e). ce_size e) (rc_entries c)"
    unfolding tally_def by (metis reorder mset_map sum_mset_sum_list)
  then have ok': "cache_ok sha (c\<lparr>rc_entries := es\<rparr>)"
    using ok hm' get set by (simp add: cache_ok_def)
  have "fst (ram_lookup q (c\<lparr>rc_entries := es\<rparr>)) = fst (ram_lookup q c)"
  proof (cases "fst (ram_lookup q c)")
    case (Some h')
    then have "fst (ram_lookup q (c\<lparr>rc_entries := es\<rparr>)) = Some h'"
      unfolding ram_lookup_result [OF ok] ram_lookup_result [OF ok'] using get by (simp add: best_match_def)
    with Some show ?thesis by simp
  next
    case None
    show ?thesis
    proof (rule ccontr)
      assume "\<not> ?thesis"
      with None obtain h' where "fst (ram_lookup q (c\<lparr>rc_entries := es\<rparr>)) = Some h'" by auto
      then have "fst (ram_lookup q c) = Some h'"
        unfolding ram_lookup_result [OF ok] ram_lookup_result [OF ok'] using get by (simp add: best_match_def)
      with None show False by simp
    qed
  qed
  moreover have "fst (ram_lookup q c) = None \<longleftrightarrow>
      (\<forall>fp e. hm_get (rc_entries c) fp = Some e \<longrightarrow> \<not> is_prefix_of (ce_key e) q)"
    unfolding ram_lookup_None [OF ok, symmetric] by (auto simp: ram_lookup_def Let_def split: option.split)
  ultimately show ?thesis using ram_lookup_result [OF ok] by blast
qed

definition demo_pk :: "token list \<Rightarrow> prefix_key" where
  "demo_pk ts = new_prefix_key (\<lambda>_. []) (ModelFingerprint []) (StateSchemaFingerprint [])
     (TokenizerFingerprint []) (PlanFingerprint []) ts"

definition demo_ram :: "nat ram_prefix_cache" where
  "demo_ram = the (ram_run (new_ram_cache 100) [InsertOp (demo_pk [1]) 7 40, InsertOp (demo_pk [1, 2]) 8 40])"

lemma demo_key_ok: "key_ok (\<lambda>_. []) (demo_pk ts)"
  by (simp add: demo_pk_def)

lemma demo_fp: "fingerprint (demo_pk ts) = \<lparr>pf_model = ModelFingerprint [], pf_state_schema = StateSchemaFingerprint [],
    pf_tokenizer = TokenizerFingerprint [], pf_plan = PlanFingerprint [], pf_prefix_token_hash = 0,
    pf_prefix_len = length ts\<rparr>"
  by (simp add: fingerprint_def demo_pk_def new_prefix_key_def new_fingerprint_def key_prefix_len_def
      hash_tokens_def checksum_tokens_def)

lemma demo_ram_run:
  "ram_run (new_ram_cache 100) [InsertOp (demo_pk [1]) 7 40, InsertOp (demo_pk [1, 2]) 8 40] = Some demo_ram"
  "rc_entries demo_ram = [(fingerprint (demo_pk [1]), \<lparr>ce_key = demo_pk [1], ce_value = 7, ce_size = 40\<rparr>),
     (fingerprint (demo_pk [1, 2]), \<lparr>ce_key = demo_pk [1, 2], ce_value = 8, ce_size = 40\<rparr>)]"
  by (simp_all add: demo_ram_def new_ram_cache_def ram_insert_def ram_remove_def ram_evict_for.simps Let_def
      rust_int demo_fp)

theorem ram_lookup_longest_witness:
  "fst (ram_lookup (demo_pk [1, 2, 3]) demo_ram) =
     Some \<lparr>ch_fingerprint = fingerprint (demo_pk [1, 2]), ch_prefix_len = 2, ch_value = 8\<rparr> \<and>
   fst (ram_lookup (demo_pk [5]) demo_ram) = None"
proof -
  have ok: "(100 :: nat) < usize_max" "list_all (op_key_ok (\<lambda>_. [])) [InsertOp (demo_pk [1]) (7 :: nat) 40,
      InsertOp (demo_pk [1, 2]) 8 40]"
    by (simp_all add: usize_max_def demo_key_ok)
  let ?h = "\<lparr>ch_fingerprint = fingerprint (demo_pk [1, 2]), ch_prefix_len = 2, ch_value = 8 :: nat\<rparr>"
  let ?e = "\<lparr>ce_key = demo_pk [1, 2], ce_value = 8 :: nat, ce_size = 40\<rparr>"
  have pre: "is_prefix_of (demo_pk xs) (demo_pk ys) \<longleftrightarrow> prefix xs ys" for xs ys
    by (simp add: is_prefix_of_def key_same_contract_def demo_pk_def new_prefix_key_def)
  have len: "key_prefix_len (demo_pk xs) = length xs" for xs
    by (simp add: key_prefix_len_def demo_pk_def new_prefix_key_def)
  have "best_match (demo_pk [1, 2, 3]) (rc_entries demo_ram) (fingerprint (demo_pk [1, 2])) ?e"
    by (auto simp: best_match_def demo_ram_run demo_fp pre len split: if_splits)
  then have "fst (ram_lookup (demo_pk [1, 2, 3]) demo_ram) = Some ?h"
    using ram_lookup_longest [OF ok demo_ram_run(1) refl, of "demo_pk [1, 2, 3]" ?h] by (auto simp: len)
  moreover have "fst (ram_lookup (demo_pk [5]) demo_ram) = None"
    using ram_lookup_longest [OF ok demo_ram_run(1) refl, of "demo_pk [5]" ?h]
    by (auto simp: demo_ram_run demo_fp pre split: if_splits)
  ultimately show ?thesis by blast
qed

text \<open>
  C15: The RAM cache never exceeds its byte budget and evicts in strict LRU
  order.  Every script ends (the eviction loop always terminates), the byte
  counter is exactly the size of the entries and within the budget, the recency
  list is exactly the set of cached fingerprints without repetition, and an
  insertion that fits keeps the new entry, drops only an initial segment of the
  recency order, and changes no other entry.
\<close>

theorem ram_cache_bounded:
  assumes "max_bytes < usize_max" and "list_all (op_key_ok sha) ops" and "key_ok sha key" and "n \<le> max_bytes"
  shows "\<exists>c k c'. ram_run (new_ram_cache max_bytes) ops = Some c \<and> ram_insert key v n c = Some (Inr (), c') \<and>
    rc_total_bytes c = tally (\<lambda>(fp, e). ce_size e) (rc_entries c) \<and> rc_total_bytes c \<le> max_bytes \<and>
    rc_total_bytes c' = tally (\<lambda>(fp, e). ce_size e) (rc_entries c') \<and> rc_total_bytes c' \<le> max_bytes \<and>
    distinct (rc_lru c) \<and> set (rc_lru c) = set (hm_keys (rc_entries c)) \<and>
    rc_lru c' = drop k (filter (\<lambda>x. x \<noteq> fingerprint key) (rc_lru c)) @ [fingerprint key] \<and>
    (\<forall>x. hm_get (rc_entries c') x =
      (if x = fingerprint key then Some \<lparr>ce_key = key, ce_value = v, ce_size = n\<rparr>
       else if x \<in> set (take k (filter (\<lambda>x. x \<noteq> fingerprint key) (rc_lru c))) then None
       else hm_get (rc_entries c) x))"
proof -
  obtain c where run: "ram_run (new_ram_cache max_bytes) ops = Some c" and ok: "cache_ok sha c"
    and m: "rc_max_bytes c = max_bytes"
    using ram_run_ok [OF cache_ok_new [OF assms(1)] assms(2)] by (auto simp: new_ram_cache_def)
  obtain k c' where c': "ram_insert key v n c = Some (Inr (), c')" "cache_ok sha c'"
    "rc_max_bytes c' = rc_max_bytes c"
    "rc_lru c' = drop k (filter (\<lambda>x. x \<noteq> fingerprint key) (rc_lru c)) @ [fingerprint key]"
    "\<And>x. hm_get (rc_entries c') x =
      (if x = fingerprint key then Some \<lparr>ce_key = key, ce_value = v, ce_size = n\<rparr>
       else if x \<in> set (take k (filter (\<lambda>x. x \<noteq> fingerprint key) (rc_lru c))) then None
       else hm_get (rc_entries c) x)"
    by (rule cache_insert [OF ok assms(3), of n v]) (use assms(4) m in simp_all)
  have "rc_total_bytes c' \<le> max_bytes" "rc_total_bytes c' = tally (\<lambda>(fp, e). ce_size e) (rc_entries c')"
    "rc_total_bytes c \<le> max_bytes" "rc_total_bytes c = tally (\<lambda>(fp, e). ce_size e) (rc_entries c)"
    "distinct (rc_lru c)" "set (rc_lru c) = set (hm_keys (rc_entries c))"
    using ok c'(2,3) m by (simp_all add: cache_ok_def)
  with run c' show ?thesis by blast
qed

theorem ram_cache_bounded_witness:
  "\<exists>c'. ram_insert (demo_pk [1, 2, 3]) 9 50 demo_ram = Some (Inr (), c') \<and> rc_total_bytes c' \<le> 100"
proof -
  have ok: "(100 :: nat) < usize_max" "list_all (op_key_ok (\<lambda>_. [])) [InsertOp (demo_pk [1]) (7 :: nat) 40,
      InsertOp (demo_pk [1, 2]) 8 40]" "(50 :: nat) \<le> 100"
    by (simp_all add: usize_max_def demo_key_ok)
  from ram_cache_bounded [OF ok(1,2) demo_key_ok ok(3), of "[1, 2, 3]" 9] show ?thesis
    unfolding demo_ram_run by auto
qed

end
