(* ===== verification/Prefix_Index.thy ===== *)
theory Prefix_Index
  imports Prefix_Cache
begin

text \<open>
  The metadata index of the SSD tier (\<^verbatim>\<open>logan-core/src/prefix/index.rs\<close>).  It is the
  RAM cache without values, plus the list of fingerprints an insertion evicts;
  the refinement below carries the theorems of \<^theory_text>\<open>Prefix_Cache\<close> over.
\<close>

record indexed_prefix =
  ip_key :: prefix_key
  ip_size :: nat

record prefix_index =
  pi_entries :: "(prefix_fingerprint, indexed_prefix) hash_map"
  pi_lru :: "prefix_fingerprint list"
  pi_total_bytes :: nat
  pi_max_bytes :: nat
  pi_total_lookups :: nat
  pi_total_hits :: nat
  pi_total_misses :: nat

definition new_index :: "nat \<Rightarrow> prefix_index" where
  "new_index max_bytes =
     \<lparr>pi_entries = [], pi_lru = [], pi_total_bytes = 0, pi_max_bytes = max_bytes,
      pi_total_lookups = 0, pi_total_hits = 0, pi_total_misses = 0\<rparr>"

definition index_touch :: "prefix_fingerprint \<Rightarrow> prefix_index \<Rightarrow> prefix_index" where
  "index_touch fp ix = ix\<lparr>pi_lru := filter (\<lambda>x. x \<noteq> fp) (pi_lru ix) @ [fp]\<rparr>"

definition index_lookup :: "prefix_key \<Rightarrow> prefix_index \<Rightarrow> prefix_fingerprint option \<times> prefix_index" where
  "index_lookup query ix =
     (let ix1 = ix\<lparr>pi_total_lookups := saturating_add_u64 (pi_total_lookups ix) 1\<rparr>;
          best = map_option fst (max_by_key (\<lambda>(fp, e). key_prefix_len (ip_key e))
            (filter (\<lambda>(fp, e). is_prefix_of (ip_key e) query) (pi_entries ix1)))
      in case best of
           Some fp \<Rightarrow>
             (Some fp, index_touch fp (ix1\<lparr>pi_total_hits := saturating_add_u64 (pi_total_hits ix1) 1\<rparr>))
         | None \<Rightarrow> (None, ix1\<lparr>pi_total_misses := saturating_add_u64 (pi_total_misses ix1) 1\<rparr>))"

definition index_remove :: "prefix_fingerprint \<Rightarrow> prefix_index \<Rightarrow> bool \<times> prefix_index" where
  "index_remove fp ix =
     (case hm_get (pi_entries ix) fp of
        None \<Rightarrow> (False, ix)
      | Some e \<Rightarrow>
          (True, ix\<lparr>pi_entries := hm_remove fp (pi_entries ix),
                    pi_total_bytes := saturating_sub (pi_total_bytes ix) (ip_size e),
                    pi_lru := filter (\<lambda>x. x \<noteq> fp) (pi_lru ix)\<rparr>))"

lemma index_remove_shrinks:
  "index_remove fp ix = (True, ix') \<Longrightarrow> length (pi_entries ix') < length (pi_entries ix)"
  by (auto simp: index_remove_def intro: hm_length_remove split: option.splits)

text \<open>As in the RAM cache, \<open>None\<close> is the loop that makes no progress.\<close>

function index_evict_for ::
  "nat \<Rightarrow> prefix_fingerprint list \<Rightarrow> prefix_index \<Rightarrow> (prefix_fingerprint list \<times> prefix_index) option" where
  "index_evict_for incoming evicted ix =
     (if saturating_add_usize (pi_total_bytes ix) incoming \<le> pi_max_bytes ix then Some (evicted, ix)
      else case pi_lru ix of
             [] \<Rightarrow> Some (evicted, ix)
           | oldest # _ \<Rightarrow>
               (case index_remove oldest ix of
                  (True, ix') \<Rightarrow> index_evict_for incoming (evicted @ [oldest]) ix'
                | (False, _) \<Rightarrow> None))"
  by pat_completeness auto
termination
  by (relation "measure (\<lambda>(n, ev, ix). length (pi_entries ix))") (auto dest: index_remove_shrinks [OF sym])

declare index_evict_for.simps [simp del]

definition insert_with_evictions ::
  "prefix_key \<Rightarrow> nat \<Rightarrow> prefix_index \<Rightarrow>
     ((cache_error + prefix_fingerprint list) \<times> prefix_index) option" where
  "insert_with_evictions key n ix =
     (if pi_max_bytes ix < n then Some (Inl (EntryTooLarge n (pi_max_bytes ix)), ix)
      else
        (let fp = fingerprint key; ix1 = snd (index_remove fp ix) in
         map_option (\<lambda>(evicted, ix2). (Inr evicted, ix2\<lparr>
             pi_total_bytes := wrapping_add_usize (pi_total_bytes ix2) n,
             pi_lru := pi_lru ix2 @ [fp],
             pi_entries := hm_insert fp \<lparr>ip_key = key, ip_size = n\<rparr> (pi_entries ix2)\<rparr>))
           (index_evict_for n [] ix1)))"

definition index_insert :: "prefix_key \<Rightarrow> nat \<Rightarrow> prefix_index \<Rightarrow> ((cache_error + unit) \<times> prefix_index) option" where
  "index_insert key n ix =
     map_option (map_prod (map_sum id (\<lambda>_. ())) id) (insert_with_evictions key n ix)"

definition index_stats :: "prefix_index \<Rightarrow> cache_stats" where
  "index_stats ix =
     \<lparr>cs_total_entries = length (pi_entries ix), cs_total_bytes = pi_total_bytes ix,
      cs_max_bytes = pi_max_bytes ix, cs_total_lookups = pi_total_lookups ix,
      cs_total_hits = pi_total_hits ix, cs_total_misses = pi_total_misses ix,
      cs_hit_rate = (if pi_total_lookups ix = 0 then None
        else Some (pi_total_hits ix, pi_total_lookups ix))\<rparr>"

section \<open>The index as a cache without values\<close>

definition as_entry :: "prefix_fingerprint \<times> indexed_prefix \<Rightarrow> prefix_fingerprint \<times> unit cache_entry" where
  "as_entry = (\<lambda>(fp, e). (fp, \<lparr>ce_key = ip_key e, ce_value = (), ce_size = ip_size e\<rparr>))"

definition as_ram :: "prefix_index \<Rightarrow> unit ram_prefix_cache" where
  "as_ram ix = \<lparr>rc_entries = map as_entry (pi_entries ix), rc_lru = pi_lru ix,
     rc_total_bytes = pi_total_bytes ix, rc_max_bytes = pi_max_bytes ix,
     rc_total_lookups = pi_total_lookups ix, rc_total_hits = pi_total_hits ix,
     rc_total_misses = pi_total_misses ix\<rparr>"

lemma as_ram_sel [simp]:
  "rc_entries (as_ram ix) = map as_entry (pi_entries ix)" "rc_lru (as_ram ix) = pi_lru ix"
  "rc_total_bytes (as_ram ix) = pi_total_bytes ix" "rc_max_bytes (as_ram ix) = pi_max_bytes ix"
  by (simp_all add: as_ram_def)

lemma get_as_entry: "hm_get (map as_entry m) fp =
    map_option (\<lambda>e. \<lparr>ce_key = ip_key e, ce_value = (), ce_size = ip_size e\<rparr>) (hm_get m fp)"
  by (induction m) (auto simp: as_entry_def)

lemma remove_as_entry: "hm_remove fp (map as_entry m) = map as_entry (hm_remove fp m)"
  by (induction m) (auto simp: as_entry_def)

lemma insert_as_entry:
  "hm_insert fp \<lparr>ce_key = ip_key e, ce_value = (), ce_size = ip_size e\<rparr> (map as_entry m) =
     map as_entry (hm_insert fp e m)"
  by (induction m) (auto simp: as_entry_def)

lemma index_remove_sim:
  "ram_remove fp (as_ram ix) = map_prod id as_ram (index_remove fp ix)"
  by (auto simp: ram_remove_def index_remove_def get_as_entry remove_as_entry as_ram_def split: option.split)

lemma max_by_key_map: "max_by_key f (map g xs) = map_option g (max_by_key (f \<circ> g) xs)"
  by (induction xs) (auto split: option.split)

lemma index_lookup_sim:
  "map_option ch_fingerprint (fst (ram_lookup q (as_ram ix))) = fst (index_lookup q ix)"
  "snd (ram_lookup q (as_ram ix)) = as_ram (snd (index_lookup q ix))"
proof -
  have "max_by_key (\<lambda>(fp, e). key_prefix_len (ce_key e))
      (filter (\<lambda>(fp, e). is_prefix_of (ce_key e) q) (map as_entry (pi_entries ix))) =
    map_option as_entry (max_by_key (\<lambda>(fp, e). key_prefix_len (ip_key e))
      (filter (\<lambda>(fp, e). is_prefix_of (ip_key e) q) (pi_entries ix)))"
    by (simp add: filter_map max_by_key_map o_def as_entry_def case_prod_unfold)
  then show "map_option ch_fingerprint (fst (ram_lookup q (as_ram ix))) = fst (index_lookup q ix)"
    "snd (ram_lookup q (as_ram ix)) = as_ram (snd (index_lookup q ix))"
    by (auto simp: ram_lookup_def index_lookup_def Let_def as_ram_def ram_touch_def index_touch_def as_entry_def
        split: option.split)
qed

lemma index_evict_sim:
  "ram_evict_for n (as_ram ix) = map_option (as_ram \<circ> snd) (index_evict_for n ev ix)"
proof (induction n ev ix rule: index_evict_for.induct)
  case (1 n ev ix)
  show ?case
  proof (cases "saturating_add_usize (pi_total_bytes ix) n \<le> pi_max_bytes ix")
    case True
    then show ?thesis by (subst ram_evict_for.simps, subst index_evict_for.simps) simp
  next
    case False
    show ?thesis
    proof (cases "pi_lru ix")
      case Nil
      with False show ?thesis by (subst ram_evict_for.simps, subst index_evict_for.simps) simp
    next
      case (Cons old rest)
      obtain b ix' where rem: "index_remove old ix = (b, ix')" by force
      show ?thesis
      proof (cases b)
        case True
        with False Cons rem "1.IH" [OF False Cons rem [symmetric]] show ?thesis
          by (subst ram_evict_for.simps, subst index_evict_for.simps) (simp add: index_remove_sim comp_def)
      next
        case b: False
        with False Cons rem show ?thesis
          by (subst ram_evict_for.simps, subst index_evict_for.simps) (simp add: index_remove_sim)
      qed
    qed
  qed
qed

text \<open>The list the loop returns is the segment of the recency order that it dropped.\<close>

lemma index_evict_list:
  assumes "index_evict_for n ev ix = Some (ev', ix')" "distinct (pi_lru ix)"
  shows "ev' @ pi_lru ix' = ev @ pi_lru ix"
  using assms
proof (induction n ev ix rule: index_evict_for.induct)
  case (1 n ev ix)
  show ?case
  proof (cases "saturating_add_usize (pi_total_bytes ix) n \<le> pi_max_bytes ix \<or> pi_lru ix = []")
    case True
    with "1.prems" show ?thesis by (simp add: index_evict_for.simps [of n ev ix] split: if_splits)
  next
    case False
    then obtain old rest where lru: "pi_lru ix = old # rest" by (cases "pi_lru ix") auto
    obtain b ix1 where rem: "index_remove old ix = (b, ix1)" by force
    have run: "b" "index_evict_for n (ev @ [old]) ix1 = Some (ev', ix')"
      using "1.prems"(1) False lru rem
      by (simp_all add: index_evict_for.simps [of n ev ix] split: bool.splits)
    have lru1: "pi_lru ix1 = rest"
      using rem run(1) lru "1.prems"(2) by (auto simp: index_remove_def filter_neq_absent split: option.splits)
    have "ev' @ pi_lru ix' = (ev @ [old]) @ pi_lru ix1"
      by (rule "1.IH" [OF _ lru rem [symmetric] _ run(2)]) (use False lru1 lru "1.prems"(2) run(1) in auto)
    with lru lru1 show ?thesis by simp
  qed
qed

text \<open>An insertion that fits, in terms of the cache without values.\<close>

lemma index_insert_fits:
  assumes "n \<le> pi_max_bytes ix"
    and ev: "index_evict_for n [] (snd (index_remove (fingerprint key) ix)) = Some (ev, ix2)"
  defines "ix' \<equiv> ix2\<lparr>pi_total_bytes := wrapping_add_usize (pi_total_bytes ix2) n,
      pi_lru := pi_lru ix2 @ [fingerprint key],
      pi_entries := hm_insert (fingerprint key) \<lparr>ip_key = key, ip_size = n\<rparr> (pi_entries ix2)\<rparr>"
  shows "insert_with_evictions key n ix = Some (Inr ev, ix')"
    and "ram_insert key () n (as_ram ix) = Some (Inr (), as_ram ix')"
proof -
  show "insert_with_evictions key n ix = Some (Inr ev, ix')"
    using assms(1) ev by (simp add: insert_with_evictions_def Let_def ix'_def)
  have "snd (ram_remove (fingerprint key) (as_ram ix)) = as_ram (snd (index_remove (fingerprint key) ix))"
    by (simp add: index_remove_sim)
  then have "ram_evict_for n (snd (ram_remove (fingerprint key) (as_ram ix))) = Some (as_ram ix2)"
    by (simp only: index_evict_sim [of n _ "[]"] ev) simp
  moreover have "hm_insert (fingerprint key) \<lparr>ce_key = key, ce_value = (), ce_size = n\<rparr> (map as_entry m) =
      map as_entry (hm_insert (fingerprint key) \<lparr>ip_key = key, ip_size = n\<rparr> m)" for m
    using insert_as_entry [of "fingerprint key" "\<lparr>ip_key = key, ip_size = n\<rparr>" m] by simp
  ultimately show "ram_insert key () n (as_ram ix) = Some (Inr (), as_ram ix')"
    using assms(1) by (simp add: ram_insert_def Let_def as_ram_def ix'_def)
qed

lemma index_insert_sim:
  "map_option (map_prod (map_sum id (\<lambda>_. ())) as_ram) (insert_with_evictions key n ix) =
     ram_insert key () n (as_ram ix)"
proof (cases "pi_max_bytes ix < n")
  case True
  then show ?thesis by (simp add: insert_with_evictions_def ram_insert_def)
next
  case False
  show ?thesis
  proof (cases "index_evict_for n [] (snd (index_remove (fingerprint key) ix))")
    case None
    have "snd (ram_remove (fingerprint key) (as_ram ix)) = as_ram (snd (index_remove (fingerprint key) ix))"
      by (simp add: index_remove_sim)
    then have "ram_evict_for n (snd (ram_remove (fingerprint key) (as_ram ix))) = None"
      by (simp only: index_evict_sim [of n _ "[]"] None) simp
    with None False show ?thesis by (simp add: ram_insert_def insert_with_evictions_def Let_def)
  next
    case (Some r)
    with index_insert_fits [of n ix key] False show ?thesis by (cases r) simp
  qed
qed

section \<open>Scripts on the index\<close>

datatype index_op =
    IndexLookup prefix_key
  | IndexInsert prefix_key nat
  | IndexRemove prefix_fingerprint

fun index_step :: "prefix_index \<Rightarrow> index_op \<Rightarrow> prefix_index option" where
  "index_step ix (IndexLookup q) = Some (snd (index_lookup q ix))"
| "index_step ix (IndexInsert k n) = map_option snd (index_insert k n ix)"
| "index_step ix (IndexRemove fp) = Some (snd (index_remove fp ix))"

fun index_run :: "prefix_index \<Rightarrow> index_op list \<Rightarrow> prefix_index option" where
  "index_run ix [] = Some ix"
| "index_run ix (op # ops) = (case index_step ix op of None \<Rightarrow> None | Some ix' \<Rightarrow> index_run ix' ops)"

fun as_cache_op :: "index_op \<Rightarrow> unit cache_op" where
  "as_cache_op (IndexLookup q) = LookupOp q"
| "as_cache_op (IndexInsert k n) = InsertOp k () n"
| "as_cache_op (IndexRemove fp) = RemoveOp fp"

lemma index_step_sim: "ram_step (as_ram ix) (as_cache_op op) = map_option as_ram (index_step ix op)"
proof (cases op)
  case (IndexInsert k n)
  then show ?thesis
    by (simp add: index_insert_sim [symmetric] index_insert_def option.map_comp comp_def)
qed (simp_all add: index_lookup_sim index_remove_sim)

lemma index_run_sim: "ram_run (as_ram ix) (map as_cache_op ops) = map_option as_ram (index_run ix ops)"
  by (induction ops arbitrary: ix) (auto simp: index_step_sim split: option.split)

lemma as_ram_new: "as_ram (new_index n) = new_ram_cache n"
  by (simp add: as_ram_def new_index_def new_ram_cache_def)

definition index_ok :: "(byte list \<Rightarrow> byte list) \<Rightarrow> prefix_index \<Rightarrow> bool" where
  "index_ok sha ix \<longleftrightarrow> cache_ok sha (as_ram ix)"

lemma index_ok_new: "n < usize_max \<Longrightarrow> index_ok sha (new_index n)"
  by (simp add: index_ok_def as_ram_new cache_ok_new)

lemma index_ok_remove: "index_ok sha ix \<Longrightarrow> index_ok sha (snd (index_remove fp ix))"
  unfolding index_ok_def using cache_remove [of sha "as_ram ix" fp] by (simp add: index_remove_sim)

lemma index_ok_lookup: "index_ok sha ix \<Longrightarrow> index_ok sha (snd (index_lookup q ix))"
  unfolding index_ok_def using cache_lookup(1) [of sha "as_ram ix" q] by (simp add: index_lookup_sim)

lemma index_run_ok:
  assumes "max_bytes < usize_max" "list_all (\<lambda>op. op_key_ok sha (as_cache_op op)) ops"
  shows "\<exists>ix. index_run (new_index max_bytes) ops = Some ix \<and> index_ok sha ix \<and> pi_max_bytes ix = max_bytes"
proof -
  have "list_all (op_key_ok sha) (map as_cache_op ops)" using assms(2) by (simp add: list.pred_map comp_def)
  from ram_run_ok [OF cache_ok_new [OF assms(1)] this] show ?thesis
    unfolding as_ram_new [symmetric] index_run_sim index_ok_def by (auto simp: as_ram_new new_ram_cache_def)
qed

lemma map_sum_Inr_iff: "map_sum f g s = Inr y \<longleftrightarrow> (\<exists>x. s = Inr x \<and> g x = y)"
  by (cases s) auto

text \<open>
  An insertion that fits: the fingerprints it returns are the oldest ones of the
  recency order (its own aside), and exactly these lose their entry.
\<close>

lemma index_insert_evicts:
  assumes ok: "index_ok sha ix" and key: "key_ok sha key" and fits: "n \<le> pi_max_bytes ix"
  obtains ev ix' where "insert_with_evictions key n ix = Some (Inr ev, ix')" "index_ok sha ix'"
    "pi_max_bytes ix' = pi_max_bytes ix"
    "ev @ pi_lru ix' = filter (\<lambda>x. x \<noteq> fingerprint key) (pi_lru ix) @ [fingerprint key]"
    "\<And>x. hm_get (pi_entries ix') x =
      (if x = fingerprint key then Some \<lparr>ip_key = key, ip_size = n\<rparr>
       else if x \<in> set ev then None else hm_get (pi_entries ix) x)"
proof -
  let ?fp = "fingerprint key"
  have rok: "cache_ok sha (as_ram ix)" using ok by (simp add: index_ok_def)
  obtain k c' where c': "ram_insert key () n (as_ram ix) = Some (Inr (), c')" "cache_ok sha c'"
    "rc_max_bytes c' = rc_max_bytes (as_ram ix)"
    "rc_lru c' = drop k (filter (\<lambda>x. x \<noteq> ?fp) (rc_lru (as_ram ix))) @ [?fp]"
    "\<And>x. hm_get (rc_entries c') x = (if x = ?fp then Some \<lparr>ce_key = key, ce_value = (), ce_size = n\<rparr>
       else if x \<in> set (take k (filter (\<lambda>x. x \<noteq> ?fp) (rc_lru (as_ram ix)))) then None
       else hm_get (rc_entries (as_ram ix)) x)"
    by (rule cache_insert [OF rok key, of n "()"]) (use fits in simp_all)
  from c'(1) obtain ev ix' where ix': "insert_with_evictions key n ix = Some (Inr ev, ix')" "c' = as_ram ix'"
    unfolding index_insert_sim [symmetric] by (auto simp: map_sum_Inr_iff)
  obtain ix2 where ev2: "index_evict_for n [] (snd (index_remove ?fp ix)) = Some (ev, ix2)"
    and lru: "pi_lru ix' = pi_lru ix2 @ [?fp]"
    using ix'(1) fits by (auto simp: insert_with_evictions_def Let_def)
  have lru1: "pi_lru (snd (index_remove ?fp ix)) = filter (\<lambda>x. x \<noteq> ?fp) (pi_lru ix)"
    using cache_keys [OF rok, of ?fp]
    by (auto simp: index_remove_def filter_neq_absent get_as_entry split: option.split)
  have "distinct (pi_lru (snd (index_remove ?fp ix)))" unfolding lru1 using rok by (simp add: cache_ok_def)
  from index_evict_list [OF ev2 this] lru1 lru
  have list: "ev @ pi_lru ix' = filter (\<lambda>x. x \<noteq> ?fp) (pi_lru ix) @ [?fp]" by simp
  have "drop k (filter (\<lambda>x. x \<noteq> ?fp) (pi_lru ix)) = pi_lru ix2" using c'(4) lru ix'(2) by simp
  moreover have "ev @ pi_lru ix2 = filter (\<lambda>x. x \<noteq> ?fp) (pi_lru ix)" using list lru by simp
  ultimately have ev: "ev = take k (filter (\<lambda>x. x \<noteq> ?fp) (pi_lru ix))"
    by (metis append_same_eq append_take_drop_id)
  show thesis
  proof (rule that [OF ix'(1) _ _ list])
    show "index_ok sha ix'" "pi_max_bytes ix' = pi_max_bytes ix" using c'(2,3) ix'(2) by (simp_all add: index_ok_def)
    show "hm_get (pi_entries ix') x = (if x = ?fp then Some \<lparr>ip_key = key, ip_size = n\<rparr>
       else if x \<in> set ev then None else hm_get (pi_entries ix) x)" for x
      using c'(5) [of x] unfolding ix'(2) ev
      by (cases "hm_get (pi_entries ix') x"; cases "hm_get (pi_entries ix) x")
        (auto simp: get_as_entry split: if_splits)
  qed
qed

text \<open>
  C16: The SSD index implements the same cache without values.  After any script
  on a fresh index (which always ends), the index is the image of the RAM cache
  driven by the same operations; an insertion that fits returns exactly the
  fingerprints it evicted, oldest first, keeps the recency order of the rest and
  leaves every other entry alone; and a lookup answers the fingerprint of the
  entry the RAM cache would have answered.
\<close>

theorem index_refines_cache:
  assumes "max_bytes < usize_max" and "list_all (\<lambda>op. op_key_ok sha (as_cache_op op)) ops"
    and "key_ok sha key" and "n \<le> max_bytes"
  shows "\<exists>ix ev ix'. index_run (new_index max_bytes) ops = Some ix
    \<and> ram_run (new_ram_cache max_bytes) (map as_cache_op ops) = Some (as_ram ix)
    \<and> fst (index_lookup q ix) = map_option ch_fingerprint (fst (ram_lookup q (as_ram ix)))
    \<and> insert_with_evictions key n ix = Some (Inr ev, ix')
    \<and> ev @ pi_lru ix' = filter (\<lambda>x. x \<noteq> fingerprint key) (pi_lru ix) @ [fingerprint key]
    \<and> pi_total_bytes ix' \<le> max_bytes
    \<and> (\<forall>x. hm_get (pi_entries ix') x =
        (if x = fingerprint key then Some \<lparr>ip_key = key, ip_size = n\<rparr>
         else if x \<in> set ev then None else hm_get (pi_entries ix) x))"
proof -
  obtain ix where ix: "index_run (new_index max_bytes) ops = Some ix" "index_ok sha ix" "pi_max_bytes ix = max_bytes"
    using index_run_ok [OF assms(1,2)] by blast
  obtain ev ix' where ins: "insert_with_evictions key n ix = Some (Inr ev, ix')" "index_ok sha ix'"
    "pi_max_bytes ix' = pi_max_bytes ix"
    "ev @ pi_lru ix' = filter (\<lambda>x. x \<noteq> fingerprint key) (pi_lru ix) @ [fingerprint key]"
    "\<And>x. hm_get (pi_entries ix') x =
      (if x = fingerprint key then Some \<lparr>ip_key = key, ip_size = n\<rparr>
       else if x \<in> set ev then None else hm_get (pi_entries ix) x)"
    using index_insert_evicts [OF ix(2) assms(3), of n] assms(4) ix(3) by blast
  have "pi_total_bytes ix' \<le> max_bytes" using ins(2,3) ix(3) by (simp add: index_ok_def cache_ok_def)
  with ix ins show ?thesis
    unfolding as_ram_new [symmetric] index_run_sim by (simp add: index_lookup_sim)
qed

theorem index_refines_cache_witness:
  "\<exists>ix ev ix'. index_run (new_index 100) [IndexInsert (demo_pk [1]) 60, IndexInsert (demo_pk [1, 2]) 30] = Some ix
    \<and> insert_with_evictions (demo_pk [1, 2, 3]) 50 ix = Some (Inr ev, ix')
    \<and> ev @ pi_lru ix' = filter (\<lambda>x. x \<noteq> fingerprint (demo_pk [1, 2, 3])) (pi_lru ix) @ [fingerprint (demo_pk [1, 2, 3])]
    \<and> pi_total_bytes ix' \<le> 100"
proof -
  have ok: "(100 :: nat) < usize_max" "list_all (\<lambda>op. op_key_ok (\<lambda>_. []) (as_cache_op op))
      [IndexInsert (demo_pk [1]) 60, IndexInsert (demo_pk [1, 2]) 30]" "(50 :: nat) \<le> 100"
    by (simp_all add: usize_max_def demo_key_ok)
  show ?thesis using index_refines_cache [OF ok(1,2) demo_key_ok ok(3), of _ "[1, 2, 3]"] by blast
qed

end
