(* ===== verification/Snapshot.thy ===== *)
theory Snapshot
  imports Causal_State
begin

text \<open>
  Versioned, checksummed snapshots of causal state
  (\<^verbatim>\<open>logan-core/src/state/snapshot.rs\<close>).  SHA-256 comes from the \<^verbatim>\<open>sha2\<close> crate
  and is the parameter \<open>sha\<close>; the engine's codec (the trait \<^verbatim>\<open>CausalStateCodec\<close>) is
  passed as its functions.  Both codecs are proved to be exact inverses of their
  encoders.
\<close>

section \<open>Data\<close>

datatype section_kind =
    AppendOnlyKeys
  | AppendOnlyValues
  | PositionSection
  | RingBuffer
  | MutableFixedSection
  | PageTable
  | OpaqueSection

record snapshot_section =
  se_kind :: section_kind
  se_offset :: nat
  se_length :: nat

datatype snapshot_payload =
    RawPayload "byte list"
  | Sections "snapshot_section list"

record state_snapshot =
  sn_schema_id :: state_schema_id
  sn_prefix_len :: nat
  sn_prefix_hash :: nat
  sn_payload :: snapshot_payload
  sn_checksum :: "byte list"
  sn_generation :: nat

definition snapshot_magic :: "byte list" where
  "snapshot_magic = [0x4C, 0x4F, 0x47, 0x41, 0x4E, 0x53, 0x54, 0x30]"

definition snapshot_format_version :: nat where
  "snapshot_format_version = 1"

definition state_payload_magic :: "byte list" where
  "state_payload_magic = [0x4C, 0x43, 0x53, 0x31]"

fun section_tag :: "section_kind \<Rightarrow> nat" where
  "section_tag AppendOnlyKeys = 1"
| "section_tag AppendOnlyValues = 2"
| "section_tag PositionSection = 3"
| "section_tag RingBuffer = 4"
| "section_tag MutableFixedSection = 5"
| "section_tag PageTable = 6"
| "section_tag OpaqueSection = 7"

definition section_from_tag :: "nat \<Rightarrow> section_kind option" where
  "section_from_tag t =
     (if t = 1 then Some AppendOnlyKeys
      else if t = 2 then Some AppendOnlyValues
      else if t = 3 then Some PositionSection
      else if t = 4 then Some RingBuffer
      else if t = 5 then Some MutableFixedSection
      else if t = 6 then Some PageTable
      else if t = 7 then Some OpaqueSection
      else None)"

fun section_as_str :: "section_kind \<Rightarrow> string" where
  "section_as_str AppendOnlyKeys = ''ak''"
| "section_as_str AppendOnlyValues = ''av''"
| "section_as_str PositionSection = ''pos''"
| "section_as_str RingBuffer = ''rb''"
| "section_as_str MutableFixedSection = ''mf''"
| "section_as_str PageTable = ''pt''"
| "section_as_str OpaqueSection = ''op''"

section \<open>The state payload\<close>

fun encode_causal_state :: "causal_state \<Rightarrow> byte list" where
  "encode_causal_state (AppendOnly s) =
     state_payload_magic @ le_bytes 1 0 @ push_usize (ao_position s) @ push_usize (ao_n_heads s) @
     push_usize (ao_dim s) @ push_f32_vec (ao_keys s) @ push_f32_vec (ao_values s)"
| "encode_causal_state (Ring s) =
     state_payload_magic @ le_bytes 1 1 @ push_usize (ri_capacity s) @ push_usize (ri_write_pos s) @
     push_usize (ri_read_pos s) @ push_usize (ri_len s) @ push_f32_vec (ri_buffer s)"
| "encode_causal_state (MutableFixed s) =
     state_payload_magic @ le_bytes 1 2 @ push_usize (mf_write_pos s) @ push_usize (mf_len s) @
     bool_byte (mf_has_wrapped s) @ push_f32_vec (mf_data s)"
| "encode_causal_state (SparsePaged s) =
     state_payload_magic @ le_bytes 1 3 @ push_usize (sp_page_entries s) @ push_usize (sp_max_pages s) @
     bool_byte (sp_pinned s) @ push_usize (length (sp_page_table s)) @
     concat (map opt_u64 (sp_page_table s)) @ push_usize (length (sp_pages s)) @
     concat (map push_f32_vec (sp_pages s))"
| "encode_causal_state (Opaque data) =
     state_payload_magic @ le_bytes 1 4 @ push_usize (length data) @ data"

definition read_append_only :: "causal_state reader" where
  "read_append_only =
     bind_reader read_usize (\<lambda>position.
     bind_reader read_usize (\<lambda>n_heads.
     bind_reader read_usize (\<lambda>dim.
     bind_reader read_f32_vec (\<lambda>keys.
     bind_reader read_f32_vec (\<lambda>values.
     return_reader (AppendOnly \<lparr>ao_keys = keys, ao_values = values, ao_position = position,
       ao_n_heads = n_heads, ao_dim = dim\<rparr>))))))"

definition read_ring :: "causal_state reader" where
  "read_ring =
     bind_reader read_usize (\<lambda>capacity.
     bind_reader read_usize (\<lambda>write_pos.
     bind_reader read_usize (\<lambda>read_pos.
     bind_reader read_usize (\<lambda>len.
     bind_reader read_f32_vec (\<lambda>buffer.
     return_reader (Ring \<lparr>ri_buffer = buffer, ri_capacity = capacity, ri_write_pos = write_pos,
       ri_read_pos = read_pos, ri_len = len\<rparr>))))))"

definition read_mutable_fixed :: "causal_state reader" where
  "read_mutable_fixed =
     bind_reader read_usize (\<lambda>write_pos.
     bind_reader read_usize (\<lambda>len.
     bind_reader (read_flag ''invalid mutable-state wrapped flag'') (\<lambda>has_wrapped.
     bind_reader read_f32_vec (\<lambda>data.
     return_reader (MutableFixed \<lparr>mf_data = data, mf_write_pos = write_pos, mf_len = len,
       mf_has_wrapped = has_wrapped\<rparr>)))))"

text \<open>\<^verbatim>\<open>Vec::with_capacity\<close> on a length read from the input, before the items are read.\<close>

definition with_capacity :: "nat \<Rightarrow> nat \<Rightarrow> 'a reader \<Rightarrow> 'a reader" where
  "with_capacity n elem f = (if alloc_ok n elem then f else fail_reader CapacityOverflow)"

definition read_sparse_paged :: "causal_state reader" where
  "read_sparse_paged =
     bind_reader read_usize (\<lambda>page_entries.
     bind_reader read_usize (\<lambda>max_pages.
     bind_reader (read_flag ''invalid sparse-state pinned flag'') (\<lambda>pinned.
     bind_reader read_usize (\<lambda>table_len.
     with_capacity table_len 16 (
     bind_reader (read_times table_len (read_opt_u64 ''invalid sparse page-table tag'')) (\<lambda>page_table.
     bind_reader read_usize (\<lambda>page_count.
     with_capacity page_count 24 (
     bind_reader (read_times page_count read_f32_vec) (\<lambda>pages.
     return_reader (SparsePaged \<lparr>sp_page_table = page_table, sp_pages = pages,
       sp_page_entries = page_entries, sp_max_pages = max_pages, sp_pinned = pinned\<rparr>))))))))))"

definition read_opaque :: "causal_state reader" where
  "read_opaque =
     bind_reader read_usize (\<lambda>len. bind_reader (take_bytes len) (\<lambda>data. return_reader (Opaque data)))"

definition read_state_body :: "nat \<Rightarrow> causal_state reader" where
  "read_state_body tag =
     (if tag = 0 then read_append_only
      else if tag = 1 then read_ring
      else if tag = 2 then read_mutable_fixed
      else if tag = 3 then read_sparse_paged
      else if tag = 4 then read_opaque
      else fail_reader (UnknownKind tag))"

definition read_causal_state :: "causal_state reader" where
  "read_causal_state =
     bind_reader (take_bytes 4) (\<lambda>magic.
     if magic \<noteq> state_payload_magic then fail_reader (BadMagic ''bad causal-state payload magic'')
     else bind_reader read_u8 read_state_body)"

text \<open>The check that a reader has used up its input.\<close>

definition finish_reader :: "string \<Rightarrow> wire_error + 'a \<times> byte_cursor \<Rightarrow> wire_error + 'a" where
  "finish_reader msg r =
     (case r of
        Inl e \<Rightarrow> Inl e
      | Inr (v, c) \<Rightarrow> if is_done c then Inr v else Inl (TrailingBytes msg))"

definition decode_causal_state :: "byte list \<Rightarrow> wire_error + causal_state" where
  "decode_causal_state bs =
     finish_reader ''trailing bytes in causal-state payload'' (read_causal_state (new_cursor bs))"

text \<open>The states a 64-bit Rust program can hold: integers in range, vectors within \<^verbatim>\<open>isize::MAX\<close> bytes.\<close>

fun causal_ok :: "causal_state \<Rightarrow> bool" where
  "causal_ok (AppendOnly s) \<longleftrightarrow> ao_position s \<le> usize_max \<and> ao_n_heads s \<le> usize_max \<and>
     ao_dim s \<le> usize_max \<and> length (ao_keys s) * 4 \<le> usize_max \<and> length (ao_values s) * 4 \<le> usize_max"
| "causal_ok (Ring s) \<longleftrightarrow> ri_capacity s \<le> usize_max \<and> ri_write_pos s \<le> usize_max \<and>
     ri_read_pos s \<le> usize_max \<and> ri_len s \<le> usize_max \<and> length (ri_buffer s) * 4 \<le> usize_max"
| "causal_ok (MutableFixed s) \<longleftrightarrow> mf_write_pos s \<le> usize_max \<and> mf_len s \<le> usize_max \<and>
     length (mf_data s) * 4 \<le> usize_max"
| "causal_ok (SparsePaged s) \<longleftrightarrow> sp_page_entries s \<le> usize_max \<and> sp_max_pages s \<le> usize_max \<and>
     alloc_ok (length (sp_page_table s)) 16 \<and> alloc_ok (length (sp_pages s)) 24 \<and>
     list_all (\<lambda>x. \<forall>v. x = Some v \<longrightarrow> v \<le> u64_max) (sp_page_table s) \<and>
     list_all (\<lambda>xs. length xs * 4 \<le> usize_max) (sp_pages s)"
| "causal_ok (Opaque data) \<longleftrightarrow> length data \<le> usize_max"

section \<open>Snapshots\<close>

definition section_bytes :: "snapshot_section \<Rightarrow> byte list" where
  "section_bytes s = le_bytes 1 (section_tag (se_kind s)) @ push_u64 (se_offset s) @ push_u64 (se_length s)"

definition compute_checksum :: "(byte list \<Rightarrow> byte list) \<Rightarrow> snapshot_payload \<Rightarrow> byte list" where
  "compute_checksum sha p =
     (case p of
        RawPayload bytes \<Rightarrow> sha (le_bytes 1 0 @ bytes)
      | Sections ss \<Rightarrow> sha (le_bytes 1 1 @ concat (map section_bytes ss)))"

definition new_snapshot ::
  "(byte list \<Rightarrow> byte list) \<Rightarrow> state_schema_id \<Rightarrow> nat \<Rightarrow> nat \<Rightarrow> causal_state \<Rightarrow> state_snapshot" where
  "new_snapshot sha schema prefix_len prefix_hash s =
     (let payload = RawPayload (encode_causal_state s) in
      \<lparr>sn_schema_id = schema, sn_prefix_len = prefix_len, sn_prefix_hash = prefix_hash,
       sn_payload = payload, sn_checksum = compute_checksum sha payload, sn_generation = 0\<rparr>)"

definition validate_snapshot :: "(byte list \<Rightarrow> byte list) \<Rightarrow> state_snapshot \<Rightarrow> wire_error + unit" where
  "validate_snapshot sha sn =
     (if compute_checksum sha (sn_payload sn) \<noteq> sn_checksum sn then Inl ChecksumMismatch else Inr ())"

definition into_causal_state :: "(byte list \<Rightarrow> byte list) \<Rightarrow> state_snapshot \<Rightarrow> wire_error + causal_state" where
  "into_causal_state sha sn =
     (case validate_snapshot sha sn of
        Inl e \<Rightarrow> Inl e
      | Inr _ \<Rightarrow>
          (case sn_payload sn of
             RawPayload bytes \<Rightarrow> decode_causal_state bytes
           | Sections _ \<Rightarrow> Inl MetadataOnly))"

text \<open>The trait \<^verbatim>\<open>CausalStateCodec\<close> with its engine state.\<close>

record 'e causal_state_codec =
  cc_schema_id :: state_schema_id
  cc_export_state :: "'e \<Rightarrow> nat \<Rightarrow> string + causal_state"
  cc_import_state :: "'e \<Rightarrow> nat \<Rightarrow> causal_state \<Rightarrow> (string + unit) \<times> 'e"

definition capture ::
  "(byte list \<Rightarrow> byte list) \<Rightarrow> 'e causal_state_codec \<Rightarrow> 'e \<Rightarrow> nat \<Rightarrow> nat \<Rightarrow> wire_error + state_snapshot" where
  "capture sha codec engine prefix_len prefix_hash =
     (case cc_export_state codec engine prefix_len of
        Inl e \<Rightarrow> Inl (Engine e)
      | Inr s \<Rightarrow> Inr (new_snapshot sha (cc_schema_id codec) prefix_len prefix_hash s))"

definition restore_with ::
  "(byte list \<Rightarrow> byte list) \<Rightarrow> 'e causal_state_codec \<Rightarrow> state_snapshot \<Rightarrow> 'e \<Rightarrow> nat \<Rightarrow>
     (wire_error + unit) \<times> 'e" where
  "restore_with sha codec sn engine expected =
     (case validate_snapshot sha sn of
        Inl e \<Rightarrow> (Inl e, engine)
      | Inr _ \<Rightarrow>
          if sn_schema_id sn \<noteq> cc_schema_id codec then (Inl WrongSchema, engine)
          else if sn_prefix_hash sn \<noteq> expected then (Inl WrongPrefixHash, engine)
          else (case into_causal_state sha sn of
                  Inl e \<Rightarrow> (Inl e, engine)
                | Inr s \<Rightarrow>
                    (case cc_import_state codec engine (sn_prefix_len sn) s of
                       (Inl e, engine') \<Rightarrow> (Inl (Engine e), engine')
                     | (Inr _, engine') \<Rightarrow> (Inr (), engine'))))"

definition payload_bytes :: "state_snapshot \<Rightarrow> nat" where
  "payload_bytes sn =
     (case sn_payload sn of RawPayload bytes \<Rightarrow> length bytes | Sections ss \<Rightarrow> length ss * (1 + 8 + 8))"

definition payload_kind :: "snapshot_payload \<Rightarrow> nat" where
  "payload_kind p = (case p of RawPayload _ \<Rightarrow> 0 | Sections _ \<Rightarrow> 1)"

definition payload_data :: "snapshot_payload \<Rightarrow> byte list" where
  "payload_data p = (case p of RawPayload bytes \<Rightarrow> bytes | Sections ss \<Rightarrow> concat (map section_bytes ss))"

definition to_bytes :: "(byte list \<Rightarrow> byte list) \<Rightarrow> state_snapshot \<Rightarrow> wire_error + byte list" where
  "to_bytes sha sn =
     (case validate_snapshot sha sn of
        Inl e \<Rightarrow> Inl e
      | Inr _ \<Rightarrow>
          (let engine = ss_engine (sn_schema_id sn); payload = payload_data (sn_payload sn) in
           if u32_max < length engine then Inl NameTooLong
           else Inr (snapshot_magic @ le_bytes 4 snapshot_format_version @ le_bytes 4 (length engine) @
             engine @ le_bytes 4 (ss_version (sn_schema_id sn)) @
             le_bytes 4 (ss_sub_version (sn_schema_id sn)) @ push_u64 (sn_prefix_len sn) @
             push_u64 (sn_prefix_hash sn) @ push_u64 (sn_generation sn) @
             le_bytes 1 (payload_kind (sn_payload sn)) @ push_u64 (length payload) @ payload @
             sn_checksum sn)))"

section \<open>Parsing snapshots\<close>

text \<open>The fields of a snapshot as they stand in the file.\<close>

record snapshot_fields =
  sf_engine :: "byte list"
  sf_version :: nat
  sf_sub_version :: nat
  sf_prefix_len :: nat
  sf_prefix_hash :: nat
  sf_generation :: nat
  sf_payload_kind :: nat
  sf_payload :: "byte list"
  sf_checksum :: "byte list"

definition read_snapshot_fields :: "snapshot_fields reader" where
  "read_snapshot_fields =
     bind_reader (take_bytes 8) (\<lambda>magic.
     if magic \<noteq> snapshot_magic then fail_reader (BadMagic ''bad state snapshot magic'') else
     bind_reader read_u32 (\<lambda>format.
     if format \<noteq> snapshot_format_version then fail_reader (UnsupportedVersion format) else
     bind_reader read_u32 (\<lambda>engine_len.
     bind_reader (take_bytes engine_len) (\<lambda>engine.
     if \<not> utf8_ok engine then fail_reader NotUtf8 else
     bind_reader read_u32 (\<lambda>version.
     bind_reader read_u32 (\<lambda>sub_version.
     bind_reader read_usize (\<lambda>prefix_len.
     bind_reader read_u64 (\<lambda>prefix_hash.
     bind_reader read_u64 (\<lambda>gen.
     bind_reader read_u8 (\<lambda>kind.
     bind_reader read_usize (\<lambda>payload_len.
     bind_reader (take_bytes payload_len) (\<lambda>payload.
     bind_reader (take_bytes 32) (\<lambda>checksum.
     return_reader \<lparr>sf_engine = engine, sf_version = version, sf_sub_version = sub_version,
       sf_prefix_len = prefix_len, sf_prefix_hash = prefix_hash, sf_generation = gen,
       sf_payload_kind = kind, sf_payload = payload, sf_checksum = checksum\<rparr>)))))))))))))"

definition read_section :: "snapshot_section reader" where
  "read_section =
     bind_reader read_u8 (\<lambda>t.
     case section_from_tag t of
       None \<Rightarrow> fail_reader (InvalidTag ''invalid section kind'')
     | Some kind \<Rightarrow>
         bind_reader read_usize (\<lambda>off. bind_reader read_usize (\<lambda>len.
         return_reader \<lparr>se_kind = kind, se_offset = off, se_length = len\<rparr>)))"

lemma take_bytes_advances:
  "take_bytes n c = Inr (v, c') \<Longrightarrow>
     cu_bytes c' = cu_bytes c \<and> cu_off c' = cu_off c + n \<and> cu_off c' \<le> length (cu_bytes c)"
  by (auto simp: take_bytes_def checked_add_usize_def split: option.splits if_splits)

lemma read_section_advances:
  "read_section c = Inr (v, c') \<Longrightarrow> cu_bytes c' = cu_bytes c \<and> cu_off c < cu_off c' \<and>
     cu_off c' \<le> length (cu_bytes c)"
  by (auto simp: read_section_def bind_reader_def return_reader_def fail_reader_def read_u8_def
      read_usize_def read_u64_def split: sum.splits option.splits if_splits dest!: take_bytes_advances)

text \<open>The \<^verbatim>\<open>while !c.is_done()\<close> loop.\<close>

function sections_loop :: "byte_cursor \<Rightarrow> wire_error + snapshot_section list" where
  "sections_loop c =
     (if is_done c then Inr []
      else case read_section c of
             Inl e \<Rightarrow> Inl e
           | Inr (s, c') \<Rightarrow>
               (case sections_loop c' of Inl e \<Rightarrow> Inl e | Inr ss \<Rightarrow> Inr (s # ss)))"
  by pat_completeness auto
termination
  by (relation "measure (\<lambda>c. length (cu_bytes c) - cu_off c)")
    (auto dest!: read_section_advances)

declare sections_loop.simps [simp del]

definition parse_payload :: "nat \<Rightarrow> byte list \<Rightarrow> wire_error + snapshot_payload" where
  "parse_payload kind bytes =
     (if kind = 0 then Inr (RawPayload bytes)
      else if kind = 1 then
        (if length bytes mod 17 \<noteq> 0 then Inl InvalidSectionLength
         else (case sections_loop (new_cursor bytes) of Inl e \<Rightarrow> Inl e | Inr ss \<Rightarrow> Inr (Sections ss)))
      else Inl (UnknownKind kind))"

definition from_bytes :: "(byte list \<Rightarrow> byte list) \<Rightarrow> byte list \<Rightarrow> wire_error + state_snapshot" where
  "from_bytes sha bs =
     (case finish_reader ''trailing bytes after state snapshot'' (read_snapshot_fields (new_cursor bs)) of
        Inl e \<Rightarrow> Inl e
      | Inr f \<Rightarrow>
          (case parse_payload (sf_payload_kind f) (sf_payload f) of
             Inl e \<Rightarrow> Inl e
           | Inr payload \<Rightarrow>
               (let sn = \<lparr>sn_schema_id = new_schema_id (sf_engine f) (sf_version f) (sf_sub_version f),
                      sn_prefix_len = sf_prefix_len f, sn_prefix_hash = sf_prefix_hash f,
                      sn_payload = payload, sn_checksum = sf_checksum f, sn_generation = sf_generation f\<rparr>
                in case validate_snapshot sha sn of Inl e \<Rightarrow> Inl e | Inr _ \<Rightarrow> Inr sn)))"

section \<open>The payload codec is exact\<close>

lemma alloc_usize:
  assumes "alloc_ok n elem" "0 < elem"
  shows "n \<le> usize_max"
proof -
  have "n \<le> n * elem" using assms(2) by simp
  also have "\<dots> \<le> isize_max" using assms(1) by (simp add: alloc_ok_def)
  also have "\<dots> \<le> usize_max" by (simp add: isize_max_def usize_max_def)
  finally show ?thesis .
qed

text \<open>A field followed by a continuation, in the shape the readers have.\<close>

lemma reads_field:
  "wire_field enc dec good \<Longrightarrow> good v \<Longrightarrow> reads (g v) bs w \<Longrightarrow> reads (bind_reader dec g) (enc v @ bs) w"
  by (rule reads_bind [OF wire_field.dec_enc])

lemmas fields = usize.wire_field_axioms f32_vec.wire_field_axioms flag.wire_field_axioms
  u8.wire_field_axioms u32.wire_field_axioms u64.wire_field_axioms opt_u64.wire_field_axioms

lemma reads_last: "reads f (bs @ []) v \<Longrightarrow> reads f bs v"
  by simp

lemma reads_append_only:
  "causal_ok (AppendOnly s) \<Longrightarrow> reads read_append_only (push_usize (ao_position s) @ push_usize (ao_n_heads s) @
     push_usize (ao_dim s) @ push_f32_vec (ao_keys s) @ push_f32_vec (ao_values s)) (AppendOnly s)"
  unfolding read_append_only_def
  by (cases s, rule reads_last, simp only: append.assoc)
    (intro reads_field [OF usize.wire_field_axioms] reads_field [OF f32_vec.wire_field_axioms],
      simp_all add: reads_return)

lemma reads_ring:
  "causal_ok (Ring s) \<Longrightarrow> reads read_ring (push_usize (ri_capacity s) @ push_usize (ri_write_pos s) @
     push_usize (ri_read_pos s) @ push_usize (ri_len s) @ push_f32_vec (ri_buffer s)) (Ring s)"
  unfolding read_ring_def
  by (cases s, rule reads_last, simp only: append.assoc)
    (intro reads_field [OF usize.wire_field_axioms] reads_field [OF f32_vec.wire_field_axioms],
      simp_all add: reads_return)

lemma reads_mutable_fixed:
  "causal_ok (MutableFixed s) \<Longrightarrow> reads read_mutable_fixed (push_usize (mf_write_pos s) @ push_usize (mf_len s) @
     bool_byte (mf_has_wrapped s) @ push_f32_vec (mf_data s)) (MutableFixed s)"
  unfolding read_mutable_fixed_def
  by (cases s, rule reads_last, simp only: append.assoc)
    (intro reads_field [OF usize.wire_field_axioms] reads_field [OF f32_vec.wire_field_axioms]
       reads_field [OF flag.wire_field_axioms], simp_all add: reads_return)

lemma reads_times:
  "wire_field enc dec good \<Longrightarrow> list_all good vs \<Longrightarrow> n = length vs \<Longrightarrow> reads (g vs) bs w \<Longrightarrow>
     reads (bind_reader (read_times n dec) g) (concat (map enc vs) @ bs) w"
  using reads_bind [OF wire_field.times_reads, of enc dec good vs g bs w] by simp

lemma reads_capacity: "alloc_ok n elem \<Longrightarrow> reads f bs v \<Longrightarrow> reads (with_capacity n elem f) bs v"
  by (simp add: with_capacity_def)

lemma reads_sparse_paged:
  "causal_ok (SparsePaged s) \<Longrightarrow> reads read_sparse_paged (push_usize (sp_page_entries s) @
     push_usize (sp_max_pages s) @ bool_byte (sp_pinned s) @ push_usize (length (sp_page_table s)) @
     concat (map opt_u64 (sp_page_table s)) @ push_usize (length (sp_pages s)) @
     concat (map push_f32_vec (sp_pages s))) (SparsePaged s)"
  unfolding read_sparse_paged_def
  by (cases s, rule reads_last, simp only: append.assoc)
    (intro reads_field [OF usize.wire_field_axioms] reads_field [OF flag.wire_field_axioms]
       reads_capacity reads_times [OF opt_u64.wire_field_axioms] reads_times [OF f32_vec.wire_field_axioms],
     auto simp: reads_return dest: alloc_usize)

lemma reads_opaque:
  "causal_ok (Opaque data) \<Longrightarrow> reads read_opaque (push_usize (length data) @ data) (Opaque data)"
  unfolding read_opaque_def
  by (rule reads_last, simp only: append.assoc)
    (intro reads_field [OF usize.wire_field_axioms] reads_bind [OF reads_take reads_return], simp_all)

lemma reads_causal_state:
  assumes "causal_ok s"
  shows "reads read_causal_state (encode_causal_state s) s"
proof -
  have tagged: "reads read_causal_state (state_payload_magic @ le_bytes 1 t @ bs) v"
    if "reads (read_state_body t) bs v" "t < 256" for t bs v
    unfolding read_causal_state_def
    by (rule reads_bind [OF reads_take])
      (use that in \<open>simp_all add: state_payload_magic_def reads_field [OF u8.wire_field_axioms]
         del: le_bytes.simps One_nat_def\<close>)
  show ?thesis
    using assms
    by (cases s) (auto intro!: tagged reads_append_only reads_ring reads_mutable_fixed
        reads_sparse_paged reads_opaque simp: read_state_body_def
        simp del: causal_ok.simps le_bytes.simps One_nat_def)
qed

lemma exact_append_only:
  "exact read_append_only (\<lambda>bs v. encode_causal_state v = state_payload_magic @ le_bytes 1 0 @ bs \<and> causal_ok v)"
  unfolding read_append_only_def
  by (rule exact_weaken, (rule exact_bind_field [OF usize.wire_field_axioms] exact_bind_field
        [OF f32_vec.wire_field_axioms] exact_return)+) auto

lemma exact_ring:
  "exact read_ring (\<lambda>bs v. encode_causal_state v = state_payload_magic @ le_bytes 1 1 @ bs \<and> causal_ok v)"
  unfolding read_ring_def
  by (rule exact_weaken, (rule exact_bind_field [OF usize.wire_field_axioms] exact_bind_field
        [OF f32_vec.wire_field_axioms] exact_return)+) auto

lemma exact_mutable_fixed:
  "exact read_mutable_fixed
     (\<lambda>bs v. encode_causal_state v = state_payload_magic @ le_bytes 1 2 @ bs \<and> causal_ok v)"
  unfolding read_mutable_fixed_def
  by (rule exact_weaken, (rule exact_bind_field [OF usize.wire_field_axioms] exact_bind_field
        [OF f32_vec.wire_field_axioms] exact_bind_field [OF flag.wire_field_axioms] exact_return)+) auto

lemma exact_capacity:
  "exact f R \<Longrightarrow> exact (with_capacity n elem f) (\<lambda>bs v. alloc_ok n elem \<and> R bs v)"
  by (simp add: with_capacity_def exact_fail)

lemma exact_sparse_paged:
  "exact read_sparse_paged
     (\<lambda>bs v. encode_causal_state v = state_payload_magic @ le_bytes 1 3 @ bs \<and> causal_ok v)"
  unfolding read_sparse_paged_def
  by (rule exact_weaken, (rule exact_bind_field [OF usize.wire_field_axioms] exact_bind_field
        [OF flag.wire_field_axioms] exact_capacity exact_bind [OF opt_u64.times_exact]
        exact_bind [OF f32_vec.times_exact] exact_return)+) auto

lemma exact_opaque:
  "exact read_opaque (\<lambda>bs v. encode_causal_state v = state_payload_magic @ le_bytes 1 4 @ bs \<and> causal_ok v)"
  unfolding read_opaque_def
  by (rule exact_weaken, rule exact_bind_field [OF usize.wire_field_axioms],
      rule exact_bind [OF exact_take], rule exact_return) auto

lemma exact_state_body:
  "exact (read_state_body t) (\<lambda>bs v. encode_causal_state v = state_payload_magic @ le_bytes 1 t @ bs \<and> causal_ok v)"
  using exact_append_only exact_ring exact_mutable_fixed exact_sparse_paged exact_opaque
  by (simp add: read_state_body_def exact_fail del: le_bytes.simps One_nat_def)

lemma exact_causal_state: "exact read_causal_state (\<lambda>bs v. bs = encode_causal_state v \<and> causal_ok v)"
  unfolding read_causal_state_def
  by (rule exact_weaken, rule exact_bind [OF exact_take, where
        S = "\<lambda>m bs v. m = state_payload_magic \<and> (m @ bs = encode_causal_state v \<and> causal_ok v)"])
    (auto simp: exact_fail intro!: exact_weaken [OF exact_bind_field [OF u8.wire_field_axioms exact_state_body]]
      simp del: le_bytes.simps)

text \<open>Running a reader over a whole input.\<close>

lemma new_cursor_ok: "length bs \<le> usize_max \<Longrightarrow> cursor_ok (new_cursor bs)"
  by (simp add: cursor_ok_def new_cursor_def)

lemma remaining_new [simp]: "remaining (new_cursor bs) = bs"
  by (simp add: remaining_def new_cursor_def)

lemma is_done_iff: "cursor_ok c \<Longrightarrow> is_done c \<longleftrightarrow> remaining c = []"
  by (auto simp: is_done_def cursor_ok_def remaining_def)

lemma finish_iff:
  assumes reads: "\<And>v. good v \<Longrightarrow> reads f (enc v) v" and exact: "exact f (\<lambda>bs v. bs = enc v \<and> good v)"
    and len: "length bs \<le> usize_max"
  shows "finish_reader msg (f (new_cursor bs)) = Inr v \<longleftrightarrow> bs = enc v \<and> good v"
proof
  assume "finish_reader msg (f (new_cursor bs)) = Inr v"
  then obtain c where run: "f (new_cursor bs) = Inr (v, c)" and fin: "is_done c"
    by (auto simp: finish_reader_def split: sum.splits prod.splits if_splits)
  obtain b where "cursor_ok c" "remaining (new_cursor bs) = b @ remaining c" "b = enc v \<and> good v"
    by (rule exactD [OF exact new_cursor_ok [OF len] run])
  with fin show "bs = enc v \<and> good v" by (simp add: is_done_iff)
next
  assume v: "bs = enc v \<and> good v"
  then have "reads f (enc v) v" by (simp add: reads)
  moreover have "remaining (new_cursor bs) = enc v @ []" using v by simp
  ultimately obtain c where "f (new_cursor bs) = Inr (v, c)" "cursor_ok c" "remaining c = []"
    using new_cursor_ok [OF len] unfolding reads_def by blast
  then show "finish_reader msg (f (new_cursor bs)) = Inr v"
    by (simp add: finish_reader_def is_done_iff)
qed

text \<open>
  C11: The causal-state payload format is exact in both directions.  For every
  byte string that fits memory, decoding it yields a state if and only if the
  string is precisely the encoding of that state and the state is one that a
  64-bit program can hold: every state survives a round trip, and no truncated,
  padded, differently tagged or otherwise altered string decodes to anything
  but the state it encodes.
\<close>

theorem causal_state_codec_exact:
  assumes "length bs \<le> usize_max"
  shows "decode_causal_state bs = Inr s \<longleftrightarrow> bs = encode_causal_state s \<and> causal_ok s"
  unfolding decode_causal_state_def
  by (rule finish_iff [OF reads_causal_state exact_causal_state assms])

theorem causal_state_codec_exact_witness:
  "decode_causal_state (encode_causal_state (Opaque [1, 2, 3])) = Inr (Opaque [1, 2, 3]) \<and>
   decode_causal_state (encode_causal_state (Opaque [1, 2, 3]) @ [0]) \<noteq> Inr (Opaque [1, 2, 3])"
  using causal_state_codec_exact [of "encode_causal_state (Opaque [1, 2, 3])" "Opaque [1, 2, 3]"]
    causal_state_codec_exact [of "encode_causal_state (Opaque [1, 2, 3]) @ [0]" "Opaque [1, 2, 3]"]
  by (simp add: state_payload_magic_def push_usize_def push_u64_def usize_max_def)

section \<open>The snapshot format is exact\<close>

definition section_ok :: "snapshot_section \<Rightarrow> bool" where
  "section_ok s \<longleftrightarrow> se_offset s \<le> usize_max \<and> se_length s \<le> usize_max"

definition snapshot_ok :: "state_snapshot \<Rightarrow> bool" where
  "snapshot_ok sn \<longleftrightarrow>
     utf8_ok (ss_engine (sn_schema_id sn)) \<and> ss_version (sn_schema_id sn) \<le> u32_max
   \<and> ss_sub_version (sn_schema_id sn) \<le> u32_max \<and> sn_prefix_len sn \<le> usize_max
   \<and> sn_prefix_hash sn \<le> u64_max \<and> sn_generation sn \<le> u64_max \<and> length (sn_checksum sn) = 32
   \<and> (\<forall>ss. sn_payload sn = Sections ss \<longrightarrow> list_all section_ok ss)"

lemma section_from_tag_iff: "section_from_tag t = Some k \<longleftrightarrow> t = section_tag k"
  by (cases k) (auto simp: section_from_tag_def split: if_splits)

lemma section_tag_lt: "section_tag k < 256"
  by (cases k) simp_all

lemma push_usize_u64: "push_usize = push_u64"
  by (simp add: push_usize_def fun_eq_iff)

interpretation sect: wire_field section_bytes read_section section_ok
proof
  fix s
  assume ok: "section_ok s"
  have "reads (bind_reader read_usize (\<lambda>off. bind_reader read_usize (\<lambda>len.
         return_reader \<lparr>se_kind = se_kind s, se_offset = off, se_length = len\<rparr>)))
      (push_usize (se_offset s) @ push_usize (se_length s) @ []) s"
    using ok by (cases s) (intro reads_field [OF usize.wire_field_axioms], simp_all add: section_ok_def reads_return)
  then have "reads (bind_reader read_u8 (\<lambda>t. case section_from_tag t of
       None \<Rightarrow> fail_reader (InvalidTag ''invalid section kind'')
     | Some kind \<Rightarrow> bind_reader read_usize (\<lambda>off. bind_reader read_usize (\<lambda>len.
         return_reader \<lparr>se_kind = kind, se_offset = off, se_length = len\<rparr>))))
      (le_bytes 1 (section_tag (se_kind s)) @ push_usize (se_offset s) @ push_usize (se_length s)) s"
    using section_from_tag_iff [of "section_tag (se_kind s)" "se_kind s"]
    by (intro reads_field [OF u8.wire_field_axioms section_tag_lt]) simp
  then show "reads read_section (section_bytes s) s"
    by (simp only: read_section_def section_bytes_def push_usize_u64)
next
  have body: "exact (case section_from_tag t of
       None \<Rightarrow> fail_reader (InvalidTag ''invalid section kind'')
     | Some kind \<Rightarrow> bind_reader read_usize (\<lambda>off. bind_reader read_usize (\<lambda>len.
         return_reader \<lparr>se_kind = kind, se_offset = off, se_length = len\<rparr>)))
     (\<lambda>bs s. t = section_tag (se_kind s) \<and> bs = push_u64 (se_offset s) @ push_u64 (se_length s) \<and> section_ok s)"
    for t
  proof (cases "section_from_tag t")
    case (Some k)
    have "exact (bind_reader read_usize (\<lambda>off. bind_reader read_usize (\<lambda>len.
         return_reader \<lparr>se_kind = k, se_offset = off, se_length = len\<rparr>)))
     (\<lambda>bs s. t = section_tag (se_kind s) \<and> bs = push_u64 (se_offset s) @ push_u64 (se_length s) \<and> section_ok s)"
      using Some
      by (rule_tac exact_weaken, (rule_tac exact_bind_field [OF usize.wire_field_axioms] exact_return)+)
        (auto simp: section_from_tag_iff push_usize_u64 section_ok_def)
    with Some show ?thesis by simp
  qed (simp add: exact_fail)
  show "exact read_section (\<lambda>bs s. bs = section_bytes s \<and> section_ok s)"
    unfolding read_section_def
    by (rule exact_weaken [OF exact_bind_field [OF u8.wire_field_axioms body]]) (auto simp: section_bytes_def)
qed

lemma length_section_bytes [simp]: "length (section_bytes s) = 17"
  by (simp add: section_bytes_def push_u64_def)

lemma sections_loop_reads:
  "list_all section_ok ss \<Longrightarrow> cursor_ok c \<Longrightarrow> remaining c = concat (map section_bytes ss) \<Longrightarrow>
     sections_loop c = Inr ss"
proof (induction ss arbitrary: c)
  case Nil
  then show ?case by (subst sections_loop.simps) (simp add: is_done_iff)
next
  case (Cons s ss)
  have nonempty: "\<not> is_done c"
  proof
    assume "is_done c"
    with Cons.prems have "length (concat (map section_bytes (s # ss))) = 0" by (simp add: is_done_iff)
    then show False by simp
  qed
  have "reads read_section (section_bytes s) s" using Cons.prems by (intro sect.dec_enc) simp
  then obtain c' where "read_section c = Inr (s, c')" "cursor_ok c'" "remaining c' = concat (map section_bytes ss)"
    using Cons.prems unfolding reads_def by auto
  then show ?case using Cons nonempty by (subst sections_loop.simps) simp
qed

lemma sections_loop_exact:
  "cursor_ok c \<Longrightarrow> sections_loop c = Inr ss \<Longrightarrow>
     remaining c = concat (map section_bytes ss) \<and> list_all section_ok ss"
proof (induction c arbitrary: ss rule: sections_loop.induct)
  case (1 c)
  show ?case
  proof (cases "is_done c")
    case True
    with "1.prems" show ?thesis by (simp add: sections_loop.simps [of c] is_done_iff)
  next
    case False
    with "1.prems" obtain s c' ss' where run: "read_section c = Inr (s, c')" "sections_loop c' = Inr ss'" "ss = s # ss'"
      by (auto simp: sections_loop.simps [of c] split: sum.splits)
    obtain b where "cursor_ok c'" "remaining c = b @ remaining c'" "b = section_bytes s \<and> section_ok s"
      by (rule exactD [OF sect.enc_dec "1.prems"(1) run(1)])
    with "1.IH" [OF False run(1) refl _ run(2)] run(3) show ?thesis by simp
  qed
qed

lemma length_sections [simp]: "length (concat (map section_bytes ss)) = 17 * length ss"
  by (induction ss) simp_all

lemma parse_payload_iff:
  assumes "length bytes \<le> usize_max"
  shows "parse_payload kind bytes = Inr p \<longleftrightarrow>
    kind = payload_kind p \<and> bytes = payload_data p \<and> (\<forall>ss. p = Sections ss \<longrightarrow> list_all section_ok ss)"
proof (cases p)
  case (RawPayload x)
  then show ?thesis
    by (auto simp: parse_payload_def payload_kind_def payload_data_def split: sum.split)
next
  case (Sections ss)
  have "sections_loop (new_cursor bytes) = Inr ss \<longleftrightarrow>
      bytes = concat (map section_bytes ss) \<and> list_all section_ok ss"
    using sections_loop_reads [of ss "new_cursor bytes"] sections_loop_exact [of "new_cursor bytes" ss]
      new_cursor_ok [OF assms] by auto
  then show ?thesis
    using Sections by (auto simp: parse_payload_def payload_kind_def payload_data_def split: sum.splits)
qed

definition fields_bytes :: "snapshot_fields \<Rightarrow> byte list" where
  "fields_bytes f = snapshot_magic @ le_bytes 4 snapshot_format_version @ le_bytes 4 (length (sf_engine f)) @
     sf_engine f @ le_bytes 4 (sf_version f) @ le_bytes 4 (sf_sub_version f) @
     push_usize (sf_prefix_len f) @ push_u64 (sf_prefix_hash f) @ push_u64 (sf_generation f) @
     le_bytes 1 (sf_payload_kind f) @ push_usize (length (sf_payload f)) @ sf_payload f @ sf_checksum f"

definition fields_ok :: "snapshot_fields \<Rightarrow> bool" where
  "fields_ok f \<longleftrightarrow> utf8_ok (sf_engine f) \<and> length (sf_engine f) \<le> u32_max \<and> sf_version f \<le> u32_max \<and>
     sf_sub_version f \<le> u32_max \<and> sf_prefix_len f \<le> usize_max \<and> sf_prefix_hash f \<le> u64_max \<and>
     sf_generation f \<le> u64_max \<and> sf_payload_kind f < 256 \<and> length (sf_payload f) \<le> usize_max \<and>
     length (sf_checksum f) = 32"

lemma reads_taken: "length x = n \<Longrightarrow> reads (g x) bs w \<Longrightarrow> reads (bind_reader (take_bytes n) g) (x @ bs) w"
  by (rule reads_bind [OF reads_take])

lemma reads_guard: "\<not> b \<Longrightarrow> reads f bs v \<Longrightarrow> reads (if b then fail_reader e else f) bs v"
  by simp

lemma reads_snapshot_fields:
  "fields_ok f \<Longrightarrow> reads read_snapshot_fields (fields_bytes f) f"
  unfolding read_snapshot_fields_def fields_bytes_def
  by (cases f, rule reads_last, simp only: append.assoc)
    (intro reads_taken reads_guard reads_field [OF u32.wire_field_axioms] reads_field [OF u64.wire_field_axioms]
       reads_field [OF usize.wire_field_axioms] reads_field [OF u8.wire_field_axioms],
     simp_all add: fields_ok_def reads_return snapshot_magic_def snapshot_format_version_def rust_int)

lemma exact_guard: "exact f R \<Longrightarrow> exact (if b then fail_reader e else f) (\<lambda>bs v. \<not> b \<and> R bs v)"
  by (simp add: exact_fail)

lemma exact_snapshot_fields: "exact read_snapshot_fields (\<lambda>bs f. bs = fields_bytes f \<and> fields_ok f)"
  unfolding read_snapshot_fields_def
  by (rule exact_weaken, (rule exact_guard exact_bind_field [OF u32.wire_field_axioms]
        exact_bind_field [OF u64.wire_field_axioms] exact_bind_field [OF usize.wire_field_axioms]
        exact_bind_field [OF u8.wire_field_axioms] exact_bind [OF exact_take] exact_return)+)
    (auto simp: fields_bytes_def fields_ok_def)

lemma snapshot_fields_iff:
  "length bs \<le> usize_max \<Longrightarrow>
     finish_reader msg (read_snapshot_fields (new_cursor bs)) = Inr f \<longleftrightarrow> bs = fields_bytes f \<and> fields_ok f"
  by (rule finish_iff [OF reads_snapshot_fields exact_snapshot_fields])

definition fields_of :: "state_snapshot \<Rightarrow> snapshot_fields" where
  "fields_of sn = \<lparr>sf_engine = ss_engine (sn_schema_id sn), sf_version = ss_version (sn_schema_id sn),
     sf_sub_version = ss_sub_version (sn_schema_id sn), sf_prefix_len = sn_prefix_len sn,
     sf_prefix_hash = sn_prefix_hash sn, sf_generation = sn_generation sn,
     sf_payload_kind = payload_kind (sn_payload sn), sf_payload = payload_data (sn_payload sn),
     sf_checksum = sn_checksum sn\<rparr>"

lemma to_bytes_iff:
  "to_bytes sha sn = Inr bs \<longleftrightarrow>
     validate_snapshot sha sn = Inr () \<and> length (ss_engine (sn_schema_id sn)) \<le> u32_max \<and>
     bs = fields_bytes (fields_of sn)"
  by (auto simp: to_bytes_def fields_bytes_def fields_of_def Let_def push_usize_u64 split: sum.splits if_splits)

lemma payload_kind_lt: "payload_kind p < 256"
  by (cases p) (simp_all add: payload_kind_def)

lemma from_bytes_iff:
  assumes len: "length bs \<le> usize_max"
  shows "from_bytes sha bs = Inr sn \<longleftrightarrow> to_bytes sha sn = Inr bs \<and> snapshot_ok sn"
proof
  assume "from_bytes sha bs = Inr sn"
  then obtain f p where f: "finish_reader ''trailing bytes after state snapshot''
        (read_snapshot_fields (new_cursor bs)) = Inr f"
    and p: "parse_payload (sf_payload_kind f) (sf_payload f) = Inr p"
    and sn: "sn = \<lparr>sn_schema_id = new_schema_id (sf_engine f) (sf_version f) (sf_sub_version f),
        sn_prefix_len = sf_prefix_len f, sn_prefix_hash = sf_prefix_hash f, sn_payload = p,
        sn_checksum = sf_checksum f, sn_generation = sf_generation f\<rparr>"
    and valid: "validate_snapshot sha sn = Inr ()"
    unfolding from_bytes_def by (auto simp: Let_def split: sum.splits)
  from f have bs: "bs = fields_bytes f" and ok: "fields_ok f" by (simp_all add: snapshot_fields_iff [OF len])
  then have small: "length (sf_payload f) \<le> usize_max" by (simp add: fields_ok_def)
  from p have p': "sf_payload_kind f = payload_kind p" "sf_payload f = payload_data p"
    "\<forall>ss. p = Sections ss \<longrightarrow> list_all section_ok ss" by (simp_all add: parse_payload_iff [OF small])
  then have "fields_of sn = f" by (simp add: fields_of_def sn new_schema_id_def)
  with bs ok valid p' show "to_bytes sha sn = Inr bs \<and> snapshot_ok sn"
    unfolding to_bytes_iff by (simp add: sn snapshot_ok_def fields_ok_def new_schema_id_def)
next
  assume asm: "to_bytes sha sn = Inr bs \<and> snapshot_ok sn"
  then have valid: "validate_snapshot sha sn = Inr ()" and bs: "bs = fields_bytes (fields_of sn)"
    and name: "length (ss_engine (sn_schema_id sn)) \<le> u32_max" by (simp_all add: to_bytes_iff)
  have small: "length (payload_data (sn_payload sn)) \<le> usize_max"
    using len by (simp add: bs fields_bytes_def fields_of_def)
  have "fields_ok (fields_of sn)"
    using asm name small payload_kind_lt by (simp add: fields_ok_def fields_of_def snapshot_ok_def)
  with bs have f: "finish_reader ''trailing bytes after state snapshot''
        (read_snapshot_fields (new_cursor bs)) = Inr (fields_of sn)"
    unfolding snapshot_fields_iff [OF len] by simp
  have p: "parse_payload (payload_kind (sn_payload sn)) (payload_data (sn_payload sn)) = Inr (sn_payload sn)"
    using asm by (simp add: parse_payload_iff [OF small] snapshot_ok_def)
  have "\<lparr>sn_schema_id = new_schema_id (ss_engine (sn_schema_id sn)) (ss_version (sn_schema_id sn))
      (ss_sub_version (sn_schema_id sn)), sn_prefix_len = sn_prefix_len sn, sn_prefix_hash = sn_prefix_hash sn,
      sn_payload = sn_payload sn, sn_checksum = sn_checksum sn, sn_generation = sn_generation sn\<rparr> = sn"
    by (cases sn; cases "sn_schema_id sn") (simp add: new_schema_id_def)
  then show "from_bytes sha bs = Inr sn"
    using f p valid by (simp add: from_bytes_def fields_of_def Let_def)
qed

text \<open>
  C12: The stored snapshot format is exact in both directions.  A byte string
  that fits memory is accepted as a snapshot if and only if it is precisely what
  \<^verbatim>\<open>to_bytes\<close> writes for that snapshot and the snapshot's fields are in range; in
  particular every written snapshot is read back unchanged, and every accepted
  string carries the checksum of its own payload, a UTF-8 engine name and no
  trailing bytes.
\<close>

theorem snapshot_codec_exact:
  assumes "length bs \<le> usize_max"
  shows "from_bytes sha bs = Inr sn \<longleftrightarrow> to_bytes sha sn = Inr bs \<and> snapshot_ok sn"
  by (rule from_bytes_iff [OF assms])

definition demo_sha :: "byte list \<Rightarrow> byte list" where
  "demo_sha bs = replicate 32 (sum_list bs)"

definition demo_snapshot :: state_snapshot where
  "demo_snapshot = new_snapshot demo_sha (new_schema_id [0x71, 0x34] 1 0) 7 99 (Opaque [1, 2, 3])"

theorem snapshot_codec_exact_witness:
  "\<exists>bs. to_bytes demo_sha demo_snapshot = Inr bs \<and> from_bytes demo_sha bs = Inr demo_snapshot"
proof -
  obtain bs where bs: "to_bytes demo_sha demo_snapshot = Inr bs"
    by (simp add: to_bytes_iff validate_snapshot_def demo_snapshot_def new_snapshot_def Let_def
        new_schema_id_def rust_int)
  then have "length bs \<le> usize_max"
    by (simp add: to_bytes_iff fields_bytes_def fields_of_def demo_snapshot_def new_snapshot_def Let_def
        new_schema_id_def payload_data_def state_payload_magic_def snapshot_magic_def push_u64_def
        push_usize_def compute_checksum_def demo_sha_def rust_int)
  moreover have "snapshot_ok demo_snapshot"
    by (simp add: snapshot_ok_def demo_snapshot_def new_snapshot_def Let_def new_schema_id_def
        compute_checksum_def demo_sha_def utf8_ok.simps rust_int)
  ultimately show ?thesis using snapshot_codec_exact [of bs demo_sha demo_snapshot] bs by blast
qed

text \<open>
  Restoring a captured snapshot gives the engine back exactly the state it
  exported: under the schema and prefix hash it was captured with, restoring
  imports that very state at the captured prefix length.  With another schema
  or another prefix hash, or once the payload no longer matches its checksum,
  restoring is refused with the corresponding error and the engine is untouched.
\<close>

lemma capture_restore:
  assumes export: "cc_export_state codec engine n = Inr s" and ok: "causal_ok s"
    and fits: "length (encode_causal_state s) \<le> usize_max"
    and cap: "capture sha codec engine n h = Inr sn"
  shows "restore_with sha codec sn target h =
      (case cc_import_state codec target n s of
         (Inl e, t) \<Rightarrow> (Inl (Engine e), t) | (Inr _, t) \<Rightarrow> (Inr (), t))
    \<and> (h' \<noteq> h \<longrightarrow> restore_with sha codec sn target h' = (Inl WrongPrefixHash, target))
    \<and> (cc_schema_id other \<noteq> cc_schema_id codec \<longrightarrow>
        restore_with sha other sn target' h = (Inl WrongSchema, target'))
    \<and> (compute_checksum sha p \<noteq> sn_checksum sn \<longrightarrow>
        restore_with sha codec (sn\<lparr>sn_payload := p\<rparr>) target h = (Inl ChecksumMismatch, target))"
proof -
  have sn: "sn = new_snapshot sha (cc_schema_id codec) n h s" using export cap by (simp add: capture_def)
  have valid: "validate_snapshot sha sn = Inr ()"
    by (simp add: sn new_snapshot_def validate_snapshot_def Let_def)
  have "into_causal_state sha sn = Inr s"
    using finish_iff [OF reads_causal_state exact_causal_state fits] ok valid
    by (simp add: into_causal_state_def sn new_snapshot_def decode_causal_state_def Let_def)
  with valid show ?thesis
    by (auto simp: restore_with_def sn new_snapshot_def validate_snapshot_def Let_def)
qed

definition demo_codec :: "byte list causal_state_codec" where
  "demo_codec = \<lparr>cc_schema_id = new_schema_id [0x71] 1 0, cc_export_state = (\<lambda>e n. Inr (Opaque (take n e))),
     cc_import_state = (\<lambda>e n s. case s of Opaque bs \<Rightarrow> (Inr (), bs) | _ \<Rightarrow> (Inl ''kind'', e))\<rparr>"

end
