(* ===== verification/Prefix_Format.thy ===== *)
theory Prefix_Format
  imports Snapshot Prefix_Key
begin

text \<open>
  The persistent container of a prefix snapshot (\<^verbatim>\<open>logan-core/src/prefix/format.rs\<close>):
  a 204-byte header, the token sequence, and the snapshot.  A failed read is an
  I/O error with its kind or, where the length in the header cannot be allocated,
  a panic.
\<close>

section \<open>Errors\<close>

datatype invalid_data =
    HeaderSize nat
  | HeaderField wire_error
  | BadContainerMagic
  | UnsupportedContainer nat
  | UnsupportedAbi nat
  | TokenLengthOverflow
  | TokenCountMismatch
  | TokenHashMismatch
  | PayloadExceedsHost
  | ContainerChecksum
  | SnapshotData wire_error
  | SnapshotIdentity
  | FileIdentity

datatype io_error =
    NotFound
  | UnexpectedEof
  | InvalidData invalid_data
  | OtherIo

datatype io_failure = IoError io_error | CapacityPanic

section \<open>The header\<close>

record container_header =
  hd_magic :: "byte list"
  hd_version :: nat
  hd_state_abi_version :: nat
  hd_model_fingerprint :: "byte list"
  hd_tokenizer_fingerprint :: "byte list"
  hd_state_schema_fingerprint :: "byte list"
  hd_plan_fingerprint :: "byte list"
  hd_prefix_token_hash :: nat
  hd_prefix_len :: nat
  hd_payload_size :: nat
  hd_section_count :: nat
  hd_checksum :: "byte list"

definition container_magic :: "byte list" where
  "container_magic = ascii ''LOGANPF1''"

definition container_version :: nat where
  "container_version = 2"

definition header_bytes :: nat where
  "header_bytes = 204"

definition state_abi_version :: nat where
  "state_abi_version = 1"

definition header_to_bytes :: "container_header \<Rightarrow> byte list" where
  "header_to_bytes h =
     hd_magic h @ le_bytes 4 (hd_version h) @ le_bytes 4 (hd_state_abi_version h) @
     hd_model_fingerprint h @ hd_tokenizer_fingerprint h @ hd_state_schema_fingerprint h @
     hd_plan_fingerprint h @ push_u64 (hd_prefix_token_hash h) @ push_usize (hd_prefix_len h) @
     push_u64 (hd_payload_size h) @ le_bytes 4 (hd_section_count h) @ hd_checksum h"

text \<open>The private cursor of this module reads a fixed-size array where the snapshot cursor reads a slice.\<close>

definition header_array :: "nat \<Rightarrow> byte list reader" where
  "header_array n = take_bytes n"

definition read_header :: "container_header reader" where
  "read_header =
     bind_reader (header_array 8) (\<lambda>magic.
     bind_reader read_u32 (\<lambda>version.
     bind_reader read_u32 (\<lambda>abi.
     bind_reader (header_array 32) (\<lambda>model.
     bind_reader (header_array 32) (\<lambda>tokenizer.
     bind_reader (header_array 32) (\<lambda>schema.
     bind_reader (header_array 32) (\<lambda>plan.
     bind_reader read_u64 (\<lambda>hash.
     bind_reader read_usize (\<lambda>len.
     bind_reader read_u64 (\<lambda>size.
     bind_reader read_u32 (\<lambda>sections.
     bind_reader (header_array 32) (\<lambda>checksum.
     return_reader \<lparr>hd_magic = magic, hd_version = version, hd_state_abi_version = abi,
       hd_model_fingerprint = model, hd_tokenizer_fingerprint = tokenizer,
       hd_state_schema_fingerprint = schema, hd_plan_fingerprint = plan, hd_prefix_token_hash = hash,
       hd_prefix_len = len, hd_payload_size = size, hd_section_count = sections,
       hd_checksum = checksum\<rparr>))))))))))))"

definition header_from_bytes :: "byte list \<Rightarrow> invalid_data + container_header" where
  "header_from_bytes bs =
     (if length bs \<noteq> header_bytes then Inl (HeaderSize (length bs))
      else map_sum HeaderField id
        (finish_reader ''trailing bytes in prefix header'' (read_header (new_cursor bs))))"

definition key_for_tokens ::
  "(byte list \<Rightarrow> byte list) \<Rightarrow> container_header \<Rightarrow> token list \<Rightarrow> invalid_data + prefix_key" where
  "key_for_tokens sha h ts =
     (if length ts \<noteq> hd_prefix_len h then Inl TokenCountMismatch
      else
        (let key = new_prefix_key sha (ModelFingerprint (hd_model_fingerprint h))
               (StateSchemaFingerprint (hd_state_schema_fingerprint h))
               (TokenizerFingerprint (hd_tokenizer_fingerprint h))
               (PlanFingerprint (hd_plan_fingerprint h)) ts
         in if pk_token_hash key \<noteq> hd_prefix_token_hash h then Inl TokenHashMismatch else Inr key))"

section \<open>Containers\<close>

definition encode_tokens :: "token list \<Rightarrow> byte list" where
  "encode_tokens ts = concat (map (le_bytes 4) ts)"

definition decode_tokens :: "byte list \<Rightarrow> token list" where
  "decode_tokens bs = map le_nat (chunks_exact 4 bs)"

definition container_checksum :: "(byte list \<Rightarrow> byte list) \<Rightarrow> byte list \<Rightarrow> byte list \<Rightarrow> byte list" where
  "container_checksum sha tokens snapshot = sha (tokens @ snapshot)"

definition container_header_for ::
  "(byte list \<Rightarrow> byte list) \<Rightarrow> prefix_key \<Rightarrow> byte list \<Rightarrow> container_header" where
  "container_header_for sha key snapshot =
     \<lparr>hd_magic = container_magic, hd_version = container_version,
      hd_state_abi_version = state_abi_version,
      hd_model_fingerprint = model_digest (pk_model key),
      hd_tokenizer_fingerprint = tokenizer_digest (pk_tokenizer key),
      hd_state_schema_fingerprint = schema_digest (pk_state_schema key),
      hd_plan_fingerprint = plan_digest (pk_plan key),
      hd_prefix_token_hash = pk_token_hash key, hd_prefix_len = key_prefix_len key,
      hd_payload_size = length snapshot, hd_section_count = 1,
      hd_checksum = container_checksum sha (encode_tokens (pk_tokens key)) snapshot\<rparr>"

text \<open>
  The bytes \<^verbatim>\<open>write_snapshot\<close> hands to its writer, in three pieces; the writer's own
  failures are the business of the store.
\<close>

definition write_snapshot ::
  "(byte list \<Rightarrow> byte list) \<Rightarrow> prefix_key \<Rightarrow> state_snapshot \<Rightarrow> invalid_data + byte list" where
  "write_snapshot sha key sn =
     (if sn_prefix_len sn \<noteq> key_prefix_len key \<or> sn_prefix_hash sn \<noteq> pk_token_hash key
      then Inl SnapshotIdentity
      else case to_bytes sha sn of
             Inl e \<Rightarrow> Inl (SnapshotData e)
           | Inr snapshot \<Rightarrow>
               Inr (header_to_bytes (container_header_for sha key snapshot) @
                    encode_tokens (pk_tokens key) @ snapshot))"

text \<open>\<^verbatim>\<open>vec![0u8; n]\<close> followed by \<^verbatim>\<open>read_exact\<close>.\<close>

definition read_exact :: "nat \<Rightarrow> byte list \<Rightarrow> io_failure + byte list \<times> byte list" where
  "read_exact n bs = (if n \<le> length bs then Inr (take n bs, drop n bs) else Inl (IoError UnexpectedEof))"

definition read_vec :: "nat \<Rightarrow> byte list \<Rightarrow> io_failure + byte list \<times> byte list" where
  "read_vec n bs = (if alloc_ok n 1 then read_exact n bs else Inl CapacityPanic)"

definition invalid :: "invalid_data \<Rightarrow> io_failure + 'a" where
  "invalid e = Inl (IoError (InvalidData e))"

definition check_header :: "container_header \<Rightarrow> io_failure + unit" where
  "check_header h =
     (if hd_magic h \<noteq> container_magic then invalid BadContainerMagic
      else if hd_version h \<noteq> container_version then invalid (UnsupportedContainer (hd_version h))
      else if hd_state_abi_version h \<noteq> state_abi_version then invalid (UnsupportedAbi (hd_state_abi_version h))
      else Inr ())"

definition read_snapshot_body ::
  "(byte list \<Rightarrow> byte list) \<Rightarrow> container_header \<Rightarrow> byte list \<Rightarrow>
     io_failure + (prefix_key \<times> state_snapshot) \<times> byte list" where
  "read_snapshot_body sha h bs =
     (case checked_mul_usize (hd_prefix_len h) 4 of
        None \<Rightarrow> invalid TokenLengthOverflow
      | Some token_len \<Rightarrow>
     (case read_vec token_len bs of
        Inl e \<Rightarrow> Inl e
      | Inr (token_bytes, bs1) \<Rightarrow>
     (case key_for_tokens sha h (decode_tokens token_bytes) of
        Inl e \<Rightarrow> invalid e
      | Inr key \<Rightarrow>
        if usize_max < hd_payload_size h then invalid PayloadExceedsHost else
     (case read_vec (hd_payload_size h) bs1 of
        Inl e \<Rightarrow> Inl e
      | Inr (snapshot_bytes, bs2) \<Rightarrow>
        if container_checksum sha token_bytes snapshot_bytes \<noteq> hd_checksum h then invalid ContainerChecksum else
     (case from_bytes sha snapshot_bytes of
        Inl e \<Rightarrow> invalid (SnapshotData e)
      | Inr sn \<Rightarrow>
          if sn_prefix_len sn \<noteq> key_prefix_len key \<or> sn_prefix_hash sn \<noteq> pk_token_hash key
          then invalid SnapshotIdentity
          else Inr ((key, sn), bs2))))))"

definition read_snapshot ::
  "(byte list \<Rightarrow> byte list) \<Rightarrow> byte list \<Rightarrow>
     io_failure + (container_header \<times> prefix_key \<times> state_snapshot) \<times> byte list" where
  "read_snapshot sha bs =
     (case read_exact header_bytes bs of
        Inl e \<Rightarrow> Inl e
      | Inr (hbytes, bs0) \<Rightarrow>
     (case header_from_bytes hbytes of
        Inl e \<Rightarrow> invalid e
      | Inr h \<Rightarrow>
     (case check_header h of
        Inl e \<Rightarrow> Inl e
      | Inr _ \<Rightarrow> map_sum id (\<lambda>((key, sn), rest). ((h, key, sn), rest)) (read_snapshot_body sha h bs0))))"

definition is_compatible :: "container_header \<Rightarrow> prefix_key \<Rightarrow> bool" where
  "is_compatible h query \<longleftrightarrow>
     hd_model_fingerprint h = model_digest (pk_model query)
   \<and> hd_tokenizer_fingerprint h = tokenizer_digest (pk_tokenizer query)
   \<and> hd_state_schema_fingerprint h = schema_digest (pk_state_schema query)
   \<and> hd_plan_fingerprint h = plan_digest (pk_plan query)"

section \<open>The header format is exact\<close>

definition header_ok :: "container_header \<Rightarrow> bool" where
  "header_ok h \<longleftrightarrow>
     length (hd_magic h) = 8 \<and> hd_version h \<le> u32_max \<and> hd_state_abi_version h \<le> u32_max
   \<and> length (hd_model_fingerprint h) = 32 \<and> length (hd_tokenizer_fingerprint h) = 32
   \<and> length (hd_state_schema_fingerprint h) = 32 \<and> length (hd_plan_fingerprint h) = 32
   \<and> hd_prefix_token_hash h \<le> u64_max \<and> hd_prefix_len h \<le> usize_max \<and> hd_payload_size h \<le> u64_max
   \<and> hd_section_count h \<le> u32_max \<and> length (hd_checksum h) = 32"

lemma header_length [simp]: "header_ok h \<Longrightarrow> length (header_to_bytes h) = 204"
  by (simp add: header_ok_def header_to_bytes_def push_u64_def push_usize_def)

lemma reads_header: "header_ok h \<Longrightarrow> reads read_header (header_to_bytes h) h"
  unfolding read_header_def header_to_bytes_def header_array_def
  by (cases h, rule reads_last, simp only: append.assoc)
    (intro reads_taken reads_field [OF u32.wire_field_axioms] reads_field [OF u64.wire_field_axioms]
       reads_field [OF usize.wire_field_axioms], simp_all add: header_ok_def reads_return)

lemma exact_header: "exact read_header (\<lambda>bs h. bs = header_to_bytes h \<and> header_ok h)"
  unfolding read_header_def header_array_def
  by (rule exact_weaken, (rule exact_bind_field [OF u32.wire_field_axioms]
        exact_bind_field [OF u64.wire_field_axioms] exact_bind_field [OF usize.wire_field_axioms]
        exact_bind [OF exact_take] exact_return)+)
    (auto simp: header_to_bytes_def header_ok_def)

lemma header_iff: "header_from_bytes bs = Inr h \<longleftrightarrow> bs = header_to_bytes h \<and> header_ok h"
proof (cases "length bs = header_bytes")
  case True
  then have "length bs \<le> usize_max" by (simp add: header_bytes_def usize_max_def)
  note fin = finish_iff [OF reads_header exact_header this, of "''trailing bytes in prefix header''" h]
  have "header_from_bytes bs = Inr h \<longleftrightarrow>
      finish_reader ''trailing bytes in prefix header'' (read_header (new_cursor bs)) = Inr h"
    using True by (cases "finish_reader ''trailing bytes in prefix header'' (read_header (new_cursor bs))")
      (simp_all add: header_from_bytes_def)
  with fin show ?thesis by simp
next
  case False
  then show ?thesis by (auto simp: header_from_bytes_def header_bytes_def)
qed

lemma header_to_bytes_inject:
  "header_ok a \<Longrightarrow> header_ok b \<Longrightarrow> header_to_bytes a = header_to_bytes b \<longleftrightarrow> a = b"
  by (metis header_iff sum.inject(2))

section \<open>Containers are exact\<close>

text \<open>The keys a 64-bit program can hold, with 32-byte digests and 32-bit tokens.\<close>

definition stored_key_ok :: "(byte list \<Rightarrow> byte list) \<Rightarrow> prefix_key \<Rightarrow> bool" where
  "stored_key_ok sha key \<longleftrightarrow>
     key_ok sha key \<and> length (model_digest (pk_model key)) = 32 \<and> length (schema_digest (pk_state_schema key)) = 32
   \<and> length (tokenizer_digest (pk_tokenizer key)) = 32 \<and> length (plan_digest (pk_plan key)) = 32
   \<and> list_all (\<lambda>t. t \<le> u32_max) (pk_tokens key) \<and> key_prefix_len key \<le> usize_max"

lemma length_encode_tokens [simp]: "length (encode_tokens ts) = 4 * length ts"
  by (induction ts) (simp_all add: encode_tokens_def)

lemma u32_bound: "t \<le> u32_max \<longleftrightarrow> t < 256 ^ 4"
  by (auto simp: u32_max_def)

lemma decode_encode_tokens:
  assumes "list_all (\<lambda>t. t \<le> u32_max) ts"
  shows "decode_tokens (encode_tokens ts) = ts"
proof -
  have "chunks_exact 4 (encode_tokens ts) = map (le_bytes 4) ts"
    unfolding encode_tokens_def by (rule chunks_concat) auto
  moreover have "map (\<lambda>t. le_nat (le_bytes 4 t)) ts = ts"
    by (rule map_idI) (use assms in \<open>simp add: list_all_iff u32_bound le_nat_le_bytes\<close>)
  ultimately show ?thesis by (simp add: decode_tokens_def comp_def)
qed

lemma encode_decode_tokens:
  assumes "length bs = n * 4"
  shows "encode_tokens (decode_tokens bs) = bs" "length (decode_tokens bs) = n"
    "list_all (\<lambda>t. t \<le> u32_max) (decode_tokens bs)"
proof -
  note ch = chunks_parts [of 4 bs n, OF _ assms]
  have four: "le_bytes 4 (le_nat x) = x \<and> le_nat x \<le> u32_max" if "x \<in> set (chunks_exact 4 bs)" for x
  proof -
    have "length x = 4" using ch that by simp
    then show ?thesis using le_bytes_le_nat [of x] le_nat_less [of x] by (simp add: u32_bound)
  qed
  then have "map (\<lambda>x. le_bytes 4 (le_nat x)) (chunks_exact 4 bs) = chunks_exact 4 bs" by (intro map_idI) simp
  then show "encode_tokens (decode_tokens bs) = bs"
    using ch by (simp add: encode_tokens_def decode_tokens_def comp_def)
  show "length (decode_tokens bs) = n" using ch by (simp add: decode_tokens_def)
  show "list_all (\<lambda>t. t \<le> u32_max) (decode_tokens bs)" using four by (simp add: decode_tokens_def list_all_iff)
qed

lemma hash_tokens_u64: "hash_tokens sha ts \<le> u64_max"
proof -
  have "(256 :: nat) ^ length (take 8 bs) \<le> 256 ^ 8" for bs :: "byte list" by (rule power_increasing) simp_all
  then have "le_nat (take 8 bs) < 256 ^ 8" for bs by (rule less_le_trans [OF le_nat_less])
  then show ?thesis by (simp add: hash_tokens_def u64_max_def less_Suc_eq_le [symmetric])
qed

lemma header_for_ok:
  "\<lbrakk>stored_key_ok sha key; length snap \<le> usize_max; \<And>x. length (sha x) = 32\<rbrakk> \<Longrightarrow>
     header_ok (container_header_for sha key snap)"
  using hash_tokens_u64 [of sha "pk_tokens key"]
  by (simp add: header_ok_def container_header_for_def stored_key_ok_def key_ok_def container_checksum_def
      container_magic_def container_version_def state_abi_version_def ascii_def rust_int)

lemma key_for_tokens_iff:
  "key_for_tokens sha h ts = Inr key \<longleftrightarrow>
     pk_tokens key = ts \<and> key_ok sha key \<and> length ts = hd_prefix_len h \<and> pk_token_hash key = hd_prefix_token_hash h
   \<and> model_digest (pk_model key) = hd_model_fingerprint h \<and> schema_digest (pk_state_schema key) = hd_state_schema_fingerprint h
   \<and> tokenizer_digest (pk_tokenizer key) = hd_tokenizer_fingerprint h \<and> plan_digest (pk_plan key) = hd_plan_fingerprint h"
  by (cases key)
    (auto simp: key_for_tokens_def Let_def new_prefix_key_def key_ok_def intro: model_fingerprint.expand
       state_schema_fingerprint.expand tokenizer_fingerprint.expand plan_fingerprint.expand)

lemma read_vec_iff:
  "read_vec n bs = Inr (x, rest) \<longleftrightarrow> n \<le> isize_max \<and> bs = x @ rest \<and> length x = n"
  by (auto simp: read_vec_def read_exact_def alloc_ok_def)

text \<open>What a body must be for the header in front of it.\<close>

lemma read_body_iff:
  assumes len: "length bs \<le> isize_max" and ok: "header_ok h" and good: "check_header h = Inr ()"
  shows "read_snapshot_body sha h bs = Inr ((key, sn), rest) \<longleftrightarrow>
    (\<exists>snap. to_bytes sha sn = Inr snap \<and> bs = encode_tokens (pk_tokens key) @ snap @ rest \<and>
       h = (container_header_for sha key snap)\<lparr>hd_section_count := hd_section_count h\<rparr>) \<and>
    stored_key_ok sha key \<and> snapshot_ok sn \<and>
    sn_prefix_len sn = key_prefix_len key \<and> sn_prefix_hash sn = pk_token_hash key"
    (is "?L \<longleftrightarrow> ?R")
proof
  assume ?L
  then obtain tb bs1 snap where tb: "read_vec (hd_prefix_len h * 4) bs = Inr (tb, bs1)"
    and key: "key_for_tokens sha h (decode_tokens tb) = Inr key"
    and snap: "read_vec (hd_payload_size h) bs1 = Inr (snap, rest)"
    and sum: "container_checksum sha tb snap = hd_checksum h"
    and sn: "from_bytes sha snap = Inr sn"
    and id: "sn_prefix_len sn = key_prefix_len key" "sn_prefix_hash sn = pk_token_hash key"
    by (auto simp: read_snapshot_body_def invalid_def checked_mul_usize_def split: option.splits sum.splits if_splits)
  from tb snap have bs: "bs = tb @ snap @ rest" and tlen: "length tb = hd_prefix_len h * 4"
    and slen: "length snap = hd_payload_size h" by (simp_all add: read_vec_iff)
  have "length snap \<le> usize_max" using len bs by (simp add: isize_max_def usize_max_def)
  from from_bytes_iff [OF this, of sha sn] sn have wr: "to_bytes sha sn = Inr snap" "snapshot_ok sn" by simp_all
  note tok = encode_decode_tokens [OF tlen]
  have keyf: "pk_tokens key = decode_tokens tb" "key_ok sha key" "pk_token_hash key = hd_prefix_token_hash h"
    "model_digest (pk_model key) = hd_model_fingerprint h" "schema_digest (pk_state_schema key) = hd_state_schema_fingerprint h"
    "tokenizer_digest (pk_tokenizer key) = hd_tokenizer_fingerprint h" "plan_digest (pk_plan key) = hd_plan_fingerprint h"
    using key by (simp_all add: key_for_tokens_iff)
  have "stored_key_ok sha key"
    using keyf tok ok by (simp add: stored_key_ok_def header_ok_def key_prefix_len_def)
  moreover have "h = (container_header_for sha key snap)\<lparr>hd_section_count := hd_section_count h\<rparr>"
    using good keyf tok sum slen
    by (cases h) (simp add: container_header_for_def check_header_def key_prefix_len_def invalid_def split: if_splits)
  ultimately show ?R using bs wr id tok keyf by auto
next
  assume R: ?R
  then obtain snap where snap: "to_bytes sha sn = Inr snap" "bs = encode_tokens (pk_tokens key) @ snap @ rest"
    "h = (container_header_for sha key snap)\<lparr>hd_section_count := hd_section_count h\<rparr>" by blast
  let ?tb = "encode_tokens (pk_tokens key)"
  have fields: "hd_prefix_len h = length (pk_tokens key)" "hd_payload_size h = length snap"
    "hd_checksum h = container_checksum sha ?tb snap" "pk_token_hash key = hd_prefix_token_hash h"
    "model_digest (pk_model key) = hd_model_fingerprint h" "schema_digest (pk_state_schema key) = hd_state_schema_fingerprint h"
    "tokenizer_digest (pk_tokenizer key) = hd_tokenizer_fingerprint h" "plan_digest (pk_plan key) = hd_plan_fingerprint h"
    by (subst snap(3), simp add: container_header_for_def key_prefix_len_def)+
  have small: "4 * length (pk_tokens key) \<le> isize_max" "length snap \<le> isize_max"
    using len snap(2) by simp_all
  then have mul: "checked_mul_usize (hd_prefix_len h) 4 = Some (4 * length (pk_tokens key))"
    by (simp add: fields checked_mul_usize_def isize_max_def usize_max_def)
  have "key_for_tokens sha h (pk_tokens key) = Inr key"
    using R fields by (simp add: key_for_tokens_iff stored_key_ok_def)
  moreover have "decode_tokens ?tb = pk_tokens key" using R by (simp add: decode_encode_tokens stored_key_ok_def)
  moreover have "read_vec (4 * length (pk_tokens key)) bs = Inr (?tb, snap @ rest)"
    "read_vec (hd_payload_size h) (snap @ rest) = Inr (snap, rest)"
    using small by (simp_all add: read_vec_iff snap(2) fields)
  moreover have "from_bytes sha snap = Inr sn"
    using from_bytes_iff [of snap sha sn] small snap(1) R by (simp add: isize_max_def usize_max_def)
  ultimately show ?L
    using mul R small fields by (simp add: read_snapshot_body_def isize_max_def usize_max_def)
qed

lemma read_snapshot_iff:
  assumes len: "length bs \<le> isize_max"
  shows "read_snapshot sha bs = Inr ((h, key, sn), rest) \<longleftrightarrow>
    (\<exists>body. bs = header_to_bytes h @ body \<and> header_ok h \<and> check_header h = Inr () \<and>
       read_snapshot_body sha h body = Inr ((key, sn), rest))" (is "?L \<longleftrightarrow> ?R")
proof
  assume ?L
  then obtain hb body where "read_exact header_bytes bs = Inr (hb, body)" "header_from_bytes hb = Inr h"
    "check_header h = Inr ()" "read_snapshot_body sha h body = Inr ((key, sn), rest)"
    by (auto simp: read_snapshot_def invalid_def map_sum_def split: sum.splits prod.splits)
  then show ?R by (auto simp: read_exact_def header_iff split: if_splits) (metis append_take_drop_id)
next
  assume ?R
  then obtain body where body: "bs = header_to_bytes h @ body" "header_ok h" "check_header h = Inr ()"
    "read_snapshot_body sha h body = Inr ((key, sn), rest)" by blast
  then have "read_exact header_bytes bs = Inr (header_to_bytes h, body)" "header_from_bytes (header_to_bytes h) = Inr h"
    by (simp_all add: read_exact_def header_bytes_def header_iff)
  with body show ?L by (simp add: read_snapshot_def)
qed

lemma write_snapshot_iff:
  "write_snapshot sha key sn = Inr cs \<longleftrightarrow>
     (\<exists>snap. to_bytes sha sn = Inr snap \<and> sn_prefix_len sn = key_prefix_len key \<and> sn_prefix_hash sn = pk_token_hash key \<and>
        cs = header_to_bytes (container_header_for sha key snap) @ encode_tokens (pk_tokens key) @ snap)"
  by (auto simp: write_snapshot_def split: sum.splits)

lemma check_header_for: "check_header ((container_header_for sha key snap)\<lparr>hd_section_count := n\<rparr>) = Inr ()"
  by (simp add: check_header_def container_header_for_def)

lemma header_section: "header_ok h \<Longrightarrow> header_ok (h\<lparr>hd_section_count := 1\<rparr>)"
  by (simp add: header_ok_def u32_max_def)

lemma container_iff:
  assumes len: "length bs \<le> isize_max" and sha: "\<And>x. length (sha x) = 32"
  shows "read_snapshot sha bs = Inr ((h, key, sn), rest) \<longleftrightarrow>
    (\<exists>body. write_snapshot sha key sn = Inr (header_to_bytes (h\<lparr>hd_section_count := 1\<rparr>) @ body) \<and>
       bs = header_to_bytes h @ body @ rest) \<and>
    header_ok h \<and> stored_key_ok sha key \<and> snapshot_ok sn" (is "?L \<longleftrightarrow> ?R")
proof
  assume ?L
  then obtain body where body: "bs = header_to_bytes h @ body" "header_ok h" "check_header h = Inr ()"
    "read_snapshot_body sha h body = Inr ((key, sn), rest)" by (auto simp: read_snapshot_iff [OF len])
  have "length body \<le> isize_max" using len body(1) by simp
  from read_body_iff [OF this body(2,3), THEN iffD1, OF body(4)] obtain snap where snap:
    "to_bytes sha sn = Inr snap" "body = encode_tokens (pk_tokens key) @ snap @ rest"
    "h = (container_header_for sha key snap)\<lparr>hd_section_count := hd_section_count h\<rparr>"
    "stored_key_ok sha key" "snapshot_ok sn" "sn_prefix_len sn = key_prefix_len key"
    "sn_prefix_hash sn = pk_token_hash key" by blast
  have "h\<lparr>hd_section_count := 1\<rparr> = container_header_for sha key snap"
    by (subst snap(3)) (simp add: container_header_for_def)
  with snap body show ?R by (auto simp: write_snapshot_iff)
next
  assume R: ?R
  then obtain body where wr: "write_snapshot sha key sn = Inr (header_to_bytes (h\<lparr>hd_section_count := 1\<rparr>) @ body)"
    and bs: "bs = header_to_bytes h @ body @ rest" by blast
  from wr obtain snap where snap: "to_bytes sha sn = Inr snap" "sn_prefix_len sn = key_prefix_len key"
    "sn_prefix_hash sn = pk_token_hash key"
    "header_to_bytes (h\<lparr>hd_section_count := 1\<rparr>) @ body =
       header_to_bytes (container_header_for sha key snap) @ encode_tokens (pk_tokens key) @ snap"
    by (auto simp: write_snapshot_iff)
  have ok1: "header_ok (h\<lparr>hd_section_count := 1\<rparr>)" using R header_section by blast
  have "length (header_to_bytes (container_header_for sha key snap)) = 204"
    using R sha by (simp add: header_to_bytes_def container_header_for_def stored_key_ok_def push_u64_def push_usize_def
        container_magic_def container_checksum_def ascii_def)
  with snap(4) ok1 have split: "header_to_bytes (h\<lparr>hd_section_count := 1\<rparr>) = header_to_bytes (container_header_for sha key snap)"
    "body = encode_tokens (pk_tokens key) @ snap" by (simp_all add: append_eq_append_conv)
  have "length snap \<le> usize_max" using len bs split(2) by (simp add: isize_max_def usize_max_def)
  then have "header_ok (container_header_for sha key snap)" using R sha by (intro header_for_ok) simp_all
  then have "h\<lparr>hd_section_count := 1\<rparr> = container_header_for sha key snap"
    using split(1) header_to_bytes_inject [OF ok1] by blast
  from this [symmetric] have "h = (container_header_for sha key snap)\<lparr>hd_section_count := hd_section_count h\<rparr>" by simp
  moreover have "length (body @ rest) \<le> isize_max" using len bs by simp
  ultimately have "read_snapshot_body sha h (body @ rest) = Inr ((key, sn), rest)" and "check_header h = Inr ()"
    using read_body_iff [of "body @ rest" h sha key sn rest] check_header_for R snap split(2)
    by (metis append.assoc)+
  with R bs show ?L unfolding read_snapshot_iff [OF len] by blast
qed

text \<open>
  C17: The container format is exact.  Over a file that fits memory, reading
  returns a key, a snapshot and the unread rest if and only if the file starts
  with exactly what writing that key and snapshot produces (the header's unused
  section count aside), the key's hash is the hash of its tokens, and the
  snapshot is well formed.  So a written entry is read back token for token and
  byte for byte, and no file with another header, other tokens or another
  snapshot is ever taken for it.
\<close>

theorem container_exact:
  assumes len: "length bs \<le> isize_max" and sha: "\<And>x. length (sha x) = 32"
  shows "read_snapshot sha bs = Inr ((h, key, sn), rest) \<longleftrightarrow>
    (\<exists>body. write_snapshot sha key sn = Inr (header_to_bytes (h\<lparr>hd_section_count := 1\<rparr>) @ body) \<and>
       bs = header_to_bytes h @ body @ rest) \<and>
    header_ok h \<and> stored_key_ok sha key \<and> snapshot_ok sn"
  by (rule container_iff [OF assms])

definition demo_key :: prefix_key where
  "demo_key = new_prefix_key demo_sha (ModelFingerprint (replicate 32 1)) (StateSchemaFingerprint (replicate 32 2))
     (TokenizerFingerprint (replicate 32 3)) (PlanFingerprint (replicate 32 4)) [7, 8, 9]"

definition demo_entry :: state_snapshot where
  "demo_entry = new_snapshot demo_sha (new_schema_id [0x71, 0x34] 1 0) 3 (hash_tokens demo_sha [7, 8, 9]) (Opaque [10, 11])"

lemma demo_sha_length: "length (demo_sha x) = 32"
  by (simp add: demo_sha_def)

lemma demo_key_stored: "stored_key_ok demo_sha demo_key"
  by (simp add: stored_key_ok_def demo_key_def key_prefix_len_def) (simp add: new_prefix_key_def rust_int)

lemma demo_entry_ok: "snapshot_ok demo_entry"
  using hash_tokens_u64 [of demo_sha "[7, 8, 9]"]
  by (simp add: snapshot_ok_def demo_entry_def new_snapshot_def Let_def new_schema_id_def
      compute_checksum_def demo_sha_length utf8_ok.simps rust_int)

lemma demo_entry_bytes:
  "to_bytes demo_sha demo_entry = Inr (fields_bytes (fields_of demo_entry))"
  "length (fields_bytes (fields_of demo_entry)) = 106"
  by (simp add: to_bytes_iff validate_snapshot_def demo_entry_def new_snapshot_def Let_def new_schema_id_def rust_int,
      simp add: fields_bytes_def fields_of_def demo_entry_def new_snapshot_def Let_def new_schema_id_def payload_data_def
        state_payload_magic_def snapshot_magic_def push_u64_def push_usize_def compute_checksum_def demo_sha_length)

definition demo_container :: "byte list" where
  "demo_container = header_to_bytes (container_header_for demo_sha demo_key (fields_bytes (fields_of demo_entry))) @
     encode_tokens [7, 8, 9] @ fields_bytes (fields_of demo_entry)"

lemma demo_written: "write_snapshot demo_sha demo_key demo_entry = Inr demo_container"
  by (simp add: write_snapshot_iff demo_entry_bytes demo_container_def)
    (simp add: demo_entry_def demo_key_def new_snapshot_def Let_def new_prefix_key_def key_prefix_len_def)

lemma demo_header_ok: "header_ok (container_header_for demo_sha demo_key (fields_bytes (fields_of demo_entry)))"
  by (rule header_for_ok [OF demo_key_stored _ demo_sha_length]) (simp add: demo_entry_bytes usize_max_def)

lemma demo_container_length: "length demo_container = 322"
  using demo_header_ok by (simp add: demo_container_def demo_entry_bytes)

theorem container_exact_witness:
  "read_snapshot demo_sha (demo_container @ [1, 2]) =
     Inr ((container_header_for demo_sha demo_key (fields_bytes (fields_of demo_entry)), demo_key, demo_entry), [1, 2])"
proof -
  let ?h = "container_header_for demo_sha demo_key (fields_bytes (fields_of demo_entry))"
  have "?h\<lparr>hd_section_count := 1\<rparr> = ?h" by (simp add: container_header_for_def)
  moreover have "length (demo_container @ [1, 2]) \<le> isize_max" by (simp add: demo_container_length isize_max_def)
  ultimately show ?thesis
    using container_exact [of "demo_container @ [1, 2]" demo_sha ?h demo_key demo_entry "[1, 2]"] demo_sha_length
      demo_header_ok demo_key_stored demo_entry_ok demo_written unfolding demo_container_def by simp
qed

section \<open>Damaged containers\<close>

text \<open>What a written container consists of.\<close>

lemma written_container:
  assumes wr: "write_snapshot sha key sn = Inr cs" and len: "length cs \<le> isize_max"
    and sha: "\<And>x. length (sha x) = 32" and key: "stored_key_ok sha key"
  obtains snap where "cs = header_to_bytes (container_header_for sha key snap) @ encode_tokens (pk_tokens key) @ snap"
    "header_ok (container_header_for sha key snap)" "check_header (container_header_for sha key snap) = Inr ()"
    "length snap \<le> isize_max" "4 * length (pk_tokens key) \<le> isize_max"
proof -
  from wr obtain snap where cs: "cs = header_to_bytes (container_header_for sha key snap) @ encode_tokens (pk_tokens key) @ snap"
    by (auto simp: write_snapshot_iff)
  have slen: "length snap \<le> isize_max" "4 * length (pk_tokens key) \<le> isize_max" using len cs by simp_all
  then have "header_ok (container_header_for sha key snap)"
    by (intro header_for_ok [OF key]) (use sha in \<open>simp_all add: isize_max_def usize_max_def\<close>)
  moreover have "check_header (container_header_for sha key snap) = Inr ()"
    by (simp add: check_header_def container_header_for_def)
  ultimately show thesis using that cs slen by blast
qed

lemma read_after_header:
  assumes "header_ok h" "check_header h = Inr ()"
  shows "read_snapshot sha (header_to_bytes h @ body) =
    map_sum id (\<lambda>((key, sn), rest). ((h, key, sn), rest)) (read_snapshot_body sha h body)"
proof -
  have "header_from_bytes (header_to_bytes h) = Inr h" using assms(1) by (simp add: header_iff)
  with assms show ?thesis by (simp add: read_snapshot_def read_exact_def header_bytes_def)
qed

lemma truncated_body:
  assumes key: "stored_key_ok sha key" and slen: "length snap \<le> isize_max"
    and tlen: "4 * length (pk_tokens key) \<le> isize_max" and m: "m < 4 * length (pk_tokens key) + length snap"
  shows "read_snapshot_body sha (container_header_for sha key snap) (take m (encode_tokens (pk_tokens key) @ snap)) =
    Inl (IoError UnexpectedEof)"
proof -
  let ?h = "container_header_for sha key snap"
  have fields: "hd_prefix_len ?h = length (pk_tokens key)" "hd_payload_size ?h = length snap"
    by (simp_all add: container_header_for_def key_prefix_len_def)
  have tok: "key_for_tokens sha ?h (decode_tokens (encode_tokens (pk_tokens key))) = Inr key"
    using key by (simp add: key_for_tokens_iff decode_encode_tokens stored_key_ok_def container_header_for_def
        key_prefix_len_def)
  have mul: "checked_mul_usize (hd_prefix_len ?h) 4 = Some (4 * length (pk_tokens key))"
    using tlen by (simp add: fields checked_mul_usize_def isize_max_def usize_max_def)
  show ?thesis
  proof (cases "m < 4 * length (pk_tokens key)")
    case True
    then have "read_vec (4 * length (pk_tokens key)) (take m (encode_tokens (pk_tokens key) @ snap)) =
        Inl (IoError UnexpectedEof)" using tlen by (simp add: read_vec_def read_exact_def alloc_ok_def)
    then show ?thesis unfolding read_snapshot_body_def mul by simp
  next
    case le: False
    let ?r = "take (m - 4 * length (pk_tokens key)) snap"
    have "read_vec (4 * length (pk_tokens key)) (take m (encode_tokens (pk_tokens key) @ snap)) =
        Inr (encode_tokens (pk_tokens key), ?r)"
      using tlen le by (simp add: read_vec_iff)
    moreover have "read_vec (hd_payload_size ?h) ?r = Inl (IoError UnexpectedEof)"
      using slen le m by (simp add: read_vec_def read_exact_def alloc_ok_def fields)
    ultimately show ?thesis
      unfolding read_snapshot_body_def mul using tok slen by (simp add: fields isize_max_def usize_max_def)
  qed
qed

lemma truncated_read:
  assumes "write_snapshot sha key sn = Inr cs" "length cs \<le> isize_max" "\<And>x. length (sha x) = 32"
    "stored_key_ok sha key" and k: "k < length cs"
  shows "read_snapshot sha (take k cs) = Inl (IoError UnexpectedEof)"
proof (cases "k < 204")
  case True
  with k show ?thesis by (simp add: read_snapshot_def read_exact_def header_bytes_def)
next
  case False
  obtain snap where snap: "cs = header_to_bytes (container_header_for sha key snap) @ encode_tokens (pk_tokens key) @ snap"
    "header_ok (container_header_for sha key snap)" "check_header (container_header_for sha key snap) = Inr ()"
    "length snap \<le> isize_max" "4 * length (pk_tokens key) \<le> isize_max"
    by (rule written_container [OF assms(1-4)])
  have "take k cs = header_to_bytes (container_header_for sha key snap) @
      take (k - 204) (encode_tokens (pk_tokens key) @ snap)"
    using snap(2) False by (simp add: snap(1))
  moreover have "k - 204 < 4 * length (pk_tokens key) + length snap" using k False snap(2) by (simp add: snap(1))
  ultimately show ?thesis
    by (simp only: read_after_header [OF snap(2,3)] truncated_body [OF assms(4) snap(4,5)] map_sum.simps id_apply)
qed

lemma oversized_read:
  assumes "header_ok h" "check_header h = Inr ()" "isize_max < n * 4" "n * 4 \<le> usize_max"
  shows "read_snapshot sha (header_to_bytes (h\<lparr>hd_prefix_len := n\<rparr>) @ body) = Inl CapacityPanic"
proof -
  have "header_ok (h\<lparr>hd_prefix_len := n\<rparr>)" "check_header (h\<lparr>hd_prefix_len := n\<rparr>) = Inr ()"
    using assms by (auto simp: header_ok_def check_header_def)
  with assms show ?thesis
    by (simp add: read_after_header read_snapshot_body_def checked_mul_usize_def read_vec_def alloc_ok_def)
qed

text \<open>The round trip, for the components that store containers.\<close>

lemma read_written:
  assumes wr: "write_snapshot sha key sn = Inr cs" and len: "length cs \<le> isize_max"
    and sha: "\<And>x. length (sha x) = 32" and key: "stored_key_ok sha key" and sn: "snapshot_ok sn"
  shows "\<exists>h. read_snapshot sha cs = Inr ((h, key, sn), []) \<and> header_ok h \<and> check_header h = Inr () \<and>
    cs = header_to_bytes h @ drop 204 cs"
proof -
  obtain snap where cs: "cs = header_to_bytes (container_header_for sha key snap) @ encode_tokens (pk_tokens key) @ snap"
    "header_ok (container_header_for sha key snap)" "check_header (container_header_for sha key snap) = Inr ()"
    by (rule written_container [OF wr len sha key])
  have "(container_header_for sha key snap)\<lparr>hd_section_count := 1\<rparr> = container_header_for sha key snap"
    by (simp add: container_header_for_def)
  then have "read_snapshot sha cs = Inr ((container_header_for sha key snap, key, sn), [])"
    using container_iff [OF len sha, where h = "container_header_for sha key snap" and key = key and sn = sn and rest = "[]"]
      cs key sn wr by simp
  with cs show ?thesis by (intro exI [of _ "container_header_for sha key snap"]) simp
qed

text \<open>
  What reading does with a damaged container.  Cut anywhere short of its
  end, a written container fails with \<^verbatim>\<open>UnexpectedEof\<close> and never yields an entry.
  With the prefix length in its header overwritten by a value whose token bytes
  fit \<^verbatim>\<open>usize\<close> but not an allocation, reading does not return an error at all: the
  buffer for the tokens panics, before any checksum is looked at.
\<close>

lemma damaged_container:
  assumes wr: "write_snapshot sha key sn = Inr cs" and len: "length cs \<le> isize_max"
    and sha: "\<And>x. length (sha x) = 32" and key: "stored_key_ok sha key" and sn: "snapshot_ok sn"
  shows "(k < length cs \<longrightarrow> read_snapshot sha (take k cs) = Inl (IoError UnexpectedEof))
    \<and> (isize_max < n * 4 \<and> n * 4 \<le> usize_max \<longrightarrow>
        (\<exists>h. read_snapshot sha cs = Inr ((h, key, sn), []) \<and>
             read_snapshot sha (header_to_bytes (h\<lparr>hd_prefix_len := n\<rparr>) @ drop 204 cs) = Inl CapacityPanic))"
  using truncated_read [OF wr len sha key] oversized_read read_written [OF wr len sha key sn] by blast

end
