(* ===== verification/Prefix_Disk.thy ===== *)
theory Prefix_Disk
  imports Prefix_Format
begin

text \<open>
  The SSD store (\<^verbatim>\<open>logan-core/src/prefix/disk.rs\<close>): a directory of container files.
  The directory is a map from file names to contents, in the order the operating
  system lists it.  SHA-256 and the \<^verbatim>\<open>hex\<close> crate are the parameters \<open>sha\<close> and \<open>hex\<close>;
  what the operating system refuses is an explicit argument of each operation.
\<close>

type_synonym directory = "(string, byte list) hash_map"

section \<open>File names\<close>

text \<open>\<^verbatim>\<open>Path::file_stem\<close> and \<^verbatim>\<open>Path::extension\<close> split a name at its last dot, a leading dot aside.\<close>

definition split_last_dot :: "string \<Rightarrow> (string \<times> string) option" where
  "split_last_dot name =
     (case dropWhile (\<lambda>c. c \<noteq> CHR ''.'') (rev name) of
        [] \<Rightarrow> None
      | _ # before \<Rightarrow> Some (rev before, rev (takeWhile (\<lambda>c. c \<noteq> CHR ''.'') (rev name))))"

definition file_stem :: "string \<Rightarrow> string" where
  "file_stem name =
     (if name = ''..'' then name
      else case split_last_dot name of
             Some (before, after) \<Rightarrow> if before = [] then name else before
           | None \<Rightarrow> name)"

definition extension :: "string \<Rightarrow> string option" where
  "extension name =
     (if name = ''..'' then None
      else case split_last_dot name of
             Some (before, after) \<Rightarrow> if before = [] then None else Some after
           | None \<Rightarrow> None)"

definition snapshot_path :: "(byte list \<Rightarrow> byte list) \<Rightarrow> (byte list \<Rightarrow> string) \<Rightarrow> prefix_fingerprint \<Rightarrow> string" where
  "snapshot_path sha hex fp =
     hex (sha (model_digest (pf_model fp) @ schema_digest (pf_state_schema fp) @
       tokenizer_digest (pf_tokenizer fp) @ plan_digest (pf_plan fp) @
       le_bytes 8 (pf_prefix_token_hash fp) @ le_bytes 8 (pf_prefix_len fp))) @ ''.lpfx''"

definition temp_name :: "string \<Rightarrow> string \<Rightarrow> string" where
  "temp_name path pid = ''.'' @ file_stem path @ ''.'' @ pid @ ''.tmp''"

section \<open>Operations\<close>

definition file_exists ::
  "(byte list \<Rightarrow> byte list) \<Rightarrow> (byte list \<Rightarrow> string) \<Rightarrow> prefix_fingerprint \<Rightarrow> directory \<Rightarrow> bool" where
  "file_exists sha hex fp dir \<longleftrightarrow> hm_get dir (snapshot_path sha hex fp) \<noteq> None"

text \<open>
  Where a write can fail: the temporary file cannot be created, writing or
  flushing stops after some bytes, syncing fails, or the rename fails.  A process
  that dies at one of these points leaves the same directory behind.
\<close>

datatype write_fault = CreateFails | WriteFails nat | SyncFails | RenameFails

definition write_for ::
  "(byte list \<Rightarrow> byte list) \<Rightarrow> (byte list \<Rightarrow> string) \<Rightarrow> string \<Rightarrow> write_fault option \<Rightarrow> prefix_key \<Rightarrow>
     state_snapshot \<Rightarrow> directory \<Rightarrow> (io_failure + string) \<times> directory" where
  "write_for sha hex pid fault key sn dir =
     (let path = snapshot_path sha hex (fingerprint key); tmp = temp_name path pid in
      if fault = Some CreateFails then (Inl (IoError OtherIo), dir)
      else
        (let dir1 = hm_insert tmp [] dir in
         case write_snapshot sha key sn of
           Inl e \<Rightarrow> (invalid e, dir1)
         | Inr cs \<Rightarrow>
             (case fault of
                Some (WriteFails k) \<Rightarrow> (Inl (IoError OtherIo), hm_insert tmp (take k cs) dir1)
              | Some SyncFails \<Rightarrow> (Inl (IoError OtherIo), hm_insert tmp cs dir1)
              | Some RenameFails \<Rightarrow> (Inl (IoError OtherIo), hm_insert tmp cs dir1)
              | _ \<Rightarrow> (Inr path, hm_insert path cs (hm_remove tmp (hm_insert tmp cs dir1))))))"

definition read_for ::
  "(byte list \<Rightarrow> byte list) \<Rightarrow> (byte list \<Rightarrow> string) \<Rightarrow> io_error option \<Rightarrow> prefix_fingerprint \<Rightarrow> directory \<Rightarrow>
     io_failure + prefix_key \<times> state_snapshot" where
  "read_for sha hex fault fp dir =
     (case fault of
        Some e \<Rightarrow> Inl (IoError e)
      | None \<Rightarrow>
     (case hm_get dir (snapshot_path sha hex fp) of
        None \<Rightarrow> Inl (IoError NotFound)
      | Some bs \<Rightarrow>
     (case read_snapshot sha bs of
        Inl e \<Rightarrow> Inl e
      | Inr ((h, key, sn), rest) \<Rightarrow>
          if fingerprint key \<noteq> fp then invalid FileIdentity else Inr (key, sn))))"

text \<open>An unreadable or invalid file is skipped; a panic is not caught.\<close>

fun scan_entries ::
  "(byte list \<Rightarrow> byte list) \<Rightarrow> (string \<Rightarrow> bool) \<Rightarrow> directory \<Rightarrow> io_failure + (prefix_key \<times> state_snapshot) list" where
  "scan_entries sha readable [] = Inr []"
| "scan_entries sha readable ((name, bs) # dir) =
     (if extension name \<noteq> Some ''lpfx'' then scan_entries sha readable dir
      else if \<not> readable name then scan_entries sha readable dir
      else case read_snapshot sha bs of
             Inl CapacityPanic \<Rightarrow> Inl CapacityPanic
           | Inl (IoError e) \<Rightarrow> scan_entries sha readable dir
           | Inr ((h, key, sn), rest) \<Rightarrow> map_sum id ((#) (key, sn)) (scan_entries sha readable dir))"

definition remove_file ::
  "(byte list \<Rightarrow> byte list) \<Rightarrow> (byte list \<Rightarrow> string) \<Rightarrow> io_error option \<Rightarrow> prefix_fingerprint \<Rightarrow> directory \<Rightarrow>
     (io_failure + bool) \<times> directory" where
  "remove_file sha hex fault fp dir =
     (case fault of
        Some NotFound \<Rightarrow> (Inr False, dir)
      | Some e \<Rightarrow> (Inl (IoError e), dir)
      | None \<Rightarrow>
          if file_exists sha hex fp dir then (Inr True, hm_remove (snapshot_path sha hex fp) dir)
          else (Inr False, dir))"

section \<open>Names\<close>

lemma takeWhile_dot: "\<forall>c \<in> set xs. c \<noteq> d \<Longrightarrow> takeWhile (\<lambda>c. c \<noteq> d) (xs @ d # ys) = xs"
  by (induction xs) auto

lemma dropWhile_dot: "\<forall>c \<in> set xs. c \<noteq> d \<Longrightarrow> dropWhile (\<lambda>c. c \<noteq> d) (xs @ d # ys) = d # ys"
  by (induction xs) auto

lemma split_dot:
  assumes "CHR ''.'' \<notin> set after"
  shows "split_last_dot (before @ CHR ''.'' # after) = Some (before, after)"
proof -
  have "\<forall>c \<in> set (rev after). c \<noteq> CHR ''.''" using assms by auto
  then show ?thesis by (simp add: split_last_dot_def takeWhile_dot dropWhile_dot)
qed

lemma extension_dot:
  assumes "CHR ''.'' \<notin> set after" "before \<noteq> []" "after \<noteq> []"
  shows "extension (before @ CHR ''.'' # after) = Some after"
proof -
  have "2 < length (before @ CHR ''.'' # after)" using assms(2,3) by (cases before; cases after) simp_all
  then have "before @ CHR ''.'' # after \<noteq> ''..''" by (rule_tac notI) (drule arg_cong [of _ _ length], simp)
  then have "extension (before @ CHR ''.'' # after) =
      (case split_last_dot (before @ CHR ''.'' # after) of
         Some (before, after) \<Rightarrow> if before = [] then None else Some after | None \<Rightarrow> None)"
    unfolding extension_def by (rule if_not_P)
  then show ?thesis using assms(2) by (simp only: split_dot [OF assms(1)] option.case prod.case if_False)
qed

lemma extension_temp: "extension (temp_name path pid) = Some ''tmp''"
  using extension_dot [of "''tmp''" "''.'' @ file_stem path @ ''.'' @ pid"] by (simp add: temp_name_def)

lemma temp_not_path: "temp_name p pid \<noteq> snapshot_path sha hex fp"
proof -
  have "last (temp_name p pid) = CHR ''p''" "last (snapshot_path sha hex fp) = CHR ''x''"
    by (simp_all add: temp_name_def snapshot_path_def)
  then have "last (temp_name p pid) \<noteq> last (snapshot_path sha hex fp)" by simp
  then show ?thesis by (rule contrapos_nn) simp
qed

text \<open>
  C18: Writing an entry is atomic.  Whatever fails on the way, and wherever the
  process may stop, the entry's file afterwards holds either what it held before
  or the complete new container, the latter exactly when the call reports
  success; no other file changes except the temporary one, and that one is never
  picked up by a scan of the directory.  A successful write is read back as the
  same key and snapshot.
\<close>

theorem write_for_atomic:
  assumes run: "write_for sha hex pid fault key sn dir = (r, dir')"
    and path: "path = snapshot_path sha hex (fingerprint key)" and tmp: "tmp = temp_name path pid"
    and sha: "\<And>x. length (sha x) = 32" and key: "stored_key_ok sha key" and sn: "snapshot_ok sn"
  shows "(case r of
            Inr p \<Rightarrow> p = path \<and> hm_get dir' tmp = None \<and>
              (\<exists>cs. write_snapshot sha key sn = Inr cs \<and> hm_get dir' path = Some cs \<and>
                (length cs \<le> isize_max \<longrightarrow> read_for sha hex None (fingerprint key) dir' = Inr (key, sn)))
          | Inl e \<Rightarrow> hm_get dir' path = hm_get dir path)
    \<and> (\<forall>name. name \<noteq> path \<longrightarrow> name \<noteq> tmp \<longrightarrow> hm_get dir' name = hm_get dir name)
    \<and> extension tmp = Some ''tmp''"
proof (intro conjI)
  have neq: "tmp \<noteq> path" using temp_not_path path tmp by simp
  show "extension tmp = Some ''tmp''" by (simp add: tmp extension_temp)
  show "\<forall>name. name \<noteq> path \<longrightarrow> name \<noteq> tmp \<longrightarrow> hm_get dir' name = hm_get dir name"
    using run by (auto simp: write_for_def Let_def hm_simps path tmp split: if_splits sum.splits option.splits
        write_fault.splits)
  show "case r of Inr p \<Rightarrow> p = path \<and> hm_get dir' tmp = None \<and>
              (\<exists>cs. write_snapshot sha key sn = Inr cs \<and> hm_get dir' path = Some cs \<and>
                (length cs \<le> isize_max \<longrightarrow> read_for sha hex None (fingerprint key) dir' = Inr (key, sn)))
          | Inl e \<Rightarrow> hm_get dir' path = hm_get dir path"
  proof (cases r)
    case (Inl e)
    with run neq show ?thesis
      by (auto simp: write_for_def Let_def hm_simps path tmp split: if_splits sum.splits option.splits
        write_fault.splits)
  next
    case (Inr p)
    with run obtain cs where cs: "p = path" "write_snapshot sha key sn = Inr cs"
      "dir' = hm_insert path cs (hm_remove tmp (hm_insert tmp cs (hm_insert tmp [] dir)))"
      by (auto simp: write_for_def Let_def path tmp invalid_def split: if_splits sum.splits option.splits write_fault.splits)
    have "read_for sha hex None (fingerprint key) dir' = Inr (key, sn)" if len: "length cs \<le> isize_max"
      using read_written [OF cs(2) len sha key sn] cs(3) by (auto simp: read_for_def path hm_simps)
    with Inr cs neq show ?thesis by (simp add: hm_simps)
  qed
qed

theorem write_for_atomic_witness:
  "\<exists>dir'. write_for demo_sha (\<lambda>_. ''ab'') ''7'' None demo_key demo_entry [(''x'', [1])] = (Inr ''ab.lpfx'', dir') \<and>
     hm_get dir' ''x'' = Some [1] \<and>
     read_for demo_sha (\<lambda>_. ''ab'') None (fingerprint demo_key) dir' = Inr (demo_key, demo_entry)"
proof -
  have path: "snapshot_path demo_sha (\<lambda>_. ''ab'') (fingerprint demo_key) = ''ab.lpfx''"
    by (simp add: snapshot_path_def)
  obtain dir' where run: "write_for demo_sha (\<lambda>_. ''ab'') ''7'' None demo_key demo_entry [(''x'', [1])] = (Inr ''ab.lpfx'', dir')"
    by (simp add: write_for_def Let_def demo_written path)
  have len: "length demo_container \<le> isize_max" by (simp add: demo_container_length isize_max_def)
  have "''x'' \<noteq> temp_name ''ab.lpfx'' ''7''" by (simp add: temp_name_def)
  with write_for_atomic [OF run path [symmetric] refl demo_sha_length demo_key_stored demo_entry_ok] run len
  show ?thesis by (simp add: demo_written)
qed

section \<open>Scanning the directory\<close>

definition scanned :: "(byte list \<Rightarrow> byte list) \<Rightarrow> (string \<Rightarrow> bool) \<Rightarrow> directory \<Rightarrow> byte list list" where
  "scanned sha readable dir =
     map snd (filter (\<lambda>(name, bs). extension name = Some ''lpfx'' \<and> readable name) dir)"

definition entry_of :: "(byte list \<Rightarrow> byte list) \<Rightarrow> byte list \<Rightarrow> (prefix_key \<times> state_snapshot) option" where
  "entry_of sha bs = (case read_snapshot sha bs of Inr ((h, key, sn), rest) \<Rightarrow> Some (key, sn) | Inl _ \<Rightarrow> None)"

lemma scan_entries_iff:
  "scan_entries sha readable dir =
     (if \<exists>bs \<in> set (scanned sha readable dir). read_snapshot sha bs = Inl CapacityPanic then Inl CapacityPanic
      else Inr (List.map_filter (entry_of sha) (scanned sha readable dir)))"
proof (induction dir)
  case Nil
  show ?case by (simp add: scanned_def map_filter_simps)
next
  case (Cons p dir)
  obtain name bs where p: "p = (name, bs)" by force
  show ?case
  proof (cases "extension name = Some ''lpfx'' \<and> readable name")
    case True
    then have "scanned sha readable (p # dir) = bs # scanned sha readable dir" by (simp add: scanned_def p)
    with True Cons.IH show ?thesis
      by (auto simp: p entry_of_def [of sha bs] map_filter_simps split: sum.split io_failure.split)
  next
    case False
    then have "scanned sha readable (p # dir) = scanned sha readable dir" by (simp add: scanned_def p)
    with False Cons.IH show ?thesis by (auto simp: p)
  qed
qed

text \<open>
  Scanning the cache directory returns, in directory order, exactly the
  entries of the readable \<^verbatim>\<open>.lpfx\<close> files that verify, skipping every file that does
  not; an entry that was written and not touched since is among them.  The one
  exception is a file whose header promises more bytes than can be allocated:
  one such file makes the whole scan panic instead of being skipped.
\<close>

lemma scan_entries_exact:
  assumes listed: "(name, bs) \<in> set dir" "extension name = Some ''lpfx''" "readable name"
  shows "scan_entries sha readable dir =
     (if \<exists>cs \<in> set (scanned sha readable dir). read_snapshot sha cs = Inl CapacityPanic then Inl CapacityPanic
      else Inr (List.map_filter (entry_of sha) (scanned sha readable dir)))
   \<and> (scan_entries sha readable dir = Inr es \<longrightarrow> write_snapshot sha key sn = Inr bs \<longrightarrow> length bs \<le> isize_max \<longrightarrow>
        (\<forall>x. length (sha x) = 32) \<longrightarrow> stored_key_ok sha key \<longrightarrow> snapshot_ok sn \<longrightarrow> (key, sn) \<in> set es)
   \<and> (read_snapshot sha bs = Inl CapacityPanic \<longrightarrow> scan_entries sha readable dir = Inl CapacityPanic)"
proof -
  have mem: "bs \<in> set (scanned sha readable dir)" using listed by (force simp: scanned_def)
  have "(key, sn) \<in> set es" if "scan_entries sha readable dir = Inr es" "write_snapshot sha key sn = Inr bs"
    "length bs \<le> isize_max" "\<forall>x. length (sha x) = 32" "stored_key_ok sha key" "snapshot_ok sn"
  proof -
    have "entry_of sha bs = Some (key, sn)"
      using read_written [OF that(2,3) _ that(5,6)] that(4) by (auto simp: entry_of_def)
    with mem that(1) show ?thesis by (force simp: scan_entries_iff map_filter_def split: if_splits)
  qed
  with mem show ?thesis unfolding scan_entries_iff by auto
qed

end
