(* ===== verification/Prefix_Runtime.thy ===== *)
theory Prefix_Runtime
  imports Prefix_Index Prefix_Disk
begin

text \<open>
  The two-tier prefix cache (\<^verbatim>\<open>logan-core/src/prefix/runtime.rs\<close>): a RAM cache of
  snapshots in front of an SSD store with its metadata index.  The directory of
  the store is state that other processes may change between calls, so every
  operation takes it as an argument; the failures of the operating system are
  arguments too.
\<close>

record host =
  ho_sha :: "byte list \<Rightarrow> byte list"
  ho_hex :: "byte list \<Rightarrow> string"
  ho_pid :: string

record prefix_runtime_config =
  rcfg_ram_cache_bytes :: nat
  rcfg_ssd_cache_bytes :: nat
  rcfg_ssd_root :: "string option"
  rcfg_min_cache_tokens :: nat
  rcfg_writes_enabled :: bool
  rcfg_salt :: "byte list"

definition default_config :: prefix_runtime_config where
  "default_config = \<lparr>rcfg_ram_cache_bytes = 512 * 1024 * 1024, rcfg_ssd_cache_bytes = 4 * 1024 * 1024 * 1024,
     rcfg_ssd_root = None, rcfg_min_cache_tokens = 4, rcfg_writes_enabled = True, rcfg_salt = []\<rparr>"

record prefix_lookup_result =
  lr_hit :: bool
  lr_ram_hit :: bool
  lr_ssd_hit :: bool
  lr_prefix_len :: nat
  lr_remaining_tokens :: nat
  lr_snapshot :: "state_snapshot option"

definition lookup_miss :: "nat \<Rightarrow> prefix_lookup_result" where
  "lookup_miss query_len = \<lparr>lr_hit = False, lr_ram_hit = False, lr_ssd_hit = False, lr_prefix_len = 0,
     lr_remaining_tokens = query_len, lr_snapshot = None\<rparr>"

record prefix_runtime =
  pr_ram_cache :: "state_snapshot ram_prefix_cache"
  pr_ssd_store :: "string option"
  pr_ssd_index :: prefix_index
  pr_config :: prefix_runtime_config

text \<open>The error strings of the source, and the panic of a container read.\<close>

datatype runtime_error =
    OpenSsd io_error
  | ScanSsd io_error
  | ReadSsd io_error
  | WriteSsd io_error
  | SnapshotEncoding wire_error
  | EntrySizeOverflow
  | PrefixIdentity
  | CacheRefused cache_error
  | RuntimePanic

section \<open>Operations\<close>

definition effective_key :: "host \<Rightarrow> prefix_runtime_config \<Rightarrow> prefix_key \<Rightarrow> prefix_key" where
  "effective_key hst cfg key = (if rcfg_salt cfg = [] then key else with_salt (ho_sha hst) (rcfg_salt cfg) key)"

definition cache_entry_bytes :: "host \<Rightarrow> prefix_key \<Rightarrow> state_snapshot \<Rightarrow> runtime_error + nat" where
  "cache_entry_bytes hst key sn =
     (case to_bytes (ho_sha hst) sn of
        Inl e \<Rightarrow> Inl (SnapshotEncoding e)
      | Inr bs \<Rightarrow>
          (case Option.bind (checked_mul_usize (key_prefix_len key) 4) (\<lambda>tokens. checked_add_usize tokens (length bs)) of
             None \<Rightarrow> Inl EntrySizeOverflow
           | Some n \<Rightarrow> Inr n))"

text \<open>\<^verbatim>\<open>let _ = store.remove(..)\<close> for each evicted fingerprint; failures are ignored.\<close>

definition remove_evicted ::
  "host \<Rightarrow> (prefix_fingerprint \<Rightarrow> io_error option) \<Rightarrow> prefix_fingerprint list \<Rightarrow> directory \<Rightarrow> directory" where
  "remove_evicted hst rm evicted dir =
     fold (\<lambda>fp d. snd (remove_file (ho_sha hst) (ho_hex hst) (rm fp) fp d)) evicted dir"

fun rebuild_loop ::
  "host \<Rightarrow> (prefix_fingerprint \<Rightarrow> io_error option) \<Rightarrow> prefix_runtime_config \<Rightarrow> (prefix_key \<times> state_snapshot) list \<Rightarrow>
     prefix_index \<Rightarrow> directory \<Rightarrow> ((runtime_error + unit) \<times> prefix_index \<times> directory) option" where
  "rebuild_loop hst rm cfg [] ix dir = Some (Inr (), ix, dir)"
| "rebuild_loop hst rm cfg ((key, sn) # entries) ix dir =
     (case cache_entry_bytes hst key sn of
        Inl e \<Rightarrow> Some (Inl e, ix, dir)
      | Inr bytes \<Rightarrow>
          if rcfg_ssd_cache_bytes cfg < bytes
          then rebuild_loop hst rm cfg entries ix (remove_evicted hst rm [fingerprint key] dir)
          else
            (case insert_with_evictions key bytes ix of
               None \<Rightarrow> None
             | Some (Inl e, ix') \<Rightarrow> Some (Inl (CacheRefused e), ix', dir)
             | Some (Inr evicted, ix') \<Rightarrow>
                 rebuild_loop hst rm cfg entries ix' (remove_evicted hst rm evicted dir)))"

definition rebuild_ssd_index ::
  "host \<Rightarrow> io_error option \<Rightarrow> (string \<Rightarrow> bool) \<Rightarrow> (prefix_fingerprint \<Rightarrow> io_error option) \<Rightarrow> prefix_runtime \<Rightarrow>
     directory \<Rightarrow> ((runtime_error + unit) \<times> prefix_runtime \<times> directory) option" where
  "rebuild_ssd_index hst scan_fault readable rm rt dir =
     (case pr_ssd_store rt of
        None \<Rightarrow> Some (Inr (), rt, dir)
      | Some root \<Rightarrow>
     (case scan_fault of
        Some e \<Rightarrow> Some (Inl (ScanSsd e), rt, dir)
      | None \<Rightarrow>
     (case scan_entries (ho_sha hst) readable dir of
        Inl CapacityPanic \<Rightarrow> Some (Inl RuntimePanic, rt, dir)
      | Inl (IoError e) \<Rightarrow> Some (Inl (ScanSsd e), rt, dir)
      | Inr entries \<Rightarrow>
          map_option (\<lambda>(r, ix, d). (r, rt\<lparr>pr_ssd_index := ix\<rparr>, d))
            (rebuild_loop hst rm (pr_config rt) entries (pr_ssd_index rt) dir))))"

definition new_runtime ::
  "host \<Rightarrow> io_error option \<Rightarrow> io_error option \<Rightarrow> (string \<Rightarrow> bool) \<Rightarrow> (prefix_fingerprint \<Rightarrow> io_error option) \<Rightarrow>
     prefix_runtime_config \<Rightarrow> directory \<Rightarrow> ((runtime_error + prefix_runtime) \<times> directory) option" where
  "new_runtime hst open_fault scan_fault readable rm cfg dir =
     (let wants = (rcfg_ssd_root cfg \<noteq> None \<and> 0 < rcfg_ssd_cache_bytes cfg) in
      case (wants, open_fault) of
        (True, Some e) \<Rightarrow> Some (Inl (OpenSsd e), dir)
      | _ \<Rightarrow>
          (let rt = \<lparr>pr_ram_cache = new_ram_cache (rcfg_ram_cache_bytes cfg),
                     pr_ssd_store = (if wants then rcfg_ssd_root cfg else None),
                     pr_ssd_index = new_index (rcfg_ssd_cache_bytes cfg), pr_config = cfg\<rparr>
           in map_option (\<lambda>(r, rt', d). (map_sum id (\<lambda>_. rt') r, d))
                (rebuild_ssd_index hst scan_fault readable rm rt dir)))"

definition ram_result :: "nat \<Rightarrow> state_snapshot cache_hit \<Rightarrow> prefix_lookup_result" where
  "ram_result query_len h =
     \<lparr>lr_hit = True, lr_ram_hit = True, lr_ssd_hit = False, lr_prefix_len = ch_prefix_len h,
      lr_remaining_tokens = saturating_sub query_len (ch_prefix_len h), lr_snapshot = Some (ch_value h)\<rparr>"

definition ssd_result :: "nat \<Rightarrow> prefix_key \<Rightarrow> state_snapshot \<Rightarrow> prefix_lookup_result" where
  "ssd_result query_len stored sn =
     \<lparr>lr_hit = True, lr_ram_hit = False, lr_ssd_hit = True, lr_prefix_len = key_prefix_len stored,
      lr_remaining_tokens = saturating_sub query_len (key_prefix_len stored), lr_snapshot = Some sn\<rparr>"

text \<open>The part of \<^verbatim>\<open>lookup_prefix\<close> after both lookups: reading, checking and promoting an SSD entry.\<close>

definition load_from_ssd ::
  "host \<Rightarrow> io_error option \<Rightarrow> prefix_key \<Rightarrow> prefix_fingerprint \<Rightarrow> prefix_runtime \<Rightarrow> directory \<Rightarrow>
     ((runtime_error + prefix_lookup_result) \<times> prefix_runtime) option" where
  "load_from_ssd hst fault query fp rt dir =
     (let query_len = key_prefix_len query;
          dropped = rt\<lparr>pr_ssd_index := snd (index_remove fp (pr_ssd_index rt))\<rparr>
      in case read_for (ho_sha hst) (ho_hex hst) fault fp dir of
           Inl CapacityPanic \<Rightarrow> Some (Inl RuntimePanic, rt)
         | Inl (IoError e) \<Rightarrow>
             (case e of
                NotFound \<Rightarrow> Some (Inr (lookup_miss query_len), dropped)
              | InvalidData _ \<Rightarrow> Some (Inr (lookup_miss query_len), dropped)
              | _ \<Rightarrow> Some (Inl (ReadSsd e), dropped))
         | Inr (stored, sn) \<Rightarrow>
             if \<not> is_prefix_of stored query then Some (Inr (lookup_miss query_len), dropped)
             else
               (case cache_entry_bytes hst stored sn of
                  Inl e \<Rightarrow> Some (Inl e, rt)
                | Inr bytes \<Rightarrow>
                    map_option (\<lambda>ram. (Inr (ssd_result query_len stored sn), rt\<lparr>pr_ram_cache := ram\<rparr>))
                      (if bytes \<le> rcfg_ram_cache_bytes (pr_config rt)
                       then map_option snd (ram_insert stored sn bytes (pr_ram_cache rt))
                       else Some (pr_ram_cache rt))))"

definition lookup_prefix ::
  "host \<Rightarrow> io_error option \<Rightarrow> prefix_key \<Rightarrow> prefix_runtime \<Rightarrow> directory \<Rightarrow>
     ((runtime_error + prefix_lookup_result) \<times> prefix_runtime) option" where
  "lookup_prefix hst fault query0 rt dir =
     (let query = effective_key hst (pr_config rt) query0; query_len = key_prefix_len query
      in case ram_lookup query (pr_ram_cache rt) of
           (Some h, ram) \<Rightarrow> Some (Inr (ram_result query_len h), rt\<lparr>pr_ram_cache := ram\<rparr>)
         | (None, ram) \<Rightarrow>
             (let rt1 = rt\<lparr>pr_ram_cache := ram\<rparr> in
              case index_lookup query (pr_ssd_index rt1) of
                (None, ix) \<Rightarrow> Some (Inr (lookup_miss query_len), rt1\<lparr>pr_ssd_index := ix\<rparr>)
              | (Some fp, ix) \<Rightarrow>
                  (let rt2 = rt1\<lparr>pr_ssd_index := ix\<rparr> in
                   case pr_ssd_store rt2 of
                     None \<Rightarrow> Some (Inr (lookup_miss query_len), rt2)
                   | Some root \<Rightarrow> load_from_ssd hst fault query fp rt2 dir)))"

text \<open>The SSD half of \<^verbatim>\<open>cache_prefix\<close>.\<close>

definition store_on_ssd ::
  "host \<Rightarrow> write_fault option \<Rightarrow> (prefix_fingerprint \<Rightarrow> io_error option) \<Rightarrow> prefix_key \<Rightarrow> state_snapshot \<Rightarrow> nat \<Rightarrow>
     prefix_runtime \<Rightarrow> directory \<Rightarrow> ((runtime_error + unit) \<times> prefix_runtime \<times> directory) option" where
  "store_on_ssd hst fault rm key sn bytes rt dir =
     (if pr_ssd_store rt = None \<or> rcfg_ssd_cache_bytes (pr_config rt) < bytes then Some (Inr (), rt, dir)
      else case insert_with_evictions key bytes (pr_ssd_index rt) of
             None \<Rightarrow> None
           | Some (Inl e, ix) \<Rightarrow> Some (Inl (CacheRefused e), rt\<lparr>pr_ssd_index := ix\<rparr>, dir)
           | Some (Inr evicted, ix) \<Rightarrow>
               (case write_for (ho_sha hst) (ho_hex hst) (ho_pid hst) fault key sn (remove_evicted hst rm evicted dir) of
                  (Inr path, dir') \<Rightarrow> Some (Inr (), rt\<lparr>pr_ssd_index := ix\<rparr>, dir')
                | (Inl CapacityPanic, dir') \<Rightarrow> Some (Inl RuntimePanic, rt\<lparr>pr_ssd_index := ix\<rparr>, dir')
                | (Inl (IoError e), dir') \<Rightarrow>
                    Some (Inl (WriteSsd e), rt\<lparr>pr_ssd_index := snd (index_remove (fingerprint key) ix)\<rparr>, dir')))"

definition cache_prefix ::
  "host \<Rightarrow> write_fault option \<Rightarrow> (prefix_fingerprint \<Rightarrow> io_error option) \<Rightarrow> prefix_key \<Rightarrow> state_snapshot \<Rightarrow>
     prefix_runtime \<Rightarrow> directory \<Rightarrow> ((runtime_error + unit) \<times> prefix_runtime \<times> directory) option" where
  "cache_prefix hst fault rm key0 sn rt dir =
     (if key_prefix_len key0 < rcfg_min_cache_tokens (pr_config rt) \<or> \<not> rcfg_writes_enabled (pr_config rt)
      then Some (Inr (), rt, dir)
      else if sn_prefix_len sn \<noteq> key_prefix_len key0 \<or> sn_prefix_hash sn \<noteq> pk_token_hash key0
      then Some (Inl PrefixIdentity, rt, dir)
      else
        (let key = effective_key hst (pr_config rt) key0 in
         case cache_entry_bytes hst key sn of
           Inl e \<Rightarrow> Some (Inl e, rt, dir)
         | Inr bytes \<Rightarrow>
             if 0 < rcfg_ram_cache_bytes (pr_config rt) \<and> bytes \<le> rcfg_ram_cache_bytes (pr_config rt)
             then (case ram_insert key sn bytes (pr_ram_cache rt) of
                     None \<Rightarrow> None
                   | Some (Inl e, ram) \<Rightarrow> Some (Inl (CacheRefused e), rt\<lparr>pr_ram_cache := ram\<rparr>, dir)
                   | Some (Inr _, ram) \<Rightarrow> store_on_ssd hst fault rm key sn bytes (rt\<lparr>pr_ram_cache := ram\<rparr>) dir)
             else store_on_ssd hst fault rm key sn bytes rt dir))"

definition runtime_ram_stats :: "prefix_runtime \<Rightarrow> cache_stats" where
  "runtime_ram_stats rt = ram_stats (pr_ram_cache rt)"

definition runtime_ssd_stats :: "prefix_runtime \<Rightarrow> cache_stats" where
  "runtime_ssd_stats rt = index_stats (pr_ssd_index rt)"

definition clear_ram :: "prefix_runtime \<Rightarrow> prefix_runtime" where
  "clear_ram rt = rt\<lparr>pr_ram_cache := ram_clear (pr_ram_cache rt)\<rparr>"

section \<open>The invariant\<close>

text \<open>A snapshot belongs to a key when it was taken at the key's length and token hash.\<close>

definition belongs :: "prefix_key \<Rightarrow> state_snapshot \<Rightarrow> bool" where
  "belongs key sn \<longleftrightarrow> sn_prefix_len sn = key_prefix_len key \<and> sn_prefix_hash sn = pk_token_hash key"

text \<open>
  The invariant of a runtime, relative to a set of entries its RAM tier may hold
  (what its callers offered and what it read from the disk).
\<close>

definition runtime_ok :: "host \<Rightarrow> (prefix_key \<times> state_snapshot) set \<Rightarrow> prefix_runtime \<Rightarrow> bool" where
  "runtime_ok hst S rt \<longleftrightarrow>
     cache_ok (ho_sha hst) (pr_ram_cache rt) \<and> index_ok (ho_sha hst) (pr_ssd_index rt)
   \<and> rc_max_bytes (pr_ram_cache rt) = rcfg_ram_cache_bytes (pr_config rt)
   \<and> pi_max_bytes (pr_ssd_index rt) = rcfg_ssd_cache_bytes (pr_config rt)
   \<and> (\<forall>fp e. hm_get (rc_entries (pr_ram_cache rt)) fp = Some e \<longrightarrow>
        belongs (ce_key e) (ce_value e) \<and> (ce_key e, ce_value e) \<in> S)"

lemma runtime_ok_mono: "runtime_ok hst S rt \<Longrightarrow> S \<subseteq> S' \<Longrightarrow> runtime_ok hst S' rt"
  by (auto simp: runtime_ok_def)

text \<open>What can be read back from the store at one moment.\<close>

definition disk_entries :: "host \<Rightarrow> io_error option \<Rightarrow> directory \<Rightarrow> (prefix_key \<times> state_snapshot) set" where
  "disk_entries hst fault dir = {e. \<exists>fp. read_for (ho_sha hst) (ho_hex hst) fault fp dir = Inr e}"

lemma read_snapshot_sound:
  assumes "read_snapshot sha bs = Inr ((h, key, sn), rest)"
  shows "key_ok sha key \<and> belongs key sn"
proof -
  obtain b where "read_snapshot_body sha h b = Inr ((key, sn), rest)"
    using assms by (auto simp: read_snapshot_def invalid_def map_sum_Inr_iff split: sum.splits prod.splits)
  then show ?thesis
    by (auto simp: read_snapshot_body_def invalid_def key_for_tokens_iff belongs_def
        split: option.splits sum.splits if_splits)
qed

lemma read_for_sound:
  assumes "read_for sha hex fault fp dir = Inr (key, sn)"
  shows "key_ok sha key \<and> belongs key sn \<and> fingerprint key = fp"
  using assms read_snapshot_sound
  by (fastforce simp: read_for_def invalid_def split: option.splits sum.splits if_splits)

lemma scan_entries_sound:
  assumes "scan_entries sha readable dir = Inr es" "(key, sn) \<in> set es"
  shows "key_ok sha key"
proof -
  from assms obtain bs where "entry_of sha bs = Some (key, sn)"
    by (auto simp: scan_entries_iff map_filter_def split: if_splits)
  then show ?thesis using read_snapshot_sound by (auto simp: entry_of_def split: sum.splits)
qed

lemma effective_key_sel [simp]:
  "pk_tokens (effective_key hst cfg key) = pk_tokens key"
  "pk_token_hash (effective_key hst cfg key) = pk_token_hash key"
  "key_prefix_len (effective_key hst cfg key) = key_prefix_len key"
  "belongs (effective_key hst cfg key) sn = belongs key sn"
  "key_ok (ho_sha hst) (effective_key hst cfg key) = key_ok (ho_sha hst) key"
  by (simp_all add: effective_key_def with_salt_def key_prefix_len_def belongs_def key_ok_def)


lemma index_insert_total:
  assumes ok: "index_ok sha ix" and key: "key_ok sha key"
  shows "\<exists>r ix'. insert_with_evictions key n ix = Some (r, ix') \<and> index_ok sha ix' \<and> pi_max_bytes ix' = pi_max_bytes ix"
proof (cases "n \<le> pi_max_bytes ix")
  case True
  from index_insert_evicts [OF ok key True] show ?thesis by metis
next
  case False
  with ok show ?thesis by (simp add: insert_with_evictions_def)
qed

lemma index_remove_max [simp]: "pi_max_bytes (snd (index_remove fp ix)) = pi_max_bytes ix"
  by (simp add: index_remove_def split: option.split)

lemma index_lookup_max [simp]: "pi_max_bytes (snd (index_lookup q ix)) = pi_max_bytes ix"
  by (simp add: index_lookup_def Let_def index_touch_def split: option.split)

lemma runtime_index:
  "\<lbrakk>runtime_ok hst S rt; index_ok (ho_sha hst) ix; pi_max_bytes ix = rcfg_ssd_cache_bytes (pr_config rt)\<rbrakk> \<Longrightarrow>
     runtime_ok hst S (rt\<lparr>pr_ssd_index := ix\<rparr>)"
  by (simp add: runtime_ok_def)

lemma runtime_ram:
  "\<lbrakk>runtime_ok hst S rt; cache_ok (ho_sha hst) c; rc_max_bytes c = rc_max_bytes (pr_ram_cache rt);
    \<And>fp e. hm_get (rc_entries c) fp = Some e \<Longrightarrow> belongs (ce_key e) (ce_value e) \<and> (ce_key e, ce_value e) \<in> S\<rbrakk> \<Longrightarrow>
     runtime_ok hst S (rt\<lparr>pr_ram_cache := c\<rparr>)"
  by (simp add: runtime_ok_def)

lemma runtime_ram_insert:
  assumes ok: "runtime_ok hst S rt" and key: "key_ok (ho_sha hst) key" and bel: "belongs key sn"
    and own: "(key, sn) \<in> S" and fits: "n \<le> rcfg_ram_cache_bytes (pr_config rt)"
  obtains c' where "ram_insert key sn n (pr_ram_cache rt) = Some (Inr (), c')"
    "runtime_ok hst S (rt\<lparr>pr_ram_cache := c'\<rparr>)"
    "hm_get (rc_entries c') (fingerprint key) = Some \<lparr>ce_key = key, ce_value = sn, ce_size = n\<rparr>"
proof -
  have c: "cache_ok (ho_sha hst) (pr_ram_cache rt)" and n: "n \<le> rc_max_bytes (pr_ram_cache rt)"
    and old: "\<And>fp e. hm_get (rc_entries (pr_ram_cache rt)) fp = Some e \<Longrightarrow>
      belongs (ce_key e) (ce_value e) \<and> (ce_key e, ce_value e) \<in> S"
    using ok fits by (simp_all add: runtime_ok_def)
  show thesis
  proof (rule cache_insert [OF c key n, of sn])
    fix k c'
    assume c': "ram_insert key sn n (pr_ram_cache rt) = Some (Inr (), c')" "cache_ok (ho_sha hst) c'"
      "rc_max_bytes c' = rc_max_bytes (pr_ram_cache rt)"
      and get: "\<And>x. hm_get (rc_entries c') x =
        (if x = fingerprint key then Some \<lparr>ce_key = key, ce_value = sn, ce_size = n\<rparr>
         else if x \<in> set (take k (filter (\<lambda>x. x \<noteq> fingerprint key) (rc_lru (pr_ram_cache rt)))) then None
         else hm_get (rc_entries (pr_ram_cache rt)) x)"
    have "runtime_ok hst S (rt\<lparr>pr_ram_cache := c'\<rparr>)"
      by (rule runtime_ram [OF ok c'(2,3)]) (use get old bel own in \<open>auto split: if_splits\<close>)
    moreover have "hm_get (rc_entries c') (fingerprint key) = Some \<lparr>ce_key = key, ce_value = sn, ce_size = n\<rparr>"
      unfolding get by simp
    ultimately show thesis by (rule that [OF c'(1)])
  qed
qed

section \<open>Every operation ends and keeps the invariant\<close>

lemma rebuild_loop_ok:
  assumes "index_ok (ho_sha hst) ix" "\<forall>(key, sn) \<in> set entries. key_ok (ho_sha hst) key"
  shows "\<exists>r ix' dir'. rebuild_loop hst rm cfg entries ix dir = Some (r, ix', dir') \<and>
    index_ok (ho_sha hst) ix' \<and> pi_max_bytes ix' = pi_max_bytes ix"
  using assms
proof (induction entries arbitrary: ix dir)
  case (Cons p entries)
  obtain key sn where p: "p = (key, sn)" by force
  show ?case
  proof (cases "cache_entry_bytes hst key sn")
    case (Inl e)
    with Cons.prems show ?thesis by (simp add: p)
  next
    case (Inr n)
    obtain r ix' where ins: "insert_with_evictions key n ix = Some (r, ix')" "index_ok (ho_sha hst) ix'"
      "pi_max_bytes ix' = pi_max_bytes ix"
      using index_insert_total [of "ho_sha hst" ix key n] Cons.prems by (auto simp: p)
    show ?thesis
      using Inr ins Cons.IH [of ix "remove_evicted hst rm [fingerprint key] dir"] Cons.IH [of ix'] Cons.prems
      by (cases r) (auto simp: p)
  qed
qed simp

lemma new_runtime_ok:
  assumes "rcfg_ram_cache_bytes cfg < usize_max" "rcfg_ssd_cache_bytes cfg < usize_max"
  shows "\<exists>r dir'. new_runtime hst opf sf readable rm cfg dir = Some (r, dir') \<and>
    (\<forall>rt. r = Inr rt \<longrightarrow> runtime_ok hst S rt \<and> pr_config rt = cfg)"
proof -
  define rt where "rt = \<lparr>pr_ram_cache = new_ram_cache (rcfg_ram_cache_bytes cfg),
    pr_ssd_store = (if rcfg_ssd_root cfg \<noteq> None \<and> 0 < rcfg_ssd_cache_bytes cfg then rcfg_ssd_root cfg else None),
    pr_ssd_index = new_index (rcfg_ssd_cache_bytes cfg), pr_config = cfg\<rparr>"
  have ok: "runtime_ok hst S rt" "pr_config rt = cfg"
    using cache_ok_new [OF assms(1), of "ho_sha hst"] index_ok_new [OF assms(2), of "ho_sha hst"]
    by (simp_all add: rt_def runtime_ok_def new_ram_cache_def new_index_def)
  have "\<exists>r rt' dir'. rebuild_ssd_index hst sf readable rm rt dir = Some (r, rt', dir') \<and> runtime_ok hst S rt' \<and> pr_config rt' = cfg"
  proof (cases "\<exists>es. pr_ssd_store rt \<noteq> None \<and> sf = None \<and> scan_entries (ho_sha hst) readable dir = Inr es")
    case True
    then obtain es where es: "pr_ssd_store rt \<noteq> None" "sf = None" "scan_entries (ho_sha hst) readable dir = Inr es" by blast
    then have keys: "\<forall>(key, sn) \<in> set es. key_ok (ho_sha hst) key" using scan_entries_sound by fast
    have ix: "index_ok (ho_sha hst) (pr_ssd_index rt)" using ok by (simp add: runtime_ok_def)
    from rebuild_loop_ok [OF ix keys, of rm cfg dir] obtain r ix' dir' where
      "rebuild_loop hst rm cfg es (pr_ssd_index rt) dir = Some (r, ix', dir')" "index_ok (ho_sha hst) ix'"
      "pi_max_bytes ix' = pi_max_bytes (pr_ssd_index rt)" by blast
    with es ok show ?thesis by (auto simp: rebuild_ssd_index_def runtime_ok_def)
  next
    case False
    with ok show ?thesis
      by (auto simp: rebuild_ssd_index_def split: option.split sum.split io_failure.split)
  qed
  then obtain r rt' dir' where "rebuild_ssd_index hst sf readable rm rt dir = Some (r, rt', dir')"
    "runtime_ok hst S rt'" "pr_config rt' = cfg" by blast
  then show ?thesis
    unfolding new_runtime_def Let_def rt_def [symmetric]
    by (cases "rcfg_ssd_root cfg \<noteq> None \<and> 0 < rcfg_ssd_cache_bytes cfg"; cases opf)
      (auto simp: map_sum_Inr_iff split: bool.split)
qed

lemma load_from_ssd_ok:
  assumes ok: "runtime_ok hst S rt" and disk: "disk_entries hst fault dir \<subseteq> S"
  obtains r rt' where "load_from_ssd hst fault query fp rt dir = Some (r, rt')" "runtime_ok hst S rt'"
    "pr_config rt' = pr_config rt"
    "\<And>res. r = Inr res \<Longrightarrow> lr_hit res \<Longrightarrow>
      \<exists>key sn. is_prefix_of key query \<and> key_ok (ho_sha hst) key \<and> belongs key sn \<and>
        (key, sn) \<in> disk_entries hst fault dir \<and> res = ssd_result (key_prefix_len query) key sn"
proof -
  let ?drop = "rt\<lparr>pr_ssd_index := snd (index_remove fp (pr_ssd_index rt))\<rparr>"
  have drop: "runtime_ok hst S ?drop"
    using ok by (intro runtime_index) (simp_all add: runtime_ok_def index_ok_remove)
  show thesis
  proof (cases "\<exists>key sn n. read_for (ho_sha hst) (ho_hex hst) fault fp dir = Inr (key, sn) \<and> is_prefix_of key query \<and>
      cache_entry_bytes hst key sn = Inr n")
    case True
    then obtain key sn n where rd: "read_for (ho_sha hst) (ho_hex hst) fault fp dir = Inr (key, sn)"
      "is_prefix_of key query" "cache_entry_bytes hst key sn = Inr n" by blast
    note key = read_for_sound [OF rd(1)]
    have src: "(key, sn) \<in> disk_entries hst fault dir" using rd(1) by (auto simp: disk_entries_def)
    then have own: "(key, sn) \<in> S" using disk by blast
    show thesis
    proof (cases "n \<le> rcfg_ram_cache_bytes (pr_config rt)")
      case fits: True
      obtain c' where "ram_insert key sn n (pr_ram_cache rt) = Some (Inr (), c')" "runtime_ok hst S (rt\<lparr>pr_ram_cache := c'\<rparr>)"
        using runtime_ram_insert [OF ok _ _ own fits] key by blast
      with rd key src fits show thesis
        by (intro that [of "Inr (ssd_result (key_prefix_len query) key sn)" "rt\<lparr>pr_ram_cache := c'\<rparr>"])
          (auto simp: load_from_ssd_def Let_def)
    next
      case False
      with rd key src ok show thesis
        by (intro that [of "Inr (ssd_result (key_prefix_len query) key sn)" rt])
          (auto simp: load_from_ssd_def Let_def)
    qed
  next
    case False
    have "\<exists>r rt'. load_from_ssd hst fault query fp rt dir = Some (r, rt') \<and> (rt' = rt \<or> rt' = ?drop) \<and>
        (\<forall>res. r = Inr res \<longrightarrow> \<not> lr_hit res)"
      using False by (auto simp: load_from_ssd_def Let_def lookup_miss_def
          split: sum.split io_failure.split io_error.split)
    then obtain r rt' where out: "load_from_ssd hst fault query fp rt dir = Some (r, rt')" "rt' = rt \<or> rt' = ?drop"
      "\<forall>res. r = Inr res \<longrightarrow> \<not> lr_hit res" by blast
    then have "runtime_ok hst S rt'" "pr_config rt' = pr_config rt" using ok drop by auto
    with out show thesis by (intro that [of r rt']) auto
  qed
qed

lemma lookup_prefix_ok:
  assumes ok: "runtime_ok hst S rt" and disk: "disk_entries hst fault dir \<subseteq> S'" and sub: "S \<subseteq> S'"
  obtains r rt' where "lookup_prefix hst fault q rt dir = Some (r, rt')" "runtime_ok hst S' rt'"
    "pr_config rt' = pr_config rt"
    "\<forall>res. r = Inr res \<longrightarrow> lr_hit res \<longrightarrow>
      (\<exists>key sn. is_prefix_of key (effective_key hst (pr_config rt) q) \<and> key_ok (ho_sha hst) key \<and> belongs key sn \<and>
        (key, sn) \<in> (if lr_ram_hit res then S else disk_entries hst fault dir) \<and>
        lr_prefix_len res = key_prefix_len key \<and> lr_snapshot res = Some sn \<and>
        lr_remaining_tokens res = saturating_sub (key_prefix_len q) (key_prefix_len key))"
proof -
  let ?q = "effective_key hst (pr_config rt) q"
  have c: "cache_ok (ho_sha hst) (pr_ram_cache rt)" using ok by (simp add: runtime_ok_def)
  obtain hit ram where ram: "ram_lookup ?q (pr_ram_cache rt) = (hit, ram)" by force
  have rt1: "runtime_ok hst S (rt\<lparr>pr_ram_cache := ram\<rparr>)"
    using cache_lookup [OF c, of ?q] ok by (simp add: ram runtime_ok_def)
  show thesis
  proof (cases hit)
    case (Some h)
    from ram_lookup_result [OF c, of ?q h] ram Some obtain e where
      e: "best_match ?q (rc_entries (pr_ram_cache rt)) (ch_fingerprint h) e" "ch_prefix_len h = key_prefix_len (ce_key e)"
        "ch_value h = ce_value e" by auto
    then have "is_prefix_of (ce_key e) ?q" "key_ok (ho_sha hst) (ce_key e)" "belongs (ce_key e) (ce_value e)"
      "(ce_key e, ce_value e) \<in> S"
      using ok c by (auto simp: best_match_def runtime_ok_def cache_ok_def)
    with Some ram e runtime_ok_mono [OF rt1 sub] show thesis
      by (intro that [of "Inr (ram_result (key_prefix_len q) h)" "rt\<lparr>pr_ram_cache := ram\<rparr>"])
        (auto simp: lookup_prefix_def Let_def ram_result_def)
  next
    case None
    obtain f ix where ix: "index_lookup ?q (pr_ssd_index rt) = (f, ix)" by force
    let ?rt2 = "rt\<lparr>pr_ram_cache := ram, pr_ssd_index := ix\<rparr>"
    have rt2: "runtime_ok hst S ?rt2"
      using rt1 index_ok_lookup [of "ho_sha hst" "pr_ssd_index rt" ?q] index_lookup_max [of ?q "pr_ssd_index rt"]
      by (simp add: ix runtime_ok_def)
    show thesis
    proof (cases "\<exists>fp root. f = Some fp \<and> pr_ssd_store rt = Some root")
      case True
      then obtain fp root where f: "f = Some fp" "pr_ssd_store rt = Some root" by blast
      have run: "lookup_prefix hst fault q rt dir = load_from_ssd hst fault ?q fp ?rt2 dir"
        by (simp add: lookup_prefix_def Let_def ram None ix f)
      show thesis
      proof (rule load_from_ssd_ok [OF runtime_ok_mono [OF rt2 sub] disk, of ?q fp])
        fix r rt'
        assume out: "load_from_ssd hst fault ?q fp ?rt2 dir = Some (r, rt')" "runtime_ok hst S' rt'"
          "pr_config rt' = pr_config ?rt2"
          and hit: "\<And>res. r = Inr res \<Longrightarrow> lr_hit res \<Longrightarrow> \<exists>key sn. is_prefix_of key ?q \<and> key_ok (ho_sha hst) key \<and>
            belongs key sn \<and> (key, sn) \<in> disk_entries hst fault dir \<and> res = ssd_result (key_prefix_len ?q) key sn"
        show thesis
        proof (rule that [of r rt'], goal_cases)
          case 4
          show ?case
          proof (intro allI impI)
          fix res
          assume "r = Inr res" "lr_hit res"
          from hit [OF this] obtain key sn where "is_prefix_of key ?q" "key_ok (ho_sha hst) key" "belongs key sn"
            "(key, sn) \<in> disk_entries hst fault dir" "res = ssd_result (key_prefix_len ?q) key sn" by blast
          then show "\<exists>key sn. is_prefix_of key ?q \<and> key_ok (ho_sha hst) key \<and> belongs key sn \<and>
              (key, sn) \<in> (if lr_ram_hit res then S else disk_entries hst fault dir) \<and>
              lr_prefix_len res = key_prefix_len key \<and> lr_snapshot res = Some sn \<and>
              lr_remaining_tokens res = saturating_sub (key_prefix_len q) (key_prefix_len key)"
            by (intro exI [of _ key] exI [of _ sn]) (simp add: ssd_result_def)
          qed
        qed (use out run in simp_all)
      qed
    next
      case False
      then have "lookup_prefix hst fault q rt dir = Some (Inr (lookup_miss (key_prefix_len q)), ?rt2)"
        by (auto simp: lookup_prefix_def Let_def ram None ix split: option.split)
      with runtime_ok_mono [OF rt2 sub] show thesis
        by (intro that [of "Inr (lookup_miss (key_prefix_len q))" ?rt2]) (auto simp: lookup_miss_def)
    qed
  qed
qed

lemma store_on_ssd_ok:
  assumes ok: "runtime_ok hst S rt" and key: "key_ok (ho_sha hst) key"
  obtains r rt' dir' where "store_on_ssd hst fault rm key sn n rt dir = Some (r, rt', dir')" "runtime_ok hst S rt'"
    "pr_config rt' = pr_config rt" "pr_ram_cache rt' = pr_ram_cache rt"
proof -
  have ix: "index_ok (ho_sha hst) (pr_ssd_index rt)" using ok by (simp add: runtime_ok_def)
  obtain r ix' where ins: "insert_with_evictions key n (pr_ssd_index rt) = Some (r, ix')" "index_ok (ho_sha hst) ix'"
    "pi_max_bytes ix' = pi_max_bytes (pr_ssd_index rt)" using index_insert_total [OF ix key] by blast
  have keep: "runtime_ok hst S (rt\<lparr>pr_ssd_index := ix'\<rparr>)"
    "runtime_ok hst S (rt\<lparr>pr_ssd_index := snd (index_remove (fingerprint key) ix')\<rparr>)"
    using ok ins by (simp_all add: runtime_ok_def index_ok_remove)
  obtain w dir' where w: "write_for (ho_sha hst) (ho_hex hst) (ho_pid hst) fault key sn
      (remove_evicted hst rm (case r of Inr ev \<Rightarrow> ev | _ \<Rightarrow> []) dir) = (w, dir')" by force
  have "\<exists>r' rt' d. store_on_ssd hst fault rm key sn n rt dir = Some (r', rt', d) \<and>
      (rt' = rt \<or> rt' = rt\<lparr>pr_ssd_index := ix'\<rparr> \<or> rt' = rt\<lparr>pr_ssd_index := snd (index_remove (fingerprint key) ix')\<rparr>)"
    using ins(1) w by (cases r) (auto simp: store_on_ssd_def split: sum.split io_failure.split)
  then obtain r' rt' d where out: "store_on_ssd hst fault rm key sn n rt dir = Some (r', rt', d)"
    "rt' = rt \<or> rt' = rt\<lparr>pr_ssd_index := ix'\<rparr> \<or> rt' = rt\<lparr>pr_ssd_index := snd (index_remove (fingerprint key) ix')\<rparr>"
    by blast
  then have "runtime_ok hst S rt'" "pr_config rt' = pr_config rt" "pr_ram_cache rt' = pr_ram_cache rt"
    using keep ok by auto
  with out(1) show thesis by (rule that)
qed

text \<open>When \<^verbatim>\<open>cache_prefix\<close> puts an entry into the RAM tier.\<close>

definition ram_admits :: "host \<Rightarrow> prefix_runtime \<Rightarrow> prefix_key \<Rightarrow> state_snapshot \<Rightarrow> bool" where
  "ram_admits hst rt key sn \<longleftrightarrow>
     rcfg_min_cache_tokens (pr_config rt) \<le> key_prefix_len key \<and> rcfg_writes_enabled (pr_config rt) \<and>
     belongs key sn \<and> 0 < rcfg_ram_cache_bytes (pr_config rt) \<and>
     (case cache_entry_bytes hst (effective_key hst (pr_config rt) key) sn of
        Inl _ \<Rightarrow> False | Inr n \<Rightarrow> n \<le> rcfg_ram_cache_bytes (pr_config rt))"

lemma cache_prefix_ok:
  assumes ok: "runtime_ok hst S rt" and key: "key_ok (ho_sha hst) key"
    and own: "(effective_key hst (pr_config rt) key, sn) \<in> S"
  obtains r rt' dir' where "cache_prefix hst fault rm key sn rt dir = Some (r, rt', dir')" "runtime_ok hst S rt'"
    "pr_config rt' = pr_config rt"
    "\<And>n. \<lbrakk>rcfg_min_cache_tokens (pr_config rt) \<le> key_prefix_len key; rcfg_writes_enabled (pr_config rt); r = Inr ();
       cache_entry_bytes hst (effective_key hst (pr_config rt) key) sn = Inr n;
       0 < rcfg_ram_cache_bytes (pr_config rt); n \<le> rcfg_ram_cache_bytes (pr_config rt)\<rbrakk> \<Longrightarrow>
      hm_get (rc_entries (pr_ram_cache rt')) (fingerprint (effective_key hst (pr_config rt) key)) =
        Some \<lparr>ce_key = effective_key hst (pr_config rt) key, ce_value = sn, ce_size = n\<rparr>"
    "\<not> ram_admits hst rt key sn \<Longrightarrow> pr_ram_cache rt' = pr_ram_cache rt"
proof (cases "key_prefix_len key < rcfg_min_cache_tokens (pr_config rt) \<or> \<not> rcfg_writes_enabled (pr_config rt) \<or>
    \<not> belongs key sn \<or> (\<exists>e. cache_entry_bytes hst (effective_key hst (pr_config rt) key) sn = Inl e)")
  case True
  then have "\<exists>r. cache_prefix hst fault rm key sn rt dir = Some (r, rt, dir) \<and>
      (r = Inr () \<longrightarrow> key_prefix_len key < rcfg_min_cache_tokens (pr_config rt) \<or> \<not> rcfg_writes_enabled (pr_config rt))"
    by (auto simp: cache_prefix_def belongs_def Let_def)
  then obtain r where "cache_prefix hst fault rm key sn rt dir = Some (r, rt, dir)"
      "r = Inr () \<longrightarrow> key_prefix_len key < rcfg_min_cache_tokens (pr_config rt) \<or> \<not> rcfg_writes_enabled (pr_config rt)"
    by blast
  then show thesis using ok by (intro that [of r rt dir]) auto
next
  case False
  let ?k = "effective_key hst (pr_config rt) key"
  from False obtain n where n: "cache_entry_bytes hst ?k sn = Inr n" by (cases "cache_entry_bytes hst ?k sn") auto
  have k: "key_ok (ho_sha hst) ?k" "belongs ?k sn" using key False by simp_all
  have bel: "sn_prefix_len sn = key_prefix_len key" "sn_prefix_hash sn = pk_token_hash key"
    using False by (simp_all add: belongs_def)
  show thesis
  proof (cases "0 < rcfg_ram_cache_bytes (pr_config rt) \<and> n \<le> rcfg_ram_cache_bytes (pr_config rt)")
    case fits: True
    then obtain c' where c': "ram_insert ?k sn n (pr_ram_cache rt) = Some (Inr (), c')"
      "runtime_ok hst S (rt\<lparr>pr_ram_cache := c'\<rparr>)"
      "hm_get (rc_entries c') (fingerprint ?k) = Some \<lparr>ce_key = ?k, ce_value = sn, ce_size = n\<rparr>"
      using runtime_ram_insert [OF ok k own] by blast
    have run: "cache_prefix hst fault rm key sn rt dir = store_on_ssd hst fault rm ?k sn n (rt\<lparr>pr_ram_cache := c'\<rparr>) dir"
      using False n fits c'(1) bel by (simp add: cache_prefix_def Let_def)
    obtain r rt' dir' where "store_on_ssd hst fault rm ?k sn n (rt\<lparr>pr_ram_cache := c'\<rparr>) dir = Some (r, rt', dir')"
      "runtime_ok hst S rt'" "pr_config rt' = pr_config (rt\<lparr>pr_ram_cache := c'\<rparr>)"
      "pr_ram_cache rt' = pr_ram_cache (rt\<lparr>pr_ram_cache := c'\<rparr>)"
      by (rule store_on_ssd_ok [OF c'(2) k(1)])
    then show thesis using False fits by (intro that [of r rt' dir']) (use run c'(3) n in \<open>simp_all add: ram_admits_def\<close>)
  next
    case noram: False
    have run: "cache_prefix hst fault rm key sn rt dir = store_on_ssd hst fault rm ?k sn n rt dir"
      using False n noram bel by (auto simp: cache_prefix_def Let_def)
    obtain r rt' dir' where "store_on_ssd hst fault rm ?k sn n rt dir = Some (r, rt', dir')"
      "runtime_ok hst S rt'" "pr_config rt' = pr_config rt" "pr_ram_cache rt' = pr_ram_cache rt"
      by (rule store_on_ssd_ok [OF ok k(1)])
    then show thesis by (intro that [of r rt' dir']) (use run noram n in auto)
  qed
qed

section \<open>Reachable runtimes\<close>

text \<open>
  A runtime is opened and then driven by lookups, insertions and clearing, each
  against whatever the directory holds at that moment and with whatever the
  operating system refuses.  The relation records the entries the runtime has
  seen: each key and snapshot a caller offered (the key as stored, with the salt
  of the configuration), and those readable from the directory at a lookup.
\<close>

inductive runtime_reach :: "host \<Rightarrow> (prefix_key \<times> state_snapshot) set \<Rightarrow> prefix_runtime \<Rightarrow> bool" for hst where
  opened: "\<lbrakk>rcfg_ram_cache_bytes cfg < usize_max; rcfg_ssd_cache_bytes cfg < usize_max;
     new_runtime hst opf sf readable rm cfg dir = Some (Inr rt, dir')\<rbrakk> \<Longrightarrow> runtime_reach hst {} rt"
| looked_up: "\<lbrakk>runtime_reach hst S rt; lookup_prefix hst fault q rt dir = Some (r, rt')\<rbrakk> \<Longrightarrow>
     runtime_reach hst (S \<union> disk_entries hst fault dir) rt'"
| cached: "\<lbrakk>runtime_reach hst S rt; key_ok (ho_sha hst) key;
     cache_prefix hst wfault rm key sn rt dir = Some (r, rt', dir')\<rbrakk> \<Longrightarrow>
     runtime_reach hst (insert (effective_key hst (pr_config rt) key, sn) S) rt'"
| cleared: "runtime_reach hst S rt \<Longrightarrow> runtime_reach hst S (clear_ram rt)"

lemma runtime_reach_ok: "runtime_reach hst S rt \<Longrightarrow> runtime_ok hst S rt"
proof (induction rule: runtime_reach.induct)
  case (opened cfg opf sf readable rm dir rt dir')
  with new_runtime_ok [of cfg hst opf sf readable rm dir] show ?case by auto
next
  case (looked_up S rt fault q dir r rt')
  obtain r1 rt1 where "lookup_prefix hst fault q rt dir = Some (r1, rt1)"
    "runtime_ok hst (S \<union> disk_entries hst fault dir) rt1"
    by (rule lookup_prefix_ok [OF looked_up.IH Un_upper2 Un_upper1])
  with looked_up.hyps(2) show ?case by simp
next
  case (cached S rt key wfault rm sn dir r rt' dir')
  note ok = runtime_ok_mono [OF cached.IH subset_insertI]
  obtain r1 rt1 d1 where "cache_prefix hst wfault rm key sn rt dir = Some (r1, rt1, d1)"
    "runtime_ok hst (insert (effective_key hst (pr_config rt) key, sn) S) rt1"
    by (rule cache_prefix_ok [OF ok cached.hyps(2) insertI1])
  with cached.hyps(3) show ?case by simp
next
  case (cleared S rt)
  then show ?case by (simp add: runtime_ok_def clear_ram_def ram_clear_def cache_ok_def)
qed

lemma prefix_tokens:
  assumes "is_prefix_of key q" "key_ok sha key" "belongs key sn"
  shows "sn_prefix_len sn \<le> key_prefix_len q" "pk_tokens key = take (sn_prefix_len sn) (pk_tokens q)"
    "sn_prefix_hash sn = hash_tokens sha (take (sn_prefix_len sn) (pk_tokens q))"
proof -
  have pre: "prefix (pk_tokens key) (pk_tokens q)" using assms(1) by (simp add: is_prefix_of_def)
  then show tokens: "pk_tokens key = take (sn_prefix_len sn) (pk_tokens q)"
    using assms(3) by (auto simp: prefix_def belongs_def key_prefix_len_def)
  show "sn_prefix_len sn \<le> key_prefix_len q"
    using pre assms(3) by (simp add: prefix_length_le key_prefix_len_def belongs_def)
  show "sn_prefix_hash sn = hash_tokens sha (take (sn_prefix_len sn) (pk_tokens q))"
    using assms(2,3) tokens by (simp add: belongs_def key_ok_def)
qed

text \<open>An entry in RAM is found by every query that extends it.\<close>

lemma ram_entry_hits:
  assumes ok: "runtime_ok hst S rt"
    and e: "hm_get (rc_entries (pr_ram_cache rt)) (fingerprint k) = Some \<lparr>ce_key = k, ce_value = sn, ce_size = n\<rparr>"
    and pre: "is_prefix_of k (effective_key hst (pr_config rt) q)"
  shows "\<exists>res rt'. lookup_prefix hst fault q rt dir = Some (Inr res, rt') \<and> lr_hit res \<and> lr_ram_hit res \<and>
    key_prefix_len k \<le> lr_prefix_len res \<and> (lr_prefix_len res = key_prefix_len k \<longrightarrow> lr_snapshot res = Some sn)"
proof -
  let ?q = "effective_key hst (pr_config rt) q"
  have c: "cache_ok (ho_sha hst) (pr_ram_cache rt)" using ok by (simp add: runtime_ok_def)
  obtain hit ram where lk: "ram_lookup ?q (pr_ram_cache rt) = (hit, ram)" by force
  have "hit \<noteq> None"
    using ram_lookup_None [OF c, of ?q] e pre lk by (fastforce simp: ram_lookup_def Let_def split: option.splits)
  then obtain h where h: "hit = Some h" by blast
  with ram_lookup_result [OF c, of ?q h] lk obtain e' where
    e': "best_match ?q (rc_entries (pr_ram_cache rt)) (ch_fingerprint h) e'" "ch_prefix_len h = key_prefix_len (ce_key e')"
      "ch_value h = ce_value e'" by auto
  have le: "key_prefix_len k \<le> ch_prefix_len h"
    using e'(1,2) e pre unfolding best_match_def by (metis cache_entry.select_convs(1))
  have own: "ch_value h = sn" if "ch_prefix_len h = key_prefix_len k"
  proof -
    have "best_match ?q (rc_entries (pr_ram_cache rt)) (fingerprint k) \<lparr>ce_key = k, ce_value = sn, ce_size = n\<rparr>"
      using e'(1,2) e pre that by (simp add: best_match_def)
    from best_match_unique [OF c e'(1) this] e'(3) show ?thesis by simp
  qed
  have "lookup_prefix hst fault q rt dir = Some (Inr (ram_result (key_prefix_len q) h), rt\<lparr>pr_ram_cache := ram\<rparr>)"
    by (simp add: lookup_prefix_def Let_def lk h)
  with le own show ?thesis by (simp add: ram_result_def)
qed

text \<open>
  C19: A prefix-cache hit is always a valid restart point of the query.  In every
  reachable runtime, whatever the files on disk contain and whatever the
  operating system reports, a lookup ends; and if it reports a hit, there is an
  entry with the same model, state schema, tokenizer and plan as the query (with
  the configured salt), whose tokens are literally the leading tokens of the query
  of the reported length, and the snapshot returned is the one stored with that
  entry: it was offered with it by an earlier caller or read with it from a
  verified file, at an earlier lookup for a RAM hit and at this one for an SSD hit.
  Its own length is the reported one, its own hash the hash of those tokens, and
  the remaining tokens are the rest of the query.
\<close>

theorem lookup_hit_sound:
  assumes "runtime_reach hst S rt"
  shows "\<exists>r rt'. lookup_prefix hst fault q rt dir = Some (r, rt') \<and>
    runtime_reach hst (S \<union> disk_entries hst fault dir) rt' \<and>
    (\<forall>res. r = Inr res \<longrightarrow> lr_hit res \<longrightarrow>
      (\<exists>key sn. (key, sn) \<in> (if lr_ram_hit res then S else disk_entries hst fault dir) \<and>
         pk_model key = pk_model (effective_key hst (pr_config rt) q) \<and> pk_state_schema key = pk_state_schema (effective_key hst (pr_config rt) q) \<and>
         pk_tokenizer key = pk_tokenizer (effective_key hst (pr_config rt) q) \<and> pk_plan key = pk_plan (effective_key hst (pr_config rt) q) \<and>
         pk_tokens key = take (lr_prefix_len res) (pk_tokens q) \<and>
         lr_snapshot res = Some sn \<and> sn_prefix_len sn = lr_prefix_len res \<and>
         sn_prefix_hash sn = hash_tokens (ho_sha hst) (take (lr_prefix_len res) (pk_tokens q)) \<and>
         lr_prefix_len res + lr_remaining_tokens res = key_prefix_len q))"
proof -
  let ?q = "effective_key hst (pr_config rt) q"
  obtain r rt' where run: "lookup_prefix hst fault q rt dir = Some (r, rt')"
    and hit: "\<forall>res. r = Inr res \<longrightarrow> lr_hit res \<longrightarrow>
      (\<exists>key sn. is_prefix_of key ?q \<and> key_ok (ho_sha hst) key \<and> belongs key sn \<and>
        (key, sn) \<in> (if lr_ram_hit res then S else disk_entries hst fault dir) \<and>
        lr_prefix_len res = key_prefix_len key \<and> lr_snapshot res = Some sn \<and>
        lr_remaining_tokens res = saturating_sub (key_prefix_len q) (key_prefix_len key))"
    by (rule lookup_prefix_ok [OF runtime_reach_ok [OF assms] Un_upper2 Un_upper1, where fault = fault and dir = dir and q = q])
  have "\<exists>key sn. (key, sn) \<in> (if lr_ram_hit res then S else disk_entries hst fault dir) \<and>
         pk_model key = pk_model ?q \<and> pk_state_schema key = pk_state_schema ?q \<and>
         pk_tokenizer key = pk_tokenizer ?q \<and> pk_plan key = pk_plan ?q \<and>
         pk_tokens key = take (lr_prefix_len res) (pk_tokens q) \<and>
         lr_snapshot res = Some sn \<and> sn_prefix_len sn = lr_prefix_len res \<and>
         sn_prefix_hash sn = hash_tokens (ho_sha hst) (take (lr_prefix_len res) (pk_tokens q)) \<and>
         lr_prefix_len res + lr_remaining_tokens res = key_prefix_len q"
    if res: "r = Inr res" "lr_hit res" for res
  proof -
    from hit res obtain key sn where k: "is_prefix_of key ?q" "key_ok (ho_sha hst) key" "belongs key sn"
      "(key, sn) \<in> (if lr_ram_hit res then S else disk_entries hst fault dir)"
      "lr_prefix_len res = key_prefix_len key" "lr_snapshot res = Some sn"
      "lr_remaining_tokens res = saturating_sub (key_prefix_len q) (key_prefix_len key)" by blast
    have "sn_prefix_len sn = lr_prefix_len res" "pk_model key = pk_model ?q" "pk_state_schema key = pk_state_schema ?q"
      "pk_tokenizer key = pk_tokenizer ?q" "pk_plan key = pk_plan ?q"
      using k(1,3,5) by (simp_all add: belongs_def is_prefix_of_def key_same_contract_def)
    with prefix_tokens [OF k(1-3)] k(4-7) show ?thesis
      by (intro exI [of _ key] exI [of _ sn]) (simp add: saturating_sub_def)
  qed
  with run runtime_reach.looked_up [OF assms run] show ?thesis by blast
qed

definition demo_host :: host where
  "demo_host = \<lparr>ho_sha = demo_sha, ho_hex = (\<lambda>_. ''ab''), ho_pid = ''7''\<rparr>"

definition demo_config :: prefix_runtime_config where
  "demo_config = default_config\<lparr>rcfg_min_cache_tokens := 1\<rparr>"

definition demo_runtime :: prefix_runtime where
  "demo_runtime = \<lparr>pr_ram_cache = new_ram_cache (rcfg_ram_cache_bytes demo_config), pr_ssd_store = None,
     pr_ssd_index = new_index (rcfg_ssd_cache_bytes demo_config), pr_config = demo_config\<rparr>"

lemma demo_reach: "runtime_reach demo_host {} demo_runtime"
proof (rule runtime_reach.opened)
  show "rcfg_ram_cache_bytes demo_config < usize_max" "rcfg_ssd_cache_bytes demo_config < usize_max"
    by (simp_all add: demo_config_def default_config_def usize_max_def)
  show "new_runtime demo_host None None (\<lambda>_. True) (\<lambda>_. None) demo_config [] = Some (Inr demo_runtime, [])"
    by (simp add: new_runtime_def rebuild_ssd_index_def demo_runtime_def demo_config_def default_config_def)
qed

lemma demo_key_facts:
  "key_ok (ho_sha demo_host) demo_key" "key_prefix_len demo_key = 3" "belongs demo_key demo_entry"
  "effective_key demo_host (pr_config demo_runtime) demo_key = demo_key"
  "cache_entry_bytes demo_host demo_key demo_entry = Inr 118" "is_prefix_of demo_key demo_key"
proof -
  show "key_ok (ho_sha demo_host) demo_key" by (simp add: demo_host_def demo_key_def)
  show len: "key_prefix_len demo_key = 3" by (simp add: key_prefix_len_def demo_key_def new_prefix_key_def)
  show "belongs demo_key demo_entry"
    by (simp add: belongs_def demo_entry_def demo_key_def new_snapshot_def Let_def key_prefix_len_def new_prefix_key_def)
  show "effective_key demo_host (pr_config demo_runtime) demo_key = demo_key"
    by (simp add: effective_key_def demo_runtime_def demo_config_def default_config_def)
  show "cache_entry_bytes demo_host demo_key demo_entry = Inr 118"
    by (simp add: cache_entry_bytes_def demo_host_def demo_entry_bytes len rust_int)
  show "is_prefix_of demo_key demo_key" by (simp add: is_prefix_of_def key_same_contract_def)
qed

lemma demo_admits: "ram_admits demo_host demo_runtime demo_key demo_entry"
  by (simp add: ram_admits_def demo_key_facts) (simp add: demo_runtime_def demo_config_def default_config_def)

text \<open>The demo runtime after one prefix of three tokens has been cached.\<close>

lemma demo_cached:
  obtains rt' where "cache_prefix demo_host None (\<lambda>_. None) demo_key demo_entry demo_runtime [] = Some (Inr (), rt', [])"
    "runtime_reach demo_host {(demo_key, demo_entry)} rt'" "pr_config rt' = demo_config"
    "hm_get (rc_entries (pr_ram_cache rt')) (fingerprint demo_key) =
       Some \<lparr>ce_key = demo_key, ce_value = demo_entry, ce_size = 118\<rparr>"
proof -
  have fits: "118 \<le> rcfg_ram_cache_bytes (pr_config demo_runtime)"
    by (simp add: demo_runtime_def demo_config_def default_config_def)
  note ok = runtime_ok_mono [OF runtime_reach_ok [OF demo_reach], of "{(demo_key, demo_entry)}"]
  obtain c' where c': "ram_insert demo_key demo_entry 118 (pr_ram_cache demo_runtime) = Some (Inr (), c')"
    "hm_get (rc_entries c') (fingerprint demo_key) = Some \<lparr>ce_key = demo_key, ce_value = demo_entry, ce_size = 118\<rparr>"
    using runtime_ram_insert [OF ok demo_key_facts(1,3) _ fits] by auto
  have run: "cache_prefix demo_host None (\<lambda>_. None) demo_key demo_entry demo_runtime [] =
      Some (Inr (), demo_runtime\<lparr>pr_ram_cache := c'\<rparr>, [])"
    using c'(1) demo_key_facts(2,3) demo_admits
    by (simp add: cache_prefix_def Let_def demo_key_facts ram_admits_def belongs_def)
      (simp add: store_on_ssd_def demo_runtime_def)
  show thesis
  proof (rule that [OF run])
    show "runtime_reach demo_host {(demo_key, demo_entry)} (demo_runtime\<lparr>pr_ram_cache := c'\<rparr>)"
      using runtime_reach.cached [OF demo_reach demo_key_facts(1) run] by (simp add: demo_key_facts)
    show "pr_config (demo_runtime\<lparr>pr_ram_cache := c'\<rparr>) = demo_config" by (simp add: demo_runtime_def)
  qed (use c'(2) in simp)
qed

theorem lookup_hit_sound_witness:
  "\<exists>rt res rt'. lookup_prefix demo_host None demo_key rt [] = Some (Inr res, rt') \<and> lr_hit res \<and> lr_ram_hit res \<and>
     lr_snapshot res = Some demo_entry \<and> lr_prefix_len res = 3"
proof -
  obtain rt where rt: "runtime_reach demo_host {(demo_key, demo_entry)} rt" "pr_config rt = demo_config"
    "hm_get (rc_entries (pr_ram_cache rt)) (fingerprint demo_key) =
       Some \<lparr>ce_key = demo_key, ce_value = demo_entry, ce_size = 118\<rparr>" by (rule demo_cached)
  have "effective_key demo_host (pr_config rt) demo_key = demo_key"
    using demo_key_facts(4) rt(2) by (simp add: demo_runtime_def)
  with demo_key_facts(6) have "is_prefix_of demo_key (effective_key demo_host (pr_config rt) demo_key)" by simp
  from ram_entry_hits [OF runtime_reach_ok [OF rt(1)] rt(3) this] obtain res rt' where
    run: "lookup_prefix demo_host None demo_key rt [] = Some (Inr res, rt')" "lr_hit res" "lr_ram_hit res" by blast
  with lookup_hit_sound [OF rt(1), of None demo_key "[]"] have
    "lr_snapshot res = Some demo_entry" "sn_prefix_len demo_entry = lr_prefix_len res" by auto
  with run demo_key_facts(2,3) show ?thesis by (auto simp: belongs_def)
qed



text \<open>
  A stale index entry is dropped, but not every damaged file is a miss.  When
  the RAM tier misses and the file of the indexed entry cannot be read, the entry
  leaves the index whatever the reason.  The answer is a miss when the file is
  gone or its contents do not verify, and an error otherwise.  A file cut short of
  its end is in the second class: its read fails with \<^verbatim>\<open>UnexpectedEof\<close>, so the lookup
  fails although the entry is only a damaged cache file.
\<close>

lemma unreadable_entry_lookup:
  assumes "fst (ram_lookup (effective_key hst (pr_config rt) q) (pr_ram_cache rt)) = None"
    and "fst (index_lookup (effective_key hst (pr_config rt) q) (pr_ssd_index rt)) = Some fp"
    and "pr_ssd_store rt = Some root"
    and rd: "read_for (ho_sha hst) (ho_hex hst) fault fp dir = Inl (IoError e)"
  shows "(\<exists>rt'. lookup_prefix hst fault q rt dir =
        Some (if e = NotFound \<or> (\<exists>d. e = InvalidData d) then Inr (lookup_miss (key_prefix_len q)) else Inl (ReadSsd e), rt')
      \<and> hm_get (pi_entries (pr_ssd_index rt')) fp = None)
    \<and> (fault = None \<longrightarrow> hm_get dir (snapshot_path (ho_sha hst) (ho_hex hst) fp) = Some (take k cs) \<longrightarrow>
        write_snapshot (ho_sha hst) key sn = Inr cs \<longrightarrow> k < length cs \<longrightarrow> length cs \<le> isize_max \<longrightarrow>
        stored_key_ok (ho_sha hst) key \<longrightarrow> (\<forall>x. length (ho_sha hst x) = 32) \<longrightarrow> e = UnexpectedEof)"
proof (intro conjI impI)
  let ?q = "effective_key hst (pr_config rt) q"
  obtain ram where ram: "ram_lookup ?q (pr_ram_cache rt) = (None, ram)" using assms(1) by (metis prod.collapse)
  obtain ix where ix: "index_lookup ?q (pr_ssd_index rt) = (Some fp, ix)" using assms(2) by (metis prod.collapse)
  let ?rt = "rt\<lparr>pr_ram_cache := ram, pr_ssd_index := snd (index_remove fp ix)\<rparr>"
  have "hm_get (pi_entries (snd (index_remove fp ix))) fp = None"
    by (simp add: index_remove_def hm_simps split: option.split)
  moreover have "lookup_prefix hst fault q rt dir =
      Some (if e = NotFound \<or> (\<exists>d. e = InvalidData d) then Inr (lookup_miss (key_prefix_len q)) else Inl (ReadSsd e), ?rt)"
    using assms(3) rd by (cases e) (simp_all add: lookup_prefix_def Let_def ram ix load_from_ssd_def)
  ultimately show "\<exists>rt'. lookup_prefix hst fault q rt dir =
        Some (if e = NotFound \<or> (\<exists>d. e = InvalidData d) then Inr (lookup_miss (key_prefix_len q)) else Inl (ReadSsd e), rt')
      \<and> hm_get (pi_entries (pr_ssd_index rt')) fp = None" by (intro exI [of _ ?rt]) simp
next
  assume "fault = None" "hm_get dir (snapshot_path (ho_sha hst) (ho_hex hst) fp) = Some (take k cs)"
    "write_snapshot (ho_sha hst) key sn = Inr cs" "k < length cs" "length cs \<le> isize_max"
    "stored_key_ok (ho_sha hst) key" "\<forall>x. length (ho_sha hst x) = 32"
  with truncated_read [of "ho_sha hst" key sn cs k] rd show "e = UnexpectedEof" by (simp add: read_for_def)
qed

end
