(* ===== verification/Device_Registry.thy ===== *)
theory Device_Registry
  imports Sched_Core Residency
begin

text \<open>
  The registry of execution targets (\<^verbatim>\<open>logan-core/src/sched/device.rs\<close>).  Device
  identifiers are those of the residency manager.
\<close>

datatype device_kind = DevCpu | DevGpu | DevNeural | DevIo | DevOther

record execution_target =
  et_device :: device_id
  et_kind :: device_kind
  et_capabilities :: "action_kind list"

definition accepts :: "execution_target \<Rightarrow> action_kind \<Rightarrow> bool" where
  "accepts t kind \<longleftrightarrow> kind \<in> set (et_capabilities t)"

datatype device_error = DuplicateDevice device_id | UnknownDevice device_id

record device_registry =
  dr_targets :: "(device_id, execution_target) hash_map"

definition new_registry :: device_registry where
  "new_registry = \<lparr>dr_targets = []\<rparr>"

definition register :: "execution_target \<Rightarrow> device_registry \<Rightarrow> (device_error + unit) \<times> device_registry" where
  "register t r =
     (if hm_get (dr_targets r) (et_device t) \<noteq> None then (Inl (DuplicateDevice (et_device t)), r)
      else (Inr (), r\<lparr>dr_targets := hm_insert (et_device t) t (dr_targets r)\<rparr>))"

definition unregister :: "device_id \<Rightarrow> device_registry \<Rightarrow> (device_error + unit) \<times> device_registry" where
  "unregister d r =
     (if hm_get (dr_targets r) d = None then (Inl (UnknownDevice d), r)
      else (Inr (), r\<lparr>dr_targets := hm_remove d (dr_targets r)\<rparr>))"

definition get_target :: "device_id \<Rightarrow> device_registry \<Rightarrow> execution_target option" where
  "get_target d r = hm_get (dr_targets r) d"

text \<open>All values, sorted by device identifier; identifiers are unique, so an unstable sort is one.\<close>

definition targets :: "device_registry \<Rightarrow> execution_target list" where
  "targets r = sort_key (\<lambda>t. device_no (et_device t)) (map snd (dr_targets r))"

definition find_capable :: "action_kind \<Rightarrow> device_registry \<Rightarrow> execution_target option" where
  "find_capable kind r = List.find (\<lambda>t. accepts t kind) (targets r)"

definition find_kind :: "device_kind \<Rightarrow> device_registry \<Rightarrow> execution_target option" where
  "find_kind dk r = List.find (\<lambda>t. et_kind t = dk) (targets r)"

definition find_kind_capable :: "device_kind \<Rightarrow> action_kind \<Rightarrow> device_registry \<Rightarrow> execution_target option" where
  "find_kind_capable dk kind r = List.find (\<lambda>t. et_kind t = dk \<and> accepts t kind) (targets r)"

section \<open>Lookup\<close>

definition registry_ok :: "device_registry \<Rightarrow> bool" where
  "registry_ok r \<longleftrightarrow> hm_ok (dr_targets r) \<and> (\<forall>d t. hm_get (dr_targets r) d = Some t \<longrightarrow> et_device t = d)"

lemma registry_ok_new: "registry_ok new_registry"
  by (simp add: registry_ok_def new_registry_def)

lemma registry_ok_register: "registry_ok r \<Longrightarrow> registry_ok (snd (register t r))"
  by (auto simp: registry_ok_def register_def hm_simps split: if_splits)

lemma registry_ok_unregister: "registry_ok r \<Longrightarrow> registry_ok (snd (unregister d r))"
  by (auto simp: registry_ok_def unregister_def hm_simps split: if_splits)

lemma targets_iff:
  assumes "registry_ok r"
  shows "t \<in> set (targets r) \<longleftrightarrow> get_target (et_device t) r = Some t"
proof -
  have "t \<in> set (targets r) \<longleftrightarrow> (\<exists>d. (d, t) \<in> set (dr_targets r))" by (force simp: targets_def)
  also have "\<dots> \<longleftrightarrow> (\<exists>d. hm_get (dr_targets r) d = Some t)"
    using assms by (auto simp: registry_ok_def dest: hm_get_in_set hm_in_set_get)
  also have "\<dots> \<longleftrightarrow> get_target (et_device t) r = Some t"
    using assms by (auto simp: registry_ok_def get_target_def)
  finally show ?thesis .
qed

text \<open>The first match of a list sorted by a key is a match of least key.\<close>

lemma find_sorted_least:
  assumes "List.find P (sort_key f xs) = Some x"
  shows "x \<in> set xs \<and> P x \<and> (\<forall>y \<in> set xs. P y \<longrightarrow> f x \<le> f y)"
proof -
  obtain i where i: "i < length (sort_key f xs)" "P (sort_key f xs ! i)" "x = sort_key f xs ! i"
    "\<forall>j < i. \<not> P (sort_key f xs ! j)" using assms by (auto simp: find_Some_iff)
  have "f x \<le> f y" if "y \<in> set xs" "P y" for y
  proof -
    from that(1) obtain j where j: "j < length (sort_key f xs)" "y = sort_key f xs ! j"
      by (metis in_set_conv_nth set_sort)
    with i(4) that(2) have "i \<le> j" by (metis not_le)
    moreover have "sorted (map f (sort_key f xs))" by simp
    ultimately show ?thesis using i j by (metis length_map nth_map sorted_nth_mono)
  qed
  with i show ?thesis by (metis nth_mem set_sort)
qed

lemma find_target:
  assumes ok: "registry_ok r"
  shows "List.find P (targets r) = Some t \<longleftrightarrow>
    get_target (et_device t) r = Some t \<and> P t \<and>
    (\<forall>u. get_target (et_device u) r = Some u \<longrightarrow> P u \<longrightarrow> device_no (et_device t) \<le> device_no (et_device u))"
    (is "?L \<longleftrightarrow> ?R")
proof -
  have dir: "get_target (et_device t) r = Some t \<and> P t \<and>
      (\<forall>u. get_target (et_device u) r = Some u \<longrightarrow> P u \<longrightarrow> device_no (et_device t) \<le> device_no (et_device u))"
    if "List.find P (targets r) = Some t" for t
    using find_sorted_least [of P "\<lambda>t. device_no (et_device t)" "map snd (dr_targets r)" t] that
      targets_iff [OF ok] unfolding targets_def set_sort by blast
  show ?thesis
  proof
    assume R: ?R
    then have "List.find P (targets r) \<noteq> None"
      using targets_iff [OF ok, of t] by (auto simp: find_None_iff)
    then obtain u where u: "List.find P (targets r) = Some u" by blast
    from dir [OF u] R have "device_no (et_device u) = device_no (et_device t)" by (meson le_antisym)
    then have "et_device u = et_device t" by (rule device_id.expand)
    with dir [OF u] R u show ?L by (metis option.inject)
  qed (rule dir)
qed

fun registry_run :: "device_registry \<Rightarrow> (execution_target + device_id) list \<Rightarrow> device_registry" where
  "registry_run r [] = r"
| "registry_run r (Inl t # ops) = registry_run (snd (register t r)) ops"
| "registry_run r (Inr d # ops) = registry_run (snd (unregister d r)) ops"

lemma registry_run_ok: "registry_ok r \<Longrightarrow> registry_ok (registry_run r ops)"
  by (induction r ops rule: registry_run.induct) (simp_all add: registry_ok_register registry_ok_unregister)

text \<open>
  Placement is deterministic.  After any registrations and removals, looking
  up a target for a device class and an action class returns a registered target
  with both properties whenever there is one, and it is the one with the least
  device identifier; so the answer does not depend on the order of registration
  or on the iteration order of the map, and a neural island never lands on a GPU.
\<close>

lemma find_kind_capable_least:
  "find_kind_capable dk kind (registry_run new_registry ops) = Some t \<longleftrightarrow>
     get_target (et_device t) (registry_run new_registry ops) = Some t \<and> et_kind t = dk \<and> accepts t kind \<and>
     (\<forall>u. get_target (et_device u) (registry_run new_registry ops) = Some u \<longrightarrow> et_kind u = dk \<longrightarrow> accepts u kind \<longrightarrow>
        device_no (et_device t) \<le> device_no (et_device u))"
  unfolding find_kind_capable_def find_target [OF registry_run_ok [OF registry_ok_new]] by blast

end
