(* ===== verification/Accel.thy ===== *)
theory Accel
  imports Device_Registry Sched_Props Residency_Props
begin

text \<open>
  The accelerator boundary (\<^verbatim>\<open>logan-core/src/sched/accel.rs\<close>): a submission pins the
  resources it references, and completion processing returns them.  The three
  state machines it drives, the scheduler core, the residency manager and the
  device registry, are those of the other theories.
\<close>

section \<open>Data and operations\<close>

record accel_action =
  aa_payload :: "byte list"
  aa_references :: "expert_key list"

datatype native_handle = NativeHandle nat

datatype accel_outcome = AccelSuccess | AccelFailed string | AccelCancelled

record accel_completion =
  ac_ticket :: ticket
  ac_outcome :: accel_outcome

record accel_dispatch =
  ad_ticket :: ticket
  ad_target :: execution_target
  ad_action :: accel_action

datatype accel_error =
    UnknownTarget device_id
  | UnsupportedTarget device_id
  | NotResident expert_key
  | CoreError sched_error
  | ReleaseError ticket residency_error

record accel =
  ax_inflight :: "(ticket, lease list) hash_map"

definition new_accel :: accel where
  "new_accel = \<lparr>ax_inflight = []\<rparr>"

text \<open>\<^verbatim>\<open>for lease in leases.drain(..) { let _ = residency.release(lease); }\<close>\<close>

definition release_all :: "lease list \<Rightarrow> residency_manager \<Rightarrow> residency_manager" where
  "release_all ls m = fold (\<lambda>l m. snd (release l m)) ls m"

fun acquire_all ::
  "expert_key list \<Rightarrow> session_id \<Rightarrow> lease list \<Rightarrow> residency_manager \<Rightarrow>
     (expert_key + lease list) \<times> residency_manager" where
  "acquire_all [] s leases m = (Inr leases, m)"
| "acquire_all (k # ks) s leases m =
     (case acquire k s m of
        (Inr l, m') \<Rightarrow> acquire_all ks s (leases @ [l]) m'
      | (Inl _, m') \<Rightarrow> (Inl k, release_all leases m'))"

definition accel_submit ::
  "device_registry \<Rightarrow> session_id \<Rightarrow> execution_target \<Rightarrow> accel_action \<Rightarrow> accel \<Rightarrow> scheduler_core \<Rightarrow>
     residency_manager \<Rightarrow>
     (accel_error + ticket \<times> accel_dispatch) \<times> accel \<times> scheduler_core \<times> residency_manager" where
  "accel_submit reg s target act a c m =
     (case get_target (et_device target) reg of
        None \<Rightarrow> (Inl (UnknownTarget (et_device target)), a, c, m)
      | Some registered \<Rightarrow>
          if registered \<noteq> target then (Inl (UnknownTarget (et_device target)), a, c, m)
          else if \<not> accepts registered Accelerator then (Inl (UnsupportedTarget (et_device target)), a, c, m)
          else
            (case acquire_all (aa_references act) s [] m of
               (Inl k, m1) \<Rightarrow> (Inl (NotResident k), a, c, m1)
             | (Inr leases, m1) \<Rightarrow>
                 (case submit s \<lparr>act_kind = Accelerator, act_payload = aa_payload act\<rparr> c of
                    (Inl e, c1) \<Rightarrow> (Inl (CoreError e), a, c1, release_all leases m1)
                  | (Inr (t, _), c1) \<Rightarrow>
                      (Inr (t, \<lparr>ad_ticket = t, ad_target = registered, ad_action = act\<rparr>),
                       a\<lparr>ax_inflight := hm_insert t leases (ax_inflight a)\<rparr>, c1, m1))))"

text \<open>The release loop of \<^verbatim>\<open>complete\<close>, which stops at the first error.\<close>

fun release_each ::
  "ticket \<Rightarrow> lease list \<Rightarrow> residency_manager \<Rightarrow> (accel_error + unit) \<times> residency_manager" where
  "release_each t [] m = (Inr (), m)"
| "release_each t (l # ls) m =
     (case release l m of
        (Inl e, m') \<Rightarrow> (Inl (ReleaseError t e), m')
      | (Inr _, m') \<Rightarrow> release_each t ls m')"

fun core_outcome :: "accel_outcome \<Rightarrow> outcome" where
  "core_outcome AccelSuccess = OutcomeOk"
| "core_outcome (AccelFailed msg) = OutcomeErr msg"
| "core_outcome AccelCancelled = OutcomeErr ''accelerator action cancelled''"

definition accel_complete ::
  "accel_completion \<Rightarrow> accel \<Rightarrow> scheduler_core \<Rightarrow> residency_manager \<Rightarrow>
     (accel_error + effect list) \<times> accel \<times> scheduler_core \<times> residency_manager" where
  "accel_complete cpl a c m =
     (let t = ac_ticket cpl;
          leases = (case hm_get (ax_inflight a) t of None \<Rightarrow> [] | Some ls \<Rightarrow> ls);
          a1 = a\<lparr>ax_inflight := hm_remove t (ax_inflight a)\<rparr>
      in case release_each t leases m of
           (Inl e, m1) \<Rightarrow> (Inl e, a1, c, m1)
         | (Inr _, m1) \<Rightarrow>
             (case complete t (core_outcome (ac_outcome cpl)) c of
                (r, c1) \<Rightarrow> (map_sum CoreError id r, a1, c1, m1)))"

definition accel_cancel_ticket :: "ticket \<Rightarrow> accel \<Rightarrow> bool" where
  "accel_cancel_ticket t a \<longleftrightarrow> hm_get (ax_inflight a) t \<noteq> None"

definition accel_inflight_len :: "accel \<Rightarrow> nat" where
  "accel_inflight_len a = length (ax_inflight a)"

section \<open>Leases\<close>

definition live_lease :: "residency_manager \<Rightarrow> lease \<Rightarrow> bool" where
  "live_lease m l \<longleftrightarrow> (\<exists>s. hm_get (rm_leases m) (le_id l) = Some (le_key l, le_generation l, s))"

lemma waiting_modify:
  assumes "\<And>e. length (en_waiters (f e)) = length (en_waiters e)" "hm_ok es"
  shows "tally (\<lambda>(k, e). length (en_waiters e)) (hm_modify k f es) = tally (\<lambda>(k, e). length (en_waiters e)) es"
proof (cases "hm_get es k")
  case None
  then show ?thesis by (simp add: hm_modify_absent)
next
  case (Some e)
  with assms show ?thesis by (simp add: tally_modify tally_remove [OF assms(2) Some])
qed

lemma live_lease_resident:
  assumes inv: "res_inv m" and live: "live_lease m l"
  shows "residency_state_of m (le_key l) = Resident (le_generation l)"
  using live inv_lease [OF inv] by (fastforce simp: live_lease_def lease_ok_def residency_state_of_def)

lemma release_live:
  assumes inv: "res_inv m" and live: "live_lease m l"
  shows "fst (release l m) = Inr ()"
  using live inv_lease [OF inv] by (fastforce simp: live_lease_def lease_ok_def release_def)

lemma release_room:
  assumes room: "res_room m n"
  shows "res_room (snd (release l m)) n"
proof -
  have inv: "res_inv m" by (rule room_inv [OF room])
  have "waiting (snd (release l m)) = waiting m"
    using inv_ok(2) [OF inv] by (auto simp: release_def waiting_def waiting_modify split: option.split)
  moreover have "rm_clock (snd (release l m)) = rm_clock m" "rm_next_load (snd (release l m)) = rm_next_load m"
    by (auto simp: release_def split: option.split)
  ultimately show ?thesis
    using room inv_release [OF inv, of l] release_sel(1,2) [of l m]
    by (simp add: res_room_def next_generation_def)
qed

lemma release_leases:
  assumes inv: "res_inv m" and live: "live_lease m l"
  shows "hm_get (rm_leases (snd (release l m))) = (hm_get (rm_leases m))(le_id l := None)"
  using release_live [OF assms] by (auto simp: release_sel(3))

lemma release_keeps_live:
  "live_lease m l' \<Longrightarrow> le_id l' \<noteq> le_id l \<Longrightarrow> live_lease (snd (release l m)) l'"
  by (auto simp: live_lease_def release_sel)

text \<open>Returning distinct live leases succeeds and removes exactly these.\<close>

lemma release_each_live:
  assumes "res_room m n" "list_all (live_lease m) ls" "distinct (map le_id ls)"
  shows "\<exists>m'. release_each t ls m = (Inr (), m') \<and> m' = release_all ls m \<and> res_room m' n \<and>
    hm_get (rm_leases m') = (\<lambda>i. if i \<in> le_id ` set ls then None else hm_get (rm_leases m) i)"
  using assms
proof (induction ls arbitrary: m)
  case Nil
  then show ?case by (simp add: release_all_def)
next
  case (Cons l ls)
  have inv: "res_inv m" by (rule room_inv [OF Cons.prems(1)])
  have live: "live_lease m l" using Cons.prems by simp
  obtain m1 where m1: "release l m = (Inr (), m1)" using release_live [OF inv live] by (metis prod.collapse)
  have room1: "res_room m1 n" using release_room [OF Cons.prems(1), of l] m1 by simp
  have keep: "list_all (live_lease m1) ls"
    unfolding list_all_iff
  proof
    fix l'
    assume "l' \<in> set ls"
    with Cons.prems have "live_lease m l'" "le_id l' \<noteq> le_id l" by (auto simp: list_all_iff image_iff)
    from release_keeps_live [OF this] m1 show "live_lease m1 l'" by simp
  qed
  have "distinct (map le_id ls)" using Cons.prems by simp
  from Cons.IH [OF room1 keep this] release_leases [OF inv live] m1 show ?case
    by (auto simp: release_all_def fun_eq_iff)
qed

lemma acquire_lease:
  assumes room: "res_room m (Suc n)" and got: "acquire k s m = (Inr l, m')"
  shows "live_lease m' l" "le_key l = k" "le_id l = LeaseId (rm_next_lease m)" "res_room m' n"
    "hm_get (rm_leases m') = (hm_get (rm_leases m))(le_id l \<mapsto> (k, le_generation l, s))"
proof -
  have "res_room (res_step m (Acquire k s)) n" by (rule room_execute [OF room]) simp
  then show "res_room m' n" by (simp add: got)
  show "live_lease m' l" "le_key l = k" "le_id l = LeaseId (rm_next_lease m)"
    "hm_get (rm_leases m') = (hm_get (rm_leases m))(le_id l \<mapsto> (k, le_generation l, s))"
    using got by (auto simp: acquire_def new_lease_def tick_def Let_def live_lease_def hm_simps
        split: residency_state.splits)
qed

lemma acquire_fails: "acquire k s m = (Inl e, m') \<Longrightarrow> m' = m"
  by (auto simp: acquire_def Let_def split: residency_state.splits prod.splits)

lemma fresh_lease: "res_inv m \<Longrightarrow> hm_get (rm_leases m) (LeaseId (rm_next_lease m)) = None"
  using lease_issued [of m "LeaseId (rm_next_lease m)"] by (cases "hm_get (rm_leases m) (LeaseId (rm_next_lease m))") auto

text \<open>
  Pinning a list of references either pins all of them, with fresh leases, or
  puts every lease back.
\<close>

lemma live_after_acquire:
  assumes room: "res_room m (Suc n)" and got: "acquire k s m = (Inr l, m')" and live: "live_lease m l'"
  shows "live_lease m' l' \<and> le_id l' \<noteq> le_id l"
proof -
  have "hm_get (rm_leases m) (le_id l) = None"
    using fresh_lease [OF room_inv [OF room]] acquire_lease(3) [OF room got] by simp
  with live acquire_lease(5) [OF room got] show ?thesis by (auto simp: live_lease_def)
qed

lemma acquire_all_spec:
  assumes "res_room m (length ks + n)" "list_all (live_lease m) held" "distinct (map le_id held)"
    "acquire_all ks s held m = (r, m')"
  shows "res_room m' n \<and>
    (case r of
       Inr ls \<Rightarrow> (\<exists>new. ls = held @ new \<and> map le_key new = ks \<and> list_all (live_lease m') ls \<and> distinct (map le_id ls) \<and>
         (\<forall>l. live_lease m l \<longrightarrow> live_lease m' l) \<and>
         (\<forall>i. if i \<in> le_id ` set new then hm_get (rm_leases m) i = None
              else hm_get (rm_leases m') i = hm_get (rm_leases m) i))
     | Inl k \<Rightarrow> hm_get (rm_leases m') = (\<lambda>i. if i \<in> le_id ` set held then None else hm_get (rm_leases m) i))"
  using assms
proof (induction ks arbitrary: m held)
  case Nil
  then show ?case by auto
next
  case (Cons k ks)
  have room: "res_room m (Suc (length ks + n))" using Cons.prems(1) by simp
  obtain x m1 where acq: "acquire k s m = (x, m1)" by force
  show ?case
  proof (cases x)
    case (Inl e)
    have m1: "m1 = m" using acquire_fails acq Inl by simp
    have "res_room m n" using Cons.prems(1) by (rule rm.room_mono)
    from release_each_live [OF this Cons.prems(2,3), of "Ticket 0"] Cons.prems(4) acq Inl m1
    show ?thesis by auto
  next
    case (Inr l)
    note got = acquire_lease [OF room acq [unfolded Inr]] and old = live_after_acquire [OF room acq [unfolded Inr]]
    have apart: "le_id l \<notin> le_id ` set held"
    proof
      assume "le_id l \<in> le_id ` set held"
      then obtain l' where "l' \<in> set held" "le_id l' = le_id l" by auto
      with old [of l'] Cons.prems(2) show False by (simp add: list_all_iff)
    qed
    have live: "list_all (live_lease m1) (held @ [l])" "distinct (map le_id (held @ [l]))"
      using got(1) old Cons.prems(2,3) apart by (simp_all add: list_all_iff)
    have fresh: "hm_get (rm_leases m) (le_id l) = None"
      using fresh_lease [OF room_inv [OF room]] got(3) by simp
    have "acquire_all ks s (held @ [l]) m1 = (r, m')" using Cons.prems(4) acq Inr by simp
    note IH = Cons.IH [OF got(4) live this]
    show ?thesis
    proof (cases r)
      case (Inl e)
      with IH got(5) fresh show ?thesis by (auto simp: fun_eq_iff)
    next
      case (Inr ls)
      with IH obtain new where new: "ls = (held @ [l]) @ new" "map le_key new = ks" "list_all (live_lease m') ls"
        "distinct (map le_id ls)" "\<forall>l. live_lease m1 l \<longrightarrow> live_lease m' l"
        "\<forall>i. if i \<in> le_id ` set new then hm_get (rm_leases m1) i = None
              else hm_get (rm_leases m') i = hm_get (rm_leases m1) i" and "res_room m' n" by auto
      have ids: "if i \<in> le_id ` set (l # new) then hm_get (rm_leases m) i = None
              else hm_get (rm_leases m') i = hm_get (rm_leases m) i" for i
        using new(6) [rule_format, of i] got(5) fresh by (auto split: if_splits)
      show ?thesis
        unfolding Inr sum.case
      proof (intro conjI exI [of _ "l # new"] allI)
        show "if i \<in> le_id ` set (l # new) then hm_get (rm_leases m) i = None
            else hm_get (rm_leases m') i = hm_get (rm_leases m) i" for i by (rule ids)
      qed (use new(1-5) got(2) old \<open>res_room m' n\<close> in simp_all)
    qed
  qed
qed

section \<open>The joint system\<close>

record accel_system =
  as_accel :: accel
  as_core :: scheduler_core
  as_res :: residency_manager

definition new_system :: "budget \<Rightarrow> accel_system" where
  "new_system b = \<lparr>as_accel = new_accel, as_core = new_core b, as_res = new_manager\<rparr>"

text \<open>The leases the boundary holds; nobody else returns them.\<close>

definition holds :: "accel \<Rightarrow> lease_id \<Rightarrow> bool" where
  "holds a i \<longleftrightarrow> (\<exists>t ls. hm_get (ax_inflight a) t = Some ls \<and> i \<in> le_id ` set ls)"

text \<open>
  Reachable states, indexed by how many more operations the counters have room
  for: submissions, completions, and any operation of the scheduler and of the
  residency manager in between, except the release of a lease that is held here.
\<close>

inductive accel_reach :: "accel_system \<Rightarrow> nat \<Rightarrow> bool" where
  start: "n \<le> u32_max \<Longrightarrow> accel_reach (new_system b) n"
| submitted: "\<lbrakk>accel_reach j (length (aa_references act) + Suc n);
     accel_submit reg s target act (as_accel j) (as_core j) (as_res j) = (r, a, c, m)\<rbrakk> \<Longrightarrow>
     accel_reach \<lparr>as_accel = a, as_core = c, as_res = m\<rparr> n"
| completed: "\<lbrakk>accel_reach j (Suc n);
     accel_complete cpl (as_accel j) (as_core j) (as_res j) = (r, a, c, m)\<rbrakk> \<Longrightarrow>
     accel_reach \<lparr>as_accel = a, as_core = c, as_res = m\<rparr> n"
| scheduled: "accel_reach j (Suc n) \<Longrightarrow> accel_reach (j\<lparr>as_core := snd (execute (as_core j) op)\<rparr>) n"
| managed: "\<lbrakk>accel_reach j (Suc n); op_ok rop; \<And>l. rop = Release l \<Longrightarrow> \<not> holds (as_accel j) (le_id l)\<rbrakk> \<Longrightarrow>
     accel_reach (j\<lparr>as_res := res_step (as_res j) rop\<rparr>) n"

definition accel_inv :: "accel \<Rightarrow> scheduler_core \<Rightarrow> residency_manager \<Rightarrow> nat \<Rightarrow> bool" where
  "accel_inv a c m n \<longleftrightarrow>
     roomy c n \<and> res_room m n
   \<and> (\<forall>t ls. hm_get (ax_inflight a) t = Some ls \<longrightarrow>
        ticket_no t < core_next_ticket c \<and> list_all (live_lease m) ls \<and> distinct (map le_id ls))
   \<and> (\<forall>t t' ls ls'. hm_get (ax_inflight a) t = Some ls \<longrightarrow> hm_get (ax_inflight a) t' = Some ls' \<longrightarrow> t \<noteq> t' \<longrightarrow>
        le_id ` set ls \<inter> le_id ` set ls' = {})"

lemma accel_invI:
  assumes "roomy c n" "res_room m n"
    "\<And>t ls. hm_get (ax_inflight a) t = Some ls \<Longrightarrow>
       ticket_no t < core_next_ticket c \<and> list_all (live_lease m) ls \<and> distinct (map le_id ls)"
    "\<And>t t' ls ls'. hm_get (ax_inflight a) t = Some ls \<Longrightarrow> hm_get (ax_inflight a) t' = Some ls' \<Longrightarrow> t \<noteq> t' \<Longrightarrow>
       le_id ` set ls \<inter> le_id ` set ls' = {}"
  shows "accel_inv a c m n"
  using assms unfolding accel_inv_def by blast

lemma accel_invD:
  assumes "accel_inv a c m n" "hm_get (ax_inflight a) t = Some ls"
  shows "ticket_no t < core_next_ticket c" "list_all (live_lease m) ls" "distinct (map le_id ls)"
    "\<And>t' ls'. hm_get (ax_inflight a) t' = Some ls' \<Longrightarrow> t \<noteq> t' \<Longrightarrow> le_id ` set ls \<inter> le_id ` set ls' = {}"
  using assms by (simp_all add: accel_inv_def)

lemma next_ticket_mono:
  assumes room: "roomy c (Suc n)"
  shows "core_next_ticket c \<le> core_next_ticket (snd (execute c op))"
proof -
  have "core_next_ticket (snd (execute c op)) = abs_next_ticket (spec_exec (abs_of c) op)"
    by (metis abs_sel(5) room roomy_refines)
  then show ?thesis
    by (cases "(abs_of c, op)" rule: spec_exec.cases)
      (auto simp: abs_leave_def abs_wake_def Let_def split: option.split)
qed

lemma accel_inv_core:
  assumes "accel_inv a c m (Suc n)"
  shows "accel_inv a (snd (execute c op)) m n"
proof -
  have room: "roomy c (Suc n)" using assms by (simp add: accel_inv_def)
  have "roomy (snd (execute c op)) n" by (rule sm.room_step [OF room]) simp
  moreover have "res_room m n" by (rule rm.room_less) (use assms in \<open>simp add: accel_inv_def\<close>)
  moreover have "ticket_no t < core_next_ticket (snd (execute c op))" if "hm_get (ax_inflight a) t = Some ls" for t ls
    using accel_invD(1) [OF assms that] next_ticket_mono [OF room, of op] by (rule less_le_trans)
  ultimately show ?thesis using assms by (simp add: accel_inv_def)
qed

lemma live_step:
  assumes room: "res_room m (Suc n)" and live: "live_lease m l" and "\<And>l'. op = Release l' \<Longrightarrow> le_id l' \<noteq> le_id l"
  shows "live_lease (res_step m op) l"
proof -
  from live obtain s where s: "hm_get (rm_leases m) (le_id l) = Some (le_key l, le_generation l, s)"
    by (auto simp: live_lease_def)
  have "hm_get (rm_leases (res_step m op)) (le_id l) = hm_get (rm_leases m) (le_id l)"
    using step_lease [OF room lease_issued [OF room_inv [OF room] s], of op] assms(3) by auto
  with s show ?thesis by (simp add: live_lease_def)
qed

lemma accel_inv_res:
  assumes inv: "accel_inv a c m (Suc n)" and "op_ok op" "\<And>l. op = Release l \<Longrightarrow> \<not> holds a (le_id l)"
  shows "accel_inv a c (res_step m op) n"
proof -
  have room: "res_room m (Suc n)" using inv by (simp add: accel_inv_def)
  have "roomy c n" by (rule sm.room_less) (use inv in \<open>simp add: accel_inv_def\<close>)
  moreover have "res_room (res_step m op) n" by (rule room_execute [OF room assms(2)])
  moreover have "live_lease (res_step m op) l" if "hm_get (ax_inflight a) t = Some ls" "l \<in> set ls" for t ls l
  proof (rule live_step [OF room])
    show "live_lease m l" using inv that by (auto simp: accel_inv_def list_all_iff)
    show "le_id l' \<noteq> le_id l" if "op = Release l'" for l'
    proof
      assume "le_id l' = le_id l"
      then have "holds a (le_id l')" using \<open>hm_get (ax_inflight a) t = Some ls\<close> \<open>l \<in> set ls\<close> by (auto simp: holds_def)
      with assms(3) [OF that] show False ..
    qed
  qed
  ultimately show ?thesis using inv by (simp add: accel_inv_def list_all_iff)
qed

text \<open>
  A submission: refused, it leaves scheduler and boundary as they were and the
  live leases too; accepted, it has pinned its references for a fresh ticket.
\<close>

lemma accel_submit_cases:
  assumes inv: "accel_inv a c m (length (aa_references act) + Suc n)"
    and run: "accel_submit reg s target act a c m = (r, a', c', m')"
  obtains (refused) e where "r = Inl e" "a' = a" "c' = c" "hm_get (rm_leases m') = hm_get (rm_leases m)"
      "res_room m' n"
  | (accepted) ls d t where "r = Inr (t, d)" "t = Ticket (core_next_ticket c)"
      "core_next_ticket c' = Suc (core_next_ticket c)" "roomy c' n" "res_room m' n"
      "map_option fst (hm_get (core_inflight c') t) = Some s"
      "ad_target d = target" "get_target (et_device target) reg = Some target" "accepts target Accelerator"
      "a' = a\<lparr>ax_inflight := hm_insert t ls (ax_inflight a)\<rparr>" "map le_key ls = aa_references act"
      "list_all (live_lease m') ls" "distinct (map le_id ls)" "\<forall>l. live_lease m l \<longrightarrow> live_lease m' l"
      "\<forall>i. if i \<in> le_id ` set ls then hm_get (rm_leases m) i = None else hm_get (rm_leases m') i = hm_get (rm_leases m) i"
proof -
  have room: "res_room m (length (aa_references act) + Suc n)" and core: "roomy c (length (aa_references act) + Suc n)"
    using inv by (simp_all add: accel_inv_def)
  have "res_room m (length (aa_references act) + Suc n)" by (rule room)
  then have small: "res_room m n" by (metis add_Suc_right rm.room_less rm.room_mono)
  have core1: "roomy c (Suc n)" using core by (rule sm.room_mono)
  show thesis
  proof (cases "get_target (et_device target) reg = Some target \<and> accepts target Accelerator")
    case False
    then have "\<exists>e. (r, a', c', m') = (Inl e, a, c, m)"
      using run by (auto simp: accel_submit_def split: option.splits if_splits)
    then show thesis using refused small by auto
  next
    case True
    obtain x m1 where acq: "acquire_all (aa_references act) s [] m = (x, m1)" by force
    note spec = acquire_all_spec [OF room _ _ acq, simplified]
    show thesis
    proof (cases x)
      case (Inl k)
      with spec have "hm_get (rm_leases m1) = hm_get (rm_leases m)" "res_room m1 (Suc n)" by auto
      moreover have "r = Inl (NotResident k)" "a' = a" "c' = c" "m' = m1"
        using run True acq Inl by (simp_all add: accel_submit_def)
      ultimately show thesis by (intro refused) (simp_all add: rm.room_less)
    next
      case (Inr ls)
      with spec have ls: "map le_key ls = aa_references act" "list_all (live_lease m1) ls" "distinct (map le_id ls)"
        "\<forall>l. live_lease m l \<longrightarrow> live_lease m1 l" "res_room m1 (Suc n)"
        "\<forall>i. if i \<in> le_id ` set ls then hm_get (rm_leases m) i = None else hm_get (rm_leases m1) i = hm_get (rm_leases m) i"
        by auto
      obtain y c1 where sub: "submit s \<lparr>act_kind = Accelerator, act_payload = aa_payload act\<rparr> c = (y, c1)" by force
      show thesis
      proof (cases y)
        case (Inl e)
        from release_each_live [OF ls(5,2,3), of "Ticket 0"]
        have rel: "res_room (release_all ls m1) (Suc n)" "hm_get (rm_leases (release_all ls m1)) =
            (\<lambda>i. if i \<in> le_id ` set ls then None else hm_get (rm_leases m1) i)" by auto
        have "hm_get (rm_leases (release_all ls m1)) i = hm_get (rm_leases m) i" for i
          using ls(6) [rule_format, of i] rel(2) by (simp split: if_splits)
        moreover have "r = Inl (CoreError e)" "a' = a" "c' = c" "m' = release_all ls m1"
          using run True acq Inr sub Inl submit_refused [of s _ c e c1] by (simp_all add: accel_submit_def)
        ultimately show thesis using rel(1) by (intro refused) (auto simp: rm.room_less)
      next
        case got: (Inr z)
        obtain t e where z: "z = (t, e)" by force
        note acc = submit_accepted [OF core1 sub [unfolded got z]]
        have "r = Inr (t, \<lparr>ad_ticket = t, ad_target = target, ad_action = act\<rparr>)"
          "a' = a\<lparr>ax_inflight := hm_insert t ls (ax_inflight a)\<rparr>" "c' = c1" "m' = m1"
          using run True acq Inr sub got z by (simp_all add: accel_submit_def)
        with acc ls True show thesis
          by (intro accepted [of t "\<lparr>ad_ticket = t, ad_target = target, ad_action = act\<rparr>" ls])
            (auto simp: rm.room_less)
      qed
    qed
  qed
qed

lemma live_same: "hm_get (rm_leases m') = hm_get (rm_leases m) \<Longrightarrow> live_lease m' l = live_lease m l"
  by (simp add: live_lease_def)

lemma accel_inv_submit:
  assumes inv: "accel_inv a c m (length (aa_references act) + Suc n)"
    and run: "accel_submit reg s target act a c m = (r, a', c', m')"
  shows "accel_inv a' c' m' n"
  using inv run
proof (cases rule: accel_submit_cases)
  case (refused e)
  have "roomy c (length (aa_references act) + Suc n)" using inv by (simp add: accel_inv_def)
  then have "roomy c n" by (metis add_Suc_right sm.room_less sm.room_mono)
  moreover have "live_lease m' = live_lease m" using live_same [OF refused(4)] by auto
  ultimately show ?thesis using inv refused by (simp add: accel_inv_def)
next
  case (accepted ls d t)
  note old = accel_invD [OF inv]
  have new: "hm_get (ax_inflight a') t' = (if t' = t then Some ls else hm_get (ax_inflight a) t')" for t'
    by (simp add: accepted(10) hm_simps)
  have apart: "le_id ` set ls \<inter> le_id ` set ls' = {}" if get: "hm_get (ax_inflight a) t' = Some ls'" for t' ls'
  proof -
    have "hm_get (rm_leases m) (le_id l) \<noteq> None" if "l \<in> set ls'" for l
      using old(2) [OF get] that by (auto simp: list_all_iff live_lease_def)
    then show ?thesis using accepted(15) by (auto split: if_splits) (metis imageI)
  qed
  have keep: "list_all (live_lease m') ls'" if "hm_get (ax_inflight a) t' = Some ls'" for t' ls'
    using old(2) [OF that] accepted(14) by (simp add: list_all_iff)
  have tick: "ticket_no t' < core_next_ticket c'" if "hm_get (ax_inflight a) t' = Some ls'" for t' ls'
    using old(1) [OF that] accepted(3) by simp
  show ?thesis
  proof (rule accel_invI)
    show "roomy c' n" "res_room m' n" by (fact accepted)+
  next
    fix t' ls'
    assume "hm_get (ax_inflight a') t' = Some ls'"
    then show "ticket_no t' < core_next_ticket c' \<and> list_all (live_lease m') ls' \<and> distinct (map le_id ls')"
      using accepted(2,3,12,13) keep tick old(3) by (auto simp: new split: if_splits)
  next
    fix t1 t2 ls1 ls2
    assume "hm_get (ax_inflight a') t1 = Some ls1" "hm_get (ax_inflight a') t2 = Some ls2" "t1 \<noteq> t2"
    then show "le_id ` set ls1 \<inter> le_id ` set ls2 = {}"
      using apart apart [THEN trans [OF Int_commute]] old(4) by (simp add: new split: if_splits)
  qed
qed

lemma accel_complete_spec:
  assumes inv: "accel_inv a c m (Suc n)" and run: "accel_complete cpl a c m = (r, a', c', m')"
  defines "ls \<equiv> case hm_get (ax_inflight a) (ac_ticket cpl) of None \<Rightarrow> [] | Some ls \<Rightarrow> ls"
  shows "a' = a\<lparr>ax_inflight := hm_remove (ac_ticket cpl) (ax_inflight a)\<rparr>"
    "(case complete (ac_ticket cpl) (core_outcome (ac_outcome cpl)) c of (x, y) \<Rightarrow> (map_sum CoreError id x, y)) = (r, c')"
    "hm_get (rm_leases m') = (\<lambda>i. if i \<in> le_id ` set ls then None else hm_get (rm_leases m) i)"
    "res_room m' (Suc n)" "m' = release_all ls m"
proof -
  have room: "res_room m (Suc n)" using inv by (simp add: accel_inv_def)
  have "list_all (live_lease m) ls" "distinct (map le_id ls)"
    using accel_invD(2,3) [OF inv] by (auto simp: ls_def split: option.split)
  from release_each_live [OF room this, of "ac_ticket cpl"] obtain m1 where
    m1: "release_each (ac_ticket cpl) ls m = (Inr (), m1)" "m1 = release_all ls m" "res_room m1 (Suc n)"
      "hm_get (rm_leases m1) = (\<lambda>i. if i \<in> le_id ` set ls then None else hm_get (rm_leases m) i)" by blast
  obtain x y where xy: "complete (ac_ticket cpl) (core_outcome (ac_outcome cpl)) c = (x, y)" by force
  have "(r, a', c', m') = (map_sum CoreError id x, a\<lparr>ax_inflight := hm_remove (ac_ticket cpl) (ax_inflight a)\<rparr>, y, m1)"
    using run m1(1) xy unfolding accel_complete_def ls_def [symmetric] by (simp add: Let_def ls_def)
  with m1 xy show "a' = a\<lparr>ax_inflight := hm_remove (ac_ticket cpl) (ax_inflight a)\<rparr>"
    "(case complete (ac_ticket cpl) (core_outcome (ac_outcome cpl)) c of (x, y) \<Rightarrow> (map_sum CoreError id x, y)) = (r, c')"
    "hm_get (rm_leases m') = (\<lambda>i. if i \<in> le_id ` set ls then None else hm_get (rm_leases m) i)"
    "res_room m' (Suc n)" "m' = release_all ls m" by simp_all
qed

lemma accel_inv_complete:
  assumes inv: "accel_inv a c m (Suc n)" and run: "accel_complete cpl a c m = (r, a', c', m')"
  shows "accel_inv a' c' m' n"
proof -
  note spec = accel_complete_spec [OF inv run]
  have core: "accel_inv a c' m n"
    using accel_inv_core [OF inv, of "Complete (ac_ticket cpl) (core_outcome (ac_outcome cpl))"] spec(2)
    by (cases "complete (ac_ticket cpl) (core_outcome (ac_outcome cpl)) c") auto
  have get: "hm_get (ax_inflight a) t = Some ls \<and> t \<noteq> ac_ticket cpl" if "hm_get (ax_inflight a') t = Some ls" for t ls
    using that by (auto simp: spec(1) hm_simps split: if_splits)
  have live: "live_lease m' l" if "hm_get (ax_inflight a) t = Some ls" "t \<noteq> ac_ticket cpl" "l \<in> set ls" for t ls l
  proof -
    have "le_id l \<notin> le_id ` set (case hm_get (ax_inflight a) (ac_ticket cpl) of None \<Rightarrow> [] | Some ls \<Rightarrow> ls)"
    proof (cases "hm_get (ax_inflight a) (ac_ticket cpl)")
      case (Some ls')
      from accel_invD(4) [OF inv that(1) this that(2)] that(3) Some show ?thesis by auto
    qed simp
    moreover have "live_lease m l" using accel_invD(2) [OF inv that(1)] that(3) by (simp add: list_all_iff)
    ultimately show ?thesis by (simp add: live_lease_def spec(3))
  qed
  have room: "roomy c' n" "res_room m' n" using core rm.room_less [OF spec(4)] by (simp_all add: accel_inv_def)
  show ?thesis
  proof (rule accel_invI)
    show "roomy c' n" "res_room m' n" by (fact room)+
  next
    fix t ls
    assume "hm_get (ax_inflight a') t = Some ls"
    from get [OF this] show "ticket_no t < core_next_ticket c' \<and> list_all (live_lease m') ls \<and> distinct (map le_id ls)"
      using accel_invD(1,3) [OF core] live by (auto simp: list_all_iff)
  next
    fix t1 t2 ls1 ls2
    assume "hm_get (ax_inflight a') t1 = Some ls1" "hm_get (ax_inflight a') t2 = Some ls2" "t1 \<noteq> t2"
    then show "le_id ` set ls1 \<inter> le_id ` set ls2 = {}" using get accel_invD(4) [OF core] by blast
  qed
qed

lemma accel_reach_inv: "accel_reach j n \<Longrightarrow> accel_inv (as_accel j) (as_core j) (as_res j) n"
proof (induction rule: accel_reach.induct)
  case (start n b)
  have "n \<le> u64_max" using start u32_u64 by simp
  with start show ?case
    by (simp add: accel_inv_def new_system_def new_accel_def roomy_new room_new)
next
  case (submitted j act n reg s target r a c m)
  then show ?case by (simp add: accel_inv_submit)
next
  case (completed j n cpl r a c m)
  then show ?case by (simp add: accel_inv_complete)
next
  case (scheduled j n op)
  then show ?case by (simp add: accel_inv_core)
next
  case (managed j n rop)
  then show ?case by (simp add: accel_inv_res)
qed

section \<open>Properties\<close>

text \<open>A submission that references the entry a load has made resident, used by the witnesses.\<close>

definition demo_gpu :: execution_target where
  "demo_gpu = \<lparr>et_device = DeviceId 0, et_kind = DevGpu, et_capabilities = [Accelerator]\<rparr>"

definition demo_accel_action :: accel_action where
  "demo_accel_action = \<lparr>aa_payload = [], aa_references = [demo_key 1]\<rparr>"

definition demo_system :: accel_system where
  "demo_system = \<lparr>as_accel = new_accel, as_core = run_core (new_core default_budget) [CreateSession],
     as_res = run_residency new_manager demo_script\<rparr>"

definition demo_submission ::
  "(accel_error + ticket \<times> accel_dispatch) \<times> accel \<times> scheduler_core \<times> residency_manager" where
  "demo_submission = accel_submit (snd (register demo_gpu new_registry)) (SessionId 0) demo_gpu demo_accel_action
     (as_accel demo_system) (as_core demo_system) (as_res demo_system)"

definition demo_busy :: accel_system where
  "demo_busy = (case demo_submission of (r, a, c, m) \<Rightarrow> \<lparr>as_accel = a, as_core = c, as_res = m\<rparr>)"

lemma reach_core: "accel_reach j (length ops + n) \<Longrightarrow> accel_reach (j\<lparr>as_core := run_core (as_core j) ops\<rparr>) n"
proof (induction ops arbitrary: j)
  case Nil
  then show ?case by (simp add: run_core_foldl)
next
  case (Cons op ops)
  then have "accel_reach (j\<lparr>as_core := snd (execute (as_core j) op)\<rparr>) (length ops + n)"
    by (simp add: accel_reach.scheduled)
  from Cons.IH [OF this] show ?case by (simp add: run_core_foldl)
qed

lemma reach_res:
  "accel_reach j (length ops + n) \<Longrightarrow> list_all (\<lambda>op. op_ok op \<and> (\<forall>l. op \<noteq> Release l)) ops \<Longrightarrow>
   accel_reach (j\<lparr>as_res := run_residency (as_res j) ops\<rparr>) n"
proof (induction ops arbitrary: j)
  case Nil
  then show ?case by (simp add: run_residency_def)
next
  case (Cons op ops)
  then have "accel_reach (j\<lparr>as_res := res_step (as_res j) op\<rparr>) (length ops + n)"
    by (intro accel_reach.managed) simp_all
  from Cons.IH [OF this] Cons.prems(2) show ?case by (simp add: run_Cons)
qed

lemma demo_system_reach:
  assumes "n \<le> 100"
  shows "accel_reach demo_system n"
proof -
  have "accel_reach (new_system default_budget) (length demo_script + (length [CreateSession] + n))"
    using assms by (intro accel_reach.start) (simp add: demo_script_def rust_int)
  from reach_core [OF reach_res [OF this]] show ?thesis
    by (simp add: new_system_def demo_system_def demo_script_def rust_int)
qed

lemma demo_busy_reach:
  assumes "n \<le> 50"
  shows "accel_reach demo_busy n"
proof -
  obtain r a c m where run: "demo_submission = (r, a, c, m)" by (metis prod_cases4)
  have "accel_reach demo_system (length (aa_references demo_accel_action) + Suc n)"
    using assms by (intro demo_system_reach) (simp add: demo_accel_action_def)
  from accel_reach.submitted [OF this run [unfolded demo_submission_def]] show ?thesis
    by (simp add: demo_busy_def run)
qed

lemmas accel_eval = demo_system_def demo_submission_def demo_busy_def demo_gpu_def demo_accel_action_def
  accel_submit_def get_target_def register_def new_registry_def accepts_def new_accel_def

lemma demo_submission_value:
  "fst demo_submission = Inr (Ticket 0, \<lparr>ad_ticket = Ticket 0, ad_target = demo_gpu, ad_action = demo_accel_action\<rparr>)"
  "hm_get (ax_inflight (as_accel demo_busy)) (Ticket 0) =
     Some [\<lparr>le_id = LeaseId 2, le_key = demo_key 1, le_generation = Generation 0, le_owner = SessionId 0\<rparr>]"
  by (simp_all add: accel_eval demo_defs res_eval sched_eval)

text \<open>
  C21: a resource that an in-flight accelerator submission references stays
  resident, in the generation its lease names, whatever the scheduler and the
  residency manager do meanwhile.  The completion of the submission cannot fail
  on a lease; it returns exactly the leases of the ticket, and a second
  completion of the same ticket neither returns a lease again nor changes the
  residency manager.
\<close>

theorem accel_leases_pinned:
  assumes reach: "accel_reach j (Suc n)"
    and held: "hm_get (ax_inflight (as_accel j)) (ac_ticket cpl) = Some ls"
    and run: "accel_complete cpl (as_accel j) (as_core j) (as_res j) = (r, a, c, m)"
  shows "(\<forall>l \<in> set ls. residency_state_of (as_res j) (le_key l) = Resident (le_generation l))
    \<and> r \<noteq> Inl (ReleaseError t e)
    \<and> hm_get (rm_leases m) = (\<lambda>i. if i \<in> le_id ` set ls then None else hm_get (rm_leases (as_res j)) i)
    \<and> hm_get (ax_inflight a) = (hm_get (ax_inflight (as_accel j)))(ac_ticket cpl := None)
    \<and> (\<exists>r' c'. accel_complete cpl a c m = (r', a, c', m))"
proof (intro conjI)
  note inv = accel_reach_inv [OF reach] and spec = accel_complete_spec [OF accel_reach_inv [OF reach] run]
  have "res_inv (as_res j)" using inv room_inv by (auto simp: accel_inv_def)
  then show "\<forall>l \<in> set ls. residency_state_of (as_res j) (le_key l) = Resident (le_generation l)"
    using accel_invD(2) [OF inv held] live_lease_resident by (auto simp: list_all_iff)
  show "r \<noteq> Inl (ReleaseError t e)"
    using spec(2) by (auto simp: map_sum_def split: prod.splits sum.splits)
  show "hm_get (rm_leases m) = (\<lambda>i. if i \<in> le_id ` set ls then None else hm_get (rm_leases (as_res j)) i)"
    using spec(3) held by simp
  show gone: "hm_get (ax_inflight a) = (hm_get (ax_inflight (as_accel j)))(ac_ticket cpl := None)"
    by (auto simp: spec(1) hm_simps)
  have "a\<lparr>ax_inflight := hm_remove (ac_ticket cpl) (ax_inflight a)\<rparr> = a"
    using gone by (simp add: hm_remove_absent)
  then show "\<exists>r' c'. accel_complete cpl a c m = (r', a, c', m)"
    using gone by (simp add: accel_complete_def split: prod.split)
qed

theorem accel_leases_pinned_witness:
  "residency_state_of (as_res demo_busy) (demo_key 1) = Resident (Generation 0)"
proof -
  let ?cpl = "\<lparr>ac_ticket = Ticket 0, ac_outcome = AccelSuccess\<rparr>"
  have reach: "accel_reach demo_busy (Suc 0)" by (rule demo_busy_reach) simp
  obtain r a c m where
    "accel_complete ?cpl (as_accel demo_busy) (as_core demo_busy) (as_res demo_busy) = (r, a, c, m)"
    by (metis prod_cases4)
  from accel_leases_pinned [OF reach _ this] demo_submission_value(2) show ?thesis by fastforce
qed

text \<open>
  C22: a submission is all or nothing.  Refused, whether by the registry, by a
  reference that is not resident, or by the scheduler, it leaves boundary and
  scheduler as they were and every lease table entry too.  Accepted, the target
  is the registered one and supports accelerator work, the references are
  pinned in their order under leases nobody held before, and the ticket is
  fresh and in flight for the session.
\<close>

theorem accel_submit_atomic:
  assumes reach: "accel_reach j (length (aa_references act) + Suc n)"
    and run: "accel_submit reg s target act (as_accel j) (as_core j) (as_res j) = (r, a, c, m)"
  shows "case r of
     Inl _ \<Rightarrow> a = as_accel j \<and> c = as_core j \<and> hm_get (rm_leases m) = hm_get (rm_leases (as_res j))
   | Inr (t, d) \<Rightarrow>
       get_target (et_device target) reg = Some target \<and> accepts target Accelerator
     \<and> d = \<lparr>ad_ticket = t, ad_target = target, ad_action = act\<rparr>
     \<and> hm_get (ax_inflight (as_accel j)) t = None
     \<and> map_option fst (hm_get (core_inflight c) t) = Some s
     \<and> (\<exists>ls. hm_get (ax_inflight a) = (hm_get (ax_inflight (as_accel j)))(t \<mapsto> ls)
           \<and> map le_key ls = aa_references act
           \<and> (\<forall>l \<in> set ls. hm_get (rm_leases (as_res j)) (le_id l) = None
                \<and> residency_state_of m (le_key l) = Resident (le_generation l)))"
  using accel_reach_inv [OF reach] run
proof (cases rule: accel_submit_cases)
  case (refused e)
  then show ?thesis by simp
next
  case (accepted ls d t)
  have fresh: "hm_get (ax_inflight (as_accel j)) t = None"
    using accel_invD(1) [OF accel_reach_inv [OF reach], of t] accepted(2)
    by (cases "hm_get (ax_inflight (as_accel j)) t") auto
  have "d = \<lparr>ad_ticket = t, ad_target = target, ad_action = act\<rparr>"
    using run accepted(1)
    by (auto simp: accel_submit_def split: option.splits if_splits prod.splits sum.splits)
  moreover have "\<forall>l \<in> set ls. hm_get (rm_leases (as_res j)) (le_id l) = None"
    using accepted(15) by (metis imageI)
  moreover have "\<forall>l \<in> set ls. residency_state_of m (le_key l) = Resident (le_generation l)"
    using accepted(12) live_lease_resident [OF room_inv [OF accepted(5)]] by (simp add: list_all_iff)
  moreover have "hm_get (ax_inflight a) = (hm_get (ax_inflight (as_accel j)))(t \<mapsto> ls)"
    by (auto simp: accepted(10) hm_simps)
  ultimately show ?thesis using accepted(1,6,8,9,11) fresh by auto
qed

theorem accel_submit_atomic_witness:
  "hm_get (ax_inflight (as_accel demo_system)) (Ticket 0) = None \<and>
   map_option fst (hm_get (core_inflight (as_core demo_busy)) (Ticket 0)) = Some (SessionId 0)"
proof -
  have reach: "accel_reach demo_system (length (aa_references demo_accel_action) + Suc 0)"
    by (rule demo_system_reach) (simp add: demo_accel_action_def)
  obtain a c m where run: "demo_submission =
      (Inr (Ticket 0, \<lparr>ad_ticket = Ticket 0, ad_target = demo_gpu, ad_action = demo_accel_action\<rparr>), a, c, m)"
    using demo_submission_value(1) by (metis prod.collapse)
  from accel_submit_atomic [OF reach run [unfolded demo_submission_def]] show ?thesis
    by (simp add: demo_busy_def run)
qed

end
