(* ===== verification/Runtime.thy ===== *)
theory Runtime
  imports Sched_Props
begin

text \<open>
  The runtime shell (\<^verbatim>\<open>logan-core/src/sched/runtime.rs\<close>): one thread owns the
  scheduler core and reads commands from one bounded channel; three executor
  lanes take requests without blocking and give a request back when they are
  full, in which case the runtime keeps it and tries again later.

  A lane is a trait object.  Its three methods are the fields of
  \<open>executor_ops\<close>, over a type variable that stands for the objects behind
  \<^verbatim>\<open>Box<dyn BoundedExecutor>\<close>; what a lane promises is the locale
  \<open>bounded_executor\<close>.  A reply channel is named by a number; the replies
  that were sent are kept in order.
\<close>

section \<open>The channel\<close>

datatype send_error = SendFull | SendClosed

record 'a sync_channel =
  ch_capacity :: nat
  ch_items :: "'a list"
  ch_connected :: bool

definition try_send :: "'a \<Rightarrow> 'a sync_channel \<Rightarrow> (send_error + unit) \<times> 'a sync_channel" where
  "try_send x ch =
     (if \<not> ch_connected ch then (Inl SendClosed, ch)
      else if ch_capacity ch \<le> length (ch_items ch) then (Inl SendFull, ch)
      else (Inr (), ch\<lparr>ch_items := ch_items ch @ [x]\<rparr>))"

section \<open>Data\<close>

record runtime_config =
  command_capacity :: nat

definition default_runtime_config :: runtime_config where
  "default_runtime_config = \<lparr>command_capacity = 256\<rparr>"

datatype runtime_config_error = ZeroCapacity

datatype shutdown_mode = ModeCancel | ModeDrain

datatype submit_disposition = DispAccepted | DispBackpressured

datatype runtime_reply =
    RepSessionCreated session_id
  | RepSubmitted ticket submit_disposition
  | RepEffects "effect list"
  | RepOk
  | RepError string
  | RepShutdownComplete

text \<open>A sink is a clone of the sender of the one command channel, named by a number.\<close>

datatype completion_sink = CompletionSink nat

record dispatch_request =
  dq_ticket :: ticket
  dq_action :: action
  dq_completion :: completion_sink

datatype submit_result = SubAccepted | SubFull dispatch_request | SubClosed dispatch_request

record 'x executor_ops =
  op_try_submit :: "dispatch_request \<Rightarrow> 'x \<Rightarrow> submit_result \<times> 'x"
  op_try_cancel :: "ticket \<Rightarrow> 'x \<Rightarrow> bool \<times> 'x"
  op_shutdown :: "'x \<Rightarrow> 'x"

record 'x executor_set =
  es_io :: 'x
  es_cpu :: 'x
  es_accelerator :: 'x

type_synonym reply_port = "nat option"

datatype runtime_request =
    ReqCreateSession
  | ReqSubmit session_id action
  | ReqBlock session_id
  | ReqWake session_id
  | ReqComplete ticket outcome
  | ReqCancel session_id
  | ReqFinish session_id
  | ReqFail session_id string
  | ReqExecutorReady action_kind
  | ReqShutdown shutdown_mode

datatype runtime_command =
    CmdCreateSession reply_port
  | CmdSubmit session_id action reply_port
  | CmdBlock session_id reply_port
  | CmdWake session_id reply_port
  | CmdComplete ticket outcome "reply_port option"
  | CmdCancel session_id reply_port
  | CmdFinish session_id reply_port
  | CmdFail session_id string reply_port
  | CmdExecutorReady action_kind
  | CmdShutdown shutdown_mode reply_port

fun into_command :: "runtime_request \<Rightarrow> reply_port \<Rightarrow> runtime_command" where
  "into_command ReqCreateSession p = CmdCreateSession p"
| "into_command (ReqSubmit s a) p = CmdSubmit s a p"
| "into_command (ReqBlock s) p = CmdBlock s p"
| "into_command (ReqWake s) p = CmdWake s p"
| "into_command (ReqComplete t out) p = CmdComplete t out (map_option Some p)"
| "into_command (ReqCancel s) p = CmdCancel s p"
| "into_command (ReqFinish s) p = CmdFinish s p"
| "into_command (ReqFail s e) p = CmdFail s e p"
| "into_command (ReqExecutorReady k) p = CmdExecutorReady k"
| "into_command (ReqShutdown m) p = CmdShutdown m p"

section \<open>Frontends and executors on the channel\<close>

definition try_complete ::
  "ticket \<Rightarrow> outcome \<Rightarrow> runtime_command sync_channel \<Rightarrow> (send_error + unit) \<times> runtime_command sync_channel" where
  "try_complete t out ch = try_send (CmdComplete t out None) ch"

text \<open>The reply channel is new; \<open>port\<close> is its name.\<close>

definition try_request ::
  "nat \<Rightarrow> runtime_request \<Rightarrow> runtime_command sync_channel \<Rightarrow> (send_error + nat) \<times> runtime_command sync_channel" where
  "try_request port req ch =
     (case try_send (into_command req (Some port)) ch of
        (Inl e, ch') \<Rightarrow> (Inl e, ch')
      | (Inr _, ch') \<Rightarrow> (Inr port, ch'))"

definition try_notify ::
  "runtime_request \<Rightarrow> runtime_command sync_channel \<Rightarrow> (send_error + unit) \<times> runtime_command sync_channel" where
  "try_notify req ch = try_send (into_command req None) ch"

section \<open>Debug output\<close>

definition show_session_id :: "session_id \<Rightarrow> string" where
  "show_session_id s = ''SessionId('' @ show_nat (session_no s) @ '')''"

definition show_ticket :: "ticket \<Rightarrow> string" where
  "show_ticket t = ''Ticket('' @ show_nat (ticket_no t) @ '')''"

fun show_state :: "session_state \<Rightarrow> string" where
  "show_state Runnable = ''Runnable''"
| "show_state Blocked = ''Blocked''"
| "show_state Cancelling = ''Cancelling''"
| "show_state Finished = ''Finished''"
| "show_state Failed = ''Failed''"

fun show_sched_error :: "sched_error \<Rightarrow> string" where
  "show_sched_error (UnknownSession s) = ''UnknownSession('' @ show_session_id s @ '')''"
| "show_sched_error (IllegalTransition s st) =
     ''IllegalTransition { session: '' @ show_session_id s @ '', from: '' @ show_state st @ '' }''"
| "show_sched_error (NotRunnable s) = ''NotRunnable('' @ show_session_id s @ '')''"
| "show_sched_error (InflightLimit s) = ''InflightLimit('' @ show_session_id s @ '')''"
| "show_sched_error (Unreachable msg) = msg"

fun show_kind :: "action_kind \<Rightarrow> string" where
  "show_kind Io = ''Io''"
| "show_kind Cpu = ''Cpu''"
| "show_kind Accelerator = ''Accelerator''"

fun show_items :: "string list \<Rightarrow> string" where
  "show_items [] = []"
| "show_items [x] = x"
| "show_items (x # y # xs) = x @ '', '' @ show_items (y # xs)"

function show_hex :: "nat \<Rightarrow> string" where
  "show_hex n = (if n < 16 then [''0123456789abcdef'' ! n] else show_hex (n div 16) @ [''0123456789abcdef'' ! (n mod 16)])"
  by pat_completeness auto

termination show_hex
  by (relation "measure id") auto

declare show_hex.simps [simp del]

definition escape_debug :: "char \<Rightarrow> string" where
  "escape_debug c =
     (if c = CHR 0x22 then [CHR 0x5C, CHR 0x22]
      else if c = CHR 0x5C then [CHR 0x5C, CHR 0x5C]
      else if c = CHR 0x0A then [CHR 0x5C, CHR ''n'']
      else if c = CHR 0x0D then [CHR 0x5C, CHR ''r'']
      else if c = CHR 0x09 then [CHR 0x5C, CHR ''t'']
      else if c = CHR 0x00 then [CHR 0x5C, CHR ''0'']
      else if of_char c < (32 :: nat) \<or> of_char c = (127 :: nat)
      then [CHR 0x5C, CHR ''u'', CHR 0x7B] @ show_hex (of_char c) @ [CHR 0x7D]
      else [c])"

fun show_effect :: "effect \<Rightarrow> string" where
  "show_effect (Dispatch t a) = ''Dispatch { ticket: '' @ show_ticket t @ '', action: Action { kind: '' @
     show_kind (act_kind a) @ '', payload: ['' @ show_items (map (show_nat \<circ> unat) (act_payload a)) @ ''] } }''"
| "show_effect (CancelTicket t) = ''Cancel { ticket: '' @ show_ticket t @ '' }''"
| "show_effect (WakeSession s) = ''Wake { session: '' @ show_session_id s @ '' }''"
| "show_effect (SessionFinished s) = ''Finished { session: '' @ show_session_id s @ '' }''"
| "show_effect (SessionFailed s e) = ''Failed { session: '' @ show_session_id s @ '', error: '' @ [CHR 0x22] @
     concat (map escape_debug e) @ [CHR 0x22] @ '' }''"

section \<open>Lanes\<close>

fun lane :: "action_kind \<Rightarrow> 'x executor_set \<Rightarrow> 'x" where
  "lane Io es = es_io es"
| "lane Cpu es = es_cpu es"
| "lane Accelerator es = es_accelerator es"

fun set_lane :: "action_kind \<Rightarrow> 'x \<Rightarrow> 'x executor_set \<Rightarrow> 'x executor_set" where
  "set_lane Io x es = es\<lparr>es_io := x\<rparr>"
| "set_lane Cpu x es = es\<lparr>es_cpu := x\<rparr>"
| "set_lane Accelerator x es = es\<lparr>es_accelerator := x\<rparr>"

definition es_try_submit ::
  "'x executor_ops \<Rightarrow> dispatch_request \<Rightarrow> 'x executor_set \<Rightarrow> submit_result \<times> 'x executor_set" where
  "es_try_submit V req es =
     (let kind = act_kind (dq_action req) in
      case op_try_submit V req (lane kind es) of (res, x) \<Rightarrow> (res, set_lane kind x es))"

definition es_try_cancel :: "'x executor_ops \<Rightarrow> ticket \<Rightarrow> 'x executor_set \<Rightarrow> 'x executor_set" where
  "es_try_cancel V t es =
     (case op_try_cancel V t (es_io es) of (hit, x) \<Rightarrow>
        let es1 = es\<lparr>es_io := x\<rparr> in
        if hit then es1
        else (case op_try_cancel V t (es_cpu es1) of (hit, y) \<Rightarrow>
          let es2 = es1\<lparr>es_cpu := y\<rparr> in
          if hit then es2
          else es2\<lparr>es_accelerator := snd (op_try_cancel V t (es_accelerator es2))\<rparr>))"

definition es_shutdown :: "'x executor_ops \<Rightarrow> 'x executor_set \<Rightarrow> 'x executor_set" where
  "es_shutdown V es = \<lparr>es_io = op_shutdown V (es_io es), es_cpu = op_shutdown V (es_cpu es),
     es_accelerator = op_shutdown V (es_accelerator es)\<rparr>"

section \<open>The loop\<close>

record 'x runtime_loop =
  rl_completion :: completion_sink
  rl_core :: scheduler_core
  rl_executors :: "'x executor_set"
  rl_pending :: "dispatch_request list"
  rl_draining :: bool
  rl_shutdown_reply :: "reply_port option"
  rl_replies :: "(nat \<times> runtime_reply) list"

definition new_loop :: "completion_sink \<Rightarrow> budget \<Rightarrow> 'x executor_set \<Rightarrow> 'x runtime_loop" where
  "new_loop sink b es = \<lparr>rl_completion = sink, rl_core = new_core b, rl_executors = es, rl_pending = [],
     rl_draining = False, rl_shutdown_reply = None, rl_replies = []\<rparr>"

definition reply_send :: "reply_port \<Rightarrow> runtime_reply \<Rightarrow> 'x runtime_loop \<Rightarrow> 'x runtime_loop" where
  "reply_send p r rt = (case p of None \<Rightarrow> rt | Some ch \<Rightarrow> rt\<lparr>rl_replies := rl_replies rt @ [(ch, r)]\<rparr>)"

definition respond_effects ::
  "sched_error + effect list \<Rightarrow> reply_port \<Rightarrow> 'x runtime_loop \<Rightarrow> 'x runtime_loop" where
  "respond_effects res p rt =
     (case res of
        Inr es \<Rightarrow> reply_send p (if es = [] then RepOk else RepEffects es) rt
      | Inl e \<Rightarrow> reply_send p (RepError (show_sched_error e)) rt)"

fun apply_effects :: "'x executor_ops \<Rightarrow> effect list \<Rightarrow> 'x runtime_loop \<Rightarrow> 'x runtime_loop" where
  "apply_effects V [] rt = rt"
| "apply_effects V (e # es) rt =
     apply_effects V es
       (case e of CancelTicket t \<Rightarrow> rt\<lparr>rl_executors := es_try_cancel V t (rl_executors rt)\<rparr> | _ \<Rightarrow> rt)"

fun remove_cancelled :: "effect list \<Rightarrow> 'x runtime_loop \<Rightarrow> 'x runtime_loop" where
  "remove_cancelled [] rt = rt"
| "remove_cancelled (e # es) rt =
     remove_cancelled es
       (case e of CancelTicket t \<Rightarrow> rt\<lparr>rl_pending := filter (\<lambda>req. dq_ticket req \<noteq> t) (rl_pending rt)\<rparr> | _ \<Rightarrow> rt)"

text \<open>The block every handler that may revoke tickets repeats: \<^verbatim>\<open>if let Ok(effects) = &effects\<close>.\<close>

definition settle ::
  "'x executor_ops \<Rightarrow> sched_result \<Rightarrow> 'x runtime_loop \<Rightarrow> (sched_error + effect list) \<times> 'x runtime_loop" where
  "settle V res rt =
     (case res of
        (Inr es, c) \<Rightarrow> (Inr es, apply_effects V es (remove_cancelled es (rt\<lparr>rl_core := c\<rparr>)))
      | (Inl e, c) \<Rightarrow> (Inl e, rt\<lparr>rl_core := c\<rparr>))"

definition is_quiescent :: "'x runtime_loop \<Rightarrow> bool" where
  "is_quiescent rt \<longleftrightarrow> rl_pending rt = [] \<and> total_inflight (rl_core rt) = 0"

definition rl_submit ::
  "'x executor_ops \<Rightarrow> session_id \<Rightarrow> action \<Rightarrow> reply_port \<Rightarrow> 'x runtime_loop \<Rightarrow> 'x runtime_loop" where
  "rl_submit V s a p rt =
     (case submit s a (rl_core rt) of
        (Inr (t, Dispatch t' a'), c) \<Rightarrow>
          (let req = \<lparr>dq_ticket = t, dq_action = a', dq_completion = rl_completion rt\<rparr>;
               rt1 = rt\<lparr>rl_core := c\<rparr>
           in case es_try_submit V req (rl_executors rt1) of
                (SubAccepted, es) \<Rightarrow> reply_send p (RepSubmitted t DispAccepted) (rt1\<lparr>rl_executors := es\<rparr>)
              | (SubFull r, es) \<Rightarrow>
                  reply_send p (RepSubmitted t DispBackpressured)
                    (rt1\<lparr>rl_executors := es, rl_pending := rl_pending rt1 @ [r]\<rparr>)
              | (SubClosed r, es) \<Rightarrow>
                  reply_send p (RepError ''executor closed'')
                    (snd (settle V (complete (dq_ticket r) (OutcomeErr ''executor closed before dispatch'') c)
                       (rt1\<lparr>rl_executors := es\<rparr>))))
      | (Inr (t, e), c) \<Rightarrow> reply_send p (RepError (''unexpected scheduler effect: '' @ show_effect e)) (rt\<lparr>rl_core := c\<rparr>)
      | (Inl e, c) \<Rightarrow> reply_send p (RepError (show_sched_error e)) (rt\<lparr>rl_core := c\<rparr>))"

text \<open>
  The index loop of \<^verbatim>\<open>retry_pending\<close>.  Every turn moves the index or takes a
  request out of the queue; a closed lane may take out more than one.
\<close>

lemma remove_cancelled_pending:
  "rl_pending (remove_cancelled es rt) = filter (\<lambda>req. CancelTicket (dq_ticket req) \<notin> set es) (rl_pending rt)"
  by (induction es rt rule: remove_cancelled.induct)
    (auto simp: filter_filter conj_commute split: effect.split intro: filter_cong)

lemma apply_effects_sel [simp]:
  "rl_pending (apply_effects V es rt) = rl_pending rt" "rl_core (apply_effects V es rt) = rl_core rt"
  by (induction V es rt rule: apply_effects.induct) (simp_all split: effect.split)

lemma settle_pending_length: "length (rl_pending (snd (settle V res rt))) \<le> length (rl_pending rt)"
  by (simp add: settle_def remove_cancelled_pending split: prod.split sum.split)

function retry_from :: "'x executor_ops \<Rightarrow> action_kind \<Rightarrow> nat \<Rightarrow> 'x runtime_loop \<Rightarrow> 'x runtime_loop" where
  "retry_from V kind index rt =
     (if index < length (rl_pending rt) then
        let req = rl_pending rt ! index in
        if act_kind (dq_action req) \<noteq> kind then retry_from V kind (index + 1) rt
        else
          let rest = take index (rl_pending rt) @ drop (index + 1) (rl_pending rt) in
          case es_try_submit V req (rl_executors rt) of
            (SubAccepted, es) \<Rightarrow> retry_from V kind index (rt\<lparr>rl_pending := rest, rl_executors := es\<rparr>)
          | (SubFull r, es) \<Rightarrow>
              rt\<lparr>rl_pending := take index rest @ r # drop index rest, rl_executors := es\<rparr>
          | (SubClosed r, es) \<Rightarrow>
              retry_from V kind index
                (snd (settle V (complete (dq_ticket r) (OutcomeErr ''executor closed before retry'') (rl_core rt))
                   (rt\<lparr>rl_pending := rest, rl_executors := es\<rparr>)))
      else rt)"
  by pat_completeness auto

termination retry_from
proof (relation "measure (\<lambda>(V, kind, index, rt). length (rl_pending rt) - index)", goal_cases)
  case prems: (4 V kind index rt req rest res es r)
  show ?case using prems settle_pending_length [of V "complete (dq_ticket r) (OutcomeErr ''executor closed before retry'') (rl_core rt)"
        "rt\<lparr>rl_pending := rest, rl_executors := es\<rparr>"] by auto
qed auto

declare retry_from.simps [simp del]

definition retry_pending :: "'x executor_ops \<Rightarrow> action_kind \<Rightarrow> 'x runtime_loop \<Rightarrow> 'x runtime_loop" where
  "retry_pending V kind rt = retry_from V kind 0 rt"

fun shutdown_sessions ::
  "'x executor_ops \<Rightarrow> shutdown_mode \<Rightarrow> session_id list \<Rightarrow> 'x runtime_loop \<Rightarrow> 'x runtime_loop" where
  "shutdown_sessions V mode [] rt = rt"
| "shutdown_sessions V mode (s # ss) rt =
     (let rt1 = (if mode = ModeCancel then snd (settle V (cancel s (rl_core rt)) rt) else rt);
          rt2 = (case finish s (rl_core rt1) of
                   (Inr es, c) \<Rightarrow> apply_effects V es (rt1\<lparr>rl_core := c\<rparr>)
                 | (Inl e, c) \<Rightarrow> rt1\<lparr>rl_core := c\<rparr>)
      in shutdown_sessions V mode ss rt2)"

definition rl_shutdown ::
  "'x executor_ops \<Rightarrow> shutdown_mode \<Rightarrow> reply_port \<Rightarrow> 'x runtime_loop \<Rightarrow> 'x runtime_loop" where
  "rl_shutdown V mode p rt =
     (let rt1 = shutdown_sessions V mode (session_ids (rl_core rt)) rt in
      reply_send p RepShutdownComplete
        (rt1\<lparr>rl_pending := [], rl_executors := es_shutdown V (rl_executors rt1)\<rparr>))"

text \<open>The result says whether the owner thread ends.\<close>

fun handle :: "'x executor_ops \<Rightarrow> runtime_command \<Rightarrow> 'x runtime_loop \<Rightarrow> bool \<times> 'x runtime_loop" where
  "handle V (CmdCreateSession p) rt =
     (False,
      if rl_draining rt then reply_send p (RepError ''runtime is draining'') rt
      else (case create_session (rl_core rt) of
              (s, c) \<Rightarrow> reply_send p (RepSessionCreated s) (rt\<lparr>rl_core := c\<rparr>)))"
| "handle V (CmdSubmit s a p) rt =
     (False,
      if rl_draining rt then reply_send p (RepError ''runtime is draining'') rt
      else rl_submit V s a p rt)"
| "handle V (CmdBlock s p) rt =
     (False, case block s (rl_core rt) of (res, c) \<Rightarrow> respond_effects res p (rt\<lparr>rl_core := c\<rparr>))"
| "handle V (CmdWake s p) rt =
     (False, case wake s (rl_core rt) of (res, c) \<Rightarrow> respond_effects res p (rt\<lparr>rl_core := c\<rparr>))"
| "handle V (CmdComplete t out p) rt =
     (case settle V (complete t out (rl_core rt)) rt of (res, rt1) \<Rightarrow>
        let rt2 = (case p of None \<Rightarrow> rt1 | Some port \<Rightarrow> respond_effects res port rt1) in
        (False, retry_pending V Accelerator (retry_pending V Cpu (retry_pending V Io rt2))))"
| "handle V (CmdCancel s p) rt =
     (False, case settle V (cancel s (rl_core rt)) rt of (res, rt1) \<Rightarrow> respond_effects res p rt1)"
| "handle V (CmdFinish s p) rt =
     (False, case settle V (finish s (rl_core rt)) rt of (res, rt1) \<Rightarrow> respond_effects res p rt1)"
| "handle V (CmdFail s e p) rt =
     (False, case settle V (fail s e (rl_core rt)) rt of (res, rt1) \<Rightarrow> respond_effects res p rt1)"
| "handle V (CmdExecutorReady k) rt = (False, retry_pending V k rt)"
| "handle V (CmdShutdown mode p) rt =
     (if mode = ModeDrain \<and> \<not> is_quiescent rt then
        (False,
         if rl_draining rt then reply_send p (RepError ''runtime is already draining'') rt
         else rt\<lparr>rl_draining := True, rl_shutdown_reply := Some p\<rparr>)
      else (True, rl_shutdown V mode p rt))"

text \<open>
  \<^verbatim>\<open>run\<close>, over what the receiver returns: a command, \<open>RecvEmpty\<close> when \<^verbatim>\<open>try_recv\<close>
  finds nothing, \<open>RecvDisconnected\<close>.  The blocking \<^verbatim>\<open>recv\<close> passes over
  \<open>RecvEmpty\<close>: it waits.  The result says whether the thread has ended, beside
  the state it leaves.
\<close>

datatype recv_event = RecvCommand runtime_command | RecvEmpty | RecvDisconnected

definition end_of_burst :: "'x executor_ops \<Rightarrow> 'x runtime_loop \<Rightarrow> bool \<times> 'x runtime_loop" where
  "end_of_burst V rt =
     (if rl_draining rt \<and> is_quiescent rt
      then (True, rl_shutdown V ModeDrain (case rl_shutdown_reply rt of None \<Rightarrow> None | Some p \<Rightarrow> p)
              (rt\<lparr>rl_shutdown_reply := None\<rparr>))
      else (False, rt))"

fun run_recv :: "'x executor_ops \<Rightarrow> recv_event list \<Rightarrow> 'x runtime_loop \<Rightarrow> bool \<times> 'x runtime_loop"
  and run_try :: "'x executor_ops \<Rightarrow> recv_event list \<Rightarrow> 'x runtime_loop \<Rightarrow> bool \<times> 'x runtime_loop" where
  "run_recv V [] rt = (False, rt)"
| "run_recv V (RecvCommand c # evs) rt =
     (case handle V c rt of (stop, rt') \<Rightarrow> if stop then (True, rt') else run_try V evs rt')"
| "run_recv V (RecvEmpty # evs) rt = run_recv V evs rt"
| "run_recv V (RecvDisconnected # evs) rt = (True, rl_shutdown V ModeCancel None rt)"
| "run_try V [] rt = (False, rt)"
| "run_try V (RecvCommand c # evs) rt =
     (case handle V c rt of (stop, rt') \<Rightarrow> if stop then (True, rt') else run_try V evs rt')"
| "run_try V (RecvEmpty # evs) rt =
     (case end_of_burst V rt of (stop, rt') \<Rightarrow> if stop then (True, rt') else run_recv V evs rt')"
| "run_try V (RecvDisconnected # evs) rt = (True, rl_shutdown V ModeCancel None rt)"

text \<open>The command channel of a runtime, and the loop its thread runs.\<close>

definition spawn ::
  "budget \<Rightarrow> runtime_config \<Rightarrow> 'x executor_set \<Rightarrow>
     runtime_config_error + (runtime_command sync_channel \<times> 'x runtime_loop)" where
  "spawn b cfg es =
     (if command_capacity cfg = 0 then Inl ZeroCapacity
      else Inr (\<lparr>ch_capacity = command_capacity cfg, ch_items = [], ch_connected = True\<rparr>,
                new_loop (CompletionSink 0) b es))"

definition drop_runtime :: "bool \<Rightarrow> runtime_command sync_channel \<Rightarrow> runtime_command sync_channel" where
  "drop_runtime joined ch = (if joined then ch else snd (try_send (CmdShutdown ModeCancel None) ch))"

end
