(* ===== verification/Runtime_Props.thy ===== *)
theory Runtime_Props
  imports Runtime
begin

text \<open>
  What the runtime guarantees of the requests it hands to the executors, from
  one assumption on a lane: a request it refuses comes back unchanged.
\<close>

section \<open>The lane interface\<close>

locale bounded_executor =
  fixes V :: "'x executor_ops"
  assumes full_returns: "op_try_submit V req x = (SubFull r, x') \<Longrightarrow> r = req"
    and closed_returns: "op_try_submit V req x = (SubClosed r, x') \<Longrightarrow> r = req"

text \<open>A lane that keeps a list of the requests it accepted beside its own state.\<close>

definition logged :: "'x executor_ops \<Rightarrow> ('x \<times> dispatch_request list) executor_ops" where
  "logged V = \<lparr>
     op_try_submit = (\<lambda>req (x, log).
       case op_try_submit V req x of
         (SubAccepted, x') \<Rightarrow> (SubAccepted, x', log @ [req])
       | (res, x') \<Rightarrow> (res, x', log)),
     op_try_cancel = (\<lambda>t (x, log). case op_try_cancel V t x of (hit, x') \<Rightarrow> (hit, x', log)),
     op_shutdown = (\<lambda>(x, log). (op_shutdown V x, log))\<rparr>"

definition handed :: "('x \<times> dispatch_request list) executor_set \<Rightarrow> ticket multiset" where
  "handed es = image_mset dq_ticket (mset (snd (es_io es)) + mset (snd (es_cpu es)) + mset (snd (es_accelerator es)))"

definition tickets :: "('x \<times> dispatch_request list) runtime_loop \<Rightarrow> ticket multiset" where
  "tickets rt = image_mset dq_ticket (mset (rl_pending rt)) + handed (rl_executors rt)"

definition issued :: "nat \<Rightarrow> nat \<Rightarrow> ticket multiset" where
  "issued i j = mset (map Ticket [i..<j])"

lemma issued_trans: "i \<le> j \<Longrightarrow> j \<le> k \<Longrightarrow> issued i j + issued j k = issued i k"
  by (metis issued_def le_iff_add map_append mset_append upt_add_eq_append)

lemma issued_simps [simp]: "issued i i = {#}" "issued i (Suc i) = {#Ticket i#}"
  by (simp_all add: issued_def)

lemma in_issued [simp]: "t \<in># issued i j \<longleftrightarrow> i \<le> ticket_no t \<and> ticket_no t < j"
  by (cases t) (auto simp: issued_def)

lemma count_issued: "count (issued i j) t \<le> 1"
proof -
  have "distinct (map Ticket [i..<j])" by (simp add: distinct_map inj_on_def)
  then show ?thesis unfolding issued_def by (simp add: distinct_count_atmost_1)
qed

lemma handed_cancel [simp]: "handed (es_try_cancel (logged V) t es) = handed es"
  by (simp add: handed_def es_try_cancel_def logged_def Let_def split: prod.split)

lemma handed_apply [simp]: "handed (rl_executors (apply_effects (logged V) es rt)) = handed (rl_executors rt)"
  by (induction "logged V" es rt rule: apply_effects.induct) (simp_all split: effect.split)

lemma remove_cancelled_sel [simp]:
  "rl_executors (remove_cancelled es rt) = rl_executors rt" "rl_core (remove_cancelled es rt) = rl_core rt"
  by (induction es rt rule: remove_cancelled.induct) (simp_all split: effect.split)

lemma reply_send_sel [simp]:
  "rl_pending (reply_send p r rt) = rl_pending rt" "rl_core (reply_send p r rt) = rl_core rt"
  "rl_executors (reply_send p r rt) = rl_executors rt"
  by (simp_all add: reply_send_def split: option.split)

lemma respond_sel [simp]:
  "rl_pending (respond_effects res p rt) = rl_pending rt" "rl_core (respond_effects res p rt) = rl_core rt"
  "rl_executors (respond_effects res p rt) = rl_executors rt"
  by (simp_all add: respond_effects_def split: sum.split)

context bounded_executor
begin

lemma submit_cases:
  assumes "es_try_submit (logged V) req es = (res, es')"
  obtains (accepted) "res = SubAccepted" "handed es' = add_mset (dq_ticket req) (handed es)"
  | (full) "res = SubFull req" "handed es' = handed es"
  | (closed) "res = SubClosed req" "handed es' = handed es"
proof -
  obtain x log where lane: "lane (act_kind (dq_action req)) es = (x, log)" by force
  obtain r x' where sub: "op_try_submit V req x = (r, x')" by force
  have es': "es' = set_lane (act_kind (dq_action req)) (x', if r = SubAccepted then log @ [req] else log) es"
    "res = r" using assms lane sub
    by (auto simp: es_try_submit_def logged_def Let_def split: submit_result.splits)
  have "handed es' = (if r = SubAccepted then add_mset (dq_ticket req) (handed es) else handed es)"
    using lane by (cases "act_kind (dq_action req)") (auto simp: handed_def es'(1))
  with es'(2) sub full_returns closed_returns accepted full closed show thesis by (cases r) auto
qed

end

section \<open>Revoked tickets are reported\<close>

text \<open>
  What an operation that allocates nothing does to the live tickets: besides
  those in \<open>T\<close>, a ticket dies only if the operation succeeds and says so.
\<close>

definition drops_only :: "ticket set \<Rightarrow> scheduler_core \<Rightarrow> sched_result \<Rightarrow> bool" where
  "drops_only T c out \<longleftrightarrow>
     sched_inv (snd out) \<and> core_next_session (snd out) = core_next_session c \<and>
     core_next_ticket (snd out) = core_next_ticket c \<and>
     (\<forall>u. u \<notin> T \<longrightarrow> hm_get (core_inflight c) u \<noteq> None \<longrightarrow>
        hm_get (core_inflight (snd out)) u \<noteq> None \<or> (\<exists>es. fst out = Inr es \<and> CancelTicket u \<in> set es))"

lemma take_inflight_sel:
  "hm_get (core_inflight (take_inflight s st ts c)) = (\<lambda>t. if t \<in> set ts then None else hm_get (core_inflight c) t)"
  by (simp add: take_inflight_def hm_simps)

lemma ready_inflight [simp]: "core_inflight (remove_from_ready s c) = core_inflight c"
  by (simp add: remove_from_ready_def)

lemma terminalize_drops:
  assumes "hm_get (core_sessions c) s = Some r" "st = Finished \<and> err = None \<or> st = Failed \<and> err = Some e"
  shows "fst (terminalize s st err c) = Inr (map CancelTicket (sess_inflight r) @
      [case err of None \<Rightarrow> SessionFinished s | Some e \<Rightarrow> SessionFailed s e])"
    "hm_get (core_inflight (snd (terminalize s st err c))) =
      (\<lambda>t. if t \<in> set (sess_inflight r) then None else hm_get (core_inflight c) t)"
  using assms by (auto simp: terminalize_def Let_def get_remove_from_ready take_inflight_sel)

lemma counters_ops [simp]:
  "core_next_ticket (snd (complete t out c)) = core_next_ticket c"
  "core_next_ticket (snd (cancel s c)) = core_next_ticket c"
  "core_next_ticket (snd (finish s c)) = core_next_ticket c"
  "core_next_ticket (snd (fail s e c)) = core_next_ticket c"
  "core_next_ticket (snd (block s c)) = core_next_ticket c"
  "core_next_ticket (snd (wake s c)) = core_next_ticket c"
  "core_next_session (snd (complete t out c)) = core_next_session c"
  "core_next_session (snd (cancel s c)) = core_next_session c"
  "core_next_session (snd (finish s c)) = core_next_session c"
  "core_next_session (snd (fail s e c)) = core_next_session c"
  "core_next_session (snd (block s c)) = core_next_session c"
  "core_next_session (snd (wake s c)) = core_next_session c"
  by (auto simp: op_defs Let_def split: option.split session_state.split outcome.split prod.split)

lemma drop_ticket_sel:
  "hm_get (core_inflight (drop_ticket t s c)) = (hm_get (core_inflight c))(t := None)"
  "hm_get (core_sessions (drop_ticket t s c)) s =
     map_option (\<lambda>r. r\<lparr>sess_inflight := filter (\<lambda>owned. owned \<noteq> t) (sess_inflight r)\<rparr>) (hm_get (core_sessions c) s)"
  by (auto simp: drop_ticket_def hm_simps)

lemma wake_inflight [simp]:
  "core_inflight (enqueue_if_runnable s c) = core_inflight c" "core_inflight (set_state s st c) = core_inflight c"
  by (simp_all add: enqueue_if_runnable_def set_state_def split: option.split)

lemma drops_complete:
  assumes inv: "sched_inv c"
  shows "drops_only {t} c (complete t out c)"
proof (cases "hm_get (core_inflight c) t")
  case None
  then show ?thesis using inv by (simp add: complete_def drops_only_def)
next
  case (Some sg)
  then obtain s g where own: "hm_get (core_inflight c) t = Some (s, g)" by (cases sg) auto
  from inv_ticket [OF inv own] obtain r where get: "hm_get (core_sessions c) s = Some r"
    by (auto simp: ticket_ok_def)
  have unready: "sess_state r = Blocked \<longrightarrow> \<not> sess_in_ready r"
    using inv_session [OF inv get] by (auto simp: session_ok_def)
  have "hm_get (core_inflight (snd (complete t out c))) u \<noteq> None \<or>
      (\<exists>es. fst (complete t out c) = Inr es \<and> CancelTicket u \<in> set es)"
    if "u \<noteq> t" "hm_get (core_inflight c) u \<noteq> None" for u
  proof (cases out)
    case OutcomeOk
    with that show ?thesis by (simp add: complete_live [OF own get unready] drop_ticket_sel(1))
  next
    case (OutcomeErr e)
    note gone = terminalize_drops [OF drop_ticket_sel(2) [of t s c, unfolded get option.map], of Failed "Some e" e]
    from OutcomeErr that show ?thesis
      by (auto simp: complete_live [OF own get unready] gone drop_ticket_sel(1))
  qed
  then show ?thesis using inv_complete [OF inv, of t out] by (simp add: drops_only_def)
qed

lemma drops_session:
  assumes inv: "sched_inv c"
  shows "drops_only {} c (cancel s c)" "drops_only {} c (finish s c)" "drops_only {} c (fail s e c)"
    "drops_only {} c (block s c)" "drops_only {} c (wake s c)"
proof -
  note drops_onlyI = drops_only_def [THEN iffD2, OF conjI, OF _ conjI, OF _ _ conjI]
  show "drops_only {} c (cancel s c)"
    by (rule drops_onlyI [OF inv_cancel [OF inv]])
      (simp_all, auto simp: cancel_def take_inflight_sel split: option.split session_state.split)
  show "drops_only {} c (finish s c)"
    by (rule drops_onlyI [OF inv_finish [OF inv]])
      (simp_all, auto simp: finish_def terminalize_drops split: option.split session_state.split)
  show "drops_only {} c (fail s e c)"
    by (rule drops_onlyI [OF inv_fail [OF inv]])
      (simp_all, auto simp: fail_def terminalize_drops split: option.split session_state.split)
  show "drops_only {} c (block s c)"
    by (rule drops_onlyI [OF inv_block [OF inv]])
      (simp_all, auto simp: block_def split: option.split session_state.split)
  show "drops_only {} c (wake s c)"
    by (rule drops_onlyI [OF inv_wake [OF inv]])
      (simp_all, auto simp: wake_def split: option.split session_state.split)
qed

section \<open>Where a ticket is\<close>

text \<open>
  Tickets are never duplicated: what is pending or handed over afterwards was
  pending or handed over before, or has been issued meanwhile.
\<close>

definition flows ::
  "('x \<times> dispatch_request list) runtime_loop \<Rightarrow> ('x \<times> dispatch_request list) runtime_loop \<Rightarrow> bool" where
  "flows rt rt' \<longleftrightarrow>
     core_next_ticket (rl_core rt) \<le> core_next_ticket (rl_core rt') \<and>
     tickets rt' \<subseteq># tickets rt + issued (core_next_ticket (rl_core rt)) (core_next_ticket (rl_core rt'))"

lemma flows_refl: "flows rt rt"
  by (simp add: flows_def)

lemma flows_trans:
  assumes "flows rt rt1" "flows rt1 rt2"
  shows "flows rt rt2"
proof -
  let ?n = "\<lambda>rt. core_next_ticket (rl_core rt)"
  have "tickets rt2 \<subseteq># tickets rt1 + issued (?n rt1) (?n rt2)" using assms(2) by (simp add: flows_def)
  also have "\<dots> \<subseteq># tickets rt + issued (?n rt) (?n rt1) + issued (?n rt1) (?n rt2)"
    using assms(1) by (simp add: flows_def)
  also have "\<dots> = tickets rt + issued (?n rt) (?n rt2)"
    using assms issued_trans [of "?n rt" "?n rt1" "?n rt2"] by (simp add: flows_def add.assoc)
  finally show ?thesis using assms by (auto simp: flows_def)
qed

text \<open>
  The invariant: what waits is live, but for the tickets in \<open>F\<close>, which a
  completion has named while they waited.
\<close>

definition rt_ok :: "ticket set \<Rightarrow> ('x \<times> dispatch_request list) runtime_loop \<Rightarrow> nat \<Rightarrow> bool" where
  "rt_ok F rt n \<longleftrightarrow>
     roomy (rl_core rt) n
   \<and> (\<forall>req \<in> set (rl_pending rt). dq_ticket req \<in> F \<or> hm_get (core_inflight (rl_core rt)) (dq_ticket req) \<noteq> None)
   \<and> tickets rt \<subseteq># issued 0 (core_next_ticket (rl_core rt))"

lemma rt_ok_flow:
  assumes "rt_ok F rt n" "flows rt rt'" "roomy (rl_core rt') m"
    "\<And>req. req \<in> set (rl_pending rt') \<Longrightarrow>
       dq_ticket req \<in> F \<or> hm_get (core_inflight (rl_core rt')) (dq_ticket req) \<noteq> None"
  shows "rt_ok F rt' m"
proof -
  let ?n = "\<lambda>rt. core_next_ticket (rl_core rt)"
  have "tickets rt' \<subseteq># tickets rt + issued (?n rt) (?n rt')" using assms(2) by (simp add: flows_def)
  also have "\<dots> \<subseteq># issued 0 (?n rt) + issued (?n rt) (?n rt')" using assms(1) by (simp add: rt_ok_def)
  also have "\<dots> = issued 0 (?n rt')" using assms(2) by (intro issued_trans) (simp_all add: flows_def)
  finally show ?thesis using assms(3,4) by (simp add: rt_ok_def)
qed

lemma rt_ok_mono: "rt_ok F rt n \<Longrightarrow> F \<subseteq> F' \<Longrightarrow> rt_ok F' rt n"
  by (auto simp: rt_ok_def)

lemma rt_ok_once: "rt_ok F rt n \<Longrightarrow> count (tickets rt) t \<le> 1"
  by (meson count_issued le_trans mset_subset_eq_count rt_ok_def)

lemma rt_ok_less: "rt_ok F rt (Suc n) \<Longrightarrow> rt_ok F rt n"
  by (auto simp: rt_ok_def intro: sm.room_less)

lemma settle_sel:
  "rl_core (snd (settle V out rt)) = snd out"
  "handed (rl_executors (snd (settle (logged W) out rt'))) = handed (rl_executors rt')"
  "rl_pending (snd (settle V out rt)) =
     filter (\<lambda>req. \<not> (\<exists>es. fst out = Inr es \<and> CancelTicket (dq_ticket req) \<in> set es)) (rl_pending rt)"
  by (auto simp: settle_def remove_cancelled_pending split: prod.split sum.split intro: filter_cong)

lemma settle_ok:
  assumes ok: "rt_ok F rt n" and drops: "drops_only T (rl_core rt) out"
    and T: "\<And>req. req \<in> set (rl_pending rt) \<Longrightarrow> dq_ticket req \<notin> T \<or> dq_ticket req \<in> F"
  shows "rt_ok F (snd (settle (logged V) out rt)) n \<and> flows rt (snd (settle (logged V) out rt))"
proof -
  let ?rt = "snd (settle (logged V) out rt)"
  have "mset (rl_pending ?rt) \<subseteq># mset (rl_pending rt)" by (simp add: settle_sel(3) multiset_filter_subset)
  then have "flows rt ?rt"
    using drops by (simp add: flows_def tickets_def settle_sel(1,2) drops_only_def image_mset_subseteq_mono)
  moreover have "roomy (rl_core ?rt) n" using ok drops by (simp add: settle_sel(1) rt_ok_def roomy_def drops_only_def)
  moreover have "dq_ticket req \<in> F \<or> hm_get (core_inflight (rl_core ?rt)) (dq_ticket req) \<noteq> None"
    if "req \<in> set (rl_pending ?rt)" for req
    using that drops T [of req] ok by (auto simp: settle_sel(1,3) drops_only_def rt_ok_def)
  ultimately show ?thesis using rt_ok_flow [OF ok] by blast
qed

lemma take_out:
  assumes "i < length xs"
  shows "mset xs = add_mset (xs ! i) (mset (take i xs @ drop (i + 1) xs))"
    "set (take i xs @ drop (i + 1) xs) \<subseteq> set xs"
    "take i xs @ xs ! i # drop (i + 1) xs = xs"
proof -
  show split: "take i xs @ xs ! i # drop (i + 1) xs = xs" using assms by (simp add: id_take_nth_drop [symmetric])
  show "mset xs = add_mset (xs ! i) (mset (take i xs @ drop (i + 1) xs))"
    by (subst split [symmetric]) simp
  show "set (take i xs @ drop (i + 1) xs) \<subseteq> set xs"
    by (auto dest: in_set_takeD in_set_dropD)
qed

lemma rt_ok_remove:
  assumes "rt_ok F rt n" "set rest \<subseteq> set (rl_pending rt)"
    "tickets (rt\<lparr>rl_pending := rest, rl_executors := es\<rparr>) \<subseteq># tickets rt"
  shows "rt_ok F (rt\<lparr>rl_pending := rest, rl_executors := es\<rparr>) n \<and> flows rt (rt\<lparr>rl_pending := rest, rl_executors := es\<rparr>)"
  using assms subset_mset.order_trans [OF assms(3)] by (auto simp: rt_ok_def flows_def)

text \<open>A request taken out of the queue because its lane is closed: its ticket fails, the others stay live.\<close>

lemma closed_ok:
  fixes V :: "'x executor_ops" and e :: string
  assumes ok: "rt_ok F rt n" and req: "mset (rl_pending rt) = add_mset req (mset rest)" and es: "handed es = handed (rl_executors rt)"
  defines "rt1 \<equiv> rt\<lparr>rl_pending := rest, rl_executors := es\<rparr>"
  defines "rt2 \<equiv> snd (settle (logged V) (complete (dq_ticket req) (OutcomeErr e) (rl_core rt)) rt1)"
  shows "rt_ok F rt2 n \<and> flows rt rt2"
proof -
  have tk: "tickets rt = add_mset (dq_ticket req) (tickets rt1)" by (simp add: rt1_def tickets_def req es)
  have "set rest \<subseteq> set (rl_pending rt)" using req by (metis set_mset_add_mset_insert set_mset_mset subset_insertI)
  with tk have ok1: "rt_ok F rt1 n \<and> flows rt rt1" unfolding rt1_def by (intro rt_ok_remove [OF ok]) simp_all
  have "dq_ticket req \<notin># tickets rt1" using rt_ok_once [OF ok, of "dq_ticket req"] tk by (simp add: not_in_iff)
  moreover have "dq_ticket r \<in># tickets rt1" if "r \<in> set (rl_pending rt1)" for r
    using that by (simp add: tickets_def)
  ultimately have "dq_ticket r \<noteq> dq_ticket req" if "r \<in> set (rl_pending rt1)" for r
    using that by metis
  moreover have "drops_only {dq_ticket req} (rl_core rt1) (complete (dq_ticket req) (OutcomeErr e) (rl_core rt))"
    using ok drops_complete by (simp add: rt1_def rt_ok_def roomy_def)
  ultimately have "rt_ok F rt2 n \<and> flows rt1 rt2"
    unfolding rt2_def using ok1 by (intro settle_ok [where T = "{dq_ticket req}"]) auto
  with ok1 flows_trans show ?thesis by blast
qed

context bounded_executor
begin

lemma retry_from_ok:
  "rt_ok F rt n \<Longrightarrow> rt_ok F (retry_from (logged V) kind index rt) n \<and> flows rt (retry_from (logged V) kind index rt)"
proof (induction "logged V" kind index rt rule: retry_from.induct)
  case (1 kind index rt)
  let ?req = "rl_pending rt ! index" and ?go = "retry_from (logged V) kind index"
  let ?rest = "take index (rl_pending rt) @ drop (index + 1) (rl_pending rt)"
  consider (stop) "\<not> index < length (rl_pending rt)"
    | (skip) "index < length (rl_pending rt)" "act_kind (dq_action ?req) \<noteq> kind"
    | (try_it) "index < length (rl_pending rt)" "act_kind (dq_action ?req) = kind" by blast
  then show ?case
  proof cases
    case stop
    with 1(4) show ?thesis by (simp add: retry_from.simps [of _ _ _ rt] flows_refl)
  next
    case skip
    with 1(1) [OF skip(1) refl skip(2) 1(4)] show ?thesis by (simp add: retry_from.simps [of _ _ index])
  next
    case try_it
    obtain res es where sub: "es_try_submit (logged V) ?req (rl_executors rt) = (res, es)" by force
    note out = take_out [OF try_it(1)] and step = retry_from.simps [of "logged V" kind index rt]
    let ?rt1 = "rt\<lparr>rl_pending := ?rest, rl_executors := es\<rparr>"
    from sub show ?thesis
    proof (cases rule: submit_cases)
      case accepted
      have "tickets ?rt1 \<subseteq># tickets rt" by (simp add: tickets_def out(1) accepted)
      note ok = rt_ok_remove [OF 1(4) out(2) this]
      from 1(2) [OF try_it(1) refl _ refl sub [symmetric]] accepted try_it(2) ok
      have "rt_ok F (?go ?rt1) n \<and> flows ?rt1 (?go ?rt1)" by simp
      with flows_trans [of rt ?rt1 "?go ?rt1"] ok have "rt_ok F (?go ?rt1) n \<and> flows rt (?go ?rt1)" by simp
      moreover have "?go rt = ?go ?rt1" using try_it sub accepted by (simp add: step Let_def)
      ultimately show ?thesis by simp
    next
      case full
      have "?go rt = rt\<lparr>rl_pending := rl_pending rt, rl_executors := es\<rparr>"
        using try_it sub full out(3) by (simp add: step Let_def)
      with rt_ok_remove [OF 1(4) order_refl, of es] full show ?thesis by (simp add: tickets_def)
    next
      case closed
      let ?rt2 = "snd (settle (logged V) (complete (dq_ticket ?req) (OutcomeErr ''executor closed before retry'')
        (rl_core rt)) ?rt1)"
      note ok = closed_ok [OF 1(4) out(1) closed(2), of V "''executor closed before retry''"]
      from 1(3) [OF try_it(1) refl _ refl sub [symmetric]] closed try_it(2) ok
      have "rt_ok F (?go ?rt2) n \<and> flows ?rt2 (?go ?rt2)" by simp
      with flows_trans [of rt ?rt2 "?go ?rt2"] ok have "rt_ok F (?go ?rt2) n \<and> flows rt (?go ?rt2)" by simp
      moreover have "?go rt = ?go ?rt2" using try_it sub closed by (simp add: step Let_def)
      ultimately show ?thesis by simp
    qed
  qed
qed

lemma retry_pending_ok:
  "rt_ok F rt n \<Longrightarrow> rt_ok F (retry_pending (logged V) kind rt) n \<and> flows rt (retry_pending (logged V) kind rt)"
  unfolding retry_pending_def by (rule retry_from_ok)

lemma rl_submit_ok:
  assumes ok: "rt_ok F rt (Suc n)"
  shows "rt_ok F (rl_submit (logged V) s a p rt) n \<and> flows rt (rl_submit (logged V) s a p rt)"
proof -
  obtain x c where sub: "submit s a (rl_core rt) = (x, c)" by force
  have room: "roomy (rl_core rt) (Suc n)" using ok by (simp add: rt_ok_def)
  show ?thesis
  proof (cases x)
    case (Inl e)
    with sub submit_refused [of s a "rl_core rt" e c]
    have same: "rl_core (rl_submit (logged V) s a p rt) = rl_core rt" "rl_pending (rl_submit (logged V) s a p rt) = rl_pending rt"
      "rl_executors (rl_submit (logged V) s a p rt) = rl_executors rt" by (simp_all add: rl_submit_def)
    with rt_ok_less [OF ok] show ?thesis by (simp add: rt_ok_def flows_def tickets_def)
  next
    case (Inr y)
    obtain t e where y: "y = (t, e)" by force
    note acc = submit_accepted [OF room sub [unfolded Inr y]]
    let ?req = "\<lparr>dq_ticket = t, dq_action = a, dq_completion = rl_completion rt\<rparr>"
    let ?at = "\<lambda>es. rt\<lparr>rl_core := c, rl_executors := es\<rparr>"
    obtain res es where try1: "es_try_submit (logged V) ?req (rl_executors rt) = (res, es)" by force
    let ?queued = "(?at es)\<lparr>rl_pending := rl_pending rt @ [?req]\<rparr>"
    have live: "dq_ticket req \<in> F \<or> hm_get (core_inflight c) (dq_ticket req) \<noteq> None" if "req \<in> set (rl_pending rt) \<or> dq_ticket req = t" for req
      using that acc(4) acc(6) [of "dq_ticket req"] ok by (cases "dq_ticket req = t") (auto simp: rt_ok_def)
    have step: "rt_ok F rt' n \<and> flows rt rt'" if "rl_core rt' = c" "tickets rt' \<subseteq># add_mset t (tickets rt)"
      "set (rl_pending rt') \<subseteq> insert ?req (set (rl_pending rt))" for rt'
    proof -
      have "flows rt rt'" using that(1,2) acc(1,2) by (simp add: flows_def)
      moreover have "rt_ok F rt' n"
      proof (rule rt_ok_flow [OF ok calculation])
        show "roomy (rl_core rt') n" using that(1) acc(3) by simp
        show "dq_ticket req \<in> F \<or> hm_get (core_inflight (rl_core rt')) (dq_ticket req) \<noteq> None" if "req \<in> set (rl_pending rt')" for req
          using that \<open>rl_core rt' = c\<close> \<open>set (rl_pending rt') \<subseteq> _\<close> by (metis (no_types) live dispatch_request.select_convs(1) insert_iff subset_iff)
      qed
      ultimately show ?thesis by simp
    qed
    note run = rl_submit_def [of "logged V" s a p rt]
    from try1 show ?thesis
    proof (cases rule: submit_cases)
      case accepted
      then show ?thesis using try1 sub by (intro step) (auto simp: run Inr y acc(5) Let_def tickets_def)
    next
      case full
      then show ?thesis using try1 sub by (intro step) (auto simp: run Inr y acc(5) Let_def tickets_def)
    next
      case closed
      have "rt_ok F ?queued n \<and> flows rt ?queued" using closed by (intro step) (auto simp: tickets_def)
      moreover from closed_ok [of F ?queued n ?req "rl_pending rt" es V] this
      have "rt_ok F (rl_submit (logged V) s a p rt) n \<and> flows ?queued (rl_submit (logged V) s a p rt)"
        using try1 sub closed by (simp add: run Inr y acc(5) Let_def rt_ok_def flows_def tickets_def)
      ultimately show ?thesis using flows_trans by blast
    qed
  qed
qed

end

section \<open>Shutdown\<close>

fun final_state :: "session_state \<Rightarrow> session_state" where
  "final_state Failed = Failed"
| "final_state st = Finished"

lemma state_take:
  "session_state_of (take_inflight s st ts (remove_from_ready s c)) =
     (session_state_of c)(s := map_option (\<lambda>_. st) (session_state_of c s))"
  by (auto simp: fun_eq_iff session_state_of_def take_inflight_def remove_from_ready_def hm_simps option.map_comp comp_def)

lemma state_finish:
  "session_state_of (snd (finish s c)) = (session_state_of c)(s := map_option final_state (session_state_of c s))"
proof (cases "hm_get (core_sessions c) s")
  case None
  then show ?thesis by (auto simp: finish_def session_state_of_def)
next
  case (Some r)
  have "session_state_of (snd (terminalize s Finished None c)) = (session_state_of c)(s \<mapsto> Finished)"
    using Some state_take [of s Finished "sess_inflight r" c]
    by (simp add: terminalize_def Let_def get_remove_from_ready session_state_of_def)
  with Some show ?thesis
    by (auto simp: finish_def fun_eq_iff split: session_state.split) (simp_all add: session_state_of_def)
qed

lemma state_cancel:
  "map_option final_state \<circ> session_state_of (snd (cancel s c)) = map_option final_state \<circ> session_state_of c"
  by (auto simp: cancel_def fun_eq_iff state_take split: option.split session_state.split)
    (auto simp: session_state_of_def)

lemma state_cancel_other: "u \<noteq> s \<Longrightarrow> session_state_of (snd (cancel s c)) u = session_state_of c u"
  by (auto simp: cancel_def state_take split: option.split session_state.split)

lemma shutdown_sessions_step:
  "shutdown_sessions V mode (s # ss) rt =
     (let rt1 = (if mode = ModeCancel then snd (settle V (cancel s (rl_core rt)) rt) else rt);
          out = finish s (rl_core rt1);
          rt2 = (case fst out of Inr es \<Rightarrow> apply_effects V es (rt1\<lparr>rl_core := snd out\<rparr>) | Inl e \<Rightarrow> rt1\<lparr>rl_core := snd out\<rparr>)
      in shutdown_sessions V mode ss rt2)"
  by (simp add: Let_def split: prod.split sum.split)

lemma shutdown_sessions_core:
  assumes "sched_inv (rl_core rt)"
  shows "sched_inv (rl_core (shutdown_sessions V mode ss rt)) \<and>
    core_next_session (rl_core (shutdown_sessions V mode ss rt)) = core_next_session (rl_core rt) \<and>
    core_next_ticket (rl_core (shutdown_sessions V mode ss rt)) = core_next_ticket (rl_core rt) \<and>
    session_state_of (rl_core (shutdown_sessions V mode ss rt)) =
      (\<lambda>s. if s \<in> set ss then map_option final_state (session_state_of (rl_core rt) s) else session_state_of (rl_core rt) s)"
  using assms
proof (induction ss arbitrary: rt)
  case Nil
  then show ?case by simp
next
  case (Cons s ss)
  let ?rt1 = "if mode = ModeCancel then snd (settle V (cancel s (rl_core rt)) rt) else rt"
  let ?out = "finish s (rl_core ?rt1)"
  let ?rt2 = "case fst ?out of Inr es \<Rightarrow> apply_effects V es (?rt1\<lparr>rl_core := snd ?out\<rparr>) | Inl e \<Rightarrow> ?rt1\<lparr>rl_core := snd ?out\<rparr>"
  define rt2 where "rt2 = ?rt2"
  have core: "rl_core rt2 = snd (finish s (if mode = ModeCancel then snd (cancel s (rl_core rt)) else rl_core rt))"
    by (auto simp: rt2_def settle_sel(1) split: sum.split)
  have inv: "sched_inv (rl_core rt2)" unfolding core using Cons.prems by (simp add: inv_finish inv_cancel)
  have counters: "core_next_session (rl_core rt2) = core_next_session (rl_core rt)"
    "core_next_ticket (rl_core rt2) = core_next_ticket (rl_core rt)" by (simp_all add: core)
  have state: "session_state_of (rl_core rt2) u =
      (if u = s then map_option final_state (session_state_of (rl_core rt) s) else session_state_of (rl_core rt) u)" for u
    unfolding core state_finish using state_cancel [of s "rl_core rt"] state_cancel_other [of u s "rl_core rt"]
    by (auto simp: fun_eq_iff)
  have "final_state (final_state st) = final_state st" for st by (cases st) simp_all
  then have final: "map_option final_state (map_option final_state x) = map_option final_state x" for x
    by (simp add: option.map_comp comp_def)
  have run: "shutdown_sessions V mode (s # ss) rt = shutdown_sessions V mode ss rt2"
    unfolding shutdown_sessions_step Let_def rt2_def ..
  show ?case
    unfolding run using Cons.IH [OF inv] by (auto simp: state counters final)
qed

lemma handed_sessions [simp]:
  "handed (rl_executors (shutdown_sessions (logged V) mode ss rt)) = handed (rl_executors rt)"
proof (induction ss arbitrary: rt)
  case (Cons s ss)
  then show ?case
    by (simp add: shutdown_sessions_step Let_def settle_sel(2) del: shutdown_sessions.simps split: sum.split)
qed simp

lemma handed_shutdown [simp]: "handed (es_shutdown (logged V) es) = handed es"
  by (simp add: handed_def es_shutdown_def logged_def split: prod.split)

lemma shutdown_ok:
  assumes ok: "rt_ok F rt n"
  shows "rt_ok F (rl_shutdown (logged V) mode p rt) n \<and> flows rt (rl_shutdown (logged V) mode p rt)"
proof -
  let ?rt = "rl_shutdown (logged V) mode p rt"
  have inv: "sched_inv (rl_core rt)" using ok by (simp add: rt_ok_def roomy_def)
  note core = shutdown_sessions_core [OF inv, of "logged V" mode "session_ids (rl_core rt)"]
  have sel: "rl_core ?rt = rl_core (shutdown_sessions (logged V) mode (session_ids (rl_core rt)) rt)"
    "rl_pending ?rt = []" "handed (rl_executors ?rt) = handed (rl_executors rt)"
    by (simp_all add: rl_shutdown_def Let_def)
  have "flows rt ?rt" using core by (simp add: flows_def tickets_def sel)
  moreover from rt_ok_flow [OF ok this, of n] core ok have "rt_ok F ?rt n" by (simp add: sel rt_ok_def roomy_def)
  ultimately show ?thesis by simp
qed

lemma ok_replies [simp]:
  "rt_ok F (reply_send p r rt) n = rt_ok F rt n" "flows rt0 (reply_send p r rt) = flows rt0 rt"
  "rt_ok F (respond_effects res p rt) n = rt_ok F rt n" "flows rt0 (respond_effects res p rt) = flows rt0 rt"
  "rt_ok F (rt\<lparr>rl_draining := d\<rparr>) n = rt_ok F rt n" "flows rt0 (rt\<lparr>rl_draining := d\<rparr>) = flows rt0 rt"
  "rt_ok F (rt\<lparr>rl_shutdown_reply := q\<rparr>) n = rt_ok F rt n" "flows rt0 (rt\<lparr>rl_shutdown_reply := q\<rparr>) = flows rt0 rt"
  "flows (rt0\<lparr>rl_shutdown_reply := q\<rparr>) rt = flows rt0 rt"
  by (simp_all add: rt_ok_def flows_def tickets_def)

lemma ok_then:
  assumes "rt_ok F rt n \<and> flows rt0 rt" "rt_ok F rt n \<Longrightarrow> rt_ok F rt' n \<and> flows rt rt'"
  shows "rt_ok F rt' n \<and> flows rt0 rt'"
  using assms flows_trans by blast

lemma core_ok:
  assumes "rt_ok F rt n" "roomy c m" "core_inflight c = core_inflight (rl_core rt)"
    "core_next_ticket c = core_next_ticket (rl_core rt)"
  shows "rt_ok F (rt\<lparr>rl_core := c\<rparr>) m \<and> flows rt (rt\<lparr>rl_core := c\<rparr>)"
  using assms by (simp add: rt_ok_def flows_def tickets_def)

lemma same_inflight [simp]:
  "core_inflight (snd (block s c)) = core_inflight c" "core_inflight (snd (wake s c)) = core_inflight c"
  "core_inflight (snd (create_session c)) = core_inflight c" "core_next_ticket (snd (create_session c)) = core_next_ticket c"
  by (auto simp: block_def wake_def create_session_def alloc_session_id_def Let_def
      split: option.split session_state.split)

text \<open>The ticket of a completion that arrives while its request still waits for capacity.\<close>

definition premature :: "runtime_command \<Rightarrow> 'x runtime_loop \<Rightarrow> ticket set" where
  "premature cmd rt =
     (case cmd of CmdComplete t out p \<Rightarrow> {t} \<inter> dq_ticket ` set (rl_pending rt) | _ \<Rightarrow> {})"

lemma settled_ok:
  assumes ok: "rt_ok F rt n" and run: "settle (logged V) out rt = (res, rt')" and drops: "drops_only T (rl_core rt) out"
    and T: "\<And>req. req \<in> set (rl_pending rt) \<Longrightarrow> dq_ticket req \<notin> T \<or> dq_ticket req \<in> F"
  shows "rt_ok F rt' n \<and> flows rt rt'"
  using settle_ok [OF ok drops, of V] T by (simp add: run)

context bounded_executor
begin

lemma handle_ok:
  assumes before: "rt_ok F0 rt (Suc n)" and grow: "F0 \<union> premature cmd rt \<subseteq> F"
  shows "rt_ok F (snd (handle (logged V) cmd rt)) n \<and> flows rt (snd (handle (logged V) cmd rt))"
proof -
  have ok: "rt_ok F rt (Suc n)" using rt_ok_mono [OF before] grow by blast
  have ok0: "rt_ok F rt n" by (rule rt_ok_less [OF ok])
  then have inv: "sched_inv (rl_core rt)" and start: "rt_ok F rt n \<and> flows rt rt"
    by (simp_all add: rt_ok_def roomy_def flows_refl)
  have room: "roomy (rl_core rt) (Suc n)" using ok by (simp add: rt_ok_def)
  note drops = drops_session [OF inv]
  show ?thesis
  proof (cases cmd)
    case (CmdCreateSession p)
    have "roomy (snd (create_session (rl_core rt))) n"
      using sm.room_step [OF room, of CreateSession] by simp
    from core_ok [OF ok this] start show ?thesis unfolding CmdCreateSession by (simp add: split_def)
  next
    case (CmdSubmit s a p)
    then show ?thesis using rl_submit_ok [OF ok] start by simp
  next
    case (CmdBlock s p)
    have "roomy (snd (block s (rl_core rt))) n" using sm.room_step [OF room, of "Block s"] by simp
    from core_ok [OF ok this] show ?thesis unfolding CmdBlock by (simp add: split_def)
  next
    case (CmdWake s p)
    have "roomy (snd (wake s (rl_core rt))) n" using sm.room_step [OF room, of "Wake s"] by simp
    from core_ok [OF ok this] show ?thesis unfolding CmdWake by (simp add: split_def)
  next
    case (CmdComplete t out p)
    obtain res rt1 where settled: "settle (logged V) (complete t out (rl_core rt)) rt = (res, rt1)" by force
    have "rt_ok F rt1 n \<and> flows rt rt1"
      by (rule settled_ok [OF ok0 settled drops_complete [OF inv]]) (use grow CmdComplete in \<open>auto simp: premature_def\<close>)
    then have "rt_ok F (case p of None \<Rightarrow> rt1 | Some port \<Rightarrow> respond_effects res port rt1) n
        \<and> flows rt (case p of None \<Rightarrow> rt1 | Some port \<Rightarrow> respond_effects res port rt1)"
      by (cases p) simp_all
    from ok_then [OF ok_then [OF ok_then [OF this retry_pending_ok] retry_pending_ok] retry_pending_ok]
    show ?thesis unfolding CmdComplete by (simp add: settled)
  next
    case (CmdCancel s p)
    from settle_ok [OF ok0 drops(1)] show ?thesis unfolding CmdCancel by (simp add: split_def)
  next
    case (CmdFinish s p)
    from settle_ok [OF ok0 drops(2)] show ?thesis unfolding CmdFinish by (simp add: split_def)
  next
    case (CmdFail s e p)
    from settle_ok [OF ok0 drops(3)] show ?thesis unfolding CmdFail by (simp add: split_def)
  next
    case (CmdExecutorReady k)
    then show ?thesis using retry_pending_ok [OF ok0] by simp
  next
    case (CmdShutdown mode p)
    then show ?thesis using shutdown_ok [OF ok0] start by simp
  qed
qed

lemma end_of_burst_ok:
  "rt_ok F rt n \<Longrightarrow> rt_ok F (snd (end_of_burst (logged V) rt)) n \<and> flows rt (snd (end_of_burst (logged V) rt))"
  using shutdown_ok [of F "rt\<lparr>rl_shutdown_reply := None\<rparr>" n V ModeDrain]
  by (simp add: end_of_burst_def flows_refl)

end

lemma replies_apply [simp]: "rl_replies (apply_effects V es rt) = rl_replies rt"
  by (induction V es rt rule: apply_effects.induct) (simp_all split: effect.split)

lemma replies_remove [simp]: "rl_replies (remove_cancelled es rt) = rl_replies rt"
  by (induction es rt rule: remove_cancelled.induct) (simp_all split: effect.split)

lemma replies_settle [simp]: "rl_replies (snd (settle V out rt)) = rl_replies rt"
  by (simp add: settle_def split: prod.split sum.split)

lemma replies_sessions [simp]: "rl_replies (shutdown_sessions V mode ss rt) = rl_replies rt"
proof (induction ss arbitrary: rt)
  case (Cons s ss)
  then show ?case by (simp add: shutdown_sessions_step Let_def del: shutdown_sessions.simps split: sum.split)
qed simp

text \<open>When every session has ended, nothing is live and nothing is queued.\<close>

lemma all_final_empty:
  assumes inv: "sched_inv c" and final: "\<And>s. \<exists>x. session_state_of c s = map_option final_state x"
  shows "core_inflight c = [] \<and> core_ready c = []"
proof -
  have ended: "sess_state r \<in> {Finished, Failed}" if "hm_get (core_sessions c) s = Some r" for s r
  proof -
    obtain x where "session_state_of c s = map_option final_state x" using final by blast
    with that obtain st where "sess_state r = final_state st" by (cases x) (auto simp: session_state_of_def)
    then show ?thesis by (cases st) simp_all
  qed
  have "hm_get (core_inflight c) t = None" for t
  proof (rule ccontr)
    assume "hm_get (core_inflight c) t \<noteq> None"
    then obtain s g where "hm_get (core_inflight c) t = Some (s, g)" by auto
    from inv_ticket [OF inv this] obtain r where r: "hm_get (core_sessions c) s = Some r" "t \<in> set (sess_inflight r)"
      by (auto simp: ticket_ok_def)
    with inv_session [OF inv r(1)] ended [OF r(1)] show False by (auto simp: session_ok_def)
  qed
  then have "hm_get (core_inflight c) = Map.empty" by blast
  then have "core_inflight c = []" by simp
  moreover have "s \<notin> set (core_ready c)" for s
  proof
    assume s: "s \<in> set (core_ready c)"
    with inv obtain r where r: "hm_get (core_sessions c) s = Some r" by (auto simp: sched_inv_def)
    with inv_session [OF inv r] ended [OF r] s show False by (auto simp: session_ok_def)
  qed
  ultimately show ?thesis by (metis list.set_intros(1) neq_Nil_conv)
qed

section \<open>Runs\<close>

text \<open>
  The owner thread handles a command, ends a burst, or the lanes move on by
  themselves, which leaves what they have accepted as it is.  The number counts
  the commands the identifiers have room for.  The set collects the tickets that a
  completion named while their request was waiting in the runtime: an executor
  completes only what it was handed, but the command is open to any client.
\<close>

inductive rt_run ::
  "'x executor_ops \<Rightarrow> ('x \<times> dispatch_request list) runtime_loop \<Rightarrow> nat \<Rightarrow>
     ('x \<times> dispatch_request list) runtime_loop \<Rightarrow> nat \<Rightarrow> ticket set \<Rightarrow> bool"
  for V rt0 n0 where
  here: "rt_run V rt0 n0 rt0 n0 {}"
| handled: "\<lbrakk>rt_run V rt0 n0 rt (Suc n) F; handle (logged V) cmd rt = (stop, rt')\<rbrakk> \<Longrightarrow>
     rt_run V rt0 n0 rt' n (F \<union> premature cmd rt)"
| burst: "\<lbrakk>rt_run V rt0 n0 rt n F; end_of_burst (logged V) rt = (stop, rt')\<rbrakk> \<Longrightarrow> rt_run V rt0 n0 rt' n F"
| lanes: "\<lbrakk>rt_run V rt0 n0 rt n F; handed es = handed (rl_executors rt)\<rbrakk> \<Longrightarrow>
     rt_run V rt0 n0 (rt\<lparr>rl_executors := es\<rparr>) n F"

context bounded_executor
begin

lemma run_ok: "rt_run V rt0 n0 rt n F \<Longrightarrow> rt_ok F0 rt0 n0 \<Longrightarrow> rt_ok (F0 \<union> F) rt n \<and> flows rt0 rt"
proof (induction rule: rt_run.induct)
  case here
  then show ?case by (simp add: flows_refl)
next
  case (handled rt n F cmd stop rt')
  then have "rt_ok (F0 \<union> F) rt (Suc n)" by blast
  from handle_ok [OF this, of cmd "F0 \<union> (F \<union> premature cmd rt)"] handled flows_trans show ?case by auto
next
  case (burst rt n F stop rt')
  then show ?case using end_of_burst_ok [of "F0 \<union> F" rt n] flows_trans by auto
next
  case (lanes rt n F es)
  then show ?case by (simp add: rt_ok_def flows_def tickets_def)
qed

lemma new_loop_ok: "handed es = {#} \<Longrightarrow> n \<le> u64_max \<Longrightarrow> rt_ok {} (new_loop sink b es) n"
  using roomy_new [of n b] by (simp add: rt_ok_def tickets_def new_loop_def)

lemma revoked_stays_out:
  assumes ok: "rt_ok F rt n" and run: "rt_run V rt n rt' n' F'" and "stale t (rl_core rt)" "t \<notin> F"
    "t \<notin># handed (rl_executors rt)"
  shows "t \<notin># handed (rl_executors rt')"
proof -
  have "t \<notin># tickets rt" using assms by (auto simp: tickets_def rt_ok_def stale_def)
  moreover have "t \<notin># issued (core_next_ticket (rl_core rt)) (core_next_ticket (rl_core rt'))"
    using assms(3) by (simp add: stale_def)
  moreover have "tickets rt' \<subseteq># tickets rt + issued (core_next_ticket (rl_core rt)) (core_next_ticket (rl_core rt'))"
    using run_ok [OF run ok] by (simp add: flows_def)
  ultimately have "t \<notin># tickets rt'" by (meson mset_subset_eqD union_iff)
  then show ?thesis by (simp add: tickets_def)
qed

end

end
