(* ===== verification/Executor.thy ===== *)
theory Executor
  imports Runtime_Props Residency
begin

text \<open>
  The CPU executor (\<^verbatim>\<open>logan-core/src/sched/executor.rs\<close>): a fixed pool of worker
  threads, a bounded queue under a mutex with a condition variable, a queue of
  completion records, and a queue of reports that could not be delivered.

  A worker is a program counter, and \<open>worker_step\<close> is its next step at the
  granularity of the locks: between two steps of a worker every other thread
  may run.  The handler and the answers of the completion channel are chosen
  anew at every step; a handler returns, with any outcome.  Events record what
  crosses the boundary of the executor.
\<close>

section \<open>Data\<close>

record cpu_config =
  cc_workers :: nat
  cc_queue_capacity :: nat

text \<open>The argument is what \<^verbatim>\<open>available_parallelism\<close> reports, if it can tell.\<close>

definition default_cpu_config :: "nat option \<Rightarrow> cpu_config" where
  "default_cpu_config parallelism =
     \<lparr>cc_workers = (case parallelism of Some n \<Rightarrow> n | None \<Rightarrow> 1), cc_queue_capacity = 64\<rparr>"

datatype executor_config_error = ZeroWorkers | ZeroQueueCapacity

record job =
  jb_ticket :: ticket
  jb_action :: action
  jb_retained :: "lease list"
  jb_completion :: "completion_sink option"

record completed =
  cd_ticket :: ticket
  cd_outcome :: outcome
  cd_released :: "lease list"

datatype submit_outcome = JobAccepted | JobFull job | JobClosed job

type_synonym parked = "completion_sink \<times> ticket \<times> outcome"

datatype worker_pc =
    WTop                         \<comment> \<open>about to call \<open>retry_parked\<close>\<close>
  | WRetry "parked list"         \<comment> \<open>the entries it took, still to report\<close>
  | WLock                        \<comment> \<open>about to take the queue lock, or take it again after a wake-up\<close>
  | WEmpty                       \<comment> \<open>holds the lock, the queue is empty, about to read the flag\<close>
  | WWillWait                    \<comment> \<open>holds the lock, has read the flag as unset\<close>
  | WWaiting                     \<comment> \<open>in \<open>Condvar::wait\<close>, the lock is released\<close>
  | WRun job
  | WRecord job outcome
  | WReport job outcome
  | WExited

datatype shutdown_phase = ShNone | ShFlag | ShJoin | ShDone

record cpu_executor =
  ce_queue :: "job list"
  ce_shutting_down :: bool
  ce_completed :: "completed list"
  ce_queue_capacity :: nat
  ce_pending_sink :: "parked list"
  ce_workers :: "worker_pc list"
  ce_phase :: shutdown_phase

definition new_executor :: "cpu_config \<Rightarrow> executor_config_error + cpu_executor" where
  "new_executor cfg =
     (if cc_workers cfg = 0 then Inl ZeroWorkers
      else if cc_queue_capacity cfg = 0 then Inl ZeroQueueCapacity
      else Inr \<lparr>ce_queue = [], ce_shutting_down = False, ce_completed = [],
                ce_queue_capacity = cc_queue_capacity cfg, ce_pending_sink = [],
                ce_workers = replicate (cc_workers cfg) WTop, ce_phase = ShNone\<rparr>)"

definition worker_count :: "cpu_executor \<Rightarrow> nat" where
  "worker_count e = length (ce_workers e)"

definition queued_len :: "cpu_executor \<Rightarrow> nat" where
  "queued_len e = length (ce_queue e)"

section \<open>Client operations\<close>

text \<open>\<^verbatim>\<open>notify_one\<close> wakes one waiting worker; which one is the first argument.\<close>

definition notify_one :: "nat option \<Rightarrow> worker_pc list \<Rightarrow> worker_pc list" where
  "notify_one w ws =
     (case w of
        Some i \<Rightarrow> if i < length ws \<and> ws ! i = WWaiting then ws[i := WLock] else ws
      | None \<Rightarrow> ws)"

definition one_waiter :: "nat option \<Rightarrow> worker_pc list \<Rightarrow> bool" where
  "one_waiter w ws \<longleftrightarrow>
     (case w of Some i \<Rightarrow> i < length ws \<and> ws ! i = WWaiting | None \<Rightarrow> WWaiting \<notin> set ws)"

definition notify_all :: "worker_pc list \<Rightarrow> worker_pc list" where
  "notify_all ws = map (\<lambda>p. if p = WWaiting then WLock else p) ws"

definition try_submit_job :: "nat option \<Rightarrow> job \<Rightarrow> cpu_executor \<Rightarrow> submit_outcome \<times> cpu_executor" where
  "try_submit_job w j e =
     (if ce_shutting_down e then (JobClosed j, e)
      else if ce_queue_capacity e \<le> length (ce_queue e) then (JobFull j, e)
      else (JobAccepted, e\<lparr>ce_queue := ce_queue e @ [j], ce_workers := notify_one w (ce_workers e)\<rparr>))"

text \<open>The first queued job with the ticket, and the queue without it.\<close>

fun remove_job :: "ticket \<Rightarrow> job list \<Rightarrow> (job \<times> job list) option" where
  "remove_job t [] = None"
| "remove_job t (j # js) =
     (if jb_ticket j = t then Some (j, js)
      else map_option (\<lambda>(found, rest). (found, j # rest)) (remove_job t js))"

definition cancel_record :: "ticket \<Rightarrow> job \<Rightarrow> completed" where
  "cancel_record t j = \<lparr>cd_ticket = t, cd_outcome = OutcomeErr ''cancelled before dispatch'', cd_released = jb_retained j\<rparr>"

definition cancel_queued :: "ticket \<Rightarrow> cpu_executor \<Rightarrow> bool \<times> cpu_executor" where
  "cancel_queued t e =
     (case remove_job t (ce_queue e) of
        None \<Rightarrow> (False, e)
      | Some (j, q) \<Rightarrow>
          (True, e\<lparr>ce_queue := q,
             ce_completed := (if jb_retained j \<noteq> [] then ce_completed e @ [cancel_record t j] else ce_completed e)\<rparr>))"

definition drain_completed :: "cpu_executor \<Rightarrow> completed list \<times> cpu_executor" where
  "drain_completed e = (ce_completed e, e\<lparr>ce_completed := []\<rparr>)"

text \<open>
  \<^verbatim>\<open>shutdown\<close> in its three steps: the store of the flag, \<^verbatim>\<open>notify_all\<close>, and the
  join of the workers, which returns when all of them have ended.
\<close>

definition shutdown_store :: "cpu_executor \<Rightarrow> cpu_executor" where
  "shutdown_store e = e\<lparr>ce_shutting_down := True, ce_phase := ShFlag\<rparr>"

definition shutdown_notify :: "cpu_executor \<Rightarrow> cpu_executor" where
  "shutdown_notify e = e\<lparr>ce_workers := notify_all (ce_workers e), ce_phase := ShJoin\<rparr>"

definition shutdown_join :: "cpu_executor \<Rightarrow> cpu_executor option" where
  "shutdown_join e =
     (if list_all (\<lambda>p. p = WExited) (ce_workers e) then Some (e\<lparr>ce_workers := [], ce_phase := ShDone\<rparr>) else None)"

section \<open>The executor as a lane\<close>

definition job_of_request :: "dispatch_request \<Rightarrow> job" where
  "job_of_request req = \<lparr>jb_ticket = dq_ticket req, jb_action = dq_action req, jb_retained = [],
     jb_completion = Some (dq_completion req)\<rparr>"

text \<open>\<^verbatim>\<open>into_request\<close>; \<open>None\<close> is the panic on a job without a sink.\<close>

definition into_request :: "job \<Rightarrow> dispatch_request option" where
  "into_request j =
     map_option (\<lambda>sink. \<lparr>dq_ticket = jb_ticket j, dq_action = jb_action j, dq_completion = sink\<rparr>) (jb_completion j)"

definition first_waiter :: "worker_pc list \<Rightarrow> nat option" where
  "first_waiter ws = List.find (\<lambda>i. ws ! i = WWaiting) [0..<length ws]"

definition cpu_try_submit :: "dispatch_request \<Rightarrow> cpu_executor \<Rightarrow> submit_result \<times> cpu_executor" where
  "cpu_try_submit req e =
     (case try_submit_job (first_waiter (ce_workers e)) (job_of_request req) e of
        (JobAccepted, e') \<Rightarrow> (SubAccepted, e')
      | (JobFull j, e') \<Rightarrow> (SubFull (the (into_request j)), e')
      | (JobClosed j, e') \<Rightarrow> (SubClosed (the (into_request j)), e'))"

definition cpu_ops :: "cpu_executor executor_ops" where
  "cpu_ops = \<lparr>op_try_submit = cpu_try_submit, op_try_cancel = cancel_queued,
     op_shutdown = (\<lambda>e. shutdown_notify (shutdown_store e))\<rparr>"

lemma into_request_of [simp]: "into_request (job_of_request req) = Some req"
  by (simp add: into_request_def job_of_request_def)

interpretation cpu: bounded_executor cpu_ops
  by unfold_locales
    (auto simp: cpu_ops_def cpu_try_submit_def try_submit_job_def split: if_splits)

section \<open>Workers\<close>

datatype report = Delivered | Parked | Dropped

text \<open>The retry loop of \<^verbatim>\<open>report_to_sink\<close>; \<open>env n\<close> is the answer to attempt \<open>n\<close>.\<close>

function report_loop :: "(nat \<Rightarrow> send_error + unit) \<Rightarrow> nat \<Rightarrow> report" where
  "report_loop env attempts =
     (case env attempts of
        Inr _ \<Rightarrow> Delivered
      | Inl SendFull \<Rightarrow> if attempts < 8 then report_loop env (attempts + 1) else Parked
      | Inl SendClosed \<Rightarrow> Dropped)"
  by pat_completeness auto

termination report_loop
  by (relation "measure (\<lambda>(env, attempts). 9 - attempts)") auto

declare report_loop.simps [simp del]

datatype exec_event =
    EvAccepted job
  | EvCancelled job
  | EvDrained "completed list"
  | EvSent parked
  | EvDropped parked
  | EvSpurious

definition report_to_sink ::
  "(nat \<Rightarrow> send_error + unit) \<Rightarrow> parked \<Rightarrow> cpu_executor \<Rightarrow> exec_event list \<times> cpu_executor" where
  "report_to_sink env p e =
     (case report_loop env 0 of
        Delivered \<Rightarrow> ([EvSent p], e)
      | Parked \<Rightarrow> ([], e\<lparr>ce_pending_sink := ce_pending_sink e @ [p]\<rparr>)
      | Dropped \<Rightarrow> ([EvDropped p], e))"

definition lock_free :: "cpu_executor \<Rightarrow> bool" where
  "lock_free e \<longleftrightarrow> list_all (\<lambda>p. p \<noteq> WEmpty \<and> p \<noteq> WWillWait) (ce_workers e)"

definition goto :: "nat \<Rightarrow> worker_pc \<Rightarrow> cpu_executor \<Rightarrow> cpu_executor" where
  "goto i p e = e\<lparr>ce_workers := (ce_workers e)[i := p]\<rparr>"

definition needs_record :: "job \<Rightarrow> bool" where
  "needs_record j \<longleftrightarrow> jb_completion j = None \<or> jb_retained j \<noteq> []"

definition job_record :: "job \<Rightarrow> outcome \<Rightarrow> completed" where
  "job_record j out = \<lparr>cd_ticket = jb_ticket j, cd_outcome = out, cd_released = jb_retained j\<rparr>"

text \<open>The first half of \<^verbatim>\<open>retry_parked\<close>: it takes every parked report under the lock.\<close>

definition take_parked :: "nat \<Rightarrow> cpu_executor \<Rightarrow> cpu_executor" where
  "take_parked i e = goto i (WRetry (ce_pending_sink e)) (e\<lparr>ce_pending_sink := []\<rparr>)"

declare take_parked_def [simp]

text \<open>The next step of worker \<open>i\<close>; \<open>None\<close> when it cannot move.\<close>

definition worker_step ::
  "(action \<Rightarrow> outcome) \<Rightarrow> (nat \<Rightarrow> send_error + unit) \<Rightarrow> nat \<Rightarrow> cpu_executor \<Rightarrow> (exec_event list \<times> cpu_executor) option" where
  "worker_step handler env i e =
     (case ce_workers e ! i of
        WTop \<Rightarrow> Some ([], take_parked i e)
      | WRetry [] \<Rightarrow> Some ([], goto i WLock e)
      | WRetry (p # ps) \<Rightarrow> Some (report_to_sink env p (goto i (WRetry ps) e))
      | WLock \<Rightarrow>
          if \<not> lock_free e then None
          else (case ce_queue e of
                  j # q \<Rightarrow> Some ([], goto i (WRun j) (e\<lparr>ce_queue := q\<rparr>))
                | [] \<Rightarrow> Some ([], goto i WEmpty e))
      | WEmpty \<Rightarrow> Some ([], goto i (if ce_shutting_down e then WExited else WWillWait) e)
      | WWillWait \<Rightarrow> Some ([], goto i WWaiting e)
      | WWaiting \<Rightarrow> None
      | WRun j \<Rightarrow> Some ([], goto i (WRecord j (handler (jb_action j))) e)
      | WRecord j out \<Rightarrow>
          Some ([], goto i (WReport j out)
            (if needs_record j then e\<lparr>ce_completed := ce_completed e @ [job_record j out]\<rparr> else e))
      | WReport j out \<Rightarrow>
          (case jb_completion j of
             None \<Rightarrow> Some ([], goto i WTop e)
           | Some sink \<Rightarrow> Some (report_to_sink env (sink, jb_ticket j, out) (goto i WTop e)))
      | WExited \<Rightarrow> None)"

text \<open>
  One step of the whole: a worker; a wake-up without a cause, which the standard
  library allows; a client call, which the exclusive borrow of \<^verbatim>\<open>shutdown\<close> keeps
  out while a shutdown runs; or the next step of a shutdown.
\<close>

inductive exec_step :: "cpu_executor \<Rightarrow> exec_event list \<Rightarrow> cpu_executor \<Rightarrow> bool" where
  worker: "\<lbrakk>i < length (ce_workers e); worker_step handler env i e = Some (evs, e')\<rbrakk> \<Longrightarrow> exec_step e evs e'"
| spurious: "\<lbrakk>i < length (ce_workers e); ce_workers e ! i = WWaiting\<rbrakk> \<Longrightarrow> exec_step e [EvSpurious] (goto i WLock e)"
| submit: "\<lbrakk>ce_phase e \<in> {ShNone, ShDone}; lock_free e; one_waiter w (ce_workers e);
     try_submit_job w j e = (res, e')\<rbrakk> \<Longrightarrow> exec_step e (if res = JobAccepted then [EvAccepted j] else []) e'"
| cancel: "\<lbrakk>ce_phase e \<in> {ShNone, ShDone}; lock_free e; remove_job t (ce_queue e) = Some (j, q);
     cancel_queued t e = (True, e')\<rbrakk> \<Longrightarrow> exec_step e [EvCancelled j] e'"
| drain: "\<lbrakk>ce_phase e \<in> {ShNone, ShDone}; drain_completed e = (cs, e')\<rbrakk> \<Longrightarrow> exec_step e [EvDrained cs] e'"
| store: "ce_phase e = ShNone \<Longrightarrow> exec_step e [] (shutdown_store e)"
| notify: "ce_phase e = ShFlag \<Longrightarrow> exec_step e [] (shutdown_notify e)"
| join: "\<lbrakk>ce_phase e = ShJoin; shutdown_join e = Some e'\<rbrakk> \<Longrightarrow> exec_step e [] e'"

inductive exec_reach :: "cpu_config \<Rightarrow> exec_event list \<Rightarrow> cpu_executor \<Rightarrow> bool" for cfg where
  start: "new_executor cfg = Inr e \<Longrightarrow> exec_reach cfg [] e"
| step: "\<lbrakk>exec_reach cfg evs e; exec_step e evs' e'\<rbrakk> \<Longrightarrow> exec_reach cfg (evs @ evs') e'"

section \<open>Nothing is lost or duplicated\<close>

text \<open>
  A quantity that a job carries through the executor: \<open>wq\<close> while it is queued,
  runs or waits for its record, \<open>wr\<close> while it waits for its report, \<open>wp\<close> in a
  report that is parked or sent, \<open>wc\<close> in a completion record, \<open>wx\<close> when the job
  is cancelled in the queue.  The laws say that each hand-over keeps the quantity.
\<close>

locale conserved =
  fixes wq wr :: "job \<Rightarrow> 'a multiset" and wp :: "parked \<Rightarrow> 'a multiset" and wc :: "completed \<Rightarrow> 'a multiset"
    and wx :: "job \<Rightarrow> 'a multiset"
  assumes recorded: "wq j = wr j + (if needs_record j then wc (job_record j out) else {#})"
    and reported: "wr j = (case jb_completion j of None \<Rightarrow> {#} | Some sink \<Rightarrow> wp (sink, jb_ticket j, out))"
    and cancelled: "wq j = wx j + (if jb_retained j \<noteq> [] then wc (cancel_record (jb_ticket j) j) else {#})"

fun carried ::
  "(job \<Rightarrow> 'a multiset) \<Rightarrow> (job \<Rightarrow> 'a multiset) \<Rightarrow> (parked \<Rightarrow> 'a multiset) \<Rightarrow> worker_pc \<Rightarrow> 'a multiset" where
  "carried wq wr wp (WRun j) = wq j"
| "carried wq wr wp (WRecord j out) = wq j"
| "carried wq wr wp (WReport j out) = wr j"
| "carried wq wr wp (WRetry ps) = sum_list (map wp ps)"
| "carried wq wr wp _ = {#}"

definition inside ::
  "(job \<Rightarrow> 'a multiset) \<Rightarrow> (job \<Rightarrow> 'a multiset) \<Rightarrow> (parked \<Rightarrow> 'a multiset) \<Rightarrow> (completed \<Rightarrow> 'a multiset) \<Rightarrow>
     cpu_executor \<Rightarrow> 'a multiset" where
  "inside wq wr wp wc e =
     sum_list (map wq (ce_queue e)) + sum_list (map (carried wq wr wp) (ce_workers e)) +
     sum_list (map wp (ce_pending_sink e)) + sum_list (map wc (ce_completed e))"

fun came_in :: "(job \<Rightarrow> 'a multiset) \<Rightarrow> exec_event \<Rightarrow> 'a multiset" where
  "came_in wq (EvAccepted j) = wq j"
| "came_in wq _ = {#}"

fun went_out ::
  "(parked \<Rightarrow> 'a multiset) \<Rightarrow> (completed \<Rightarrow> 'a multiset) \<Rightarrow> (job \<Rightarrow> 'a multiset) \<Rightarrow> exec_event \<Rightarrow> 'a multiset" where
  "went_out wp wc wx (EvSent p) = wp p"
| "went_out wp wc wx (EvDropped p) = wp p"
| "went_out wp wc wx (EvDrained cs) = sum_list (map wc cs)"
| "went_out wp wc wx (EvCancelled j) = wx j"
| "went_out wp wc wx _ = {#}"

lemma sum_list_goto:
  fixes f :: "'b \<Rightarrow> 'a multiset"
  assumes "i < length ws"
  shows "sum_list (map f (ws[i := p])) + f (ws ! i) = sum_list (map f ws) + f p"
  using assms
proof (induction ws arbitrary: i)
  case (Cons w ws)
  then show ?case by (cases i) (simp_all add: add.assoc add.commute [of _ "f w"] add.left_commute)
qed simp

lemma goto_sel [simp]:
  "ce_queue (goto i p e) = ce_queue e" "ce_completed (goto i p e) = ce_completed e"
  "ce_pending_sink (goto i p e) = ce_pending_sink e" "ce_shutting_down (goto i p e) = ce_shutting_down e"
  "ce_phase (goto i p e) = ce_phase e" "ce_workers (goto i p e) = (ce_workers e)[i := p]"
  by (simp_all add: goto_def)

lemma remove_job_tally:
  "remove_job t q = Some (j, q') \<Longrightarrow> jb_ticket j = t \<and> sum_list (map f q) = f j + sum_list (map f q')"
  for f :: "job \<Rightarrow> 'a multiset"
  by (induction q arbitrary: q') (auto split: if_splits simp: add.left_commute)

lemma carried_wake: "sum_list (map (carried wq wr wp) (notify_all ws)) = sum_list (map (carried wq wr wp) ws)"
  by (induction ws) (simp_all add: notify_all_def)

lemma carried_one: "one_waiter w ws \<Longrightarrow>
  sum_list (map (carried wq wr wp) (notify_one w ws)) = sum_list (map (carried wq wr wp) ws)"
  using sum_list_goto [of "the w" ws "carried wq wr wp" WLock]
  by (auto simp: notify_one_def one_waiter_def split: option.splits)

context conserved
begin

lemma report_total:
  assumes "report_to_sink env p e = (evs, e')"
  shows "inside wq wr wp wc e + wp p = inside wq wr wp wc e' + sum_list (map (went_out wp wc wx) evs)
    \<and> sum_list (map (came_in wq) evs) = {#}"
  using assms by (auto simp: report_to_sink_def inside_def ac_simps split: report.splits)

lemma goto_total:
  assumes "i < length (ce_workers e)"
  shows "inside wq wr wp wc (goto i p e) + carried wq wr wp (ce_workers e ! i) =
    inside wq wr wp wc e + carried wq wr wp p"
  using sum_list_goto [OF assms, of "carried wq wr wp" p] by (simp add: inside_def ac_simps)

lemma worker_total:
  assumes i: "i < length (ce_workers e)" and step: "worker_step handler env i e = Some (evs, e')"
  shows "sum_list (map (came_in wq) evs) + inside wq wr wp wc e =
    inside wq wr wp wc e' + sum_list (map (went_out wp wc wx) evs)"
proof -
  note move = goto_total [OF i]
  show ?thesis
  proof (cases "ce_workers e ! i")
    case WTop
    then show ?thesis using step sum_list_goto [OF i, of "carried wq wr wp" "WRetry (ce_pending_sink e)"]
      by (auto simp: worker_step_def inside_def ac_simps)
  next
    case (WRetry ps)
    show ?thesis
    proof (cases ps)
      case Nil
      then show ?thesis using step move [of WLock] WRetry by (auto simp: worker_step_def)
    next
      case (Cons p rest)
      with step WRetry have "report_to_sink env p (goto i (WRetry rest) e) = (evs, e')" by (simp add: worker_step_def)
      from report_total [OF this] move [of "WRetry rest"] WRetry Cons show ?thesis by (simp add: ac_simps)
    qed
  next
    case WLock
    then show ?thesis using step move [of WEmpty] sum_list_goto [OF i, of "carried wq wr wp" "WRun (hd (ce_queue e))"]
      by (auto simp: worker_step_def inside_def ac_simps split: if_splits list.splits)
  next
    case (WRun j)
    then show ?thesis using step move [of "WRecord j (handler (jb_action j))"] by (auto simp: worker_step_def)
  next
    case (WRecord j out)
    then show ?thesis using step sum_list_goto [OF i, of "carried wq wr wp" "WReport j out"] recorded [of j out]
      by (auto simp: worker_step_def inside_def ac_simps)
  next
    case (WReport j out)
    show ?thesis
    proof (cases "jb_completion j")
      case None
      then show ?thesis using step move [of WTop] WReport reported [of j out] by (auto simp: worker_step_def)
    next
      case (Some sink)
      with step WReport have "report_to_sink env (sink, jb_ticket j, out) (goto i WTop e) = (evs, e')"
        by (simp add: worker_step_def)
      from report_total [OF this] move [of WTop] WReport Some reported [of j out] show ?thesis by (simp add: ac_simps)
    qed
  qed (use step move in \<open>auto simp: worker_step_def\<close>)
qed

lemma step_total:
  assumes "exec_step e evs e'"
  shows "sum_list (map (came_in wq) evs) + inside wq wr wp wc e =
    inside wq wr wp wc e' + sum_list (map (went_out wp wc wx) evs)"
  using assms
proof cases
  case (worker i handler env)
  then show ?thesis by (rule worker_total)
next
  case (spurious i)
  then show ?thesis using goto_total [of i e WLock] by simp
next
  case (submit w j res)
  then show ?thesis using carried_one [of w "ce_workers e" wq wr wp]
    by (auto simp: try_submit_job_def inside_def ac_simps split: if_splits)
next
  case (cancel t j q)
  then show ?thesis using remove_job_tally [of t "ce_queue e" j q wq] cancelled [of j]
    by (auto simp: cancel_queued_def inside_def ac_simps)
next
  case (drain cs)
  then show ?thesis by (auto simp: drain_completed_def inside_def)
next
  case store
  then show ?thesis by (simp add: shutdown_store_def inside_def)
next
  case notify
  then show ?thesis by (simp add: shutdown_notify_def inside_def carried_wake)
next
  case join
  have "sum_list (map (carried wq wr wp) ws) = {#}" if "list_all (\<lambda>p. p = WExited) ws" for ws
    using that by (induction ws) simp_all
  with join show ?thesis by (auto simp: shutdown_join_def inside_def split: if_splits)
qed

lemma conservation:
  "exec_reach cfg evs e \<Longrightarrow>
     sum_list (map (came_in wq) evs) = inside wq wr wp wc e + sum_list (map (went_out wp wc wx) evs)"
proof (induction rule: exec_reach.induct)
  case (start e)
  have "sum_list (map (carried wq wr wp) (replicate n WTop)) = {#}" for n by (induction n) simp_all
  with start show ?case by (auto simp: new_executor_def inside_def split: if_splits)
next
  case (step evs e evs' e')
  from step_total [OF step.hyps(2)] step.IH show ?case by (simp add: ac_simps)
qed

end

text \<open>
  Three quantities: the leases a job retains, the reports owed to its sink, and
  the completion record of a job that needs one.
\<close>

definition lease_of_job :: "job \<Rightarrow> lease multiset" where
  "lease_of_job j = mset (jb_retained j)"

definition lease_of_record :: "completed \<Rightarrow> lease multiset" where
  "lease_of_record c = mset (cd_released c)"

definition report_of_job :: "job \<Rightarrow> (completion_sink \<times> ticket) multiset" where
  "report_of_job j = (case jb_completion j of None \<Rightarrow> {#} | Some sink \<Rightarrow> {#(sink, jb_ticket j)#})"

definition report_of_parked :: "parked \<Rightarrow> (completion_sink \<times> ticket) multiset" where
  "report_of_parked p = (case p of (sink, t, out) \<Rightarrow> {#(sink, t)#})"

definition record_of_job :: "job \<Rightarrow> ticket multiset" where
  "record_of_job j = (if needs_record j then {#jb_ticket j#} else {#})"

definition record_of_completed :: "completed \<Rightarrow> ticket multiset" where
  "record_of_completed c = {#cd_ticket c#}"

definition unrecorded :: "job \<Rightarrow> ticket multiset" where
  "unrecorded j = (if jb_completion j = None \<and> jb_retained j = [] then {#jb_ticket j#} else {#})"

interpretation leases: conserved lease_of_job "\<lambda>_. {#}" "\<lambda>_. {#}" lease_of_record "\<lambda>_. {#}"
  by unfold_locales (auto simp: lease_of_job_def lease_of_record_def job_record_def cancel_record_def needs_record_def
      split: option.split)

interpretation reports: conserved report_of_job report_of_job report_of_parked "\<lambda>_. {#}" report_of_job
  by unfold_locales (auto simp: report_of_job_def report_of_parked_def split: option.split)

interpretation records: conserved record_of_job "\<lambda>_. {#}" "\<lambda>_. {#}" record_of_completed unrecorded
  by unfold_locales (auto simp: record_of_job_def record_of_completed_def unrecorded_def job_record_def
      cancel_record_def needs_record_def split: option.split)

section \<open>Shutdown empties the queue\<close>

definition exec_ok :: "cpu_executor \<Rightarrow> bool" where
  "exec_ok e \<longleftrightarrow>
     (ce_shutting_down e \<longleftrightarrow> ce_phase e \<noteq> ShNone)
   \<and> (\<not> lock_free e \<longrightarrow> ce_queue e = [])
   \<and> (WExited \<in> set (ce_workers e) \<longrightarrow> ce_shutting_down e \<and> ce_queue e = [])
   \<and> (ce_phase e \<noteq> ShDone \<longrightarrow> ce_workers e \<noteq> [])
   \<and> (ce_phase e = ShDone \<longrightarrow> ce_workers e = [] \<and> ce_queue e = [])
   \<and> length (ce_queue e) \<le> ce_queue_capacity e"

lemma report_sel:
  assumes "report_to_sink env p e = (evs, e')"
  shows "ce_queue e' = ce_queue e" "ce_shutting_down e' = ce_shutting_down e" "ce_workers e' = ce_workers e"
    "ce_phase e' = ce_phase e" "ce_queue_capacity e' = ce_queue_capacity e"
  using assms by (auto simp: report_to_sink_def split: report.splits)

lemma set_goto: "q \<in> set (ws[i := p]) \<Longrightarrow> q = p \<or> q \<in> set ws"
  by (meson insertE set_update_subset_insert subsetD)

lemma exec_ok_goto:
  assumes "exec_ok e" "i < length (ce_workers e)" "p \<in> {WEmpty, WWillWait} \<longrightarrow> ce_queue e = []"
    "p = WExited \<longrightarrow> ce_shutting_down e \<and> ce_queue e = []"
  shows "exec_ok (goto i p e)"
proof -
  have "\<not> lock_free (goto i p e) \<longrightarrow> ce_queue e = []"
    using assms(1,3) by (auto simp: exec_ok_def lock_free_def list_all_iff dest: set_goto)
  moreover have "WExited \<in> set (ce_workers (goto i p e)) \<longrightarrow> ce_shutting_down e \<and> ce_queue e = []"
    using assms(1,4) by (auto simp: exec_ok_def dest: set_goto)
  ultimately show ?thesis using assms(1,2) by (simp add: exec_ok_def goto_def)
qed

lemma exec_ok_report:
  assumes "exec_ok e" "report_to_sink env p e = (evs, e')"
  shows "exec_ok e'"
  using assms(1) by (auto simp: exec_ok_def lock_free_def report_sel [OF assms(2)])

lemma exec_ok_worker:
  assumes ok: "exec_ok e" and i: "i < length (ce_workers e)" and step: "worker_step handler env i e = Some (evs, e')"
  shows "exec_ok e'"
proof -
  note move = exec_ok_goto [OF ok i]
  have locked: "ce_queue e = []" if "ce_workers e ! i \<in> {WEmpty, WWillWait}"
    using that ok i by (auto simp: exec_ok_def lock_free_def list_all_iff)
  show ?thesis
  proof (cases "ce_workers e ! i")
    case WTop
    have "exec_ok (e\<lparr>ce_pending_sink := []\<rparr>)" using ok by (auto simp: exec_ok_def lock_free_def)
    from exec_ok_goto [OF this, of i "WRetry (ce_pending_sink e)"] step WTop i show ?thesis
      by (auto simp: worker_step_def)
  next
    case (WRetry ps)
    with step move show ?thesis
      by (auto simp: worker_step_def split: list.splits dest: exec_ok_report [rotated])
  next
    case WLock
    show ?thesis
    proof (cases "ce_queue e")
      case Nil
      with step move [of WEmpty] WLock show ?thesis by (auto simp: worker_step_def split: if_splits)
    next
      case (Cons j q)
      then have "exec_ok (e\<lparr>ce_queue := q\<rparr>)" using ok by (auto simp: exec_ok_def lock_free_def)
      from exec_ok_goto [OF this, of i "WRun j"] step Cons WLock i show ?thesis
        by (auto simp: worker_step_def split: if_splits)
    qed
  next
    case (WRecord j out)
    let ?e = "if needs_record j then e\<lparr>ce_completed := ce_completed e @ [job_record j out]\<rparr> else e"
    have "exec_ok ?e" using ok by (auto simp: exec_ok_def lock_free_def)
    from exec_ok_goto [OF this, of i "WReport j out"] step WRecord i show ?thesis
      by (auto simp: worker_step_def)
  next
    case (WReport j out)
    with step move [of WTop] show ?thesis
      by (auto simp: worker_step_def split: option.splits dest: exec_ok_report [rotated])
  next
    case WEmpty
    with step move [of "if ce_shutting_down e then WExited else WWillWait"] locked show ?thesis
      by (auto simp: worker_step_def)
  qed (use step move locked in \<open>auto simp: worker_step_def\<close>)
qed

lemma notify_sets:
  "set (notify_one w ws) \<subseteq> insert WLock (set ws)" "set (notify_all ws) \<subseteq> insert WLock (set ws)"
  "notify_one w ws = [] \<longleftrightarrow> ws = []" "notify_all ws = [] \<longleftrightarrow> ws = []"
  by (auto simp: notify_one_def notify_all_def split: option.split if_splits dest: set_goto)

lemma exec_ok_notified:
  assumes "exec_ok e" "set ws \<subseteq> insert WLock (set (ce_workers e))" "ws = [] \<longleftrightarrow> ce_workers e = []"
  shows "exec_ok (e\<lparr>ce_workers := ws\<rparr>)"
  using assms by (auto simp: exec_ok_def lock_free_def list_all_iff)

lemma remove_job_sub: "remove_job t q = Some (j, q') \<Longrightarrow> length q = Suc (length q')"
  by (induction q arbitrary: q') (auto split: if_splits)

lemma exec_ok_step: "exec_step e evs e' \<Longrightarrow> exec_ok e \<Longrightarrow> exec_ok e'"
proof (induction rule: exec_step.induct)
  case (worker i e handler env evs e')
  then show ?case by (simp add: exec_ok_worker)
next
  case (spurious i e)
  then show ?case by (intro exec_ok_goto) simp_all
next
  case (submit e w j res e')
  have "exec_ok (e\<lparr>ce_workers := notify_one w (ce_workers e)\<rparr>)"
    by (rule exec_ok_notified) (simp_all add: submit.prems notify_sets)
  moreover have "lock_free (e\<lparr>ce_workers := notify_one w (ce_workers e)\<rparr>)"
    using submit.hyps(2) notify_sets(1) [of w "ce_workers e"] by (auto simp: lock_free_def list_all_iff)
  ultimately show ?case using submit
    by (auto simp: try_submit_job_def exec_ok_def lock_free_def split: if_splits)
next
  case (cancel e t j q e')
  then show ?case using remove_job_sub [OF cancel.hyps(3)]
    by (auto simp: cancel_queued_def exec_ok_def lock_free_def split: if_splits)
next
  case (drain e cs e')
  then show ?case by (auto simp: drain_completed_def exec_ok_def lock_free_def)
next
  case (store e)
  then show ?case by (auto simp: shutdown_store_def exec_ok_def lock_free_def)
next
  case (notify e)
  have "exec_ok (e\<lparr>ce_workers := notify_all (ce_workers e)\<rparr>)"
    by (rule exec_ok_notified) (simp_all add: notify.prems notify_sets)
  then show ?case using notify.hyps by (simp add: shutdown_notify_def exec_ok_def lock_free_def)
next
  case (join e e')
  have "ce_workers e \<noteq> []" using join by (simp add: exec_ok_def)
  then have "WExited \<in> set (ce_workers e)"
    using join.hyps(2) by (cases "ce_workers e") (auto simp: shutdown_join_def split: if_splits)
  then show ?case using join by (auto simp: shutdown_join_def exec_ok_def lock_free_def split: if_splits)
qed

lemma exec_ok_reach: "exec_reach cfg evs e \<Longrightarrow> exec_ok e"
proof (induction rule: exec_reach.induct)
  case (start e)
  then show ?case by (auto simp: new_executor_def exec_ok_def lock_free_def list_all_iff split: if_splits)
qed (rule exec_ok_step)

section \<open>Properties\<close>

text \<open>
  C23: The executor hands everything back exactly once.  At any moment, under any
  interleaving, what the accepted jobs brought in is what is still inside plus
  what has left: leases leave through drained completion records, reports through
  their sink (or by cancellation in the queue), and a job without a sink, or with
  leases, leaves one record.  When shutdown has returned, no job is queued or
  running; what the executor may still hold then are completion records nobody has
  drained, with the leases in them, and reports parked for a full sink, and
  nothing else: everything beyond these has left.
\<close>

theorem executor_exactly_once:
  assumes reach: "exec_reach cfg evs e"
  shows "sum_list (map (came_in lease_of_job) evs) =
      inside lease_of_job (\<lambda>_. {#}) (\<lambda>_. {#}) lease_of_record e +
      sum_list (map (went_out (\<lambda>_. {#}) lease_of_record (\<lambda>_. {#})) evs)
    \<and> sum_list (map (came_in report_of_job) evs) =
      inside report_of_job report_of_job report_of_parked (\<lambda>_. {#}) e +
      sum_list (map (went_out report_of_parked (\<lambda>_. {#}) report_of_job) evs)
    \<and> sum_list (map (came_in record_of_job) evs) =
      inside record_of_job (\<lambda>_. {#}) (\<lambda>_. {#}) record_of_completed e +
      sum_list (map (went_out (\<lambda>_. {#}) record_of_completed unrecorded) evs)
    \<and> (ce_phase e = ShDone \<longrightarrow>
        ce_queue e = [] \<and> ce_workers e = []
      \<and> sum_list (map (came_in lease_of_job) evs) =
          sum_list (map lease_of_record (ce_completed e)) +
          sum_list (map (went_out (\<lambda>_. {#}) lease_of_record (\<lambda>_. {#})) evs)
      \<and> sum_list (map (came_in report_of_job) evs) =
          sum_list (map report_of_parked (ce_pending_sink e)) +
          sum_list (map (went_out report_of_parked (\<lambda>_. {#}) report_of_job) evs)
      \<and> sum_list (map (came_in record_of_job) evs) =
          sum_list (map record_of_completed (ce_completed e)) +
          sum_list (map (went_out (\<lambda>_. {#}) record_of_completed unrecorded) evs))"
proof -
  have "ce_phase e = ShDone \<longrightarrow> ce_queue e = [] \<and> ce_workers e = []"
    using exec_ok_reach [OF reach] by (simp add: exec_ok_def)
  moreover have "sum_list (map (\<lambda>_. {#}) xs) = {#}" for xs :: "'a list" by (induction xs) simp_all
  ultimately show ?thesis
    using leases.conservation [OF reach] reports.conservation [OF reach] records.conservation [OF reach]
    by (simp add: inside_def)
qed

text \<open>A pool of one worker.\<close>

definition one_worker :: "nat \<Rightarrow> cpu_config" where
  "one_worker cap = \<lparr>cc_workers = 1, cc_queue_capacity = Suc cap\<rparr>"

definition one_state :: "nat \<Rightarrow> worker_pc \<Rightarrow> cpu_executor" where
  "one_state cap p = \<lparr>ce_queue = [], ce_shutting_down = False, ce_completed = [], ce_queue_capacity = Suc cap,
     ce_pending_sink = [], ce_workers = [p], ce_phase = ShNone\<rparr>"

lemma reach_worker:
  "exec_reach cfg evs e \<Longrightarrow> i < length (ce_workers e) \<Longrightarrow> worker_step handler env i e = Some (evs', e') \<Longrightarrow>
     exec_reach cfg (evs @ evs') e'"
  by (erule exec_reach.step) (rule exec_step.worker)

lemma one_state_reach: "exec_reach (one_worker cap) [] (one_state cap WLock)"
proof -
  have "exec_reach (one_worker cap) [] (one_state cap WTop)"
    by (rule exec_reach.start) (simp add: new_executor_def one_worker_def one_state_def)
  from reach_worker [OF this, of 0 _ _ "[]" "one_state cap (WRetry [])"]
  have "exec_reach (one_worker cap) [] (one_state cap (WRetry []))"
    by (simp add: worker_step_def one_state_def goto_def)
  from reach_worker [OF this, of 0 _ _ "[]" "one_state cap WLock"] show ?thesis
    by (simp add: worker_step_def one_state_def goto_def)
qed

lemma one_state_will_wait: "exec_reach (one_worker cap) [] (one_state cap WWillWait)"
proof -
  from reach_worker [OF one_state_reach [of cap], of 0 _ _ "[]" "one_state cap WEmpty"]
  have "exec_reach (one_worker cap) [] (one_state cap WEmpty)"
    by (simp add: worker_step_def one_state_def goto_def lock_free_def)
  from reach_worker [OF this, of 0 _ _ "[]" "one_state cap WWillWait"] show ?thesis
    by (simp add: worker_step_def one_state_def goto_def)
qed

text \<open>
  C24: Shutdown can hang.  The flag is stored and the condition variable notified
  without the queue lock, so a worker that has read the flag as unset, and still
  holds the lock on its way into the wait, misses both.  From then on shutdown
  waits for a worker that waits for a notification nobody will send: only a
  wake-up without a cause would resolve it.
\<close>

theorem shutdown_can_hang:
  "\<exists>evs e. exec_reach (one_worker cap) evs e \<and> ce_phase e = ShJoin \<and> ce_shutting_down e \<and>
     (\<forall>evs' e'. exec_step e evs' e' \<longrightarrow> evs' = [EvSpurious])"
proof -
  let ?stored = "shutdown_store (one_state cap WWillWait)"
  let ?hung = "goto 0 WWaiting (shutdown_notify ?stored)"
  have "exec_reach (one_worker cap) ([] @ []) ?stored"
    by (rule exec_reach.step [OF one_state_will_wait exec_step.store]) (simp add: one_state_def)
  then have "exec_reach (one_worker cap) (([] @ []) @ []) (shutdown_notify ?stored)"
    by (rule exec_reach.step [OF _ exec_step.notify]) (simp add: shutdown_store_def)
  from reach_worker [OF this, of 0 _ _ "[]" ?hung]
  have "exec_reach (one_worker cap) [] ?hung"
    by (simp add: worker_step_def one_state_def shutdown_store_def shutdown_notify_def notify_all_def)
  moreover have "evs' = [EvSpurious]" if "exec_step ?hung evs' e'" for evs' e'
    using that
    by cases (auto simp: worker_step_def one_state_def shutdown_store_def shutdown_notify_def notify_all_def
        shutdown_join_def)
  ultimately show ?thesis
    by (intro exI [of _ "[]"] exI [of _ ?hung]) (simp add: shutdown_notify_def shutdown_store_def)
qed

theorem shutdown_can_hang_witness:
  "\<exists>evs e. exec_reach (one_worker 63) evs e \<and> ce_phase e = ShJoin \<and> ce_shutting_down e"
  using shutdown_can_hang [of 63] by blast

text \<open>
  A job with a lease and a sink, run to the end and followed by a shutdown: its
  report is delivered, its lease waits in a record that nobody drains.
\<close>

definition held_lease :: lease where
  "held_lease = \<lparr>le_id = LeaseId 5, le_key = \<lparr>ek_model = 0, ek_package = 0, ek_layer = 0, ek_expert = 1,
     ek_representation = \<lparr>rep_layout = 0, rep_kernel_abi = 0, rep_quant = 0\<rparr>, ek_pool = MemoryPoolId 0\<rparr>, le_generation = Generation 0,
     le_owner = SessionId 0\<rparr>"

definition leased_job :: job where
  "leased_job = \<lparr>jb_ticket = Ticket 0, jb_action = \<lparr>act_kind = Cpu, act_payload = []\<rparr>, jb_retained = [held_lease],
     jb_completion = Some (CompletionSink 0)\<rparr>"

definition leased_state :: "job list \<Rightarrow> completed list \<Rightarrow> worker_pc \<Rightarrow> cpu_executor" where
  "leased_state q cs p = (one_state 0 p)\<lparr>ce_queue := q, ce_completed := cs\<rparr>"

lemmas leased_eval = leased_state_def one_state_def worker_step_def goto_def lock_free_def report_to_sink_def
  report_loop.simps needs_record_def leased_job_def

lemma leased_run:
  "exec_reach (one_worker 0) [EvAccepted leased_job, EvSent (CompletionSink 0, Ticket 0, OutcomeOk)]
     (leased_state [] [job_record leased_job OutcomeOk] WLock)"
proof -
  let ?rec = "[job_record leased_job OutcomeOk]" and ?p = "(CompletionSink 0, Ticket 0, OutcomeOk)"
  note go = reach_worker [where i = 0 and handler = "\<lambda>_. OutcomeOk" and env = "\<lambda>_. Inr ()"]
  have "exec_step (one_state 0 WLock) [EvAccepted leased_job] (leased_state [leased_job] [] WLock)"
    using exec_step.submit [of "one_state 0 WLock" None leased_job JobAccepted "leased_state [leased_job] [] WLock"]
    by (simp add: leased_eval one_waiter_def try_submit_job_def notify_one_def)
  from exec_reach.step [OF one_state_reach this]
  have "exec_reach (one_worker 0) [EvAccepted leased_job] (leased_state [leased_job] [] WLock)" by simp
  from go [OF this, of "[]" "leased_state [] [] (WRun leased_job)"]
  have "exec_reach (one_worker 0) [EvAccepted leased_job] (leased_state [] [] (WRun leased_job))" by (simp add: leased_eval)
  from go [OF this, of "[]" "leased_state [] [] (WRecord leased_job OutcomeOk)"]
  have "exec_reach (one_worker 0) [EvAccepted leased_job] (leased_state [] [] (WRecord leased_job OutcomeOk))"
    by (simp add: leased_eval)
  from go [OF this, of "[]" "leased_state [] ?rec (WReport leased_job OutcomeOk)"]
  have "exec_reach (one_worker 0) [EvAccepted leased_job] (leased_state [] ?rec (WReport leased_job OutcomeOk))"
    by (simp add: leased_eval)
  from go [OF this, of "[EvSent ?p]" "leased_state [] ?rec WTop"]
  have "exec_reach (one_worker 0) [EvAccepted leased_job, EvSent ?p] (leased_state [] ?rec WTop)"
    by (simp add: leased_eval)
  from go [OF this, of "[]" "leased_state [] ?rec (WRetry [])"]
  have "exec_reach (one_worker 0) [EvAccepted leased_job, EvSent ?p] (leased_state [] ?rec (WRetry []))"
    by (simp add: leased_eval)
  from go [OF this, of "[]" "leased_state [] ?rec WLock"] show ?thesis by (simp add: leased_eval)
qed

lemma leased_shutdown:
  "exec_reach (one_worker 0) [EvAccepted leased_job, EvSent (CompletionSink 0, Ticket 0, OutcomeOk)]
     ((leased_state [] [job_record leased_job OutcomeOk] WExited)
        \<lparr>ce_shutting_down := True, ce_workers := [], ce_phase := ShDone\<rparr>)"
proof -
  let ?evs = "[EvAccepted leased_job, EvSent (CompletionSink 0, Ticket 0, OutcomeOk)]"
  let ?s = "shutdown_store (leased_state [] [job_record leased_job OutcomeOk] WLock)"
  note go = reach_worker [where i = 0 and handler = "\<lambda>_. OutcomeOk" and env = "\<lambda>_. Inr ()"]
  from exec_reach.step [OF leased_run exec_step.store] have "exec_reach (one_worker 0) ?evs ?s" by (simp add: leased_eval)
  from go [OF this, of "[]" "goto 0 WEmpty ?s"]
  have "exec_reach (one_worker 0) ?evs (goto 0 WEmpty ?s)" by (simp add: leased_eval shutdown_store_def)
  from go [OF this, of "[]" "goto 0 WExited ?s"]
  have "exec_reach (one_worker 0) ?evs (goto 0 WExited ?s)" by (simp add: leased_eval shutdown_store_def)
  from exec_reach.step [OF this exec_step.notify]
  have "exec_reach (one_worker 0) ?evs (shutdown_notify (goto 0 WExited ?s))" by (simp add: shutdown_store_def goto_def)
  from exec_reach.step [OF this exec_step.join, of "(shutdown_notify (goto 0 WExited ?s))\<lparr>ce_workers := [], ce_phase := ShDone\<rparr>"]
  show ?thesis
    by (simp add: shutdown_join_def shutdown_notify_def shutdown_store_def notify_all_def goto_def leased_state_def
        one_state_def)
qed

theorem executor_exactly_once_witness:
  "\<exists>evs e. exec_reach (one_worker 0) evs e \<and> ce_phase e = ShDone \<and>
     sum_list (map (came_in lease_of_job) evs) = {#held_lease#} \<and>
     sum_list (map lease_of_record (ce_completed e)) = {#held_lease#}"
proof -
  let ?evs = "[EvAccepted leased_job, EvSent (CompletionSink 0, Ticket 0, OutcomeOk)]"
  let ?e = "(leased_state [] [job_record leased_job OutcomeOk] WExited)
    \<lparr>ce_shutting_down := True, ce_workers := [], ce_phase := ShDone\<rparr>"
  have leases: "sum_list (map (came_in lease_of_job) ?evs) = {#held_lease#}"
    by (simp add: lease_of_job_def leased_job_def)
  have "ce_phase ?e = ShDone" by simp
  with executor_exactly_once [OF leased_shutdown] have
    "sum_list (map (came_in lease_of_job) ?evs) = sum_list (map lease_of_record (ce_completed ?e)) +
      sum_list (map (went_out (\<lambda>_. {#}) lease_of_record (\<lambda>_. {#})) ?evs)" by blast
  then have "sum_list (map (came_in lease_of_job) ?evs) = sum_list (map lease_of_record (ce_completed ?e))" by simp
  with leases leased_shutdown show ?thesis by (intro exI [of _ ?evs] exI [of _ ?e]) simp
qed

section \<open>The runtime with its lanes\<close>

definition demo_cpu :: "nat \<Rightarrow> cpu_executor" where
  "demo_cpu cap = \<lparr>ce_queue = [], ce_shutting_down = False, ce_completed = [], ce_queue_capacity = cap,
     ce_pending_sink = [], ce_workers = [WWaiting], ce_phase = ShNone\<rparr>"

definition demo_lanes :: "(cpu_executor \<times> dispatch_request list) executor_set" where
  "demo_lanes = \<lparr>es_io = (demo_cpu 1, []), es_cpu = (demo_cpu 1, []), es_accelerator = (demo_cpu 1, [])\<rparr>"

fun handle_all ::
  "'x executor_ops \<Rightarrow> runtime_command list \<Rightarrow> 'x runtime_loop \<Rightarrow> 'x runtime_loop" where
  "handle_all V [] rt = rt"
| "handle_all V (c # cs) rt = handle_all V cs (snd (handle V c rt))"

lemma handle_all_run:
  "rt_run V rt0 n0 rt (length cs + n) F \<Longrightarrow> list_all (\<lambda>c. \<forall>t out p. c \<noteq> CmdComplete t out p) cs \<Longrightarrow>
   rt_run V rt0 n0 (handle_all (logged V) cs rt) n F"
proof (induction cs arbitrary: rt)
  case (Cons c cs)
  have "premature c rt = {}" using Cons.prems(2) by (simp add: premature_def split: runtime_command.split)
  moreover have "rt_run V rt0 n0 (snd (handle (logged V) c rt)) (length cs + n) (F \<union> premature c rt)"
    by (rule rt_run.handled [OF _ prod.collapse [symmetric]]) (use Cons.prems in auto)
  ultimately show ?case using Cons.IH [of "snd (handle (logged V) c rt)"] Cons.prems(2) by simp
qed simp

definition demo_runtime :: "runtime_command list \<Rightarrow> (cpu_executor \<times> dispatch_request list) runtime_loop" where
  "demo_runtime cs = handle_all (logged cpu_ops) cs (new_loop (CompletionSink 0) default_budget demo_lanes)"

definition demo_commands :: "runtime_command list" where
  "demo_commands = [CmdCreateSession None,
     CmdSubmit (SessionId 0) \<lparr>act_kind = Cpu, act_payload = []\<rparr> None,
     CmdSubmit (SessionId 0) \<lparr>act_kind = Cpu, act_payload = []\<rparr> None]"

lemmas demo_eval = demo_runtime_def demo_commands_def demo_lanes_def demo_cpu_def new_loop_def logged_def cpu_ops_def
  cpu_try_submit_def try_submit_job_def first_waiter_def notify_one_def job_of_request_def into_request_def
  rl_submit_def es_try_submit_def reply_send_def respond_effects_def settle_def retry_pending_def handed_def
  cancel_queued_def es_try_cancel_def default_budget_def

text \<open>
  C25: Whatever commands arrive, completions of any ticket by any client included,
  the runtime hands every ticket to an executor at most once, and what waits for
  capacity has not been handed over.  Let \<open>F\<close> be the tickets that a completion
  command named while their request was still waiting, which an executor never
  does.  Then every waiting request outside \<open>F\<close> is live, and a ticket outside
  \<open>F\<close> that is revoked before it is handed over (by a cancellation, by the failure
  of a sibling, or because its lane is closed) never reaches an executor
  afterwards.  The executors are any that return the requests they refuse
  unchanged.
\<close>

theorem dispatched_once_and_live:
  assumes lanes: "bounded_executor V" and start: "handed es = {#}" "N \<le> u64_max"
    and reach: "rt_run V (new_loop sink b es) N rt n F"
  shows "count (handed (rl_executors rt)) t \<le> 1
    \<and> (\<forall>req \<in> set (rl_pending rt). dq_ticket req \<notin># handed (rl_executors rt)
          \<and> (dq_ticket req \<in> F \<or> hm_get (core_inflight (rl_core rt)) (dq_ticket req) \<noteq> None))
    \<and> (stale t (rl_core rt) \<longrightarrow> t \<notin> F \<longrightarrow> t \<notin># handed (rl_executors rt) \<longrightarrow> rt_run V rt n rt' n' F' \<longrightarrow>
          t \<notin># handed (rl_executors rt'))"
proof -
  have rt_ok: "rt_ok F rt n"
    using bounded_executor.run_ok [OF lanes reach bounded_executor.new_loop_ok [OF lanes start]] by simp
  have once: "count (tickets rt) u \<le> 1" for u using rt_ok rt_ok_once by blast
  have "count (handed (rl_executors rt)) t \<le> 1" using once [of t] by (simp add: tickets_def)
  moreover have "dq_ticket req \<notin># handed (rl_executors rt)" if "req \<in> set (rl_pending rt)" for req
  proof -
    have "0 < count (image_mset dq_ticket (mset (rl_pending rt))) (dq_ticket req)" using that by simp
    then show ?thesis using once [of "dq_ticket req"] unfolding tickets_def not_in_iff count_union by linarith
  qed
  ultimately show ?thesis using rt_ok bounded_executor.revoked_stays_out [OF lanes rt_ok, of rt' n' F' t]
    by (auto simp: rt_ok_def)
qed

theorem dispatched_once_and_live_witness:
  "handed (rl_executors (demo_runtime demo_commands)) = {#Ticket 0#}
   \<and> count (handed (rl_executors (demo_runtime demo_commands))) (Ticket 0) \<le> 1"
proof
  show "handed (rl_executors (demo_runtime demo_commands)) = {#Ticket 0#}"
    by (simp add: demo_eval sched_eval)
next
  have empty: "handed demo_lanes = {#}" by (simp add: demo_eval)
  have run: "rt_run cpu_ops (new_loop (CompletionSink 0) default_budget demo_lanes) 3 (demo_runtime demo_commands) 0 {}"
    unfolding demo_runtime_def by (rule handle_all_run) (simp_all add: demo_commands_def rt_run.here numeral_3_eq_3)
  show "count (handed (rl_executors (demo_runtime demo_commands))) (Ticket 0) \<le> 1"
    using dispatched_once_and_live [OF cpu.bounded_executor_axioms empty _ run] by (simp add: u64_max_def)
qed

text \<open>
  Shutdown settles everything, in both modes: every session ends up finished,
  or failed if it had failed before, no ticket is live, nothing waits in the
  ready queue or for capacity, the three lanes are shut down, and the requester
  gets exactly one reply.
\<close>

lemma shutdown_settles:
  assumes inv: "sched_inv (rl_core rt)" and rt': "rt' = rl_shutdown V mode p rt"
  shows "session_state_of (rl_core rt') s = map_option final_state (session_state_of (rl_core rt) s)
    \<and> core_inflight (rl_core rt') = [] \<and> core_ready (rl_core rt') = [] \<and> rl_pending rt' = []
    \<and> (\<exists>es. rl_executors rt' = es_shutdown V es)
    \<and> rl_replies rt' = rl_replies rt @ (case p of None \<Rightarrow> [] | Some ch \<Rightarrow> [(ch, RepShutdownComplete)])"
proof -
  let ?rt1 = "shutdown_sessions V mode (session_ids (rl_core rt)) rt"
  note core = shutdown_sessions_core [OF inv, of V mode "session_ids (rl_core rt)"]
  have sel: "rl_core rt' = rl_core ?rt1" "rl_pending rt' = []" "rl_executors rt' = es_shutdown V (rl_executors ?rt1)"
    by (simp_all add: rt' rl_shutdown_def Let_def)
  have "session_state_of (rl_core rt) u = None" if "u \<notin> set (session_ids (rl_core rt))" for u
    using that by (simp add: session_ids_def session_state_of_def map_of_eq_None_iff)
  with core have state: "session_state_of (rl_core rt') u = map_option final_state (session_state_of (rl_core rt) u)" for u
    by (cases "u \<in> set (session_ids (rl_core rt))") (simp_all add: sel)
  from core have inv': "sched_inv (rl_core rt')" by (simp add: sel)
  from all_final_empty [OF inv'] state show ?thesis
    by (auto simp: sel) (simp add: rt' rl_shutdown_def Let_def reply_send_def split: option.split)
qed

section \<open>Two gaps\<close>

text \<open>
  A completion that a frontend sends for a ticket that is still waiting for
  capacity retires the ticket but leaves its request in the queue of the runtime,
  which will dispatch it when the lane has room.
\<close>

lemma frontend_completion_leaves_request:
  "let rt = demo_runtime (demo_commands @ [CmdComplete (Ticket 1) OutcomeOk (Some (Some 0))]) in
   map dq_ticket (rl_pending rt) = [Ticket 1] \<and> stale (Ticket 1) (rl_core rt)"
  by (simp add: demo_eval sched_eval stale_def complete_def retry_from.simps Let_def)

text \<open>
  A report that its sink refused as full is parked for the next iteration of a
  worker; when the workers end, it is still parked and nobody retries it.
\<close>

definition sink_job :: job where
  "sink_job = \<lparr>jb_ticket = Ticket 0, jb_action = \<lparr>act_kind = Cpu, act_payload = []\<rparr>, jb_retained = [],
     jb_completion = Some (CompletionSink 0)\<rparr>"

definition sink_state :: "job list \<Rightarrow> parked list \<Rightarrow> worker_pc \<Rightarrow> cpu_executor" where
  "sink_state q ps p = (one_state 0 p)\<lparr>ce_queue := q, ce_pending_sink := ps\<rparr>"

lemma report_always_full: "report_loop (\<lambda>_. Inl SendFull) 0 = Parked"
  by (simp add: report_loop.simps)

lemmas sink_eval = sink_state_def one_state_def worker_step_def goto_def lock_free_def report_to_sink_def
  report_always_full needs_record_def sink_job_def

lemma sink_parked:
  "\<exists>evs. exec_reach (one_worker 0) evs (sink_state [] [(CompletionSink 0, Ticket 0, OutcomeOk)] WLock)"
proof -
  let ?p = "(CompletionSink 0, Ticket 0, OutcomeOk)" and ?full = "\<lambda>_. Inl SendFull" and ?ok = "\<lambda>_. OutcomeOk"
  note go = reach_worker [where i = 0 and handler = ?ok and env = ?full]
  have "exec_step (sink_state [] [] WLock) [EvAccepted sink_job] (sink_state [sink_job] [] WLock)"
    using exec_step.submit [of "sink_state [] [] WLock" None sink_job JobAccepted "sink_state [sink_job] [] WLock"]
    by (simp add: sink_eval one_waiter_def try_submit_job_def notify_one_def)
  moreover have "sink_state [] [] WLock = one_state 0 WLock" by (simp add: sink_state_def one_state_def)
  ultimately have "exec_step (one_state 0 WLock) [EvAccepted sink_job] (sink_state [sink_job] [] WLock)" by simp
  from exec_reach.step [OF one_state_reach this]
  have "exec_reach (one_worker 0) [EvAccepted sink_job] (sink_state [sink_job] [] WLock)"
    by simp
  from go [OF this, of "[]" "sink_state [] [] (WRun sink_job)"]
  have "exec_reach (one_worker 0) [EvAccepted sink_job] (sink_state [] [] (WRun sink_job))" by (simp add: sink_eval)
  from go [OF this, of "[]" "sink_state [] [] (WRecord sink_job OutcomeOk)"]
  have "exec_reach (one_worker 0) [EvAccepted sink_job] (sink_state [] [] (WRecord sink_job OutcomeOk))" by (simp add: sink_eval)
  from go [OF this, of "[]" "sink_state [] [] (WReport sink_job OutcomeOk)"]
  have "exec_reach (one_worker 0) [EvAccepted sink_job] (sink_state [] [] (WReport sink_job OutcomeOk))" by (simp add: sink_eval)
  from go [OF this, of "[]" "sink_state [] [?p] WTop"]
  have "exec_reach (one_worker 0) [EvAccepted sink_job] (sink_state [] [?p] WTop)" by (simp add: sink_eval)
  from go [OF this, of "[]" "sink_state [] [] (WRetry [?p])"]
  have "exec_reach (one_worker 0) [EvAccepted sink_job] (sink_state [] [] (WRetry [?p]))" by (simp add: sink_eval)
  from go [OF this, of "[]" "sink_state [] [?p] (WRetry [])"]
  have "exec_reach (one_worker 0) [EvAccepted sink_job] (sink_state [] [?p] (WRetry []))" by (simp add: sink_eval)
  from go [OF this, of "[]" "sink_state [] [?p] WLock"]
  have "exec_reach (one_worker 0) [EvAccepted sink_job] (sink_state [] [?p] WLock)" by (simp add: sink_eval)
  then show ?thesis by blast
qed

lemma parked_report_lost:
  "\<exists>evs e. exec_reach (one_worker 0) evs e \<and> ce_phase e = ShDone \<and> ce_pending_sink e \<noteq> []"
proof -
  let ?p = "(CompletionSink 0, Ticket 0, OutcomeOk)"
  let ?s = "shutdown_store (sink_state [] [?p] WLock)"
  obtain evs where evs: "exec_reach (one_worker 0) evs (sink_state [] [?p] WLock)" using sink_parked by blast
  from exec_reach.step [OF evs exec_step.store] have "exec_reach (one_worker 0) evs ?s" by (simp add: sink_eval)
  from reach_worker [OF this, of 0 _ _ "[]" "goto 0 WEmpty ?s"]
  have "exec_reach (one_worker 0) evs (goto 0 WEmpty ?s)" by (simp add: sink_eval shutdown_store_def)
  from reach_worker [OF this, of 0 _ _ "[]" "goto 0 WExited ?s"]
  have "exec_reach (one_worker 0) evs (goto 0 WExited ?s)" by (simp add: sink_eval shutdown_store_def)
  from exec_reach.step [OF this exec_step.notify]
  have "exec_reach (one_worker 0) evs (shutdown_notify (goto 0 WExited ?s))" by (simp add: shutdown_store_def goto_def)
  from exec_reach.step [OF this exec_step.join, of "(shutdown_notify (goto 0 WExited ?s))\<lparr>ce_workers := [], ce_phase := ShDone\<rparr>"]
  have "exec_reach (one_worker 0) evs ((shutdown_notify (goto 0 WExited ?s))\<lparr>ce_workers := [], ce_phase := ShDone\<rparr>)"
    by (simp add: shutdown_join_def shutdown_notify_def shutdown_store_def notify_all_def goto_def sink_state_def one_state_def)
  then show ?thesis
    by (intro exI conjI) (auto simp: shutdown_notify_def shutdown_store_def goto_def sink_state_def)
qed

end
