(* ===== verification/Ir_Graph.thy ===== *)
theory Ir_Graph
  imports Prelude
begin

text \<open>
  The tensor graph of the intermediate representation (\<^verbatim>\<open>logan-ir/src/graph.rs\<close>) and
  its topological order by Kahn's algorithm.  Identifiers are \<^verbatim>\<open>u32\<close> values; the code
  indexes its tables by the identifiers that nodes carry, so a node with a foreign
  identifier makes an index panic, which is an outcome of the model.
\<close>

section \<open>Data\<close>

type_synonym node_id = nat
type_synonym value_id = nat

record value_type =
  vt_shape :: "nat list"
  vt_dtype :: string

record graph_value =
  gv_id :: value_id
  gv_ty :: value_type
  gv_name :: "string option"

datatype attention_kind = Gqa | Mla | Qsa | Gdn

datatype graph_op =
  LoadWeight | ReadRange | MatMul | RmsNorm | Silu | Softmax | RoPE | AddOp | MulOp
| ExpertBlock | Router | Attention attention_kind | Extension string

record graph_node =
  gn_id :: node_id
  gn_op :: graph_op
  gn_inputs :: "value_id list"
  gn_outputs :: "value_id list"
  gn_attrs :: "(string \<times> string) list"

record graph =
  gr_values :: "graph_value list"
  gr_nodes :: "graph_node list"
  gr_inputs :: "value_id list"
  gr_outputs :: "value_id list"

definition new_graph :: graph where
  "new_graph = \<lparr>gr_values = [], gr_nodes = [], gr_inputs = [], gr_outputs = []\<rparr>"

definition add_value :: "value_type \<Rightarrow> string option \<Rightarrow> graph \<Rightarrow> value_id \<times> graph" where
  "add_value ty name g =
     (let i = length (gr_values g) mod 2 ^ 32
      in (i, g\<lparr>gr_values := gr_values g @ [\<lparr>gv_id = i, gv_ty = ty, gv_name = name\<rparr>]\<rparr>))"

definition add_node ::
  "graph_op \<Rightarrow> value_id list \<Rightarrow> value_id list \<Rightarrow> (string \<times> string) list \<Rightarrow> graph \<Rightarrow> node_id \<times> graph" where
  "add_node op ins outs attrs g =
     (let i = length (gr_nodes g) mod 2 ^ 32
      in (i, g\<lparr>gr_nodes := gr_nodes g @
            [\<lparr>gn_id = i, gn_op = op, gn_inputs = ins, gn_outputs = outs, gn_attrs = attrs\<rparr>]\<rparr>))"

section \<open>Topological order\<close>

datatype topo_error = TopoError string | IndexPanic

text \<open>Every reference names a value of the graph; the first one that does not is reported.\<close>

definition bad_ref :: "nat \<Rightarrow> graph_node \<Rightarrow> string option" where
  "bad_ref n node =
     (case find (\<lambda>v. n \<le> v) (gn_inputs node) of
        Some v \<Rightarrow> Some (''node '' @ show_nat (gn_id node) @ '': input value '' @ show_nat v @ '' out of range'')
      | None \<Rightarrow>
          (case find (\<lambda>v. n \<le> v) (gn_outputs node) of
             Some v \<Rightarrow> Some (''node '' @ show_nat (gn_id node) @ '': output value '' @ show_nat v @ '' out of range'')
           | None \<Rightarrow> None))"

fun check_refs :: "nat \<Rightarrow> graph_node list \<Rightarrow> string option" where
  "check_refs n [] = None"
| "check_refs n (node # nodes) = (case bad_ref n node of Some e \<Rightarrow> Some e | None \<Rightarrow> check_refs n nodes)"

definition set_producers :: "graph_node \<Rightarrow> node_id option list \<Rightarrow> node_id option list" where
  "set_producers node = fold (\<lambda>v producer. producer[v := Some (gn_id node)]) (gn_outputs node)"

definition producers :: "graph \<Rightarrow> node_id option list" where
  "producers g = fold set_producers (gr_nodes g) (replicate (length (gr_values g)) None)"

definition add_consumers :: "graph_node \<Rightarrow> node_id list list \<Rightarrow> node_id list list" where
  "add_consumers node = fold (\<lambda>v cs. cs[v := cs ! v @ [gn_id node]]) (gn_inputs node)"

definition consumers :: "graph \<Rightarrow> node_id list list" where
  "consumers g = fold add_consumers (gr_nodes g) (replicate (length (gr_values g)) [])"

text \<open>The edges of one value are added to the adjacency lists and counted.\<close>

fun add_edges :: "node_id \<Rightarrow> node_id list \<Rightarrow> node_id list list \<times> nat list \<Rightarrow> (node_id list list \<times> nat list) option" where
  "add_edges p [] tables = Some tables"
| "add_edges p (c # cs) (adj, indeg) =
     (if p < length adj \<and> c < length indeg
      then add_edges p cs (adj[p := adj ! p @ [c]], indeg[c := indeg ! c + 1])
      else None)"

fun build_edges ::
  "(node_id option \<times> node_id list) list \<Rightarrow> node_id list list \<times> nat list \<Rightarrow> (node_id list list \<times> nat list) option" where
  "build_edges [] tables = Some tables"
| "build_edges ((None, cs) # rows) tables = build_edges rows tables"
| "build_edges ((Some p, cs) # rows) tables =
     (case add_edges p cs tables of None \<Rightarrow> None | Some tables' \<Rightarrow> build_edges rows tables')"

text \<open>
  The work list is a stack; its top is the head of the list.  \<open>None\<close> stands for an
  index out of range or an in-degree below zero, both of which panic.
\<close>

fun relax :: "node_id list \<Rightarrow> nat list \<Rightarrow> node_id list \<Rightarrow> (nat list \<times> node_id list) option" where
  "relax [] indeg stack = Some (indeg, stack)"
| "relax (c # cs) indeg stack =
     (if c < length indeg \<and> 0 < indeg ! c
      then relax cs (indeg[c := indeg ! c - 1]) (if indeg ! c - 1 = 0 then c # stack else stack)
      else None)"

lemma sum_list_dec: "c < length xs \<Longrightarrow> 0 < xs ! c \<Longrightarrow> Suc (sum_list (xs[c := xs ! c - 1])) = sum_list xs"
  for xs :: "nat list"
proof (induction xs arbitrary: c)
  case (Cons x xs)
  then show ?case by (cases c) auto
qed simp

lemma relax_measure:
  "relax cs indeg stack = Some (indeg', stack') \<Longrightarrow> sum_list indeg' + length stack' \<le> sum_list indeg + length stack"
proof (induction cs indeg stack rule: relax.induct)
  case (2 c cs indeg stack)
  then show ?case using sum_list_dec [of c indeg] by (auto split: if_splits)
qed simp

function kahn :: "node_id list list \<Rightarrow> nat list \<Rightarrow> node_id list \<Rightarrow> node_id list \<Rightarrow> node_id list option" where
  "kahn adj indeg [] order = Some order"
| "kahn adj indeg (i # stack) order =
     (if i < length adj then
        (case relax (adj ! i) indeg stack of
           None \<Rightarrow> None
         | Some (indeg', stack') \<Rightarrow> kahn adj indeg' stack' (order @ [i]))
      else None)"
  by pat_completeness auto

termination kahn
  by (relation "measure (\<lambda>(adj, indeg, stack, order). sum_list indeg + length stack)")
    (use relax_measure in \<open>fastforce+\<close>)

definition topo_order :: "graph \<Rightarrow> topo_error + node_id list" where
  "topo_order g =
     (let n = length (gr_nodes g) in
      case check_refs (length (gr_values g)) (gr_nodes g) of
        Some e \<Rightarrow> Inl (TopoError e)
      | None \<Rightarrow>
          (case build_edges (zip (producers g) (consumers g)) (replicate n [], replicate n 0) of
             None \<Rightarrow> Inl IndexPanic
           | Some (adj, indeg) \<Rightarrow>
               (case kahn adj indeg (rev (filter (\<lambda>i. indeg ! i = 0) [0..<n])) [] of
                  None \<Rightarrow> Inl IndexPanic
                | Some order \<Rightarrow>
                    if length order \<noteq> n then Inl (TopoError ''graph contains a cycle'') else Inr order)))"

section \<open>What the tables hold\<close>

definition ids_ok :: "graph_node list \<Rightarrow> bool" where
  "ids_ok ns \<longleftrightarrow> (\<forall>i < length ns. gn_id (ns ! i) = i)"

definition refs_ok :: "nat \<Rightarrow> graph_node list \<Rightarrow> bool" where
  "refs_ok n ns \<longleftrightarrow> (\<forall>node \<in> set ns. \<forall>v \<in> set (gn_inputs node) \<union> set (gn_outputs node). v < n)"

text \<open>The last node that lists a value among its outputs is its producer.\<close>

definition produces :: "graph_node list \<Rightarrow> value_id \<Rightarrow> node_id \<Rightarrow> bool" where
  "produces ns v p \<longleftrightarrow> p < length ns \<and> v \<in> set (gn_outputs (ns ! p)) \<and>
     (\<forall>q. p < q \<longrightarrow> q < length ns \<longrightarrow> v \<notin> set (gn_outputs (ns ! q)))"

definition feeds :: "graph_node list \<Rightarrow> (node_id \<times> node_id) set" where
  "feeds ns = {(p, c). \<exists>v. produces ns v p \<and> c < length ns \<and> v \<in> set (gn_inputs (ns ! c))}"

lemma ids_ok_snoc: "ids_ok (ns @ [x]) \<longleftrightarrow> ids_ok ns \<and> gn_id x = length ns"
  by (auto simp: ids_ok_def nth_append less_Suc_eq)

lemma ids_ok_add_node:
  assumes "ids_ok (gr_nodes g)" "length (gr_nodes g) < 2 ^ 32"
  shows "ids_ok (gr_nodes (snd (add_node op ins outs attrs g)))"
  using assms by (simp add: add_node_def ids_ok_snoc Let_def)

lemma bad_ref_None: "bad_ref n node = None \<longleftrightarrow> (\<forall>v \<in> set (gn_inputs node) \<union> set (gn_outputs node). v < n)"
proof -
  have "bad_ref n node = None \<longleftrightarrow>
      find (\<lambda>v. n \<le> v) (gn_inputs node) = None \<and> find (\<lambda>v. n \<le> v) (gn_outputs node) = None"
    by (simp add: bad_ref_def split: option.split)
  then show ?thesis by (auto simp: find_None_iff not_le)
qed

lemma check_refs_None: "check_refs n ns = None \<longleftrightarrow> refs_ok n ns"
  by (induction ns) (simp_all add: refs_ok_def bad_ref_None [symmetric] split: option.split)

lemma set_producers_nth:
  "v < length tbl \<Longrightarrow> set_producers node tbl ! v = (if v \<in> set (gn_outputs node) then Some (gn_id node) else tbl ! v)"
  unfolding set_producers_def
proof (induction "gn_outputs node" arbitrary: tbl node)
  case (Cons w ws)
  from Cons.hyps(1) [of "node\<lparr>gn_outputs := ws\<rparr>" "tbl[w := Some (gn_id node)]"] Cons.hyps(2) [symmetric] Cons.prems
  show ?case by (auto simp: nth_list_update)
qed simp

lemma length_set_producers [simp]: "length (set_producers node tbl) = length tbl"
proof -
  have "length (fold (\<lambda>v producer. producer[v := Some i]) vs tbl) = length tbl" for i vs
    by (induction vs arbitrary: tbl) simp_all
  then show ?thesis by (simp add: set_producers_def)
qed

lemma length_fold_producers [simp]: "length (fold set_producers ns tbl) = length tbl"
  by (induction ns arbitrary: tbl) simp_all

lemma producers_nth:
  "ids_ok ns \<Longrightarrow> v < n \<Longrightarrow> fold set_producers ns (replicate n None) ! v = Some p \<longleftrightarrow> produces ns v p"
proof (induction ns arbitrary: p rule: rev_induct)
  case (snoc x ns)
  have prod: "produces (ns @ [x]) v p \<longleftrightarrow> (if v \<in> set (gn_outputs x) then p = length ns else produces ns v p)"
  proof (cases "v \<in> set (gn_outputs x)")
    case True
    then have "p = length ns" if "produces (ns @ [x]) v p"
      using that by (auto simp: produces_def less_Suc_eq nth_append dest: spec [of _ "length ns"])
    with True show ?thesis by (auto simp: produces_def)
  next
    case False
    then show ?thesis by (auto simp: produces_def less_Suc_eq nth_append)
  qed
  from snoc show ?case by (simp add: ids_ok_snoc set_producers_nth prod eq_commute)
qed (simp add: produces_def)

lemma add_consumers_nth:
  assumes "v < length cs"
  shows "length (add_consumers node cs) = length cs"
    "set (add_consumers node cs ! v) = set (cs ! v) \<union> (if v \<in> set (gn_inputs node) then {gn_id node} else {})"
proof -
  have "length (fold (\<lambda>v cs. cs[v := cs ! v @ [i]]) vs cs) = length cs \<and>
      set (fold (\<lambda>v cs. cs[v := cs ! v @ [i]]) vs cs ! v) = set (cs ! v) \<union> (if v \<in> set vs then {i} else {})" for i vs
    using assms
  proof (induction vs arbitrary: cs)
    case (Cons a vs)
    from Cons.IH [of "cs[a := cs ! a @ [i]]"] Cons.prems show ?case by (cases "a = v") auto
  qed simp
  then show "length (add_consumers node cs) = length cs"
    "set (add_consumers node cs ! v) = set (cs ! v) \<union> (if v \<in> set (gn_inputs node) then {gn_id node} else {})"
    by (simp_all add: add_consumers_def)
qed

lemma consumers_nth:
  "ids_ok ns \<Longrightarrow> v < n \<Longrightarrow> length (fold add_consumers ns (replicate n [])) = n \<and>
     set (fold add_consumers ns (replicate n []) ! v) = {c. c < length ns \<and> v \<in> set (gn_inputs (ns ! c))}"
proof (induction ns rule: rev_induct)
  case (snoc x ns)
  then have IH: "length (fold add_consumers ns (replicate n [])) = n"
    "set (fold add_consumers ns (replicate n []) ! v) = {c. c < length ns \<and> v \<in> set (gn_inputs (ns ! c))}"
    by (simp_all add: ids_ok_snoc)
  moreover have "{c. c < length (ns @ [x]) \<and> v \<in> set (gn_inputs ((ns @ [x]) ! c))} =
      {c. c < length ns \<and> v \<in> set (gn_inputs (ns ! c))} \<union> (if v \<in> set (gn_inputs x) then {length ns} else {})"
    by (auto simp: nth_append less_Suc_eq)
  ultimately show ?case using snoc.prems by (simp add: add_consumers_nth ids_ok_snoc)
qed simp

section \<open>Adjacency lists and in-degrees\<close>

definition tables_ok :: "nat \<Rightarrow> node_id list list \<Rightarrow> nat list \<Rightarrow> bool" where
  "tables_ok n adj indeg \<longleftrightarrow> length adj = n \<and> length indeg = n \<and> (\<forall>p < n. set (adj ! p) \<subseteq> {..<n}) \<and>
     (\<forall>c < n. indeg ! c = (\<Sum>p < n. count_list (adj ! p) c))"

definition arcs :: "node_id list list \<Rightarrow> (node_id \<times> node_id) set" where
  "arcs adj = {(p, c). p < length adj \<and> c \<in> set (adj ! p)}"

lemma sum_count_update:
  assumes "p < n" "length adj = n"
  shows "(\<Sum>q < n. count_list (adj[p := adj ! p @ [c]] ! q) x) = (\<Sum>q < n. count_list (adj ! q) x) + (if x = c then 1 else 0)"
proof -
  have "(\<Sum>q < n. count_list (adj[p := adj ! p @ [c]] ! q) x) =
      (\<Sum>q < n. count_list (adj ! q) x + (if q = p then if x = c then 1 else 0 else 0))"
    using assms by (intro sum.cong) (auto simp: nth_list_update)
  also have "\<dots> = (\<Sum>q < n. count_list (adj ! q) x) + (if x = c then 1 else 0)"
    using assms by (simp add: sum.distrib)
  finally show ?thesis .
qed

lemma tables_ok_edge:
  assumes "tables_ok n adj indeg" "p < n" "c < n"
  shows "tables_ok n (adj[p := adj ! p @ [c]]) (indeg[c := indeg ! c + 1])"
    "arcs (adj[p := adj ! p @ [c]]) = insert (p, c) (arcs adj)"
proof -
  have len: "length adj = n" "length indeg = n" using assms(1) by (simp_all add: tables_ok_def)
  have "set (adj[p := adj ! p @ [c]] ! q) \<subseteq> {..<n}" if "q < n" for q
    using assms that len by (auto simp: tables_ok_def nth_list_update)
  moreover have "indeg[c := indeg ! c + 1] ! x = (\<Sum>q < n. count_list (adj[p := adj ! p @ [c]] ! q) x)" if "x < n" for x
    unfolding sum_count_update [OF assms(2) len(1)] using assms(1) that len(2) by (simp add: tables_ok_def nth_list_update)
  ultimately show "tables_ok n (adj[p := adj ! p @ [c]]) (indeg[c := indeg ! c + 1])" by (simp add: tables_ok_def len)
  show "arcs (adj[p := adj ! p @ [c]]) = insert (p, c) (arcs adj)"
    using assms(2) len(1) by (auto simp: arcs_def nth_list_update split: if_splits)
qed

lemma add_edges_spec:
  "tables_ok n adj indeg \<Longrightarrow> p < n \<Longrightarrow> set cs \<subseteq> {..<n} \<Longrightarrow>
     \<exists>adj' indeg'. add_edges p cs (adj, indeg) = Some (adj', indeg') \<and> tables_ok n adj' indeg' \<and>
       arcs adj' = arcs adj \<union> {p} \<times> set cs"
proof (induction cs arbitrary: adj indeg)
  case (Cons c cs)
  then have bounds: "p < n" "c < n" "length adj = n" "length indeg = n" by (simp_all add: tables_ok_def)
  note step = tables_ok_edge [OF Cons.prems(1) bounds(1,2)]
  from Cons.IH [OF step(1)] Cons.prems bounds show ?case by (auto simp: step(2))
qed simp

lemma build_edges_spec:
  "tables_ok n adj indeg \<Longrightarrow> (\<And>p cs. (Some p, cs) \<in> set rows \<Longrightarrow> p < n \<and> set cs \<subseteq> {..<n}) \<Longrightarrow>
     \<exists>adj' indeg'. build_edges rows (adj, indeg) = Some (adj', indeg') \<and> tables_ok n adj' indeg' \<and>
       arcs adj' = arcs adj \<union> {(p, c). \<exists>cs. (Some p, cs) \<in> set rows \<and> c \<in> set cs}"
proof (induction rows arbitrary: adj indeg)
  case (Cons row rows)
  obtain prod cs where row: "row = (prod, cs)" by fastforce
  show ?case
  proof (cases prod)
    case None
    with Cons.IH [OF Cons.prems(1)] Cons.prems(2) show ?thesis by (auto simp: row)
  next
    case (Some p)
    then have "p < n" "set cs \<subseteq> {..<n}" using Cons.prems(2) [of p cs] by (auto simp: row)
    from add_edges_spec [OF Cons.prems(1) this] obtain adj1 indeg1 where
      one: "add_edges p cs (adj, indeg) = Some (adj1, indeg1)" "tables_ok n adj1 indeg1" "arcs adj1 = arcs adj \<union> {p} \<times> set cs"
      by blast
    from Cons.IH [OF one(2)] Cons.prems(2) obtain adj2 indeg2 where
      two: "build_edges rows (adj1, indeg1) = Some (adj2, indeg2)" "tables_ok n adj2 indeg2"
        "arcs adj2 = arcs adj1 \<union> {(p, c). \<exists>cs. (Some p, cs) \<in> set rows \<and> c \<in> set cs}" by fastforce
    have "arcs adj2 = arcs adj \<union> {(p, c). \<exists>cs. (Some p, cs) \<in> set (row # rows) \<and> c \<in> set cs}"
      unfolding two(3) one(3) row Some by auto
    with one(1) two(1,2) show ?thesis by (simp add: row Some)
  qed
qed simp

section \<open>Kahn's loop\<close>

text \<open>Relaxing the successors of a node subtracts their multiplicities and stacks the nodes that reach zero.\<close>

lemma relax_spec:
  assumes "set cs \<subseteq> {..<length indeg}" "\<And>c. c < length indeg \<Longrightarrow> count_list cs c \<le> indeg ! c"
  shows "\<exists>indeg' new. relax cs indeg stack = Some (indeg', new @ stack) \<and> length indeg' = length indeg \<and>
    (\<forall>c < length indeg. indeg' ! c = indeg ! c - count_list cs c) \<and>
    distinct new \<and> set new = {c. c < length indeg \<and> c \<in> set cs \<and> indeg ! c = count_list cs c}"
  using assms
proof (induction cs arbitrary: indeg stack)
  case (Cons d cs)
  have d: "d < length indeg" "0 < indeg ! d" using Cons.prems(1) Cons.prems(2) [of d] by auto
  define indeg1 where "indeg1 = indeg[d := indeg ! d - 1]"
  have len: "length indeg1 = length indeg" by (simp add: indeg1_def)
  have le: "count_list cs c \<le> indeg1 ! c" if "c < length indeg" for c
    using Cons.prems(2) [of c] that by (cases "d = c") (auto simp: indeg1_def)
  have sub: "set cs \<subseteq> {..<length indeg1}" using Cons.prems(1) by (simp add: len)
  have le1: "\<And>c. c < length indeg1 \<Longrightarrow> count_list cs c \<le> indeg1 ! c" using le by (simp add: len)
  let ?top = "if indeg ! d - 1 = 0 then [d] else []"
  obtain indeg' new where r: "relax cs indeg1 (?top @ stack) = Some (indeg', new @ ?top @ stack)" "length indeg' = length indeg1"
    "\<forall>c < length indeg1. indeg' ! c = indeg1 ! c - count_list cs c" "distinct new"
    "set new = {c. c < length indeg1 \<and> c \<in> set cs \<and> indeg1 ! c = count_list cs c}"
    using Cons.IH [OF sub le1, of "?top @ stack"] by blast
  have zero: "count_list cs d = 0 \<and> d \<notin> set cs" if "indeg ! d - 1 = 0"
    using le [OF d(1)] that d by (auto simp: indeg1_def count_list_0_iff)
  have "relax (d # cs) indeg stack = Some (indeg', (new @ ?top) @ stack)" 
    using r(1) d by (cases "indeg ! d - 1 = 0") (auto simp: indeg1_def)
  moreover have "length indeg' = length indeg" using r(2) len by simp
  moreover have "indeg' ! c = indeg ! c - count_list (d # cs) c" if "c < length indeg" for c
    using r(3) that len by (cases "d = c") (auto simp: indeg1_def)
  moreover have "distinct (new @ ?top)" using r(4,5) zero by auto
  moreover have "set (new @ ?top) = {c. c < length indeg \<and> c \<in> set (d # cs) \<and> indeg ! c = count_list (d # cs) c}"
  proof -
    have "c \<in> set (new @ ?top) \<longleftrightarrow> c < length indeg \<and> c \<in> set (d # cs) \<and> indeg ! c = count_list (d # cs) c" for c
    proof (cases "d = c")
      case True
      have "c \<in> set new \<longleftrightarrow> d \<in> set cs \<and> indeg ! d - 1 = count_list cs d"
        using d by (simp add: r(5) len indeg1_def True [symmetric])
      moreover have "indeg ! d = count_list (d # cs) d \<longleftrightarrow> indeg ! d - 1 = count_list cs d" using d(2) by auto
      moreover have "d \<in> set cs \<or> count_list cs d = 0" by (simp add: count_list_0_iff)
      ultimately show ?thesis using d(1) zero by (auto simp: True [symmetric])
    next
      case False
      then show ?thesis by (auto simp: r(5) len indeg1_def)
    qed
    then show ?thesis by blast
  qed
  ultimately show ?case by blast
qed simp

definition kahn_inv :: "node_id list list \<Rightarrow> nat list \<Rightarrow> node_id list \<Rightarrow> node_id list \<Rightarrow> bool" where
  "kahn_inv adj indeg stack order \<longleftrightarrow>
     length indeg = length adj \<and> (\<forall>p < length adj. set (adj ! p) \<subseteq> {..<length adj}) \<and>
     distinct (order @ stack) \<and> set (order @ stack) = {c. c < length adj \<and> indeg ! c = 0} \<and>
     (\<forall>c < length adj. indeg ! c = (\<Sum>p \<in> {..<length adj} - set order. count_list (adj ! p) c)) \<and>
     (\<forall>i < length order. \<forall>p. (p, order ! i) \<in> arcs adj \<longrightarrow> p \<in> set (take i order))"

lemma kahn_step:
  assumes inv: "kahn_inv adj indeg (i # stack) order"
  obtains indeg' stack' where "i < length adj" "relax (adj ! i) indeg stack = Some (indeg', stack')"
    "kahn_inv adj indeg' stack' (order @ [i])"
proof -
  let ?n = "length adj"
  let ?rest = "{..<?n} - set order"
  have len: "length indeg = ?n" and adj: "\<And>p. p < ?n \<Longrightarrow> set (adj ! p) \<subseteq> {..<?n}"
    and dist: "distinct (order @ i # stack)" and zero: "set (order @ i # stack) = {c. c < ?n \<and> indeg ! c = 0}"
    and deg: "\<And>c. c < ?n \<Longrightarrow> indeg ! c = (\<Sum>p \<in> ?rest. count_list (adj ! p) c)"
    and sorted: "\<And>j p. j < length order \<Longrightarrow> (p, order ! j) \<in> arcs adj \<Longrightarrow> p \<in> set (take j order)"
    using inv by (auto simp: kahn_inv_def)
  have i: "i < ?n" "indeg ! i = 0" "i \<notin> set order" using zero dist by auto
  have split: "indeg ! c = count_list (adj ! i) c + (\<Sum>p \<in> {..<?n} - set (order @ [i]). count_list (adj ! p) c)" if "c < ?n" for c
  proof -
    have "?rest - {i} = {..<?n} - set (order @ [i])" by auto
    moreover have "finite ?rest" "i \<in> ?rest" using i by simp_all
    ultimately show ?thesis unfolding deg [OF that] using sum.remove [of ?rest i "\<lambda>p. count_list (adj ! p) c"] by simp
  qed
  then have le: "\<And>c. c < length indeg \<Longrightarrow> count_list (adj ! i) c \<le> indeg ! c" by (simp add: len)
  have sub: "set (adj ! i) \<subseteq> {..<length indeg}" using adj [OF i(1)] by (simp add: len)
  obtain indeg' new where r: "relax (adj ! i) indeg stack = Some (indeg', new @ stack)" "length indeg' = ?n"
    "\<forall>c < ?n. indeg' ! c = indeg ! c - count_list (adj ! i) c" "distinct new"
    "set new = {c. c < ?n \<and> c \<in> set (adj ! i) \<and> indeg ! c = count_list (adj ! i) c}"
    using relax_spec [OF sub le, of stack] unfolding len by blast
  have deg': "indeg' ! c = (\<Sum>p \<in> {..<?n} - set (order @ [i]). count_list (adj ! p) c)" if "c < ?n" for c
    using split [OF that] r(3) that by simp
  have new: "set new = {c. c < ?n \<and> indeg ! c \<noteq> 0 \<and> indeg' ! c = 0}"
  proof -
    have "c \<in> set (adj ! i) \<and> indeg ! c = count_list (adj ! i) c \<longleftrightarrow> indeg ! c \<noteq> 0 \<and> indeg' ! c = 0" if "c < ?n" for c
    proof -
      have "indeg' ! c = indeg ! c - count_list (adj ! i) c" "count_list (adj ! i) c \<le> indeg ! c"
        using r(3) le [of c] that by (simp_all add: len)
      moreover have "c \<in> set (adj ! i) \<longleftrightarrow> count_list (adj ! i) c \<noteq> 0" by (simp only: count_list_0_iff not_not)
      ultimately show ?thesis by linarith
    qed
    then show ?thesis unfolding r(5) by blast
  qed
  have "indeg' ! c = 0" if "c < ?n" "indeg ! c = 0" for c using that r(3) by simp
  then have "set (order @ [i] @ new @ stack) = {c. c < ?n \<and> indeg' ! c = 0}" using zero new by auto
  moreover have "set new \<inter> set (order @ i # stack) = {}" unfolding new zero by auto
  then have "distinct (order @ [i] @ new @ stack)" using dist r(4) by auto
  moreover have "p \<in> set (take j (order @ [i]))" if "j < length (order @ [i])" "(p, (order @ [i]) ! j) \<in> arcs adj" for j p
  proof (cases "j < length order")
    case True
    with that(2) sorted [OF True] show ?thesis by (simp add: nth_append)
  next
    case False
    then have j: "j = length order" using that(1) by simp
    have p: "p < ?n" "i \<in> set (adj ! p)" using that(2) by (simp_all add: j arcs_def)
    then have "count_list (adj ! p) i \<noteq> 0" by (simp add: count_list_0_iff)
    moreover have "\<forall>q \<in> ?rest. count_list (adj ! q) i = 0" using deg [OF i(1)] i(2) by simp
    ultimately have "p \<notin> ?rest" by metis
    then have "p \<in> set order" using p(1) by simp
    then show ?thesis by (simp add: j)
  qed
  ultimately have "kahn_inv adj indeg' (new @ stack) (order @ [i])"
    unfolding kahn_inv_def using r(2) adj deg' by simp
  with that i(1) r(1) show thesis by blast
qed

lemma kahn_spec:
  "kahn_inv adj indeg stack order \<Longrightarrow>
     \<exists>indeg' order'. kahn adj indeg stack order = Some order' \<and> kahn_inv adj indeg' [] order'"
proof (induction adj indeg stack order rule: kahn.induct)
  case (2 adj indeg i stack order)
  from kahn_step [OF "2.prems"] obtain indeg' stack' where
    step: "i < length adj" "relax (adj ! i) indeg stack = Some (indeg', stack')" "kahn_inv adj indeg' stack' (order @ [i])" .
  from "2.IH" [OF step(1,2) refl step(3)] step(1,2) show ?case by simp
qed auto

text \<open>
  When the stack is empty, every node outside the order has a predecessor outside
  it, so there is none unless the arcs have a cycle.
\<close>

lemma kahn_done:
  assumes inv: "kahn_inv adj indeg [] order"
  shows "length order = length adj \<longleftrightarrow> acyclic (arcs adj)"
proof
  let ?n = "length adj"
  have order: "distinct order" "set order = {c. c < ?n \<and> indeg ! c = 0}"
    and sorted: "\<And>i p. i < length order \<Longrightarrow> (p, order ! i) \<in> arcs adj \<Longrightarrow> p \<in> set (take i order)"
    and deg: "\<And>c. c < ?n \<Longrightarrow> indeg ! c = (\<Sum>p \<in> {..<?n} - set order. count_list (adj ! p) c)"
    using inv by (auto simp: kahn_inv_def)
  have sub: "set order \<subseteq> {..<?n}" using order(2) by auto
  have card: "length order = ?n \<longleftrightarrow> set order = {..<?n}"
    using distinct_card [OF order(1)] sub by (metis card_lessThan card_subset_eq finite_lessThan)
  show "acyclic (arcs adj)" if "length order = ?n"
  proof -
    define pos where "pos c = (LEAST i. i < length order \<and> order ! i = c)" for c
    have "pos p < pos c" if pc: "(p, c) \<in> arcs adj" for p c
    proof -
      have "set (adj ! p) \<subseteq> {..<?n}" "p < ?n" "c \<in> set (adj ! p)" using inv pc by (auto simp: kahn_inv_def arcs_def)
      then have "c \<in> set order" using card \<open>length order = ?n\<close> by auto
      then have c: "pos c < length order \<and> order ! pos c = c"
        unfolding pos_def using LeastI_ex [of "\<lambda>i. i < length order \<and> order ! i = c"] by (auto simp: in_set_conv_nth)
      then have "p \<in> set (take (pos c) order)" using sorted [of "pos c" p] pc by simp
      then obtain i where i: "i < pos c" "order ! i = p" using c by (auto simp: in_set_conv_nth)
      then have "pos p \<le> i" unfolding pos_def [of p] using c by (intro Least_le) simp
      with i(1) show ?thesis by simp
    qed
    then have "arcs adj \<subseteq> measure pos" by auto
    then show ?thesis by (rule wf_acyclic [OF wf_subset [OF wf_measure]])
  qed
  show "length order = ?n" if "acyclic (arcs adj)"
  proof (rule ccontr)
    assume "length order \<noteq> ?n"
    then obtain c0 where c0: "c0 \<in> {..<?n} - set order" using card sub by blast
    have "arcs adj \<subseteq> {..<?n} \<times> {..<?n}" using inv by (auto simp: kahn_inv_def arcs_def)
    then have "finite (arcs adj)" by (rule finite_subset) simp
    then have "wf (arcs adj)" using that by (rule finite_acyclic_wf)
    from wfE_min [OF this c0] obtain c where c: "c \<in> {..<?n} - set order" "\<And>p. (p, c) \<in> arcs adj \<Longrightarrow> p \<notin> {..<?n} - set order"
      by metis
    then have "(\<Sum>p \<in> {..<?n} - set order. count_list (adj ! p) c) \<noteq> 0" 
    proof -
      have "c < ?n" "indeg ! c \<noteq> 0" using c(1) unfolding order(2) by simp_all
      then show ?thesis by (simp only: deg not_False_eq_True)
    qed
    then obtain p where "p \<in> {..<?n} - set order" "count_list (adj ! p) c \<noteq> 0"
      using sum.neutral [of "{..<?n} - set order" "\<lambda>p. count_list (adj ! p) c"] by metis
    with c(2) [of p] show False by (auto simp: arcs_def count_list_0_iff)
  qed
qed

section \<open>The order of a graph\<close>

lemma replicate_tables: "tables_ok n (replicate n []) (replicate n 0)" "arcs (replicate n []) = {}"
  by (auto simp: tables_ok_def arcs_def)

lemma kahn_inv_start:
  assumes "tables_ok n adj indeg"
  shows "kahn_inv adj indeg (rev (filter (\<lambda>i. indeg ! i = 0) [0..<n])) []"
  using assms by (auto simp: kahn_inv_def tables_ok_def)

lemma graph_tables:
  assumes ids: "ids_ok (gr_nodes g)" and refs: "refs_ok (length (gr_values g)) (gr_nodes g)"
  obtains adj indeg where
    "build_edges (zip (producers g) (consumers g)) (replicate (length (gr_nodes g)) [], replicate (length (gr_nodes g)) 0) =
       Some (adj, indeg)"
    "tables_ok (length (gr_nodes g)) adj indeg" "arcs adj = feeds (gr_nodes g)"
proof -
  let ?ns = "gr_nodes g" and ?k = "length (gr_values g)"
  have len: "length (producers g) = ?k" by (simp add: producers_def)
  have prod: "producers g ! v = Some p \<longleftrightarrow> produces ?ns v p" if "v < ?k" for v p
    unfolding producers_def using ids that by (rule producers_nth)
  have cons: "length (consumers g) = ?k" "set (consumers g ! v) = {c. c < length ?ns \<and> v \<in> set (gn_inputs (?ns ! c))}"
    if "v < ?k" for v
    unfolding consumers_def using consumers_nth [OF ids that] by simp_all
  have rows: "(Some p, cs) \<in> set (zip (producers g) (consumers g)) \<longleftrightarrow>
      (\<exists>v < ?k. produces ?ns v p \<and> cs = consumers g ! v)" for p cs
    using len cons(1) prod by (fastforce simp: in_set_zip)
  have "v < ?k" if "produces ?ns v p" for v p
    using that refs nth_mem [of p ?ns] by (auto simp: produces_def refs_ok_def)
  then have "{(p, c). \<exists>cs. (Some p, cs) \<in> set (zip (producers g) (consumers g)) \<and> c \<in> set cs} = feeds ?ns"
    unfolding feeds_def rows using cons(2) by fastforce
  moreover have "p < length ?ns \<and> set cs \<subseteq> {..<length ?ns}" if "(Some p, cs) \<in> set (zip (producers g) (consumers g))" for p cs
    using that cons(2) by (auto simp: rows produces_def)
  ultimately show thesis
    using that build_edges_spec [OF replicate_tables(1), of "zip (producers g) (consumers g)" "length ?ns"]
    by (auto simp: replicate_tables(2))
qed

lemma topo_order_cases:
  assumes ids: "ids_ok (gr_nodes g)" and refs: "refs_ok (length (gr_values g)) (gr_nodes g)"
  obtains (cycle) "topo_order g = Inl (TopoError ''graph contains a cycle'')" "\<not> acyclic (feeds (gr_nodes g))"
  | (order) order where "topo_order g = Inr order" "acyclic (feeds (gr_nodes g))"
      "distinct order" "set order = {..<length (gr_nodes g)}"
      "\<And>i p. i < length order \<Longrightarrow> (p, order ! i) \<in> feeds (gr_nodes g) \<Longrightarrow> p \<in> set (take i order)"
proof -
  let ?n = "length (gr_nodes g)"
  from graph_tables [OF assms] obtain adj indeg where
    t: "build_edges (zip (producers g) (consumers g)) (replicate ?n [], replicate ?n 0) = Some (adj, indeg)"
      "tables_ok ?n adj indeg" "arcs adj = feeds (gr_nodes g)" .
  from kahn_spec [OF kahn_inv_start [OF t(2)]] obtain indeg' order where
    k: "kahn adj indeg (rev (filter (\<lambda>i. indeg ! i = 0) [0..<?n])) [] = Some order" "kahn_inv adj indeg' [] order" by blast
  have len: "length adj = ?n" using t(2) by (simp add: tables_ok_def)
  have inv: "distinct order" "set order \<subseteq> {..<?n}"
    "\<And>i p. i < length order \<Longrightarrow> (p, order ! i) \<in> feeds (gr_nodes g) \<Longrightarrow> p \<in> set (take i order)"
    using k(2) len t(3) by (auto simp: kahn_inv_def)
  have run: "topo_order g = (if length order \<noteq> ?n then Inl (TopoError ''graph contains a cycle'') else Inr order)"
    using refs t(1) k(1) by (simp add: topo_order_def check_refs_None [symmetric] Let_def)
  have iff: "length order = ?n \<longleftrightarrow> acyclic (feeds (gr_nodes g))" using kahn_done [OF k(2)] by (simp add: len t(3))
  show thesis
  proof (cases "length order = ?n")
    case True
    then have "set order = {..<?n}" using inv(1,2) distinct_card [OF inv(1)] by (metis card_lessThan card_subset_eq finite_lessThan)
    with True iff run inv(1,3) order show thesis by simp
  next
    case False
    with iff run cycle show thesis by simp
  qed
qed

text \<open>
  C28: The topological order is right and complete.  For a graph whose nodes carry
  their positions as identifiers, as \<^verbatim>\<open>add_node\<close> assigns them, computing an order never
  panics; it succeeds if and only if every reference is in range and the graph has
  no cycle (a node that consumes its own output is one), and the order then lists
  every node once, each after the producers of all its inputs.
\<close>

theorem topo_order_exact:
  assumes "ids_ok (gr_nodes g)"
  shows "topo_order g \<noteq> Inl IndexPanic \<and>
    ((\<exists>order. topo_order g = Inr order) \<longleftrightarrow>
       refs_ok (length (gr_values g)) (gr_nodes g) \<and> acyclic (feeds (gr_nodes g))) \<and>
    (\<forall>order. topo_order g = Inr order \<longrightarrow> distinct order \<and> set order = {..<length (gr_nodes g)} \<and>
       (\<forall>i < length order. \<forall>p. (p, order ! i) \<in> feeds (gr_nodes g) \<longrightarrow> p \<in> set (take i order)))"
proof (cases "refs_ok (length (gr_values g)) (gr_nodes g)")
  case True
  from assms True show ?thesis
  proof (cases rule: topo_order_cases)
    case (order order)
    then show ?thesis using True by simp
  qed simp
next
  case False
  then obtain e where "check_refs (length (gr_values g)) (gr_nodes g) = Some e" by (auto simp: check_refs_None [symmetric])
  then have "topo_order g = Inl (TopoError e)" by (simp add: topo_order_def Let_def)
  with False show ?thesis by simp
qed

text \<open>Two nodes in a chain, the second node added first.\<close>

definition chain_graph :: graph where
  "chain_graph =
     \<lparr>gr_values = map (\<lambda>i. \<lparr>gv_id = i, gv_ty = \<lparr>vt_shape = [1], vt_dtype = ''f32''\<rparr>, gv_name = None\<rparr>) [0, 1, 2],
      gr_nodes = [\<lparr>gn_id = 0, gn_op = Softmax, gn_inputs = [1], gn_outputs = [2], gn_attrs = []\<rparr>,
                  \<lparr>gn_id = 1, gn_op = Silu, gn_inputs = [0], gn_outputs = [1], gn_attrs = []\<rparr>],
      gr_inputs = [0], gr_outputs = [2]\<rparr>"

theorem topo_order_exact_witness:
  "topo_order chain_graph = Inr [1, 0] \<and> acyclic (feeds (gr_nodes chain_graph)) \<and>
   (\<forall>p. (p, 1) \<notin> feeds (gr_nodes chain_graph))"
proof -
  have "ids_ok (gr_nodes chain_graph)" by (simp add: ids_ok_def chain_graph_def less_Suc_eq)
  note exact = topo_order_exact [OF this]
  have order: "topo_order chain_graph = Inr [1, 0]"
    by (simp add: topo_order_def chain_graph_def bad_ref_def producers_def consumers_def set_producers_def add_consumers_def
        Let_def numeral_2_eq_2)
  moreover from order exact have "acyclic (feeds (gr_nodes chain_graph))"
    "\<forall>i < length [1, 0 :: nat]. \<forall>p. (p, [1, 0] ! i) \<in> feeds (gr_nodes chain_graph) \<longrightarrow> p \<in> set (take i [1, 0])" by blast+
  ultimately show ?thesis by (auto dest: spec [of _ 0])
qed

end
