(* ===== verification/Ir_Resource.thy ===== *)
theory Ir_Resource
  imports Ir_Graph "HOL-Library.Char_ord" "HOL-Library.List_Lexorder"
begin

text \<open>
  The contracts of the intermediate representation: context constraints and their
  memory accounting (\<^verbatim>\<open>logan-ir/src/context.rs\<close>), resource budgets and resource plans
  (\<^verbatim>\<open>resource.rs\<close>), execution overlays (\<^verbatim>\<open>execution.rs\<close>) and the plan artifact that carries
  them (\<^verbatim>\<open>plan.rs\<close>).  Byte and token counts are \<^verbatim>\<open>u64\<close> values, written as naturals with
  checked sums.  The binary encoding of a plan is done by the \<^verbatim>\<open>bincode\<close> crate and is a
  parameter.
\<close>

section \<open>Checked sums\<close>

definition try_sum_u64 :: "nat list \<Rightarrow> nat option" where
  "try_sum_u64 xs = fold (\<lambda>x acc. case acc of None \<Rightarrow> None | Some a \<Rightarrow> checked_add_u64 a x) xs (Some 0)"

lemma checked_add_u64_iff: "checked_add_u64 a b = Some c \<longleftrightarrow> c = a + b \<and> a + b \<le> u64_max"
  by (auto simp: checked_add_u64_def)

lemma try_sum_u64_iff: "try_sum_u64 xs = (if sum_list xs \<le> u64_max then Some (sum_list xs) else None)"
proof -
  let ?f = "\<lambda>x acc. case acc of None \<Rightarrow> None | Some a \<Rightarrow> checked_add_u64 a x"
  have none: "fold ?f xs None = None" for xs by (induction xs) simp_all
  have "fold ?f xs (Some a) = (if a + sum_list xs \<le> u64_max then Some (a + sum_list xs) else None)"
    if "a \<le> u64_max" for a xs
    using that by (induction xs arbitrary: a) (auto simp: checked_add_u64_def none [unfolded checked_add_u64_def] add.assoc)
  from this [of 0 xs] show ?thesis by (simp add: try_sum_u64_def)
qed

section \<open>Context\<close>

datatype context_constraint_kind = MaximumContext | RequiredContext

record context_constraint =
  cc_kind :: context_constraint_kind
  cc_tokens :: nat

definition maximum_context :: "nat \<Rightarrow> context_constraint" where
  "maximum_context n = \<lparr>cc_kind = MaximumContext, cc_tokens = n\<rparr>"

definition required_context :: "nat \<Rightarrow> context_constraint" where
  "required_context n = \<lparr>cc_kind = RequiredContext, cc_tokens = n\<rparr>"

definition valid_for_model :: "context_constraint \<Rightarrow> nat \<Rightarrow> bool" where
  "valid_for_model c model_max \<longleftrightarrow> 0 < cc_tokens c \<and> 0 < model_max \<and> cc_tokens c \<le> model_max"

definition allows :: "context_constraint \<Rightarrow> nat \<Rightarrow> bool" where
  "allows c compiled \<longleftrightarrow>
     (if compiled = 0 then False
      else case cc_kind c of MaximumContext \<Rightarrow> compiled \<le> cc_tokens c | RequiredContext \<Rightarrow> cc_tokens c \<le> compiled)"

record context_state_bytes =
  cs_full_attention_kv :: nat
  cs_gdn_recurrent :: nat
  cs_gdn_conv :: nat
  cs_qsa_index :: nat
  cs_ple :: nat
  cs_mtp_speculative :: nat
  cs_other :: nat

definition context_total :: "context_state_bytes \<Rightarrow> nat option" where
  "context_total s = try_sum_u64 [cs_full_attention_kv s, cs_gdn_recurrent s, cs_gdn_conv s, cs_qsa_index s, cs_ple s,
     cs_mtp_speculative s, cs_other s]"

definition context_total_bytes :: "context_state_bytes \<Rightarrow> nat" where
  "context_total_bytes s = (case context_total s of Some n \<Rightarrow> n | None \<Rightarrow> u64_max)"

record context_plan =
  cp_constraint :: context_constraint
  cp_model_max_tokens :: nat
  cp_compiled_max_tokens :: nat
  cp_state_bytes :: context_state_bytes

definition context_plan_valid :: "context_plan \<Rightarrow> bool" where
  "context_plan_valid p \<longleftrightarrow> valid_for_model (cp_constraint p) (cp_model_max_tokens p) \<and>
     cp_compiled_max_tokens p \<le> cp_model_max_tokens p \<and> allows (cp_constraint p) (cp_compiled_max_tokens p) \<and>
     context_total (cp_state_bytes p) \<noteq> None"

record planner_memory_budget =
  mb_physical_memory :: nat
  mb_os_reserve :: nat
  mb_runtime_reserve :: nat
  mb_safety_reserve :: nat
  mb_fixed_model_state :: nat
  mb_context_state :: context_state_bytes
  mb_execution_scratch :: nat

definition reserved_bytes :: "planner_memory_budget \<Rightarrow> nat option" where
  "reserved_bytes b =
     (case context_total (mb_context_state b) of
        None \<Rightarrow> None
      | Some context \<Rightarrow> try_sum_u64 [mb_os_reserve b, mb_runtime_reserve b, mb_safety_reserve b, mb_fixed_model_state b,
          context, mb_execution_scratch b])"

definition available_for_weights_and_cache :: "planner_memory_budget \<Rightarrow> nat option" where
  "available_for_weights_and_cache b =
     (case reserved_bytes b of
        None \<Rightarrow> None
      | Some r \<Rightarrow> if r \<le> mb_physical_memory b then Some (mb_physical_memory b - r) else None)"

section \<open>Resource budgets\<close>

type_synonym pool_id = string

record memory_pool_budget =
  mp_id :: pool_id
  mp_capacity_bytes :: nat

record storage_pool_budget =
  sp_id :: pool_id
  sp_available_bytes :: nat
  sp_writable :: bool

record resource_budget =
  rb_memory_pools :: "memory_pool_budget list"
  rb_storage_pools :: "storage_pool_budget list"

text \<open>\<^verbatim>\<open>s.trim().is_empty()\<close> for the identifiers, which are ASCII.\<close>

definition blank :: "string \<Rightarrow> bool" where
  "blank s \<longleftrightarrow> list_all (\<lambda>c. of_char c = (32 :: nat) \<or> 9 \<le> (of_char c :: nat) \<and> (of_char c :: nat) \<le> 13) s"

fun validate_memory_pools :: "memory_pool_budget list \<Rightarrow> pool_id set \<Rightarrow> string + unit" where
  "validate_memory_pools [] seen = Inr ()"
| "validate_memory_pools (p # ps) seen =
     (if blank (mp_id p) then Inl ''memory pool id cannot be empty''
      else if mp_capacity_bytes p = 0 then Inl (''memory pool `'' @ mp_id p @ ''` has zero capacity'')
      else if mp_id p \<in> seen then Inl (''duplicate memory pool `'' @ mp_id p @ ''`'')
      else validate_memory_pools ps (insert (mp_id p) seen))"

fun validate_storage_pools :: "storage_pool_budget list \<Rightarrow> pool_id set \<Rightarrow> string + unit" where
  "validate_storage_pools [] seen = Inr ()"
| "validate_storage_pools (p # ps) seen =
     (if blank (sp_id p) then Inl ''storage pool id cannot be empty''
      else if sp_id p \<in> seen then Inl (''duplicate storage pool `'' @ sp_id p @ ''`'')
      else validate_storage_pools ps (insert (sp_id p) seen))"

definition validate_budget :: "resource_budget \<Rightarrow> string + unit" where
  "validate_budget b =
     (if rb_memory_pools b = [] then Inl ''resource budget requires at least one memory pool''
      else case validate_memory_pools (rb_memory_pools b) {} of
             Inl e \<Rightarrow> Inl e
           | Inr _ \<Rightarrow> validate_storage_pools (rb_storage_pools b) {})"

definition memory_capacity :: "resource_budget \<Rightarrow> pool_id \<Rightarrow> nat option" where
  "memory_capacity b i = map_option mp_capacity_bytes (find (\<lambda>p. mp_id p = i) (rb_memory_pools b))"

definition storage_pool :: "resource_budget \<Rightarrow> pool_id \<Rightarrow> storage_pool_budget option" where
  "storage_pool b i = find (\<lambda>p. sp_id p = i) (rb_storage_pools b)"

section \<open>Resource plans\<close>

datatype data_mutability = Immutable | Mutable
datatype backing_kind = PackageRecord | RuntimeStateFile | ResidentOnly | DevicePersistent
datatype access_kind = DirectShared | Mapped | AsyncStream | Staged

record backing_plan =
  bk_kind :: backing_kind
  bk_storage_pool :: "pool_id option"
  bk_bytes :: nat
  bk_alignment :: nat
  bk_page_or_block_bytes :: nat

record residency_plan =
  rp_memory_pool :: pool_id
  rp_minimum_working_set_bytes :: nat
  rp_target_resident_bytes :: nat
  rp_pinned_bytes :: nat
  rp_eviction_priority :: nat

record access_plan =
  ac_kind :: access_kind
  ac_prefetch_depth :: nat
  ac_read_bytes :: nat
  ac_write_bytes :: nat

record resource_plan =
  rs_mutability :: data_mutability
  rs_backing :: backing_plan
  rs_residency :: residency_plan
  rs_access :: access_plan

definition validate_resource :: "resource_plan \<Rightarrow> string + unit" where
  "validate_resource r =
     (let bk = rs_backing r; rp = rs_residency r in
      if rp_minimum_working_set_bytes rp < rp_pinned_bytes rp then Inl ''pinned bytes exceed minimum working set''
      else if rp_target_resident_bytes rp < rp_minimum_working_set_bytes rp
      then Inl ''minimum working set exceeds target resident bytes''
      else if bk_alignment bk = 0 then Inl ''backing alignment must be non-zero''
      else if bk_page_or_block_bytes bk = 0 then Inl ''backing page/block size must be non-zero''
      else if rs_mutability r = Mutable \<and> bk_kind bk = PackageRecord
      then Inl ''mutable state cannot use immutable package-record backing''
      else if rs_mutability r = Immutable \<and> bk_kind bk = RuntimeStateFile
      then Inl ''immutable package data should not require mutable state-file backing''
      else case bk_kind bk of
             PackageRecord \<Rightarrow>
               if bk_storage_pool bk \<noteq> None then Inl ''package/resident-only backing must not bind a runtime storage pool'' else Inr ()
           | ResidentOnly \<Rightarrow>
               if bk_storage_pool bk \<noteq> None then Inl ''package/resident-only backing must not bind a runtime storage pool'' else Inr ()
           | RuntimeStateFile \<Rightarrow>
               if bk_storage_pool bk = None then Inl ''runtime/device backing requires a storage-pool id'' else Inr ()
           | DevicePersistent \<Rightarrow>
               if bk_storage_pool bk = None then Inl ''runtime/device backing requires a storage-pool id'' else Inr ())"

definition immutable_package :: "nat \<Rightarrow> pool_id \<Rightarrow> nat \<Rightarrow> nat \<Rightarrow> nat \<Rightarrow> resource_plan" where
  "immutable_package bytes pool min_ws target reads =
     \<lparr>rs_mutability = Immutable,
      rs_backing = \<lparr>bk_kind = PackageRecord, bk_storage_pool = None, bk_bytes = bytes, bk_alignment = 1,
        bk_page_or_block_bytes = 1\<rparr>,
      rs_residency = \<lparr>rp_memory_pool = pool, rp_minimum_working_set_bytes = min_ws, rp_target_resident_bytes = target,
        rp_pinned_bytes = 0, rp_eviction_priority = 100\<rparr>,
      rs_access = \<lparr>ac_kind = AsyncStream, ac_prefetch_depth = 1, ac_read_bytes = reads, ac_write_bytes = 0\<rparr>\<rparr>"

definition mutable_file_backed ::
  "nat \<Rightarrow> pool_id \<Rightarrow> pool_id \<Rightarrow> nat \<Rightarrow> nat \<Rightarrow> nat \<Rightarrow> nat \<Rightarrow> nat \<Rightarrow> resource_plan" where
  "mutable_file_backed bytes storage pool min_ws target block reads writes =
     \<lparr>rs_mutability = Mutable,
      rs_backing = \<lparr>bk_kind = RuntimeStateFile, bk_storage_pool = Some storage, bk_bytes = bytes,
        bk_alignment = max block 1, bk_page_or_block_bytes = max block 1\<rparr>,
      rs_residency = \<lparr>rp_memory_pool = pool, rp_minimum_working_set_bytes = min_ws, rp_target_resident_bytes = target,
        rp_pinned_bytes = 0, rp_eviction_priority = 80\<rparr>,
      rs_access = \<lparr>ac_kind = AsyncStream, ac_prefetch_depth = 1, ac_read_bytes = reads, ac_write_bytes = writes\<rparr>\<rparr>"

definition resident_only :: "nat \<Rightarrow> pool_id \<Rightarrow> resource_plan" where
  "resident_only bytes pool =
     \<lparr>rs_mutability = Mutable,
      rs_backing = \<lparr>bk_kind = ResidentOnly, bk_storage_pool = None, bk_bytes = bytes, bk_alignment = 1,
        bk_page_or_block_bytes = 1\<rparr>,
      rs_residency = \<lparr>rp_memory_pool = pool, rp_minimum_working_set_bytes = bytes, rp_target_resident_bytes = bytes,
        rp_pinned_bytes = bytes, rp_eviction_priority = 65535\<rparr>,
      rs_access = \<lparr>ac_kind = DirectShared, ac_prefetch_depth = 0, ac_read_bytes = 0, ac_write_bytes = 0\<rparr>\<rparr>"

definition mutable_backing_bytes :: "resource_plan \<Rightarrow> nat" where
  "mutable_backing_bytes r = (if bk_kind (rs_backing r) = RuntimeStateFile then bk_bytes (rs_backing r) else 0)"

definition immutable_package_backing_bytes :: "resource_plan \<Rightarrow> nat" where
  "immutable_package_backing_bytes r = (if bk_kind (rs_backing r) = PackageRecord then bk_bytes (rs_backing r) else 0)"

end
