(* ===== verification/Ir_Optimizer.thy ===== *)
theory Ir_Optimizer
  imports Ir_Resource "HOL-Library.Product_Lexorder" "HOL-Library.Word"
begin

text \<open>
  The physical optimizer of the intermediate representation
  (\<^verbatim>\<open>logan-ir/src/optimizer.rs\<close>): a search over one option per group with Pareto
  pruning, the frontier over the context candidates, and the choice of a few
  labelled plans from it.
\<close>

unbundle bit_operations_syntax

section \<open>Data\<close>

datatype placement = ResidentPlacement | StreamedPlacement | GpuPlacement

record quant_spec =
  qs_kind :: string
  qs_scale :: "string option"

record representation_candidate =
  ca_id :: string
  ca_quant :: quant_spec
  ca_layout :: nat
  ca_placement :: placement
  ca_resident_bytes :: nat
  ca_package_bytes :: nat
  ca_storage_traffic_bytes :: nat
  ca_latency_cost :: nat
  ca_quality_loss_ppm :: nat
  ca_dispatch_class :: nat
  ca_rationale :: string

record candidate_group =
  cg_key :: string
  cg_options :: "representation_candidate list"

record context_candidate =
  cx_tokens :: nat
  cx_resident_bytes :: nat
  cx_latency_cost :: nat

record optimizer_input =
  oi_cost_model :: string
  oi_groups :: "candidate_group list"
  oi_context_constraint :: context_constraint
  oi_context_candidates :: "context_candidate list"
  oi_memory_budget_bytes :: nat
  oi_base_resident_bytes :: nat
  oi_base_package_bytes :: nat
  oi_base_storage_traffic_bytes :: nat
  oi_base_latency_cost :: nat
  oi_base_quality_loss_ppm :: nat
  oi_switch_penalty :: nat

record plan_metrics =
  pm_quality_loss_ppm :: nat
  pm_context_tokens :: nat
  pm_latency_cost :: nat
  pm_resident_bytes :: nat
  pm_package_bytes :: nat
  pm_storage_traffic_bytes :: nat

record rejected_candidate =
  rj_id :: string
  rj_reason :: string

record plan_decision =
  pd_group :: string
  pd_chosen :: representation_candidate
  pd_rejected :: "rejected_candidate list"

record pareto_plan =
  pp_id :: string
  pp_labels :: "string list"
  pp_cost_model :: string
  pp_metrics :: plan_metrics
  pp_decisions :: "plan_decision list"
  pp_context_plan :: "context_plan option"
  pp_memory_budget :: "planner_memory_budget option"

record search_state =
  ss_quality_loss_ppm :: nat
  ss_latency_cost :: nat
  ss_resident_bytes :: nat
  ss_package_bytes :: nat
  ss_storage_traffic_bytes :: nat
  ss_last_dispatch_class :: nat
  ss_choices :: "nat list"

definition max_frontier_states :: nat where
  "max_frontier_states = 4096"

section \<open>Dominance\<close>

definition state_dominates :: "search_state \<Rightarrow> search_state \<Rightarrow> bool" where
  "state_dominates l r \<longleftrightarrow>
     (ss_quality_loss_ppm l \<le> ss_quality_loss_ppm r \<and> ss_latency_cost l \<le> ss_latency_cost r \<and>
      ss_resident_bytes l \<le> ss_resident_bytes r \<and> ss_package_bytes l \<le> ss_package_bytes r \<and>
      ss_storage_traffic_bytes l \<le> ss_storage_traffic_bytes r) \<and>
     (ss_quality_loss_ppm l < ss_quality_loss_ppm r \<or> ss_latency_cost l < ss_latency_cost r \<or>
      ss_resident_bytes l < ss_resident_bytes r \<or> ss_package_bytes l < ss_package_bytes r \<or>
      ss_storage_traffic_bytes l < ss_storage_traffic_bytes r)"

definition dominates :: "plan_metrics \<Rightarrow> plan_metrics \<Rightarrow> bool" where
  "dominates l r \<longleftrightarrow>
     (pm_quality_loss_ppm l \<le> pm_quality_loss_ppm r \<and> pm_context_tokens r \<le> pm_context_tokens l \<and>
      pm_latency_cost l \<le> pm_latency_cost r \<and> pm_resident_bytes l \<le> pm_resident_bytes r \<and>
      pm_package_bytes l \<le> pm_package_bytes r \<and> pm_storage_traffic_bytes l \<le> pm_storage_traffic_bytes r) \<and>
     (pm_quality_loss_ppm l < pm_quality_loss_ppm r \<or> pm_context_tokens r < pm_context_tokens l \<or>
      pm_latency_cost l < pm_latency_cost r \<or> pm_resident_bytes l < pm_resident_bytes r \<or>
      pm_package_bytes l < pm_package_bytes r \<or> pm_storage_traffic_bytes l < pm_storage_traffic_bytes r)"

section \<open>Search\<close>

definition metrics_with_context :: "search_state \<Rightarrow> context_candidate \<Rightarrow> plan_metrics option" where
  "metrics_with_context s c =
     (case checked_add_u64 (ss_latency_cost s) (cx_latency_cost c) of
        None \<Rightarrow> None
      | Some latency \<Rightarrow>
          (case checked_add_u64 (ss_resident_bytes s) (cx_resident_bytes c) of
             None \<Rightarrow> None
           | Some resident \<Rightarrow> Some
               \<lparr>pm_quality_loss_ppm = ss_quality_loss_ppm s, pm_context_tokens = cx_tokens c, pm_latency_cost = latency,
                pm_resident_bytes = resident, pm_package_bytes = ss_package_bytes s,
                pm_storage_traffic_bytes = ss_storage_traffic_bytes s\<rparr>))"

definition validate_input :: "optimizer_input \<Rightarrow> string + unit" where
  "validate_input inp =
     (if blank (oi_cost_model inp) then Inl ''optimizer cost model id cannot be empty''
      else if oi_memory_budget_bytes inp = 0 then Inl ''optimizer memory budget must be non-zero''
      else if oi_memory_budget_bytes inp < oi_base_resident_bytes inp
      then Inl (''fixed resident state needs '' @ show_nat (oi_base_resident_bytes inp) @
             '' bytes but the optimizer memory budget is '' @ show_nat (oi_memory_budget_bytes inp) @ '' bytes'')
      else if oi_context_candidates inp = [] then Inl ''optimizer requires at least one context candidate''
      else if \<not> list_ex (\<lambda>c. allows (oi_context_constraint inp) (cx_tokens c)) (oi_context_candidates inp)
      then Inl ''no context candidate satisfies the requested context constraint''
      else if list_ex (\<lambda>g. cg_key g = [] \<or> cg_options g = []) (oi_groups inp)
      then Inl ''optimizer groups require a non-empty key and at least one option''
      else Inr ())"

definition initial_state :: "optimizer_input \<Rightarrow> search_state" where
  "initial_state inp =
     \<lparr>ss_quality_loss_ppm = oi_base_quality_loss_ppm inp, ss_latency_cost = oi_base_latency_cost inp,
      ss_resident_bytes = oi_base_resident_bytes inp, ss_package_bytes = oi_base_package_bytes inp,
      ss_storage_traffic_bytes = oi_base_storage_traffic_bytes inp, ss_last_dispatch_class = 0, ss_choices = []\<rparr>"

text \<open>
  One state extended by one option: an overflow is an error, \<open>Inr None\<close> is the
  \<^verbatim>\<open>continue\<close> of an option that does not fit the budget.
\<close>

definition switches :: "search_state \<Rightarrow> representation_candidate \<Rightarrow> bool" where
  "switches s opt \<longleftrightarrow> ca_dispatch_class opt \<noteq> 0 \<and> ss_last_dispatch_class s \<noteq> 0 \<and>
     ca_dispatch_class opt \<noteq> ss_last_dispatch_class s"

definition latency_after :: "optimizer_input \<Rightarrow> search_state \<Rightarrow> representation_candidate \<Rightarrow> string + nat" where
  "latency_after inp s opt =
     (case checked_add_u64 (ss_latency_cost s) (ca_latency_cost opt) of
        None \<Rightarrow> Inl ''optimizer latency cost overflow''
      | Some l \<Rightarrow>
          if switches s opt then
            (case checked_add_u64 l (oi_switch_penalty inp) of
               None \<Rightarrow> Inl ''optimizer heterogeneity cost overflow''
             | Some l' \<Rightarrow> Inr l')
          else Inr l)"

definition extend :: "optimizer_input \<Rightarrow> search_state \<Rightarrow> nat \<times> representation_candidate \<Rightarrow> string + search_state option" where
  "extend inp s iopt =
     (case iopt of (i, opt) \<Rightarrow>
      case latency_after inp s opt of
        Inl e \<Rightarrow> Inl e
      | Inr latency \<Rightarrow>
          (case checked_add_u64 (ss_resident_bytes s) (ca_resident_bytes opt) of
             None \<Rightarrow> Inl ''optimizer resident bytes overflow''
           | Some resident \<Rightarrow>
               if oi_memory_budget_bytes inp < resident then Inr None
               else
                 (case checked_add_u64 (ss_quality_loss_ppm s) (ca_quality_loss_ppm opt) of
                    None \<Rightarrow> Inl ''optimizer quality cost overflow''
                  | Some quality \<Rightarrow>
                      (case checked_add_u64 (ss_package_bytes s) (ca_package_bytes opt) of
                         None \<Rightarrow> Inl ''optimizer package bytes overflow''
                       | Some package \<Rightarrow>
                           (case checked_add_u64 (ss_storage_traffic_bytes s) (ca_storage_traffic_bytes opt) of
                              None \<Rightarrow> Inl ''optimizer storage traffic overflow''
                            | Some traffic \<Rightarrow> Inr (Some
                                \<lparr>ss_quality_loss_ppm = quality, ss_latency_cost = latency, ss_resident_bytes = resident,
                                 ss_package_bytes = package, ss_storage_traffic_bytes = traffic,
                                 ss_last_dispatch_class =
                                   (if ca_dispatch_class opt = 0 then ss_last_dispatch_class s else ca_dispatch_class opt),
                                 ss_choices = ss_choices s @ [i]\<rparr>))))))"

text \<open>A loop body over all pairs of a state and an option, in order, up to the first error.\<close>

fun collect :: "('a \<Rightarrow> string + 'b option) \<Rightarrow> 'a list \<Rightarrow> string + 'b list" where
  "collect f [] = Inr []"
| "collect f (x # xs) =
     (case f x of
        Inl e \<Rightarrow> Inl e
      | Inr y \<Rightarrow> (case collect f xs of Inl e \<Rightarrow> Inl e | Inr ys \<Rightarrow> Inr ((case y of None \<Rightarrow> [] | Some z \<Rightarrow> [z]) @ ys)))"

definition next_states :: "optimizer_input \<Rightarrow> candidate_group \<Rightarrow> search_state list \<Rightarrow> string + search_state list" where
  "next_states inp g states =
     collect (\<lambda>(s, iopt). extend inp s iopt) (List.product states (enumerate 0 (cg_options g)))"

section \<open>Pruning\<close>

definition state_sort_key :: "search_state \<Rightarrow> nat \<times> nat \<times> nat \<times> nat \<times> nat \<times> nat \<times> nat list" where
  "state_sort_key s = (ss_last_dispatch_class s, ss_quality_loss_ppm s, ss_latency_cost s, ss_resident_bytes s,
     ss_package_bytes s, ss_storage_traffic_bytes s, ss_choices s)"

definition state_trim_key :: "search_state \<Rightarrow> nat \<times> nat \<times> nat \<times> nat \<times> nat \<times> nat \<times> nat list" where
  "state_trim_key s =
     (saturating_add_u64 (saturating_add_u64 (saturating_add_u64 (ss_quality_loss_ppm s) (ss_latency_cost s))
        (ss_resident_bytes s div 4096)) (ss_storage_traffic_bytes s div 4096),
      ss_quality_loss_ppm s, ss_latency_cost s, ss_resident_bytes s, ss_package_bytes s, ss_last_dispatch_class s, ss_choices s)"

definition displaces :: "search_state \<Rightarrow> search_state \<Rightarrow> bool" where
  "displaces l r \<longleftrightarrow> ss_last_dispatch_class l = ss_last_dispatch_class r \<and> state_dominates l r"

fun prune_loop :: "('a \<Rightarrow> 'a \<Rightarrow> bool) \<Rightarrow> 'a list \<Rightarrow> 'a list \<Rightarrow> 'a list" where
  "prune_loop beats [] kept = kept"
| "prune_loop beats (s # ss) kept =
     (if list_ex (\<lambda>k. beats k s) kept then prune_loop beats ss kept
      else prune_loop beats ss (filter (\<lambda>k. \<not> beats s k) kept @ [s]))"

definition prune_states :: "search_state list \<Rightarrow> search_state list" where
  "prune_states states =
     (let kept = prune_loop displaces (sort_key state_sort_key states) [] in
      if max_frontier_states < length kept then take max_frontier_states (sort_key state_trim_key kept) else kept)"

fun search_groups :: "optimizer_input \<Rightarrow> candidate_group list \<Rightarrow> search_state list \<Rightarrow> string + search_state list" where
  "search_groups inp [] states = Inr states"
| "search_groups inp (g # gs) states =
     (case next_states inp g states of
        Inl e \<Rightarrow> Inl e
      | Inr next \<Rightarrow>
          (let states' = prune_states next in
           if states' = []
           then Inl (''no feasible physical representation remains after group `'' @ cg_key g @ ''` within '' @
                  show_nat (oi_memory_budget_bytes inp) @ '' bytes'')
           else search_groups inp gs states'))"

section \<open>Plans\<close>

text \<open>The stable identifier: FNV-1a over the cost model, the metrics and the decisions, in hexadecimal.\<close>

definition feed :: "nat list \<Rightarrow> 64 word \<Rightarrow> 64 word" where
  "feed bytes hash = fold (\<lambda>b h. (h XOR of_nat b) * 0x100000001b3) bytes hash"

definition string_bytes :: "string \<Rightarrow> nat list" where
  "string_bytes = map of_char"

definition u64_le_bytes :: "nat \<Rightarrow> nat list" where
  "u64_le_bytes n = map (\<lambda>i. n div 256 ^ i mod 256) [0..<8]"

definition hex_digit :: "nat \<Rightarrow> char" where
  "hex_digit d = char_of (if d < 10 then 48 + d else 87 + d)"

definition hex16 :: "64 word \<Rightarrow> string" where
  "hex16 w = map (\<lambda>i. hex_digit (unat w div 16 ^ (15 - i) mod 16)) [0..<16]"

definition plan_hash :: "string \<Rightarrow> plan_metrics \<Rightarrow> plan_decision list \<Rightarrow> 64 word" where
  "plan_hash cost_model m decisions =
     fold (\<lambda>d h. feed (string_bytes (ca_id (pd_chosen d))) (feed (string_bytes (pd_group d)) h)) decisions
       (fold (\<lambda>v. feed (u64_le_bytes v))
          [pm_quality_loss_ppm m, pm_context_tokens m, pm_latency_cost m, pm_resident_bytes m, pm_package_bytes m,
           pm_storage_traffic_bytes m]
          (feed (string_bytes cost_model) 0xcbf29ce484222325))"

definition stable_plan_id :: "string \<Rightarrow> plan_metrics \<Rightarrow> plan_decision list \<Rightarrow> string" where
  "stable_plan_id cost_model m decisions = ''p-'' @ hex16 (plan_hash cost_model m decisions)"

definition reject_reason :: "representation_candidate \<Rightarrow> string" where
  "reject_reason c = ''candidate q='' @ show_nat (ca_quality_loss_ppm c) @ ''ppm latency='' @ show_nat (ca_latency_cost c) @
     '' resident='' @ show_nat (ca_resident_bytes c) @ '' package='' @ show_nat (ca_package_bytes c) @
     '' traffic='' @ show_nat (ca_storage_traffic_bytes c) @ '': '' @ ca_rationale c"

definition build_decision :: "candidate_group \<Rightarrow> nat \<Rightarrow> plan_decision" where
  "build_decision g choice =
     \<lparr>pd_group = cg_key g, pd_chosen = cg_options g ! choice,
      pd_rejected = map (\<lambda>(_, c). \<lparr>rj_id = ca_id c, rj_reason = reject_reason c\<rparr>)
        (filter (\<lambda>(i, _). i \<noteq> choice) (enumerate 0 (cg_options g)))\<rparr>"

definition build_plan :: "optimizer_input \<Rightarrow> plan_metrics \<Rightarrow> nat list \<Rightarrow> pareto_plan" where
  "build_plan inp m choices =
     (let decisions = map (\<lambda>(g, choice). build_decision g choice) (zip (oi_groups inp) choices)
      in \<lparr>pp_id = stable_plan_id (oi_cost_model inp) m decisions, pp_labels = [], pp_cost_model = oi_cost_model inp,
          pp_metrics = m, pp_decisions = decisions, pp_context_plan = None, pp_memory_budget = None\<rparr>)"

definition plan_sort_key :: "pareto_plan \<Rightarrow> nat \<times> nat \<times> nat \<times> nat \<times> nat \<times> nat \<times> string" where
  "plan_sort_key p =
     (let m = pp_metrics p in
      (pm_quality_loss_ppm m, u64_max - pm_context_tokens m, pm_latency_cost m, pm_resident_bytes m, pm_package_bytes m,
       pm_storage_traffic_bytes m, pp_id p))"

text \<open>The points of the frontier: every allowed context with every state, as far as they fit.\<close>

definition context_points ::
  "optimizer_input \<Rightarrow> search_state list \<Rightarrow> context_candidate \<Rightarrow> (plan_metrics \<times> nat list) list" where
  "context_points inp states c =
     concat (map (\<lambda>s. case metrics_with_context s c of
                        None \<Rightarrow> []
                      | Some m \<Rightarrow> if pm_resident_bytes m \<le> oi_memory_budget_bytes inp then [(m, ss_choices s)] else []) states)"

definition raw_points :: "optimizer_input \<Rightarrow> search_state list \<Rightarrow> (plan_metrics \<times> nat list) list" where
  "raw_points inp states =
     concat (map (context_points inp states)
       (filter (\<lambda>c. allows (oi_context_constraint inp) (cx_tokens c)) (oi_context_candidates inp)))"

definition keep_points :: "(plan_metrics \<times> nat list) list \<Rightarrow> (plan_metrics \<times> nat list) list" where
  "keep_points raw =
     map ((!) raw) (filter (\<lambda>i. \<not> list_ex (\<lambda>j. j \<noteq> i \<and> dominates (fst (raw ! j)) (fst (raw ! i))) [0..<length raw])
       [0..<length raw])"

fun dedup_by_id :: "pareto_plan list \<Rightarrow> pareto_plan list" where
  "dedup_by_id (p # q # ps) = (if pp_id q = pp_id p then dedup_by_id (p # ps) else p # dedup_by_id (q # ps))"
| "dedup_by_id ps = ps"

definition frontier :: "optimizer_input \<Rightarrow> (plan_metrics \<times> nat list) list \<Rightarrow> pareto_plan list" where
  "frontier inp raw = sort_key plan_sort_key (map (\<lambda>(m, choices). build_plan inp m choices) (keep_points raw))"

definition pareto_plans :: "optimizer_input \<Rightarrow> string + pareto_plan list" where
  "pareto_plans inp =
     (case validate_input inp of
        Inl e \<Rightarrow> Inl e
      | Inr _ \<Rightarrow>
          (case search_groups inp (oi_groups inp) [initial_state inp] of
             Inl e \<Rightarrow> Inl e
           | Inr states \<Rightarrow>
               (let raw = raw_points inp states in
                if raw = [] then Inl ''no optimizer plan satisfies the context and memory constraints''
                else Inr (dedup_by_id (frontier inp raw)))))"

section \<open>The labelled plans\<close>

fun best_from :: "('a \<Rightarrow> 'k :: linorder) \<Rightarrow> nat \<Rightarrow> 'a list \<Rightarrow> (nat \<times> 'k) option \<Rightarrow> (nat \<times> 'k) option" where
  "best_from f i [] best = best"
| "best_from f i (x # xs) best =
     best_from f (i + 1) xs
       (case best of None \<Rightarrow> Some (i, f x) | Some (j, k) \<Rightarrow> if f x < k then Some (i, f x) else best)"

definition best_index :: "('a \<Rightarrow> 'k :: linorder) \<Rightarrow> 'a list \<Rightarrow> nat" where
  "best_index f xs = (case best_from f 0 xs None of None \<Rightarrow> 0 | Some (i, _) \<Rightarrow> i)"

fun assign_ranks :: "(nat \<Rightarrow> nat) \<Rightarrow> nat list \<Rightarrow> nat \<Rightarrow> nat option \<Rightarrow> nat \<Rightarrow> nat list \<Rightarrow> nat list" where
  "assign_ranks val [] position previous tied ranks = ranks"
| "assign_ranks val (i # order) position previous tied ranks =
     (let tied' = (case previous of None \<Rightarrow> tied | Some p \<Rightarrow> if p \<noteq> val i then position else tied)
      in assign_ranks val order (position + 1) (Some (val i)) tied' (ranks[i := tied']))"

definition ranks :: "pareto_plan list \<Rightarrow> (pareto_plan \<Rightarrow> nat) \<Rightarrow> bool \<Rightarrow> nat list" where
  "ranks plans val reverse =
     (let order = sort_key (\<lambda>i. (if reverse then u64_max - val (plans ! i) else val (plans ! i), pp_id (plans ! i)))
                    [0..<length plans]
      in assign_ranks (\<lambda>i. val (plans ! i)) order 0 None 0 (replicate (length plans) 0))"

definition balanced_index :: "pareto_plan list \<Rightarrow> nat" where
  "balanced_index plans =
     (let quality = ranks plans (pm_quality_loss_ppm \<circ> pp_metrics) False;
          context = ranks plans (pm_context_tokens \<circ> pp_metrics) True;
          latency = ranks plans (pm_latency_cost \<circ> pp_metrics) False;
          resident = ranks plans (pm_resident_bytes \<circ> pp_metrics) False;
          traffic = ranks plans (pm_storage_traffic_bytes \<circ> pp_metrics) False
      in best_index
           (\<lambda>i. let dims = [quality ! i, context ! i, latency ! i, resident ! i, traffic ! i]
                in (fold max dims 0, sum_list dims, pp_id (plans ! i)))
           [0..<length plans])"

definition add_label :: "pareto_plan list \<Rightarrow> nat \<times> string \<Rightarrow> pareto_plan list \<Rightarrow> pareto_plan list" where
  "add_label plans il chosen =
     (case il of (i, label) \<Rightarrow>
      case find (\<lambda>j. pp_id (chosen ! j) = pp_id (plans ! i)) [0..<length chosen] of
        Some j \<Rightarrow> chosen[j := (chosen ! j)\<lparr>pp_labels := pp_labels (chosen ! j) @ [label]\<rparr>]
      | None \<Rightarrow> chosen @ [(plans ! i)\<lparr>pp_labels := pp_labels (plans ! i) @ [label]\<rparr>])"

definition material_plans :: "optimizer_input \<Rightarrow> string + pareto_plan list" where
  "material_plans inp =
     (case pareto_plans inp of
        Inl e \<Rightarrow> Inl e
      | Inr plans \<Rightarrow>
          if plans = [] then Inr []
          else
            let quality = best_index (\<lambda>p. let m = pp_metrics p in (pm_quality_loss_ppm m, u64_max - pm_context_tokens m,
                  pm_latency_cost m, pm_resident_bytes m, pm_package_bytes m, pp_id p)) plans;
                latency = best_index (\<lambda>p. let m = pp_metrics p in (pm_latency_cost m, pm_quality_loss_ppm m,
                  u64_max - pm_context_tokens m, pm_storage_traffic_bytes m, pm_package_bytes m, pp_id p)) plans;
                long_context = best_index (\<lambda>p. let m = pp_metrics p in (u64_max - pm_context_tokens m,
                  pm_quality_loss_ppm m, pm_latency_cost m, pm_resident_bytes m, pm_package_bytes m, pp_id p)) plans;
                balanced = balanced_index plans;
                chosen = fold (add_label plans)
                  [(quality, ''quality''), (balanced, ''balanced''), (long_context, ''long-context''), (latency, ''latency'')] [];
                labelled = map (\<lambda>p. p\<lparr>pp_labels := remdups_adj (sort (pp_labels p))\<rparr>) chosen
            in Inr (sort_key pp_id labelled))"

definition select_plan :: "pareto_plan list \<Rightarrow> string \<Rightarrow> pareto_plan option" where
  "select_plan plans selector = find (\<lambda>p. pp_id p = selector \<or> selector \<in> set (pp_labels p)) plans"

end
