(* ===== verification/Ir_Optimizer_Props.thy ===== *)
theory Ir_Optimizer_Props
  imports Ir_Optimizer
begin

text \<open>
  The optimizer against exhaustive search: where the cap on intermediate states and the
  width of the sums do not interfere, and plan identifiers do not collide, the metrics it
  returns are exactly the Pareto front of all feasible choices.
\<close>

section \<open>Pruning by a strict partial order\<close>

lemma prune_subset: "set (prune_loop beats ss kept) \<subseteq> set ss \<union> set kept"
  by (induction ss arbitrary: kept) (auto, fastforce)

lemma prune_length: "length (prune_loop beats ss kept) \<le> length ss + length kept"
proof (induction ss arbitrary: kept)
  case (Cons s ss)
  have "length (filter (\<lambda>k. \<not> beats s k) kept) \<le> length kept" by (rule length_filter_le)
  with Cons.IH [of kept] Cons.IH [of "filter (\<lambda>k. \<not> beats s k) kept @ [s]"] show ?case
    by (auto simp del: length_filter_le)
qed simp

locale pruning =
  fixes beats :: "'a \<Rightarrow> 'a \<Rightarrow> bool"
  assumes beats_trans: "beats x y \<Longrightarrow> beats y z \<Longrightarrow> beats x z"
begin

lemma prune_covers:
  "x \<in> set ss \<union> set kept \<Longrightarrow> \<exists>k \<in> set (prune_loop beats ss kept). k = x \<or> beats k x"
proof (induction ss arbitrary: kept x)
  case (Cons s ss)
  show ?case
  proof (cases "list_ex (\<lambda>k. beats k s) kept")
    case True
    then obtain k where k: "k \<in> set kept" "beats k s" by (auto simp: list_ex_iff)
    have "\<exists>k \<in> set (prune_loop beats ss kept). k = x \<or> beats k x" if "x \<noteq> s"
      using Cons.IH [of x kept] Cons.prems that by simp
    moreover have "\<exists>k \<in> set (prune_loop beats ss kept). beats k s"
      using Cons.IH [of k kept] k beats_trans by blast
    ultimately show ?thesis using True by (cases "x = s") auto
  next
    case False
    let ?kept = "filter (\<lambda>k. \<not> beats s k) kept @ [s]"
    have s: "\<exists>k \<in> set (prune_loop beats ss ?kept). k = s \<or> beats k s" using Cons.IH [of s ?kept] by simp
    have "\<exists>k \<in> set (prune_loop beats ss ?kept). k = x \<or> beats k x"
    proof (cases "x \<in> set ss \<union> set ?kept")
      case True
      then show ?thesis by (rule Cons.IH)
    next
      case False
      then have "beats s x" using Cons.prems by auto
      with s beats_trans show ?thesis by blast
    qed
    with False show ?thesis by simp
  qed
qed auto

end

text \<open>No worse in any dimension, with the same dispatch class: what a pruned state leaves behind.\<close>

definition state_le :: "search_state \<Rightarrow> search_state \<Rightarrow> bool" where
  "state_le l r \<longleftrightarrow> ss_last_dispatch_class l = ss_last_dispatch_class r \<and>
     ss_quality_loss_ppm l \<le> ss_quality_loss_ppm r \<and> ss_latency_cost l \<le> ss_latency_cost r \<and>
     ss_resident_bytes l \<le> ss_resident_bytes r \<and> ss_package_bytes l \<le> ss_package_bytes r \<and>
     ss_storage_traffic_bytes l \<le> ss_storage_traffic_bytes r"

lemma state_le_refl [simp]: "state_le s s"
  by (simp add: state_le_def)

lemma state_le_trans: "state_le a b \<Longrightarrow> state_le b c \<Longrightarrow> state_le a c"
  by (auto simp: state_le_def)

lemma displaces_le: "displaces l r \<Longrightarrow> state_le l r"
  by (simp add: displaces_def state_dominates_def state_le_def)

interpretation opt: pruning displaces
  by unfold_locales (auto simp: displaces_def state_dominates_def)

lemma prune_states_spec:
  assumes "length states \<le> max_frontier_states"
  shows "set (prune_states states) \<subseteq> set states" "length (prune_states states) \<le> length states"
    "s \<in> set states \<Longrightarrow> \<exists>k \<in> set (prune_states states). state_le k s"
proof -
  let ?kept = "prune_loop displaces (sort_key state_sort_key states) []"
  have len: "length ?kept \<le> length states" using prune_length [of displaces "sort_key state_sort_key states" "[]"] by simp
  then have eq: "prune_states states = ?kept" using assms by (simp add: prune_states_def Let_def)
  show "set (prune_states states) \<subseteq> set states" "length (prune_states states) \<le> length states"
    unfolding eq using prune_subset [of displaces "sort_key state_sort_key states" "[]"] len by simp_all
  show "\<exists>k \<in> set (prune_states states). state_le k s" if "s \<in> set states"
    unfolding eq using opt.prune_covers [of s "sort_key state_sort_key states" "[]"] that displaces_le state_le_refl
    by (metis UnCI set_sort)
qed

section \<open>Exhaustive search\<close>

text \<open>One option added to a state, in exact arithmetic.\<close>

definition advance :: "optimizer_input \<Rightarrow> search_state \<Rightarrow> nat \<times> representation_candidate \<Rightarrow> search_state" where
  "advance inp s iopt =
     (case iopt of (i, opt) \<Rightarrow>
      \<lparr>ss_quality_loss_ppm = ss_quality_loss_ppm s + ca_quality_loss_ppm opt,
       ss_latency_cost = ss_latency_cost s + ca_latency_cost opt + (if switches s opt then oi_switch_penalty inp else 0),
       ss_resident_bytes = ss_resident_bytes s + ca_resident_bytes opt,
       ss_package_bytes = ss_package_bytes s + ca_package_bytes opt,
       ss_storage_traffic_bytes = ss_storage_traffic_bytes s + ca_storage_traffic_bytes opt,
       ss_last_dispatch_class = (if ca_dispatch_class opt = 0 then ss_last_dispatch_class s else ca_dispatch_class opt),
       ss_choices = ss_choices s @ [i]\<rparr>)"

fun evaluate :: "optimizer_input \<Rightarrow> candidate_group list \<Rightarrow> search_state \<Rightarrow> nat list \<Rightarrow> search_state" where
  "evaluate inp (g # gs) s (c # cs) = evaluate inp gs (advance inp s (c, cg_options g ! c)) cs"
| "evaluate inp _ s _ = s"

definition valid_choices :: "candidate_group list \<Rightarrow> nat list \<Rightarrow> bool" where
  "valid_choices = list_all2 (\<lambda>g c. c < length (cg_options g))"

definition point :: "search_state \<Rightarrow> context_candidate \<Rightarrow> plan_metrics" where
  "point s c =
     \<lparr>pm_quality_loss_ppm = ss_quality_loss_ppm s, pm_context_tokens = cx_tokens c,
      pm_latency_cost = ss_latency_cost s + cx_latency_cost c, pm_resident_bytes = ss_resident_bytes s + cx_resident_bytes c,
      pm_package_bytes = ss_package_bytes s, pm_storage_traffic_bytes = ss_storage_traffic_bytes s\<rparr>"

text \<open>The metrics of every choice of one option per group and one allowed context that fits the budget.\<close>

definition feasible :: "optimizer_input \<Rightarrow> plan_metrics set" where
  "feasible inp = {m. \<exists>cs c. valid_choices (oi_groups inp) cs \<and> c \<in> set (oi_context_candidates inp) \<and>
     allows (oi_context_constraint inp) (cx_tokens c) \<and> m = point (evaluate inp (oi_groups inp) (initial_state inp) cs) c \<and>
     pm_resident_bytes m \<le> oi_memory_budget_bytes inp \<and> pm_latency_cost m \<le> u64_max}"

definition pareto_front :: "plan_metrics set \<Rightarrow> plan_metrics set" where
  "pareto_front M = {m \<in> M. \<not> (\<exists>m' \<in> M. dominates m' m)}"

text \<open>No sum of costs can leave \<^verbatim>\<open>u64\<close>, and there are no more choices than the search keeps states.\<close>

definition group_total :: "(representation_candidate \<Rightarrow> nat) \<Rightarrow> candidate_group list \<Rightarrow> nat" where
  "group_total f gs = (\<Sum>g \<leftarrow> gs. \<Sum>opt \<leftarrow> cg_options g. f opt)"

definition room :: "optimizer_input \<Rightarrow> candidate_group list \<Rightarrow> search_state \<Rightarrow> bool" where
  "room inp gs s \<longleftrightarrow>
     ss_quality_loss_ppm s + group_total ca_quality_loss_ppm gs \<le> u64_max \<and>
     ss_latency_cost s + group_total ca_latency_cost gs + length gs * oi_switch_penalty inp \<le> u64_max \<and>
     ss_resident_bytes s + group_total ca_resident_bytes gs \<le> u64_max \<and>
     ss_package_bytes s + group_total ca_package_bytes gs \<le> u64_max \<and>
     ss_storage_traffic_bytes s + group_total ca_storage_traffic_bytes gs \<le> u64_max"

definition choice_count :: "candidate_group list \<Rightarrow> nat" where
  "choice_count gs = prod_list (map (\<lambda>g. length (cg_options g)) gs)"

lemma group_total_Cons: "group_total f (g # gs) = (\<Sum>opt \<leftarrow> cg_options g. f opt) + group_total f gs"
  by (simp add: group_total_def)

lemma option_le_total: "opt \<in> set (cg_options g) \<Longrightarrow> f opt + group_total f gs \<le> group_total f (g # gs)"
  by (simp add: group_total_Cons member_le_sum_list)

lemma room_advance:
  assumes "room inp (g # gs) s" "opt \<in> set (cg_options g)"
  shows "room inp gs (advance inp s (i, opt))"
  using assms(1) option_le_total [OF assms(2), of ca_quality_loss_ppm gs] option_le_total [OF assms(2), of ca_latency_cost gs]
    option_le_total [OF assms(2), of ca_resident_bytes gs] option_le_total [OF assms(2), of ca_package_bytes gs]
    option_le_total [OF assms(2), of ca_storage_traffic_bytes gs]
  by (auto simp: room_def advance_def)

lemma extend_advance:
  assumes "room inp (g # gs) s" "opt \<in> set (cg_options g)"
  shows "extend inp s (i, opt) =
    Inr (if oi_memory_budget_bytes inp < ss_resident_bytes (advance inp s (i, opt)) then None else Some (advance inp s (i, opt)))"
proof -
  from room_advance [OF assms, of i] have fits:
    "ss_quality_loss_ppm s + ca_quality_loss_ppm opt \<le> u64_max"
    "ss_latency_cost s + ca_latency_cost opt + (if switches s opt then oi_switch_penalty inp else 0) \<le> u64_max"
    "ss_resident_bytes s + ca_resident_bytes opt \<le> u64_max" "ss_package_bytes s + ca_package_bytes opt \<le> u64_max"
    "ss_storage_traffic_bytes s + ca_storage_traffic_bytes opt \<le> u64_max"
    by (auto simp: room_def advance_def)
  then have "latency_after inp s opt = Inr (ss_latency_cost s + ca_latency_cost opt + (if switches s opt then oi_switch_penalty inp else 0))"
    by (auto simp: latency_after_def checked_add_u64_def)
  with fits show ?thesis by (simp add: extend_def advance_def checked_add_u64_def)
qed

section \<open>The search covers every choice\<close>

lemma advance_mono: "state_le k s \<Longrightarrow> state_le (advance inp k (i, opt)) (advance inp s (j, opt))"
  by (auto simp: state_le_def advance_def switches_def)

lemma evaluate_mono: "state_le k s \<Longrightarrow> state_le (evaluate inp gs k cs) (evaluate inp gs s cs)"
proof (induction gs arbitrary: k s cs)
  case (Cons g gs)
  then show ?case by (cases cs) (simp_all add: advance_mono)
qed simp

lemma evaluate_resident: "ss_resident_bytes s \<le> ss_resident_bytes (evaluate inp gs s cs)"
proof (induction gs arbitrary: s cs)
  case (Cons g gs)
  show ?case
  proof (cases cs)
    case (Cons c cs')
    have "ss_resident_bytes s \<le> ss_resident_bytes (advance inp s (c, cg_options g ! c))" by (simp add: advance_def)
    with Cons.IH [of "advance inp s (c, cg_options g ! c)" cs'] Cons show ?thesis by simp
  qed simp
qed simp

lemma collect_total:
  assumes "\<And>x. x \<in> set xs \<Longrightarrow> f x = Inr (g x)"
  shows "collect f xs = Inr (List.map_filter g xs)"
  using assms by (induction xs) (auto simp: map_filter_simps split: option.split)

lemma set_enumerate_options: "(i, opt) \<in> set (enumerate 0 xs) \<longleftrightarrow> i < length xs \<and> opt = xs ! i"
  by (auto simp: in_set_enumerate_eq)

lemma next_states_spec:
  assumes "\<forall>s \<in> set states. room inp (g # gs) s"
  obtains nxt where "next_states inp g states = Inr nxt" "length nxt \<le> length states * length (cg_options g)"
    "set nxt = {t. \<exists>s \<in> set states. \<exists>c < length (cg_options g). t = advance inp s (c, cg_options g ! c) \<and>
       ss_resident_bytes t \<le> oi_memory_budget_bytes inp}"
proof -
  let ?pairs = "List.product states (enumerate 0 (cg_options g))"
  let ?step = "\<lambda>(s, iopt). if oi_memory_budget_bytes inp < ss_resident_bytes (advance inp s iopt) then None
    else Some (advance inp s iopt)"
  have "(case x of (s, iopt) \<Rightarrow> extend inp s iopt) = Inr (?step x)" if "x \<in> set ?pairs" for x
    using that assms by (auto simp: set_enumerate_options extend_advance)
  then have "next_states inp g states = Inr (List.map_filter ?step ?pairs)"
    unfolding next_states_def by (rule collect_total)
  moreover have "length (List.map_filter ?step ?pairs) \<le> length states * length (cg_options g)"
    using length_filter_le [of "\<lambda>x. ?step x \<noteq> None" ?pairs] by (simp add: map_filter_def)
  moreover have "set (List.map_filter ?step ?pairs) = {t. \<exists>s \<in> set states. \<exists>c < length (cg_options g).
      t = advance inp s (c, cg_options g ! c) \<and> ss_resident_bytes t \<le> oi_memory_budget_bytes inp}"
  proof -
    have "t \<in> set (List.map_filter ?step ?pairs) \<longleftrightarrow>
        (\<exists>s \<in> set states. \<exists>i opt. (i, opt) \<in> set (enumerate 0 (cg_options g)) \<and> ?step (s, (i, opt)) = Some t)" for t
      by (auto simp: map_filter_def image_iff)
    moreover have "?step (s, iopt) = Some t \<longleftrightarrow> t = advance inp s iopt \<and> ss_resident_bytes t \<le> oi_memory_budget_bytes inp"
      for s iopt t by auto
    ultimately show ?thesis unfolding set_enumerate_options by blast
  qed
  ultimately show thesis by (rule that)
qed

lemma valid_choices_Cons:
  "valid_choices (g # gs) cs \<longleftrightarrow> (\<exists>c cs'. cs = c # cs' \<and> c < length (cg_options g) \<and> valid_choices gs cs')"
  by (cases cs) (auto simp: valid_choices_def)

text \<open>
  What the search returns: states of feasible choices only, and one that is no worse
  for every feasible choice; or an error, and then there is no feasible choice.
\<close>

lemma choice_count_pos: "\<forall>g \<in> set gs. cg_options g \<noteq> [] \<Longrightarrow> 0 < choice_count gs"
  by (induction gs) (auto simp: choice_count_def)

lemma next_pruned:
  assumes "\<forall>s \<in> set states. room inp (g # gs) s" "length states * choice_count (g # gs) \<le> max_frontier_states"
    and "\<forall>g' \<in> set gs. cg_options g' \<noteq> []"
  obtains nxt where "next_states inp g states = Inr nxt" "length (prune_states nxt) * choice_count gs \<le> max_frontier_states"
    "\<And>t. t \<in> set (prune_states nxt) \<Longrightarrow> room inp gs t \<and> ss_resident_bytes t \<le> oi_memory_budget_bytes inp \<and>
       (\<exists>s \<in> set states. \<exists>c < length (cg_options g). t = advance inp s (c, cg_options g ! c))"
    "\<And>s c. s \<in> set states \<Longrightarrow> c < length (cg_options g) \<Longrightarrow>
       ss_resident_bytes (advance inp s (c, cg_options g ! c)) \<le> oi_memory_budget_bytes inp \<Longrightarrow>
       \<exists>k \<in> set (prune_states nxt). state_le k (advance inp s (c, cg_options g ! c))"
proof -
  from next_states_spec [OF assms(1)] obtain nxt where nxt: "next_states inp g states = Inr nxt"
    "length nxt \<le> length states * length (cg_options g)"
    "set nxt = {t. \<exists>s \<in> set states. \<exists>c < length (cg_options g). t = advance inp s (c, cg_options g ! c) \<and>
       ss_resident_bytes t \<le> oi_memory_budget_bytes inp}" .
  have "length nxt * choice_count gs \<le> length states * length (cg_options g) * choice_count gs"
    using nxt(2) by (rule mult_le_mono1)
  also have "\<dots> \<le> max_frontier_states" using assms(2) by (simp add: choice_count_def mult.assoc)
  finally have count: "length nxt * choice_count gs \<le> max_frontier_states" .
  have "length nxt \<le> length nxt * choice_count gs" using choice_count_pos [OF assms(3)] by simp
  then have small: "length nxt \<le> max_frontier_states" using count by (rule order_trans)
  note prune = prune_states_spec [OF small]
  have "length (prune_states nxt) * choice_count gs \<le> max_frontier_states"
    using mult_le_mono1 [OF prune(2)] count by (rule order_trans)
  moreover have "room inp gs t \<and> ss_resident_bytes t \<le> oi_memory_budget_bytes inp \<and>
       (\<exists>s \<in> set states. \<exists>c < length (cg_options g). t = advance inp s (c, cg_options g ! c))" if "t \<in> set (prune_states nxt)" for t
  proof -
    from that prune(1) nxt(3) obtain s c where t: "s \<in> set states" "c < length (cg_options g)"
      "t = advance inp s (c, cg_options g ! c)" "ss_resident_bytes t \<le> oi_memory_budget_bytes inp" by blast
    then have "room inp gs t" using assms(1) by (auto intro: room_advance)
    with t show ?thesis by blast
  qed
  moreover have "\<exists>k \<in> set (prune_states nxt). state_le k (advance inp s (c, cg_options g ! c))"
    if "s \<in> set states" "c < length (cg_options g)"
      "ss_resident_bytes (advance inp s (c, cg_options g ! c)) \<le> oi_memory_budget_bytes inp" for s c
    using that nxt(3) by (intro prune(3)) blast
  ultimately show thesis using that [OF nxt(1)] by blast
qed

lemma search_spec:
  assumes "\<forall>s \<in> set states. room inp gs s" "length states * choice_count gs \<le> max_frontier_states"
    and "\<forall>s \<in> set states. ss_resident_bytes s \<le> oi_memory_budget_bytes inp" "\<forall>g \<in> set gs. cg_options g \<noteq> []"
  shows "case search_groups inp gs states of
      Inr out \<Rightarrow>
        (\<forall>t \<in> set out. ss_resident_bytes t \<le> oi_memory_budget_bytes inp \<and>
           (\<exists>s \<in> set states. \<exists>cs. valid_choices gs cs \<and> t = evaluate inp gs s cs)) \<and>
        (\<forall>s \<in> set states. \<forall>cs. valid_choices gs cs \<longrightarrow>
           ss_resident_bytes (evaluate inp gs s cs) \<le> oi_memory_budget_bytes inp \<longrightarrow>
           (\<exists>k \<in> set out. state_le k (evaluate inp gs s cs)))
    | Inl _ \<Rightarrow> \<forall>s \<in> set states. \<forall>cs. valid_choices gs cs \<longrightarrow>
        oi_memory_budget_bytes inp < ss_resident_bytes (evaluate inp gs s cs)"
  using assms
proof (induction gs arbitrary: states)
  case Nil
  have "\<exists>k \<in> set states. state_le k s" if "s \<in> set states" for s using that state_le_refl by (rule bexI [rotated])
  with Nil show ?case by (auto simp: valid_choices_def)
next
  case (Cons g gs)
  let ?B = "oi_memory_budget_bytes inp"
  from next_pruned [OF Cons.prems(1,2)] Cons.prems(4) obtain nxt where
    nxt: "next_states inp g states = Inr nxt" and count: "length (prune_states nxt) * choice_count gs \<le> max_frontier_states"
    and sound: "\<And>t. t \<in> set (prune_states nxt) \<Longrightarrow> room inp gs t \<and> ss_resident_bytes t \<le> ?B \<and>
       (\<exists>s \<in> set states. \<exists>c < length (cg_options g). t = advance inp s (c, cg_options g ! c))"
    and cover: "\<And>s c. s \<in> set states \<Longrightarrow> c < length (cg_options g) \<Longrightarrow>
       ss_resident_bytes (advance inp s (c, cg_options g ! c)) \<le> ?B \<Longrightarrow>
       \<exists>k \<in> set (prune_states nxt). state_le k (advance inp s (c, cg_options g ! c))" by auto
  have covered: "\<exists>k \<in> set (prune_states nxt). state_le (evaluate inp gs k cs) (evaluate inp (g # gs) s (c # cs))"
    if "s \<in> set states" "c < length (cg_options g)" "ss_resident_bytes (evaluate inp (g # gs) s (c # cs)) \<le> ?B" for s c cs
  proof -
    have "ss_resident_bytes (advance inp s (c, cg_options g ! c)) \<le> ?B"
      using evaluate_resident [of "advance inp s (c, cg_options g ! c)" inp gs cs] that(3) by simp
    with cover that(1,2) evaluate_mono show ?thesis by (metis evaluate.simps(1))
  qed
  show ?case
  proof (cases "prune_states nxt = []")
    case True
    have "?B < ss_resident_bytes (evaluate inp (g # gs) s cs)" if "s \<in> set states" "valid_choices (g # gs) cs" for s cs
      using covered [OF that(1)] that(2) True by (fastforce simp: valid_choices_Cons not_le [symmetric])
    then show ?thesis using True by (simp add: nxt Let_def)
  next
    case False
    then have run: "search_groups inp (g # gs) states = search_groups inp gs (prune_states nxt)" by (simp add: nxt Let_def)
    have IH: "case search_groups inp gs (prune_states nxt) of
      Inr out \<Rightarrow>
        (\<forall>t \<in> set out. ss_resident_bytes t \<le> ?B \<and> (\<exists>s \<in> set (prune_states nxt). \<exists>cs. valid_choices gs cs \<and> t = evaluate inp gs s cs)) \<and>
        (\<forall>s \<in> set (prune_states nxt). \<forall>cs. valid_choices gs cs \<longrightarrow> ss_resident_bytes (evaluate inp gs s cs) \<le> ?B \<longrightarrow>
           (\<exists>k \<in> set out. state_le k (evaluate inp gs s cs)))
    | Inl _ \<Rightarrow> \<forall>s \<in> set (prune_states nxt). \<forall>cs. valid_choices gs cs \<longrightarrow> ?B < ss_resident_bytes (evaluate inp gs s cs)"
      using sound count Cons.prems(4) by (intro Cons.IH) auto
    show ?thesis
    proof (cases "search_groups inp gs (prune_states nxt)")
      case (Inl e)
      have "?B < ss_resident_bytes (evaluate inp (g # gs) s cs)" if s: "s \<in> set states" and v: "valid_choices (g # gs) cs" for s cs
      proof (rule ccontr)
        assume res: "\<not> ?B < ss_resident_bytes (evaluate inp (g # gs) s cs)"
        obtain c cs' where cs: "cs = c # cs'" "c < length (cg_options g)" "valid_choices gs cs'"
          using v by (auto simp: valid_choices_Cons)
        from covered [OF s cs(2), of cs'] res cs(1) obtain k where
          k: "k \<in> set (prune_states nxt)" "state_le (evaluate inp gs k cs') (evaluate inp (g # gs) s cs)" by auto
        have "?B < ss_resident_bytes (evaluate inp gs k cs')" using IH Inl cs(3) k(1) by simp
        with k(2) res show False by (simp add: state_le_def)
      qed
      then show ?thesis unfolding run Inl by simp
    next
      case (Inr out)
      have "\<exists>s \<in> set states. \<exists>cs. valid_choices (g # gs) cs \<and> t = evaluate inp (g # gs) s cs" if "t \<in> set out" for t
      proof -
        from IH Inr that obtain s' cs where s': "s' \<in> set (prune_states nxt)" "valid_choices gs cs" "t = evaluate inp gs s' cs" by auto
        from sound [OF s'(1)] obtain s c where "s \<in> set states" "c < length (cg_options g)" "s' = advance inp s (c, cg_options g ! c)"
          by blast
        with s' have "valid_choices (g # gs) (c # cs)" "t = evaluate inp (g # gs) s (c # cs)" by (simp_all add: valid_choices_def)
        with \<open>s \<in> set states\<close> show ?thesis by blast
      qed
      moreover have "\<exists>k \<in> set out. state_le k (evaluate inp (g # gs) s cs)"
        if s: "s \<in> set states" and cs: "valid_choices (g # gs) cs" and res: "ss_resident_bytes (evaluate inp (g # gs) s cs) \<le> ?B" for s cs
      proof -
        obtain c cs' where c: "cs = c # cs'" "c < length (cg_options g)" "valid_choices gs cs'"
          using cs by (auto simp: valid_choices_Cons)
        from covered [OF s c(2), of cs'] res c(1) obtain k where
          k: "k \<in> set (prune_states nxt)" "state_le (evaluate inp gs k cs') (evaluate inp (g # gs) s cs)" by auto
        then have "ss_resident_bytes (evaluate inp gs k cs') \<le> ?B" using res by (simp add: state_le_def)
        moreover have "\<forall>s \<in> set (prune_states nxt). \<forall>cs. valid_choices gs cs \<longrightarrow>
            ss_resident_bytes (evaluate inp gs s cs) \<le> ?B \<longrightarrow> (\<exists>k \<in> set out. state_le k (evaluate inp gs s cs))"
          using IH by (simp add: Inr)
        ultimately obtain k' where "k' \<in> set out" "state_le k' (evaluate inp gs k cs')" using k(1) c(3) by blast
        with k(2) state_le_trans show ?thesis by blast
      qed
      ultimately show ?thesis unfolding run using IH by (simp add: Inr)
    qed
  qed
qed

section \<open>The frontier\<close>

definition metrics_le :: "plan_metrics \<Rightarrow> plan_metrics \<Rightarrow> bool" where
  "metrics_le l r \<longleftrightarrow> pm_quality_loss_ppm l \<le> pm_quality_loss_ppm r \<and> pm_context_tokens r \<le> pm_context_tokens l \<and>
     pm_latency_cost l \<le> pm_latency_cost r \<and> pm_resident_bytes l \<le> pm_resident_bytes r \<and>
     pm_package_bytes l \<le> pm_package_bytes r \<and> pm_storage_traffic_bytes l \<le> pm_storage_traffic_bytes r"

lemma dominates_iff: "dominates l r \<longleftrightarrow> metrics_le l r \<and> l \<noteq> r"
  by (cases l; cases r) (auto simp: dominates_def metrics_le_def)

lemma metrics_le_trans: "metrics_le a b \<Longrightarrow> metrics_le b c \<Longrightarrow> metrics_le a c"
  by (auto simp: metrics_le_def)

lemma metrics_le_antisym: "metrics_le a b \<Longrightarrow> metrics_le b a \<Longrightarrow> a = b"
  by (cases a; cases b) (auto simp: metrics_le_def)

lemma point_mono: "state_le k s \<Longrightarrow> metrics_le (point k c) (point s c)"
  by (simp add: state_le_def metrics_le_def point_def)

lemma metrics_with_context_iff:
  "metrics_with_context s c = Some m \<longleftrightarrow> m = point s c \<and> pm_latency_cost m \<le> u64_max \<and> pm_resident_bytes m \<le> u64_max"
  by (auto simp: metrics_with_context_def checked_add_u64_def point_def)

lemma raw_points_set:
  assumes "oi_memory_budget_bytes inp \<le> u64_max"
  shows "fst ` set (raw_points inp states) = {m. \<exists>s \<in> set states. \<exists>c \<in> set (oi_context_candidates inp).
     allows (oi_context_constraint inp) (cx_tokens c) \<and> m = point s c \<and>
     pm_resident_bytes m \<le> oi_memory_budget_bytes inp \<and> pm_latency_cost m \<le> u64_max}"
proof -
  have "(m, cs) \<in> set (context_points inp states c) \<longleftrightarrow> (\<exists>s \<in> set states. cs = ss_choices s \<and> m = point s c \<and>
      pm_resident_bytes m \<le> oi_memory_budget_bytes inp \<and> pm_latency_cost m \<le> u64_max)" for m cs c
  proof -
    have "(m, cs) \<in> set (case metrics_with_context s c of None \<Rightarrow> [] | Some m \<Rightarrow>
          if pm_resident_bytes m \<le> oi_memory_budget_bytes inp then [(m, ss_choices s)] else []) \<longleftrightarrow>
        cs = ss_choices s \<and> metrics_with_context s c = Some m \<and> pm_resident_bytes m \<le> oi_memory_budget_bytes inp" for s
      by (cases "metrics_with_context s c") auto
    then show ?thesis using assms by (auto simp: context_points_def metrics_with_context_iff)
  qed
  then have "m \<in> fst ` set (raw_points inp states) \<longleftrightarrow> (\<exists>c \<in> set (oi_context_candidates inp). \<exists>s \<in> set states.
      allows (oi_context_constraint inp) (cx_tokens c) \<and> m = point s c \<and>
      pm_resident_bytes m \<le> oi_memory_budget_bytes inp \<and> pm_latency_cost m \<le> u64_max)" for m
    by (simp add: raw_points_def image_iff Bex_def) blast
  then show ?thesis by blast
qed

lemma keep_points_set: "fst ` set (keep_points raw) = pareto_front (fst ` set raw)"
proof -
  have irrefl: "\<not> dominates m m" for m by (simp add: dominates_iff)
  have "\<not> list_ex (\<lambda>j. j \<noteq> i \<and> dominates (fst (raw ! j)) (fst (raw ! i))) [0..<length raw] \<longleftrightarrow>
      \<not> (\<exists>m \<in> fst ` set raw. dominates m (fst (raw ! i)))" for i
  proof -
    have "list_ex (\<lambda>j. j \<noteq> i \<and> dominates (fst (raw ! j)) (fst (raw ! i))) [0..<length raw] \<longleftrightarrow>
        (\<exists>j < length raw. dominates (fst (raw ! j)) (fst (raw ! i)))" 
      unfolding list_ex_iff using irrefl by (metis atLeastLessThan_iff atLeastLessThan_upt le0)
    moreover have "(\<exists>m \<in> fst ` set raw. dominates m (fst (raw ! i))) \<longleftrightarrow> (\<exists>j < length raw. dominates (fst (raw ! j)) (fst (raw ! i)))"
    proof -
      have "fst ` set raw = (\<lambda>j. fst (raw ! j)) ` {..<length raw}" by (auto simp: set_conv_nth image_iff)
      then show ?thesis by auto
    qed
    ultimately show ?thesis by (simp only:)
  qed
  then have "fst ` set (keep_points raw) = {fst (raw ! i) | i. i < length raw \<and> \<not> (\<exists>m \<in> fst ` set raw. dominates m (fst (raw ! i)))}"
    by (auto simp: keep_points_def)
  also have "\<dots> = pareto_front (fst ` set raw)" 
    unfolding pareto_front_def by (auto simp: set_conv_nth)
  finally show ?thesis .
qed

text \<open>Points that cover a set from inside it have the same Pareto front.\<close>

lemma pareto_front_cover:
  assumes "R \<subseteq> M" "\<And>m. m \<in> M \<Longrightarrow> \<exists>r \<in> R. metrics_le r m"
  shows "pareto_front R = pareto_front M"
proof -
  have "\<exists>m' \<in> R. dominates m' m" if "m \<in> R" "m' \<in> M" "dominates m' m" for m m'
  proof -
    from assms(2) [OF that(2)] obtain r where r: "r \<in> R" "metrics_le r m'" by blast
    moreover have "dominates r m"
      using r(2) that(3) metrics_le_trans metrics_le_antisym unfolding dominates_iff by blast
    ultimately show ?thesis by blast
  qed
  moreover have "m \<in> R" if "m \<in> pareto_front M" for m
    using assms that unfolding pareto_front_def dominates_iff by blast
  ultimately show ?thesis using assms(1) unfolding pareto_front_def by blast
qed

text \<open>Plans with different metrics have different identifiers: no collision of the hash on these plans.\<close>

definition ids_distinguish :: "pareto_plan list \<Rightarrow> bool" where
  "ids_distinguish ps \<longleftrightarrow> list_all (\<lambda>p. list_all (\<lambda>q. pp_id p = pp_id q \<longrightarrow> pp_metrics p = pp_metrics q) ps) ps"

lemma ids_distinguish_subset: "ids_distinguish ps \<Longrightarrow> set qs \<subseteq> set ps \<Longrightarrow> ids_distinguish qs"
  unfolding ids_distinguish_def list_all_iff by blast

lemma dedup_metrics: "ids_distinguish ps \<Longrightarrow> pp_metrics ` set (dedup_by_id ps) = pp_metrics ` set ps"
proof (induction ps rule: dedup_by_id.induct)
  case (1 p q ps)
  have sub: "ids_distinguish (p # ps)" "ids_distinguish (q # ps)" 
    by (rule ids_distinguish_subset [OF "1.prems"], simp add: subset_iff)+
  show ?case
  proof (cases "pp_id q = pp_id p")
    case True
    then have "pp_metrics q = pp_metrics p" 
      using "1.prems" unfolding ids_distinguish_def list_all_iff by (metis list.set_intros)
    with True "1.IH"(1) [OF True sub(1)] show ?thesis by simp
  next
    case False
    with "1.IH"(2) [OF False sub(2)] show ?thesis by simp
  qed
qed simp_all

lemma frontier_metrics: "pp_metrics ` set (frontier inp raw) = pareto_front (fst ` set raw)"
proof -
  have "pp_metrics (build_plan inp m cs) = m" for m cs by (simp add: build_plan_def Let_def)
  then have "pp_metrics ` set (frontier inp raw) = fst ` set (keep_points raw)"
    by (auto simp: frontier_def image_image split_beta)
  then show ?thesis by (simp add: keep_points_set)
qed

lemma feasible_covered:
  assumes "oi_memory_budget_bytes inp \<le> u64_max"
    and out: "\<And>t. t \<in> set out \<Longrightarrow> \<exists>cs. valid_choices (oi_groups inp) cs \<and> t = evaluate inp (oi_groups inp) (initial_state inp) cs"
      "\<And>cs. valid_choices (oi_groups inp) cs \<Longrightarrow>
         ss_resident_bytes (evaluate inp (oi_groups inp) (initial_state inp) cs) \<le> oi_memory_budget_bytes inp \<Longrightarrow>
         \<exists>k \<in> set out. state_le k (evaluate inp (oi_groups inp) (initial_state inp) cs)"
  shows "pareto_front (fst ` set (raw_points inp out)) = pareto_front (feasible inp)"
    "raw_points inp out = [] \<longleftrightarrow> feasible inp = {}"
proof -
  have sub: "fst ` set (raw_points inp out) \<subseteq> feasible inp"
    unfolding raw_points_set [OF assms(1)] feasible_def using out(1) by blast
  have cover: "\<exists>r \<in> fst ` set (raw_points inp out). metrics_le r m" if "m \<in> feasible inp" for m
  proof -
    from that obtain cs c where m: "valid_choices (oi_groups inp) cs" "c \<in> set (oi_context_candidates inp)"
      "allows (oi_context_constraint inp) (cx_tokens c)" "m = point (evaluate inp (oi_groups inp) (initial_state inp) cs) c"
      "pm_resident_bytes m \<le> oi_memory_budget_bytes inp" "pm_latency_cost m \<le> u64_max" by (auto simp: feasible_def)
    then have "ss_resident_bytes (evaluate inp (oi_groups inp) (initial_state inp) cs) \<le> oi_memory_budget_bytes inp"
      by (simp add: point_def)
    with out(2) m(1) obtain k where k: "k \<in> set out" "state_le k (evaluate inp (oi_groups inp) (initial_state inp) cs)" by blast
    then have le: "metrics_le (point k c) m" using point_mono m(4) by simp
    then have "pm_resident_bytes (point k c) \<le> oi_memory_budget_bytes inp" "pm_latency_cost (point k c) \<le> u64_max"
      using m(5,6) by (simp_all add: metrics_le_def)
    then have "point k c \<in> fst ` set (raw_points inp out)" unfolding raw_points_set [OF assms(1)] using k(1) m(2,3) by blast
    with le show ?thesis by blast
  qed
  show "pareto_front (fst ` set (raw_points inp out)) = pareto_front (feasible inp)" using sub cover by (rule pareto_front_cover)
  show "raw_points inp out = [] \<longleftrightarrow> feasible inp = {}" using sub cover by fastforce
qed

text \<open>A plan built from one option per group and an allowed context, with exactly their metrics.\<close>

definition realised :: "optimizer_input \<Rightarrow> pareto_plan \<Rightarrow> bool" where
  "realised inp p \<longleftrightarrow> (\<exists>cs c. valid_choices (oi_groups inp) cs \<and> c \<in> set (oi_context_candidates inp) \<and>
     allows (oi_context_constraint inp) (cx_tokens c) \<and>
     p = build_plan inp (point (evaluate inp (oi_groups inp) (initial_state inp) cs) c) cs)"

lemma evaluate_choices: "valid_choices gs cs \<Longrightarrow> ss_choices (evaluate inp gs s cs) = ss_choices s @ cs"
  by (induction inp gs s cs rule: evaluate.induct) (auto simp: valid_choices_def advance_def)

lemma dedup_subset: "set (dedup_by_id ps) \<subseteq> set ps"
  by (induction ps rule: dedup_by_id.induct) auto

lemma raw_points_states:
  assumes "(m, cs) \<in> set (raw_points inp states)"
  shows "\<exists>s \<in> set states. \<exists>c \<in> set (oi_context_candidates inp).
    allows (oi_context_constraint inp) (cx_tokens c) \<and> m = point s c \<and> cs = ss_choices s"
proof -
  from assms obtain c s where c: "c \<in> set (oi_context_candidates inp)" "allows (oi_context_constraint inp) (cx_tokens c)"
    and s: "s \<in> set states" and here: "(m, cs) \<in> set (case metrics_with_context s c of None \<Rightarrow> [] | Some m \<Rightarrow>
        if pm_resident_bytes m \<le> oi_memory_budget_bytes inp then [(m, ss_choices s)] else [])"
    by (auto simp: raw_points_def context_points_def)
  from here have "metrics_with_context s c = Some m" "cs = ss_choices s" by (auto split: option.splits if_splits)
  with c s show ?thesis by (auto simp: metrics_with_context_iff)
qed

lemma frontier_realised:
  assumes out: "\<And>t. t \<in> set out \<Longrightarrow>
      \<exists>cs. valid_choices (oi_groups inp) cs \<and> t = evaluate inp (oi_groups inp) (initial_state inp) cs"
    and p: "p \<in> set (dedup_by_id (frontier inp (raw_points inp out)))"
  shows "realised inp p"
proof -
  have "p \<in> set (frontier inp (raw_points inp out))" using p dedup_subset by blast
  then obtain x where x: "x \<in> set (keep_points (raw_points inp out))" "p = (case x of (m, cs) \<Rightarrow> build_plan inp m cs)"
    by (auto simp: frontier_def)
  have "set (keep_points (raw_points inp out)) \<subseteq> set (raw_points inp out)" by (auto simp: keep_points_def)
  moreover obtain m cs where "x = (m, cs)" by force
  ultimately have m: "(m, cs) \<in> set (raw_points inp out)" "p = build_plan inp m cs" using x by auto
  from raw_points_states [OF m(1)] obtain t c where t: "t \<in> set out" "c \<in> set (oi_context_candidates inp)"
    "allows (oi_context_constraint inp) (cx_tokens c)" "m = point t c" "cs = ss_choices t" by blast
  from out [OF t(1)] obtain ds where ds: "valid_choices (oi_groups inp) ds"
    "t = evaluate inp (oi_groups inp) (initial_state inp) ds" by blast
  then have "ss_choices t = ds" by (simp add: evaluate_choices initial_state_def)
  with m(2) t(4,5) ds(2) have "p = build_plan inp (point (evaluate inp (oi_groups inp) (initial_state inp) ds) c) ds"
    by simp
  with t(2,3) ds(1) show ?thesis unfolding realised_def by blast
qed

section \<open>Properties\<close>

text \<open>
  C29: Within its limits the optimizer finds exactly the Pareto front.  Take a valid
  input whose cost sums fit \<^verbatim>\<open>u64\<close> and whose option counts multiply to no more than the
  4096 states the search keeps (beyond that the code trims the states and may lose
  members of the front), and let the plan identifiers, which are hashes, not collide
  between plans of different metrics.  Then an error means that no choice of one option per group
  and an allowed context fits the memory budget; otherwise the metrics of the returned
  plans are exactly the non-dominated ones among all feasible choices, and every
  returned plan is the plan of such a choice, with its metrics and its decisions.
  Where several choices have the same metrics, which of them is returned is left open.
\<close>

theorem pareto_plans_exact:
  assumes valid: "validate_input inp = Inr ()" and u64: "oi_memory_budget_bytes inp \<le> u64_max"
    and room: "room inp (oi_groups inp) (initial_state inp)" and count: "choice_count (oi_groups inp) \<le> max_frontier_states"
    and hash: "\<And>states. search_groups inp (oi_groups inp) [initial_state inp] = Inr states \<Longrightarrow>
      ids_distinguish (frontier inp (raw_points inp states))"
  shows "case pareto_plans inp of
      Inr plans \<Rightarrow> pp_metrics ` set plans = pareto_front (feasible inp) \<and> feasible inp \<noteq> {} \<and>
        (\<forall>p \<in> set plans. realised inp p)
    | Inl _ \<Rightarrow> feasible inp = {}"
proof -
  have "oi_base_resident_bytes inp \<le> oi_memory_budget_bytes inp" "\<forall>g \<in> set (oi_groups inp). cg_options g \<noteq> []"
    using valid by (auto simp: validate_input_def list_ex_iff split: if_splits)
  then have search: "case search_groups inp (oi_groups inp) [initial_state inp] of
      Inr out \<Rightarrow>
        (\<forall>t \<in> set out. ss_resident_bytes t \<le> oi_memory_budget_bytes inp \<and>
           (\<exists>s \<in> set [initial_state inp]. \<exists>cs. valid_choices (oi_groups inp) cs \<and> t = evaluate inp (oi_groups inp) s cs)) \<and>
        (\<forall>s \<in> set [initial_state inp]. \<forall>cs. valid_choices (oi_groups inp) cs \<longrightarrow>
           ss_resident_bytes (evaluate inp (oi_groups inp) s cs) \<le> oi_memory_budget_bytes inp \<longrightarrow>
           (\<exists>k \<in> set out. state_le k (evaluate inp (oi_groups inp) s cs)))
    | Inl _ \<Rightarrow> \<forall>s \<in> set [initial_state inp]. \<forall>cs. valid_choices (oi_groups inp) cs \<longrightarrow>
        oi_memory_budget_bytes inp < ss_resident_bytes (evaluate inp (oi_groups inp) s cs)"
    using room count by (intro search_spec) (simp_all add: initial_state_def)
  show ?thesis
  proof (cases "search_groups inp (oi_groups inp) [initial_state inp]")
    case (Inl e)
    with search have "\<forall>cs. valid_choices (oi_groups inp) cs \<longrightarrow>
        oi_memory_budget_bytes inp < ss_resident_bytes (evaluate inp (oi_groups inp) (initial_state inp) cs)" by simp
    then have "feasible inp = {}" by (fastforce simp: feasible_def point_def)
    then show ?thesis using valid Inl by (simp add: pareto_plans_def)
  next
    case (Inr out)
    with search have out: "\<And>t. t \<in> set out \<Longrightarrow> \<exists>cs. valid_choices (oi_groups inp) cs \<and> t = evaluate inp (oi_groups inp) (initial_state inp) cs"
      "\<And>cs. valid_choices (oi_groups inp) cs \<Longrightarrow>
         ss_resident_bytes (evaluate inp (oi_groups inp) (initial_state inp) cs) \<le> oi_memory_budget_bytes inp \<Longrightarrow>
         \<exists>k \<in> set out. state_le k (evaluate inp (oi_groups inp) (initial_state inp) cs)" by simp_all
    note front = feasible_covered [OF u64 out]
    show ?thesis
    proof (cases "raw_points inp out = []")
      case True
      then show ?thesis using valid Inr front(2) by (simp add: pareto_plans_def)
    next
      case False
      then have "pareto_plans inp = Inr (dedup_by_id (frontier inp (raw_points inp out)))"
        using valid Inr by (simp add: pareto_plans_def Let_def)
      then show ?thesis
        using dedup_metrics [OF hash [OF Inr]] frontier_metrics front False frontier_realised [OF out(1)] by simp
    qed
  qed
qed

text \<open>One group with a better and a worse option, and one context.\<close>

definition demo_option :: "string \<Rightarrow> nat \<Rightarrow> representation_candidate" where
  "demo_option i quality =
     \<lparr>ca_id = i, ca_quant = \<lparr>qs_kind = ''exact'', qs_scale = None\<rparr>, ca_layout = 0, ca_placement = ResidentPlacement,
      ca_resident_bytes = 10, ca_package_bytes = 4, ca_storage_traffic_bytes = 0, ca_latency_cost = 1,
      ca_quality_loss_ppm = quality, ca_dispatch_class = 1, ca_rationale = []\<rparr>"

definition demo_input :: optimizer_input where
  "demo_input =
     \<lparr>oi_cost_model = ''m'', oi_groups = [\<lparr>cg_key = ''g'', cg_options = [demo_option ''a'' 5, demo_option ''b'' 3]\<rparr>],
      oi_context_constraint = maximum_context 8,
      oi_context_candidates = [\<lparr>cx_tokens = 8, cx_resident_bytes = 2, cx_latency_cost = 0\<rparr>,
        \<lparr>cx_tokens = 16, cx_resident_bytes = 4, cx_latency_cost = 0\<rparr>],
      oi_memory_budget_bytes = 50, oi_base_resident_bytes = 0, oi_base_package_bytes = 0, oi_base_storage_traffic_bytes = 0,
      oi_base_latency_cost = 0, oi_base_quality_loss_ppm = 0, oi_switch_penalty = 7\<rparr>"

definition demo_metrics :: plan_metrics where
  "demo_metrics = \<lparr>pm_quality_loss_ppm = 3, pm_context_tokens = 8, pm_latency_cost = 1, pm_resident_bytes = 12,
     pm_package_bytes = 4, pm_storage_traffic_bytes = 0\<rparr>"

definition demo_best :: search_state where
  "demo_best = \<lparr>ss_quality_loss_ppm = 3, ss_latency_cost = 1, ss_resident_bytes = 10, ss_package_bytes = 4,
     ss_storage_traffic_bytes = 0, ss_last_dispatch_class = 1, ss_choices = [1]\<rparr>"

lemmas demo_optimizer = demo_input_def demo_option_def demo_metrics_def demo_best_def

lemma demo_valid: "validate_input demo_input = Inr ()"
  by (simp add: validate_input_def demo_input_def blank_def allows_def maximum_context_def)

lemma demo_search: "search_groups demo_input (oi_groups demo_input) [initial_state demo_input] = Inr [demo_best]"
  by (simp add: demo_optimizer initial_state_def next_states_def extend_def latency_after_def switches_def checked_add_u64_def
      u64_max_def prune_states_def state_sort_key_def displaces_def state_dominates_def max_frontier_states_def Let_def)

lemma demo_points: "raw_points demo_input [demo_best] = [(demo_metrics, [1])]"
  by (simp add: raw_points_def context_points_def demo_optimizer metrics_with_context_def checked_add_u64_def
      u64_max_def allows_def maximum_context_def)

lemma demo_frontier: "frontier demo_input (raw_points demo_input [demo_best]) = [build_plan demo_input demo_metrics [1]]"
  by (simp add: demo_points frontier_def keep_points_def)

theorem pareto_plans_exact_witness: "pareto_front (feasible demo_input) = {demo_metrics}"
proof -
  have "case pareto_plans demo_input of
      Inr plans \<Rightarrow> pp_metrics ` set plans = pareto_front (feasible demo_input) \<and> feasible demo_input \<noteq> {} \<and>
        (\<forall>p \<in> set plans. realised demo_input p)
    | Inl _ \<Rightarrow> feasible demo_input = {}"
  proof (rule pareto_plans_exact)
    show "validate_input demo_input = Inr ()" by (rule demo_valid)
    show "oi_memory_budget_bytes demo_input \<le> u64_max" by (simp add: demo_input_def u64_max_def)
    show "room demo_input (oi_groups demo_input) (initial_state demo_input)"
      by (simp add: room_def group_total_def demo_optimizer initial_state_def u64_max_def)
    show "choice_count (oi_groups demo_input) \<le> max_frontier_states"
      by (simp add: choice_count_def demo_input_def max_frontier_states_def)
    show "ids_distinguish (frontier demo_input (raw_points demo_input states))"
      if "search_groups demo_input (oi_groups demo_input) [initial_state demo_input] = Inr states" for states
    proof -
      have "states = [demo_best]" using that by (simp add: demo_search)
      then show ?thesis by (simp add: demo_frontier ids_distinguish_def)
    qed
  qed
  moreover have "pareto_plans demo_input = Inr [build_plan demo_input demo_metrics [1]]"
    by (simp add: pareto_plans_def demo_valid demo_search demo_points demo_frontier [unfolded demo_points One_nat_def])
  ultimately show ?thesis by (simp add: build_plan_def Let_def)
qed

end
