(* ===== verification/Ir_Tiered.thy ===== *)
theory Ir_Tiered
  imports Ir_Optimizer_Props
begin

text \<open>
  The tiered optimizer (\<^verbatim>\<open>logan-ir/src/tiered_optimizer.rs\<close>): the search of the physical
  optimizer over resource plans, with capacities per memory pool and per storage
  pool.  A \<^verbatim>\<open>BTreeMap\<close> is an association list in key order.
\<close>

section \<open>Ordered maps\<close>

fun bt_update :: "'k :: linorder \<Rightarrow> 'v \<Rightarrow> ('v \<Rightarrow> 'v) \<Rightarrow> ('k \<times> 'v) list \<Rightarrow> ('k \<times> 'v) list" where
  "bt_update k d f [] = [(k, f d)]"
| "bt_update k d f ((k', v) # m) =
     (if k = k' then (k, f v) # m else if k < k' then (k, f d) # (k', v) # m else (k', v) # bt_update k d f m)"

definition bt_get :: "('k \<times> 'v) list \<Rightarrow> 'k \<Rightarrow> 'v \<Rightarrow> 'v" where
  "bt_get m k d = (case map_of m k of None \<Rightarrow> d | Some v \<Rightarrow> v)"

section \<open>Data\<close>

record tiered_candidate =
  tc_id :: string
  tc_quant :: quant_spec
  tc_layout :: nat
  tc_legacy_placement :: placement
  tc_resource :: resource_plan
  tc_package_bytes :: nat
  tc_latency_cost :: nat
  tc_quality_loss_ppm :: nat
  tc_dispatch_class :: nat
  tc_rationale :: string

record tiered_group =
  tg_key :: string
  tg_options :: "tiered_candidate list"

record tiered_context =
  tx_tokens :: nat
  tx_resources :: "resource_plan list"
  tx_latency_cost :: nat

record tiered_input =
  ti_cost_model :: string
  ti_groups :: "tiered_group list"
  ti_context_constraint :: context_constraint
  ti_context_candidates :: "tiered_context list"
  ti_resource_budget :: resource_budget
  ti_base_resources :: "resource_plan list"
  ti_base_package_bytes :: nat
  ti_base_latency_cost :: nat
  ti_base_quality_loss_ppm :: nat
  ti_switch_penalty :: nat

record memory_pool_usage =
  mu_pool :: pool_id
  mu_minimum_working_set_bytes :: nat
  mu_target_resident_bytes :: nat

record storage_pool_usage =
  su_pool :: pool_id
  su_mutable_backing_bytes :: nat

record tiered_usage =
  tu_memory_pools :: "memory_pool_usage list"
  tu_storage_pools :: "storage_pool_usage list"
  tu_immutable_package_backing_bytes :: nat
  tu_read_bytes :: nat
  tu_write_bytes :: nat

definition saturating_total :: "nat list \<Rightarrow> nat" where
  "saturating_total xs = fold (\<lambda>x acc. saturating_add_u64 acc x) xs 0"

definition usage_minimum :: "tiered_usage \<Rightarrow> nat" where
  "usage_minimum u = saturating_total (map mu_minimum_working_set_bytes (tu_memory_pools u))"

definition usage_target :: "tiered_usage \<Rightarrow> nat" where
  "usage_target u = saturating_total (map mu_target_resident_bytes (tu_memory_pools u))"

definition usage_backing :: "tiered_usage \<Rightarrow> nat" where
  "usage_backing u = saturating_total (map su_mutable_backing_bytes (tu_storage_pools u))"

definition usage_traffic :: "tiered_usage \<Rightarrow> nat" where
  "usage_traffic u = saturating_add_u64 (tu_read_bytes u) (tu_write_bytes u)"

record tiered_metrics =
  tm_quality_loss_ppm :: nat
  tm_context_tokens :: nat
  tm_latency_cost :: nat
  tm_usage :: tiered_usage
  tm_package_bytes :: nat

record tiered_decision =
  td_group :: string
  td_chosen :: tiered_candidate
  td_rejected :: "rejected_candidate list"

record tiered_plan =
  tp_id :: string
  tp_labels :: "string list"
  tp_cost_model :: string
  tp_metrics :: tiered_metrics
  tp_decisions :: "tiered_decision list"

section \<open>Resource accounting\<close>

record memory_acc =
  ma_pinned_bytes :: nat
  ma_transient_bytes :: nat
  ma_target_bytes :: nat

definition memory_acc_default :: memory_acc where
  "memory_acc_default = \<lparr>ma_pinned_bytes = 0, ma_transient_bytes = 0, ma_target_bytes = 0\<rparr>"

definition acc_minimum :: "memory_acc \<Rightarrow> nat option" where
  "acc_minimum a = checked_add_u64 (ma_pinned_bytes a) (ma_transient_bytes a)"

record resource_acc =
  ra_memory :: "(pool_id \<times> memory_acc) list"
  ra_storage :: "(pool_id \<times> nat) list"
  ra_package_bytes :: nat
  ra_read_bytes :: nat
  ra_write_bytes :: nat

definition resource_acc_default :: resource_acc where
  "resource_acc_default = \<lparr>ra_memory = [], ra_storage = [], ra_package_bytes = 0, ra_read_bytes = 0, ra_write_bytes = 0\<rparr>"

text \<open>
  The three steps of \<^verbatim>\<open>add_resource\<close>.  \<open>Inr None\<close> is the answer \<^verbatim>\<open>Ok(false)\<close>, after which every
  caller drops the accumulator.
\<close>

definition add_memory :: "nat \<Rightarrow> residency_plan \<Rightarrow> resource_acc \<Rightarrow> string + resource_acc option" where
  "add_memory capacity rp acc =
     (let entry = bt_get (ra_memory acc) (rp_memory_pool rp) memory_acc_default in
      case checked_add_u64 (ma_pinned_bytes entry) (rp_pinned_bytes rp) of
        None \<Rightarrow> Inl ''pinned memory accounting overflow''
      | Some pinned \<Rightarrow>
          if rp_minimum_working_set_bytes rp < rp_pinned_bytes rp then Inl ''resource pinned bytes exceed local working set''
          else
            (let transient = max (ma_transient_bytes entry) (rp_minimum_working_set_bytes rp - rp_pinned_bytes rp) in
             case checked_add_u64 (ma_target_bytes entry) (rp_target_resident_bytes rp) of
               None \<Rightarrow> Inl ''resident target accounting overflow''
             | Some target \<Rightarrow>
                 (case checked_add_u64 pinned transient of
                    None \<Rightarrow> Inl ''minimum working-set accounting overflow''
                  | Some minimum \<Rightarrow>
                      if capacity < minimum \<or> capacity < target then Inr None
                      else Inr (Some (acc\<lparr>ra_memory := bt_update (rp_memory_pool rp) memory_acc_default
                             (\<lambda>_. \<lparr>ma_pinned_bytes = pinned, ma_transient_bytes = transient, ma_target_bytes = target\<rparr>)
                             (ra_memory acc)\<rparr>)))))"

definition add_backing :: "resource_budget \<Rightarrow> backing_plan \<Rightarrow> resource_acc \<Rightarrow> string + resource_acc option" where
  "add_backing budget bk acc =
     (if bk_kind bk = RuntimeStateFile \<or> bk_kind bk = DevicePersistent then
        (case bk_storage_pool bk of
           None \<Rightarrow> Inl ''runtime/device backing is missing a storage pool after validation''
         | Some i \<Rightarrow>
             (case storage_pool budget i of
                None \<Rightarrow> Inl (''resource references unknown storage pool `'' @ i @ ''`'')
              | Some pool \<Rightarrow>
                  if \<not> sp_writable pool then Inr None
                  else
                    (case checked_add_u64 (bt_get (ra_storage acc) i 0) (bk_bytes bk) of
                       None \<Rightarrow> Inl ''mutable backing accounting overflow''
                     | Some stored \<Rightarrow>
                         if sp_available_bytes pool < stored then Inr None
                         else Inr (Some (acc\<lparr>ra_storage := bt_update i 0 (\<lambda>_. stored) (ra_storage acc)\<rparr>)))))
      else if bk_kind bk = PackageRecord then
        (case checked_add_u64 (ra_package_bytes acc) (bk_bytes bk) of
           None \<Rightarrow> Inl ''package backing accounting overflow''
         | Some package \<Rightarrow> Inr (Some (acc\<lparr>ra_package_bytes := package\<rparr>)))
      else Inr (Some acc))"

definition add_access :: "access_plan \<Rightarrow> resource_acc \<Rightarrow> string + resource_acc option" where
  "add_access ac acc =
     (case checked_add_u64 (ra_read_bytes acc) (ac_read_bytes ac) of
        None \<Rightarrow> Inl ''storage read accounting overflow''
      | Some r \<Rightarrow>
          (case checked_add_u64 (ra_write_bytes acc) (ac_write_bytes ac) of
             None \<Rightarrow> Inl ''storage write accounting overflow''
           | Some w \<Rightarrow> Inr (Some (acc\<lparr>ra_read_bytes := r, ra_write_bytes := w\<rparr>))))"

definition try_then :: "(string + 'a option) \<Rightarrow> ('a \<Rightarrow> string + 'b option) \<Rightarrow> string + 'b option" where
  "try_then x f = (case x of Inl e \<Rightarrow> Inl e | Inr None \<Rightarrow> Inr None | Inr (Some y) \<Rightarrow> f y)"

definition add_resource :: "resource_budget \<Rightarrow> resource_plan \<Rightarrow> resource_acc \<Rightarrow> string + resource_acc option" where
  "add_resource budget r acc =
     (case validate_resource r of
        Inl e \<Rightarrow> Inl e
      | Inr _ \<Rightarrow>
          (case memory_capacity budget (rp_memory_pool (rs_residency r)) of
             None \<Rightarrow> Inl (''resource references unknown memory pool `'' @ rp_memory_pool (rs_residency r) @ ''`'')
           | Some capacity \<Rightarrow>
               try_then (add_memory capacity (rs_residency r) acc)
                 (\<lambda>acc1. try_then (add_backing budget (rs_backing r) acc1) (add_access (rs_access r)))))"

fun add_resources :: "resource_budget \<Rightarrow> resource_plan list \<Rightarrow> resource_acc \<Rightarrow> string + resource_acc option" where
  "add_resources budget [] acc = Inr (Some acc)"
| "add_resources budget (r # rs) acc = try_then (add_resource budget r acc) (add_resources budget rs)"

fun usage_pools :: "(pool_id \<times> memory_acc) list \<Rightarrow> string + memory_pool_usage list" where
  "usage_pools [] = Inr []"
| "usage_pools ((pool, a) # m) =
     (case acc_minimum a of
        None \<Rightarrow> Inl ''minimum working-set accounting overflow''
      | Some minimum \<Rightarrow>
          (case usage_pools m of
             Inl e \<Rightarrow> Inl e
           | Inr us \<Rightarrow> Inr (\<lparr>mu_pool = pool, mu_minimum_working_set_bytes = minimum,
               mu_target_resident_bytes = ma_target_bytes a\<rparr> # us)))"

definition usage :: "resource_acc \<Rightarrow> string + tiered_usage" where
  "usage acc =
     (case usage_pools (ra_memory acc) of
        Inl e \<Rightarrow> Inl e
      | Inr pools \<Rightarrow> Inr
          \<lparr>tu_memory_pools = pools,
           tu_storage_pools = map (\<lambda>(pool, n). \<lparr>su_pool = pool, su_mutable_backing_bytes = n\<rparr>) (ra_storage acc),
           tu_immutable_package_backing_bytes = ra_package_bytes acc, tu_read_bytes = ra_read_bytes acc,
           tu_write_bytes = ra_write_bytes acc\<rparr>)"

definition acc_no_worse :: "resource_acc \<Rightarrow> resource_acc \<Rightarrow> bool" where
  "acc_no_worse l r \<longleftrightarrow>
     list_all (\<lambda>(pool, a). let b = bt_get (ra_memory r) pool memory_acc_default in
       (case (acc_minimum a, acc_minimum b) of
          (Some x, Some y) \<Rightarrow> x \<le> y \<and> ma_target_bytes a \<le> ma_target_bytes b
        | _ \<Rightarrow> False)) (ra_memory l) \<and>
     list_all (\<lambda>(pool, n). n \<le> bt_get (ra_storage r) pool 0) (ra_storage l) \<and>
     ra_package_bytes l \<le> ra_package_bytes r \<and> ra_read_bytes l \<le> ra_read_bytes r \<and> ra_write_bytes l \<le> ra_write_bytes r"

text \<open>\<^verbatim>\<open>None\<close> is below every \<^verbatim>\<open>Some\<close> in the order of \<^verbatim>\<open>Option\<close>.\<close>

definition option_less :: "nat option \<Rightarrow> nat option \<Rightarrow> bool" where
  "option_less a b = (case (a, b) of (Some x, Some y) \<Rightarrow> x < y | (None, Some _) \<Rightarrow> True | _ \<Rightarrow> False)"

definition acc_strictly_better :: "resource_acc \<Rightarrow> resource_acc \<Rightarrow> bool" where
  "acc_strictly_better l r \<longleftrightarrow>
     (if \<not> acc_no_worse l r then False
      else if ra_package_bytes l < ra_package_bytes r \<or> ra_read_bytes l < ra_read_bytes r \<or> ra_write_bytes l < ra_write_bytes r
      then True
      else if list_ex (\<lambda>(pool, b). let a = bt_get (ra_memory l) pool memory_acc_default in
             option_less (acc_minimum a) (acc_minimum b) \<or> ma_target_bytes a < ma_target_bytes b) (ra_memory r)
      then True
      else list_ex (\<lambda>(pool, n). bt_get (ra_storage l) pool 0 < n) (ra_storage r))"

section \<open>Search\<close>

record tiered_state =
  ts_quality_loss_ppm :: nat
  ts_latency_cost :: nat
  ts_package_bytes :: nat
  ts_resources :: resource_acc
  ts_last_dispatch_class :: nat
  ts_choices :: "nat list"

fun validate_resources :: "resource_plan list \<Rightarrow> string + unit" where
  "validate_resources [] = Inr ()"
| "validate_resources (r # rs) = (case validate_resource r of Inl e \<Rightarrow> Inl e | Inr _ \<Rightarrow> validate_resources rs)"

fun validate_groups :: "tiered_group list \<Rightarrow> string + unit" where
  "validate_groups [] = Inr ()"
| "validate_groups (g # gs) =
     (if tg_key g = [] \<or> tg_options g = [] then Inl ''optimizer groups require a non-empty key and at least one option''
      else case validate_resources (map tc_resource (tg_options g)) of Inl e \<Rightarrow> Inl e | Inr _ \<Rightarrow> validate_groups gs)"

definition validate_tiered :: "tiered_input \<Rightarrow> string + unit" where
  "validate_tiered inp =
     (if blank (ti_cost_model inp) then Inl ''optimizer cost model id cannot be empty''
      else case validate_budget (ti_resource_budget inp) of
        Inl e \<Rightarrow> Inl e
      | Inr _ \<Rightarrow>
          if ti_context_candidates inp = [] then Inl ''optimizer requires at least one context candidate''
          else if \<not> list_ex (\<lambda>c. allows (ti_context_constraint inp) (tx_tokens c)) (ti_context_candidates inp)
          then Inl ''no context candidate satisfies the requested context constraint''
          else
            (case validate_groups (ti_groups inp) of
               Inl e \<Rightarrow> Inl e
             | Inr _ \<Rightarrow> validate_resources (concat (map tx_resources (ti_context_candidates inp)))))"

definition tiered_switches :: "tiered_state \<Rightarrow> tiered_candidate \<Rightarrow> bool" where
  "tiered_switches s opt \<longleftrightarrow> tc_dispatch_class opt \<noteq> 0 \<and> ts_last_dispatch_class s \<noteq> 0 \<and>
     tc_dispatch_class opt \<noteq> ts_last_dispatch_class s"

definition tiered_latency :: "tiered_input \<Rightarrow> tiered_state \<Rightarrow> tiered_candidate \<Rightarrow> string + nat" where
  "tiered_latency inp s opt =
     (case checked_add_u64 (ts_latency_cost s) (tc_latency_cost opt) of
        None \<Rightarrow> Inl ''optimizer latency cost overflow''
      | Some l \<Rightarrow>
          if tiered_switches s opt then
            (case checked_add_u64 l (ti_switch_penalty inp) of
               None \<Rightarrow> Inl ''optimizer heterogeneity cost overflow''
             | Some l' \<Rightarrow> Inr l')
          else Inr l)"

definition tiered_extend :: "tiered_input \<Rightarrow> tiered_state \<Rightarrow> nat \<times> tiered_candidate \<Rightarrow> string + tiered_state option" where
  "tiered_extend inp s iopt =
     (case iopt of (i, opt) \<Rightarrow>
      try_then (add_resource (ti_resource_budget inp) (tc_resource opt) (ts_resources s))
        (\<lambda>resources.
          case tiered_latency inp s opt of
            Inl e \<Rightarrow> Inl e
          | Inr latency \<Rightarrow>
              (case checked_add_u64 (ts_quality_loss_ppm s) (tc_quality_loss_ppm opt) of
                 None \<Rightarrow> Inl ''optimizer quality cost overflow''
               | Some quality \<Rightarrow>
                   (case checked_add_u64 (ts_package_bytes s) (tc_package_bytes opt) of
                      None \<Rightarrow> Inl ''optimizer package bytes overflow''
                    | Some package \<Rightarrow> Inr (Some
                        \<lparr>ts_quality_loss_ppm = quality, ts_latency_cost = latency, ts_package_bytes = package,
                         ts_resources = resources,
                         ts_last_dispatch_class =
                           (if tc_dispatch_class opt = 0 then ts_last_dispatch_class s else tc_dispatch_class opt),
                         ts_choices = ts_choices s @ [i]\<rparr>)))))"

definition tiered_next :: "tiered_input \<Rightarrow> tiered_group \<Rightarrow> tiered_state list \<Rightarrow> string + tiered_state list" where
  "tiered_next inp g states =
     collect (\<lambda>(s, iopt). tiered_extend inp s iopt) (List.product states (enumerate 0 (tg_options g)))"

definition tiered_state_dominates :: "tiered_state \<Rightarrow> tiered_state \<Rightarrow> bool" where
  "tiered_state_dominates l r \<longleftrightarrow>
     (ts_quality_loss_ppm l \<le> ts_quality_loss_ppm r \<and> ts_latency_cost l \<le> ts_latency_cost r \<and>
      ts_package_bytes l \<le> ts_package_bytes r \<and> acc_no_worse (ts_resources l) (ts_resources r)) \<and>
     (ts_quality_loss_ppm l < ts_quality_loss_ppm r \<or> ts_latency_cost l < ts_latency_cost r \<or>
      ts_package_bytes l < ts_package_bytes r \<or> acc_strictly_better (ts_resources l) (ts_resources r))"

definition tiered_displaces :: "tiered_state \<Rightarrow> tiered_state \<Rightarrow> bool" where
  "tiered_displaces l r \<longleftrightarrow> ts_last_dispatch_class l = ts_last_dispatch_class r \<and> tiered_state_dominates l r"

definition usage_or_max :: "(tiered_usage \<Rightarrow> nat) \<Rightarrow> string + tiered_usage \<Rightarrow> nat" where
  "usage_or_max f u = (case u of Inl _ \<Rightarrow> u64_max | Inr x \<Rightarrow> f x)"

definition tiered_sort_key :: "tiered_state \<Rightarrow> nat \<times> nat \<times> nat \<times> nat \<times> nat \<times> nat \<times> nat \<times> nat \<times> nat list" where
  "tiered_sort_key s =
     (let u = usage (ts_resources s) in
      (ts_quality_loss_ppm s, ts_latency_cost s, usage_or_max usage_minimum u, usage_or_max usage_target u,
       usage_or_max usage_backing u, usage_or_max usage_traffic u, ts_package_bytes s, ts_last_dispatch_class s, ts_choices s))"

definition tiered_prune :: "tiered_state list \<Rightarrow> tiered_state list" where
  "tiered_prune states =
     (let kept = prune_loop tiered_displaces (sort_key tiered_sort_key states) [] in
      if max_frontier_states < length kept then take max_frontier_states (sort_key tiered_sort_key kept) else kept)"

fun tiered_search :: "tiered_input \<Rightarrow> tiered_group list \<Rightarrow> tiered_state list \<Rightarrow> string + tiered_state list" where
  "tiered_search inp [] states = Inr states"
| "tiered_search inp (g # gs) states =
     (case tiered_next inp g states of
        Inl e \<Rightarrow> Inl e
      | Inr nxt \<Rightarrow>
          (let states' = tiered_prune nxt in
           if states' = []
           then Inl (''no feasible physical representation remains after group `'' @ tg_key g @
                  ''` within the memory/storage resource envelope'')
           else tiered_search inp gs states'))"

section \<open>The frontier\<close>

definition find_memory_usage :: "tiered_usage \<Rightarrow> pool_id \<Rightarrow> nat \<times> nat" where
  "find_memory_usage u pool =
     (case find (\<lambda>p. mu_pool p = pool) (tu_memory_pools u) of
        None \<Rightarrow> (0, 0)
      | Some p \<Rightarrow> (mu_minimum_working_set_bytes p, mu_target_resident_bytes p))"

definition find_storage_usage :: "tiered_usage \<Rightarrow> pool_id \<Rightarrow> nat" where
  "find_storage_usage u pool =
     (case find (\<lambda>p. su_pool p = pool) (tu_storage_pools u) of None \<Rightarrow> 0 | Some p \<Rightarrow> su_mutable_backing_bytes p)"

definition usage_no_worse :: "tiered_usage \<Rightarrow> tiered_usage \<Rightarrow> bool" where
  "usage_no_worse l r \<longleftrightarrow>
     list_all (\<lambda>p. mu_minimum_working_set_bytes p \<le> fst (find_memory_usage r (mu_pool p)) \<and>
       mu_target_resident_bytes p \<le> snd (find_memory_usage r (mu_pool p))) (tu_memory_pools l) \<and>
     list_all (\<lambda>p. su_mutable_backing_bytes p \<le> find_storage_usage r (su_pool p)) (tu_storage_pools l) \<and>
     tu_immutable_package_backing_bytes l \<le> tu_immutable_package_backing_bytes r \<and>
     tu_read_bytes l \<le> tu_read_bytes r \<and> tu_write_bytes l \<le> tu_write_bytes r"

definition usage_strictly_better :: "tiered_usage \<Rightarrow> tiered_usage \<Rightarrow> bool" where
  "usage_strictly_better l r \<longleftrightarrow>
     (if \<not> usage_no_worse l r then False
      else if tu_immutable_package_backing_bytes l < tu_immutable_package_backing_bytes r \<or>
        tu_read_bytes l < tu_read_bytes r \<or> tu_write_bytes l < tu_write_bytes r
      then True
      else if list_ex (\<lambda>p. fst (find_memory_usage l (mu_pool p)) < mu_minimum_working_set_bytes p \<or>
        snd (find_memory_usage l (mu_pool p)) < mu_target_resident_bytes p) (tu_memory_pools r)
      then True
      else list_ex (\<lambda>p. find_storage_usage l (su_pool p) < su_mutable_backing_bytes p) (tu_storage_pools r))"

definition metrics_dominate :: "tiered_metrics \<Rightarrow> tiered_metrics \<Rightarrow> bool" where
  "metrics_dominate l r \<longleftrightarrow>
     (tm_quality_loss_ppm l \<le> tm_quality_loss_ppm r \<and> tm_context_tokens r \<le> tm_context_tokens l \<and>
      tm_latency_cost l \<le> tm_latency_cost r \<and> tm_package_bytes l \<le> tm_package_bytes r \<and>
      usage_no_worse (tm_usage l) (tm_usage r)) \<and>
     (tm_quality_loss_ppm l < tm_quality_loss_ppm r \<or> tm_context_tokens r < tm_context_tokens l \<or>
      tm_latency_cost l < tm_latency_cost r \<or> tm_package_bytes l < tm_package_bytes r \<or>
      usage_strictly_better (tm_usage l) (tm_usage r))"

definition tiered_point ::
  "tiered_input \<Rightarrow> tiered_context \<Rightarrow> tiered_state \<Rightarrow> string + (tiered_metrics \<times> nat list) option" where
  "tiered_point inp c s =
     try_then (add_resources (ti_resource_budget inp) (tx_resources c) (ts_resources s))
       (\<lambda>resources.
         case checked_add_u64 (ts_latency_cost s) (tx_latency_cost c) of
           None \<Rightarrow> Inl ''optimizer context latency overflow''
         | Some latency \<Rightarrow>
             (case usage resources of
                Inl e \<Rightarrow> Inl e
              | Inr u \<Rightarrow> Inr (Some
                  (\<lparr>tm_quality_loss_ppm = ts_quality_loss_ppm s, tm_context_tokens = tx_tokens c, tm_latency_cost = latency,
                    tm_usage = u, tm_package_bytes = ts_package_bytes s\<rparr>, ts_choices s))))"

definition tiered_points :: "tiered_input \<Rightarrow> tiered_state list \<Rightarrow> string + (tiered_metrics \<times> nat list) list" where
  "tiered_points inp states =
     collect (\<lambda>(c, s). tiered_point inp c s)
       (List.product (filter (\<lambda>c. allows (ti_context_constraint inp) (tx_tokens c)) (ti_context_candidates inp)) states)"

definition tiered_keep :: "(tiered_metrics \<times> nat list) list \<Rightarrow> (tiered_metrics \<times> nat list) list" where
  "tiered_keep raw =
     map ((!) raw)
       (filter (\<lambda>i. \<not> list_ex (\<lambda>j. j \<noteq> i \<and> metrics_dominate (fst (raw ! j)) (fst (raw ! i))) [0..<length raw]) [0..<length raw])"

definition tiered_hash :: "string \<Rightarrow> tiered_metrics \<Rightarrow> tiered_decision list \<Rightarrow> 64 word" where
  "tiered_hash cost_model m decisions =
     (let u = tm_usage m;
          h0 = feed (string_bytes cost_model) 0xcbf29ce484222325;
          h1 = fold (\<lambda>v. feed (u64_le_bytes v))
            [tm_quality_loss_ppm m, tm_context_tokens m, tm_latency_cost m, usage_minimum u, usage_target u, usage_backing u,
             tu_immutable_package_backing_bytes u, tu_read_bytes u, tu_write_bytes u, tm_package_bytes m] h0;
          h2 = fold (\<lambda>p h. feed (u64_le_bytes (mu_target_resident_bytes p))
            (feed (u64_le_bytes (mu_minimum_working_set_bytes p)) (feed (string_bytes (mu_pool p)) h))) (tu_memory_pools u) h1;
          h3 = fold (\<lambda>p h. feed (u64_le_bytes (su_mutable_backing_bytes p)) (feed (string_bytes (su_pool p)) h))
            (tu_storage_pools u) h2
      in fold (\<lambda>d h. feed (string_bytes (tc_id (td_chosen d))) (feed (string_bytes (td_group d)) h)) decisions h3)"

definition tiered_plan_id :: "string \<Rightarrow> tiered_metrics \<Rightarrow> tiered_decision list \<Rightarrow> string" where
  "tiered_plan_id cost_model m decisions = ''tp-'' @ hex16 (tiered_hash cost_model m decisions)"

definition tiered_reason :: "tiered_candidate \<Rightarrow> string" where
  "tiered_reason c =
     (let r = tc_resource c in
      ''candidate q='' @ show_nat (tc_quality_loss_ppm c) @ ''ppm latency='' @ show_nat (tc_latency_cost c) @
      '' resident_target='' @ show_nat (rp_target_resident_bytes (rs_residency r)) @
      '' min_working='' @ show_nat (rp_minimum_working_set_bytes (rs_residency r)) @
      '' backing='' @ show_nat (mutable_backing_bytes r) @ '' read/step='' @ show_nat (ac_read_bytes (rs_access r)) @
      '' write/step='' @ show_nat (ac_write_bytes (rs_access r)) @ '': '' @ tc_rationale c)"

definition tiered_build_decision :: "tiered_group \<Rightarrow> nat \<Rightarrow> tiered_decision" where
  "tiered_build_decision g choice =
     \<lparr>td_group = tg_key g, td_chosen = tg_options g ! choice,
      td_rejected = map (\<lambda>(_, c). \<lparr>rj_id = tc_id c, rj_reason = tiered_reason c\<rparr>)
        (filter (\<lambda>(i, _). i \<noteq> choice) (enumerate 0 (tg_options g)))\<rparr>"

definition tiered_build :: "tiered_input \<Rightarrow> tiered_metrics \<Rightarrow> nat list \<Rightarrow> tiered_plan" where
  "tiered_build inp m choices =
     (let decisions = map (\<lambda>(g, choice). tiered_build_decision g choice) (zip (ti_groups inp) choices)
      in \<lparr>tp_id = tiered_plan_id (ti_cost_model inp) m decisions, tp_labels = [], tp_cost_model = ti_cost_model inp,
          tp_metrics = m, tp_decisions = decisions\<rparr>)"

definition tiered_plan_key :: "tiered_plan \<Rightarrow> nat \<times> nat \<times> nat \<times> nat \<times> nat \<times> nat \<times> string" where
  "tiered_plan_key p =
     (let m = tp_metrics p in
      (tm_quality_loss_ppm m, u64_max - tm_context_tokens m, tm_latency_cost m, usage_target (tm_usage m),
       usage_backing (tm_usage m), usage_traffic (tm_usage m), tp_id p))"

fun tiered_dedup :: "tiered_plan list \<Rightarrow> tiered_plan list" where
  "tiered_dedup (p # q # ps) = (if tp_id q = tp_id p then tiered_dedup (p # ps) else p # tiered_dedup (q # ps))"
| "tiered_dedup ps = ps"

definition tiered_frontier :: "tiered_input \<Rightarrow> (tiered_metrics \<times> nat list) list \<Rightarrow> tiered_plan list" where
  "tiered_frontier inp raw = sort_key tiered_plan_key (map (\<lambda>(m, choices). tiered_build inp m choices) (tiered_keep raw))"

definition tiered_initial :: "tiered_input \<Rightarrow> resource_acc \<Rightarrow> tiered_state" where
  "tiered_initial inp base =
     \<lparr>ts_quality_loss_ppm = ti_base_quality_loss_ppm inp, ts_latency_cost = ti_base_latency_cost inp,
      ts_package_bytes = ti_base_package_bytes inp, ts_resources = base, ts_last_dispatch_class = 0, ts_choices = []\<rparr>"

definition tiered_pareto_plans :: "tiered_input \<Rightarrow> string + tiered_plan list" where
  "tiered_pareto_plans inp =
     (case validate_tiered inp of
        Inl e \<Rightarrow> Inl e
      | Inr _ \<Rightarrow>
          (case add_resources (ti_resource_budget inp) (ti_base_resources inp) resource_acc_default of
             Inl e \<Rightarrow> Inl e
           | Inr None \<Rightarrow>
               Inl ''base resources exceed a hard memory working-set/resident target or backing-store capacity''
           | Inr (Some base) \<Rightarrow>
               (case tiered_search inp (ti_groups inp) [tiered_initial inp base] of
                  Inl e \<Rightarrow> Inl e
                | Inr states \<Rightarrow>
                    (case tiered_points inp states of
                       Inl e \<Rightarrow> Inl e
                     | Inr raw \<Rightarrow>
                         if raw = [] then Inl ''no optimizer plan satisfies the context and tiered resource constraints''
                         else Inr (tiered_dedup (tiered_frontier inp raw))))))"

section \<open>The labelled plans\<close>

definition tiered_ranks :: "tiered_plan list \<Rightarrow> (tiered_plan \<Rightarrow> nat) \<Rightarrow> bool \<Rightarrow> nat list" where
  "tiered_ranks plans val reverse =
     (let order = sort_key (\<lambda>i. (if reverse then u64_max - val (plans ! i) else val (plans ! i), tp_id (plans ! i)))
                    [0..<length plans]
      in assign_ranks (\<lambda>i. val (plans ! i)) order 0 None 0 (replicate (length plans) 0))"

definition tiered_balanced :: "tiered_plan list \<Rightarrow> nat" where
  "tiered_balanced plans =
     (let quality = tiered_ranks plans (tm_quality_loss_ppm \<circ> tp_metrics) False;
          context = tiered_ranks plans (tm_context_tokens \<circ> tp_metrics) True;
          latency = tiered_ranks plans (tm_latency_cost \<circ> tp_metrics) False;
          resident = tiered_ranks plans (usage_target \<circ> tm_usage \<circ> tp_metrics) False;
          traffic = tiered_ranks plans (usage_traffic \<circ> tm_usage \<circ> tp_metrics) False;
          backing = tiered_ranks plans (usage_backing \<circ> tm_usage \<circ> tp_metrics) False
      in best_index
           (\<lambda>i. let dims = [quality ! i, context ! i, latency ! i, resident ! i, traffic ! i, backing ! i]
                in (fold max dims 0, sum_list dims, tp_id (plans ! i)))
           [0..<length plans])"

definition tiered_add_label :: "tiered_plan list \<Rightarrow> nat \<times> string \<Rightarrow> tiered_plan list \<Rightarrow> tiered_plan list" where
  "tiered_add_label plans il chosen =
     (case il of (i, label) \<Rightarrow>
      case find (\<lambda>j. tp_id (chosen ! j) = tp_id (plans ! i)) [0..<length chosen] of
        Some j \<Rightarrow> chosen[j := (chosen ! j)\<lparr>tp_labels := tp_labels (chosen ! j) @ [label]\<rparr>]
      | None \<Rightarrow> chosen @ [(plans ! i)\<lparr>tp_labels := tp_labels (plans ! i) @ [label]\<rparr>])"

definition tiered_material_plans :: "tiered_input \<Rightarrow> string + tiered_plan list" where
  "tiered_material_plans inp =
     (case tiered_pareto_plans inp of
        Inl e \<Rightarrow> Inl e
      | Inr plans \<Rightarrow>
          if plans = [] then Inr []
          else
            let quality = best_index (\<lambda>p. let m = tp_metrics p in (tm_quality_loss_ppm m, u64_max - tm_context_tokens m,
                  tm_latency_cost m, usage_target (tm_usage m), usage_traffic (tm_usage m), tp_id p)) plans;
                latency = best_index (\<lambda>p. let m = tp_metrics p in (tm_latency_cost m, usage_traffic (tm_usage m),
                  tm_quality_loss_ppm m, u64_max - tm_context_tokens m, usage_target (tm_usage m), tp_id p)) plans;
                long_context = best_index (\<lambda>p. let m = tp_metrics p in (u64_max - tm_context_tokens m,
                  tm_quality_loss_ppm m, tm_latency_cost m, usage_traffic (tm_usage m), usage_target (tm_usage m), tp_id p)) plans;
                balanced = tiered_balanced plans;
                chosen = fold (tiered_add_label plans)
                  [(quality, ''quality''), (balanced, ''balanced''), (long_context, ''long-context''), (latency, ''latency'')] [];
                labelled = map (\<lambda>p. p\<lparr>tp_labels := remdups_adj (sort (tp_labels p))\<rparr>) chosen
            in Inr (sort_key tp_id labelled))"

definition select_tiered_plan :: "tiered_plan list \<Rightarrow> string \<Rightarrow> tiered_plan option" where
  "select_tiered_plan plans selector = find (\<lambda>p. tp_id p = selector \<or> selector \<in> set (tp_labels p)) plans"

end
