(* ===== verification/Ir_Tiered_Props.thy ===== *)
theory Ir_Tiered_Props
  imports Ir_Tiered
begin

text \<open>
  What the tiered optimizer promises of its plans: the accounting of every returned
  plan is exact and stays within every pool.  And what it does not: pruning by the
  working set loses points of the Pareto front.
\<close>

section \<open>Ordered maps\<close>

abbreviation bt_ok :: "('k :: linorder \<times> 'v) list \<Rightarrow> bool" where
  "bt_ok m \<equiv> sorted_wrt (<) (map fst m)"

lemma bt_update_keys: "fst ` set (bt_update k d f m) = insert k (fst ` set m)"
  by (induction k d f m rule: bt_update.induct) auto

lemma bt_ok_update: "bt_ok m \<Longrightarrow> bt_ok (bt_update k d f m)"
proof (induction k d f m rule: bt_update.induct)
  case (2 k d f k' v m)
  have "\<forall>x \<in> fst ` set (bt_update k d f m). k' < x" if "k' < k" using 2 that by (auto simp: bt_update_keys)
  with 2 show ?case by (auto simp: not_less_iff_gr_or_eq)
qed simp

lemma bt_get_Cons: "bt_get ((k', v) # m) k d = (if k = k' then v else bt_get m k d)"
  by (simp add: bt_get_def)

lemma bt_get_absent: "k \<notin> fst ` set m \<Longrightarrow> bt_get m k d = d"
  by (simp add: bt_get_def map_of_eq_None_iff [symmetric] option.case_eq_if)

lemma bt_get_update: "bt_ok m \<Longrightarrow> bt_get (bt_update k d f m) k' d = (if k' = k then f (bt_get m k d) else bt_get m k' d)"
proof (induction k d f m rule: bt_update.induct)
  case (1 k d f)
  then show ?case by (simp add: bt_get_def)
next
  case (2 k d f j v m)
  have "bt_get m k d = d" if "k < j" using 2 that by (intro bt_get_absent) auto
  with 2 show ?case by (auto simp: bt_get_Cons)
qed

section \<open>Totals\<close>

definition pool_pinned :: "resource_plan list \<Rightarrow> pool_id \<Rightarrow> nat" where
  "pool_pinned rs i = (\<Sum>r \<leftarrow> rs. if rp_memory_pool (rs_residency r) = i then rp_pinned_bytes (rs_residency r) else 0)"

definition pool_target :: "resource_plan list \<Rightarrow> pool_id \<Rightarrow> nat" where
  "pool_target rs i = (\<Sum>r \<leftarrow> rs. if rp_memory_pool (rs_residency r) = i then rp_target_resident_bytes (rs_residency r) else 0)"

definition pool_transient :: "resource_plan list \<Rightarrow> pool_id \<Rightarrow> nat" where
  "pool_transient rs i = fold max (map (\<lambda>r. if rp_memory_pool (rs_residency r) = i
     then rp_minimum_working_set_bytes (rs_residency r) - rp_pinned_bytes (rs_residency r) else 0) rs) 0"

definition stored_in :: "resource_plan \<Rightarrow> pool_id option" where
  "stored_in r = (if bk_kind (rs_backing r) = RuntimeStateFile \<or> bk_kind (rs_backing r) = DevicePersistent
     then bk_storage_pool (rs_backing r) else None)"

definition pool_stored :: "resource_plan list \<Rightarrow> pool_id \<Rightarrow> nat" where
  "pool_stored rs i = (\<Sum>r \<leftarrow> rs. if stored_in r = Some i then bk_bytes (rs_backing r) else 0)"

text \<open>What a set of resources needs in the pools it uses fits their capacities.\<close>

definition fits :: "resource_budget \<Rightarrow> resource_plan list \<Rightarrow> bool" where
  "fits b rs \<longleftrightarrow>
     (\<forall>r \<in> set rs. \<exists>capacity. memory_capacity b (rp_memory_pool (rs_residency r)) = Some capacity \<and>
        pool_pinned rs (rp_memory_pool (rs_residency r)) + pool_transient rs (rp_memory_pool (rs_residency r)) \<le> capacity \<and>
        pool_target rs (rp_memory_pool (rs_residency r)) \<le> capacity) \<and>
     (\<forall>r \<in> set rs. \<forall>i. stored_in r = Some i \<longrightarrow>
        (\<exists>pool. storage_pool b i = Some pool \<and> sp_writable pool \<and> pool_stored rs i \<le> sp_available_bytes pool))"

definition tracks :: "resource_budget \<Rightarrow> resource_plan list \<Rightarrow> resource_acc \<Rightarrow> bool" where
  "tracks b rs acc \<longleftrightarrow> bt_ok (ra_memory acc) \<and> bt_ok (ra_storage acc) \<and>
     (\<forall>i. bt_get (ra_memory acc) i memory_acc_default =
        \<lparr>ma_pinned_bytes = pool_pinned rs i, ma_transient_bytes = pool_transient rs i, ma_target_bytes = pool_target rs i\<rparr>) \<and>
     (\<forall>i. bt_get (ra_storage acc) i 0 = pool_stored rs i) \<and>
     ra_package_bytes acc = sum_list (map immutable_package_backing_bytes rs) \<and>
     ra_read_bytes acc = (\<Sum>r \<leftarrow> rs. ac_read_bytes (rs_access r)) \<and>
     ra_write_bytes acc = (\<Sum>r \<leftarrow> rs. ac_write_bytes (rs_access r)) \<and>
     list_all (\<lambda>r. validate_resource r = Inr ()) rs \<and> fits b rs"

lemma totals_snoc:
  "pool_pinned (rs @ [r]) i = pool_pinned rs i + (if rp_memory_pool (rs_residency r) = i then rp_pinned_bytes (rs_residency r) else 0)"
  "pool_target (rs @ [r]) i = pool_target rs i + (if rp_memory_pool (rs_residency r) = i then rp_target_resident_bytes (rs_residency r) else 0)"
  "pool_transient (rs @ [r]) i = max (if rp_memory_pool (rs_residency r) = i
     then rp_minimum_working_set_bytes (rs_residency r) - rp_pinned_bytes (rs_residency r) else 0) (pool_transient rs i)"
  "pool_stored (rs @ [r]) i = pool_stored rs i + (if stored_in r = Some i then bk_bytes (rs_backing r) else 0)"
  by (simp_all add: pool_pinned_def pool_target_def pool_transient_def pool_stored_def)

lemma tracks_default: "tracks b [] resource_acc_default"
  by (simp add: tracks_def resource_acc_default_def bt_get_def memory_acc_default_def pool_pinned_def pool_target_def
      pool_transient_def pool_stored_def fits_def)

lemma try_then_Some: "try_then x f = Inr (Some z) \<longleftrightarrow> (\<exists>y. x = Inr (Some y) \<and> f y = Inr (Some z))"
  by (auto simp: try_then_def split: sum.splits option.splits)

lemma add_memory_Some:
  assumes "add_memory cap rp acc = Inr (Some acc')"
  defines "entry \<equiv> bt_get (ra_memory acc) (rp_memory_pool rp) memory_acc_default"
  defines "new \<equiv> \<lparr>ma_pinned_bytes = ma_pinned_bytes entry + rp_pinned_bytes rp,
    ma_transient_bytes = max (ma_transient_bytes entry) (rp_minimum_working_set_bytes rp - rp_pinned_bytes rp),
    ma_target_bytes = ma_target_bytes entry + rp_target_resident_bytes rp\<rparr>"
  shows "acc' = acc\<lparr>ra_memory := bt_update (rp_memory_pool rp) memory_acc_default (\<lambda>_. new) (ra_memory acc)\<rparr>"
    "ma_pinned_bytes new + ma_transient_bytes new \<le> cap" "ma_target_bytes new \<le> cap"
  using assms(1) unfolding new_def entry_def
  by (auto simp: add_memory_def Let_def checked_add_u64_def split: if_splits)

lemma add_backing_Some:
  assumes "add_backing b (rs_backing r) acc = Inr (Some acc')" "validate_resource r = Inr ()"
  obtains (stored) i pool where "stored_in r = Some i" "storage_pool b i = Some pool" "sp_writable pool"
      "bt_get (ra_storage acc) i 0 + bk_bytes (rs_backing r) \<le> sp_available_bytes pool" "immutable_package_backing_bytes r = 0"
      "acc' = acc\<lparr>ra_storage := bt_update i 0 (\<lambda>_. bt_get (ra_storage acc) i 0 + bk_bytes (rs_backing r)) (ra_storage acc)\<rparr>"
  | (other) "stored_in r = None" "acc' = acc\<lparr>ra_package_bytes := ra_package_bytes acc + immutable_package_backing_bytes r\<rparr>"
proof (cases "bk_kind (rs_backing r) = RuntimeStateFile \<or> bk_kind (rs_backing r) = DevicePersistent")
  case True
  then obtain i pool where "bk_storage_pool (rs_backing r) = Some i" "storage_pool b i = Some pool" "sp_writable pool"
    "bt_get (ra_storage acc) i 0 + bk_bytes (rs_backing r) \<le> sp_available_bytes pool"
    "acc' = acc\<lparr>ra_storage := bt_update i 0 (\<lambda>_. bt_get (ra_storage acc) i 0 + bk_bytes (rs_backing r)) (ra_storage acc)\<rparr>"
    using assms(1) by (auto simp: add_backing_def checked_add_u64_def not_less split: option.splits if_splits)
  with True stored show thesis by (auto simp: stored_in_def immutable_package_backing_bytes_def)
next
  case False
  then show thesis using assms(1) other
    by (auto simp: add_backing_def checked_add_u64_def stored_in_def immutable_package_backing_bytes_def split: option.splits if_splits)
qed

lemma fits_snoc:
  assumes fits: "fits b rs" and i: "rp_memory_pool (rs_residency r) = i" and cap: "memory_capacity b i = Some cap"
    "pool_pinned (rs @ [r]) i + pool_transient (rs @ [r]) i \<le> cap" "pool_target (rs @ [r]) i \<le> cap"
    and stored: "\<And>j. stored_in r = Some j \<Longrightarrow>
      \<exists>pool. storage_pool b j = Some pool \<and> sp_writable pool \<and> pool_stored (rs @ [r]) j \<le> sp_available_bytes pool"
  shows "fits b (rs @ [r])"
proof -
  have "\<exists>capacity. memory_capacity b (rp_memory_pool (rs_residency q)) = Some capacity \<and>
      pool_pinned (rs @ [r]) (rp_memory_pool (rs_residency q)) + pool_transient (rs @ [r]) (rp_memory_pool (rs_residency q)) \<le> capacity \<and>
      pool_target (rs @ [r]) (rp_memory_pool (rs_residency q)) \<le> capacity" if "q \<in> set (rs @ [r])" for q
  proof (cases "rp_memory_pool (rs_residency q) = i")
    case True
    with cap show ?thesis by auto
  next
    case False
    then have "q \<in> set rs" using that i by auto
    with fits False i show ?thesis by (auto simp: fits_def totals_snoc)
  qed
  moreover have "\<exists>pool. storage_pool b j = Some pool \<and> sp_writable pool \<and> pool_stored (rs @ [r]) j \<le> sp_available_bytes pool"
    if "q \<in> set (rs @ [r])" "stored_in q = Some j" for q j
  proof (cases "stored_in r = Some j")
    case True
    then show ?thesis by (rule stored)
  next
    case False
    then have "q \<in> set rs" using that by auto
    with fits False that(2) show ?thesis by (auto simp: fits_def totals_snoc)
  qed
  ultimately show ?thesis by (simp add: fits_def)
qed

lemma tracks_add_resource:
  assumes tr: "tracks b rs acc" and add: "add_resource b r acc = Inr (Some acc')"
  shows "tracks b (rs @ [r]) acc'"
proof -
  let ?i = "rp_memory_pool (rs_residency r)"
  from add obtain cap acc1 acc2 where
    valid: "validate_resource r = Inr ()" and cap: "memory_capacity b ?i = Some cap"
    and mem: "add_memory cap (rs_residency r) acc = Inr (Some acc1)"
    and bck: "add_backing b (rs_backing r) acc1 = Inr (Some acc2)" and acc: "add_access (rs_access r) acc2 = Inr (Some acc')"
    by (auto simp: add_resource_def try_then_Some split: sum.splits option.splits)
  have ok: "bt_ok (ra_memory acc)" "bt_ok (ra_storage acc)"
    and get: "\<And>i. bt_get (ra_memory acc) i memory_acc_default =
        \<lparr>ma_pinned_bytes = pool_pinned rs i, ma_transient_bytes = pool_transient rs i, ma_target_bytes = pool_target rs i\<rparr>"
      "\<And>i. bt_get (ra_storage acc) i 0 = pool_stored rs i"
    using tr by (simp_all add: tracks_def)
  note m = add_memory_Some [OF mem, unfolded get, simplified]
  have mem': "bt_ok (ra_memory acc1)" "\<And>i. bt_get (ra_memory acc1) i memory_acc_default =
      \<lparr>ma_pinned_bytes = pool_pinned (rs @ [r]) i, ma_transient_bytes = pool_transient (rs @ [r]) i,
       ma_target_bytes = pool_target (rs @ [r]) i\<rparr>"
    unfolding m(1) using ok(1) by (simp_all add: bt_ok_update bt_get_update get totals_snoc max.commute)
  have fits1: "pool_pinned (rs @ [r]) ?i + pool_transient (rs @ [r]) ?i \<le> cap" "pool_target (rs @ [r]) ?i \<le> cap"
    using m(2,3) by (simp_all add: totals_snoc max.commute)
  have acc1: "ra_storage acc1 = ra_storage acc" "ra_package_bytes acc1 = ra_package_bytes acc"
    "ra_read_bytes acc1 = ra_read_bytes acc" "ra_write_bytes acc1 = ra_write_bytes acc" by (simp_all add: m(1))
  have bck': "ra_memory acc2 = ra_memory acc1 \<and> bt_ok (ra_storage acc2) \<and>
      (\<forall>i. bt_get (ra_storage acc2) i 0 = pool_stored (rs @ [r]) i) \<and>
      ra_package_bytes acc2 = ra_package_bytes acc + immutable_package_backing_bytes r \<and>
      ra_read_bytes acc2 = ra_read_bytes acc \<and> ra_write_bytes acc2 = ra_write_bytes acc \<and>
      (\<forall>j. stored_in r = Some j \<longrightarrow>
        (\<exists>pool. storage_pool b j = Some pool \<and> sp_writable pool \<and> pool_stored (rs @ [r]) j \<le> sp_available_bytes pool))"
    using bck valid
  proof (cases rule: add_backing_Some)
    case (stored i pool)
    have "\<forall>j. bt_get (ra_storage acc2) j 0 = pool_stored (rs @ [r]) j"
      unfolding stored(6) using ok(2) by (simp add: acc1 bt_get_update get totals_snoc stored(1))
    moreover have "bt_ok (ra_storage acc2)" unfolding stored(6) using ok(2) by (simp add: acc1 bt_ok_update)
    moreover have "pool_stored (rs @ [r]) i \<le> sp_available_bytes pool"
      using stored(4) by (simp add: acc1 get totals_snoc stored(1))
    ultimately show ?thesis using stored(1-3,5) by (simp add: stored(6) acc1)
  next
    case other
    then show ?thesis using ok(2) by (simp add: acc1 get totals_snoc)
  qed
  have "fits b (rs @ [r])" using tr cap fits1 bck' by (intro fits_snoc [OF _ refl]) (simp_all add: tracks_def)
  moreover have "ra_memory acc' = ra_memory acc2" "ra_storage acc' = ra_storage acc2" "ra_package_bytes acc' = ra_package_bytes acc2"
    "ra_read_bytes acc' = ra_read_bytes acc2 + ac_read_bytes (rs_access r)"
    "ra_write_bytes acc' = ra_write_bytes acc2 + ac_write_bytes (rs_access r)"
    using acc by (auto simp: add_access_def checked_add_u64_def split: if_splits)
  ultimately show ?thesis using tr mem' bck' valid by (simp add: tracks_def)
qed

lemma tracks_add_resources:
  "tracks b rs acc \<Longrightarrow> add_resources b qs acc = Inr (Some acc') \<Longrightarrow> tracks b (rs @ qs) acc'"
proof (induction qs arbitrary: rs acc)
  case (Cons q qs)
  from Cons.prems(2) obtain acc1 where acc1: "add_resource b q acc = Inr (Some acc1)" "add_resources b qs acc1 = Inr (Some acc')"
    by (auto simp: try_then_Some)
  from Cons.IH [OF tracks_add_resource [OF Cons.prems(1) acc1(1)] acc1(2)] show ?case by simp
qed simp

section \<open>Usage\<close>

lemma usage_pools_find:
  "usage_pools m = Inr us \<Longrightarrow> find (\<lambda>p. mu_pool p = i) us =
     map_option (\<lambda>a. \<lparr>mu_pool = i, mu_minimum_working_set_bytes = ma_pinned_bytes a + ma_transient_bytes a,
       mu_target_resident_bytes = ma_target_bytes a\<rparr>) (map_of m i)"
proof (induction m arbitrary: us rule: usage_pools.induct)
  case (2 pool a m)
  then show ?case by (auto simp: acc_minimum_def checked_add_u64_def split: option.splits sum.splits if_splits)
qed simp

lemma storage_find:
  "find (\<lambda>p. su_pool p = i) (map (\<lambda>(pool, n). \<lparr>su_pool = pool, su_mutable_backing_bytes = n\<rparr>) m) =
     map_option (\<lambda>n. \<lparr>su_pool = i, su_mutable_backing_bytes = n\<rparr>) (map_of m i)"
  by (induction m) auto

text \<open>The usage of a plan reports what its resources need in every pool.\<close>

definition reports :: "tiered_usage \<Rightarrow> resource_plan list \<Rightarrow> bool" where
  "reports u rs \<longleftrightarrow>
     (\<forall>i. find_memory_usage u i = (pool_pinned rs i + pool_transient rs i, pool_target rs i)) \<and>
     (\<forall>i. find_storage_usage u i = pool_stored rs i) \<and>
     tu_immutable_package_backing_bytes u = sum_list (map immutable_package_backing_bytes rs) \<and>
     tu_read_bytes u = (\<Sum>r \<leftarrow> rs. ac_read_bytes (rs_access r)) \<and> tu_write_bytes u = (\<Sum>r \<leftarrow> rs. ac_write_bytes (rs_access r))"

lemma usage_reports:
  assumes tr: "tracks b rs acc" and u: "usage acc = Inr u"
  shows "reports u rs"
proof -
  from u obtain us where us: "usage_pools (ra_memory acc) = Inr us" "tu_memory_pools u = us"
    and rest: "tu_storage_pools u = map (\<lambda>(pool, n). \<lparr>su_pool = pool, su_mutable_backing_bytes = n\<rparr>) (ra_storage acc)"
      "tu_immutable_package_backing_bytes u = ra_package_bytes acc" "tu_read_bytes u = ra_read_bytes acc"
      "tu_write_bytes u = ra_write_bytes acc"
    by (auto simp: usage_def split: sum.splits)
  have "find_memory_usage u i = (let a = bt_get (ra_memory acc) i memory_acc_default in
      (ma_pinned_bytes a + ma_transient_bytes a, ma_target_bytes a))" for i
    by (auto simp: find_memory_usage_def us(2) usage_pools_find [OF us(1)] bt_get_def memory_acc_default_def split: option.split)
  moreover have "find_storage_usage u i = bt_get (ra_storage acc) i 0" for i
    by (auto simp: find_storage_usage_def rest(1) storage_find bt_get_def split: option.split)
  ultimately show ?thesis using tr rest(2-4) by (simp add: reports_def tracks_def)
qed

section \<open>Search\<close>

definition chosen_resources :: "tiered_group list \<Rightarrow> nat list \<Rightarrow> resource_plan list" where
  "chosen_resources gs cs = map (\<lambda>(g, c). tc_resource (tg_options g ! c)) (zip gs cs)"

definition tiered_choices :: "tiered_group list \<Rightarrow> nat list \<Rightarrow> bool" where
  "tiered_choices = list_all2 (\<lambda>g c. c < length (tg_options g))"

definition state_ok :: "tiered_input \<Rightarrow> tiered_group list \<Rightarrow> tiered_state \<Rightarrow> bool" where
  "state_ok inp gs s \<longleftrightarrow> tiered_choices gs (ts_choices s) \<and>
     tracks (ti_resource_budget inp) (ti_base_resources inp @ chosen_resources gs (ts_choices s)) (ts_resources s)"

lemma collect_in: "collect f xs = Inr ys \<Longrightarrow> y \<in> set ys \<Longrightarrow> \<exists>x \<in> set xs. f x = Inr (Some y)"
  by (induction xs arbitrary: ys) (auto split: sum.splits option.splits)

lemma state_ok_extend:
  assumes ok: "state_ok inp gs s" and i: "i < length (tg_options g)"
    and ext: "tiered_extend inp s (i, tg_options g ! i) = Inr (Some s')"
  shows "state_ok inp (gs @ [g]) s'"
proof -
  from ext obtain acc where acc: "add_resource (ti_resource_budget inp) (tc_resource (tg_options g ! i)) (ts_resources s) = Inr (Some acc)"
    "ts_resources s' = acc" "ts_choices s' = ts_choices s @ [i]"
    unfolding tiered_extend_def prod.case try_then_Some
    by (elim exE conjE) (auto split: sum.split_asm option.split_asm)
  have len: "length gs = length (ts_choices s)" 
    using ok unfolding state_ok_def tiered_choices_def by (blast dest: list_all2_lengthD)
  then have "chosen_resources (gs @ [g]) (ts_choices s @ [i]) = chosen_resources gs (ts_choices s) @ [tc_resource (tg_options g ! i)]"
    by (simp add: chosen_resources_def)
  moreover have "tiered_choices (gs @ [g]) (ts_choices s @ [i])"
    using ok i len by (simp add: state_ok_def tiered_choices_def list_all2_append)
  ultimately show ?thesis
    using ok tracks_add_resource [OF _ acc(1), of "ti_base_resources inp @ chosen_resources gs (ts_choices s)"]
    by (simp add: state_ok_def acc(2,3))
qed

lemma tiered_prune_subset: "set (tiered_prune states) \<subseteq> set states"
proof -
  have "set (prune_loop tiered_displaces (sort_key tiered_sort_key states) []) \<subseteq> set states"
    using prune_subset [of tiered_displaces "sort_key tiered_sort_key states" "[]"] by simp
  then show ?thesis by (auto simp: tiered_prune_def Let_def dest!: in_set_takeD)
qed

lemma state_ok_search:
  "tiered_search inp gs states = Inr out \<Longrightarrow> \<forall>s \<in> set states. state_ok inp pre s \<Longrightarrow> \<forall>s \<in> set out. state_ok inp (pre @ gs) s"
proof (induction gs arbitrary: pre states)
  case (Cons g gs)
  from Cons.prems(1) obtain nxt where nxt: "tiered_next inp g states = Inr nxt" "tiered_search inp gs (tiered_prune nxt) = Inr out"
    by (auto simp: Let_def split: sum.splits if_splits)
  have "state_ok inp (pre @ [g]) s'" if "s' \<in> set nxt" for s'
  proof -
    from collect_in [OF nxt(1) [unfolded tiered_next_def] that] obtain s i opt where
      "s \<in> set states" "(i, opt) \<in> set (enumerate 0 (tg_options g))" "tiered_extend inp s (i, opt) = Inr (Some s')" by auto
    with Cons.prems(2) show ?thesis by (auto simp: set_enumerate_options intro: state_ok_extend)
  qed
  then have "\<forall>s \<in> set (tiered_prune nxt). state_ok inp (pre @ [g]) s" using tiered_prune_subset by blast
  from Cons.IH [OF nxt(2) this] show ?case by simp
qed simp

lemma tiered_dedup_subset: "set (tiered_dedup ps) \<subseteq> set ps"
  by (induction ps rule: tiered_dedup.induct) auto

lemma tiered_keep_subset: "set (tiered_keep raw) \<subseteq> set raw"
  by (auto simp: tiered_keep_def)

section \<open>Properties\<close>

text \<open>
  C30: A tiered plan never overcommits a pool.  Every returned plan chooses one option
  per group and an allowed context; with the base resources, what these need in each
  memory pool they use (the pinned bytes plus the largest transient working set, and
  the resident targets) is within its capacity, what they store is within the free
  bytes of writable storage pools, and the usage in the plan reports exactly these totals.
\<close>

theorem tiered_plans_fit:
  assumes plans: "tiered_pareto_plans inp = Inr plans" and p: "p \<in> set plans"
  shows "\<exists>cs c. tiered_choices (ti_groups inp) cs \<and> c \<in> set (ti_context_candidates inp) \<and>
    allows (ti_context_constraint inp) (tx_tokens c) \<and> tm_context_tokens (tp_metrics p) = tx_tokens c \<and>
    map td_chosen (tp_decisions p) = map (\<lambda>(g, i). tg_options g ! i) (zip (ti_groups inp) cs) \<and>
    fits (ti_resource_budget inp) (ti_base_resources inp @ chosen_resources (ti_groups inp) cs @ tx_resources c) \<and>
    reports (tm_usage (tp_metrics p)) (ti_base_resources inp @ chosen_resources (ti_groups inp) cs @ tx_resources c)"
proof -
  from plans obtain base states raw where
    base: "add_resources (ti_resource_budget inp) (ti_base_resources inp) resource_acc_default = Inr (Some base)"
    and search: "tiered_search inp (ti_groups inp) [tiered_initial inp base] = Inr states"
    and raw: "tiered_points inp states = Inr raw" "plans = tiered_dedup (tiered_frontier inp raw)"
    by (auto simp: tiered_pareto_plans_def split: sum.splits option.splits if_splits)
  from p raw(2) tiered_dedup_subset have "p \<in> set (tiered_frontier inp raw)" by blast
  then obtain m cs where m: "(m, cs) \<in> set raw" "p = tiered_build inp m cs"
    using tiered_keep_subset [of raw] by (auto simp: tiered_frontier_def)
  from collect_in [OF raw(1) [unfolded tiered_points_def] m(1)] obtain c s where
    c: "c \<in> set (ti_context_candidates inp)" "allows (ti_context_constraint inp) (tx_tokens c)" "s \<in> set states"
      "tiered_point inp c s = Inr (Some (m, cs))" by auto
  from c(4) obtain acc u where acc: "add_resources (ti_resource_budget inp) (tx_resources c) (ts_resources s) = Inr (Some acc)"
    "usage acc = Inr u" "tm_usage m = u" "tm_context_tokens m = tx_tokens c" "cs = ts_choices s"
    unfolding tiered_point_def try_then_Some by (elim exE conjE) (auto split: sum.split_asm option.split_asm)
  have "state_ok inp [] (tiered_initial inp base)"
    using tracks_add_resources [OF tracks_default base] by (simp add: state_ok_def tiered_choices_def chosen_resources_def tiered_initial_def)
  then have ok: "state_ok inp (ti_groups inp) s" using state_ok_search [OF search, of "[]"] c(3) by simp
  then have tr: "tracks (ti_resource_budget inp) (ti_base_resources inp @ chosen_resources (ti_groups inp) cs @ tx_resources c) acc"
    using tracks_add_resources [OF _ acc(1)] by (fastforce simp: state_ok_def acc(5))
  have "reports (tm_usage m) (ti_base_resources inp @ chosen_resources (ti_groups inp) cs @ tx_resources c)"
    "fits (ti_resource_budget inp) (ti_base_resources inp @ chosen_resources (ti_groups inp) cs @ tx_resources c)"
    using usage_reports [OF tr acc(2)] tr by (simp add: acc(3), simp add: tracks_def)
  moreover have "map td_chosen (tp_decisions p) = map (\<lambda>(g, i). tg_options g ! i) (zip (ti_groups inp) cs)" "tp_metrics p = m"
    by (auto simp: m(2) tiered_build_def Let_def tiered_build_decision_def)
  moreover have "tiered_choices (ti_groups inp) cs" using ok by (simp add: state_ok_def acc(5))
  ultimately show ?thesis using c(1,2) acc(4) by auto
qed

text \<open>Exhaustive search: every state is kept.\<close>

fun unpruned_search :: "tiered_input \<Rightarrow> tiered_group list \<Rightarrow> tiered_state list \<Rightarrow> string + tiered_state list" where
  "unpruned_search inp [] states = Inr states"
| "unpruned_search inp (g # gs) states =
     (case tiered_next inp g states of Inl e \<Rightarrow> Inl e | Inr nxt \<Rightarrow> unpruned_search inp gs nxt)"

definition tiered_feasible :: "tiered_input \<Rightarrow> tiered_metrics set" where
  "tiered_feasible inp =
     (case add_resources (ti_resource_budget inp) (ti_base_resources inp) resource_acc_default of
        Inr (Some base) \<Rightarrow>
          (case unpruned_search inp (ti_groups inp) [tiered_initial inp base] of
             Inr states \<Rightarrow> (case tiered_points inp states of Inr raw \<Rightarrow> fst ` set raw | Inl _ \<Rightarrow> {})
           | Inl _ \<Rightarrow> {})
      | _ \<Rightarrow> {})"

text \<open>
  One pool of 20 bytes.  The options of the first group pin 10, 0 and 5 bytes and have
  working sets of 10, 10 and 8 bytes; the second group needs 10 transient bytes.
\<close>

definition pool_option :: "string \<Rightarrow> nat \<Rightarrow> nat \<Rightarrow> nat \<Rightarrow> tiered_candidate" where
  "pool_option i pinned working latency =
     \<lparr>tc_id = i, tc_quant = \<lparr>qs_kind = ''exact'', qs_scale = None\<rparr>, tc_layout = 0, tc_legacy_placement = ResidentPlacement,
      tc_resource = (immutable_package 0 ''r'' working 10 0)\<lparr>rs_residency :=
        \<lparr>rp_memory_pool = ''r'', rp_minimum_working_set_bytes = working, rp_target_resident_bytes = 10,
         rp_pinned_bytes = pinned, rp_eviction_priority = 100\<rparr>\<rparr>,
      tc_package_bytes = 0, tc_latency_cost = latency, tc_quality_loss_ppm = 0, tc_dispatch_class = 0, tc_rationale = []\<rparr>"

definition lossy_input :: tiered_input where
  "lossy_input =
     \<lparr>ti_cost_model = ''m'',
      ti_groups = [\<lparr>tg_key = ''g'', tg_options = [pool_option ''a'' 10 10 0, pool_option ''b'' 0 10 1, pool_option ''c'' 5 8 2]\<rparr>,
        \<lparr>tg_key = ''h'', tg_options = [pool_option ''d'' 0 10 0]\<rparr>],
      ti_context_constraint = maximum_context 8,
      ti_context_candidates = [\<lparr>tx_tokens = 8, tx_resources = [], tx_latency_cost = 0\<rparr>],
      ti_resource_budget = \<lparr>rb_memory_pools = [\<lparr>mp_id = ''r'', mp_capacity_bytes = 20\<rparr>], rb_storage_pools = []\<rparr>,
      ti_base_resources = [], ti_base_package_bytes = 0, ti_base_latency_cost = 0, ti_base_quality_loss_ppm = 0,
      ti_switch_penalty = 0\<rparr>"

definition pool_metrics :: "nat \<Rightarrow> nat \<Rightarrow> tiered_metrics" where
  "pool_metrics minimum latency =
     \<lparr>tm_quality_loss_ppm = 0, tm_context_tokens = 8, tm_latency_cost = latency,
      tm_usage = \<lparr>tu_memory_pools = [\<lparr>mu_pool = ''r'', mu_minimum_working_set_bytes = minimum, mu_target_resident_bytes = 20\<rparr>],
        tu_storage_pools = [], tu_immutable_package_backing_bytes = 0, tu_read_bytes = 0, tu_write_bytes = 0\<rparr>,
      tm_package_bytes = 0\<rparr>"

definition pool_state :: "nat \<Rightarrow> nat \<Rightarrow> nat \<Rightarrow> nat \<Rightarrow> nat list \<Rightarrow> tiered_state" where
  "pool_state pinned transient target latency choices =
     \<lparr>ts_quality_loss_ppm = 0, ts_latency_cost = latency, ts_package_bytes = 0,
      ts_resources = \<lparr>ra_memory = [(''r'', \<lparr>ma_pinned_bytes = pinned, ma_transient_bytes = transient, ma_target_bytes = target\<rparr>)],
        ra_storage = [], ra_package_bytes = 0, ra_read_bytes = 0, ra_write_bytes = 0\<rparr>,
      ts_last_dispatch_class = 0, ts_choices = choices\<rparr>"

lemmas tiered_run = lossy_input_def pool_option_def immutable_package_def pool_state_def pool_metrics_def
  tiered_next_def tiered_extend_def tiered_latency_def tiered_switches_def checked_add_u64_def u64_max_def try_then_def
  add_resource_def validate_resource_def memory_capacity_def add_memory_def add_backing_def add_access_def
  bt_get_def memory_acc_default_def resource_acc_default_def tiered_initial_def Let_def

lemma lossy_first:
  "tiered_next lossy_input (ti_groups lossy_input ! 0) [tiered_initial lossy_input resource_acc_default] =
     Inr [pool_state 10 0 10 0 [0], pool_state 0 10 10 1 [1], pool_state 5 3 10 2 [2]]"
  by (simp add: tiered_run)

lemma lossy_prune:
  "tiered_prune [pool_state 10 0 10 0 [0], pool_state 0 10 10 1 [1], pool_state 5 3 10 2 [2]] =
     [pool_state 10 0 10 0 [0], pool_state 5 3 10 2 [2]]"
  by (simp add: tiered_prune_def tiered_sort_key_def usage_def acc_minimum_def usage_or_max_def usage_minimum_def usage_target_def
      usage_backing_def usage_traffic_def saturating_total_def saturating_add_u64_def tiered_displaces_def
      tiered_state_dominates_def acc_no_worse_def acc_strictly_better_def option_less_def max_frontier_states_def tiered_run)

lemma lossy_second:
  "tiered_next lossy_input (ti_groups lossy_input ! 1) [pool_state 10 0 10 0 [0], pool_state 5 3 10 2 [2]] =
     Inr [pool_state 10 10 20 0 [0, 0], pool_state 5 10 20 2 [2, 0]]"
  "tiered_next lossy_input (ti_groups lossy_input ! 1)
     [pool_state 10 0 10 0 [0], pool_state 0 10 10 1 [1], pool_state 5 3 10 2 [2]] =
     Inr [pool_state 10 10 20 0 [0, 0], pool_state 0 10 20 1 [1, 0], pool_state 5 10 20 2 [2, 0]]"
  by (simp_all add: tiered_run)

lemma lossy_prune_second:
  "tiered_prune [pool_state 10 10 20 0 [0, 0], pool_state 5 10 20 2 [2, 0]] =
     [pool_state 10 10 20 0 [0, 0], pool_state 5 10 20 2 [2, 0]]"
  by (simp add: tiered_prune_def tiered_sort_key_def usage_def acc_minimum_def usage_or_max_def usage_minimum_def usage_target_def
      usage_backing_def usage_traffic_def saturating_total_def saturating_add_u64_def tiered_displaces_def
      tiered_state_dominates_def acc_no_worse_def acc_strictly_better_def option_less_def max_frontier_states_def tiered_run)

lemma lossy_groups: "ti_groups lossy_input = [ti_groups lossy_input ! 0, ti_groups lossy_input ! 1]"
  by (simp add: lossy_input_def)

lemma lossy_points:
  "tiered_points lossy_input [pool_state 10 10 20 0 [0, 0], pool_state 5 10 20 2 [2, 0]] =
     Inr [(pool_metrics 20 0, [0, 0]), (pool_metrics 15 2, [2, 0])]"
  "tiered_points lossy_input [pool_state 10 10 20 0 [0, 0], pool_state 0 10 20 1 [1, 0], pool_state 5 10 20 2 [2, 0]] =
     Inr [(pool_metrics 20 0, [0, 0]), (pool_metrics 10 1, [1, 0]), (pool_metrics 15 2, [2, 0])]"
  by (simp_all add: tiered_points_def tiered_point_def allows_def maximum_context_def usage_def acc_minimum_def tiered_run)

lemma pool_dominate: "metrics_dominate (pool_metrics a l) (pool_metrics b k) \<longleftrightarrow> a \<le> b \<and> l \<le> k \<and> (a < b \<or> l < k)"
  by (auto simp: metrics_dominate_def pool_metrics_def usage_no_worse_def usage_strictly_better_def find_memory_usage_def)

lemma lossy_feasible: "tiered_feasible lossy_input = {pool_metrics 20 0, pool_metrics 10 1, pool_metrics 15 2}"
proof -
  have "add_resources (ti_resource_budget lossy_input) (ti_base_resources lossy_input) resource_acc_default =
      Inr (Some resource_acc_default)" by (simp add: lossy_input_def)
  moreover have "unpruned_search lossy_input (ti_groups lossy_input) [tiered_initial lossy_input resource_acc_default] =
      Inr [pool_state 10 10 20 0 [0, 0], pool_state 0 10 20 1 [1, 0], pool_state 5 10 20 2 [2, 0]]"
    by (subst lossy_groups) (simp only: unpruned_search.simps lossy_first lossy_second sum.case)
  ultimately show ?thesis by (simp add: tiered_feasible_def lossy_points del: One_nat_def)
qed

lemma lossy_plans:
  "tiered_pareto_plans lossy_input =
     Inr (tiered_dedup (tiered_frontier lossy_input [(pool_metrics 20 0, [0, 0]), (pool_metrics 15 2, [2, 0])]))"
proof -
  have "validate_tiered lossy_input = Inr ()"
    by (simp add: validate_tiered_def validate_budget_def blank_def allows_def maximum_context_def tiered_run)
  moreover have "add_resources (ti_resource_budget lossy_input) (ti_base_resources lossy_input) resource_acc_default =
      Inr (Some resource_acc_default)" by (simp add: lossy_input_def)
  moreover have "tiered_search lossy_input (ti_groups lossy_input) [tiered_initial lossy_input resource_acc_default] =
      Inr [pool_state 10 10 20 0 [0, 0], pool_state 5 10 20 2 [2, 0]]"
    by (subst lossy_groups) (simp only: tiered_search.simps lossy_first lossy_second sum.case lossy_prune lossy_prune_second
        Let_def list.distinct if_False)
  ultimately show ?thesis by (simp add: tiered_pareto_plans_def lossy_points)
qed

lemma lossy_frontier:
  "tiered_frontier lossy_input [(pool_metrics 20 0, [0, 0]), (pool_metrics 15 2, [2, 0])] =
     [tiered_build lossy_input (pool_metrics 20 0) [0, 0], tiered_build lossy_input (pool_metrics 15 2) [2, 0]]"
proof -
  have "tiered_keep [(pool_metrics 20 0, [0, 0]), (pool_metrics 15 2, [2, 0])] =
      [(pool_metrics 20 0, [0, 0]), (pool_metrics 15 2, [2, 0])]"
    by (simp add: tiered_keep_def pool_dominate numeral_2_eq_2)
  moreover have "tiered_plan_key (tiered_build lossy_input (pool_metrics 20 0) [0, 0]) \<le>
      tiered_plan_key (tiered_build lossy_input (pool_metrics 15 2) [2, 0])"
    by (simp add: tiered_plan_key_def tiered_build_def pool_metrics_def Let_def)
  ultimately show ?thesis by (simp add: tiered_frontier_def)
qed

lemma lossy_head: "\<exists>qs. tiered_pareto_plans lossy_input = Inr (tiered_build lossy_input (pool_metrics 20 0) [0, 0] # qs)"
  by (simp add: lossy_plans lossy_frontier)

theorem tiered_plans_fit_witness:
  "\<exists>plans p cs c. tiered_pareto_plans lossy_input = Inr plans \<and> p \<in> set plans \<and>
     tiered_choices (ti_groups lossy_input) cs \<and> c \<in> set (ti_context_candidates lossy_input) \<and>
     map td_chosen (tp_decisions p) = map (\<lambda>(g, i). tg_options g ! i) (zip (ti_groups lossy_input) cs) \<and>
     fits (ti_resource_budget lossy_input)
       (ti_base_resources lossy_input @ chosen_resources (ti_groups lossy_input) cs @ tx_resources c)"
proof -
  from lossy_head obtain qs where
    "tiered_pareto_plans lossy_input = Inr (tiered_build lossy_input (pool_metrics 20 0) [0, 0] # qs)" by blast
  from tiered_plans_fit [OF this list.set_intros(1)] this show ?thesis by (meson list.set_intros(1))
qed

lemma pool_metrics_eq: "pool_metrics a l = pool_metrics b k \<longleftrightarrow> a = b \<and> l = k"
  by (auto simp: pool_metrics_def)

text \<open>
  The frontier of the tiered search is not complete.  On a concrete input that
  passes validation and stays far below the state bound, one of the combinations of
  options that fit the budget is dominated by no other, yet no plan returned has its
  metrics: the pruning between groups compares the minimum of each pool (pinned bytes
  plus the largest transient), and a state with fewer transient but more pinned bytes
  displaces one that a later, larger transient makes the better one.
\<close>

lemma tiered_front_incomplete:
  "\<exists>plans m. tiered_pareto_plans lossy_input = Inr plans \<and> m \<in> tiered_feasible lossy_input \<and>
     (\<nexists>n. n \<in> tiered_feasible lossy_input \<and> metrics_dominate n m) \<and> m \<notin> tp_metrics ` set plans"
proof (intro exI conjI)
  show "tiered_pareto_plans lossy_input =
     Inr (tiered_dedup (tiered_frontier lossy_input [(pool_metrics 20 0, [0, 0]), (pool_metrics 15 2, [2, 0])]))"
    by (rule lossy_plans)
  show "pool_metrics 10 1 \<in> tiered_feasible lossy_input" by (simp add: lossy_feasible)
  show "\<nexists>n. n \<in> tiered_feasible lossy_input \<and> metrics_dominate n (pool_metrics 10 1)"
    by (auto simp: lossy_feasible pool_dominate)
  show "pool_metrics 10 1 \<notin> tp_metrics `
      set (tiered_dedup (tiered_frontier lossy_input [(pool_metrics 20 0, [0, 0]), (pool_metrics 15 2, [2, 0])]))"
    using tiered_dedup_subset [of "tiered_frontier lossy_input [(pool_metrics 20 0, [0, 0]), (pool_metrics 15 2, [2, 0])]"]
    by (auto simp: lossy_frontier tiered_build_def Let_def pool_metrics_eq)
qed

end
