(* ===== verification/Ir_Plan.thy ===== *)
theory Ir_Plan
  imports Ir_Optimizer Wire
begin

text \<open>
  Execution placement (\<^verbatim>\<open>logan-ir/src/execution.rs\<close>) and the plan artifact
  (\<^verbatim>\<open>logan-ir/src/plan.rs\<close>).  The byte codec is the third-party \<^verbatim>\<open>bincode\<close>: its
  \<^verbatim>\<open>serialize\<close> and \<^verbatim>\<open>deserialize\<close> are arguments of the operations that call them.  The
  checker of an overlay is proved equal to a declarative specification, and a plan that
  passes through the artifact is proved to satisfy it.
\<close>

section \<open>Execution overlays\<close>

datatype execution_backend = AutoBackend | CpuBackend | MetalBackend | AneBackend

datatype transfer_kind = AliasTransfer | SharedMemoryTransfer | HostCopyTransfer | StreamedTransfer

type_synonym island_id = nat

record execution_island =
  ei_id :: island_id
  ei_backend :: execution_backend
  ei_nodes :: "node_id list"
  ei_inputs :: "value_id list"
  ei_outputs :: "value_id list"
  ei_fixed_shape :: bool
  ei_cache_key :: "string option"
  ei_rationale :: "string option"

record execution_edge =
  ee_from :: island_id
  ee_to :: island_id
  ee_value :: value_id
  ee_transfer :: transfer_kind

record execution_plan =
  ep_islands :: "execution_island list"
  ep_edges :: "execution_edge list"

definition backend_for_node :: "execution_plan \<Rightarrow> node_id \<Rightarrow> execution_backend option" where
  "backend_for_node p node = map_option ei_backend (find (\<lambda>i. node \<in> set (ei_nodes i)) (ep_islands p))"

definition island :: "execution_plan \<Rightarrow> island_id \<Rightarrow> execution_island option" where
  "island p i = find (\<lambda>il. ei_id il = i) (ep_islands p)"

text \<open>The nodes of one island: in range, and owned by no island seen before.\<close>

fun claim_nodes :: "nat \<Rightarrow> island_id \<Rightarrow> node_id list \<Rightarrow> (node_id \<rightharpoonup> island_id) \<Rightarrow> string + (node_id \<rightharpoonup> island_id)" where
  "claim_nodes n i [] owner = Inr owner"
| "claim_nodes n i (node # nodes) owner =
     (if n \<le> node
      then Inl (''execution island '' @ show_nat i @ '' references node '' @ show_nat node @ '' outside graph'')
      else case owner node of
             Some previous \<Rightarrow>
               Inl (''graph node '' @ show_nat node @ '' appears in execution islands '' @ show_nat previous @ '' and '' @ show_nat i)
           | None \<Rightarrow> claim_nodes n i nodes (owner(node \<mapsto> i)))"

definition check_values :: "nat \<Rightarrow> execution_island \<Rightarrow> string + unit" where
  "check_values n il =
     (case find (\<lambda>(v, role). n \<le> v)
        (map (\<lambda>v. (v, ''input'')) (ei_inputs il) @ map (\<lambda>v. (v, ''output'')) (ei_outputs il)) of
        Some (v, role) \<Rightarrow>
          Inl (''execution island '' @ show_nat (ei_id il) @ '' '' @ role @ '' value '' @ show_nat v @ '' outside graph'')
      | None \<Rightarrow> Inr ())"

fun check_islands ::
  "graph \<Rightarrow> execution_island list \<Rightarrow> island_id set \<Rightarrow> (node_id \<rightharpoonup> island_id) \<Rightarrow> string + island_id set" where
  "check_islands g [] ids owner = Inr ids"
| "check_islands g (il # ils) ids owner =
     (if ei_id il \<in> ids then Inl (''duplicate execution island id '' @ show_nat (ei_id il))
      else if ei_backend il = AutoBackend
      then Inl (''execution island '' @ show_nat (ei_id il) @ '' has non-concrete Auto backend'')
      else if ei_nodes il = [] then Inl (''execution island '' @ show_nat (ei_id il) @ '' has no nodes'')
      else case claim_nodes (length (gr_nodes g)) (ei_id il) (ei_nodes il) owner of
             Inl e \<Rightarrow> Inl e
           | Inr owner' \<Rightarrow>
               (case check_values (length (gr_values g)) il of
                  Inl e \<Rightarrow> Inl e
                | Inr _ \<Rightarrow> check_islands g ils (insert (ei_id il) ids) owner'))"

fun check_edges :: "graph \<Rightarrow> island_id set \<Rightarrow> execution_edge list \<Rightarrow> string + unit" where
  "check_edges g ids [] = Inr ()"
| "check_edges g ids (e # es) =
     (if ee_from e = ee_to e
      then Inl (''execution edge for value '' @ show_nat (ee_value e) @ '' is a self-edge on island '' @ show_nat (ee_from e))
      else if ee_from e \<notin> ids \<or> ee_to e \<notin> ids
      then Inl (''execution edge '' @ show_nat (ee_from e) @ '' -> '' @ show_nat (ee_to e) @ '' references unknown island'')
      else if length (gr_values g) \<le> ee_value e
      then Inl (''execution edge references value '' @ show_nat (ee_value e) @ '' outside graph'')
      else check_edges g ids es)"

definition validate_execution :: "execution_plan \<Rightarrow> graph \<Rightarrow> string + unit" where
  "validate_execution p g =
     (case check_islands g (ep_islands p) {} Map.empty of
        Inl e \<Rightarrow> Inl e
      | Inr ids \<Rightarrow> check_edges g ids (ep_edges p))"

section \<open>The plan artifact\<close>

definition plan_artifact_version :: nat where
  "plan_artifact_version = 5"

definition legacy_plan_artifact_version :: nat where
  "legacy_plan_artifact_version = 4"

record memory_plan =
  me_placement :: "(string \<times> placement) list"
  me_quant :: "(string \<times> quant_spec) list"
  me_layout :: "(string \<times> nat) list"
  me_resources :: "(string \<times> resource_plan) list"
  me_ram_budget_bytes :: nat

definition resource_of :: "memory_plan \<Rightarrow> string \<Rightarrow> resource_plan option" where
  "resource_of m name = map_option snd (find (\<lambda>(candidate, plan). candidate = name) (me_resources m))"

fun validate_named :: "(string \<times> resource_plan) list \<Rightarrow> string + unit" where
  "validate_named [] = Inr ()"
| "validate_named ((name, r) # rs) =
     (case validate_resource r of
        Inl detail \<Rightarrow> Inl (''resource `'' @ name @ ''`: '' @ detail)
      | Inr _ \<Rightarrow> validate_named rs)"

definition validate_resources :: "memory_plan \<Rightarrow> string + unit" where
  "validate_resources m = validate_named (me_resources m)"

record plan_artifact =
  pa_version :: nat
  pa_package_fingerprint :: string
  pa_graph :: graph
  pa_memory :: memory_plan
  pa_execution :: "execution_plan option"
  pa_optimizer :: "pareto_plan option"

record legacy_plan_artifact_v4 =
  lp_version :: nat
  lp_package_fingerprint :: string
  lp_graph :: graph
  lp_memory :: memory_plan
  lp_optimizer :: "pareto_plan option"

definition new_plan :: "string \<Rightarrow> graph \<Rightarrow> memory_plan \<Rightarrow> plan_artifact" where
  "new_plan fingerprint g m =
     \<lparr>pa_version = plan_artifact_version, pa_package_fingerprint = fingerprint, pa_graph = g, pa_memory = m,
      pa_execution = None, pa_optimizer = None\<rparr>"

definition with_optimizer :: "plan_artifact \<Rightarrow> pareto_plan \<Rightarrow> plan_artifact" where
  "with_optimizer p opt = p\<lparr>pa_optimizer := Some opt\<rparr>"

definition with_execution :: "plan_artifact \<Rightarrow> execution_plan \<Rightarrow> string + plan_artifact" where
  "with_execution p e =
     (case validate_execution e (pa_graph p) of Inl err \<Rightarrow> Inl err | Inr _ \<Rightarrow> Inr (p\<lparr>pa_execution := Some e\<rparr>))"

text \<open>The two checks that writing and reading share.\<close>

definition check_plan :: "plan_artifact \<Rightarrow> string + unit" where
  "check_plan p =
     (case validate_resources (pa_memory p) of
        Inl e \<Rightarrow> Inl e
      | Inr _ \<Rightarrow> (case pa_execution p of None \<Rightarrow> Inr () | Some x \<Rightarrow> validate_execution x (pa_graph p)))"

definition plan_to_bytes :: "(plan_artifact \<Rightarrow> string + byte list) \<Rightarrow> plan_artifact \<Rightarrow> string + byte list" where
  "plan_to_bytes serialize p =
     (case check_plan p of
        Inl e \<Rightarrow> Inl e
      | Inr _ \<Rightarrow> (case serialize p of Inl e \<Rightarrow> Inl (''plan serialize: '' @ e) | Inr bytes \<Rightarrow> Inr bytes))"

definition upgrade_v4 :: "legacy_plan_artifact_v4 \<Rightarrow> plan_artifact" where
  "upgrade_v4 l =
     \<lparr>pa_version = plan_artifact_version, pa_package_fingerprint = lp_package_fingerprint l, pa_graph = lp_graph l,
      pa_memory = lp_memory l, pa_execution = None, pa_optimizer = lp_optimizer l\<rparr>"

definition decode_plan ::
  "(byte list \<Rightarrow> string + plan_artifact) \<Rightarrow> (byte list \<Rightarrow> string + legacy_plan_artifact_v4) \<Rightarrow> byte list \<Rightarrow> string + plan_artifact" where
  "decode_plan deserialize deserialize_v4 bytes =
     (let version = le_nat (take 4 bytes) in
      if version = plan_artifact_version
      then (case deserialize bytes of Inl e \<Rightarrow> Inl (''plan deserialize: '' @ e) | Inr p \<Rightarrow> Inr p)
      else if version = legacy_plan_artifact_version
      then (case deserialize_v4 bytes of Inl e \<Rightarrow> Inl (''legacy v4 plan deserialize: '' @ e) | Inr l \<Rightarrow> Inr (upgrade_v4 l))
      else Inl (''plan artifact version '' @ show_nat version @ '' != supported '' @ show_nat plan_artifact_version @
             '' (legacy '' @ show_nat legacy_plan_artifact_version @ '' is also accepted)''))"

definition plan_from_bytes ::
  "(byte list \<Rightarrow> string + plan_artifact) \<Rightarrow> (byte list \<Rightarrow> string + legacy_plan_artifact_v4) \<Rightarrow> byte list \<Rightarrow> string + plan_artifact" where
  "plan_from_bytes deserialize deserialize_v4 bytes =
     (if length bytes < 4 then Inl ''plan deserialize: truncated version field''
      else case decode_plan deserialize deserialize_v4 bytes of
             Inl e \<Rightarrow> Inl e
           | Inr p \<Rightarrow> (case check_plan p of Inl e \<Rightarrow> Inl e | Inr _ \<Rightarrow> Inr p))"

definition check_fingerprint :: "plan_artifact \<Rightarrow> string \<Rightarrow> string + unit" where
  "check_fingerprint p fingerprint =
     (if pa_package_fingerprint p \<noteq> fingerprint
      then Inl (''plan fingerprint '' @ pa_package_fingerprint p @ '' != package '' @ fingerprint @ '' (stale plan?)'')
      else Inr ())"

section \<open>The checker and its specification\<close>

text \<open>
  An overlay is well placed when island identifiers are unique, every island has a concrete
  backend and at least one node, no node is placed twice, every reference is in range and
  every edge joins two different islands of the plan.
\<close>

definition island_ok :: "graph \<Rightarrow> execution_island \<Rightarrow> bool" where
  "island_ok g i \<longleftrightarrow> ei_backend i \<noteq> AutoBackend \<and> ei_nodes i \<noteq> [] \<and>
     (\<forall>n \<in> set (ei_nodes i). n < length (gr_nodes g)) \<and>
     (\<forall>v \<in> set (ei_inputs i) \<union> set (ei_outputs i). v < length (gr_values g))"

definition well_placed :: "execution_plan \<Rightarrow> graph \<Rightarrow> bool" where
  "well_placed p g \<longleftrightarrow>
     distinct (map ei_id (ep_islands p)) \<and> distinct (concat (map ei_nodes (ep_islands p))) \<and>
     (\<forall>i \<in> set (ep_islands p). island_ok g i) \<and>
     (\<forall>e \<in> set (ep_edges p). ee_from e \<noteq> ee_to e \<and> ee_value e < length (gr_values g) \<and>
        {ee_from e, ee_to e} \<subseteq> ei_id ` set (ep_islands p))"

lemma find_SomeD: "find P xs = Some x \<Longrightarrow> x \<in> set xs \<and> P x"
  by (auto simp: find_Some_iff)

lemma claim_nodes_iff:
  "claim_nodes n i nodes owner = Inr owner' \<longleftrightarrow>
     distinct nodes \<and> set nodes \<inter> dom owner = {} \<and> (\<forall>v \<in> set nodes. v < n) \<and>
     owner' = owner ++ (\<lambda>v. if v \<in> set nodes then Some i else None)"
proof (induction nodes arbitrary: owner)
  case (Cons v vs)
  have step: "owner(v \<mapsto> i) ++ (\<lambda>w. if w \<in> set vs then Some i else None) =
      owner ++ (\<lambda>w. if w \<in> set (v # vs) then Some i else None)"
    by (auto simp: map_add_def fun_eq_iff split: option.splits)
  have "claim_nodes n i (v # vs) owner = Inr owner' \<longleftrightarrow>
      v < n \<and> v \<notin> dom owner \<and> claim_nodes n i vs (owner(v \<mapsto> i)) = Inr owner'"
    by (auto simp del: fun_upd_apply split: option.splits)
  then show ?case unfolding Cons.IH step by (auto simp del: fun_upd_apply)
qed (auto simp: map_add_def)

lemma dom_claimed: "dom (owner ++ (\<lambda>v. if v \<in> S then Some i else None)) = dom owner \<union> S"
  by (auto simp: map_add_def split: option.splits if_splits)

lemma check_values_iff:
  "check_values n il = Inr () \<longleftrightarrow> (\<forall>v \<in> set (ei_inputs il) \<union> set (ei_outputs il). v < n)"
proof (cases "find (\<lambda>(v, role). n \<le> v)
    (map (\<lambda>v. (v, ''input'')) (ei_inputs il) @ map (\<lambda>v. (v, ''output'')) (ei_outputs il))")
  case (Some r)
  from find_SomeD [OF Some] show ?thesis by (auto simp: check_values_def Some not_less split: prod.splits)
next
  case None
  then have "\<forall>v \<in> set (ei_inputs il) \<union> set (ei_outputs il). v < n" by (auto simp: find_None_iff not_le)
  then show ?thesis by (simp add: check_values_def None)
qed

lemma check_islands_Cons:
  "check_islands g (i # ils) ids owner = Inr ids' \<longleftrightarrow>
     ei_id i \<notin> ids \<and> island_ok g i \<and> distinct (ei_nodes i) \<and> set (ei_nodes i) \<inter> dom owner = {} \<and>
     check_islands g ils (insert (ei_id i) ids)
       (owner ++ (\<lambda>v. if v \<in> set (ei_nodes i) then Some (ei_id i) else None)) = Inr ids'"
proof (cases "claim_nodes (length (gr_nodes g)) (ei_id i) (ei_nodes i) owner")
  case (Inl e)
  then show ?thesis
    using claim_nodes_iff [of "length (gr_nodes g)" "ei_id i" "ei_nodes i" owner] by (auto simp: island_ok_def)
next
  case (Inr owner')
  note claim = Inr [unfolded claim_nodes_iff]
  show ?thesis
    using claim check_values_iff [of "length (gr_values g)" i]
    by (cases "check_values (length (gr_values g)) i") (auto simp: island_ok_def Inr)
qed

lemma check_islands_iff:
  "check_islands g ils ids owner = Inr ids' \<longleftrightarrow>
     distinct (map ei_id ils) \<and> ei_id ` set ils \<inter> ids = {} \<and>
     distinct (concat (map ei_nodes ils)) \<and> \<Union> (set ` ei_nodes ` set ils) \<inter> dom owner = {} \<and>
     (\<forall>i \<in> set ils. island_ok g i) \<and> ids' = ids \<union> ei_id ` set ils"
proof (induction ils arbitrary: ids owner)
  case (Cons i ils)
  show ?case unfolding check_islands_Cons Cons.IH dom_claimed by auto
qed auto

lemma check_edges_iff:
  "check_edges g ids es = Inr () \<longleftrightarrow>
     (\<forall>e \<in> set es. ee_from e \<noteq> ee_to e \<and> ee_value e < length (gr_values g) \<and> {ee_from e, ee_to e} \<subseteq> ids)"
  by (induction es) auto

lemma validate_execution_iff: "validate_execution p g = Inr () \<longleftrightarrow> well_placed p g"
proof -
  have "validate_execution p g = Inr () \<longleftrightarrow>
      (\<exists>ids. check_islands g (ep_islands p) {} Map.empty = Inr ids \<and> check_edges g ids (ep_edges p) = Inr ())"
    by (auto simp: validate_execution_def split: sum.splits)
  then show ?thesis unfolding check_islands_iff check_edges_iff well_placed_def by auto
qed

lemma disjoint_islands:
  assumes "distinct (concat (map f xs))" "x \<in> set xs" "y \<in> set xs" "n \<in> set (f x)" "n \<in> set (f y)"
  shows "x = y"
  using assms by (induction xs) auto

lemma backend_for_node_iff:
  assumes "well_placed p g"
  shows "backend_for_node p n = Some b \<longleftrightarrow> (\<exists>i \<in> set (ep_islands p). n \<in> set (ei_nodes i) \<and> ei_backend i = b)"
proof -
  have d: "distinct (concat (map ei_nodes (ep_islands p)))" using assms by (simp add: well_placed_def)
  show ?thesis
    unfolding backend_for_node_def
    by (cases "find (\<lambda>i. n \<in> set (ei_nodes i)) (ep_islands p)")
      (auto simp: find_None_iff dest!: find_SomeD dest: disjoint_islands [OF d, where n = n])
qed

lemma validate_named_iff: "validate_named rs = Inr () \<longleftrightarrow> (\<forall>(name, r) \<in> set rs. validate_resource r = Inr ())"
  by (induction rs rule: validate_named.induct) (auto split: sum.splits)

lemma check_plan_iff:
  "check_plan p = Inr () \<longleftrightarrow>
     (\<forall>(name, r) \<in> set (me_resources (pa_memory p)). validate_resource r = Inr ()) \<and>
     (\<forall>x. pa_execution p = Some x \<longrightarrow> well_placed x (pa_graph p))"
proof -
  have "check_plan p = Inr () \<longleftrightarrow> validate_named (me_resources (pa_memory p)) = Inr () \<and>
      (\<forall>x. pa_execution p = Some x \<longrightarrow> validate_execution x (pa_graph p) = Inr ())"
    by (auto simp: check_plan_def validate_resources_def split: sum.splits option.splits)
  then show ?thesis unfolding validate_named_iff validate_execution_iff .
qed

section \<open>What the artifact guarantees\<close>

lemma from_bytes_check: "plan_from_bytes deserialize deserialize_v4 bytes = Inr p \<Longrightarrow> check_plan p = Inr ()"
  by (auto simp: plan_from_bytes_def split: if_splits sum.splits)

lemma from_bytes_version:
  assumes "\<And>q. deserialize bytes = Inr q \<Longrightarrow> pa_version q = le_nat (take 4 bytes)"
    and "plan_from_bytes deserialize deserialize_v4 bytes = Inr p"
  shows "pa_version p = plan_artifact_version"
  using assms by (auto simp: plan_from_bytes_def decode_plan_def upgrade_v4_def Let_def split: if_splits sum.splits)

lemma with_execution_iff: "with_execution p x = Inr q \<longleftrightarrow> well_placed x (pa_graph p) \<and> q = p\<lparr>pa_execution := Some x\<rparr>"
  using validate_execution_iff [of x "pa_graph p"] by (auto simp: with_execution_def split: sum.splits)

lemma plan_roundtrip:
  assumes "plan_to_bytes serialize p = Inr bytes" and "pa_version p = plan_artifact_version"
    and "deserialize bytes = Inr p" and "take 4 bytes = le_bytes 4 (pa_version p)"
  shows "plan_from_bytes deserialize deserialize_v4 bytes = Inr p"
proof -
  have "length (take 4 bytes) = 4" using assms(4) by simp
  moreover have "le_nat (take 4 bytes) = plan_artifact_version"
    using assms(2,4) by (simp add: le_nat_le_bytes plan_artifact_version_def)
  moreover have "check_plan p = Inr ()" using assms(1) by (auto simp: plan_to_bytes_def split: sum.splits)
  ultimately show ?thesis using assms(3) by (simp add: plan_from_bytes_def decode_plan_def)
qed

text \<open>
  C31: Whatever bytes are read, a plan the reader accepts is well formed: it has the
  current version, every resource contract in it is valid, and its execution overlay, if
  there is one, has unique islands with concrete backends and nodes of the graph, places no
  node twice and joins different islands by its edges, so that the backend of a node is the
  backend of the one island that holds it.  Exactly these overlays can be attached to a
  plan, and writing such a plan fails only if the byte codec fails.  The hypothesis is the
  documented layout of \<^verbatim>\<open>bincode\<close>: the first field is the first four bytes.
\<close>

theorem plan_artifact_exact:
  assumes layout: "\<And>q. deserialize bytes = Inr q \<Longrightarrow> pa_version q = le_nat (take 4 bytes)"
    and read: "plan_from_bytes deserialize deserialize_v4 bytes = Inr p"
  shows "pa_version p = plan_artifact_version \<and>
    (\<forall>(name, r) \<in> set (me_resources (pa_memory p)). validate_resource r = Inr ()) \<and>
    (\<forall>x. pa_execution p = Some x \<longrightarrow> well_placed x (pa_graph p) \<and>
      (\<forall>n b. backend_for_node x n = Some b \<longleftrightarrow> (\<exists>i \<in> set (ep_islands x). n \<in> set (ei_nodes i) \<and> ei_backend i = b))) \<and>
    (\<forall>x q. with_execution p x = Inr q \<longleftrightarrow> well_placed x (pa_graph p) \<and> q = p\<lparr>pa_execution := Some x\<rparr>) \<and>
    (\<forall>out. plan_to_bytes serialize p = Inr out \<longleftrightarrow> serialize p = Inr out)"
proof (intro conjI)
  have c: "check_plan p = Inr ()" using read by (rule from_bytes_check)
  show "pa_version p = plan_artifact_version" using layout read by (rule from_bytes_version)
  show "\<forall>(name, r) \<in> set (me_resources (pa_memory p)). validate_resource r = Inr ()" using c by (simp add: check_plan_iff)
  show "\<forall>x. pa_execution p = Some x \<longrightarrow> well_placed x (pa_graph p) \<and>
      (\<forall>n b. backend_for_node x n = Some b \<longleftrightarrow> (\<exists>i \<in> set (ep_islands x). n \<in> set (ei_nodes i) \<and> ei_backend i = b))"
    using c backend_for_node_iff unfolding check_plan_iff by blast
  show "\<forall>x q. with_execution p x = Inr q \<longleftrightarrow> well_placed x (pa_graph p) \<and> q = p\<lparr>pa_execution := Some x\<rparr>"
    by (simp add: with_execution_iff)
  show "\<forall>out. plan_to_bytes serialize p = Inr out \<longleftrightarrow> serialize p = Inr out" by (auto simp: plan_to_bytes_def c split: sum.splits)
qed

definition ane_overlay :: execution_plan where
  "ane_overlay =
     \<lparr>ep_islands = [\<lparr>ei_id = 0, ei_backend = AneBackend, ei_nodes = [0], ei_inputs = [0], ei_outputs = [1],
        ei_fixed_shape = True, ei_cache_key = None, ei_rationale = None\<rparr>], ep_edges = []\<rparr>"

definition ane_plan :: plan_artifact where
  "ane_plan =
     (new_plan ''f'' chain_graph
        \<lparr>me_placement = [], me_quant = [], me_layout = [], me_resources = [(''w'', immutable_package 8 ''r'' 1 2 8)],
         me_ram_budget_bytes = 4\<rparr>)\<lparr>pa_execution := Some ane_overlay\<rparr>"

theorem plan_artifact_exact_witness:
  "plan_from_bytes (\<lambda>_. Inr ane_plan) (\<lambda>_. Inl '''') [5, 0, 0, 0] = Inr ane_plan \<and> well_placed ane_overlay chain_graph \<and>
     backend_for_node ane_overlay 0 = Some AneBackend"
proof -
  have layout: "pa_version q = le_nat (take 4 [5, 0, 0, 0])" if "Inr ane_plan = (Inr q :: string + plan_artifact)" for q
    using that by (auto simp: ane_plan_def new_plan_def plan_artifact_version_def)
  have read: "plan_from_bytes (\<lambda>_. Inr ane_plan) (\<lambda>_. Inl '''') [5, 0, 0, 0] = Inr ane_plan"
    by (simp add: plan_from_bytes_def decode_plan_def plan_artifact_version_def check_plan_def validate_resources_def ane_plan_def
        new_plan_def immutable_package_def validate_resource_def validate_execution_def ane_overlay_def check_values_def
        chain_graph_def)
  have "pa_execution ane_plan = Some ane_overlay" "pa_graph ane_plan = chain_graph"
    by (simp_all add: ane_plan_def new_plan_def)
  with plan_artifact_exact [where deserialize = "\<lambda>_. Inr ane_plan", OF layout read]
  have "well_placed ane_overlay chain_graph" by simp
  with read show ?thesis by (simp add: backend_for_node_def ane_overlay_def)
qed

end
