(* ===== verification/Buffers.thy ===== *)
theory Buffers
  imports Wire
begin

text \<open>
  Byte buffers that are written by \<^verbatim>\<open>copy_from_slice\<close> at an offset and read by slices: what
  a read returns after a write to the same range or to a disjoint one.
\<close>

definition put_bytes :: "nat \<Rightarrow> 'a list \<Rightarrow> 'a list \<Rightarrow> 'a list" where
  "put_bytes off new bs = take off bs @ new @ drop (off + length new) bs"

definition slice :: "nat \<Rightarrow> nat \<Rightarrow> 'a list \<Rightarrow> 'a list" where
  "slice off n bs = take n (drop off bs)"

text \<open>\<^verbatim>\<open>slice.get(a..b)\<close> with a checked end.\<close>

definition get_range :: "'e \<Rightarrow> 'e \<Rightarrow> 'a list \<Rightarrow> nat \<Rightarrow> nat \<Rightarrow> 'e + 'a list" where
  "get_range overflow outside bs off n =
     (case checked_add_usize off n of
        None \<Rightarrow> Inl overflow
      | Some e \<Rightarrow> if e \<le> length bs then Inr (slice off n bs) else Inl outside)"

text \<open>Two's complement of a 32-bit field.\<close>

definition signed32 :: "nat \<Rightarrow> int" where
  "signed32 v = (if v < 2 ^ 31 then int v else int v - 2 ^ 32)"

text \<open>Byte string literals.\<close>

definition ascii_bytes :: "string \<Rightarrow> byte list" where
  "ascii_bytes = map (word_of_nat \<circ> of_char)"

text \<open>A number of hexadecimal digits behind \<^verbatim>\<open>0x\<close>, as error texts show them.\<close>

definition show_hex :: "nat \<Rightarrow> nat \<Rightarrow> string" where
  "show_hex digits v = ''0x'' @
     map (\<lambda>i. (let d = v div 16 ^ (digits - 1 - i) mod 16 in char_of (if d < 10 then 48 + d else 87 + d))) [0..<digits]"

named_theorems buffer_simps \<open>reading a buffer after writes\<close>

lemma put_bytes_at: "length A = off \<Longrightarrow> length B = length new \<Longrightarrow> put_bytes off new (A @ B @ C) = A @ new @ C"
  by (simp add: put_bytes_def)

lemma length_put_bytes [buffer_simps]: "off + length new \<le> length bs \<Longrightarrow> length (put_bytes off new bs) = length bs"
  by (simp add: put_bytes_def)

lemma length_slice [buffer_simps]: "off + n \<le> length bs \<Longrightarrow> length (slice off n bs) = n"
  by (simp add: slice_def)

lemma slice_put_same [buffer_simps]:
  "off + length new \<le> length bs \<Longrightarrow> n = length new \<Longrightarrow> slice off n (put_bytes off new bs) = new"
  by (simp add: slice_def put_bytes_def)

lemma slice_put_other [buffer_simps]:
  assumes "w + length new \<le> length bs" "off + n \<le> w \<or> w + length new \<le> off"
  shows "slice off n (put_bytes w new bs) = slice off n bs"
  using assms by (intro nth_equalityI) (auto simp: slice_def put_bytes_def nth_append)

lemma put_put: "off + length a \<le> length bs \<Longrightarrow> length b = length a \<Longrightarrow> put_bytes off b (put_bytes off a bs) = put_bytes off b bs"
  by (simp add: put_bytes_def)

lemma slice_zeros [buffer_simps]: "off + n \<le> k \<Longrightarrow> slice off n (replicate k x) = replicate n x"
  by (simp add: slice_def)

lemma take_slice: "take n bs = slice 0 n bs"
  by (simp add: slice_def)

lemma slice_slice: "a + m \<le> n \<Longrightarrow> slice a m (slice off n bs) = slice (off + a) m bs"
  by (simp add: slice_def drop_take min_absorb1 add.commute)

lemma slice_add: "slice a (m + n) bs = slice a m bs @ slice (a + m) n bs"
  by (simp add: slice_def take_add add.commute)

text \<open>A range read field by field.\<close>

fun fields_at :: "nat \<Rightarrow> nat list \<Rightarrow> 'a list \<Rightarrow> 'a list" where
  "fields_at a [] bs = []"
| "fields_at a (w # ws) bs = slice a w bs @ fields_at (a + w) ws bs"

lemma slice_fields: "slice a (sum_list ws) bs = fields_at a ws bs"
  by (induction ws arbitrary: a) (simp_all add: slice_add slice_def [of _ 0])

lemma le_nat_zeros: "le_nat (replicate n 0) = 0"
  by (induction n) simp_all

lemma le_bytes_zero: "le_bytes n 0 = replicate n 0"
  by (induction n) simp_all

text \<open>A write changes only the ranges it names.\<close>

definition keeps :: "(nat \<times> nat) list \<Rightarrow> 'a list \<Rightarrow> 'a list \<Rightarrow> bool" where
  "keeps ranges out out' \<longleftrightarrow> length out' = length out \<and>
     (\<forall>off n. list_all (\<lambda>(w, k). off + n \<le> w \<or> w + k \<le> off) ranges \<longrightarrow> slice off n out' = slice off n out)"

lemma keeps_refl [simp]: "keeps rs out out"
  by (simp add: keeps_def)

lemma keeps_trans: "keeps rs out out' \<Longrightarrow> keeps ss out' out'' \<Longrightarrow> keeps (rs @ ss) out out''"
  by (simp add: keeps_def)

lemma keeps_put: "off + length new \<le> length out \<Longrightarrow> keeps [(off, length new)] out (put_bytes off new out)"
  by (simp add: keeps_def buffer_simps)

lemma keepsD:
  "keeps rs out out' \<Longrightarrow> list_all (\<lambda>(w, k). off + n \<le> w \<or> w + k \<le> off) rs \<Longrightarrow> slice off n out' = slice off n out"
  by (simp add: keeps_def)

lemma keeps_put_in:
  assumes "keeps [(w, k)] out mid" "w \<le> off" "off + length new \<le> w + k" "w + k \<le> length out"
  shows "keeps [(w, k)] out (put_bytes off new mid)"
  using assms by (auto simp: keeps_def buffer_simps)

lemma keeps_seq:
  assumes "keeps rs out mid" "keeps ss mid new"
    and "\<And>off n. list_all (\<lambda>(w, k). off + n \<le> w \<or> w + k \<le> off) ts \<Longrightarrow>
      list_all (\<lambda>(w, k). off + n \<le> w \<or> w + k \<le> off) rs \<and> list_all (\<lambda>(w, k). off + n \<le> w \<or> w + k \<le> off) ss"
  shows "keeps ts out new"
  using assms by (simp add: keeps_def)

text \<open>Many writes to disjoint ranges: each is found where it was made.\<close>

definition apart :: "nat \<times> 'a list \<Rightarrow> nat \<times> 'a list \<Rightarrow> bool" where
  "apart = (\<lambda>(off, new) (off', new'). off + length new \<le> off' \<or> off' + length new' \<le> off)"

definition puts :: "(nat \<times> 'a list) list \<Rightarrow> 'a list \<Rightarrow> 'a list" where
  "puts = fold (\<lambda>(off, new). put_bytes off new)"

lemma puts_keeps:
  "list_all (\<lambda>(off, new). off + length new \<le> length out) ws \<Longrightarrow>
     keeps (map (\<lambda>(off, new). (off, length new)) ws) out (puts ws out)"
proof (induction ws arbitrary: out)
  case (Cons w ws)
  obtain off new where w: "w = (off, new)" by (cases w)
  have "keeps [(off, length new)] out (put_bytes off new out)" using Cons.prems by (simp add: w keeps_put)
  moreover have "keeps (map (\<lambda>(off, new). (off, length new)) ws) (put_bytes off new out) (puts ws (put_bytes off new out))"
    using Cons by (simp add: w length_put_bytes)
  ultimately show ?case using keeps_trans by (fastforce simp: w puts_def)
qed (simp add: puts_def)

lemma puts_slice:
  assumes "list_all (\<lambda>(off, new). off + length new \<le> length out) ws"
    and "sorted_wrt apart ws" "(off, new) \<in> set ws"
  shows "slice off (length new) (puts ws out) = new"
  using assms
proof (induction ws arbitrary: out)
  case (Cons w ws)
  obtain o' n' where w: "w = (o', n')" by (cases w)
  have rest: "list_all (\<lambda>(off, new). off + length new \<le> length (put_bytes o' n' out)) ws"
    using Cons.prems(1) by (simp add: w length_put_bytes)
  have step: "puts (w # ws) out = puts ws (put_bytes o' n' out)" by (simp add: w puts_def)
  show ?case
  proof (cases "(off, new) = w")
    case True
    have "slice off (length new) (puts ws (put_bytes o' n' out)) = slice off (length new) (put_bytes o' n' out)"
      using Cons.prems(2) True
      by (intro keepsD [OF puts_keeps [OF rest]]) (fastforce simp: w list_all_iff apart_def)
    then show ?thesis using Cons.prems(1) True step by (simp add: w slice_put_same)
  next
    case False
    then show ?thesis unfolding step using Cons.prems(2,3) rest by (intro Cons.IH) auto
  qed
qed simp

end
