(* ===== verification/Artifact.thy ===== *)
theory Artifact
  imports Buffers
begin

text \<open>
  The framing of a \<^verbatim>\<open>.logan\<close> manifest (\<^verbatim>\<open>logan-artifact/src/lib.rs\<close>): a fixed header, a table of
  sections, a table of files, the payloads of the sections and a trailer.  The reader is
  total: every malformed input is an error value.  CRC-32C comes from a third-party crate
  and is a parameter.
\<close>

section \<open>Constants and data\<close>

definition manifest_magic :: "byte list" where
  "manifest_magic = ascii_bytes ''LOGANMODEL''"

definition trailer_magic :: "byte list" where
  "trailer_magic = ascii_bytes ''LOGANEND''"

definition format_major :: nat where
  "format_major = 1"

definition format_minor :: nat where
  "format_minor = 0"

definition header_bytes :: nat where
  "header_bytes = 64"

definition section_entry_bytes :: nat where
  "section_entry_bytes = 32"

definition file_entry_bytes :: nat where
  "file_entry_bytes = 24"

definition trailer_bytes :: nat where
  "trailer_bytes = 16"

definition manifest_kind :: nat where
  "manifest_kind = 0"

definition provenance_kind :: nat where
  "provenance_kind = 4"

datatype artifact_error = Truncated string | Invalid string | InvalidDetail string

record manifest_header =
  mh_format_major :: nat
  mh_format_minor :: nat
  mh_min_reader_major :: nat
  mh_min_reader_minor :: nat
  mh_flags :: nat
  mh_generation :: nat
  mh_section_count :: nat
  mh_file_count :: nat
  mh_section_table_offset :: nat
  mh_file_table_offset :: nat

record section_entry =
  se_kind :: nat
  se_entry_flags :: nat
  se_offset :: nat
  se_length :: nat
  se_crc32c :: nat

record file_entry =
  fe_file_id :: nat
  fe_name_id :: nat
  fe_file_bytes :: nat
  fe_file_kind :: nat

record manifest =
  mf_header :: manifest_header
  mf_sections :: "section_entry list"
  mf_files :: "file_entry list"
  mf_bytes :: "byte list"

type_synonym 'a art = "artifact_error + 'a"

section \<open>Reading\<close>

definition take_at :: "nat \<Rightarrow> byte list \<Rightarrow> nat \<Rightarrow> string \<Rightarrow> byte list art" where
  "take_at n bytes at what =
     (case checked_add_usize at n of
        None \<Rightarrow> Inl (Invalid ''offset overflow'')
      | Some e \<Rightarrow> if e \<le> length bytes then Inr (slice at n bytes) else Inl (Truncated what))"

definition u16_at :: "byte list \<Rightarrow> nat \<Rightarrow> string \<Rightarrow> nat art" where
  "u16_at bytes at what = try_bind (take_at 2 bytes at what) (\<lambda>bs. Inr (le_nat bs))"

definition u32_at :: "byte list \<Rightarrow> nat \<Rightarrow> string \<Rightarrow> nat art" where
  "u32_at bytes at what = try_bind (take_at 4 bytes at what) (\<lambda>bs. Inr (le_nat bs))"

definition u64_at :: "byte list \<Rightarrow> nat \<Rightarrow> string \<Rightarrow> nat art" where
  "u64_at bytes at what = try_bind (take_at 8 bytes at what) (\<lambda>bs. Inr (le_nat bs))"

text \<open>A table is a range of the file; the conversions to \<^verbatim>\<open>usize\<close> cannot fail where it has 64 bits.\<close>

definition checked_table :: "nat \<Rightarrow> nat \<Rightarrow> nat \<Rightarrow> nat \<Rightarrow> string \<Rightarrow> (nat \<times> nat) art" where
  "checked_table bytes_len offset entries entry_bytes what =
     (case checked_mul_usize entries entry_bytes of
        None \<Rightarrow> Inl (Invalid ''table size overflow'')
      | Some len \<Rightarrow>
          (case checked_add_usize offset len of
             None \<Rightarrow> Inl (Invalid ''table end overflow'')
           | Some e \<Rightarrow> if bytes_len < e then Inl (Truncated what) else Inr (offset, e)))"

definition ranges_overlap :: "nat \<times> nat \<Rightarrow> nat \<times> nat \<Rightarrow> bool" where
  "ranges_overlap a b \<longleftrightarrow> fst a < snd b \<and> fst b < snd a"

definition read_header :: "(byte list \<Rightarrow> nat) \<Rightarrow> byte list \<Rightarrow> manifest_header art" where
  "read_header crc bytes =
     try_bind (u16_at bytes 10 ''format major'') (\<lambda>major.
     try_bind (u16_at bytes 12 ''format minor'') (\<lambda>minor.
     try_bind (u32_at bytes 14 ''header size'') (\<lambda>size.
     try_bind (u16_at bytes 18 ''minimum reader major'') (\<lambda>min_major.
     try_bind (u16_at bytes 20 ''minimum reader minor'') (\<lambda>min_minor.
     try_bind (u32_at bytes 22 ''flags'') (\<lambda>flags.
     try_bind (u64_at bytes 26 ''generation'') (\<lambda>generation.
     try_bind (u32_at bytes 34 ''section count'') (\<lambda>sections.
     try_bind (u32_at bytes 38 ''file count'') (\<lambda>files.
     try_bind (u64_at bytes 42 ''section table offset'') (\<lambda>section_table.
     try_bind (u64_at bytes 50 ''file table offset'') (\<lambda>file_table.
     try_bind (u32_at bytes 58 ''header crc'') (\<lambda>expected_crc.
     try_bind (u16_at bytes 62 ''header reserved'') (\<lambda>reserved.
       if major \<noteq> format_major then Inl (InvalidDetail (''unsupported .logan major version '' @ show_nat major))
       else if size \<noteq> header_bytes then Inl (Invalid ''manifest header size'')
       else if format_major < min_major \<or> min_major = format_major \<and> format_minor < min_minor
       then Inl (InvalidDetail (''.logan requires reader '' @ show_nat min_major @ ''.'' @ show_nat min_minor))
       else if generation = 0 then Inl (Invalid ''zero generation'')
       else if reserved \<noteq> 0 then Inl (Invalid ''manifest header reserved field'')
       else if crc (slice 0 58 bytes) \<noteq> expected_crc
       then Inl (InvalidDetail (''manifest header CRC32C mismatch: stored '' @ show_hex 8 expected_crc @ '', computed '' @
              show_hex 8 (crc (slice 0 58 bytes))))
       else Inr \<lparr>mh_format_major = major, mh_format_minor = minor, mh_min_reader_major = min_major,
              mh_min_reader_minor = min_minor, mh_flags = flags, mh_generation = generation, mh_section_count = sections,
              mh_file_count = files, mh_section_table_offset = section_table, mh_file_table_offset = file_table\<rparr>)))))))))))))"

definition check_trailer :: "byte list \<Rightarrow> unit art" where
  "check_trailer bytes =
     (let trailer_at = length bytes - trailer_bytes in
      if slice trailer_at 8 bytes \<noteq> trailer_magic then Inl (Invalid ''manifest trailer magic'')
      else try_bind (u32_at bytes (trailer_at + 12) ''trailer reserved'') (\<lambda>reserved.
        if reserved \<noteq> 0 then Inl (Invalid ''manifest trailer reserved field'') else Inr ()))"

definition check_section ::
  "(byte list \<Rightarrow> nat) \<Rightarrow> byte list \<Rightarrow> nat \<times> nat \<Rightarrow> nat \<times> nat \<Rightarrow> nat \<Rightarrow> nat \<Rightarrow> nat \<Rightarrow> nat \<Rightarrow> nat \<Rightarrow> section_entry art" where
  "check_section crc bytes section_range file_range kind flags offset len expected =
     (case checked_add_usize offset len of
       None \<Rightarrow> Inl (Invalid ''section range overflow'')
     | Some e \<Rightarrow>
         if length bytes - trailer_bytes < e then Inl (Truncated ''section payload'')
         else if ranges_overlap (offset, e) section_range \<or> ranges_overlap (offset, e) file_range \<or> offset < header_bytes
         then Inl (Invalid ''section overlaps metadata'')
         else if crc (slice offset len bytes) \<noteq> expected
         then Inl (InvalidDetail (''section '' @ show_hex 4 kind @ '' CRC32C mismatch: stored '' @ show_hex 8 expected @
                '', computed '' @ show_hex 8 (crc (slice offset len bytes))))
         else Inr \<lparr>se_kind = kind, se_entry_flags = flags, se_offset = offset, se_length = len, se_crc32c = expected\<rparr>)"

definition read_section ::
  "(byte list \<Rightarrow> nat) \<Rightarrow> byte list \<Rightarrow> nat \<times> nat \<Rightarrow> nat \<times> nat \<Rightarrow> nat option \<Rightarrow> nat \<Rightarrow> section_entry art" where
  "read_section crc bytes section_range file_range last_kind at =
     try_bind (u16_at bytes at ''section kind'') (\<lambda>kind.
     try_bind (u16_at bytes (at + 2) ''section flags'') (\<lambda>flags.
     try_bind (u32_at bytes (at + 4) ''section reserved'') (\<lambda>reserved.
     try_bind (if reserved \<noteq> 0 then Inr reserved else u32_at bytes (at + 28) ''section reserved2'') (\<lambda>reserved2.
     if reserved2 \<noteq> 0 then Inl (Invalid ''section reserved field'')
     else if (case last_kind of None \<Rightarrow> False | Some previous \<Rightarrow> kind \<le> previous)
     then Inl (Invalid ''section table must be strictly ordered by kind'')
     else
     try_bind (u64_at bytes (at + 8) ''section offset'') (\<lambda>offset.
     try_bind (u64_at bytes (at + 16) ''section length'') (\<lambda>len.
     try_bind (u32_at bytes (at + 24) ''section crc'') (\<lambda>expected.
       check_section crc bytes section_range file_range kind flags offset len expected)))))))"

fun read_sections ::
  "(byte list \<Rightarrow> nat) \<Rightarrow> byte list \<Rightarrow> nat \<times> nat \<Rightarrow> nat \<times> nat \<Rightarrow> nat option \<Rightarrow> nat list \<Rightarrow> section_entry list art" where
  "read_sections crc bytes section_range file_range last_kind [] = Inr []"
| "read_sections crc bytes section_range file_range last_kind (i # is) =
     try_bind (read_section crc bytes section_range file_range last_kind (fst section_range + i * section_entry_bytes)) (\<lambda>e.
     try_bind (read_sections crc bytes section_range file_range (Some (se_kind e)) is) (\<lambda>es. Inr (e # es)))"

definition read_file :: "byte list \<Rightarrow> nat \<Rightarrow> nat \<Rightarrow> file_entry art" where
  "read_file bytes at i =
     try_bind (u32_at bytes at ''file id'') (\<lambda>file_id.
       if file_id \<noteq> i mod 2 ^ 32 then Inl (Invalid ''file table must be ordered densely by file_id'')
       else
     try_bind (u32_at bytes (at + 4) ''file name id'') (\<lambda>name_id.
     try_bind (u64_at bytes (at + 8) ''file bytes'') (\<lambda>file_bytes.
     try_bind (u32_at bytes (at + 16) ''file kind'') (\<lambda>kind.
     try_bind (u32_at bytes (at + 20) ''file reserved'') (\<lambda>reserved.
       if reserved \<noteq> 0 then Inl (Invalid ''file reserved field'')
       else if provenance_kind < kind then Inl (Invalid ''unknown file kind'')
       else Inr \<lparr>fe_file_id = file_id, fe_name_id = name_id, fe_file_bytes = file_bytes, fe_file_kind = kind\<rparr>)))))"

fun read_files :: "byte list \<Rightarrow> nat \<Rightarrow> nat list \<Rightarrow> file_entry list art" where
  "read_files bytes start [] = Inr []"
| "read_files bytes start (i # is) =
     try_bind (read_file bytes (start + i * file_entry_bytes) i) (\<lambda>e.
     try_bind (read_files bytes start is) (\<lambda>es. Inr (e # es)))"

definition check_self :: "byte list \<Rightarrow> file_entry list \<Rightarrow> unit art" where
  "check_self bytes files =
     (case find (\<lambda>e. fe_file_kind e = manifest_kind) files of
        None \<Rightarrow> Inr ()
      | Some e \<Rightarrow>
          if fe_file_bytes e \<noteq> length bytes then Inl (Invalid ''manifest file table size does not match actual file'')
          else Inr ())"

definition parse :: "(byte list \<Rightarrow> nat) \<Rightarrow> byte list \<Rightarrow> manifest art" where
  "parse crc bytes =
     (if length bytes < header_bytes + trailer_bytes then Inl (Truncated ''manifest'')
      else if slice 0 (length manifest_magic) bytes \<noteq> manifest_magic then Inl (Invalid ''manifest magic'')
      else
        try_bind (read_header crc bytes) (\<lambda>h.
        try_bind (checked_table (length bytes) (mh_section_table_offset h) (mh_section_count h) section_entry_bytes
            ''section table'') (\<lambda>section_range.
        try_bind (checked_table (length bytes) (mh_file_table_offset h) (mh_file_count h) file_entry_bytes
            ''file table'') (\<lambda>file_range.
          if fst section_range < header_bytes \<or> fst file_range < header_bytes
          then Inl (Invalid ''table overlaps fixed header'')
          else
        try_bind (check_trailer bytes) (\<lambda>_.
        try_bind (read_sections crc bytes section_range file_range None [0..<mh_section_count h]) (\<lambda>sections.
        try_bind (read_files bytes (fst file_range) [0..<mh_file_count h]) (\<lambda>files.
        try_bind (check_self bytes files) (\<lambda>_.
          Inr \<lparr>mf_header = h, mf_sections = sections, mf_files = files, mf_bytes = bytes\<rparr>))))))))"

definition section_bytes :: "manifest \<Rightarrow> nat \<Rightarrow> byte list option" where
  "section_bytes m kind =
     (case find (\<lambda>e. se_kind e = kind) (mf_sections m) of
        None \<Rightarrow> None
      | Some e \<Rightarrow>
          (case checked_add_usize (se_offset e) (se_length e) of
             None \<Rightarrow> None
           | Some finish \<Rightarrow>
               if finish \<le> length (mf_bytes m) then Some (slice (se_offset e) (se_length e) (mf_bytes m)) else None))"

section \<open>Writing\<close>

type_synonym raw_section = "nat \<times> nat \<times> byte list"

record manifest_builder =
  mb_flags :: nat
  mb_generation :: nat
  mb_min_reader :: "nat \<times> nat"
  mb_sections :: "raw_section list"
  mb_files :: "file_entry list"

definition new_builder :: "nat \<Rightarrow> manifest_builder art" where
  "new_builder generation =
     (if generation = 0 then Inl (Invalid ''zero generation'')
      else Inr \<lparr>mb_flags = 0, mb_generation = generation, mb_min_reader = (format_major, format_minor),
             mb_sections = [], mb_files = []\<rparr>)"

definition with_flags :: "manifest_builder \<Rightarrow> nat \<Rightarrow> manifest_builder" where
  "with_flags b flags = b\<lparr>mb_flags := flags\<rparr>"

definition with_min_reader :: "manifest_builder \<Rightarrow> nat \<Rightarrow> nat \<Rightarrow> manifest_builder" where
  "with_min_reader b major minor = b\<lparr>mb_min_reader := (major, minor)\<rparr>"

definition add_section :: "manifest_builder \<Rightarrow> nat \<Rightarrow> nat \<Rightarrow> byte list \<Rightarrow> manifest_builder art" where
  "add_section b kind entry_flags payload =
     (if list_ex (\<lambda>(existing, _, _). existing = kind) (mb_sections b) then Inl (Invalid ''duplicate section kind'')
      else Inr (b\<lparr>mb_sections := mb_sections b @ [(kind, entry_flags, payload)]\<rparr>))"

definition add_file :: "manifest_builder \<Rightarrow> nat \<Rightarrow> nat \<Rightarrow> nat \<Rightarrow> (nat \<times> manifest_builder) art" where
  "add_file b name_id file_bytes kind =
     (if kind = manifest_kind \<or> provenance_kind < kind then Inl (Invalid ''invalid external file kind'')
      else if u32_max < length (mb_files b) + 1 then Inl (Invalid ''too many files'')
      else let i = length (mb_files b) + 1 in
        Inr (i, b\<lparr>mb_files := mb_files b @
          [\<lparr>fe_file_id = i, fe_name_id = name_id, fe_file_bytes = file_bytes, fe_file_kind = kind\<rparr>]\<rparr>))"

definition put_u16 :: "byte list \<Rightarrow> nat \<Rightarrow> nat \<Rightarrow> byte list" where
  "put_u16 out at v = put_bytes at (le_bytes 2 v) out"

definition put_u32 :: "byte list \<Rightarrow> nat \<Rightarrow> nat \<Rightarrow> byte list" where
  "put_u32 out at v = put_bytes at (le_bytes 4 v) out"

definition put_u64 :: "byte list \<Rightarrow> nat \<Rightarrow> nat \<Rightarrow> byte list" where
  "put_u64 out at v = put_bytes at (le_bytes 8 v) out"

definition put_file_entry :: "byte list \<Rightarrow> nat \<Rightarrow> file_entry \<Rightarrow> byte list" where
  "put_file_entry out at e =
     (let o1 = put_u32 out at (fe_file_id e);
          o2 = put_u32 o1 (at + 4) (fe_name_id e);
          o3 = put_u64 o2 (at + 8) (fe_file_bytes e);
          o4 = put_u32 o3 (at + 16) (fe_file_kind e)
      in put_u32 o4 (at + 20) 0)"

definition put_header :: "manifest_builder \<Rightarrow> nat \<Rightarrow> nat \<Rightarrow> nat \<Rightarrow> byte list \<Rightarrow> byte list" where
  "put_header b section_count file_count file_table out =
     (let o0 = put_bytes 0 manifest_magic out;
          o1 = put_u16 o0 10 format_major;
          o2 = put_u16 o1 12 format_minor;
          o3 = put_u32 o2 14 header_bytes;
          o4 = put_u16 o3 18 (fst (mb_min_reader b));
          o5 = put_u16 o4 20 (snd (mb_min_reader b));
          o6 = put_u32 o5 22 (mb_flags b);
          o7 = put_u64 o6 26 (mb_generation b);
          o8 = put_u32 o7 34 section_count;
          o9 = put_u32 o8 38 file_count;
          o10 = put_u64 o9 42 header_bytes;
          o11 = put_u64 o10 50 file_table
      in put_u16 o11 62 0)"

definition put_section :: "(byte list \<Rightarrow> nat) \<Rightarrow> nat \<Rightarrow> nat \<Rightarrow> raw_section \<Rightarrow> byte list \<Rightarrow> byte list" where
  "put_section crc at payload_at = (\<lambda>(kind, entry_flags, payload) out.
     (let o1 = put_u16 out at kind;
          o2 = put_u16 o1 (at + 2) entry_flags;
          o3 = put_u64 o2 (at + 8) payload_at;
          o4 = put_u64 o3 (at + 16) (length payload);
          o5 = put_u32 o4 (at + 24) (crc payload)
      in put_bytes payload_at payload o5))"

fun put_sections :: "(byte list \<Rightarrow> nat) \<Rightarrow> raw_section list \<Rightarrow> nat \<Rightarrow> nat \<Rightarrow> byte list \<Rightarrow> byte list" where
  "put_sections crc [] at payload_at out = out"
| "put_sections crc (s # ss) at payload_at out =
     put_sections crc ss (at + section_entry_bytes) (payload_at + length (snd (snd s))) (put_section crc at payload_at s out)"

fun put_files :: "file_entry list \<Rightarrow> nat \<Rightarrow> byte list \<Rightarrow> byte list" where
  "put_files [] at out = out"
| "put_files (e # es) at out = put_files es (at + file_entry_bytes) (put_file_entry out at e)"

fun sum_payloads :: "raw_section list \<Rightarrow> nat \<Rightarrow> nat option" where
  "sum_payloads [] acc = Some acc"
| "sum_payloads (s # ss) acc =
     (case checked_add_usize acc (length (snd (snd s))) of None \<Rightarrow> None | Some acc' \<Rightarrow> sum_payloads ss acc')"

text \<open>\<^verbatim>\<open>ok_or\<close>: a missing value is an error.\<close>

definition ok_or :: "'a option \<Rightarrow> 'e \<Rightarrow> 'e + 'a" where
  "ok_or v e = (case v of None \<Rightarrow> Inl e | Some x \<Rightarrow> Inr x)"

text \<open>The buffer, filled in the order of the code: header, sections, files, checksum, trailer.\<close>

definition fill_manifest :: "(byte list \<Rightarrow> nat) \<Rightarrow> manifest_builder \<Rightarrow> raw_section list \<Rightarrow> nat \<Rightarrow> nat \<Rightarrow> nat \<Rightarrow> byte list" where
  "fill_manifest crc b secs file_table payload_at whole =
     (let o1 = put_header b (length secs) (length (mb_files b) + 1) file_table (replicate whole 0);
          o2 = put_sections crc secs header_bytes payload_at o1;
          o3 = put_file_entry o2 file_table
            \<lparr>fe_file_id = 0, fe_name_id = 0, fe_file_bytes = whole, fe_file_kind = manifest_kind\<rparr>;
          o4 = put_files (mb_files b) (file_table + file_entry_bytes) o3;
          o5 = put_u32 o4 58 (crc (slice 0 58 o4));
          trailer_at = whole - trailer_bytes;
          o6 = put_bytes trailer_at trailer_magic o5;
          o7 = put_u32 o6 (trailer_at + 8) 0
      in put_u32 o7 (trailer_at + 12) 0)"

text \<open>The kinds of a builder are distinct, so the unstable sort has one result.\<close>

definition encode :: "(byte list \<Rightarrow> nat) \<Rightarrow> manifest_builder \<Rightarrow> byte list art" where
  "encode crc b =
     (let secs = sort_key fst (mb_sections b) in
      if u32_max < length secs then Inl (Invalid ''too many sections'')
      else if u32_max < length (mb_files b) + 1 then Inl (Invalid ''too many files'')
      else
        try_bind (ok_or (checked_mul_usize (length secs) section_entry_bytes) (Invalid ''section table size overflow'')) (\<lambda>sbytes.
        try_bind (ok_or (checked_add_usize header_bytes sbytes) (Invalid ''file table offset overflow'')) (\<lambda>file_table.
        try_bind (ok_or (checked_mul_usize (length (mb_files b) + 1) file_entry_bytes) (Invalid ''file table size overflow'')) (\<lambda>fbytes.
        try_bind (ok_or (checked_add_usize file_table fbytes) (Invalid ''payload offset overflow'')) (\<lambda>payload_at.
        try_bind (ok_or (sum_payloads secs 0) (Invalid ''manifest payload size overflow'')) (\<lambda>payload_bytes.
        try_bind (ok_or (Option.bind (checked_add_usize payload_at payload_bytes) (\<lambda>n. checked_add_usize n trailer_bytes))
            (Invalid ''manifest size overflow'')) (\<lambda>whole.
          let out = fill_manifest crc b secs file_table payload_at whole in
          try_bind (parse crc out) (\<lambda>_. Inr out))))))))"

end
