(* ===== verification/Artifact_Props.thy ===== *)
theory Artifact_Props
  imports Artifact
begin

text \<open>
  Properties of the manifest framing: what a successful parse guarantees of the ranges it
  returns, and that the encoder and the reader agree on every builder.
\<close>

section \<open>Fields of a buffer\<close>

declare add_2_eq_Suc [simp del] add_2_eq_Suc' [simp del]

lemma take_at_in: "at + n \<le> length bytes \<Longrightarrow> length bytes \<le> usize_max \<Longrightarrow> take_at n bytes at what = Inr (slice at n bytes)"
  by (simp add: take_at_def checked_add_usize_def)

lemma read_at_in:
  assumes "length bytes \<le> usize_max"
  shows "at + 2 \<le> length bytes \<Longrightarrow> u16_at bytes at what = Inr (le_nat (slice at 2 bytes))"
    and "at + 4 \<le> length bytes \<Longrightarrow> u32_at bytes at what = Inr (le_nat (slice at 4 bytes))"
    and "at + 8 \<le> length bytes \<Longrightarrow> u64_at bytes at what = Inr (le_nat (slice at 8 bytes))"
  using assms by (simp_all add: u16_at_def u32_at_def u64_at_def take_at_in)

lemma read_at_D:
  "u16_at bytes at what = Inr v \<Longrightarrow> v = le_nat (slice at 2 bytes)"
  "u32_at bytes at what = Inr v \<Longrightarrow> v = le_nat (slice at 4 bytes)"
  "u64_at bytes at what = Inr v \<Longrightarrow> v = le_nat (slice at 8 bytes)"
  by (auto simp: u16_at_def u32_at_def u64_at_def take_at_def split: option.splits if_splits)

lemmas put_defs = put_u16_def put_u32_def put_u64_def

lemmas frame_consts = header_bytes_def section_entry_bytes_def file_entry_bytes_def trailer_bytes_def manifest_kind_def
  provenance_kind_def format_major_def format_minor_def

lemma length_magic [simp]: "length manifest_magic = 10" "length trailer_magic = 8"
  by (simp_all add: manifest_magic_def trailer_magic_def ascii_bytes_def)

section \<open>What the writer leaves in the buffer\<close>

definition section_entry_image :: "(byte list \<Rightarrow> nat) \<Rightarrow> nat \<Rightarrow> raw_section \<Rightarrow> byte list" where
  "section_entry_image crc payload_at = (\<lambda>(kind, flags, payload).
     le_bytes 2 kind @ le_bytes 2 flags @ replicate 4 0 @ le_bytes 8 payload_at @ le_bytes 8 (length payload) @
     le_bytes 4 (crc payload) @ replicate 4 0)"

definition file_entry_image :: "file_entry \<Rightarrow> byte list" where
  "file_entry_image e = le_bytes 4 (fe_file_id e) @ le_bytes 4 (fe_name_id e) @ le_bytes 8 (fe_file_bytes e) @
     le_bytes 4 (fe_file_kind e) @ replicate 4 0"

lemma section_fields:
  "slice at 32 b = slice at 2 b @ slice (at + 2) 2 b @ slice (at + 4) 4 b @ slice (at + 8) 8 b @
     slice (at + 16) 8 b @ slice (at + 24) 4 b @ slice (at + 28) 4 b" for b :: "byte list"
  using slice_fields [of at "[2, 2, 4, 8, 8, 4, 4]" b] by (simp add: add.assoc)

lemma file_fields:
  "slice at 24 b = slice at 4 b @ slice (at + 4) 4 b @ slice (at + 8) 8 b @ slice (at + 16) 4 b @ slice (at + 20) 4 b"
  for b :: "byte list"
  using slice_fields [of at "[4, 4, 8, 4, 4]" b] by (simp add: add.assoc)

lemma put_section_spec:
  assumes "at + 32 \<le> payload_at" "payload_at + length payload \<le> length out" "slice at 32 out = replicate 32 0"
    and new: "new = put_section crc at payload_at (kind, flags, payload) out"
  shows "slice at 32 new = section_entry_image crc payload_at (kind, flags, payload)"
    and "slice payload_at (length payload) new = payload"
    and "keeps [(at, 32), (payload_at, length payload)] out new"
proof -
  have zero: "slice (at + 4) 4 out = replicate 4 0" "slice (at + 28) 4 out = replicate 4 0"
    using assms(3) slice_slice [of 4 4 32 at out] slice_slice [of 28 4 32 at out]
    by (simp_all add: slice_zeros)
  show "slice at 32 new = section_entry_image crc payload_at (kind, flags, payload)"
    using assms(1,2) unfolding section_fields new put_section_def section_entry_image_def
    by (simp add: put_defs buffer_simps zero Let_def)
  show "slice payload_at (length payload) new = payload"
    using assms(1,2) unfolding new put_section_def by (simp add: put_defs buffer_simps Let_def)
  show "keeps [(at, 32), (payload_at, length payload)] out new"
    using assms(1,2) unfolding new put_section_def keeps_def by (auto simp: put_defs buffer_simps Let_def)
qed

abbreviation payload_of :: "raw_section \<Rightarrow> byte list" where
  "payload_of s \<equiv> snd (snd s)"

definition payload_sum :: "raw_section list \<Rightarrow> nat" where
  "payload_sum ss = sum_list (map (\<lambda>s. length (payload_of s)) ss)"

lemma payload_sum_simps [simp]:
  "payload_sum [] = 0"
  "payload_sum (s # ss) = length (payload_of s) + payload_sum ss"
  by (simp_all add: payload_sum_def)

lemma payload_sum_take: "i < length ss \<Longrightarrow> payload_sum (take i ss) + length (payload_of (ss ! i)) \<le> payload_sum ss"
  by (induction ss arbitrary: i) (auto simp: take_Cons nth_Cons split: nat.split)

lemma put_sections_spec:
  assumes "at + 32 * length ss \<le> payload_at" "payload_at + payload_sum ss \<le> length out"
    and "slice at (32 * length ss) out = replicate (32 * length ss) 0"
  shows "keeps [(at, 32 * length ss), (payload_at, payload_sum ss)] out (put_sections crc ss at payload_at out) \<and>
    (\<forall>i < length ss.
       slice (at + 32 * i) 32 (put_sections crc ss at payload_at out) =
         section_entry_image crc (payload_at + payload_sum (take i ss)) (ss ! i) \<and>
       slice (payload_at + payload_sum (take i ss)) (length (payload_of (ss ! i))) (put_sections crc ss at payload_at out) =
         payload_of (ss ! i))"
  using assms
proof (induction ss arbitrary: at payload_at out)
  case (Cons s ss)
  obtain kind flags payload where s: "s = (kind, flags, payload)" by (cases s) auto
  define mid where "mid = put_section crc at payload_at s out"
  define new where "new = put_sections crc ss (at + 32) (payload_at + length payload) mid"
  have new_eq: "put_sections crc (s # ss) at payload_at out = new"
    by (simp add: new_def mid_def s section_entry_bytes_def)
  have zero: "slice at 32 out = replicate 32 0" "slice (at + 32) (32 * length ss) out = replicate (32 * length ss) 0"
    using Cons.prems(3) slice_slice [of 0 32 "32 * length (s # ss)" at out]
      slice_slice [of 32 "32 * length ss" "32 * length (s # ss)" at out] by (simp_all add: slice_zeros)
  note sec = put_section_spec [of at payload_at payload out mid crc kind flags, OF _ _ zero(1)]
  have k1: "keeps [(at, 32), (payload_at, length payload)] out mid"
    and e1: "slice at 32 mid = section_entry_image crc payload_at s" "slice payload_at (length payload) mid = payload"
    using sec Cons.prems(1,2) by (simp_all add: mid_def s)
  have "slice (at + 32) (32 * length ss) mid = replicate (32 * length ss) 0"
    using keepsD [OF k1, of "at + 32" "32 * length ss"] Cons.prems(1) zero(2) by simp
  moreover have "length mid = length out" using k1 by (simp add: keeps_def)
  ultimately have IH: "keeps [(at + 32, 32 * length ss), (payload_at + length payload, payload_sum ss)] mid new"
    "\<forall>i < length ss. slice (at + 32 + 32 * i) 32 new =
         section_entry_image crc (payload_at + length payload + payload_sum (take i ss)) (ss ! i) \<and>
       slice (payload_at + length payload + payload_sum (take i ss)) (length (payload_of (ss ! i))) new = payload_of (ss ! i)"
    using Cons.IH [of "at + 32" "payload_at + length payload" mid] Cons.prems(1,2) by (simp_all add: new_def s)
  have "keeps [(at, 32 * length (s # ss)), (payload_at, payload_sum (s # ss))] out new"
    by (rule keeps_seq [OF k1 IH(1)]) (clarsimp simp: s, elim disjE; simp)
  moreover have "slice at 32 new = section_entry_image crc payload_at s" "slice payload_at (length payload) new = payload"
    using keepsD [OF IH(1), of at 32] keepsD [OF IH(1), of payload_at "length payload"] e1 Cons.prems(1) by simp_all
  ultimately show ?case
    unfolding new_eq using IH(2) by (auto simp: less_Suc_eq_0_disj s add.assoc)
qed simp

lemma put_file_spec:
  assumes "at + 24 \<le> length out"
  shows "slice at 24 (put_file_entry out at e) = file_entry_image e" and "keeps [(at, 24)] out (put_file_entry out at e)"
proof -
  show "slice at 24 (put_file_entry out at e) = file_entry_image e"
    using assms unfolding file_fields put_file_entry_def file_entry_image_def
    by (simp add: put_defs buffer_simps Let_def le_bytes_zero)
  show "keeps [(at, 24)] out (put_file_entry out at e)"
    using assms unfolding put_file_entry_def keeps_def by (auto simp: put_defs buffer_simps Let_def)
qed

lemma put_files_spec:
  assumes "at + 24 * length es \<le> length out"
  shows "keeps [(at, 24 * length es)] out (put_files es at out) \<and>
    (\<forall>i < length es. slice (at + 24 * i) 24 (put_files es at out) = file_entry_image (es ! i))"
  using assms
proof (induction es arbitrary: at out)
  case (Cons e es)
  define mid where "mid = put_file_entry out at e"
  define new where "new = put_files es (at + 24) mid"
  have new_eq: "put_files (e # es) at out = new" by (simp add: new_def mid_def file_entry_bytes_def)
  have k1: "keeps [(at, 24)] out mid" "slice at 24 mid = file_entry_image e"
    using put_file_spec [of at out e] Cons.prems by (simp_all add: mid_def)
  then have "length mid = length out" by (simp add: keeps_def)
  then have IH: "keeps [(at + 24, 24 * length es)] mid new"
    "\<forall>i < length es. slice (at + 24 + 24 * i) 24 new = file_entry_image (es ! i)"
    using Cons.IH [of "at + 24" mid] Cons.prems by (simp_all add: new_def)
  have "keeps [(at, 24 * length (e # es))] out new" by (rule keeps_seq [OF k1(1) IH(1)]) auto
  moreover have "slice at 24 new = file_entry_image e" using keepsD [OF IH(1), of at 24] k1(2) by simp
  ultimately show ?case unfolding new_eq using IH(2) by (auto simp: less_Suc_eq_0_disj add.assoc)
qed simp

section \<open>Reading back what was written\<close>

lemma le_small: "v < 256 ^ n \<Longrightarrow> le_nat (le_bytes n v) = v"
  by (rule le_nat_le_bytes)

lemma read_section_image:
  assumes image: "slice at 32 bytes = section_entry_image crc off (kind, flags, payload)"
    and payload: "slice off (length payload) bytes = payload"
    and bounds: "length bytes \<le> usize_max" "at + 32 \<le> length bytes" "off + length payload \<le> length bytes - 16" "64 \<le> off"
    and small: "kind < 2 ^ 16" "flags < 2 ^ 16" "crc payload < 2 ^ 32"
    and order: "case last_kind of None \<Rightarrow> True | Some previous \<Rightarrow> previous < kind"
    and free: "\<not> ranges_overlap (off, off + length payload) sr" "\<not> ranges_overlap (off, off + length payload) fr"
  shows "read_section crc bytes sr fr last_kind at =
    Inr \<lparr>se_kind = kind, se_entry_flags = flags, se_offset = off, se_length = length payload, se_crc32c = crc payload\<rparr>"
proof -
  have f: "slice at 2 bytes = le_bytes 2 kind" "slice (at + 2) 2 bytes = le_bytes 2 flags"
    "slice (at + 4) 4 bytes = replicate 4 0" "slice (at + 8) 8 bytes = le_bytes 8 off"
    "slice (at + 16) 8 bytes = le_bytes 8 (length payload)" "slice (at + 24) 4 bytes = le_bytes 4 (crc payload)"
    "slice (at + 28) 4 bytes = replicate 4 0"
    using image bounds(2) unfolding section_fields section_entry_image_def
    by (simp_all add: append_eq_append_conv length_slice)
  have big: "off < 256 ^ 8" "length payload < 256 ^ 8" "off + length payload \<le> usize_max"
    using bounds by (simp_all add: usize_max_def)
  have "read_section crc bytes sr fr last_kind at =
      (if (case last_kind of None \<Rightarrow> False | Some previous \<Rightarrow> kind \<le> previous)
       then Inl (Invalid ''section table must be strictly ordered by kind'')
       else Inr \<lparr>se_kind = kind, se_entry_flags = flags, se_offset = off, se_length = length payload, se_crc32c = crc payload\<rparr>)"
    unfolding read_section_def check_section_def
    using bounds small free big
    by (simp add: read_at_in f le_small le_nat_zeros checked_add_usize_def payload frame_consts)
  also have "\<dots> = Inr \<lparr>se_kind = kind, se_entry_flags = flags, se_offset = off, se_length = length payload, se_crc32c = crc payload\<rparr>"
    using order by (simp split: option.splits)
  finally show ?thesis .
qed

lemma read_file_image:
  assumes image: "slice at 24 bytes = file_entry_image e"
    and bounds: "length bytes \<le> usize_max" "at + 24 \<le> length bytes" "i < 2 ^ 32"
    and small: "fe_file_id e = i" "fe_name_id e < 2 ^ 32" "fe_file_bytes e < 2 ^ 64" "fe_file_kind e \<le> 4"
  shows "read_file bytes at i = Inr e"
proof -
  have f: "slice at 4 bytes = le_bytes 4 (fe_file_id e)" "slice (at + 4) 4 bytes = le_bytes 4 (fe_name_id e)"
    "slice (at + 8) 8 bytes = le_bytes 8 (fe_file_bytes e)" "slice (at + 16) 4 bytes = le_bytes 4 (fe_file_kind e)"
    "slice (at + 20) 4 bytes = replicate 4 0"
    using image bounds(2) unfolding file_fields file_entry_image_def
    by (simp_all add: append_eq_append_conv length_slice)
  show ?thesis
    unfolding read_file_def using bounds small
    by (simp add: read_at_in f le_small le_nat_zeros frame_consts)
qed

lemma read_files_images:
  assumes "length bytes \<le> usize_max" "start + 24 * (k + length es) \<le> length bytes" "k + length es \<le> u32_max"
    and "\<forall>i < length es. slice (start + 24 * (k + i)) 24 bytes = file_entry_image (es ! i) \<and> fe_file_id (es ! i) = k + i \<and>
      fe_name_id (es ! i) < 2 ^ 32 \<and> fe_file_bytes (es ! i) < 2 ^ 64 \<and> fe_file_kind (es ! i) \<le> 4"
  shows "read_files bytes start [k..<k + length es] = Inr es"
  using assms
proof (induction es arbitrary: k)
  case (Cons e es)
  have "read_file bytes (start + k * file_entry_bytes) k = Inr e"
    using Cons.prems read_file_image [of "start + k * file_entry_bytes" bytes e k]
    by (auto simp: file_entry_bytes_def u32_max_def mult.commute dest: spec [of _ 0])
  moreover have "read_files bytes start [Suc k..<Suc k + length es] = Inr es"
  proof (rule Cons.IH)
    show "\<forall>i < length es. slice (start + 24 * (Suc k + i)) 24 bytes = file_entry_image (es ! i) \<and>
      fe_file_id (es ! i) = Suc k + i \<and> fe_name_id (es ! i) < 2 ^ 32 \<and> fe_file_bytes (es ! i) < 2 ^ 64 \<and>
      fe_file_kind (es ! i) \<le> 4"
    proof (intro allI impI)
      fix i assume "i < length es"
      with Cons.prems(4) [rule_format, of "Suc i"]
      show "slice (start + 24 * (Suc k + i)) 24 bytes = file_entry_image (es ! i) \<and>
        fe_file_id (es ! i) = Suc k + i \<and> fe_name_id (es ! i) < 2 ^ 32 \<and> fe_file_bytes (es ! i) < 2 ^ 64 \<and>
        fe_file_kind (es ! i) \<le> 4" by simp
    qed
  qed (use Cons.prems in simp_all)
  ultimately show ?case by (simp add: upt_conv_Cons del: upt_Suc)
qed simp

definition section_of :: "(byte list \<Rightarrow> nat) \<Rightarrow> nat \<Rightarrow> raw_section list \<Rightarrow> nat \<Rightarrow> section_entry" where
  "section_of crc payload_at ss i =
     \<lparr>se_kind = fst (ss ! i), se_entry_flags = fst (snd (ss ! i)), se_offset = payload_at + payload_sum (take i ss),
      se_length = length (payload_of (ss ! i)), se_crc32c = crc (payload_of (ss ! i))\<rparr>"

lemma read_sections_images:
  assumes "length bytes \<le> usize_max" "fst sr + 32 * n \<le> length bytes" "n = length ss"
    and "payload_at + payload_sum ss \<le> length bytes - 16" "64 \<le> payload_at" "snd sr \<le> payload_at" "snd fr \<le> payload_at"
    and "\<forall>i < n. slice (fst sr + 32 * i) 32 bytes = section_entry_image crc (payload_at + payload_sum (take i ss)) (ss ! i) \<and>
      slice (payload_at + payload_sum (take i ss)) (length (payload_of (ss ! i))) bytes = payload_of (ss ! i)"
    and "\<forall>i < n. fst (ss ! i) < 2 ^ 16 \<and> fst (snd (ss ! i)) < 2 ^ 16" "\<And>x. crc x < 2 ^ 32"
    and "sorted_wrt (<) (map fst ss)" "k \<le> n"
    and "case last_kind of None \<Rightarrow> True | Some previous \<Rightarrow> \<forall>i. k \<le> i \<and> i < n \<longrightarrow> previous < fst (ss ! i)"
  shows "read_sections crc bytes sr fr last_kind [k..<n] = Inr (map (section_of crc payload_at ss) [k..<n])"
  using assms(12,13)
proof (induction "n - k" arbitrary: k last_kind)
  case (Suc d)
  then have k: "k < n" by simp
  obtain kind flags payload where s: "ss ! k = (kind, flags, payload)" by (cases "ss ! k") auto
  define off where "off = payload_at + payload_sum (take k ss)"
  have fits: "off + length payload \<le> length bytes - 16"
    using payload_sum_take [of k ss] k assms(3,4) by (simp add: off_def s)
  have free: "\<not> ranges_overlap (off, off + length payload) sr" "\<not> ranges_overlap (off, off + length payload) fr"
    using assms(6,7) by (auto simp: ranges_overlap_def off_def)
  have "read_section crc bytes sr fr last_kind (fst sr + k * section_entry_bytes) = Inr (section_of crc payload_at ss k)"
    using k assms(1,2,5,8-10) Suc.prems(2) fits free
    by (subst read_section_image [where kind = kind and flags = flags and payload = payload and off = off])
      (auto simp: section_entry_bytes_def off_def s section_of_def mult.commute split: option.splits)
  moreover have "read_sections crc bytes sr fr (Some kind) [Suc k..<n] = Inr (map (section_of crc payload_at ss) [Suc k..<n])"
  proof (rule Suc.hyps(1))
    show "case Some kind of None \<Rightarrow> True | Some previous \<Rightarrow> \<forall>i. Suc k \<le> i \<and> i < n \<longrightarrow> previous < fst (ss ! i)"
      using assms(3,11) s by (auto simp: sorted_wrt_iff_nth_less Suc_le_eq dest: spec [of _ k])
  qed (use Suc.hyps(2) k in simp_all)
  ultimately show ?case using k by (simp add: upt_conv_Cons section_of_def s del: upt_Suc)
qed simp

section \<open>The whole manifest\<close>

definition self_entry :: "nat \<Rightarrow> file_entry" where
  "self_entry whole = \<lparr>fe_file_id = 0, fe_name_id = 0, fe_file_bytes = whole, fe_file_kind = manifest_kind\<rparr>"

definition header_image :: "manifest_builder \<Rightarrow> nat \<Rightarrow> nat \<Rightarrow> nat \<Rightarrow> byte list \<Rightarrow> bool" where
  "header_image b n nf file_table out \<longleftrightarrow>
     slice 0 10 out = manifest_magic \<and> slice 10 2 out = le_bytes 2 1 \<and> slice 12 2 out = le_bytes 2 0 \<and>
     slice 14 4 out = le_bytes 4 64 \<and> slice 18 2 out = le_bytes 2 (fst (mb_min_reader b)) \<and>
     slice 20 2 out = le_bytes 2 (snd (mb_min_reader b)) \<and> slice 22 4 out = le_bytes 4 (mb_flags b) \<and>
     slice 26 8 out = le_bytes 8 (mb_generation b) \<and> slice 34 4 out = le_bytes 4 n \<and> slice 38 4 out = le_bytes 4 nf \<and>
     slice 42 8 out = le_bytes 8 64 \<and> slice 50 8 out = le_bytes 8 file_table \<and> slice 62 2 out = le_bytes 2 0"

definition header_writes :: "manifest_builder \<Rightarrow> nat \<Rightarrow> nat \<Rightarrow> nat \<Rightarrow> (nat \<times> byte list) list" where
  "header_writes b n nf file_table =
     [(0, manifest_magic), (10, le_bytes 2 1), (12, le_bytes 2 0), (14, le_bytes 4 64),
      (18, le_bytes 2 (fst (mb_min_reader b))), (20, le_bytes 2 (snd (mb_min_reader b))), (22, le_bytes 4 (mb_flags b)),
      (26, le_bytes 8 (mb_generation b)), (34, le_bytes 4 n), (38, le_bytes 4 nf), (42, le_bytes 8 64),
      (50, le_bytes 8 file_table), (62, le_bytes 2 0)]"

lemma put_header_spec:
  assumes "64 \<le> length out"
  shows "header_image b n nf file_table (put_header b n nf file_table out)"
    and "keeps [(0, 64)] out (put_header b n nf file_table out)"
proof -
  show "header_image b n nf file_table (put_header b n nf file_table out)"
  proof -
    have "put_header b n nf file_table out = puts (header_writes b n nf file_table) out"
      by (simp add: put_header_def header_writes_def puts_def put_defs Let_def frame_consts)
    moreover have "slice off (length new) (puts (header_writes b n nf file_table) out) = new"
      if "(off, new) \<in> set (header_writes b n nf file_table)" for off new
      using assms that by (intro puts_slice) (simp_all add: header_writes_def apart_def)
    note this [of 0 manifest_magic] this [of _ "le_bytes _ _"]
    ultimately show ?thesis unfolding header_image_def by (simp add: header_writes_def)
  qed
  show "keeps [(0, 64)] out (put_header b n nf file_table out)"
    using assms unfolding put_header_def Let_def put_defs by (intro keeps_put_in keeps_refl) simp_all
qed

lemma header_image_keeps:
  assumes "keeps [(w, k)] out out'" "64 \<le> w \<or> w = 58 \<and> k = 4" "header_image b n nf file_table out"
  shows "header_image b n nf file_table out'"
proof -
  have "slice off m out' = slice off m out" if "off + m \<le> 58 \<or> off = 62 \<and> m = 2" for off m
    using assms(1,2) that by (intro keepsD [OF assms(1)]) auto
  then show ?thesis using assms(3) unfolding header_image_def by simp
qed

text \<open>Everything the reader looks at.\<close>

definition manifest_image :: "(byte list \<Rightarrow> nat) \<Rightarrow> manifest_builder \<Rightarrow> raw_section list \<Rightarrow> nat \<Rightarrow> nat \<Rightarrow> nat \<Rightarrow> byte list \<Rightarrow> bool" where
  "manifest_image crc b ss file_table payload_at whole out \<longleftrightarrow>
     length out = whole \<and> header_image b (length ss) (length (mb_files b) + 1) file_table out \<and>
     slice 58 4 out = le_bytes 4 (crc (slice 0 58 out)) \<and>
     (\<forall>i < length ss.
        slice (64 + 32 * i) 32 out = section_entry_image crc (payload_at + payload_sum (take i ss)) (ss ! i) \<and>
        slice (payload_at + payload_sum (take i ss)) (length (payload_of (ss ! i))) out = payload_of (ss ! i)) \<and>
     (\<forall>i < length (self_entry whole # mb_files b).
        slice (file_table + 24 * i) 24 out = file_entry_image ((self_entry whole # mb_files b) ! i)) \<and>
     slice (whole - 16) 8 out = trailer_magic \<and> slice (whole - 16 + 12) 4 out = replicate 4 0"

lemma fill_manifest_image:
  assumes ft: "file_table = 64 + 32 * length ss" and pa: "payload_at = file_table + 24 * (length (mb_files b) + 1)"
    and whole: "whole = payload_at + payload_sum ss + 16"
  shows "manifest_image crc b ss file_table payload_at whole (fill_manifest crc b ss file_table payload_at whole)"
proof -
  define n where "n = length ss"
  define nf where "nf = length (mb_files b)"
  define o1 where "o1 = put_header b n (nf + 1) file_table (replicate whole 0)"
  define o2 where "o2 = put_sections crc ss 64 payload_at o1"
  define o3 where "o3 = put_file_entry o2 file_table (self_entry whole)"
  define o4 where "o4 = put_files (mb_files b) (file_table + 24) o3"
  define o5 where "o5 = put_u32 o4 58 (crc (slice 0 58 o4))"
  define o6 where "o6 = put_bytes (whole - 16) trailer_magic o5"
  define o7 where "o7 = put_u32 o6 (whole - 16 + 8) 0"
  define out where "out = put_u32 o7 (whole - 16 + 12) 0"
  have out_eq: "fill_manifest crc b ss file_table payload_at whole = out"
    by (simp add: fill_manifest_def out_def o7_def o6_def o5_def o4_def o3_def o2_def o1_def self_entry_def frame_consts
        n_def nf_def Let_def)
  have h1: "header_image b n (nf + 1) file_table o1" "keeps [(0, 64)] (replicate whole 0) o1"
    using put_header_spec [of "replicate whole 0" b n "nf + 1" file_table] by (simp_all add: o1_def whole pa ft)
  have l1: "length o1 = whole" using h1(2) by (simp add: keeps_def)
  have "slice 64 (32 * n) o1 = replicate (32 * n) 0"
    using keepsD [OF h1(2), of 64 "32 * n"] by (simp add: slice_zeros whole pa ft n_def)
  then have s: "keeps [(64, 32 * n), (payload_at, payload_sum ss)] o1 o2"
    "\<forall>i < n. slice (64 + 32 * i) 32 o2 = section_entry_image crc (payload_at + payload_sum (take i ss)) (ss ! i) \<and>
       slice (payload_at + payload_sum (take i ss)) (length (payload_of (ss ! i))) o2 = payload_of (ss ! i)"
    using put_sections_spec [of 64 ss payload_at o1 crc] l1 by (simp_all add: o2_def whole pa ft n_def)
  have l2: "length o2 = whole" using s(1) l1 by (simp add: keeps_def)
  have f0: "slice file_table 24 o3 = file_entry_image (self_entry whole)" "keeps [(file_table, 24)] o2 o3"
    using put_file_spec [of file_table o2 "self_entry whole"] l2 by (simp_all add: o3_def whole pa)
  have l3: "length o3 = whole" using f0(2) l2 by (simp add: keeps_def)
  have f1: "keeps [(file_table + 24, 24 * nf)] o3 o4"
    "\<forall>i < nf. slice (file_table + 24 + 24 * i) 24 o4 = file_entry_image (mb_files b ! i)"
    using put_files_spec [of "file_table + 24" "mb_files b" o3] l3 by (simp_all add: o4_def whole pa nf_def)
  have l4: "length o4 = whole" using f1(1) l3 by (simp add: keeps_def)
  have c: "keeps [(58, 4)] o4 o5" "slice 58 4 o5 = le_bytes 4 (crc (slice 0 58 o4))"
    using keeps_put [of 58 "le_bytes 4 (crc (slice 0 58 o4))" o4] l4
    by (simp_all add: o5_def put_defs buffer_simps whole pa ft)
  have l5: "length o5 = whole" using c(1) l4 by (simp add: keeps_def)
  have t: "keeps [(whole - 16, 16)] o5 out" "slice (whole - 16) 8 out = trailer_magic" "slice (whole - 16 + 12) 4 out = replicate 4 0"
    using l5 by (auto simp: keeps_def out_def o7_def o6_def put_defs buffer_simps whole le_bytes_zero)
  have head: "slice 0 58 out = slice 0 58 o4" "slice 58 4 out = slice 58 4 o5"
    using keepsD [OF t(1), of 0 58] keepsD [OF t(1), of 58 4] keepsD [OF c(1), of 0 58] by (simp_all add: whole pa ft)
  have "header_image b n (nf + 1) file_table o2" if "n = n"
    using h1(1) s(1) by (auto simp: header_image_def keeps_def whole pa ft)
  then have "header_image b n (nf + 1) file_table out"
    using header_image_keeps [OF f0(2)] header_image_keeps [OF f1(1)] header_image_keeps [OF c(1)] header_image_keeps [OF t(1)]
    by (simp add: whole pa ft)
  moreover have late: "slice off m out = slice off m o2" if "off + m \<le> whole - 16" "64 \<le> off"
      "off + m \<le> file_table \<or> payload_at \<le> off" for off m
    using that keepsD [OF t(1), of off m] keepsD [OF c(1), of off m] keepsD [OF f1(1), of off m] keepsD [OF f0(2), of off m]
    by (elim disjE) (simp_all add: whole pa nf_def)
  have "slice (64 + 32 * i) 32 out = section_entry_image crc (payload_at + payload_sum (take i ss)) (ss ! i) \<and>
      slice (payload_at + payload_sum (take i ss)) (length (payload_of (ss ! i))) out = payload_of (ss ! i)" if "i < n" for i
    using s(2) that late [of "64 + 32 * i" 32] late [of "payload_at + payload_sum (take i ss)" "length (payload_of (ss ! i))"]
      payload_sum_take [of i ss] by (simp add: whole pa ft n_def)
  moreover have "slice (file_table + 24 * i) 24 out = file_entry_image ((self_entry whole # mb_files b) ! i)"
    if "i < length (self_entry whole # mb_files b)" for i
  proof -
    have "slice (file_table + 24 * i) 24 out = slice (file_table + 24 * i) 24 o4"
      using that keepsD [OF t(1), of "file_table + 24 * i" 24] keepsD [OF c(1), of "file_table + 24 * i" 24]
      by (simp add: whole pa ft)
    then show ?thesis
      using that f1(2) keepsD [OF f1(1), of file_table 24] f0(1) by (cases i) (simp_all add: nf_def add.assoc)
  qed
  ultimately show ?thesis
    using l5 t c(2) head unfolding out_eq manifest_image_def by (simp add: n_def nf_def keeps_def)
qed

text \<open>Builders whose fields have the widths of the code; the operations keep the rest.\<close>

definition builder_ok :: "manifest_builder \<Rightarrow> bool" where
  "builder_ok b \<longleftrightarrow>
     mb_flags b < 2 ^ 32 \<and> 0 < mb_generation b \<and> mb_generation b < 2 ^ 64 \<and>
     fst (mb_min_reader b) < 2 ^ 16 \<and> snd (mb_min_reader b) < 2 ^ 16 \<and>
     distinct (map fst (mb_sections b)) \<and> (\<forall>(k, f, _) \<in> set (mb_sections b). k < 2 ^ 16 \<and> f < 2 ^ 16) \<and>
     length (mb_files b) < 2 ^ 32 \<and>
     (\<forall>i < length (mb_files b). fe_file_id (mb_files b ! i) = i + 1 \<and> fe_name_id (mb_files b ! i) < 2 ^ 32 \<and>
        fe_file_bytes (mb_files b ! i) < 2 ^ 64 \<and> fe_file_kind (mb_files b ! i) \<in> {1..4})"

lemma new_builder_ok: "new_builder g = Inr b \<Longrightarrow> g < 2 ^ 64 \<Longrightarrow> builder_ok b"
  by (auto simp: new_builder_def builder_ok_def frame_consts split: if_splits)

lemma with_flags_ok: "builder_ok b \<Longrightarrow> flags < 2 ^ 32 \<Longrightarrow> builder_ok (with_flags b flags)"
  by (auto simp: with_flags_def builder_ok_def)

lemma with_min_reader_ok: "builder_ok b \<Longrightarrow> major < 2 ^ 16 \<Longrightarrow> minor < 2 ^ 16 \<Longrightarrow> builder_ok (with_min_reader b major minor)"
  by (auto simp: with_min_reader_def builder_ok_def)

lemma add_section_ok: "builder_ok b \<Longrightarrow> k < 2 ^ 16 \<Longrightarrow> f < 2 ^ 16 \<Longrightarrow> add_section b k f p = Inr b' \<Longrightarrow> builder_ok b'"
  unfolding add_section_def builder_ok_def
  by (clarsimp simp: list_ex_iff split: if_splits) fastforce

lemma add_file_ok:
  "builder_ok b \<Longrightarrow> name < 2 ^ 32 \<Longrightarrow> bytes < 2 ^ 64 \<Longrightarrow> add_file b name bytes kind = Inr (i, b') \<Longrightarrow> builder_ok b'"
  unfolding add_file_def builder_ok_def
  by (clarsimp simp: Let_def frame_consts u32_max_def less_Suc_eq split: if_splits) (auto simp: nth_append)

definition supported :: "manifest_builder \<Rightarrow> bool" where
  "supported b \<longleftrightarrow> fst (mb_min_reader b) < 1 \<or> mb_min_reader b = (1, 0)"

definition header_of :: "manifest_builder \<Rightarrow> manifest_header" where
  "header_of b =
     \<lparr>mh_format_major = 1, mh_format_minor = 0, mh_min_reader_major = fst (mb_min_reader b),
      mh_min_reader_minor = snd (mb_min_reader b), mh_flags = mb_flags b, mh_generation = mb_generation b,
      mh_section_count = length (mb_sections b), mh_file_count = length (mb_files b) + 1, mh_section_table_offset = 64,
      mh_file_table_offset = 64 + 32 * length (mb_sections b)\<rparr>"

definition manifest_size :: "manifest_builder \<Rightarrow> nat" where
  "manifest_size b = 64 + 32 * length (mb_sections b) + 24 * (length (mb_files b) + 1) + payload_sum (mb_sections b) + 16"

lemma payload_sum_sort: "payload_sum (sort_key f ss) = payload_sum ss"
  by (simp add: payload_sum_def flip: sum_mset_sum_list)

lemma read_header_image:
  assumes image: "header_image b (length (mb_sections b)) (length (mb_files b) + 1) (64 + 32 * length (mb_sections b)) out"
    and "slice 58 4 out = le_bytes 4 (crc (slice 0 58 out))" "\<And>x. crc x < 2 ^ 32" "builder_ok b"
    and "64 \<le> length out" "length out \<le> usize_max" "length (mb_sections b) < 2 ^ 32" "length (mb_files b) + 1 < 2 ^ 32"
  shows "read_header crc out =
    (if supported b then Inr (header_of b)
     else Inl (InvalidDetail (''.logan requires reader '' @ show_nat (fst (mb_min_reader b)) @ ''.'' @
            show_nat (snd (mb_min_reader b)))))"
proof -
  obtain mj mn where mr: "mb_min_reader b = (mj, mn)" by fastforce
  have small: "64 + 32 * length (mb_sections b) < 256 ^ 8" "length (mb_sections b) < 256 ^ 4" "Suc (length (mb_files b)) < 256 ^ 4"
    "mj < 256 ^ 2" "mn < 256 ^ 2" "mb_flags b < 256 ^ 4" "mb_generation b \<noteq> 0" "mb_generation b < 256 ^ 8"
    "crc (slice 0 58 out) < 256 ^ 4"
    using assms(3,4,7,8) by (simp_all add: builder_ok_def mr)
  note le = small(1-6,8,9) [THEN le_small]
  have sup: "supported b \<longleftrightarrow> \<not> (1 < mj \<or> mj = 1 \<and> 0 < mn)" by (auto simp: supported_def mr)
  show ?thesis
    using assms(1,2,5,6) unfolding header_image_def read_header_def sup
    by (simp add: read_at_in le small(7) le_small frame_consts header_of_def mr)
qed

lemma sections_few:
  assumes "builder_ok b"
  shows "length (mb_sections b) \<le> 65536"
proof -
  have "set (map fst (mb_sections b)) \<subseteq> {..<65536}" using assms by (auto simp: builder_ok_def)
  then have "card (set (map fst (mb_sections b))) \<le> card {..<65536 :: nat}" by (rule card_mono [rotated]) simp
  moreover have "card (set (map fst (mb_sections b))) = length (mb_sections b)"
    using assms by (simp add: builder_ok_def distinct_card del: set_map)
  ultimately show ?thesis by simp
qed

lemma sorted_kinds:
  assumes "builder_ok b"
  shows "sorted_wrt (<) (map fst (sort_key fst (mb_sections b)))"
    and "\<forall>i < length (mb_sections b). fst (sort_key fst (mb_sections b) ! i) < 2 ^ 16 \<and> fst (snd (sort_key fst (mb_sections b) ! i)) < 2 ^ 16"
proof -
  have "distinct (map fst (sort_key fst (mb_sections b)))"
    using assms mset_eq_imp_distinct_iff [of "map fst (sort_key fst (mb_sections b))" "map fst (mb_sections b)"]
    by (simp add: builder_ok_def)
  then show "sorted_wrt (<) (map fst (sort_key fst (mb_sections b)))"
    by (simp add: strict_sorted_iff)
  have "set (sort_key fst (mb_sections b)) = set (mb_sections b)" by simp
  then show "\<forall>i < length (mb_sections b). fst (sort_key fst (mb_sections b) ! i) < 2 ^ 16 \<and> fst (snd (sort_key fst (mb_sections b) ! i)) < 2 ^ 16"
    using assms unfolding builder_ok_def by (metis (no_types, lifting) case_prod_beta length_sort nth_mem)
qed

definition manifest_of :: "(byte list \<Rightarrow> nat) \<Rightarrow> manifest_builder \<Rightarrow> byte list \<Rightarrow> manifest" where
  "manifest_of crc b out =
     (let ss = sort_key fst (mb_sections b); n = length ss; payload_at = 64 + 32 * n + 24 * (length (mb_files b) + 1) in
      \<lparr>mf_header = header_of b, mf_sections = map (section_of crc payload_at ss) [0..<n],
       mf_files = self_entry (manifest_size b) # mb_files b, mf_bytes = out\<rparr>)"

lemma parse_image:
  assumes ok: "builder_ok b" and crc: "\<And>x. crc x < 2 ^ 32" and fits: "manifest_size b \<le> usize_max"
    and files: "length (mb_files b) + 1 < 2 ^ 32" and ss: "ss = sort_key fst (mb_sections b)"
    and ft: "file_table = 64 + 32 * length ss" and pa: "payload_at = file_table + 24 * (length (mb_files b) + 1)"
    and image: "manifest_image crc b ss file_table payload_at (manifest_size b) out"
  shows "parse crc out =
    (if supported b then Inr (manifest_of crc b out)
     else Inl (InvalidDetail (''.logan requires reader '' @ show_nat (fst (mb_min_reader b)) @ ''.'' @
            show_nat (snd (mb_min_reader b)))))"
proof -
  define n where "n = length ss"
  have n: "n = length (mb_sections b)" by (simp add: n_def ss)
  have few: "n \<le> 65536" using sections_few [OF ok] n by simp
  have whole: "manifest_size b = payload_at + payload_sum ss + 16"
    using ft pa by (simp add: manifest_size_def ss payload_sum_sort)
  have len: "length out = manifest_size b" using image by (simp add: manifest_image_def)
  have len80: "80 \<le> length out" by (simp add: len manifest_size_def)
  have header: "read_header crc out = (if supported b then Inr (header_of b)
     else Inl (InvalidDetail (''.logan requires reader '' @ show_nat (fst (mb_min_reader b)) @ ''.'' @
            show_nat (snd (mb_min_reader b)))))"
    using image crc ok fits files few len80 n
    by (intro read_header_image) (simp_all add: manifest_image_def ft n_def len)
  have magic: "slice 0 10 out = manifest_magic" using image by (simp add: manifest_image_def header_image_def)
  have t1: "checked_table (length out) 64 n 32 what = Inr (64, file_table)"
    and t2: "checked_table (length out) file_table (length (mb_files b) + 1) 24 what = Inr (file_table, payload_at)" for what
    using fits len by (simp_all add: checked_table_def checked_mul_usize_def checked_add_usize_def whole ft pa n_def)
  have trailer: "check_trailer out = Inr ()"
    using image len80 fits len whole
    by (simp add: check_trailer_def manifest_image_def Let_def frame_consts read_at_in le_nat_zeros)
  have sections: "read_sections crc out (64, file_table) (file_table, payload_at) None [0..<n] =
      Inr (map (section_of crc payload_at ss) [0..<n])"
    using image fits sorted_kinds [OF ok] crc n
    by (intro read_sections_images) (simp_all add: manifest_image_def len whole ft pa n_def ss)
  have fs: "read_files out file_table [0..<0 + length (self_entry (manifest_size b) # mb_files b)] =
      Inr (self_entry (manifest_size b) # mb_files b)"
  proof (rule read_files_images)
    show "\<forall>i < length (self_entry (manifest_size b) # mb_files b).
      slice (file_table + 24 * (0 + i)) 24 out = file_entry_image ((self_entry (manifest_size b) # mb_files b) ! i) \<and>
      fe_file_id ((self_entry (manifest_size b) # mb_files b) ! i) = 0 + i \<and>
      fe_name_id ((self_entry (manifest_size b) # mb_files b) ! i) < 2 ^ 32 \<and>
      fe_file_bytes ((self_entry (manifest_size b) # mb_files b) ! i) < 2 ^ 64 \<and>
      fe_file_kind ((self_entry (manifest_size b) # mb_files b) ! i) \<le> 4"
      using image ok fits by (auto simp: manifest_image_def builder_ok_def self_entry_def frame_consts usize_max_def nth_Cons
          split: nat.splits)
  qed (use fits files in \<open>simp_all add: len whole pa u32_max_def\<close>)
  have self: "check_self out (self_entry (manifest_size b) # mb_files b) = Inr ()"
    by (simp add: check_self_def self_entry_def len)
  show ?thesis
  proof (cases "supported b")
    case True
    have h: "mh_section_table_offset (header_of b) = 64" "mh_section_count (header_of b) = n"
      "mh_file_table_offset (header_of b) = file_table" "mh_file_count (header_of b) = length (mb_files b) + 1"
      by (simp_all add: header_of_def n ft n_def ss)
    have "parse crc out = Inr \<lparr>mf_header = header_of b, mf_sections = map (section_of crc payload_at ss) [0..<n],
        mf_files = self_entry (manifest_size b) # mb_files b, mf_bytes = out\<rparr>"
      using len80 True t1 t2 trailer sections fs self
      by (simp add: parse_def header h magic frame_consts ft)
    then show ?thesis using True by (simp add: manifest_of_def Let_def ss n_def ft pa)
  next
    case False
    then show ?thesis using len80 by (simp add: parse_def header magic frame_consts)
  qed
qed

section \<open>The encoder is exact\<close>

lemma sum_payloads_eq:
  "acc \<le> usize_max \<Longrightarrow> sum_payloads ss acc = (if acc + payload_sum ss \<le> usize_max then Some (acc + payload_sum ss) else None)"
proof (induction ss arbitrary: acc)
  case (Cons s ss)
  then show ?case by (cases "acc + length (payload_of s) \<le> usize_max") (simp_all add: checked_add_usize_def add.assoc)
qed simp

lemma sum_payloads_zero: "sum_payloads ss 0 = (if payload_sum ss \<le> usize_max then Some (payload_sum ss) else None)"
  using sum_payloads_eq [of 0 ss] by simp

lemma find_unique:
  assumes "x \<in> set xs" "P x" "\<And>y. y \<in> set xs \<Longrightarrow> P y \<Longrightarrow> y = x"
  shows "find P xs = Some x"
  using assms
proof (induction xs)
  case (Cons y ys)
  show ?case
  proof (cases "P y")
    case True
    then show ?thesis using Cons.prems(3) [of y] by simp
  next
    case False
    then have "x \<in> set ys" using Cons.prems(1,2) by auto
    then have "find P ys = Some x" using Cons.prems(2,3) by (intro Cons.IH) simp_all
    then show ?thesis using False by simp
  qed
qed simp

lemma encode_fits:
  assumes "builder_ok b" "manifest_size b \<le> usize_max" "length (mb_files b) + 1 < 2 ^ 32"
  defines "ss \<equiv> sort_key fst (mb_sections b)"
  defines "ft \<equiv> 64 + 32 * length ss"
  defines "pa \<equiv> ft + 24 * (length (mb_files b) + 1)"
  shows "encode crc b = try_bind (parse crc (fill_manifest crc b ss ft pa (manifest_size b)))
    (\<lambda>_. Inr (fill_manifest crc b ss ft pa (manifest_size b)))"
proof -
  have size: "manifest_size b = pa + payload_sum ss + 16"
    by (simp add: manifest_size_def pa_def ft_def ss_def payload_sum_sort)
  have "length ss \<le> u32_max" using sections_few [OF assms(1)] by (simp add: ss_def u32_max_def)
  moreover have "checked_mul_usize (length ss) 32 = Some (length ss * 32)" "checked_add_usize 64 (length ss * 32) = Some ft"
    "checked_mul_usize (length (mb_files b) + 1) 24 = Some ((length (mb_files b) + 1) * 24)"
    "checked_add_usize ft ((length (mb_files b) + 1) * 24) = Some pa"
    "sum_payloads ss 0 = Some (payload_sum ss)" "checked_add_usize pa (payload_sum ss) = Some (pa + payload_sum ss)"
    "checked_add_usize (pa + payload_sum ss) 16 = Some (manifest_size b)"
    using assms(2) by (simp_all add: checked_mul_usize_def checked_add_usize_def sum_payloads_zero size pa_def ft_def)
  ultimately show ?thesis
    using assms(3)
    by (simp add: encode_def Let_def flip: ss_def) (simp add: ok_or_def frame_consts u32_max_def)
qed

lemma encode_too_big:
  assumes "encode crc b = Inr bytes"
  shows "manifest_size b \<le> usize_max" and "length (mb_files b) + 1 < 2 ^ 32"
proof -
  show "length (mb_files b) + 1 < 2 ^ 32" using assms by (simp add: encode_def Let_def u32_max_def split: if_splits)
  show "manifest_size b \<le> usize_max"
    using assms unfolding encode_def Let_def
    by (auto simp: try_bind_Inr ok_or_def checked_add_usize_def checked_mul_usize_def sum_payloads_zero payload_sum_sort
        frame_consts manifest_size_def split: if_splits option.splits)
qed

lemma section_bytes_of:
  assumes ok: "builder_ok b" and fits: "manifest_size b \<le> usize_max"
    and image: "manifest_image crc b ss file_table payload_at (manifest_size b) out"
    and ss: "ss = sort_key fst (mb_sections b)" and ft: "file_table = 64 + 32 * length ss"
    and pa: "payload_at = file_table + 24 * (length (mb_files b) + 1)"
  shows "section_bytes (manifest_of crc b out) k = map_option snd (map_of (mb_sections b) k)"
proof -
  have secs: "mf_sections (manifest_of crc b out) = map (section_of crc payload_at ss) [0..<length ss]"
    "mf_bytes (manifest_of crc b out) = out"
    by (simp_all add: manifest_of_def Let_def ss ft pa)
  have dist: "distinct (map fst (mb_sections b))" "set ss = set (mb_sections b)" using ok by (simp_all add: builder_ok_def ss)
  have strict: "sorted_wrt (<) (map fst ss)" using sorted_kinds(1) [OF ok] by (simp add: ss)
  have len: "length out = payload_at + payload_sum ss + 16"
    using image by (simp add: manifest_image_def manifest_size_def payload_sum_sort ss ft pa)
  show ?thesis
  proof (cases "k \<in> fst ` set ss")
    case False
    then have "\<forall>i < length ss. fst (ss ! i) \<noteq> k" by force
    then have "find (\<lambda>e. se_kind e = k) (map (section_of crc payload_at ss) [0..<length ss]) = None"
      by (auto simp: find_None_iff section_of_def)
    moreover have "map_of (mb_sections b) k = None" using False dist(2) by (simp add: map_of_eq_None_iff)
    ultimately show ?thesis by (simp add: section_bytes_def secs)
  next
    case True
    then obtain i where i: "i < length ss" "fst (ss ! i) = k" by (auto simp: in_set_conv_nth)
    have "find (\<lambda>e. se_kind e = k) (map (section_of crc payload_at ss) [0..<length ss]) = Some (section_of crc payload_at ss i)"
    proof (rule find_unique)
      fix e assume "e \<in> set (map (section_of crc payload_at ss) [0..<length ss])" "se_kind e = k"
      then obtain j where j: "j < length ss" "e = section_of crc payload_at ss j" "fst (ss ! j) = fst (ss ! i)"
        using i by (auto simp: section_of_def)
      have "j = i" using strict i(1) j(1,3) by (metis (no_types, lifting) length_map less_irrefl linorder_neqE_nat nth_map sorted_wrt_iff_nth_less)
      then show "e = section_of crc payload_at ss i" using j by simp
    qed (use i in \<open>auto simp: section_of_def\<close>)
    moreover have "slice (payload_at + payload_sum (take i ss)) (length (payload_of (ss ! i))) out = payload_of (ss ! i)"
      using image i(1) by (simp add: manifest_image_def)
    moreover have "map_of (mb_sections b) k = Some (snd (ss ! i))"
      using dist i by (metis map_of_eq_Some_iff nth_mem prod.collapse)
    moreover have "payload_at + payload_sum (take i ss) + length (payload_of (ss ! i)) \<le> length out" "length out \<le> usize_max"
      using payload_sum_take [OF i(1)] len image fits by (simp_all add: manifest_image_def)
    ultimately show ?thesis
      by (simp add: section_bytes_def secs section_of_def checked_add_usize_def)
  qed
qed

text \<open>
  C32: The manifest writer and its reader agree.  For every builder that the operations can
  make, encoding succeeds exactly if the requested reader version is supported and the file
  fits; the result then has the computed size and parses to the header, the files and the
  sections of the builder, the sections ordered by kind, and asking for a kind gives exactly
  the payload that was added under it.
\<close>

theorem encode_exact:
  assumes ok: "builder_ok b" and crc: "\<And>x. crc x < 2 ^ 32"
  shows "((\<exists>bytes. encode crc b = Inr bytes) \<longleftrightarrow>
      supported b \<and> manifest_size b \<le> usize_max \<and> length (mb_files b) + 1 < 2 ^ 32) \<and>
    (\<forall>bytes. encode crc b = Inr bytes \<longrightarrow> length bytes = manifest_size b \<and>
      (\<exists>m. parse crc bytes = Inr m \<and> mf_header m = header_of b \<and> mf_bytes m = bytes \<and>
        mf_files m = self_entry (manifest_size b) # mb_files b \<and>
        map (\<lambda>e. (se_kind e, se_entry_flags e)) (mf_sections m) = map (\<lambda>(k, f, _). (k, f)) (sort_key fst (mb_sections b)) \<and>
        (\<forall>k. section_bytes m k = map_option snd (map_of (mb_sections b) k))))"
proof -
  define ss where "ss = sort_key fst (mb_sections b)"
  define ft where "ft = 64 + 32 * length ss"
  define pa where "pa = ft + 24 * (length (mb_files b) + 1)"
  define out where "out = fill_manifest crc b ss ft pa (manifest_size b)"
  have image: "manifest_image crc b ss ft pa (manifest_size b) out"
    unfolding out_def by (rule fill_manifest_image) (simp_all add: ft_def pa_def manifest_size_def ss_def payload_sum_sort)
  show ?thesis
  proof (cases "manifest_size b \<le> usize_max \<and> length (mb_files b) + 1 < 2 ^ 32")
    case True
    note p = parse_image [OF ok crc conjunct1 [OF True] conjunct2 [OF True] ss_def ft_def pa_def image]
    have "encode crc b = try_bind (parse crc out) (\<lambda>_. Inr out)"
      using encode_fits [OF ok] True by (simp add: out_def ss_def ft_def pa_def)
    then have "encode crc b = Inr bytes \<longleftrightarrow> supported b \<and> bytes = out" for bytes by (auto simp: p)
    moreover have "map (\<lambda>e. (se_kind e, se_entry_flags e)) (mf_sections (manifest_of crc b out)) = map (\<lambda>(k, f, _). (k, f)) ss"
      by (intro nth_equalityI) (auto simp: manifest_of_def Let_def section_of_def ss_def split: prod.splits)
    moreover have "length out = manifest_size b" using image by (simp add: manifest_image_def)
    ultimately show ?thesis
      using True p section_bytes_of [OF ok _ image ss_def ft_def pa_def]
      by (simp add: manifest_of_def Let_def flip: ss_def)
  next
    case False
    then have "\<nexists>bytes. encode crc b = Inr bytes" using encode_too_big by blast
    then show ?thesis using False by auto
  qed
qed

definition two_sections :: manifest_builder where
  "two_sections =
     \<lparr>mb_flags = 6, mb_generation = 1, mb_min_reader = (1, 0), mb_sections = [(7, 0, [1, 2, 3]), (1, 0, [104, 105])],
      mb_files = [\<lparr>fe_file_id = 1, fe_name_id = 1, fe_file_bytes = 4096, fe_file_kind = 1\<rparr>]\<rparr>"

theorem encode_exact_witness:
  "\<exists>bytes m. encode (\<lambda>_. 0) two_sections = Inr bytes \<and> length bytes = 197 \<and> parse (\<lambda>_. 0) bytes = Inr m \<and>
     section_bytes m 7 = Some [1, 2, 3] \<and> section_bytes m 1 = Some [104, 105] \<and> section_bytes m 2 = None"
proof -
  have ok: "builder_ok two_sections" by (simp add: builder_ok_def two_sections_def)
  have fits: "supported two_sections" "manifest_size two_sections = 197" "length (mb_files two_sections) + 1 < 2 ^ 32"
    by (simp_all add: supported_def manifest_size_def two_sections_def)
  have "(\<lambda>_. 0 :: nat) x < 2 ^ 32" for x :: "byte list" by simp
  note exact = encode_exact [OF ok this]
  from exact fits obtain bytes where enc: "encode (\<lambda>_. 0) two_sections = Inr bytes" by (auto simp: usize_max_def)
  with exact fits(2) obtain m where "length bytes = 197" "parse (\<lambda>_. 0) bytes = Inr m"
    "\<And>k. section_bytes m k = map_option snd (map_of (mb_sections two_sections) k)" by auto
  with enc show ?thesis by (auto simp: two_sections_def)
qed

section \<open>What a parse guarantees\<close>

lemma disjoint_ranges: "\<not> ranges_overlap (a, b) (c, d) \<Longrightarrow> {a..<b} \<inter> {c..<d} = {}"
  by (auto simp: ranges_overlap_def)

definition section_sound :: "(byte list \<Rightarrow> nat) \<Rightarrow> byte list \<Rightarrow> nat \<times> nat \<Rightarrow> nat \<times> nat \<Rightarrow> section_entry \<Rightarrow> bool" where
  "section_sound crc bytes sr fr e \<longleftrightarrow>
     64 \<le> se_offset e \<and> se_offset e + se_length e \<le> length bytes - 16 \<and> se_offset e + se_length e \<le> usize_max \<and>
     {se_offset e..<se_offset e + se_length e} \<inter> ({fst sr..<snd sr} \<union> {fst fr..<snd fr}) = {} \<and>
     crc (slice (se_offset e) (se_length e) bytes) = se_crc32c e"

lemma check_section_sound:
  "check_section crc bytes sr fr kind flags off len expected = Inr e \<Longrightarrow> section_sound crc bytes sr fr e \<and> se_kind e = kind"
  using disjoint_ranges [of off "off + len" "fst sr" "snd sr"] disjoint_ranges [of off "off + len" "fst fr" "snd fr"]
  unfolding check_section_def section_sound_def
  by (auto simp: checked_add_usize_def frame_consts split: if_splits)

lemma read_section_sound:
  assumes "read_section crc bytes sr fr last_kind at = Inr e"
  shows "section_sound crc bytes sr fr e" and "last_kind = Some previous \<Longrightarrow> previous < se_kind e"
proof -
  have "\<exists>kind flags off len expected. check_section crc bytes sr fr kind flags off len expected = Inr e \<and>
      (\<forall>previous. last_kind = Some previous \<longrightarrow> previous < kind)"
  proof (cases last_kind)
    case None
    then show ?thesis using assms by (clarsimp simp: read_section_def try_bind_Inr split: if_splits; blast)
  next
    case (Some previous)
    then show ?thesis using assms by (clarsimp simp: read_section_def try_bind_Inr not_le split: if_splits; blast)
  qed
  with check_section_sound show "section_sound crc bytes sr fr e" "last_kind = Some previous \<Longrightarrow> previous < se_kind e" by blast+
qed

lemma read_sections_ConsE:
  assumes "read_sections crc bytes sr fr last_kind (i # is) = Inr es"
  obtains e es' where "read_section crc bytes sr fr last_kind (fst sr + i * section_entry_bytes) = Inr e"
    "read_sections crc bytes sr fr (Some (se_kind e)) is = Inr es'" "es = e # es'"
  using assms by (auto simp: try_bind_Inr)

lemma read_sections_sound:
  "read_sections crc bytes sr fr last_kind is = Inr es \<Longrightarrow>
     length es = length is \<and> list_all (section_sound crc bytes sr fr) es \<and> sorted_wrt (<) (map se_kind es) \<and>
     (\<forall>previous. last_kind = Some previous \<longrightarrow> list_all (\<lambda>e. previous < se_kind e) es)"
proof (induction "is" arbitrary: es last_kind)
  case (Cons i "is")
  from Cons.prems obtain e es' where e: "read_section crc bytes sr fr last_kind (fst sr + i * section_entry_bytes) = Inr e"
    "read_sections crc bytes sr fr (Some (se_kind e)) is = Inr es'" "es = e # es'" by (rule read_sections_ConsE)
  note IH = Cons.IH [OF e(2)]
  have "list_all (\<lambda>e'. previous < se_kind e') es'" if "last_kind = Some previous" for previous
    using IH read_section_sound(2) [OF e(1) that] by (auto simp: list_all_iff intro: less_trans)
  with IH read_section_sound [OF e(1)] show ?case by (simp add: e(3) list_all_iff)
qed simp

lemma read_files_sound:
  "read_files bytes start is = Inr es \<Longrightarrow>
     length es = length is \<and> (\<forall>i < length is. fe_file_id (es ! i) = is ! i mod 2 ^ 32 \<and> fe_file_kind (es ! i) \<le> 4)"
proof (induction "is" arbitrary: es)
  case (Cons i "is")
  from Cons.prems obtain e es' where e: "read_file bytes (start + i * file_entry_bytes) i = Inr e"
    "read_files bytes start is = Inr es'" "es = e # es'" by (auto simp: try_bind_Inr)
  from e(1) have "fe_file_id e = i mod 2 ^ 32" "fe_file_kind e \<le> 4"
    unfolding read_file_def by (auto simp: try_bind_Inr frame_consts split: if_splits)
  with Cons.IH [OF e(2)] show ?case by (auto simp: e(3) nth_Cons split: nat.splits)
qed simp

definition table_ranges :: "manifest \<Rightarrow> nat set" where
  "table_ranges m =
     {mh_section_table_offset (mf_header m)..<mh_section_table_offset (mf_header m) + 32 * mh_section_count (mf_header m)} \<union>
     {mh_file_table_offset (mf_header m)..<mh_file_table_offset (mf_header m) + 24 * mh_file_count (mf_header m)}"

lemma parse_steps:
  assumes "parse crc bytes = Inr m"
  obtains sr fr where
    "read_header crc bytes = Inr (mf_header m)" "mf_bytes m = bytes" "64 \<le> fst sr" "64 \<le> fst fr"
    "sr = (mh_section_table_offset (mf_header m), mh_section_table_offset (mf_header m) + 32 * mh_section_count (mf_header m))"
    "fr = (mh_file_table_offset (mf_header m), mh_file_table_offset (mf_header m) + 24 * mh_file_count (mf_header m))"
    "snd sr \<le> length bytes" "snd fr \<le> length bytes"
    "read_sections crc bytes sr fr None [0..<mh_section_count (mf_header m)] = Inr (mf_sections m)"
    "read_files bytes (fst fr) [0..<mh_file_count (mf_header m)] = Inr (mf_files m)"
    "check_self bytes (mf_files m) = Inr ()"
  using assms unfolding parse_def
  by (auto simp: try_bind_Inr checked_table_def checked_mul_usize_def checked_add_usize_def frame_consts mult.commute
      split: if_splits)

lemma section_bytes_sound:
  assumes "sorted_wrt (<) (map se_kind (mf_sections m))" "e \<in> set (mf_sections m)"
    and "se_offset e + se_length e \<le> length (mf_bytes m)" "se_offset e + se_length e \<le> usize_max"
  shows "section_bytes m (se_kind e) = Some (slice (se_offset e) (se_length e) (mf_bytes m))"
proof -
  have "distinct (map se_kind (mf_sections m))" using assms(1) by (simp add: strict_sorted_iff)
  then have "find (\<lambda>x. se_kind x = se_kind e) (mf_sections m) = Some e"
    using assms(2) by (intro find_unique) (auto simp: distinct_map dest: inj_onD)
  then show ?thesis using assms(3,4) by (simp add: section_bytes_def checked_add_usize_def)
qed

lemma header_counts:
  assumes "read_header crc bytes = Inr h"
  shows "mh_file_count h < 2 ^ 32"
proof -
  have "le_nat (slice at 4 bytes) < 2 ^ 32" for at
    using le_nat_less [of "slice at 4 bytes"] power_increasing [of "length (slice at 4 bytes)" 4 "256 :: nat"]
    by (simp add: slice_def)
  then show ?thesis
    using assms unfolding read_header_def by (auto simp: try_bind_Inr split: if_splits dest!: read_at_D(2) [of _ 38])
qed

text \<open>
  C33: What a parsed manifest guarantees, for arbitrary bytes.  The sections are strictly
  ordered by kind; each lies between the fixed header and the trailer, away from both
  tables, carries the checksum of its bytes, and is what asking for its kind returns; the
  file table is dense, has known kinds only, and if it lists the manifest itself then with
  its true size.
\<close>

theorem parse_sound:
  assumes "parse crc bytes = Inr m"
  shows "mf_bytes m = bytes \<and> table_ranges m \<subseteq> {64..<length bytes} \<and>
    length (mf_sections m) = mh_section_count (mf_header m) \<and> length (mf_files m) = mh_file_count (mf_header m) \<and>
    sorted_wrt (<) (map se_kind (mf_sections m)) \<and>
    (\<forall>e \<in> set (mf_sections m). 64 \<le> se_offset e \<and> se_offset e + se_length e \<le> length bytes - 16 \<and>
       {se_offset e..<se_offset e + se_length e} \<inter> table_ranges m = {} \<and>
       section_bytes m (se_kind e) = Some (slice (se_offset e) (se_length e) bytes) \<and>
       crc (slice (se_offset e) (se_length e) bytes) = se_crc32c e) \<and>
    (\<forall>i < length (mf_files m). fe_file_id (mf_files m ! i) = i \<and> fe_file_kind (mf_files m ! i) \<le> 4) \<and>
    (\<forall>e. find (\<lambda>e. fe_file_kind e = 0) (mf_files m) = Some e \<longrightarrow> fe_file_bytes e = length bytes)"
proof -
  from parse_steps [OF assms(1)] obtain sr fr where
    h: "read_header crc bytes = Inr (mf_header m)" and b: "mf_bytes m = bytes" and lo: "64 \<le> fst sr" "64 \<le> fst fr"
    and sr: "sr = (mh_section_table_offset (mf_header m), mh_section_table_offset (mf_header m) + 32 * mh_section_count (mf_header m))"
    and fr: "fr = (mh_file_table_offset (mf_header m), mh_file_table_offset (mf_header m) + 24 * mh_file_count (mf_header m))"
    and hi: "snd sr \<le> length bytes" "snd fr \<le> length bytes"
    and s: "read_sections crc bytes sr fr None [0..<mh_section_count (mf_header m)] = Inr (mf_sections m)"
    and f: "read_files bytes (fst fr) [0..<mh_file_count (mf_header m)] = Inr (mf_files m)"
    and self: "check_self bytes (mf_files m) = Inr ()" .
  have tables: "table_ranges m = {fst sr..<snd sr} \<union> {fst fr..<snd fr}" by (simp add: table_ranges_def sr fr)
  note sound = read_sections_sound [OF s] and files = read_files_sound [OF f]
  have each: "64 \<le> se_offset e \<and> se_offset e + se_length e \<le> length bytes - 16 \<and>
       {se_offset e..<se_offset e + se_length e} \<inter> table_ranges m = {} \<and>
       section_bytes m (se_kind e) = Some (slice (se_offset e) (se_length e) bytes) \<and>
       crc (slice (se_offset e) (se_length e) bytes) = se_crc32c e" if e: "e \<in> set (mf_sections m)" for e
  proof -
    have ok: "section_sound crc bytes sr fr e" using sound e by (simp add: list_all_iff)
    then have "section_bytes m (se_kind e) = Some (slice (se_offset e) (se_length e) (mf_bytes m))"
      using sound by (intro section_bytes_sound [OF _ e]) (auto simp: section_sound_def b)
    with ok show ?thesis by (simp add: section_sound_def tables b)
  qed
  have "fe_file_bytes e = length bytes" if "find (\<lambda>e. fe_file_kind e = 0) (mf_files m) = Some e" for e
    using self that by (simp add: check_self_def frame_consts split: if_splits)
  then show ?thesis
    using each sound files lo hi header_counts [OF h] by (auto simp: tables b)
qed

theorem parse_sound_witness:
  "\<exists>bytes m e. parse (\<lambda>_. 0) bytes = Inr m \<and> e \<in> set (mf_sections m) \<and>
     section_bytes m (se_kind e) = Some (slice (se_offset e) (se_length e) bytes) \<and> 64 \<le> se_offset e"
proof -
  have ok: "builder_ok two_sections" by (simp add: builder_ok_def two_sections_def)
  have zero: "(\<lambda>_. 0 :: nat) x < 2 ^ 32" for x :: "byte list" by simp
  define ss where "ss = sort_key fst (mb_sections two_sections)"
  define ft where "ft = 64 + 32 * length ss"
  define pa where "pa = ft + 24 * (length (mb_files two_sections) + 1)"
  define out where "out = fill_manifest (\<lambda>_. 0) two_sections ss ft pa (manifest_size two_sections)"
  have image: "manifest_image (\<lambda>_. 0) two_sections ss ft pa (manifest_size two_sections) out"
    unfolding out_def by (rule fill_manifest_image) (simp_all add: ft_def pa_def manifest_size_def ss_def payload_sum_sort)
  have p: "parse (\<lambda>_. 0) out = Inr (manifest_of (\<lambda>_. 0) two_sections out)"
    using parse_image [OF ok zero _ _ ss_def ft_def pa_def image]
    by (simp add: supported_def two_sections_def manifest_size_def usize_max_def)
  define e where "e = section_of (\<lambda>_. 0) pa ss 0"
  have "e \<in> set (mf_sections (manifest_of (\<lambda>_. 0) two_sections out))"
    by (simp add: manifest_of_def Let_def two_sections_def e_def pa_def ft_def ss_def)
  with parse_sound [OF p] p show ?thesis by blast
qed

end
