(* ===== verification/Float64.thy ===== *)
theory Float64
  imports Prelude "HOL-Library.Log_Nat" Complex_Main
begin

text \<open>
  The part of \<^verbatim>\<open>f64\<close> that the entropy coder uses: positive values of the normal
  range, as the rational numbers they stand for.  An operation gives the exact
  result rounded to 53 bits, to the nearest value and to the even one of two
  (the rule of IEEE 754 that Rust prescribes).
\<close>

definition round_half_even :: "rat \<Rightarrow> int" where
  "round_half_even y =
     (let f = \<lfloor>y\<rfloor>; r = y - of_int f in
      if r < 1 / 2 then f else if 1 / 2 < r then f + 1 else if even f then f else f + 1)"

text \<open>The exponent of the last of 53 binary places of a positive number.\<close>

definition last_place :: "rat \<Rightarrow> int" where
  "last_place x =
     (let (a, b) = quotient_of x; k = bitlen a - bitlen b in if 2 powi k \<le> x then k - 52 else k - 53)"

definition f64_round :: "rat \<Rightarrow> rat" where
  "f64_round x = (let u = 2 powi last_place x in of_int (round_half_even (x / u)) * u)"

text \<open>The conversion \<^verbatim>\<open>u64 as f64\<close> and division.\<close>

definition f64_of_u64 :: "nat \<Rightarrow> rat" where
  "f64_of_u64 n = (if n = 0 then 0 else f64_round (of_nat n))"

definition f64_divide :: "rat \<Rightarrow> rat \<Rightarrow> rat" where
  "f64_divide x y = f64_round (x / y)"

section \<open>The rounding error\<close>

lemma round_half_even_error: "\<bar>of_int (round_half_even y) - y\<bar> \<le> 1 / 2"
proof -
  have "of_int \<lfloor>y\<rfloor> \<le> y" "y < of_int \<lfloor>y\<rfloor> + 1" by linarith+
  then show ?thesis by (auto simp: round_half_even_def Let_def abs_le_iff)
qed

lemma bitlen_rat: "0 < a \<Longrightarrow> (2 :: rat) powi (bitlen a - 1) \<le> of_int a \<and> of_int a < (2 :: rat) powi bitlen a"
proof -
  assume a: "0 < a"
  then have "1 \<le> bitlen a" by (simp add: bitlen_alt_def)
  moreover have "of_int (2 ^ nat (bitlen a - 1)) \<le> (of_int a :: rat)" "(of_int a :: rat) < of_int (2 ^ nat (bitlen a))"
    using bitlen_bounds [OF a] by (simp_all only: of_int_le_iff of_int_less_iff)
  ultimately show ?thesis by (simp add: power_int_def)
qed

lemma last_place_le:
  assumes "0 < x"
  shows "2 ^ 52 * 2 powi last_place x \<le> x"
proof -
  obtain a b where ab: "quotient_of x = (a, b)" by fastforce
  then have x: "x = of_int a / of_int b" and b: "0 < b" by (rule quotient_of_div, rule quotient_of_denom_pos)
  then have a: "0 < a" using assms by (simp add: zero_less_divide_iff)
  define k where "k = bitlen a - bitlen b"
  have "(2 :: rat) powi (k - 1) = 2 powi (bitlen a - 1) / 2 powi bitlen b"
    by (simp add: k_def power_int_diff [symmetric] algebra_simps)
  also have "\<dots> \<le> of_int a / of_int b"
    using bitlen_rat [OF a] bitlen_rat [OF b] a b by (intro frac_le) auto
  finally have low: "2 powi (k - 1) \<le> x" by (simp add: x)
  have shift: "2 ^ 52 * (2 :: rat) powi (j - 52) = 2 powi j" for j by (simp add: power_int_diff)
  show ?thesis using low shift [of k] shift [of "k - 1"] by (auto simp: last_place_def ab k_def Let_def)
qed

lemma f64_round_error: "0 < x \<Longrightarrow> \<bar>f64_round x - x\<bar> \<le> x / 2 ^ 53"
proof -
  assume x: "0 < x"
  define u where "u = (2 :: rat) powi last_place x"
  have u: "0 < u" by (simp add: u_def)
  have "f64_round x - x = (of_int (round_half_even (x / u)) - x / u) * u"
    using u by (simp add: f64_round_def Let_def u_def [symmetric] field_simps)
  then have "\<bar>f64_round x - x\<bar> = \<bar>of_int (round_half_even (x / u)) - x / u\<bar> * u" using u by (simp add: abs_mult)
  also have "\<dots> \<le> 1 / 2 * u" using round_half_even_error u by (intro mult_right_mono) simp_all
  also have "\<dots> \<le> x / 2 ^ 53" using last_place_le [OF x] by (simp add: u_def)
  finally show ?thesis .
qed

end
