(* ===== verification/Rans.thy ===== *)
theory Rans
  imports Buffers Float64
begin

text \<open>
  The rANS entropy coder for packed nibbles
  (\<^verbatim>\<open>logan-compiler/src/codec/rans256.rs\<close>): a frequency table of sixteen symbols,
  256 interleaved streams, and the record that holds them.  States are \<^verbatim>\<open>u32\<close>
  values, written as natural numbers with the wrap-around of each operation.
  Errors are the messages of \<^verbatim>\<open>ColicError::Usage\<close>.
\<close>

unbundle bit_operations_syntax

section \<open>Constants and integers\<close>

definition n_streams :: nat where
  "n_streams = 256"

definition scale_bits :: nat where
  "scale_bits = 14"

definition scale_m :: nat where
  "scale_m = 2 ^ scale_bits"

definition rans_l :: nat where
  "rans_l = 2 ^ 23"

definition table_blob_bytes :: nat where
  "table_blob_bytes = 160"

definition auto_min_savings_bps :: nat where
  "auto_min_savings_bps = 500"

definition auto_min_savings_bytes :: nat where
  "auto_min_savings_bytes = 256"

definition readable_slack :: nat where
  "readable_slack = 64"

lemmas rans_consts = n_streams_def scale_bits_def scale_m_def rans_l_def

definition wrap_u32 :: "nat \<Rightarrow> nat" where
  "wrap_u32 x = x mod (u32_max + 1)"

definition checked_add_u32 :: "nat \<Rightarrow> nat \<Rightarrow> nat option" where
  "checked_add_u32 a b = (if a + b \<le> u32_max then Some (a + b) else None)"

definition checked_mul_u32 :: "nat \<Rightarrow> nat \<Rightarrow> nat option" where
  "checked_mul_u32 a b = (if a * b \<le> u32_max then Some (a * b) else None)"

definition round16 :: "nat \<Rightarrow> nat" where
  "round16 v = (v + 15) div 16 * 16"

section \<open>Bytes at an offset\<close>

definition at_bytes :: "nat \<Rightarrow> string \<Rightarrow> byte list \<Rightarrow> nat \<Rightarrow> string + nat" where
  "at_bytes k msg bs off = (if off + k \<le> length bs then Inr (le_nat (take k (drop off bs))) else Inl msg)"

definition u16_at :: "byte list \<Rightarrow> nat \<Rightarrow> string + nat" where
  "u16_at = at_bytes 2 ''truncated rANS u16''"

definition u32_at :: "byte list \<Rightarrow> nat \<Rightarrow> string + nat" where
  "u32_at = at_bytes 4 ''truncated rANS u32''"

definition u64_at :: "byte list \<Rightarrow> nat \<Rightarrow> string + nat" where
  "u64_at = at_bytes 8 ''truncated rANS u64''"

definition put_u16 :: "byte list \<Rightarrow> nat \<Rightarrow> nat \<Rightarrow> byte list" where
  "put_u16 bs off v = put_bytes off (le_bytes 2 v) bs"

definition put_u32 :: "byte list \<Rightarrow> nat \<Rightarrow> nat \<Rightarrow> byte list" where
  "put_u32 bs off v = put_bytes off (le_bytes 4 v) bs"

definition put_u64 :: "byte list \<Rightarrow> nat \<Rightarrow> nat \<Rightarrow> byte list" where
  "put_u64 bs off v = put_bytes off (le_bytes 8 v) bs"

section \<open>The table\<close>

text \<open>Two arrays of sixteen \<^verbatim>\<open>u32\<close>.\<close>

record rans_table =
  tb_freq :: "nat list"
  tb_start :: "nat list"

definition table_type :: "rans_table \<Rightarrow> bool" where
  "table_type t \<longleftrightarrow> length (tb_freq t) = 16 \<and> length (tb_start t) = 16 \<and>
     list_all (\<lambda>x. x \<le> u32_max) (tb_freq t) \<and> list_all (\<lambda>x. x \<le> u32_max) (tb_start t)"

fun validate_from :: "nat list \<Rightarrow> nat list \<Rightarrow> nat \<Rightarrow> string + nat" where
  "validate_from (f # fs) (s # ss) cursor =
     (if s \<noteq> cursor then Inl ''rANS table starts are not the prefix sum of frequencies''
      else case checked_add_u32 cursor f of
             None \<Rightarrow> Inl ''rANS table sum overflows u32''
           | Some cursor' \<Rightarrow> validate_from fs ss cursor')"
| "validate_from _ _ cursor = Inr cursor"

definition validate_table :: "rans_table \<Rightarrow> string + unit" where
  "validate_table t =
     (case validate_from (tb_freq t) (tb_start t) 0 of
        Inl e \<Rightarrow> Inl e
      | Inr cursor \<Rightarrow>
          if cursor \<noteq> scale_m then Inl ''rANS table frequencies do not sum to the scale'' else Inr ())"

definition fill_slots :: "rans_table \<Rightarrow> nat \<Rightarrow> nat list \<Rightarrow> nat list" where
  "fill_slots t symbol slots =
     (let begin = tb_start t ! symbol; finish = begin + tb_freq t ! symbol in
      take begin slots @ replicate (finish - begin) symbol @ drop finish slots)"

definition slot_to_symbol :: "rans_table \<Rightarrow> string + nat list" where
  "slot_to_symbol t =
     (case validate_table t of
        Inl e \<Rightarrow> Inl e
      | Inr _ \<Rightarrow> Inr (fold (fill_slots t) [0..<16] (replicate scale_m 0)))"

section \<open>One stream\<close>

text \<open>The normalization loop: \<^verbatim>\<open>while state >= x_max\<close>; a threshold of zero would never end it.\<close>

function renorm_encode :: "nat \<Rightarrow> nat \<Rightarrow> byte list \<Rightarrow> nat \<times> byte list" where
  "renorm_encode x_max state out =
     (if x_max = 0 \<or> state < x_max then (state, out)
      else renorm_encode x_max (state div 256) (out @ [word_of_nat (state mod 256)]))"
  by pat_completeness auto

termination renorm_encode
  by (relation "measure (\<lambda>(x_max, state, out). state)") (auto intro: div_less_dividend)

declare renorm_encode.simps [simp del]

definition encode_symbol :: "rans_table \<Rightarrow> byte \<Rightarrow> nat \<times> byte list \<Rightarrow> string + nat \<times> byte list" where
  "encode_symbol t symbol = (\<lambda>(state, out).
     if unat symbol > 15 \<or> tb_freq t ! unat symbol = 0
     then Inl ''rANS input contains a symbol absent from its table''
     else
       let frequency = tb_freq t ! unat symbol; start = tb_start t ! unat symbol in
       case checked_mul_u32 (rans_l div 2 ^ scale_bits * 256) frequency of
         None \<Rightarrow> Inl ''rANS normalization threshold overflows''
       | Some x_max \<Rightarrow>
           (case renorm_encode x_max state out of
              (state', out') \<Rightarrow>
                Inr (wrap_u32 (wrap_u32 (state' div frequency * 2 ^ scale_bits) + state' mod frequency + start), out')))"

fun encode_symbols :: "rans_table \<Rightarrow> byte list \<Rightarrow> nat \<times> byte list \<Rightarrow> string + nat \<times> byte list" where
  "encode_symbols t [] acc = Inr acc"
| "encode_symbols t (s # ss) acc =
     (case encode_symbol t s acc of Inl e \<Rightarrow> Inl e | Inr acc' \<Rightarrow> encode_symbols t ss acc')"

definition encode_stream :: "byte list \<Rightarrow> rans_table \<Rightarrow> string + byte list" where
  "encode_stream symbols t =
     (case encode_symbols t (rev symbols) (rans_l, []) of
        Inl e \<Rightarrow> Inl e
      | Inr (state, out) \<Rightarrow> Inr (rev (out @ le_bytes 4 state)))"

text \<open>The cursor is the rest of the stream behind it.\<close>

fun renorm_decode :: "nat \<Rightarrow> byte list \<Rightarrow> nat \<times> byte list" where
  "renorm_decode state [] = (state, [])"
| "renorm_decode state (b # bs) =
     (if state < rans_l then renorm_decode (wrap_u32 (state * 256) + unat b) bs else (state, b # bs))"

fun decode_symbols :: "rans_table \<Rightarrow> nat list \<Rightarrow> nat \<Rightarrow> nat \<Rightarrow> byte list \<Rightarrow> byte list \<times> nat \<times> byte list" where
  "decode_symbols t slots 0 state bs = ([], state, bs)"
| "decode_symbols t slots (Suc n) state bs =
     (let slot = state mod scale_m;
          symbol = slots ! slot;
          state' = wrap_u32 (tb_freq t ! symbol * (state div 2 ^ scale_bits) + slot) - tb_start t ! symbol;
          (state'', bs') = renorm_decode state' bs;
          (rest, final) = decode_symbols t slots n state'' bs'
      in (word_of_nat symbol # rest, final))"

definition decode_stream_checked :: "byte list \<Rightarrow> nat \<Rightarrow> rans_table \<Rightarrow> nat list \<Rightarrow> string + byte list" where
  "decode_stream_checked stream symbols t slots =
     (if length stream < 4 then Inl ''rANS stream is shorter than its state''
      else
        let state = le_nat (rev (take 4 stream)) in
        if state < rans_l then Inl ''rANS initial state is out of range''
        else
          (case decode_symbols t slots symbols state (drop 4 stream) of
             (out, final, rest) \<Rightarrow>
               if rest \<noteq> [] then Inl ''rANS stream has trailing bytes''
               else if final \<noteq> rans_l then Inl ''rANS stream final state is invalid''
               else Inr out))"

section \<open>Records\<close>

text \<open>The nibble at a logical position: the low half of a byte first.\<close>

definition nibble :: "byte list \<Rightarrow> nat \<Rightarrow> byte" where
  "nibble input logical =
     (if even logical then input ! (logical div 2) AND 0x0F else drop_bit 4 (input ! (logical div 2)))"

function gather :: "byte list \<Rightarrow> nat \<Rightarrow> nat \<Rightarrow> byte list" where
  "gather input n logical =
     (if logical < n then nibble input logical # gather input n (logical + n_streams) else [])"
  by pat_completeness auto

termination gather
  by (relation "measure (\<lambda>(input, n, logical). n - logical)") (auto simp: n_streams_def)

declare gather.simps [simp del]

fun encode_streams :: "byte list \<Rightarrow> rans_table \<Rightarrow> nat \<Rightarrow> nat list \<Rightarrow> string + byte list list" where
  "encode_streams input t n [] = Inr []"
| "encode_streams input t n (stream # rest) =
     (case encode_stream (gather input n stream) t of
        Inl e \<Rightarrow> Inl e
      | Inr bs \<Rightarrow>
          (case encode_streams input t n rest of Inl e \<Rightarrow> Inl e | Inr bss \<Rightarrow> Inr (bs # bss)))"

fun sum_lengths :: "byte list list \<Rightarrow> nat \<Rightarrow> string + nat" where
  "sum_lengths [] acc = Inr acc"
| "sum_lengths (s # ss) acc =
     (case checked_add_usize acc (length s) of
        None \<Rightarrow> Inl ''rANS payload size overflows usize''
      | Some acc' \<Rightarrow> sum_lengths ss acc')"

definition record_header :: nat where
  "record_header = round16 (16 + (n_streams + 1) * 4)"

text \<open>The loop that writes the offset and the bytes of each stream.\<close>

fun place_streams :: "byte list list \<Rightarrow> nat \<Rightarrow> nat \<Rightarrow> byte list \<Rightarrow> nat \<times> byte list" where
  "place_streams [] index cursor out = (cursor, out)"
| "place_streams (s # ss) index cursor out =
     place_streams ss (index + 1) (cursor + length s)
       (put_bytes (record_header + cursor) s (put_u32 out (16 + index * 4) (wrap_u32 cursor)))"

definition encode_bytes :: "byte list \<Rightarrow> rans_table \<Rightarrow> string + byte list" where
  "encode_bytes input t =
     (case validate_table t of
        Inl e \<Rightarrow> Inl e
      | Inr _ \<Rightarrow>
          if input = [] then Inl ''rANS cannot encode an empty matrix''
          else (case checked_mul_usize (length input) 2 of
            None \<Rightarrow> Inl ''rANS symbol count overflows usize''
          | Some n \<Rightarrow>
              (case encode_streams input t n [0..<n_streams] of
                 Inl e \<Rightarrow> Inl e
               | Inr streams \<Rightarrow>
                   (case sum_lengths streams 0 of
                      Inl e \<Rightarrow> Inl e
                    | Inr payload \<Rightarrow>
                        if payload > u32_max then Inl ''rANS payload exceeds 32-bit stream-offset contract''
                        else (case checked_add_usize record_header (round16 payload) of
                          None \<Rightarrow> Inl ''rANS record size overflows usize''
                        | Some rec_bytes \<Rightarrow>
                            (let out = put_u64 (put_u64 (replicate rec_bytes 0) 0 n) 8 (length input) in
                             case place_streams streams 0 0 out of
                               (cursor, out') \<Rightarrow> Inr (put_u32 out' (16 + n_streams * 4) (wrap_u32 cursor))))))))"

record parsed_record =
  pd_n_symbols :: nat
  pd_packed_bytes :: nat
  pd_offsets :: "nat list"
  pd_payload :: "byte list"

fun read_offsets :: "byte list \<Rightarrow> nat list \<Rightarrow> string + nat list" where
  "read_offsets rec [] = Inr []"
| "read_offsets rec (i # is) =
     (case u32_at rec (16 + i * 4) of
        Inl e \<Rightarrow> Inl e
      | Inr x \<Rightarrow> (case read_offsets rec is of Inl e \<Rightarrow> Inl e | Inr xs \<Rightarrow> Inr (x # xs)))"

fun offsets_ok :: "nat list \<Rightarrow> bool" where
  "offsets_ok (a # b # xs) \<longleftrightarrow> a \<le> b \<and> 4 \<le> b - a \<and> offsets_ok (b # xs)"
| "offsets_ok _ \<longleftrightarrow> True"

definition parse_record :: "byte list \<Rightarrow> string + parsed_record" where
  "parse_record rec =
     (if length rec < record_header then Inl ''truncated rANS record''
      else (case u64_at rec 0 of
        Inl e \<Rightarrow> Inl e
      | Inr n \<Rightarrow>
      (case u64_at rec 8 of
        Inl e \<Rightarrow> Inl e
      | Inr packed \<Rightarrow>
          if n = 0 \<or> packed \<noteq> n div 2 + n mod 2 then Inl ''invalid rANS symbol/byte counts''
          else
      (case read_offsets rec [0..<n_streams + 1] of
        Inl e \<Rightarrow> Inl e
      | Inr offsets \<Rightarrow>
          if offsets ! 0 \<noteq> 0 then Inl ''rANS first stream offset is nonzero''
          else if \<not> offsets_ok offsets then Inl ''rANS stream offsets are malformed''
          else
            let payload = offsets ! n_streams in
            (case checked_add_usize record_header (round16 payload) of
              None \<Rightarrow> Inl ''rANS record length overflows''
            | Some expected \<Rightarrow>
                if expected \<noteq> length rec \<or> length rec < record_header + payload
                then Inl ''rANS record length mismatch''
                else if list_ex (\<lambda>b. b \<noteq> 0) (drop (16 + (n_streams + 1) * 4) (take record_header rec)) \<or>
                  list_ex (\<lambda>b. b \<noteq> 0) (drop (record_header + payload) rec)
                then Inl ''rANS record padding is nonzero''
                else if payload * 8 * 2 ^ 15 < n then Inl ''rANS record exceeds amplification bound''
                else Inr \<lparr>pd_n_symbols = n, pd_packed_bytes = packed, pd_offsets = offsets,
                  pd_payload = take payload (drop record_header rec)\<rparr>)))))"

definition stream_symbol_count :: "nat \<Rightarrow> nat \<Rightarrow> nat" where
  "stream_symbol_count n stream =
     (if n \<le> stream then 0 else (n - 1 - stream) div n_streams + 1)"

definition put_nibble :: "nat \<Rightarrow> byte \<Rightarrow> byte list \<Rightarrow> byte list" where
  "put_nibble logical symbol out =
     (let i = logical div 2; b = out ! i in
      out[i := (if even logical then (b AND 0xF0) OR symbol else (b AND 0x0F) OR push_bit 4 symbol)])"

fun scatter :: "byte list \<Rightarrow> nat \<Rightarrow> byte list \<Rightarrow> byte list" where
  "scatter [] logical out = out"
| "scatter (s # ss) logical out = scatter ss (logical + n_streams) (put_nibble logical s out)"

fun decode_streams :: "parsed_record \<Rightarrow> rans_table \<Rightarrow> nat list \<Rightarrow> nat list \<Rightarrow> byte list \<Rightarrow> string + byte list" where
  "decode_streams p t slots [] out = Inr out"
| "decode_streams p t slots (stream # rest) out =
     (let begin = pd_offsets p ! stream; finish = pd_offsets p ! (stream + 1) in
      case decode_stream_checked (take (finish - begin) (drop begin (pd_payload p)))
             (stream_symbol_count (pd_n_symbols p) stream) t slots of
        Inl e \<Rightarrow> Inl e
      | Inr decoded \<Rightarrow> decode_streams p t slots rest (scatter decoded stream out))"

definition decode_bytes :: "byte list \<Rightarrow> rans_table \<Rightarrow> nat \<Rightarrow> string + byte list" where
  "decode_bytes rec t expected =
     (case validate_table t of
        Inl e \<Rightarrow> Inl e
      | Inr _ \<Rightarrow>
      (case parse_record rec of
        Inl e \<Rightarrow> Inl e
      | Inr p \<Rightarrow>
          if pd_packed_bytes p \<noteq> expected then Inl ''rANS decoded length does not match matrix descriptor''
          else (case checked_mul_usize expected 2 of
            None \<Rightarrow> Inl ''expected rANS symbol count overflows usize''
          | Some n \<Rightarrow>
              if pd_n_symbols p \<noteq> n then Inl ''rANS decoded length does not match matrix descriptor''
              else
      (case slot_to_symbol t of
        Inl e \<Rightarrow> Inl e
      | Inr slots \<Rightarrow> decode_streams p t slots [0..<n_streams] (replicate expected 0)))))"

definition auto_should_use :: "nat \<Rightarrow> nat \<Rightarrow> bool" where
  "auto_should_use raw encoded =
     (case checked_add_usize encoded readable_slack of
        None \<Rightarrow> False
      | Some with_slack \<Rightarrow>
          if raw \<le> with_slack then False
          else let saved = raw - with_slack in
               if saved < auto_min_savings_bytes then False
               else raw * auto_min_savings_bps \<le> saved * 10000)"

section \<open>The table as bytes\<close>

definition table_magic :: "byte list" where
  "table_magic = map (word_of_nat \<circ> of_char) ''COLIRN01''"

fun put_table :: "rans_table \<Rightarrow> nat list \<Rightarrow> byte list \<Rightarrow> byte list" where
  "put_table t [] blob = blob"
| "put_table t (s # ss) blob =
     put_table t ss (put_u32 (put_u32 blob (32 + s * 4) (tb_freq t ! s)) (96 + s * 4) (tb_start t ! s))"

definition encode_blob :: "rans_table \<Rightarrow> string + byte list" where
  "encode_blob t =
     (case validate_table t of
        Inl e \<Rightarrow> Inl e
      | Inr _ \<Rightarrow>
          (let b0 = put_bytes 0 table_magic (replicate table_blob_bytes 0);
               b1 = put_u16 b0 8 1;
               b2 = put_u16 b1 10 scale_bits;
               b3 = put_u32 b2 12 n_streams;
               b4 = put_u32 b3 16 auto_min_savings_bps;
               b5 = put_u32 b4 20 auto_min_savings_bytes
           in Inr (put_table t [0..<16] b5)))"

fun read_table :: "byte list \<Rightarrow> nat list \<Rightarrow> string + (nat list \<times> nat list)" where
  "read_table blob [] = Inr ([], [])"
| "read_table blob (s # ss) =
     (case u32_at blob (32 + s * 4) of
        Inl e \<Rightarrow> Inl e
      | Inr f \<Rightarrow>
      (case u32_at blob (96 + s * 4) of
        Inl e \<Rightarrow> Inl e
      | Inr c \<Rightarrow>
      (case read_table blob ss of Inl e \<Rightarrow> Inl e | Inr (fs, cs) \<Rightarrow> Inr (f # fs, c # cs))))"

definition decode_blob :: "byte list \<Rightarrow> string + rans_table" where
  "decode_blob blob =
     (if length blob \<noteq> table_blob_bytes \<or> take 8 blob \<noteq> table_magic \<or> u16_at blob 8 \<noteq> Inr 1 \<or>
         u16_at blob 10 \<noteq> Inr scale_bits \<or> u32_at blob 12 \<noteq> Inr n_streams \<or>
         u32_at blob 16 \<noteq> Inr auto_min_savings_bps \<or> u32_at blob 20 \<noteq> Inr auto_min_savings_bytes \<or>
         list_ex (\<lambda>b. b \<noteq> 0) (take 8 (drop 24 blob))
      then Inl ''invalid rANS256-g0-nibble codec table blob''
      else case read_table blob [0..<16] of
             Inl e \<Rightarrow> Inl e
           | Inr (fs, cs) \<Rightarrow>
               (let t = \<lparr>tb_freq = fs, tb_start = cs\<rparr> in
                case validate_table t of Inl e \<Rightarrow> Inl e | Inr _ \<Rightarrow> Inr t))"

section \<open>Building a table\<close>

text \<open>
  The share of a count in the total, scaled to the table: a conversion and a division,
  both rounded, and a product with a power of two, which is exact.  So is the
  difference of a share and its floor.
\<close>

definition raw_share :: "nat \<Rightarrow> nat \<Rightarrow> rat" where
  "raw_share all h = f64_divide (f64_of_u64 h) (f64_of_u64 all) * of_nat scale_m"

fun sum_counts :: "nat list \<Rightarrow> nat \<Rightarrow> nat option" where
  "sum_counts [] acc = Some acc"
| "sum_counts (h # hs) acc = (if acc + h \<le> u64_max then sum_counts hs (acc + h) else None)"

definition assigned :: "nat \<Rightarrow> nat \<Rightarrow> nat" where
  "assigned all h = (if h = 0 then 0 else max (min (nat \<lfloor>raw_share all h\<rfloor>) u32_max) 1)"

definition remainder_key :: "nat \<Rightarrow> nat \<Rightarrow> rat" where
  "remainder_key all h = (if h = 0 then -1 else raw_share all h - of_int \<lfloor>raw_share all h\<rfloor>)"

text \<open>One more slot for the symbols in order, until the deficit is covered.\<close>

fun grow_freqs :: "nat list \<Rightarrow> nat list \<Rightarrow> nat \<Rightarrow> nat list \<Rightarrow> string + nat \<times> nat list" where
  "grow_freqs hist [] deficit freq = Inr (deficit, freq)"
| "grow_freqs hist (s # order) deficit freq =
     (if deficit = 0 then Inr (deficit, freq)
      else if hist ! s \<noteq> 0 then
        (case checked_add_u32 (freq ! s) 1 of
           None \<Rightarrow> Inl ''rANS frequency overflows u32''
         | Some f \<Rightarrow> grow_freqs hist order (deficit - 1) (freq[s := f]))
      else grow_freqs hist order deficit freq)"

text \<open>The walk around one fixed order that takes slots back; \<open>excess\<close> is minus the deficit.\<close>

function shrink_freqs :: "nat list \<Rightarrow> nat \<Rightarrow> nat \<Rightarrow> nat list \<Rightarrow> string + nat list" where
  "shrink_freqs order excess cursor freq =
     (if excess = 0 then Inr freq
      else
        let s = order ! (cursor mod length order);
            (excess', freq') = (if 1 < freq ! s then (excess - 1, freq[s := freq ! s - 1]) else (excess, freq))
        in if cursor + 1 \<le> usize_max then shrink_freqs order excess' (cursor + 1) freq'
           else Inl ''rANS normalization cursor overflows'')"
  by pat_completeness auto

termination shrink_freqs
  by (relation "measure (\<lambda>(order, excess, cursor, freq). usize_max - cursor)") auto

declare shrink_freqs.simps [simp del]

fun starts_from :: "nat list \<Rightarrow> nat \<Rightarrow> string + nat list \<times> nat" where
  "starts_from [] cursor = Inr ([], cursor)"
| "starts_from (f # fs) cursor =
     (case checked_add_u32 cursor f of
        None \<Rightarrow> Inl ''rANS start table overflows u32''
      | Some cursor' \<Rightarrow>
          (case starts_from fs cursor' of Inl e \<Rightarrow> Inl e | Inr (ss, final) \<Rightarrow> Inr (cursor # ss, final)))"

definition normalize_freqs :: "nat list \<Rightarrow> nat \<Rightarrow> string + nat list" where
  "normalize_freqs hist all =
     (let freq = map (assigned all) hist; n = sum_list freq in
      if n < scale_m then
        (case grow_freqs hist (sort_key (\<lambda>s. - remainder_key all (hist ! s)) [0..<16]) (scale_m - n) freq of
           Inl e \<Rightarrow> Inl e
         | Inr (deficit, freq') \<Rightarrow>
             if deficit \<noteq> 0 then Inl ''rANS largest-remainder normalization left a positive deficit''
             else Inr freq')
      else if scale_m < n then
        shrink_freqs (sort_key (\<lambda>s. - int (freq ! s)) [0..<16]) (n - scale_m) 0 freq
      else Inr freq)"

definition from_histogram :: "nat list \<Rightarrow> string + rans_table" where
  "from_histogram hist =
     (case sum_counts hist 0 of
        None \<Rightarrow> Inl ''rANS histogram total overflows u64''
      | Some all \<Rightarrow>
          if all = 0 then Inl ''rANS table requires at least one nibble''
          else if scale_m < length (filter (\<lambda>h. h \<noteq> 0) hist)
          then Inl ''rANS table scale cannot represent every present symbol''
          else
            (case normalize_freqs hist all of
               Inl e \<Rightarrow> Inl e
             | Inr freq \<Rightarrow>
                 (case starts_from freq 0 of
                    Inl e \<Rightarrow> Inl e
                  | Inr (start, cursor) \<Rightarrow>
                      if cursor \<noteq> scale_m then 
                        Inl (''rANS frequency sum is '' @ show_nat cursor @ '', expected '' @ show_nat scale_m)
                      else Inr \<lparr>tb_freq = freq, tb_start = start\<rparr>)))"

text \<open>The nibble counts of some byte strings; \<open>None\<close> is the overflow of a counter.\<close>

definition count_nibble :: "byte \<Rightarrow> nat list \<Rightarrow> nat list option" where
  "count_nibble s hist =
     (if hist ! unat s + 1 \<le> u64_max then Some (hist[unat s := hist ! unat s + 1]) else None)"

fun histogram_from :: "byte list \<Rightarrow> nat list \<Rightarrow> string + nat list" where
  "histogram_from [] hist = Inr hist"
| "histogram_from (b # bs) hist =
     (case count_nibble (b AND 0x0F) hist of
        None \<Rightarrow> Inl ''rANS histogram overflows u64''
      | Some hist1 \<Rightarrow>
          (case count_nibble (drop_bit 4 b) hist1 of
             None \<Rightarrow> Inl ''rANS histogram overflows u64''
           | Some hist2 \<Rightarrow> histogram_from bs hist2))"

definition histogram_bytes :: "byte list list \<Rightarrow> string + nat list" where
  "histogram_bytes chunks = histogram_from (concat chunks) (replicate 16 0)"

end
