(* ===== verification/Rans_Props.thy ===== *)
theory Rans_Props
  imports Rans
begin

text \<open>
  The entropy coder loses nothing: what \<open>encode_bytes\<close> writes, \<open>decode_bytes\<close>
  reads back.  One symbol is the heart of it: normalization emits exactly the
  bytes that the decoder will ask for, and the state arithmetic is inverted by
  the slot table.
\<close>

section \<open>Valid tables\<close>

definition valid_table :: "rans_table \<Rightarrow> bool" where
  "valid_table t \<longleftrightarrow> table_type t \<and> validate_table t = Inr ()"

lemma validate_from_sums:
  assumes "validate_from fs ss c = Inr c'" "length fs = length ss"
  shows "c' = c + sum_list fs \<and> (\<forall>i < length fs. ss ! i = c + sum_list (take i fs))"
  using assms
proof (induction fs ss c rule: validate_from.induct)
  case (1 f fs s ss c)
  then have "c' = c + f + sum_list fs \<and> (\<forall>i < length fs. ss ! i = c + f + sum_list (take i fs))" "s = c"
    by (auto simp: checked_add_u32_def split: if_splits)
  then show ?case by (auto simp: nth_Cons split: nat.split)
qed auto

lemma valid_sums:
  assumes "valid_table t"
  shows "length (tb_freq t) = 16" "sum_list (tb_freq t) = scale_m"
    "\<And>s. s < 16 \<Longrightarrow> tb_start t ! s = sum_list (take s (tb_freq t))"
proof -
  have len: "length (tb_freq t) = 16" "length (tb_start t) = 16"
    using assms by (simp_all add: valid_table_def table_type_def)
  have run: "validate_from (tb_freq t) (tb_start t) 0 = Inr scale_m"
    using assms by (auto simp: valid_table_def validate_table_def split: sum.splits if_splits)
  show "length (tb_freq t) = 16" "sum_list (tb_freq t) = scale_m"
    "\<And>s. s < 16 \<Longrightarrow> tb_start t ! s = sum_list (take s (tb_freq t))"
    using validate_from_sums [OF run] len by simp_all
qed

lemma next_start:
  assumes "valid_table t" "s < 16"
  shows "tb_start t ! s + tb_freq t ! s = sum_list (take (Suc s) (tb_freq t))"
  using valid_sums [OF assms(1)] assms(2) by (simp add: take_Suc_conv_app_nth)

lemma sum_take_mono: "i \<le> j \<Longrightarrow> sum_list (take i xs) \<le> sum_list (take j xs)" for xs :: "nat list"
proof -
  assume "i \<le> j"
  then have "take j xs = take i xs @ take (j - i) (drop i xs)" by (metis le_add_diff_inverse take_add)
  then show ?thesis by simp
qed

lemma sum_take_le: "sum_list (take i xs) \<le> sum_list xs" for xs :: "nat list"
  by (metis append_take_drop_id le_add1 sum_list_append)

lemma start_bound:
  assumes "valid_table t" "s < 16"
  shows "tb_start t ! s + tb_freq t ! s \<le> scale_m"
  unfolding next_start [OF assms] using sum_take_le [of "Suc s" "tb_freq t"] valid_sums(2) [OF assms(1)] by simp

lemma start_ordered:
  assumes "valid_table t" "s < r" "r < 16"
  shows "tb_start t ! s + tb_freq t ! s \<le> tb_start t ! r"
  using next_start [OF assms(1), of s] valid_sums(3) [OF assms(1), of r] assms(2,3) sum_take_mono [of "Suc s" r "tb_freq t"]
  by simp

definition good_slots :: "rans_table \<Rightarrow> nat \<Rightarrow> nat list \<Rightarrow> bool" where
  "good_slots t k slots \<longleftrightarrow> length slots = scale_m \<and>
     (\<forall>s < k. \<forall>x. tb_start t ! s \<le> x \<and> x < tb_start t ! s + tb_freq t ! s \<longrightarrow> slots ! x = s)"

lemma good_slots_fill:
  assumes valid: "valid_table t" and k: "k < 16" and good: "good_slots t k slots"
  shows "good_slots t (Suc k) (fill_slots t k slots)"
proof -
  let ?b = "tb_start t ! k" and ?e = "tb_start t ! k + tb_freq t ! k"
  have len: "length slots = scale_m" and le: "?e \<le> scale_m"
    using good start_bound [OF valid k] by (simp_all add: good_slots_def)
  have nth: "fill_slots t k slots ! x = (if ?b \<le> x \<and> x < ?e then k else slots ! x)" if "x < scale_m" for x
    using that len le by (auto simp: fill_slots_def Let_def nth_append min_def)
  have "fill_slots t k slots ! x = s"
    if "s < Suc k" and x: "tb_start t ! s \<le> x" "x < tb_start t ! s + tb_freq t ! s" for s x
  proof (cases "s = k")
    case True
    with x le show ?thesis by (simp add: nth)
  next
    case False
    with that(1) have "s < k" by simp
    with start_ordered [OF valid this k] x le have "x < ?b" "x < scale_m" by simp_all
    then show ?thesis using good x \<open>s < k\<close> by (simp add: nth good_slots_def)
  qed
  moreover have "length (fill_slots t k slots) = scale_m" using len le by (simp add: fill_slots_def Let_def)
  ultimately show ?thesis by (simp add: good_slots_def)
qed

lemma slots_good:
  assumes valid: "valid_table t"
  obtains slots where "slot_to_symbol t = Inr slots" "good_slots t 16 slots"
proof -
  have "good_slots t k (fold (fill_slots t) [0..<k] (replicate scale_m 0))" if "k \<le> 16" for k
    using that
  proof (induction k)
    case (Suc k)
    then show ?case using good_slots_fill [OF valid, of k] by simp
  qed (simp add: good_slots_def)
  with valid that show thesis by (simp add: slot_to_symbol_def valid_table_def)
qed

section \<open>One symbol\<close>

lemma renorm_spec:
  assumes "renorm_encode xm x out = (y, out')" "0 < xm" "x < 2 ^ 31"
  shows "\<exists>em. out' = out @ em \<and> y < xm \<and> (y = x \<or> xm div 256 \<le> y) \<and>
    (\<forall>rest. renorm_decode y (rev em @ rest) = renorm_decode x rest)"
  using assms
proof (induction xm x out rule: renorm_encode.induct)
  case (1 xm x out)
  show ?case
  proof (cases "x < xm")
    case True
    with 1 show ?thesis by (simp add: renorm_encode.simps [of xm x])
  next
    case False
    let ?b = "word_of_nat (x mod 256) :: byte"
    have run: "renorm_encode xm (x div 256) (out @ [?b]) = (y, out')"
      using 1(2) False 1(3) by (simp add: renorm_encode.simps [of xm x])
    have "x div 256 < 2 ^ 31" using 1(4) by (rule le_less_trans [OF div_le_dividend])
    from 1(1) [OF _ run 1(3) this] False 1(3) obtain em where em: "out' = (out @ [?b]) @ em" "y < xm"
      "y = x div 256 \<or> xm div 256 \<le> y" "\<forall>rest. renorm_decode y (rev em @ rest) = renorm_decode (x div 256) rest"
      by auto
    have small: "x div 256 < rans_l" using 1(4) by (simp add: rans_l_def)
    then have "wrap_u32 (x div 256 * 256) + unat ?b = x"
      using 1(4) by (simp add: wrap_u32_def u32_max_def unat_byte_of_nat)
    then have "renorm_decode (x div 256) (?b # rest) = renorm_decode x rest" for rest using small by simp
    then have "renorm_decode y (rev (?b # em) @ rest) = renorm_decode x rest" for rest
      using em(4) by simp
    moreover have "xm div 256 \<le> y" using em(3) False by (auto intro: div_le_mono)
    ultimately show ?thesis using em(1,2) by (intro exI [of _ "?b # em"]) simp
  qed
qed

lemma renorm_decode_done: "rans_l \<le> x \<Longrightarrow> renorm_decode x rest = (x, rest)"
  by (cases rest) simp_all

lemma wrap_u32_small: "x < 2 ^ 31 \<Longrightarrow> wrap_u32 x = x"
  by (simp add: wrap_u32_def u32_max_def)

lemma state_bounds:
  assumes "512 \<le> q" "q < 131072" "r < (16384 :: nat)"
  shows "rans_l \<le> q * 16384 + r" "q * 16384 + r < 2 ^ 31" "(q * 16384 + r) mod 16384 = r" "(q * 16384 + r) div 16384 = q"
  using assms by (simp_all add: rans_l_def)

lemma encode_symbol_spec:
  assumes valid: "valid_table t" and good: "good_slots t 16 slots"
    and s: "unat s < 16" "tb_freq t ! unat s \<noteq> 0" and x: "rans_l \<le> x" "x < 2 ^ 31"
  obtains x' em where "encode_symbol t s (x, out) = Inr (x', out @ em)" "rans_l \<le> x'" "x' < 2 ^ 31"
    "\<And>n rest. decode_symbols t slots (Suc n) x' (rev em @ rest) =
       (case decode_symbols t slots n x rest of (ss, final) \<Rightarrow> (s # ss, final))"
proof -
  let ?f = "tb_freq t ! unat s" and ?c = "tb_start t ! unat s"
  have fM: "?c + ?f \<le> 16384" using start_bound [OF valid s(1)] by (simp add: rans_consts)
  obtain y out' where run: "renorm_encode (131072 * ?f) x out = (y, out')" by force
  from renorm_spec [OF this _ x(2)] s(2) obtain em where em: "out' = out @ em" "y < 131072 * ?f"
    "y = x \<or> 131072 * ?f div 256 \<le> y" "\<And>rest. renorm_decode y (rev em @ rest) = renorm_decode x rest" by auto
  have low: "512 * ?f \<le> y"
    using em(3) x(1) fM by (auto simp: rans_l_def)
  have q: "512 \<le> y div ?f" "y div ?f < 131072"
    using low em(2) s(2) by (simp_all add: less_eq_div_iff_mult_less_eq div_less_iff_less_mult mult.commute)
  have slot: "y mod ?f + ?c < 16384" using fM s(2) mod_less_divisor [of ?f y] by linarith
  let ?x = "y div ?f * 16384 + (y mod ?f + ?c)"
  have x': "rans_l \<le> ?x" "?x < 2 ^ 31" "?x mod 16384 = y mod ?f + ?c" "?x div 16384 = y div ?f"
    using state_bounds [OF q slot] by simp_all
  have enc: "encode_symbol t s (x, out) = Inr (?x, out @ em)"
  proof -
    have "checked_mul_u32 (rans_l div 2 ^ scale_bits * 256) ?f = Some (131072 * ?f)"
      using fM by (simp add: checked_mul_u32_def rans_l_def scale_bits_def u32_max_def)
    moreover have "wrap_u32 (wrap_u32 (y div ?f * 2 ^ scale_bits) + y mod ?f + ?c) = ?x"
      using x'(2) q(2) by (simp add: wrap_u32_small scale_bits_def)
    ultimately show ?thesis using s run em(1) by (simp add: encode_symbol_def Let_def)
  qed
  have "slots ! (y mod ?f + ?c) = unat s"
    using good s mod_less_divisor [of ?f y] by (simp add: good_slots_def)
  moreover have "wrap_u32 (?f * (y div ?f) + (y mod ?f + ?c)) - ?c = y"
  proof -
    have "?f * (y div ?f) + (y mod ?f + ?c) = y + ?c" by (simp add: mult.commute)
    moreover have "y + ?c \<le> u32_max" using em(2) fM by (simp add: u32_max_def)
    ultimately show ?thesis by (simp add: wrap_u32_def)
  qed
  ultimately have "decode_symbols t slots (Suc n) ?x (rev em @ rest) =
      (case decode_symbols t slots n x rest of (ss, final) \<Rightarrow> (s # ss, final))" for n rest
    using x'(3,4) em(4) renorm_decode_done [OF x(1)] by (simp add: Let_def rans_consts)
  from that [OF enc x'(1,2) this] show thesis .
qed

lemma renorm_length:
  "0 < xm \<Longrightarrow> x < xm * 256 ^ k \<Longrightarrow> length (snd (renorm_encode xm x out)) \<le> length out + k"
proof (induction k arbitrary: x out)
  case 0
  then show ?case by (simp add: renorm_encode.simps [of xm x])
next
  case (Suc k)
  have "x div 256 < xm * 256 ^ k" using Suc.prems by (simp add: div_less_iff_less_mult mult.commute mult.left_commute)
  from Suc.IH [OF Suc.prems(1) this, of "out @ [word_of_nat (x mod 256)]"] show ?case
    by (simp add: renorm_encode.simps [of xm x])
qed

lemma encode_symbol_length:
  assumes "encode_symbol t s (x, out) = Inr (x', out')" "x < 2 ^ 31"
  shows "length out' \<le> length out + 2"
proof -
  let ?f = "tb_freq t ! unat s"
  have f: "0 < ?f" and run: "out' = snd (renorm_encode (131072 * ?f) x out)"
    using assms(1) by (auto simp: encode_symbol_def Let_def checked_mul_u32_def rans_l_def scale_bits_def
        split: if_splits option.splits prod.splits)
  have "x < 131072 * ?f * 256 ^ 2" using assms(2) f by simp
  from renorm_length [OF _ this, of out] f show ?thesis by (simp add: run)
qed

section \<open>One stream\<close>

definition present :: "rans_table \<Rightarrow> byte \<Rightarrow> bool" where
  "present t s \<longleftrightarrow> unat s < 16 \<and> tb_freq t ! unat s \<noteq> 0"

lemma encode_symbols_append:
  "encode_symbols t (xs @ ys) acc = (case encode_symbols t xs acc of Inl e \<Rightarrow> Inl e | Inr acc' \<Rightarrow> encode_symbols t ys acc')"
  by (induction xs arbitrary: acc) (simp_all split: sum.split)

lemma encode_symbols_spec:
  assumes valid: "valid_table t" and good: "good_slots t 16 slots" and "list_all (present t) ss"
  obtains x out where "encode_symbols t (rev ss) (rans_l, []) = Inr (x, out)" "rans_l \<le> x" "x < 2 ^ 31"
    "length out \<le> 2 * length ss" "decode_symbols t slots (length ss) x (rev out) = (ss, rans_l, [])"
  using assms(3)
proof (induction ss arbitrary: thesis)
  case Nil
  show ?case by (rule Nil(1) [of rans_l "[]"]) (simp_all add: rans_l_def)
next
  case (Cons s ss)
  from Cons.prems(2) have "list_all (present t) ss" "unat s < 16" "tb_freq t ! unat s \<noteq> 0"
    by (auto simp: present_def list_all_iff)
  from Cons.IH [OF _ this(1)] obtain x out where IH: "encode_symbols t (rev ss) (rans_l, []) = Inr (x, out)" "rans_l \<le> x" "x < 2 ^ 31"
    "length out \<le> 2 * length ss" "decode_symbols t slots (length ss) x (rev out) = (ss, rans_l, [])" by blast
  from encode_symbol_spec [OF valid good \<open>unat s < 16\<close> \<open>tb_freq t ! unat s \<noteq> 0\<close> IH(2,3), of out]
  obtain x' em where step: "encode_symbol t s (x, out) = Inr (x', out @ em)" "rans_l \<le> x'" "x' < 2 ^ 31"
    "\<And>n rest. decode_symbols t slots (Suc n) x' (rev em @ rest) =
       (case decode_symbols t slots n x rest of (ss, final) \<Rightarrow> (s # ss, final))" by blast
  show ?case
  proof (rule Cons.prems(1) [of x' "out @ em"])
    show "encode_symbols t (rev (s # ss)) (rans_l, []) = Inr (x', out @ em)"
      by (simp add: encode_symbols_append IH(1) step(1))
    show "length (out @ em) \<le> 2 * length (s # ss)" using encode_symbol_length [OF step(1) IH(3)] IH(4) by simp
    show "decode_symbols t slots (length (s # ss)) x' (rev (out @ em)) = (s # ss, rans_l, [])"
      using step(4) [of "length ss" "rev out"] IH(5) by simp
  qed (fact step)+
qed

lemma encode_stream_spec:
  assumes "valid_table t" "good_slots t 16 slots" "list_all (present t) ss"
  obtains bs where "encode_stream ss t = Inr bs" "4 \<le> length bs" "length bs \<le> 4 + 2 * length ss"
    "decode_stream_checked bs (length ss) t slots = Inr ss"
proof -
  from encode_symbols_spec [OF assms] obtain x out where
    enc: "encode_symbols t (rev ss) (rans_l, []) = Inr (x, out)" "rans_l \<le> x" "x < 2 ^ 31"
      "length out \<le> 2 * length ss" "decode_symbols t slots (length ss) x (rev out) = (ss, rans_l, [])" by blast
  have x: "le_nat (le_bytes 4 x) = x" using enc(3) by (intro le_nat_le_bytes) simp
  show thesis
  proof (rule that [of "rev (le_bytes 4 x) @ rev out"])
    show "encode_stream ss t = Inr (rev (le_bytes 4 x) @ rev out)" by (simp add: encode_stream_def enc(1))
    show "decode_stream_checked (rev (le_bytes 4 x) @ rev out) (length ss) t slots = Inr ss"
      using enc(2,5) x by (simp add: decode_stream_checked_def Let_def)
  qed (use enc(4) in simp_all)
qed

lemma encode_symbols_present: "encode_symbols t ss acc = Inr acc' \<Longrightarrow> list_all (present t) ss"
proof (induction ss arbitrary: acc)
  case (Cons s ss)
  then obtain acc1 where "encode_symbol t s acc = Inr acc1" "encode_symbols t ss acc1 = Inr acc'"
    by (auto split: sum.splits)
  with Cons.IH show ?case
    by (cases acc) (auto simp: present_def encode_symbol_def split: if_splits)
qed simp

lemma encode_stream_present: "encode_stream ss t = Inr bs \<Longrightarrow> list_all (present t) ss"
  by (auto simp: encode_stream_def split: sum.splits dest!: encode_symbols_present)

lemma stream_roundtrip:
  assumes "valid_table t" "good_slots t 16 slots" "encode_stream ss t = Inr bs"
  shows "decode_stream_checked bs (length ss) t slots = Inr ss" "4 \<le> length bs" "length bs \<le> 4 + 2 * length ss"
  using encode_stream_spec [OF assms(1,2) encode_stream_present [OF assms(3)]] assms(3) by (metis sum.inject(2))+

section \<open>The layout of a record\<close>

fun prefix_sums :: "nat \<Rightarrow> nat list \<Rightarrow> nat list" where
  "prefix_sums c [] = [c]"
| "prefix_sums c (x # xs) = c # prefix_sums (c + x) xs"

lemma length_prefix_sums [simp]: "length (prefix_sums c xs) = Suc (length xs)"
  by (induction xs arbitrary: c) simp_all

lemma nth_prefix_sums: "i \<le> length xs \<Longrightarrow> prefix_sums c xs ! i = c + sum_list (take i xs)"
  by (induction xs arbitrary: c i) (auto simp: nth_Cons take_Cons split: nat.split)

lemma prefix_sums_ne [simp]: "prefix_sums c xs \<noteq> []"
  by (cases xs) simp_all

lemma prefix_sums_last: "prefix_sums c xs = butlast (prefix_sums c xs) @ [c + sum_list xs]"
proof -
  have "last (prefix_sums c xs) = c + sum_list xs" by (induction xs arbitrary: c) (simp_all add: add.assoc)
  then show ?thesis by (metis append_butlast_last_id prefix_sums_ne)
qed

lemma at_bytes_at:
  "length A = off \<Longrightarrow> v < 256 ^ k \<Longrightarrow> at_bytes k msg (A @ le_bytes k v @ C) off = Inr v"
  by (simp add: at_bytes_def le_nat_le_bytes)

abbreviation le4 :: "nat \<Rightarrow> byte list" where
  "le4 \<equiv> le_bytes 4"

abbreviation zeros :: "nat \<Rightarrow> byte list" where
  "zeros k \<equiv> replicate k 0"

lemma record_header_value: "record_header = 1056"
  by (simp add: record_header_def round16_def n_streams_def)

lemma place_streams_layout:
  assumes "length H = 16 + 4 * i" "length P = c" "i + length ss \<le> 260" "c + sum_list (map length ss) \<le> u32_max"
  shows "place_streams ss i c (H @ zeros (1040 - 4 * i) @ P @ zeros (sum_list (map length ss) + z)) =
    (c + sum_list (map length ss),
     H @ concat (map le4 (butlast (prefix_sums c (map length ss)))) @ zeros (1040 - 4 * (i + length ss)) @
       P @ concat ss @ zeros z)"
  using assms
proof (induction ss arbitrary: H P i c)
  case (Cons s ss)
  let ?n = "sum_list (map length ss)"
  have split: "zeros (1040 - 4 * i) = zeros 4 @ zeros (1040 - 4 * (i + 1))"
    using Cons.prems(3) by (simp add: replicate_add [symmetric])
  have "wrap_u32 c = c" using Cons.prems(4) by (simp add: wrap_u32_def)
  then have put1: "put_u32 (H @ zeros (1040 - 4 * i) @ P @ zeros (length s + ?n + z)) (16 + i * 4) (wrap_u32 c) =
      (H @ le4 c) @ zeros (1040 - 4 * (i + 1)) @ P @ zeros (length s + ?n + z)"
    unfolding put_u32_def split append_assoc by (subst put_bytes_at) (simp_all add: Cons.prems(1))
  have "zeros (length s + ?n + z) = zeros (length s) @ zeros (?n + z)" by (simp add: replicate_add [symmetric] add.assoc)
  moreover have "length ((H @ le4 c) @ zeros (1040 - 4 * (i + 1)) @ P) = record_header + c"
    using Cons.prems by (simp add: record_header_value)
  ultimately have put2: "put_bytes (record_header + c) s
        ((H @ le4 c) @ zeros (1040 - 4 * (i + 1)) @ P @ zeros (length s + ?n + z)) =
      (H @ le4 c) @ zeros (1040 - 4 * (i + 1)) @ (P @ s) @ zeros (?n + z)"
    using put_bytes_at [of "(H @ le4 c) @ zeros (1040 - 4 * (i + 1)) @ P" "record_header + c" "zeros (length s)" s "zeros (?n + z)"]
    by simp
  from Cons.IH [of "H @ le4 c" "i + 1" "P @ s" "c + length s"] Cons.prems put1 put2 show ?case
    by (simp add: add.assoc)
qed simp

definition layout :: "nat \<Rightarrow> nat \<Rightarrow> byte list list \<Rightarrow> byte list" where
  "layout n len ss =
     (le_bytes 8 n @ le_bytes 8 len) @ concat (map le4 (prefix_sums 0 (map length ss))) @ zeros 12 @
     concat ss @ zeros (round16 (length (concat ss)) - length (concat ss))"

lemma round16_ge: "v \<le> round16 v" "round16 v \<le> v + 15"
  by (simp_all add: round16_def)

lemma sum_lengths_ok: "sum_lengths ss acc = Inr p \<Longrightarrow> p = acc + sum_list (map length ss)"
  by (induction ss arbitrary: acc) (fastforce simp: checked_add_usize_def split: if_splits)+

lemma encode_streams_spec:
  "encode_streams input t n is = Inr ss \<Longrightarrow>
     list_all2 (\<lambda>i bs. encode_stream (gather input n i) t = Inr bs) is ss"
  by (induction "is" arbitrary: ss) (auto split: sum.splits)

lemma encode_bytes_layout:
  assumes "encode_bytes input t = Inr rec"
  obtains ss where "rec = layout (2 * length input) (length input) ss" "input \<noteq> []" "2 * length input \<le> usize_max"
    "list_all2 (\<lambda>i bs. encode_stream (gather input (2 * length input) i) t = Inr bs) [0..<n_streams] ss"
    "sum_list (map length ss) \<le> u32_max" "length ss = 256"
proof -
  let ?n = "2 * length input"
  from assms obtain ss p where ss: "encode_streams input t ?n [0..<n_streams] = Inr ss"
    and p: "sum_lengths ss 0 = Inr p" "p \<le> u32_max" and ne: "input \<noteq> []" "?n \<le> usize_max"
    and rec: "rec = (case place_streams ss 0 0 (put_u64 (put_u64 (zeros (record_header + round16 p)) 0 ?n) 8 (length input)) of
      (cursor, out) \<Rightarrow> put_u32 out (16 + n_streams * 4) (wrap_u32 cursor))"
    by (auto simp: encode_bytes_def checked_mul_usize_def checked_add_usize_def mult.commute Let_def
        split: sum.splits if_splits option.splits prod.splits)
  note all2 = encode_streams_spec [OF ss]
  have len: "length ss = 256" using list_all2_lengthD [OF all2] by (simp add: n_streams_def)
  have sum: "p = sum_list (map length ss)" using sum_lengths_ok [OF p(1)] by simp
  have cat: "length (concat ss) = p" by (simp add: sum length_concat)
  let ?H = "le_bytes 8 ?n @ le_bytes 8 (length input)"
  have "zeros (record_header + round16 p) = zeros 8 @ zeros 8 @ zeros (1040 + round16 p)"
    by (simp add: record_header_value replicate_add [symmetric])
  then have head: "put_u64 (put_u64 (zeros (record_header + round16 p)) 0 ?n) 8 (length input) = ?H @ zeros (1040 + round16 p)"
    using put_bytes_at [of "[]" 0 "zeros 8" "le_bytes 8 ?n" "zeros 8 @ zeros (1040 + round16 p)"]
      put_bytes_at [of "le_bytes 8 ?n" 8 "zeros 8" "le_bytes 8 (length input)" "zeros (1040 + round16 p)"]
    by (simp add: put_u64_def)
  have pad: "zeros (1040 + round16 p) = zeros 1040 @ zeros (p + (round16 p - p))"
    using round16_ge(1) [of p] by (simp add: replicate_add [symmetric])
  have placed: "place_streams ss 0 0 (?H @ zeros 1040 @ zeros (p + (round16 p - p))) =
      (p, ?H @ concat (map le4 (butlast (prefix_sums 0 (map length ss)))) @ zeros 16 @ concat ss @ zeros (round16 p - p))"
    using place_streams_layout [of ?H 0 "[]" 0 ss "round16 p - p"] p(2) by (simp add: sum len)
  have "zeros 16 = zeros 4 @ zeros 12" by (simp add: replicate_add [symmetric])
  moreover have "length (?H @ concat (map le4 (butlast (prefix_sums 0 (map length ss))))) = 16 + n_streams * 4"
    by (simp add: length_concat len n_streams_def sum_list_triv comp_def)
  moreover have "wrap_u32 p = p" using p(2) by (simp add: wrap_u32_def)
  ultimately have "rec = (?H @ concat (map le4 (butlast (prefix_sums 0 (map length ss))))) @ le4 p @
      zeros 12 @ concat ss @ zeros (round16 p - p)"
    unfolding rec head pad placed prod.case put_u32_def
    using put_bytes_at [of "?H @ concat (map le4 (butlast (prefix_sums 0 (map length ss))))" "16 + n_streams * 4"
        "zeros 4" "le4 p" "zeros 12 @ concat ss @ zeros (round16 p - p)"] by simp
  also have "\<dots> = layout ?n (length input) ss"
    using arg_cong [OF prefix_sums_last [of 0 "map length ss"], of "\<lambda>xs. concat (map le4 xs)"]
    unfolding layout_def cat by (simp add: sum)
  finally show thesis using that ne all2 p(2) len by (simp add: sum)
qed

lemma read_offsets_at:
  assumes "length A = 16" "list_all (\<lambda>x. x \<le> u32_max) xs" "i \<le> length xs"
  shows "read_offsets (A @ concat (map le4 xs) @ C) [i..<length xs] = Inr (drop i xs)"
  using assms(3)
proof (induction "length xs - i" arbitrary: i)
  case 0
  then show ?case by simp
next
  case (Suc k)
  then have i: "i < length xs" by simp
  let ?A = "A @ concat (map le4 (take i xs))" and ?C = "concat (map le4 (drop (Suc i) xs)) @ C"
  have split: "A @ concat (map le4 xs) @ C = ?A @ le4 (xs ! i) @ ?C"
    by (subst id_take_nth_drop [OF i]) simp
  have "length ?A = 16 + i * 4" using i by (simp add: assms(1) length_concat comp_def sum_list_triv)
  moreover have "xs ! i \<le> u32_max" using assms(2) i by (simp add: list_all_length)
  then have "xs ! i < 256 ^ 4" by (simp add: u32_max_def)
  ultimately have "u32_at (A @ concat (map le4 xs) @ C) (16 + i * 4) = Inr (xs ! i)"
    unfolding split u32_at_def by (rule at_bytes_at)
  moreover have "read_offsets (A @ concat (map le4 xs) @ C) [Suc i..<length xs] = Inr (drop (Suc i) xs)"
    using Suc.hyps(1) [of "Suc i"] Suc.hyps(2) i by simp
  ultimately show ?case using i by (simp add: upt_conv_Cons Cons_nth_drop_Suc)
qed

lemma offsets_ok_sums: "offsets_ok (prefix_sums c xs) \<longleftrightarrow> list_all (\<lambda>x. 4 \<le> x) xs"
proof (induction xs arbitrary: c)
  case (Cons x xs)
  then show ?case by (cases xs) auto
qed simp

lemma prefix_sums_le: "x \<in> set (prefix_sums c xs) \<Longrightarrow> x \<le> c + sum_list xs"
  by (induction xs arbitrary: c) fastforce+

lemma parse_layout:
  assumes len: "length ss = 256" and four: "list_all (\<lambda>s. 4 \<le> length s) ss"
    and p: "p = sum_list (map length ss)" "p \<le> u32_max" and n: "n = 2 * k" "0 < k" "n \<le> usize_max"
  shows "parse_record (layout n k ss) =
    (if p * 8 * 2 ^ 15 < n then Inl ''rANS record exceeds amplification bound''
     else Inr \<lparr>pd_n_symbols = n, pd_packed_bytes = k, pd_offsets = prefix_sums 0 (map length ss), pd_payload = concat ss\<rparr>)"
proof -
  let ?A = "le_bytes 8 n @ le_bytes 8 k" and ?offs = "prefix_sums 0 (map length ss)"
  let ?Z = "zeros (round16 p - p)"
  have cat: "length (concat ss) = p" by (simp add: p length_concat)
  have rec: "layout n k ss = ?A @ concat (map le4 ?offs) @ zeros 12 @ concat ss @ ?Z"
    by (simp add: layout_def cat)
  have O: "length (concat (map le4 ?offs)) = 1028" by (simp add: length_concat comp_def sum_list_triv len)
  have total: "length (layout n k ss) = 1056 + round16 p" using round16_ge(1) [of p] by (simp add: rec O cat)
  have u1: "u64_at (layout n k ss) 0 = Inr n"
    unfolding u64_at_def rec append_assoc using at_bytes_at [of "[]" 0 n 8] n(3) by (simp add: usize_max_def)
  have u2: "u64_at (layout n k ss) 8 = Inr k"
    unfolding u64_at_def rec append_assoc using at_bytes_at [of "le_bytes 8 n" 8 k 8] n by (simp add: usize_max_def)
  have "list_all (\<lambda>x. x \<le> u32_max) ?offs"
    using p prefix_sums_le [of _ 0 "map length ss"] by (fastforce simp: list_all_iff)
  from read_offsets_at [of ?A, OF _ this, of 0 "zeros 12 @ concat ss @ ?Z"]
  have offs: "read_offsets (layout n k ss) [0..<n_streams + 1] = Inr ?offs" by (simp add: rec n_streams_def len)
  have first: "?offs ! 0 = 0" and last: "?offs ! n_streams = p"
    by (simp_all add: nth_prefix_sums n_streams_def len p(1) take_map [symmetric])
  have "list_all (\<lambda>x. 4 \<le> x) (map length ss)" using four by (simp add: list_all_iff)
  then have ok: "offsets_ok ?offs" by (simp only: offsets_ok_sums)
  have size: "checked_add_usize record_header (round16 p) = Some (1056 + round16 p)"
    using p(2) round16_ge(2) [of p] by (simp add: checked_add_usize_def record_header_value usize_max_def u32_max_def)
  have pad1: "drop (16 + (n_streams + 1) * 4) (take record_header (layout n k ss)) = zeros 12"
    by (simp add: rec O record_header_value n_streams_def)
  have pad2: "drop (record_header + p) (layout n k ss) = ?Z"
    by (simp add: rec O record_header_value cat)
  have pay: "take p (drop record_header (layout n k ss)) = concat ss"
    by (simp add: rec O record_header_value cat)
  have zero: "\<not> list_ex (\<lambda>b. b \<noteq> 0) (zeros j)" for j by (simp add: list_ex_iff)
  show ?thesis
    unfolding parse_record_def u1 u2 offs sum.case first last size option.case Let_def pad1 pad2 pay total
    using n ok round16_ge(1) [of p] by (simp add: zero record_header_value)
qed

section \<open>Nibbles\<close>

text \<open>The input as far as the logical positions in \<open>S\<close> have been written.\<close>

definition written :: "byte list \<Rightarrow> nat set \<Rightarrow> byte list" where
  "written input S = map (\<lambda>j. (if 2 * j \<in> S then input ! j AND 0x0F else 0) OR
     (if 2 * j + 1 \<in> S then input ! j AND 0xF0 else 0)) [0..<length input]"

lemma nibble_masks: "(0x0F :: byte) = mask 4" "(0xF0 :: byte) = push_bit 4 (mask 4)"
  by (simp_all add: mask_eq_exp_minus_1 push_bit_eq_mult)

lemma nibble_small: "unat (nibble input i) < 16"
proof -
  have "nibble input i = take_bit 4 (nibble input i)"
    unfolding nibble_def nibble_masks by (rule bit_word_eqI) (auto simp: bit_simps dest: bit_imp_le_length)
  then have "unat (nibble input i) = take_bit 4 (unat (nibble input i))" by (metis unsigned_take_bit_eq)
  then show ?thesis using take_bit_nat_less_exp [of 4 "unat (nibble input i)"] by simp
qed

lemma low_high: "(b AND 0x0F) OR (b AND 0xF0) = b" for b :: byte
  unfolding nibble_masks by (rule bit_word_eqI) (auto simp: bit_simps)

lemma put_low: "(((if p then b AND 0x0F else 0) OR (if q then b AND 0xF0 else 0)) AND 0xF0) OR (b AND 0x0F) =
    (b AND 0x0F) OR (if q then b AND 0xF0 else 0)" for b :: byte
  unfolding nibble_masks by (rule bit_word_eqI) (auto simp: bit_simps)

lemma put_high: "(((if p then b AND 0x0F else 0) OR (if q then b AND 0xF0 else 0)) AND 0x0F) OR push_bit 4 (drop_bit 4 b) =
    (if p then b AND 0x0F else 0) OR (b AND 0xF0)" for b :: byte
  unfolding nibble_masks by (rule bit_word_eqI) (auto simp: bit_simps)

lemma written_empty: "written input {} = replicate (length input) 0"
  by (simp add: written_def map_replicate_const)

lemma written_all: "written input {i. i < 2 * length input} = input"
  by (intro nth_equalityI) (simp_all add: written_def low_high)

lemma put_nibble_written:
  assumes "i < 2 * length input"
  shows "put_nibble i (nibble input i) (written input S) = written input (insert i S)"
proof (rule nth_equalityI)
  show "length (put_nibble i (nibble input i) (written input S)) = length (written input (insert i S))"
    by (simp add: put_nibble_def Let_def written_def)
next
  fix j
  assume "j < length (put_nibble i (nibble input i) (written input S))"
  then have j: "j < length input" by (simp add: put_nibble_def Let_def written_def)
  show "put_nibble i (nibble input i) (written input S) ! j = written input (insert i S) ! j"
  proof (cases "j = i div 2")
    case False
    then have "2 * j \<noteq> i" "2 * j + 1 \<noteq> i" by auto
    with False j show ?thesis by (simp add: put_nibble_def Let_def written_def)
  next
    case True
    have old: "written input S ! j = (if 2 * j \<in> S then input ! j AND 0x0F else 0) OR
        (if 2 * j + 1 \<in> S then input ! j AND 0xF0 else 0)" and len: "j < length (written input S)"
      using j by (simp_all add: written_def)
    show ?thesis
    proof (cases "even i")
      case even: True
      then have i: "i = 2 * j" using True by simp
      have "put_nibble i (nibble input i) (written input S) ! j = (written input S ! j AND 0xF0) OR (input ! j AND 0x0F)"
        using len by (simp add: put_nibble_def Let_def nibble_def i)
      also have "\<dots> = written input (insert i S) ! j" unfolding old put_low using j i by (simp add: written_def)
      finally show ?thesis .
    next
      case odd: False
      then have i: "i = 2 * j + 1" using True by (simp add: odd_two_times_div_two_succ)
      have "put_nibble i (nibble input i) (written input S) ! j =
          (written input S ! j AND 0x0F) OR push_bit 4 (drop_bit 4 (input ! j))"
        using len by (simp add: put_nibble_def Let_def nibble_def i)
      also have "\<dots> = written input (insert i S) ! j" unfolding old put_high using j i by (simp add: written_def)
      finally show ?thesis .
    qed
  qed
qed

text \<open>The positions of one stream from \<open>l\<close> on.\<close>

definition stride :: "nat \<Rightarrow> nat \<Rightarrow> nat set" where
  "stride n l = {x. l \<le> x \<and> x < n \<and> x mod n_streams = l mod n_streams}"

lemma stride_step:
  assumes "l < n"
  shows "stride n l = insert l (stride n (l + n_streams))"
proof -
  have "x = l \<or> l + n_streams \<le> x" if "l \<le> x" "x mod n_streams = l mod n_streams" for x
  proof -
    have "n_streams dvd x - l" using that by (metis mod_eq_dvd_iff_nat)
    then show ?thesis using that(1) dvd_imp_le [of n_streams "x - l"] by linarith
  qed
  then show ?thesis using assms by (fastforce simp: stride_def)
qed

lemma stride_end: "n \<le> l \<Longrightarrow> stride n l = {}"
  by (auto simp: stride_def)

lemma scatter_gather:
  "scatter (gather input (2 * length input) l) l (written input S) = written input (S \<union> stride (2 * length input) l)"
proof (induction input "2 * length input" l arbitrary: S rule: gather.induct)
  case (1 input l)
  show ?case
  proof (cases "l < 2 * length input")
    case True
    with 1 show ?thesis
      by (simp add: gather.simps [of input _ l] put_nibble_written stride_step [OF True])
  next
    case False
    then show ?thesis by (simp add: gather.simps [of input _ l] stride_end)
  qed
qed

lemma gather_length: "length (gather input n l) = stream_symbol_count n l"
proof (induction input n l rule: gather.induct)
  case (1 input n l)
  show ?case
  proof (cases "l < n")
    case True
    have "stream_symbol_count n l = Suc (stream_symbol_count n (l + n_streams))"
      using True by (auto simp: stream_symbol_count_def n_streams_def le_div_geq)
    with 1 True show ?thesis by (simp add: gather.simps [of input n l])
  next
    case False
    then show ?thesis by (simp add: gather.simps [of input n l] stream_symbol_count_def)
  qed
qed

section \<open>The record round trip\<close>

lemma slice_concat:
  assumes "i < length ss"
  shows "take (length (ss ! i)) (drop (sum_list (take i (map length ss))) (concat ss)) = ss ! i"
proof -
  have "concat ss = concat (take i ss) @ ss ! i @ concat (drop (Suc i) ss)"
    by (subst id_take_nth_drop [OF assms]) simp
  moreover have "length (concat (take i ss)) = sum_list (take i (map length ss))" by (simp add: length_concat take_map)
  ultimately show ?thesis by simp
qed

lemma written_stride:
  assumes "i < n_streams"
  shows "{x. x < n \<and> x mod n_streams < i} \<union> stride n i = {x. x < n \<and> x mod n_streams < Suc i}"
proof -
  have "i \<le> x" if "x mod n_streams = i" for x using that mod_less_eq_dividend by blast
  then show ?thesis using assms by (auto simp: stride_def)
qed

lemma decode_streams_layout:
  assumes valid: "valid_table t" "good_slots t 16 slots"
    and all2: "list_all2 (\<lambda>i bs. encode_stream (gather input (2 * length input) i) t = Inr bs) [0..<n_streams] ss"
    and p: "pd_offsets p = prefix_sums 0 (map length ss)" "pd_payload p = concat ss" "pd_n_symbols p = 2 * length input"
    and i: "i \<le> n_streams"
  shows "decode_streams p t slots [i..<n_streams] (written input {x. x < 2 * length input \<and> x mod n_streams < i}) = Inr input"
  using i
proof (induction "n_streams - i" arbitrary: i)
  case 0
  then have "i = n_streams" by simp
  moreover have "x mod n_streams < n_streams" for x by (simp add: n_streams_def)
  ultimately show ?case by (simp add: written_all)
next
  case (Suc k)
  then have i: "i < n_streams" by simp
  have len: "length ss = n_streams" using list_all2_lengthD [OF all2] by simp
  have enc: "encode_stream (gather input (2 * length input) i) t = Inr (ss ! i)"
    using list_all2_nthD [OF all2, of i] i by simp
  have slice: "take (pd_offsets p ! Suc i - pd_offsets p ! i) (drop (pd_offsets p ! i) (pd_payload p)) = ss ! i"
    using slice_concat [of i ss] i by (simp add: p nth_prefix_sums len take_Suc_conv_app_nth)
  have dec: "decode_stream_checked (ss ! i) (stream_symbol_count (pd_n_symbols p) i) t slots =
      Inr (gather input (2 * length input) i)"
    using stream_roundtrip(1) [OF valid enc] by (simp add: gather_length p(3))
  have "decode_streams p t slots [i..<n_streams] (written input {x. x < 2 * length input \<and> x mod n_streams < i}) =
      decode_streams p t slots [Suc i..<n_streams] (written input {x. x < 2 * length input \<and> x mod n_streams < Suc i})"
    using written_stride [OF i] by (simp add: upt_conv_Cons [OF i] Let_def slice dec scatter_gather)
  also have "\<dots> = Inr input" using Suc.hyps(1) [of "Suc i"] Suc.hyps(2) i by simp
  finally show ?case .
qed

text \<open>
  What decoding an encoded matrix gives: the matrix, unless it is so much longer
  than its encoding that the amplification bound refuses the record.
\<close>

lemma decode_encoded:
  assumes valid: "valid_table t" and enc: "encode_bytes input t = Inr rec"
  obtains ss where
    "list_all2 (\<lambda>i bs. encode_stream (gather input (2 * length input) i) t = Inr bs) [0..<n_streams] ss"
    "decode_bytes rec t (length input) =
       (if sum_list (map length ss) * 8 * 2 ^ 15 < 2 * length input
        then Inl ''rANS record exceeds amplification bound'' else Inr input)"
proof -
  from slots_good [OF valid] obtain slots where slots: "slot_to_symbol t = Inr slots" "good_slots t 16 slots" by blast
  from encode_bytes_layout [OF enc] obtain ss where
    ss: "rec = layout (2 * length input) (length input) ss" "input \<noteq> []" "2 * length input \<le> usize_max"
      "list_all2 (\<lambda>i bs. encode_stream (gather input (2 * length input) i) t = Inr bs) [0..<n_streams] ss"
      "sum_list (map length ss) \<le> u32_max" "length ss = 256" by blast
  have "4 \<le> length (ss ! i)" if "i < 256" for i
    using stream_roundtrip(2) [OF valid slots(2)] list_all2_nthD [OF ss(4), of i] that by (simp add: n_streams_def)
  then have four: "list_all (\<lambda>s. 4 \<le> length s) ss" by (simp add: list_all_length ss(6))
  let ?p = "\<lparr>pd_n_symbols = 2 * length input, pd_packed_bytes = length input,
    pd_offsets = prefix_sums 0 (map length ss), pd_payload = concat ss\<rparr>"
  have "decode_streams ?p t slots [0..<n_streams] (replicate (length input) 0) = Inr input"
    using decode_streams_layout [OF valid slots(2) ss(4), of ?p 0] by (simp add: written_empty)
  moreover have "validate_table t = Inr ()" using valid by (simp add: valid_table_def)
  ultimately have "decode_bytes rec t (length input) =
       (if sum_list (map length ss) * 8 * 2 ^ 15 < 2 * length input
        then Inl ''rANS record exceeds amplification bound'' else Inr input)"
    using parse_layout [OF ss(6) four refl ss(5) refl _ ss(3)] ss(2,3) slots(1)
    by (simp add: decode_bytes_def ss(1) checked_mul_usize_def mult.commute)
  with that ss(4) show thesis by blast
qed

section \<open>Encoding succeeds\<close>

lemma gather_present:
  assumes "list_all (\<lambda>b. present t (b AND 0x0F) \<and> present t (drop_bit 4 b)) input" "n = 2 * length input"
  shows "list_all (present t) (gather input n l)"
  using assms
proof (induction input n l rule: gather.induct)
  case (1 input n l)
  show ?case
  proof (cases "l < n")
    case True
    then have "input ! (l div 2) \<in> set input" using 1(3) by simp
    then have "present t (nibble input l)" using 1(2) by (auto simp: list_all_iff nibble_def)
    with 1 True show ?thesis by (simp add: gather.simps [of input _ l])
  qed (simp add: gather.simps [of input n l])
qed

lemma encode_streams_ok:
  assumes "\<And>i. i \<in> set is \<Longrightarrow> \<exists>bs. encode_stream (gather input n i) t = Inr bs"
  shows "\<exists>ss. encode_streams input t n is = Inr ss"
  using assms
proof (induction "is")
  case (Cons i "is")
  then obtain bs ss where "encode_stream (gather input n i) t = Inr bs" "encode_streams input t n is = Inr ss"
    by (metis list.set_intros)
  then show ?case by simp
qed simp

lemma sum_lengths_fits:
  "acc + sum_list (map length ss) \<le> usize_max \<Longrightarrow> sum_lengths ss acc = Inr (acc + sum_list (map length ss))"
  by (induction ss arbitrary: acc) (simp_all add: checked_add_usize_def add.assoc)

lemma encode_bytes_streams:
  assumes "valid_table t" "input \<noteq> []" "2 * length input \<le> usize_max"
    and ss: "encode_streams input t (2 * length input) [0..<n_streams] = Inr ss"
    and small: "sum_list (map length ss) \<le> u32_max"
  shows "\<exists>rec. encode_bytes input t = Inr rec"
proof -
  have "sum_lengths ss 0 = Inr (sum_list (map length ss))"
    using sum_lengths_fits [of 0 ss] small by (simp add: u32_max_def usize_max_def)
  moreover have "checked_add_usize record_header (round16 (sum_list (map length ss))) \<noteq> None"
    using round16_ge(2) [of "sum_list (map length ss)"] small
    by (simp add: checked_add_usize_def record_header_value u32_max_def usize_max_def)
  ultimately show ?thesis
    using assms by (auto simp: encode_bytes_def valid_table_def checked_mul_usize_def mult.commute Let_def split: prod.split)
qed

lemma sum_list_bound: "list_all (\<lambda>x. x \<le> b) xs \<Longrightarrow> sum_list xs \<le> length xs * b" for xs :: "nat list"
  by (induction xs) auto

lemma sum_list_lower: "list_all (\<lambda>x. b \<le> x) xs \<Longrightarrow> length xs * b \<le> sum_list xs" for xs :: "nat list"
  by (induction xs) auto

lemma stream_lengths:
  assumes valid: "valid_table t" and all2: "list_all2 (\<lambda>i bs. encode_stream (gather input n i) t = Inr bs) [0..<n_streams] ss"
  shows "1024 \<le> sum_list (map length ss)" "sum_list (map length ss) \<le> 256 * (6 + 2 * (n div 256))"
proof -
  from slots_good [OF valid] obtain slots where slots: "good_slots t 16 slots" by blast
  have len: "length ss = 256" using list_all2_lengthD [OF all2] by (simp add: n_streams_def)
  have each: "4 \<le> length (ss ! i)" "length (ss ! i) \<le> 6 + 2 * (n div 256)" if "i < 256" for i
  proof -
    have enc: "encode_stream (gather input n i) t = Inr (ss ! i)"
      using list_all2_nthD [OF all2, of i] that by (simp add: n_streams_def)
    have "(n - 1 - i) div 256 \<le> n div 256" by (intro div_le_mono) simp
    then have "stream_symbol_count n i \<le> n div 256 + 1" by (simp add: stream_symbol_count_def n_streams_def)
    then show "4 \<le> length (ss ! i)" "length (ss ! i) \<le> 6 + 2 * (n div 256)"
      using stream_roundtrip(2,3) [OF valid slots enc] by (simp_all add: gather_length)
  qed
  then have "list_all (\<lambda>x. 4 \<le> x) (map length ss)" "list_all (\<lambda>x. x \<le> 6 + 2 * (n div 256)) (map length ss)"
    by (simp_all add: list_all_length len)
  from sum_list_lower [OF this(1)] sum_list_bound [OF this(2)]
  show "1024 \<le> sum_list (map length ss)" "sum_list (map length ss) \<le> 256 * (6 + 2 * (n div 256))" by (simp_all add: len)
qed

section \<open>Properties\<close>

text \<open>
  The coder is lossless: under a valid table in which every nibble of
  the matrix has a positive frequency, encoding a matrix of at most 128 MiB
  succeeds, and decoding the record with the same table gives the matrix back.
\<close>

lemma rans_roundtrip:
  assumes valid: "valid_table t" and "input \<noteq> []" "length input \<le> 2 ^ 27"
    and nibbles: "list_all (\<lambda>b. present t (b AND 0x0F) \<and> present t (drop_bit 4 b)) input"
  shows "\<exists>rec. encode_bytes input t = Inr rec \<and> decode_bytes rec t (length input) = Inr input"
proof -
  let ?n = "2 * length input"
  from slots_good [OF valid] obtain slots where slots: "good_slots t 16 slots" by blast
  have "\<exists>bs. encode_stream (gather input ?n i) t = Inr bs" for i
    using encode_stream_spec [OF valid slots gather_present [OF nibbles refl]] by metis
  then obtain ss where ss: "encode_streams input t ?n [0..<n_streams] = Inr ss" using encode_streams_ok by metis
  note bound = stream_lengths [OF valid encode_streams_spec [OF ss]]
  have "?n div 256 \<le> 2 ^ 20" using assms(3) by simp
  with bound(2) have "sum_list (map length ss) \<le> u32_max" by (simp add: u32_max_def)
  from encode_bytes_streams [OF valid assms(2) _ ss this] assms(3) obtain rec where rec: "encode_bytes input t = Inr rec"
    by (auto simp: usize_max_def)
  from decode_encoded [OF valid rec] obtain ss' where
    ss': "list_all2 (\<lambda>i bs. encode_stream (gather input ?n i) t = Inr bs) [0..<n_streams] ss'"
      "decode_bytes rec t (length input) = (if sum_list (map length ss') * 8 * 2 ^ 15 < ?n
         then Inl ''rANS record exceeds amplification bound'' else Inr input)" by blast
  from stream_lengths(1) [OF valid ss'(1)] assms(3) ss'(2) rec show ?thesis by simp
qed

text \<open>A table that knows only zero.\<close>

definition zero_table :: rans_table where
  "zero_table = \<lparr>tb_freq = [16384, 0, 0, 0, 0, 0, 0, 0, 0, 0, 0, 0, 0, 0, 0, 0],
     tb_start = [0, 16384, 16384, 16384, 16384, 16384, 16384, 16384, 16384, 16384, 16384, 16384, 16384, 16384, 16384, 16384]\<rparr>"

lemma zero_table_valid: "valid_table zero_table"
  by (simp add: valid_table_def table_type_def validate_table_def zero_table_def
      checked_add_u32_def u32_max_def rans_consts)

text \<open>A table with one symbol stores nothing per symbol: every stream is its four state bytes.\<close>

lemma zero_symbol: "encode_symbol zero_table 0 (rans_l, out) = Inr (rans_l, out)"
  by (simp add: encode_symbol_def zero_table_def checked_mul_u32_def rans_consts u32_max_def wrap_u32_def
      renorm_encode.simps)

lemma zero_symbols: "encode_symbols zero_table (replicate k 0) (rans_l, out) = Inr (rans_l, out)"
  by (induction k) (simp_all add: zero_symbol)

lemma zero_gather: "gather (replicate k 0) (2 * k) l = replicate (stream_symbol_count (2 * k) l) 0"
proof (rule nth_equalityI)
  show "length (gather (replicate k 0) (2 * k) l) = length (replicate (stream_symbol_count (2 * k) l) (0 :: byte))"
    by (simp add: gather_length)
next
  have "list_all (\<lambda>b. b = 0) (gather (replicate k 0) (2 * k) l)"
  proof (induction "replicate k 0 :: byte list" "2 * k" l rule: gather.induct)
    case (1 l)
    then show ?case by (simp add: gather.simps [of _ _ l] nibble_def)
  qed
  then show "gather (replicate k 0) (2 * k) l ! i = replicate (stream_symbol_count (2 * k) l) 0 ! i"
    if "i < length (gather (replicate k 0) (2 * k) l)" for i
    using that by (simp add: list_all_length gather_length)
qed

text \<open>
  The coder writes records that it then refuses.  A matrix of more than
  128 MiB whose nibbles are all equal encodes into the fixed 1024 bytes of its
  stream states, and decoding that record fails on the amplification bound.
\<close>

lemma rans_refuses_own_record:
  assumes "2 ^ 27 < k" "2 * k \<le> usize_max"
  shows "\<exists>rec. encode_bytes (replicate k 0) zero_table = Inr rec \<and>
    decode_bytes rec zero_table k = Inl ''rANS record exceeds amplification bound''"
proof -
  let ?in = "replicate k (0 :: byte)"
  let ?bs = "rev (le_bytes 4 rans_l)"
  have stream: "encode_stream (gather ?in (2 * k) i) zero_table = Inr ?bs" for i
    by (simp add: encode_stream_def zero_gather zero_symbols)
  have all: "ss = replicate 256 ?bs"
    if "list_all2 (\<lambda>i bs. encode_stream (gather ?in (2 * k) i) zero_table = Inr bs) [0..<n_streams] ss" for ss
  proof (rule nth_equalityI)
    show "length ss = length (replicate 256 ?bs)" using list_all2_lengthD [OF that] by (simp add: n_streams_def)
    then show "ss ! i = replicate 256 ?bs ! i" if "i < length ss" for i
      using list_all2_nthD [OF \<open>list_all2 _ _ ss\<close>, of i] that stream [of i] by (simp add: n_streams_def)
  qed
  obtain ss where ss: "encode_streams ?in zero_table (2 * k) [0..<n_streams] = Inr ss"
    using encode_streams_ok stream by metis
  have "sum_list (map length ss) \<le> u32_max"
    unfolding all [OF encode_streams_spec [OF ss]] by (simp add: sum_list_replicate u32_max_def)
  with encode_bytes_streams [OF zero_table_valid, of ?in ss] ss assms obtain rec where
    rec: "encode_bytes ?in zero_table = Inr rec" by auto
  from decode_encoded [OF zero_table_valid rec] obtain ss' where
    "list_all2 (\<lambda>i bs. encode_stream (gather ?in (2 * k) i) zero_table = Inr bs) [0..<n_streams] ss'"
    "decode_bytes rec zero_table k = (if sum_list (map length ss') * 8 * 2 ^ 15 < 2 * k
       then Inl ''rANS record exceeds amplification bound'' else Inr ?in)" by auto
  with rec assms(1) all [of ss'] show ?thesis by (simp add: sum_list_replicate)
qed

end
