(* ===== verification/Rans_Table.thy ===== *)
theory Rans_Table
  imports Rans_Props
begin

text \<open>
  Tables built from histograms: both correction loops end, the result is valid
  whatever the floating-point arithmetic rounds to, and it has a slot for exactly
  the symbols that occur.
\<close>

section \<open>Starts\<close>

lemma starts_validate:
  "c + sum_list fs \<le> u32_max \<Longrightarrow> \<exists>ss. starts_from fs c = Inr (ss, c + sum_list fs) \<and>
     validate_from fs ss c = Inr (c + sum_list fs) \<and> length ss = length fs \<and> list_all (\<lambda>x. x \<le> u32_max) ss"
proof (induction fs arbitrary: c)
  case (Cons f fs)
  then have "c + f + sum_list fs \<le> u32_max" by simp
  from Cons.IH [OF this] Cons.prems show ?case by (auto simp: checked_add_u32_def add.assoc)
qed simp

lemma sum_counts_iff: "acc \<le> u64_max \<Longrightarrow>
  sum_counts hs acc = (if acc + sum_list hs \<le> u64_max then Some (acc + sum_list hs) else None)"
  by (induction hs arbitrary: acc) (auto simp: add.assoc)

section \<open>The correction loops\<close>

definition supports :: "nat list \<Rightarrow> nat list \<Rightarrow> bool" where
  "supports freq hist \<longleftrightarrow> length freq = 16 \<and> length hist = 16 \<and> (\<forall>s < 16. freq ! s = 0 \<longleftrightarrow> hist ! s = 0)"

lemma supports_update: "supports freq hist \<Longrightarrow> s < 16 \<Longrightarrow> hist ! s \<noteq> 0 \<Longrightarrow> f \<noteq> 0 \<Longrightarrow> supports (freq[s := f]) hist"
  by (simp add: supports_def nth_list_update)

lemma sum_update: "s < length xs \<Longrightarrow> sum_list (xs[s := y]) + xs ! s = sum_list xs + y" for xs :: "nat list"
  by (induction xs arbitrary: s) (auto split: nat.split)

lemma grow_spec:
  assumes "supports freq hist" "list_all (\<lambda>s. s < 16) order" "sum_list freq + deficit = scale_m"
  shows "\<exists>d freq'. grow_freqs hist order deficit freq = Inr (d, freq') \<and> supports freq' hist \<and>
    sum_list freq' + d = scale_m \<and> (d \<noteq> 0 \<longrightarrow> deficit = d + length (filter (\<lambda>s. hist ! s \<noteq> 0) order))"
  using assms
proof (induction order arbitrary: deficit freq)
  case (Cons s order)
  show ?case
  proof (cases "deficit = 0 \<or> hist ! s = 0")
    case True
    with Cons show ?thesis by auto
  next
    case False
    have s: "s < length freq" "s < 16" using Cons.prems by (simp_all add: supports_def)
    have "freq ! s \<le> sum_list freq" using s by (simp add: elem_le_sum_list)
    then have add: "checked_add_u32 (freq ! s) 1 = Some (freq ! s + 1)"
      using Cons.prems(3) by (simp add: checked_add_u32_def rans_consts u32_max_def)
    have "supports (freq[s := freq ! s + 1]) hist" using Cons.prems(1) s False by (simp add: supports_update)
    moreover have "sum_list (freq[s := freq ! s + 1]) + (deficit - 1) = scale_m"
      using sum_update [OF s(1), of "freq ! s + 1"] Cons.prems(3) False by simp
    moreover have "list_all (\<lambda>s. s < 16) order" using Cons.prems(2) by simp
    ultimately obtain d freq' where "grow_freqs hist order (deficit - 1) (freq[s := freq ! s + 1]) = Inr (d, freq')"
      "supports freq' hist" "sum_list freq' + d = scale_m"
      "d \<noteq> 0 \<longrightarrow> deficit - 1 = d + length (filter (\<lambda>s. hist ! s \<noteq> 0) order)"
      using Cons.IH [of "freq[s := freq ! s + 1]" "deficit - 1"] by blast
    with False add show ?thesis by auto
  qed
qed simp

lemma shrink_skip:
  "(\<And>i. i < j \<Longrightarrow> freq ! (order ! ((c + i) mod length order)) \<le> 1) \<Longrightarrow> c + j \<le> usize_max \<Longrightarrow> excess \<noteq> 0 \<Longrightarrow>
     shrink_freqs order excess c freq = shrink_freqs order excess (c + j) freq"
proof (induction j arbitrary: c)
  case (Suc j)
  have "\<not> 1 < freq ! (order ! (c mod length order))" using Suc.prems(1) [of 0] by simp
  then have "shrink_freqs order excess c freq = shrink_freqs order excess (c + 1) freq"
    using Suc.prems(2,3) by (simp add: shrink_freqs.simps [of order excess c])
  also have "\<dots> = shrink_freqs order excess (c + 1 + j) freq"
  proof (rule Suc.IH)
    show "freq ! (order ! ((c + 1 + i) mod length order)) \<le> 1" if "i < j" for i
      using Suc.prems(1) [of "Suc i"] that by simp
  qed (use Suc.prems(2,3) in simp_all)
  finally show ?case by simp
qed simp

lemma shrink_next:
  assumes "length freq = 16" "scale_m < sum_list freq" "length order = 16" "set order = {0..<16}"
  obtains j where "j < 16" "1 < freq ! (order ! ((c + j) mod 16))" "\<And>i. i < j \<Longrightarrow> freq ! (order ! ((c + i) mod 16)) \<le> 1"
proof -
  have "\<not> list_all (\<lambda>x. x \<le> 1) freq"
    using sum_list_bound [of 1 freq] assms(1,2) by (auto simp: rans_consts)
  then obtain s where s: "s < 16" "1 < freq ! s" using assms(1) by (auto simp: list_all_length not_le)
  then obtain m where m: "m < 16" "order ! m = s" using assms(3,4) by (metis atLeastLessThan_iff in_set_conv_nth le0)
  define P where "P j \<longleftrightarrow> 1 < freq ! (order ! ((c + j) mod 16))" for j
  have "(c + (m + (16 - c mod 16))) mod 16 = m"
  proof -
    obtain q r where qr: "c = 16 * q + r" "r = c mod 16" by (metis mult_div_mod_eq)
    have "r < 16" by (simp add: qr(2))
    then have "c + (m + (16 - r)) = m + 16 * (q + 1)" by (simp add: qr(1))
    then have "c + (m + (16 - c mod 16)) = m + 16 * (q + 1)" by (simp only: qr(2))
    then show ?thesis using m(1) by (simp only: mod_mult_self2 mod_less)
  qed
  then have "(c + (m + (16 - c mod 16)) mod 16) mod 16 = m" by (metis mod_add_right_eq)
  then have "P ((m + (16 - c mod 16)) mod 16)" unfolding P_def using m(2) s(2) by (simp only:)
  then have "P (LEAST j. P j)" "(LEAST j. P j) \<le> (m + (16 - c mod 16)) mod 16"
    by (rule LeastI, rule Least_le)
  moreover have "(m + (16 - c mod 16)) mod 16 < 16" by simp
  moreover have "\<not> P i" if "i < (LEAST j. P j)" for i using that by (rule not_less_Least)
  ultimately show thesis by (intro that [of "LEAST j. P j"]) (auto simp: P_def not_less)
qed

lemma shrink_spec:
  assumes "supports freq hist" "sum_list freq = scale_m + excess" "length order = 16" "set order = {0..<16}"
    "c + 16 * excess \<le> usize_max"
  shows "\<exists>freq'. shrink_freqs order excess c freq = Inr freq' \<and> supports freq' hist \<and> sum_list freq' = scale_m"
  using assms
proof (induction excess arbitrary: c freq)
  case 0
  then show ?case by (simp add: shrink_freqs.simps)
next
  case (Suc e)
  have len: "length freq = 16" using Suc.prems(1) by (simp add: supports_def)
  have big: "scale_m < sum_list freq" using Suc.prems(2) by simp
  from shrink_next [OF len big Suc.prems(3,4), of c] obtain j where
    j: "j < 16" "1 < freq ! (order ! ((c + j) mod 16))" "\<And>i. i < j \<Longrightarrow> freq ! (order ! ((c + i) mod 16)) \<le> 1" by blast
  let ?s = "order ! ((c + j) mod 16)"
  have s: "?s < 16" using Suc.prems(3,4) nth_mem [of "(c + j) mod 16" order] by simp
  have "shrink_freqs order (Suc e) c freq = shrink_freqs order (Suc e) (c + j) freq"
    using j(1,3) Suc.prems(3,5) by (intro shrink_skip) simp_all
  also have "\<dots> = shrink_freqs order e (c + j + 1) (freq[?s := freq ! ?s - 1])"
    using j(1,2) Suc.prems(3,5) by (simp add: shrink_freqs.simps [of order "Suc e"] Let_def)
  finally have run: "shrink_freqs order (Suc e) c freq = shrink_freqs order e (c + j + 1) (freq[?s := freq ! ?s - 1])" .
  have "hist ! ?s \<noteq> 0" using Suc.prems(1) s j(2) by (auto simp: supports_def)
  then have "supports (freq[?s := freq ! ?s - 1]) hist" using Suc.prems(1) s j(2) by (simp add: supports_update)
  moreover have "sum_list (freq[?s := freq ! ?s - 1]) = scale_m + e"
    using sum_update [of ?s freq "freq ! ?s - 1"] s len Suc.prems(2) j(2) by simp
  ultimately show ?case unfolding run using Suc.IH Suc.prems(3,4,5) j(1) by simp
qed

section \<open>The normalised table\<close>

lemma assigned_supports:
  "length hist = 16 \<Longrightarrow> supports (map (assigned all) hist) hist"
  by (simp add: supports_def assigned_def)

lemma assigned_bound:
  assumes "length hist = 16"
  shows "sum_list (map (assigned all) hist) \<le> 16 * u32_max"
proof -
  have "assigned all h \<le> u32_max" for h by (simp add: assigned_def u32_max_def)
  then show ?thesis using sum_list_mono [of hist "assigned all" "\<lambda>_. u32_max"] assms
    by (simp add: sum_list_triv)
qed

lemma present_count: 
  assumes "length hist = 16" "mset order = mset [0..<16]"
  shows "length (filter (\<lambda>s. hist ! s \<noteq> 0) order) = length (filter (\<lambda>h. h \<noteq> 0) hist)"
proof -
  have "length (filter (\<lambda>s. hist ! s \<noteq> 0) order) = size (filter_mset (\<lambda>s. hist ! s \<noteq> 0) (mset order))"
    by (simp only: size_mset flip: mset_filter)
  also have "\<dots> = length (filter (\<lambda>s. hist ! s \<noteq> 0) [0..<16])"
    by (simp only: assms(2) size_mset flip: mset_filter)
  also have "\<dots> = length (filter (\<lambda>h. h \<noteq> 0) (map ((!) hist) [0..<16]))" by (simp add: filter_map comp_def)
  also have "map ((!) hist) [0..<16] = hist" using assms(1) by (metis map_nth)
  finally show ?thesis .
qed

lemma normalize_spec:
  fixes all :: nat
  assumes "length hist = 16"
  defines "n \<equiv> sum_list (map (assigned all) hist)"
  shows "case normalize_freqs hist all of
      Inr freq \<Rightarrow> supports freq hist \<and> sum_list freq = scale_m
    | Inl _ \<Rightarrow> n + length (filter (\<lambda>h. h \<noteq> 0) hist) < scale_m"
proof -
  let ?freq = "map (assigned all) hist"
  have supp: "supports ?freq hist" using assms(1) by (rule assigned_supports)
  consider "n < scale_m" | "scale_m < n" | "n = scale_m" by linarith
  then show ?thesis
  proof cases
    case 1
    define order where "order = sort_key (\<lambda>s. - remainder_key all (hist ! s)) [0..<16]"
    have ord: "list_all (\<lambda>s. s < 16) order" by (simp add: order_def list_all_iff)
    have "sum_list ?freq + (scale_m - n) = scale_m" using 1 by (simp add: n_def)
    from grow_spec [OF supp ord this] obtain d freq' where g: 
      "grow_freqs hist order (scale_m - n) ?freq = Inr (d, freq')" "supports freq' hist" "sum_list freq' + d = scale_m"
      "d \<noteq> 0 \<longrightarrow> scale_m - n = d + length (filter (\<lambda>s. hist ! s \<noteq> 0) order)" by blast
    moreover have "length (filter (\<lambda>s. hist ! s \<noteq> 0) order) = length (filter (\<lambda>h. h \<noteq> 0) hist)"
      using assms(1) by (rule present_count) (simp add: order_def)
    ultimately show ?thesis using 1 by (auto simp: normalize_freqs_def Let_def n_def order_def)
  next
    case 2
    define order where "order = sort_key (\<lambda>s. - int (?freq ! s)) [0..<16]"
    have "n \<le> 16 * u32_max" unfolding n_def using assms(1) by (rule assigned_bound)
    then have "0 + 16 * (n - scale_m) \<le> usize_max" by (simp add: u32_max_def usize_max_def)
    moreover have "sum_list ?freq = scale_m + (n - scale_m)" using 2 by (simp add: n_def)
    ultimately have "\<exists>freq'. shrink_freqs order (n - scale_m) 0 ?freq = Inr freq' \<and> supports freq' hist \<and> sum_list freq' = scale_m"
      using supp by (intro shrink_spec) (simp_all add: order_def)
    then show ?thesis using 2 by (auto simp: normalize_freqs_def Let_def n_def order_def)
  next
    case 3
    then show ?thesis using supp by (simp add: normalize_freqs_def Let_def n_def)
  qed
qed

text \<open>The tables that \<open>from_histogram\<close> builds are valid and know exactly the counted symbols.\<close>

lemma starts_table:
  assumes "supports freq hist" "sum_list freq = scale_m" "starts_from freq 0 = Inr (start, cursor)"
  shows "cursor = scale_m" "valid_table \<lparr>tb_freq = freq, tb_start = start\<rparr>"
proof -
  have "0 + sum_list freq \<le> u32_max" using assms(2) by (simp add: rans_consts u32_max_def)
  from starts_validate [OF this] assms(2,3) have st: "cursor = scale_m" "validate_from freq start 0 = Inr scale_m"
    "length start = length freq" "list_all (\<lambda>x. x \<le> u32_max) start" by auto
  show "cursor = scale_m" by (rule st(1))
  have "x \<le> u32_max" if "x \<in> set freq" for x
    using member_le_sum_list [OF that] assms(2) by (simp add: rans_consts u32_max_def)
  then show "valid_table \<lparr>tb_freq = freq, tb_start = start\<rparr>"
    using assms(1) st by (simp add: valid_table_def table_type_def supports_def validate_table_def list_all_iff)
qed

section \<open>The rounded shares add up\<close>

lemma f64_round_bounds:
  assumes "0 < x"
  shows "x * (1 - 1 / 2 ^ 53) \<le> f64_round x" "f64_round x \<le> x * (1 + 1 / 2 ^ 53)"
proof -
  have "- (x / 2 ^ 53) \<le> f64_round x - x" "f64_round x - x \<le> x / 2 ^ 53"
    using f64_round_error [OF assms] by linarith+
  then show "x * (1 - 1 / 2 ^ 53) \<le> f64_round x" "f64_round x \<le> x * (1 + 1 / 2 ^ 53)"
    unfolding right_diff_distrib distrib_left by simp_all
qed

lemma raw_share_bound:
  assumes "0 < h" "0 < all"
  shows "of_nat h / of_nat all * (of_nat scale_m - 1 / 2) \<le> raw_share all h"
proof -
  let ?e = "1 / 2 ^ 53 :: rat"
  let ?q = "of_nat h / of_nat all :: rat"
  have hb: "of_nat h * (1 - ?e) \<le> f64_of_u64 h" and ab: "of_nat all * (1 - ?e) \<le> f64_of_u64 all"
      "f64_of_u64 all \<le> of_nat all * (1 + ?e)"
    using f64_round_bounds [of "of_nat h"] f64_round_bounds [of "of_nat all"] assms by (simp_all add: f64_of_u64_def)
  have pos: "0 < f64_of_u64 h" "0 < f64_of_u64 all"
    using hb ab(1) assms by (auto intro: less_le_trans [rotated])
  have "?q * (1 - ?e) / (1 + ?e) = of_nat h * (1 - ?e) / (of_nat all * (1 + ?e))" by simp
  also have "\<dots> \<le> f64_of_u64 h / f64_of_u64 all"
    using hb ab(2) pos assms by (intro frac_le) simp_all
  finally have "?q * (1 - ?e) / (1 + ?e) * (1 - ?e) \<le> f64_of_u64 h / f64_of_u64 all * (1 - ?e)"
    by (rule mult_right_mono) simp
  also have "\<dots> \<le> f64_divide (f64_of_u64 h) (f64_of_u64 all)" 
    unfolding f64_divide_def using pos by (intro f64_round_bounds) simp
  finally have "?q * (1 - ?e) / (1 + ?e) * (1 - ?e) * of_nat scale_m \<le> raw_share all h"
    unfolding raw_share_def by (rule mult_right_mono) simp
  moreover have "?q * (1 - ?e) / (1 + ?e) * (1 - ?e) * of_nat scale_m = ?q * ((1 - ?e) / (1 + ?e) * (1 - ?e) * of_nat scale_m)"
    by (simp only: mult.assoc times_divide_eq_right times_divide_eq_left)
  ultimately have "?q * ((1 - ?e) / (1 + ?e) * (1 - ?e) * of_nat scale_m) \<le> raw_share all h" by (simp only:)
  moreover have "of_nat scale_m - 1 / 2 \<le> (1 - ?e) / (1 + ?e) * (1 - ?e) * of_nat scale_m" by (simp add: rans_consts)
  then have "?q * (of_nat scale_m - 1 / 2) \<le> ?q * ((1 - ?e) / (1 + ?e) * (1 - ?e) * of_nat scale_m)"
    by (rule mult_left_mono) simp
  ultimately show ?thesis by (rule order_trans [rotated])
qed

lemma assigned_share:
  assumes "0 < h" "0 < all" "assigned all h < scale_m"
  shows "of_nat h / of_nat all * (of_nat scale_m - 1 / 2) \<le> (of_nat (assigned all h + 1) :: rat)"
proof -
  have "nat \<lfloor>raw_share all h\<rfloor> \<le> assigned all h"
    using assms(1,3) by (auto simp: assigned_def rans_consts u32_max_def split: if_splits)
  then have "raw_share all h \<le> of_nat (assigned all h + 1)" by (simp add: nat_le_iff floor_le_iff)
  with raw_share_bound [OF assms(1,2)] show ?thesis by (rule order_trans)
qed

lemma assigned_sum:
  assumes "0 < all" "\<forall>h \<in> set hs. assigned all h < scale_m"
  shows "of_nat (sum_list hs) / of_nat all * (of_nat scale_m - 1 / 2) \<le>
    (of_nat (sum_list (map (assigned all) hs) + length (filter (\<lambda>h. h \<noteq> 0) hs)) :: rat)"
  using assms(2)
proof (induction hs)
  case (Cons h hs)
  then have "of_nat h / of_nat all * (of_nat scale_m - 1 / 2) \<le>
      (of_nat (assigned all h + (if h = 0 then 0 else 1)) :: rat)"
    using assigned_share [of h all] assms(1) by (auto simp: add.commute)
  with Cons.IH Cons.prems have "of_nat h / of_nat all * (of_nat scale_m - 1 / 2) +
      of_nat (sum_list hs) / of_nat all * (of_nat scale_m - 1 / 2) \<le>
      (of_nat (assigned all h + (if h = 0 then 0 else 1)) :: rat) +
      of_nat (sum_list (map (assigned all) hs) + length (filter (\<lambda>h. h \<noteq> 0) hs))"
    by (intro add_mono) simp_all
  then show ?case by (simp add: add_divide_distrib distrib_right split: if_splits)
qed simp

lemma assigned_enough:
  assumes "0 < sum_list hist"
  shows "scale_m \<le> sum_list (map (assigned (sum_list hist)) hist) + length (filter (\<lambda>h. h \<noteq> 0) hist)" (is "_ \<le> ?n + ?k")
proof (cases "\<forall>h \<in> set hist. assigned (sum_list hist) h < scale_m")
  case True
  have "of_nat (sum_list hist) / of_nat (sum_list hist) * (of_nat scale_m - 1 / 2) \<le> (of_nat (?n + ?k) :: rat)"
    using assms True by (rule assigned_sum)
  moreover have "of_nat (sum_list hist) / of_nat (sum_list hist) = (1 :: rat)"
    using assms by (intro divide_self) (metis of_nat_0_less_iff less_numeral_extra(3))
  ultimately have "of_nat scale_m - 1 / 2 \<le> (of_nat (?n + ?k) :: rat)" by (simp only: mult_1)
  moreover have "(of_nat (?n + ?k) :: rat) \<le> of_nat scale_m - 1" if "?n + ?k < scale_m"
  proof -
    have "of_nat (?n + ?k + 1) \<le> (of_nat scale_m :: rat)" using that by (simp only: of_nat_le_iff Suc_le_eq Suc_eq_plus1 [symmetric])
    then show ?thesis by simp
  qed
  ultimately show ?thesis by (cases "?n + ?k < scale_m") auto
next
  case False
  then obtain h where "h \<in> set hist" "scale_m \<le> assigned (sum_list hist) h" by (auto simp: not_less)
  moreover from this have "assigned (sum_list hist) h \<le> ?n" by (intro member_le_sum_list) simp_all
  ultimately show ?thesis by simp
qed

lemma from_histogram_ok:
  assumes "length hist = 16" "0 < sum_list hist" "sum_list hist \<le> u64_max"
  obtains t where "from_histogram hist = Inr t" "valid_table t" "supports (tb_freq t) hist"
proof -
  from normalize_spec [OF assms(1), of "sum_list hist"] assigned_enough [OF assms(2)]
  obtain freq where norm: "normalize_freqs hist (sum_list hist) = Inr freq" "supports freq hist" "sum_list freq = scale_m"
    by (auto split: sum.splits)
  then have "0 + sum_list freq \<le> u32_max" by (simp add: rans_consts u32_max_def)
  from starts_validate [OF this] norm(3) obtain start where start: "starts_from freq 0 = Inr (start, scale_m)" by auto
  have "\<not> scale_m < length (filter (\<lambda>h. h \<noteq> 0) hist)"
    using length_filter_le [of "\<lambda>h. h \<noteq> 0" hist] assms(1) by (simp add: rans_consts)
  then have "from_histogram hist = Inr \<lparr>tb_freq = freq, tb_start = start\<rparr>"
    using assms(2,3) norm(1) start by (simp add: from_histogram_def sum_counts_iff del: sum_list_eq_0_iff)
  with that norm(2) starts_table [OF norm(2,3) start] show thesis by simp
qed

section \<open>Histograms\<close>

lemma count_nibble_spec:
  assumes "length hist = 16" "unat s < 16" "count_nibble s hist = Some hist'"
  shows "length hist' = 16" "hist' ! unat s \<noteq> 0" "\<And>k. hist ! k \<noteq> 0 \<Longrightarrow> hist' ! k \<noteq> 0"
  using assms by (auto simp: count_nibble_def nth_list_update split: if_splits)

lemma nibbles_small: "unat (b AND 0x0F) < 16" "unat (drop_bit 4 b) < 16" for b :: byte
proof -
  have "b AND 0x0F = take_bit 4 b" by (simp only: nibble_masks take_bit_eq_mask)
  then show "unat (b AND 0x0F) < 16" by (simp add: unsigned_take_bit_eq take_bit_nat_def)
  have "unat b < 256" using unsigned_less [of b, where ?'a = nat] by simp
  then show "unat (drop_bit 4 b) < 16" by (simp add: drop_bit_eq_div unat_div)
qed

lemma histogram_from_ok:
  "length hist = 16 \<Longrightarrow> sum_list hist + 2 * length bs \<le> u64_max \<Longrightarrow>
     \<exists>hist'. histogram_from bs hist = Inr hist' \<and> length hist' = 16 \<and> sum_list hist' = sum_list hist + 2 * length bs"
proof (induction bs arbitrary: hist)
  case (Cons b bs)
  define h1 where "h1 = hist[unat (b AND 0x0F) := hist ! unat (b AND 0x0F) + 1]"
  define h2 where "h2 = h1[unat (drop_bit 4 b) := h1 ! unat (drop_bit 4 b) + 1]"
  note small = nibbles_small [of b, folded Cons.prems(1)]
  have c1: "count_nibble (b AND 0x0F) hist = Some h1" "length h1 = 16" "sum_list h1 = sum_list hist + 1"
    using Cons.prems elem_le_sum_list [OF small(1)] sum_update [OF small(1), of "hist ! unat (b AND 0x0F) + 1"]
    by (simp_all add: count_nibble_def h1_def)
  note small2 = nibbles_small(2) [of b, folded c1(2)]
  have c2: "count_nibble (drop_bit 4 b) h1 = Some h2" "length h2 = 16" "sum_list h2 = sum_list hist + 2"
    using Cons.prems c1 elem_le_sum_list [OF small2] sum_update [OF small2, of "h1 ! unat (drop_bit 4 b) + 1"]
    by (simp_all add: count_nibble_def h2_def)
  with Cons.IH [OF c2(2)] Cons.prems c1(1) show ?case by auto
qed simp

lemma histogram_from_spec:
  "histogram_from bs hist = Inr hist' \<Longrightarrow> length hist = 16 \<Longrightarrow>
     length hist' = 16 \<and> (\<forall>k. hist ! k \<noteq> 0 \<longrightarrow> hist' ! k \<noteq> 0) \<and>
     list_all (\<lambda>b. hist' ! unat (b AND 0x0F) \<noteq> 0 \<and> hist' ! unat (drop_bit 4 b) \<noteq> 0) bs"
proof (induction bs arbitrary: hist)
  case (Cons b bs)
  from Cons.prems(1) obtain h1 h2 where h: "count_nibble (b AND 0x0F) hist = Some h1"
    "count_nibble (drop_bit 4 b) h1 = Some h2" "histogram_from bs h2 = Inr hist'"
    by (auto split: option.splits)
  note c1 = count_nibble_spec [OF Cons.prems(2) nibbles_small(1) h(1)]
  note c2 = count_nibble_spec [OF c1(1) nibbles_small(2) h(2)]
  from Cons.IH [OF h(3) c2(1)] c1(2,3) c2(2,3) show ?case by auto
qed simp

lemma histogram_presents:
  assumes "histogram_bytes chunks = Inr hist" "input \<in> set chunks" "valid_table t" "supports (tb_freq t) hist"
  shows "list_all (\<lambda>b. present t (b AND 0x0F) \<and> present t (drop_bit 4 b)) input"
proof -
  have "list_all (\<lambda>b. hist ! unat (b AND 0x0F) \<noteq> 0 \<and> hist ! unat (drop_bit 4 b) \<noteq> 0) (concat chunks)"
    using histogram_from_spec [OF assms(1) [unfolded histogram_bytes_def]] by simp
  then show ?thesis using assms(2,4) nibbles_small by (simp add: list_all_iff present_def supports_def)
qed

section \<open>Properties\<close>

text \<open>
  C27: A table is built from every histogram that is not empty and whose total fits
  \<^verbatim>\<open>u64\<close>: both correction loops end, the rounding of the floating-point shares never
  leaves a deficit, and the table is valid and gives slots to exactly the symbols
  that were counted.
\<close>

theorem from_histogram_total:
  assumes "length hist = 16" "0 < sum_list hist" "sum_list hist \<le> u64_max"
  shows "\<exists>t. from_histogram hist = Inr t \<and> valid_table t \<and> (\<forall>s < 16. tb_freq t ! s = 0 \<longleftrightarrow> hist ! s = 0)"
  using from_histogram_ok [OF assms] by (metis supports_def)

theorem from_histogram_total_witness:
  "\<exists>t. from_histogram [1, 3, 0, 0, 0, 0, 0, 0, 0, 0, 0, 0, 0, 0, 0, 0] = Inr t \<and> valid_table t \<and>
     tb_freq t ! 0 \<noteq> 0 \<and> tb_freq t ! 2 = 0"
proof -
  let ?hist = "[1, 3, 0, 0, 0, 0, 0, 0, 0, 0, 0, 0, 0, 0, 0, 0] :: nat list"
  have "\<exists>t. from_histogram ?hist = Inr t \<and> valid_table t \<and> (\<forall>s < 16. tb_freq t ! s = 0 \<longleftrightarrow> ?hist ! s = 0)"
    by (rule from_histogram_total) (simp_all add: u64_max_def)
  then obtain t where t: "from_histogram ?hist = Inr t" "valid_table t"
    "\<forall>s < 16. tb_freq t ! s = 0 \<longleftrightarrow> ?hist ! s = 0" by blast
  have "tb_freq t ! 0 \<noteq> 0" using t(3) [THEN spec, of 0] by simp
  moreover have "tb_freq t ! 2 = 0" using t(3) [THEN spec, of 2] by simp
  ultimately show ?thesis using t(1,2) by blast
qed

text \<open>
  C26: The entropy coder is lossless from end to end.  For byte strings whose nibbles
  can be counted in \<^verbatim>\<open>u64\<close>, one of them not empty, counting them and building a table
  succeeds; a matrix among them that is not empty and has at most 128 MiB is encoded
  under that table without error, and decoding the record gives the matrix back.
\<close>

theorem rans_pipeline:
  assumes count: "2 * length (concat chunks) \<le> u64_max"
    and input: "input \<in> set chunks" "input \<noteq> []" "length input \<le> 2 ^ 27"
  shows "\<exists>hist t rec. histogram_bytes chunks = Inr hist \<and> from_histogram hist = Inr t \<and>
    encode_bytes input t = Inr rec \<and> decode_bytes rec t (length input) = Inr input"
proof -
  from histogram_from_ok [of "replicate 16 0" "concat chunks"] count obtain hist where
    hist: "histogram_bytes chunks = Inr hist" "length hist = 16" "sum_list hist = 2 * length (concat chunks)"
    by (auto simp: histogram_bytes_def sum_list_replicate)
  have "concat chunks \<noteq> []" using input(1,2) by auto
  then have "0 < sum_list hist" "sum_list hist \<le> u64_max" using count by (simp_all only: hist(3)) simp
  from from_histogram_ok [OF hist(2) this] obtain t where
    t: "from_histogram hist = Inr t" "valid_table t" "supports (tb_freq t) hist" by blast
  from rans_roundtrip [OF t(2) input(2,3) histogram_presents [OF hist(1) input(1) t(2,3)]] hist(1) t(1)
  show ?thesis by blast
qed

theorem rans_pipeline_witness:
  "\<exists>hist t rec. histogram_bytes [[0x10, 0x01]] = Inr hist \<and> from_histogram hist = Inr t \<and>
     encode_bytes [0x10, 0x01] t = Inr rec \<and> decode_bytes rec t 2 = Inr [0x10, 0x01]"
proof -
  have two: "length [0x10, 0x01 :: byte] = 2" by simp
  have "\<exists>hist t rec. histogram_bytes [[0x10, 0x01]] = Inr hist \<and> from_histogram hist = Inr t \<and>
     encode_bytes [0x10, 0x01] t = Inr rec \<and> decode_bytes rec t (length [0x10, 0x01 :: byte]) = Inr [0x10, 0x01]"
    by (rule rans_pipeline) (simp_all add: u64_max_def)
  then show ?thesis by (simp only: two)
qed

end
