(* ===== verification/Rans_Manifest.thy ===== *)
theory Rans_Manifest
  imports Rans_Props
begin

text \<open>
  The codec-table region of a package manifest
  (\<^verbatim>\<open>logan-compiler/src/codec/rans256.rs\<close>): the compiler appends one descriptor and the bytes
  of its table behind the manifest and refreshes the checksum; the reader looks a table up
  by its identifier.  CRC-32C is a parameter.
\<close>

definition rans_codec_id :: nat where
  "rans_codec_id = 1"

definition rans_table_id :: nat where
  "rans_table_id = 1"

definition i32_at :: "byte list \<Rightarrow> nat \<Rightarrow> string + int" where
  "i32_at bs off =
     try_bind (at_bytes 4 ''truncated rANS i32'' bs off) (\<lambda>v. Inr (signed32 v))"

definition put_i32 :: "byte list \<Rightarrow> nat \<Rightarrow> int \<Rightarrow> byte list" where
  "put_i32 bs off v = put_bytes off (le_bytes 4 (nat (v mod 2 ^ 32))) bs"

section \<open>Writing the region\<close>

definition resize :: "nat \<Rightarrow> byte list \<Rightarrow> byte list" where
  "resize n bs = take n bs @ replicate (n - length bs) 0"

definition region_size :: "nat \<Rightarrow> nat \<Rightarrow> nat option" where
  "region_size data_offset blob_bytes =
     map_option (\<lambda>v. v div 16 * 16)
       (Option.bind (checked_add_usize data_offset blob_bytes) (\<lambda>v. checked_add_usize v 15))"

definition fill_region :: "(byte list \<Rightarrow> nat) \<Rightarrow> byte list \<Rightarrow> nat \<Rightarrow> nat \<Rightarrow> byte list \<Rightarrow> byte list" where
  "fill_region crc blob start data_offset m =
     (let m1 = put_u32 m start rans_table_id;
          m2 = put_u16 m1 (start + 4) rans_codec_id;
          m3 = put_i32 m2 (start + 8) (-1);
          m4 = put_u64 m3 (start + 16) data_offset;
          m5 = put_u64 m4 (start + 24) (length blob);
          m6 = put_u32 m5 (start + 32) (crc blob)
      in put_bytes (start + data_offset) blob m6)"

definition seal_manifest :: "(byte list \<Rightarrow> nat) \<Rightarrow> nat \<Rightarrow> nat \<Rightarrow> byte list \<Rightarrow> byte list" where
  "seal_manifest crc region_offset region_bytes m =
     (let m1 = put_u32 m 160 1;
          m2 = put_u64 m1 168 region_offset;
          m3 = put_u64 m2 176 region_bytes;
          m4 = put_bytes 144 (replicate 4 0) m3
      in put_u32 m4 144 (crc m4))"

definition manifest_table_region :: "(byte list \<Rightarrow> nat) \<Rightarrow> byte list \<Rightarrow> rans_table option \<Rightarrow> string + byte list" where
  "manifest_table_region crc manifest table =
     (case table of
        None \<Rightarrow> Inr manifest
      | Some t \<Rightarrow>
          if length manifest < 256 then Inl ''manifest is too short for codec tables''
          else
            try_bind (refuse_any ''manifest already contains a codec table region''
              [differs (u32_at manifest 160) 0, differs (u64_at manifest 168) 0, differs (u64_at manifest 176) 0]) (\<lambda>_.
            try_bind (encode_blob t) (\<lambda>blob.
              let region_offset = round16 (length manifest);
                  m1 = resize region_offset manifest;
                  data_offset = round16 64
              in case region_size data_offset (length blob) of
                   None \<Rightarrow> Inl ''codec table region size overflows''
                 | Some region_bytes \<Rightarrow>
                     (let start = length m1;
                          m2 = fill_region crc blob start data_offset (resize (start + region_bytes) m1)
                      in Inr (seal_manifest crc region_offset region_bytes m2)))))"

section \<open>Looking a table up\<close>

definition read_descriptor :: "(byte list \<Rightarrow> nat) \<Rightarrow> byte list \<Rightarrow> nat \<Rightarrow> nat \<Rightarrow> string + rans_table" where
  "read_descriptor crc region desc codec =
     try_bind (refuse_any ''invalid rANS codec table descriptor''
       [differs (u16_at region (desc + 4)) codec, differs (u16_at region (desc + 6)) 0, differs (i32_at region (desc + 8)) (-1),
        differs (u32_at region (desc + 12)) 0, differs (u32_at region (desc + 36)) 0,
        Inr (list_ex (\<lambda>b. b \<noteq> 0) (slice (desc + 40) 24 region))]) (\<lambda>_.
     try_bind (u64_at region (desc + 16)) (\<lambda>data_offset.
     try_bind (u64_at region (desc + 24)) (\<lambda>data_bytes.
     try_bind (get_range ''codec table data span overflows'' ''codec table data is outside region'' region data_offset data_bytes) (\<lambda>blob.
     try_bind (u32_at region (desc + 32)) (\<lambda>expected.
       if crc blob \<noteq> expected then Inl ''codec table CRC32C mismatch'' else decode_blob blob)))))"

fun find_descriptor :: "(byte list \<Rightarrow> nat) \<Rightarrow> byte list \<Rightarrow> nat \<Rightarrow> nat \<Rightarrow> nat \<Rightarrow> nat \<Rightarrow> string + rans_table" where
  "find_descriptor crc region table_id codec index 0 = Inl (''missing rANS codec table '' @ show_nat table_id)"
| "find_descriptor crc region table_id codec index (Suc n) =
     (case checked_mul_usize index 64 of
        None \<Rightarrow> Inl ''codec table descriptor overflows''
      | Some desc \<Rightarrow>
          if length region < desc + 64 then Inl ''truncated codec table descriptor''
          else try_bind (u32_at region desc) (\<lambda>found.
            if found \<noteq> table_id then find_descriptor crc region table_id codec (index + 1) n
            else read_descriptor crc region desc codec))"

definition table_from_manifest :: "(byte list \<Rightarrow> nat) \<Rightarrow> byte list \<Rightarrow> nat \<Rightarrow> nat \<Rightarrow> string + rans_table" where
  "table_from_manifest crc manifest table_id codec =
     (if table_id = 0 \<or> codec \<noteq> rans_codec_id then Inl ''invalid rANS codec/table reference''
      else
        try_bind (u32_at manifest 160) (\<lambda>descriptors.
        try_bind (u64_at manifest 168) (\<lambda>region_offset.
        try_bind (u64_at manifest 176) (\<lambda>region_bytes.
        try_bind (get_range ''codec table region overflows usize'' ''codec table region is outside manifest''
            manifest region_offset region_bytes) (\<lambda>region.
          find_descriptor crc region table_id codec 0 descriptors)))))"

section \<open>The region round trip\<close>

definition table_writes :: "rans_table \<Rightarrow> (nat \<times> byte list) list" where
  "table_writes t =
     [(0, table_magic), (8, le_bytes 2 1), (10, le_bytes 2 scale_bits), (12, le_bytes 4 n_streams),
      (16, le_bytes 4 auto_min_savings_bps), (20, le_bytes 4 auto_min_savings_bytes)] @
     concat (map (\<lambda>s. [(32 + s * 4, le_bytes 4 (tb_freq t ! s)), (96 + s * 4, le_bytes 4 (tb_start t ! s))]) [0..<16])"

lemma put_table_puts:
  "put_table t ss blob = puts (concat (map (\<lambda>s. [(32 + s * 4, le_bytes 4 (tb_freq t ! s)), (96 + s * 4, le_bytes 4 (tb_start t ! s))]) ss)) blob"
  by (induction ss arbitrary: blob) (simp_all add: puts_def put_u32_def)

lemma encode_blob_puts:
  "encode_blob t = (case validate_table t of Inl e \<Rightarrow> Inl e | Inr _ \<Rightarrow> Inr (puts (table_writes t) (replicate 160 0)))"
  by (simp add: encode_blob_def put_table_puts table_writes_def puts_def put_u16_def put_u32_def table_blob_bytes_def Let_def
      split: sum.split)

lemma upt16: "[0..<16] = [0, 1, 2, 3, 4, 5, 6, 7, 8, 9, 10, 11, 12, 13, 14, 15 :: nat]"
  by (simp add: upt_conv_Cons)

lemma length_table_magic [simp]: "length table_magic = 8"
  by (simp add: table_magic_def)

lemma table_writes_ok:
  "list_all (\<lambda>(off, new). off + length new \<le> 160 \<and> (off + length new \<le> 24 \<or> 32 \<le> off)) (table_writes t)"
  "sorted_wrt apart (table_writes t)"
  unfolding table_writes_def upt16 by (simp_all add: apart_def)

lemma blob_roundtrip:
  assumes "encode_blob t = Inr blob" "table_type t"
  shows "length blob = 160" and "decode_blob blob = Inr t"
proof -
  have valid: "validate_table t = Inr ()" and blob: "blob = puts (table_writes t) (replicate 160 0)"
    using assms(1) by (auto simp: encode_blob_puts split: sum.splits)
  have all: "list_all (\<lambda>(off, new). off + length new \<le> length (replicate 160 (0 :: byte))) (table_writes t)"
    using table_writes_ok(1) [of t] by (auto simp: list_all_iff)
  have keep: "keeps (map (\<lambda>(off, new). (off, length new)) (table_writes t)) (replicate 160 0) blob"
    unfolding blob by (rule puts_keeps [OF all])
  then show len: "length blob = 160" by (simp add: keeps_def)
  have rd: "slice off (length new) blob = new" if "(off, new) \<in> set (table_writes t)" for off new
    unfolding blob by (rule puts_slice [OF all table_writes_ok(2) that])
  have at: "at_bytes k msg blob off = Inr v" if "(off, le_bytes k v) \<in> set (table_writes t)" "v < 256 ^ k" "off + k \<le> 160" for k msg off v
    using rd [OF that(1)] that(2,3) len by (simp add: at_bytes_def le_nat_le_bytes flip: slice_def)
  have head: "take 8 blob = table_magic" "u16_at blob 8 = Inr 1" "u16_at blob 10 = Inr scale_bits"
    "u32_at blob 12 = Inr n_streams" "u32_at blob 16 = Inr auto_min_savings_bps" "u32_at blob 20 = Inr auto_min_savings_bytes"
    using rd [of 0 table_magic] unfolding u16_at_def u32_at_def take_slice
    by (auto intro!: at simp: table_writes_def scale_bits_def n_streams_def auto_min_savings_bps_def auto_min_savings_bytes_def)
  have zero: "take 8 (drop 24 blob) = replicate 8 0"
  proof -
    have "list_all (\<lambda>(w, k). 24 + 8 \<le> w \<or> w + k \<le> 24) (map (\<lambda>(off, new). (off, length new)) (table_writes t))"
      using table_writes_ok(1) [of t] by (fastforce simp: list_all_iff)
    from keepsD [OF keep this] show ?thesis by (simp add: slice_def)
  qed
  have fields: "u32_at blob (32 + s * 4) = Inr (tb_freq t ! s)" "u32_at blob (96 + s * 4) = Inr (tb_start t ! s)" if "s < 16" for s
    using assms(2) that unfolding u32_at_def
    by (auto intro!: at simp: table_writes_def table_type_def list_all_length u32_max_def less_eq_Suc_le)
  have "read_table blob [k..<16] = Inr (map ((!) (tb_freq t)) [k..<16], map ((!) (tb_start t)) [k..<16])" for k
  proof (induction "16 - k" arbitrary: k)
    case (Suc d)
    then have k: "k < 16" by simp
    have "read_table blob [Suc k..<16] = Inr (map ((!) (tb_freq t)) [Suc k..<16], map ((!) (tb_start t)) [Suc k..<16])"
      using Suc by simp
    then show ?case unfolding upt_conv_Cons [OF k] by (simp add: fields [OF k] del: upt_Suc)
  qed simp
  then have "read_table blob [0..<16] = Inr (tb_freq t, tb_start t)"
    using assms(2) by (metis map_nth table_type_def)
  moreover have eta: "\<lparr>tb_freq = tb_freq t, tb_start = tb_start t\<rparr> = t" by simp
  ultimately show "decode_blob blob = Inr t"
    using len head zero valid by (simp add: decode_blob_def table_blob_bytes_def list_ex_iff Let_def eta)
qed

lemma at_bytes_in: "off + k \<le> length bs \<Longrightarrow> at_bytes k msg bs off = Inr (le_nat (slice off k bs))"
  by (simp add: at_bytes_def slice_def)

lemma length_resize [simp]: "length (resize n bs) = n"
  by (simp add: resize_def)

lemma slice_resize: "off + k \<le> length bs \<Longrightarrow> off + k \<le> n \<Longrightarrow> slice off k (resize n bs) = slice off k bs"
proof -
  assume "off + k \<le> length bs" "off + k \<le> n"
  then have "k \<le> length bs - off" "k \<le> n - off" by linarith+
  then show ?thesis by (simp add: slice_def resize_def drop_take)
qed

lemma slice_resize_new: "length bs \<le> off \<Longrightarrow> off + k \<le> n \<Longrightarrow> slice off k (resize n bs) = replicate k 0"
  by (simp add: slice_def resize_def min_def)

definition region_writes :: "(byte list \<Rightarrow> nat) \<Rightarrow> byte list \<Rightarrow> nat \<Rightarrow> (nat \<times> byte list) list" where
  "region_writes crc blob start =
     [(start, le_bytes 4 rans_table_id), (start + 4, le_bytes 2 rans_codec_id), (start + 8, le_bytes 4 (2 ^ 32 - 1)),
      (start + 16, le_bytes 8 64), (start + 24, le_bytes 8 (length blob)), (start + 32, le_bytes 4 (crc blob)),
      (start + 64, blob)]"

lemma fill_region_puts: "fill_region crc blob start 64 m = puts (region_writes crc blob start) m"
  by (simp add: fill_region_def region_writes_def puts_def put_u16_def put_u32_def put_u64_def put_i32_def Let_def)

text \<open>The region as the writer leaves it: the last 224 bytes of the sealed manifest.\<close>

lemma table_region_image:
  assumes "manifest_table_region crc m (Some t) = Inr m'" "table_type t"
  obtains blob start where
    "encode_blob t = Inr blob" "length blob = 160" "start = round16 (length m)" "length m' = start + 224" "256 \<le> length m"
    "list_all (\<lambda>(off, new). slice off (length new) m' = new) (region_writes crc blob start)"
    "slice (start + 6) 2 m' = replicate 2 0" "slice (start + 12) 4 m' = replicate 4 0" "slice (start + 36) 28 m' = replicate 28 0"
    "slice 160 4 m' = le_bytes 4 1" "slice 168 8 m' = le_bytes 8 start" "slice 176 8 m' = le_bytes 8 224"
    "slice 0 144 m' = slice 0 144 m" "slice 184 (length m - 184) m' = slice 184 (length m - 184) m"
    "slice 144 4 m' = le_bytes 4 (crc (put_bytes 144 (replicate 4 0) m'))"
proof -
  from assms(1) obtain blob where blob: "encode_blob t = Inr blob" and len: "256 \<le> length m"
    by (auto simp: manifest_table_region_def try_bind_Inr split: if_splits)
  have l160: "length blob = 160" using blob_roundtrip [OF blob assms(2)] by simp
  define start where "start = round16 (length m)"
  have start: "length m \<le> start" using round16_ge by (simp add: start_def)
  have r64: "round16 64 = 64" by (simp add: round16_def)
  have size: "region_size 64 160 = Some 224" by (simp add: region_size_def checked_add_usize_def usize_max_def)
  define m2 where "m2 = puts (region_writes crc blob start) (resize (start + 224) (resize start m))"
  define m3 where "m3 = put_u64 (put_u64 (put_u32 m2 160 1) 168 start) 176 224"
  define m4 where "m4 = put_bytes 144 (replicate 4 0) m3"
  have m': "m' = put_u32 m4 144 (crc m4)"
    using assms(1) len blob
    by (auto simp: manifest_table_region_def try_bind_Inr Let_def r64 l160 size fill_region_puts seal_manifest_def start_def
        m2_def m3_def m4_def)
  have ws: "list_all (\<lambda>(off, new). off + length new \<le> length (resize (start + 224) (resize start m)) \<and> start \<le> off \<and>
      (off + length new \<le> start + 6 \<or> start + 8 \<le> off) \<and> (off + length new \<le> start + 12 \<or> start + 16 \<le> off) \<and>
      (off + length new \<le> start + 36 \<or> start + 64 \<le> off))
      (region_writes crc blob start)" "sorted_wrt apart (region_writes crc blob start)"
    by (simp_all add: region_writes_def apart_def l160)
  have fit: "list_all (\<lambda>(off, new). off + length new \<le> length (resize (start + 224) (resize start m))) (region_writes crc blob start)"
    using ws(1) by (auto simp: list_all_iff)
  have len2: "length m2 = start + 224" using puts_keeps [OF fit] by (simp add: m2_def keeps_def)
  have k2: "slice off n m2 = slice off n (resize (start + 224) (resize start m))"
    if "off + n \<le> start \<or> (start \<le> off \<and> (off + n = start + 8 \<and> off = start + 6 \<or> off = start + 12 \<and> n = 4 \<or> off = start + 36 \<and> n = 28))"
    for off n
    unfolding m2_def using that ws(1) by (intro keepsD [OF puts_keeps [OF fit]]) (fastforce simp: list_all_iff)
  have l3: "length m3 = start + 224" "length m4 = start + 224" "length m' = start + 224"
    using len2 len start by (simp_all add: m' m4_def m3_def put_u32_def put_u64_def length_put_bytes)
  have late: "slice off n m' = slice off n m2" if "184 \<le> off \<or> off + n \<le> 144" for off n
    using that l3 len2 len start
    by (elim disjE) (simp_all add: m' m4_def m3_def put_u32_def put_u64_def buffer_simps)
  have head: "slice 160 4 m' = le_bytes 4 1" "slice 168 8 m' = le_bytes 8 start" "slice 176 8 m' = le_bytes 8 224"
    using l3 len2 len start by (simp_all add: m' m4_def m3_def put_u32_def put_u64_def buffer_simps)
  have writes: "slice off (length new) m' = new" if "(off, new) \<in> set (region_writes crc blob start)" for off new
  proof -
    have "start \<le> off" using ws(1) that by (auto simp: list_all_iff)
    then have "slice off (length new) m' = slice off (length new) m2" using len start by (intro late) simp
    then show ?thesis unfolding m2_def using puts_slice [OF fit ws(2) that] by simp
  qed
  have zero: "slice (start + 6) 2 m' = replicate 2 0" "slice (start + 12) 4 m' = replicate 4 0" "slice (start + 36) 28 m' = replicate 28 0"
    using late [of "start + 6" 2] late [of "start + 12" 4] late [of "start + 36" 28] k2 [of "start + 6" 2] k2 [of "start + 12" 4]
      k2 [of "start + 36" 28] len start by (simp_all add: slice_resize_new)
  have old: "slice 0 144 m' = slice 0 144 m" "slice 184 (length m - 184) m' = slice 184 (length m - 184) m"
    using late [of 0 144] late [of 184 "length m - 184"] k2 [of 0 144] k2 [of 184 "length m - 184"] len start
    by (simp_all add: slice_resize)
  have "put_bytes 144 (replicate 4 0) m' = m4"
    using l3 len start by (simp add: m' m4_def put_u32_def put_put)
  then have seal: "slice 144 4 m' = le_bytes 4 (crc (put_bytes 144 (replicate 4 0) m'))"
    using l3 len start by (simp add: m' put_u32_def slice_put_same)
  have writes: "list_all (\<lambda>(off, new). slice off (length new) m' = new) (region_writes crc blob start)"
    using writes by (auto simp: list_all_iff)
  show thesis using that [OF blob l160 start_def l3(3) len writes zero head old seal] .
qed

lemma table_region_ok:
  assumes "valid_table t" "256 \<le> length m" "slice 160 24 m = replicate 24 0"
  shows "\<exists>m'. manifest_table_region crc m (Some t) = Inr m'"
proof -
  from assms(1) obtain blob where blob: "encode_blob t = Inr blob" and ty: "table_type t"
    by (auto simp: encode_blob_puts valid_table_def)
  from blob_roundtrip(1) [OF blob ty] have l: "length blob = 160" .
  have "slice 160 4 m = replicate 4 0" "slice 168 8 m = replicate 8 0" "slice 176 8 m = replicate 8 0"
    using assms(3) slice_slice [of 0 4 24 160 m] slice_slice [of 8 8 24 160 m] slice_slice [of 16 8 24 160 m]
    by (simp_all add: slice_zeros)
  then have "u32_at m 160 = Inr 0" "u64_at m 168 = Inr 0" "u64_at m 176 = Inr 0"
    using assms(2) by (simp_all add: u32_at_def u64_at_def at_bytes_in le_nat_zeros)
  moreover have "region_size (round16 64) 160 = Some 224"
    by (simp add: round16_def region_size_def checked_add_usize_def usize_max_def)
  ultimately show ?thesis using assms(2) blob l by (simp add: manifest_table_region_def Let_def)
qed

text \<open>
  A table appended to a manifest by the compiler is found again, equal, by the lookup of its
  identifier; the manifest bytes outside the three region fields and the checksum are kept, and
  the checksum is that of the sealed manifest with its own field zeroed.
\<close>

lemma table_region_roundtrip:
  assumes "manifest_table_region crc m (Some t) = Inr m'" "table_type t"
    and "\<And>bs. crc bs < 2 ^ 32" "length m' \<le> usize_max"
  shows "table_from_manifest crc m' rans_table_id rans_codec_id = Inr t"
    and "take 144 m' = take 144 m" "slice 184 (length m - 184) m' = drop 184 m"
    and "slice 144 4 m' = le_bytes 4 (crc (put_bytes 144 (replicate 4 0) m'))"
proof -
  from assms(1,2) obtain blob start where
    blob: "encode_blob t = Inr blob" "length blob = 160" and start: "start = round16 (length m)"
    and len: "length m' = start + 224" "256 \<le> length m"
    and ws: "list_all (\<lambda>(off, new). slice off (length new) m' = new) (region_writes crc blob start)"
    and zero: "slice (start + 6) 2 m' = replicate 2 0" "slice (start + 12) 4 m' = replicate 4 0" "slice (start + 36) 28 m' = replicate 28 0"
    and head: "slice 160 4 m' = le_bytes 4 1" "slice 168 8 m' = le_bytes 8 start" "slice 176 8 m' = le_bytes 8 224"
    and old: "slice 0 144 m' = slice 0 144 m" "slice 184 (length m - 184) m' = slice 184 (length m - 184) m"
    and seal: "slice 144 4 m' = le_bytes 4 (crc (put_bytes 144 (replicate 4 0) m'))"
    by (rule table_region_image)
  have u: "usize_max < 256 ^ 8" by (simp add: usize_max_def)
  have st: "256 \<le> start" "start < 256 ^ 8" using len assms(4) u round16_ge [of "length m"] by (simp_all add: start)
  have crc: "crc blob < 256 ^ 4" using assms(3) [of blob] by simp
  define region where "region = slice start 224 m'"
  have lr: "length region = 224" using len by (simp add: region_def length_slice)
  have sub: "slice a k region = slice (start + a) k m'" if "a + k \<le> 224" for a k
    using that by (simp add: region_def slice_slice)
  have w: "slice a (length new) region = new"
    if "(start + a, new) \<in> set (region_writes crc blob start)" "a + length new \<le> 224" for a new
    using ws that by (auto simp: sub list_all_iff)
  have zs: "slice 6 2 region = replicate 2 0" "slice 12 4 region = replicate 4 0" "slice 36 4 region = replicate 4 0"
    using slice_slice [of 0 4 28 "start + 36" m'] zero by (simp_all add: sub slice_zeros)
  have reads:
    "u32_at region 0 = Inr rans_table_id" "u16_at region 4 = Inr rans_codec_id" "u16_at region 6 = Inr 0"
    "i32_at region 8 = Inr (-1)" "u32_at region 12 = Inr 0" "u32_at region 36 = Inr 0"
    "u64_at region 16 = Inr 64" "u64_at region 24 = Inr 160" "u32_at region 32 = Inr (crc blob)"
    using w [of 0 "le_bytes 4 rans_table_id"] w [of 4 "le_bytes 2 rans_codec_id"] w [of 8 "le_bytes 4 (2 ^ 32 - 1)"]
      w [of 16 "le_bytes 8 64"] w [of 24 "le_bytes 8 160"] w [of 32 "le_bytes 4 (crc blob)"]
      zs crc lr blob(2)
    by (simp_all add: region_writes_def u16_at_def u32_at_def u64_at_def i32_at_def at_bytes_in le_nat_le_bytes le_nat_zeros
        rans_table_id_def rans_codec_id_def signed32_def)
  have pad: "slice 40 24 region = replicate 24 0"
    using sub [of 40 24] slice_slice [of 4 24 28 "start + 36" m'] zero by (simp add: slice_zeros add.commute)
  have data: "slice 64 160 region = blob" using w [of 64 blob] blob(2) by (simp add: region_writes_def)
  have fields: "u32_at m' 160 = Inr 1" "u64_at m' 168 = Inr start" "u64_at m' 176 = Inr 224"
    using head len st by (simp_all add: u32_at_def u64_at_def at_bytes_in le_nat_le_bytes)
  have g1: "get_range a b m' start 224 = Inr region" for a b
    using assms(4) len by (simp add: get_range_def checked_add_usize_def region_def)
  have g2: "get_range a b region 64 160 = Inr blob" for a b
    by (simp add: get_range_def checked_add_usize_def usize_max_def data lr)
  have "read_descriptor crc region 0 rans_codec_id = Inr t"
    using blob_roundtrip(2) [OF blob(1) assms(2)] by (simp add: read_descriptor_def reads pad g2 list_ex_iff)
  then show "table_from_manifest crc m' rans_table_id rans_codec_id = Inr t"
    using reads(1) lr by (simp add: table_from_manifest_def fields g1 checked_mul_usize_def rans_table_id_def)
  show "take 144 m' = take 144 m" using old(1) by (simp add: slice_def)
  show "slice 184 (length m - 184) m' = drop 184 m" using old(2) len(2) by (simp add: slice_def)
  show "slice 144 4 m' = le_bytes 4 (crc (put_bytes 144 (replicate 4 0) m'))" by (rule seal)
qed

end
