(* ===== verification/Coli_Codecs.thy ===== *)
theory Coli_Codecs
  imports Rans_Table Rans_Manifest
begin

text \<open>
  The runtime's decoders of COLI records (\<^verbatim>\<open>logan-format/src/codecs.rs\<close>): a second rANS
  decoder beside the compiler's, written for the reader crate.  States are \<^verbatim>\<open>u32\<close> words here.
  The struct \<^verbatim>\<open>RansTable\<close> has the fields of the compiler's \<^verbatim>\<open>Table\<close> and is the same record.
\<close>

section \<open>Errors and fields\<close>

datatype format_error = Format_invalid string | Format_io string string

definition usage_error :: "string \<Rightarrow> format_error" where
  "usage_error detail = Format_invalid detail"

definition invalid_error :: "string \<Rightarrow> format_error" where
  "invalid_error detail = usage_error (''invalid COLI package: '' @ detail)"

definition coli_at :: "nat \<Rightarrow> byte list \<Rightarrow> nat \<Rightarrow> format_error + nat" where
  "coli_at k bs off =
     (if off + k \<le> length bs then Inr (le_nat (slice off k bs)) else Inl (usage_error ''truncated COLI structure''))"

definition coli_u16 :: "byte list \<Rightarrow> nat \<Rightarrow> format_error + nat" where
  "coli_u16 = coli_at 2"

definition coli_u32 :: "byte list \<Rightarrow> nat \<Rightarrow> format_error + nat" where
  "coli_u32 = coli_at 4"

definition coli_u64 :: "byte list \<Rightarrow> nat \<Rightarrow> format_error + nat" where
  "coli_u64 = coli_at 8"

definition coli_i32 :: "byte list \<Rightarrow> nat \<Rightarrow> format_error + int" where
  "coli_i32 bs off = try_bind (coli_at 4 bs off) (\<lambda>v. Inr (signed32 v))"

section \<open>The table\<close>

fun coli_starts :: "nat list \<Rightarrow> nat list \<Rightarrow> nat \<Rightarrow> format_error + nat" where
  "coli_starts (f # fs) (s # ss) cursor =
     (if s \<noteq> cursor then Inl (invalid_error ''rANS start offsets are not contiguous'')
      else if scale_m < cursor + f then Inl (invalid_error ''rANS cumulative frequencies overflow M'')
      else coli_starts fs ss (cursor + f))"
| "coli_starts _ _ cursor = Inr cursor"

definition coli_validate :: "rans_table \<Rightarrow> format_error + unit" where
  "coli_validate t =
     (if sum_list (tb_freq t) \<noteq> scale_m then Inl (invalid_error ''rANS frequencies do not sum to M'')
      else try_bind (coli_starts (tb_freq t) (tb_start t) 0) (\<lambda>cursor.
        if cursor \<noteq> scale_m then Inl (invalid_error ''rANS cumulative frequencies do not cover M'') else Inr ()))"

definition coli_slots :: "rans_table \<Rightarrow> format_error + nat list" where
  "coli_slots t =
     try_bind (coli_validate t) (\<lambda>_.
       Inr (fold (\<lambda>symbol. put_bytes (tb_start t ! symbol) (replicate (tb_freq t ! symbol) symbol))
         [0..<16] (replicate scale_m 0)))"

definition coli_row :: "byte list \<Rightarrow> nat \<Rightarrow> format_error + nat \<times> nat" where
  "coli_row blob s =
     try_bind (coli_u32 blob (32 + s * 4)) (\<lambda>f. try_bind (coli_u32 blob (96 + s * 4)) (\<lambda>b. Inr (f, b)))"

definition coli_decode_blob :: "byte list \<Rightarrow> format_error + rans_table" where
  "coli_decode_blob blob =
     (let bad = invalid_error ''invalid rANS256-g0-nibble codec table blob'' in
      if length blob \<noteq> table_blob_bytes \<or> take 8 blob \<noteq> table_magic then Inl bad
      else
        try_bind (refuse_any bad
          [differs (coli_u16 blob 8) 1, differs (coli_u16 blob 10) scale_bits, differs (coli_u32 blob 12) n_streams,
           differs (coli_u32 blob 16) auto_min_savings_bps, differs (coli_u32 blob 20) auto_min_savings_bytes,
           Inr (list_ex (\<lambda>b. b \<noteq> 0) (slice 24 8 blob))]) (\<lambda>_.
        try_bind (try_map (coli_row blob) [0..<16]) (\<lambda>rows.
        let t = \<lparr>tb_freq = map fst rows, tb_start = map snd rows\<rparr>
        in try_bind (coli_validate t) (\<lambda>_. Inr t))))"

definition coli_descriptor :: "(byte list \<Rightarrow> nat) \<Rightarrow> byte list \<Rightarrow> nat \<Rightarrow> nat \<Rightarrow> format_error + rans_table" where
  "coli_descriptor crc region desc codec =
     try_bind (refuse_any (invalid_error ''invalid rANS codec table descriptor'')
       [differs (coli_u16 region (desc + 4)) codec, differs (coli_u16 region (desc + 6)) 0,
        differs (coli_i32 region (desc + 8)) (-1), differs (coli_u32 region (desc + 12)) 0,
        differs (coli_u32 region (desc + 36)) 0, Inr (list_ex (\<lambda>b. b \<noteq> 0) (slice (desc + 40) 24 region))]) (\<lambda>_.
     try_bind (coli_u64 region (desc + 16)) (\<lambda>data_offset.
     try_bind (coli_u64 region (desc + 24)) (\<lambda>data_bytes.
     try_bind (get_range (usage_error ''codec table data span overflows usize'')
         (usage_error ''codec table data is outside region'') region data_offset data_bytes) (\<lambda>blob.
     try_bind (coli_u32 region (desc + 32)) (\<lambda>expected.
       if crc blob \<noteq> expected then Inl (invalid_error ''codec table CRC32C mismatch'') else coli_decode_blob blob)))))"

fun coli_find :: "(byte list \<Rightarrow> nat) \<Rightarrow> byte list \<Rightarrow> nat \<Rightarrow> nat \<Rightarrow> nat \<Rightarrow> nat \<Rightarrow> format_error + rans_table" where
  "coli_find crc region table_id codec index 0 = Inl (invalid_error (''missing rANS codec table '' @ show_nat table_id))"
| "coli_find crc region table_id codec index (Suc n) =
     (case checked_mul_usize index 64 of
        None \<Rightarrow> Inl (usage_error ''codec table descriptor overflows'')
      | Some desc \<Rightarrow>
          if length region < desc + 64 then Inl (invalid_error ''truncated codec table descriptor'')
          else try_bind (coli_u32 region desc) (\<lambda>found.
            if found \<noteq> table_id then coli_find crc region table_id codec (index + 1) n
            else coli_descriptor crc region desc codec))"

definition coli_from_manifest :: "(byte list \<Rightarrow> nat) \<Rightarrow> byte list \<Rightarrow> nat \<Rightarrow> nat \<Rightarrow> format_error + rans_table" where
  "coli_from_manifest crc manifest table_id codec =
     (if table_id = 0 \<or> codec \<noteq> rans_codec_id then Inl (invalid_error ''invalid rANS codec/table reference'')
      else
        try_bind (coli_u32 manifest 160) (\<lambda>descriptors.
        try_bind (coli_u64 manifest 168) (\<lambda>region_offset.
        try_bind (coli_u64 manifest 176) (\<lambda>region_bytes.
        try_bind (get_range (usage_error ''codec table region overflows usize'')
            (usage_error ''codec table region is outside manifest'') manifest region_offset region_bytes) (\<lambda>region.
          coli_find crc region table_id codec 0 descriptors)))))"

section \<open>Streams and records\<close>

fun coli_renorm :: "32 word \<Rightarrow> byte list \<Rightarrow> 32 word \<times> byte list" where
  "coli_renorm state [] = (state, [])"
| "coli_renorm state (b # bs) =
     (if state < word_of_nat rans_l then coli_renorm (push_bit 8 state OR ucast b) bs else (state, b # bs))"

fun coli_symbols :: "rans_table \<Rightarrow> nat list \<Rightarrow> nat \<Rightarrow> 32 word \<Rightarrow> byte list \<Rightarrow> byte list \<times> 32 word \<times> byte list" where
  "coli_symbols t slots 0 state bs = ([], state, bs)"
| "coli_symbols t slots (Suc n) state bs =
     (let slot = state AND (word_of_nat scale_m - 1);
          symbol = slots ! unat slot;
          state' = word_of_nat (tb_freq t ! symbol) * drop_bit scale_bits state + slot - word_of_nat (tb_start t ! symbol);
          (state'', bs') = coli_renorm state' bs;
          (rest, final) = coli_symbols t slots n state'' bs'
      in (word_of_nat symbol # rest, final))"

definition coli_stream :: "byte list \<Rightarrow> nat \<Rightarrow> rans_table \<Rightarrow> nat list \<Rightarrow> format_error + byte list" where
  "coli_stream stream symbols t slots =
     (if length stream < 4 then Inl (invalid_error ''rANS stream is shorter than its state'')
      else
        let state = (word_of_nat (le_nat (rev (take 4 stream))) :: 32 word) in
        if state < word_of_nat rans_l then Inl (invalid_error ''rANS initial state is out of range'')
        else
          (case coli_symbols t slots symbols state (drop 4 stream) of
             (out, final, rest) \<Rightarrow>
               if rest \<noteq> [] then Inl (invalid_error ''rANS stream has trailing bytes'')
               else if final \<noteq> word_of_nat rans_l then Inl (invalid_error ''rANS stream final state is invalid'')
               else Inr out))"

definition rans_header_bytes :: nat where
  "rans_header_bytes = round16 (16 + (n_streams + 1) * 4)"

definition coli_parse :: "byte list \<Rightarrow> format_error + parsed_record" where
  "coli_parse rec =
     (let header = rans_header_bytes in
      if length rec < header then Inl (invalid_error ''truncated rANS record'')
      else
        try_bind (coli_u64 rec 0) (\<lambda>symbols.
        try_bind (coli_u64 rec 8) (\<lambda>packed.
        if symbols = 0 \<or> packed \<noteq> symbols div 2 + symbols mod 2 then Inl (invalid_error ''invalid rANS symbol/byte counts'')
        else
        try_bind (try_map (\<lambda>stream. coli_u32 rec (16 + stream * 4)) [0..<n_streams + 1]) (\<lambda>offsets.
        if offsets ! 0 \<noteq> 0 then Inl (invalid_error ''rANS first stream offset is nonzero'')
        else if list_ex (\<lambda>(a, b). b < a \<or> b - a < 4) (zip offsets (tl offsets))
        then Inl (invalid_error ''rANS stream offsets are malformed'')
        else
          let payload = offsets ! n_streams in
          (case checked_add_usize header (round16 payload) of
             None \<Rightarrow> Inl (usage_error ''rANS record length overflows'')
           | Some expected \<Rightarrow>
               if expected \<noteq> length rec \<or> length rec < header + payload
               then Inl (invalid_error ''rANS record length mismatch'')
               else if list_ex (\<lambda>b. b \<noteq> 0) (slice (16 + (n_streams + 1) * 4) (header - (16 + (n_streams + 1) * 4)) rec) \<or>
                 list_ex (\<lambda>b. b \<noteq> 0) (drop (header + payload) rec)
               then Inl (invalid_error ''rANS record padding is nonzero'')
               else if payload * 8 * 2 ^ 15 < symbols then Inl (invalid_error ''rANS record exceeds amplification bound'')
               else Inr \<lparr>pd_n_symbols = symbols, pd_packed_bytes = packed, pd_offsets = offsets,
                 pd_payload = slice header payload rec\<rparr>)))))"

text \<open>
  The loop over the streams.  The count of a stream's symbols and the writing of its nibbles
  are the same code as the compiler's.
\<close>

fun coli_streams :: "parsed_record \<Rightarrow> rans_table \<Rightarrow> nat list \<Rightarrow> nat list \<Rightarrow> byte list \<Rightarrow> format_error + byte list" where
  "coli_streams p t slots [] out = Inr out"
| "coli_streams p t slots (stream # rest) out =
     (let begin = pd_offsets p ! stream; finish = pd_offsets p ! (stream + 1) in
      try_bind (coli_stream (slice begin (finish - begin) (pd_payload p))
          (stream_symbol_count (pd_n_symbols p) stream) t slots) (\<lambda>decoded.
        coli_streams p t slots rest (scatter decoded stream out)))"

definition coli_decode_record :: "rans_table \<Rightarrow> byte list \<Rightarrow> nat \<Rightarrow> format_error + byte list" where
  "coli_decode_record t rec expected =
     try_bind (coli_parse rec) (\<lambda>p.
       if pd_packed_bytes p \<noteq> expected \<or> pd_n_symbols p \<noteq> expected * 2 mod 2 ^ 64
       then Inl (invalid_error ''rANS decoded length does not match matrix descriptor'')
       else try_bind (coli_slots t) (\<lambda>slots. coli_streams p t slots [0..<n_streams] (replicate expected 0)))"

section \<open>Apple8 tiles\<close>

definition div_ceil :: "nat \<Rightarrow> nat \<Rightarrow> nat" where
  "div_ceil a b = (if a mod b = 0 then a div b else a div b + 1)"

definition apple8_tile_bytes :: "nat \<Rightarrow> nat \<Rightarrow> format_error + nat" where
  "apple8_tile_bytes rows columns =
     (if rows = 0 \<or> columns = 0 then Inl (invalid_error ''Apple8 matrix has a zero dimension'')
      else case Option.bind (checked_mul_u64 (div_ceil rows 8) (div_ceil columns 32)) (\<lambda>tiles. checked_mul_u64 tiles 136) of
             None \<Rightarrow> Inl (usage_error ''Apple8 matrix byte count overflows'')
           | Some n \<Rightarrow> Inr n)"

definition apple8_decode :: "byte list \<Rightarrow> rans_table \<Rightarrow> nat \<Rightarrow> nat \<Rightarrow> format_error + byte list" where
  "apple8_decode rec t rows columns = try_bind (apple8_tile_bytes rows columns) (\<lambda>n. coli_decode_record t rec n)"

end
