(* ===== verification/Coli_Codecs_Props.thy ===== *)
theory Coli_Codecs_Props
  imports Coli_Codecs
begin

text \<open>
  The two rANS implementations of the repository agree: on every input the runtime's decoders
  of \<^verbatim>\<open>logan-format\<close> succeed exactly where the compiler's own of \<^verbatim>\<open>logan-compiler\<close> do, with the
  same value.  So the records and codec tables the compiler writes are read back by the runtime.
\<close>

section \<open>Fields\<close>

lemma ok_at: "ok (coli_at k bs off) = ok (at_bytes k msg bs off)"
  by (simp add: coli_at_def at_bytes_def slice_def)

lemma ok_fields:
  "ok (coli_u16 bs off) = ok (u16_at bs off)" "ok (coli_u32 bs off) = ok (u32_at bs off)"
  "ok (coli_u64 bs off) = ok (u64_at bs off)" "ok (coli_i32 bs off) = ok (i32_at bs off)"
  by (simp_all add: coli_u16_def u16_at_def coli_u32_def u32_at_def coli_u64_def u64_at_def coli_i32_def i32_at_def ok_at [symmetric])

lemma field_iff:
  "coli_u16 bs off = Inr v \<longleftrightarrow> u16_at bs off = Inr v" "coli_u32 bs off = Inr v \<longleftrightarrow> u32_at bs off = Inr v"
  "coli_u64 bs off = Inr v \<longleftrightarrow> u64_at bs off = Inr v" "coli_i32 bs off = Inr i \<longleftrightarrow> i32_at bs off = Inr i"
  by (simp_all add: ok_fields flip: ok_eq_Some)

lemma ok_refuse_any: "ok (refuse_any e cs) = (if list_all (\<lambda>c. ok c = Some False) cs then Some () else None)"
proof (induction cs)
  case (Cons c cs)
  then show ?case by (cases c) simp_all
qed simp

lemma ok_get_range: "ok (get_range a b bs off n) =
    (if off + n \<le> usize_max \<and> off + n \<le> length bs then Some (slice off n bs) else None)"
  by (simp add: get_range_def checked_add_usize_def)

lemma ok_cong_bind: "ok r = ok r' \<Longrightarrow> (\<And>x. ok (f x) = ok (g x)) \<Longrightarrow> ok (try_bind r f) = ok (try_bind r' g)"
  by simp

lemma option_bind_cong_right: "(\<And>x. x \<in> set_option r \<Longrightarrow> f x = g x) \<Longrightarrow> Option.bind r f = Option.bind r g"
  by (cases r) simp_all

section \<open>Tables\<close>

lemma validate_from_sum: "validate_from fs ss c = Inr d \<Longrightarrow> length ss = length fs \<Longrightarrow> d = c + sum_list fs"
  by (induction fs ss c rule: validate_from.induct) (auto simp: checked_add_u32_def split: if_splits)

lemma ok_starts: "c + sum_list fs \<le> scale_m \<Longrightarrow> ok (coli_starts fs ss c) = ok (validate_from fs ss c)"
  by (induction fs ss c rule: coli_starts.induct) (auto simp: checked_add_u32_def rans_consts u32_max_def)

lemma ok_validate:
  assumes "length (tb_start t) = length (tb_freq t)"
  shows "ok (coli_validate t) = ok (validate_table t)"
proof (cases "sum_list (tb_freq t) = scale_m")
  case True
  then show ?thesis using ok_starts [of 0 "tb_freq t" "tb_start t"]
    by (auto simp: coli_validate_def validate_table_def ok_case_sum ok_def split: sum.splits)
next
  case False
  then show ?thesis using validate_from_sum [of "tb_freq t" "tb_start t" 0] assms
    by (auto simp: coli_validate_def validate_table_def split: sum.split)
qed

lemma coli_validate_iff: "table_type t \<Longrightarrow> coli_validate t = Inr () \<longleftrightarrow> validate_table t = Inr ()"
  using ok_validate [of t] by (metis ok_eq_Some table_type_def)

lemma ok_slots: "table_type t \<Longrightarrow> ok (coli_slots t) = ok (slot_to_symbol t)"
proof -
  assume "table_type t"
  then have "ok (coli_validate t) = ok (validate_table t)" by (intro ok_validate) (simp add: table_type_def)
  moreover have "put_bytes (tb_start t ! s) (replicate (tb_freq t ! s) s) = fill_slots t s" for s
    by (rule ext) (simp add: put_bytes_def fill_slots_def Let_def)
  ultimately show ?thesis
    by (auto simp: coli_slots_def slot_to_symbol_def ok_def split: sum.splits)
qed

lemma ok_row:
  "ok (coli_row blob s) = Option.bind (ok (u32_at blob (32 + s * 4))) (\<lambda>f. map_option (Pair f) (ok (u32_at blob (96 + s * 4))))"
  by (cases "u32_at blob (96 + s * 4)") (simp_all add: coli_row_def ok_fields)

lemma ok_read_table:
  "ok (read_table blob ss) = map_option (\<lambda>rows. (map fst rows, map snd rows)) (ok (try_map (coli_row blob) ss))"
proof (induction ss)
  case (Cons s ss)
  show ?case
  proof (cases "u32_at blob (32 + s * 4)")
    case f: (Inr f)
    show ?thesis
    proof (cases "u32_at blob (96 + s * 4)")
      case b: (Inr b)
      then show ?thesis using Cons f
        by (cases "read_table blob ss"; cases "try_map (coli_row blob) ss") (auto simp: ok_row b)
    qed (simp add: ok_row f)
  qed (simp add: ok_row)
qed simp

lemma read_table_length: "read_table blob ss = Inr (fs, cs) \<Longrightarrow> length fs = length ss \<and> length cs = length ss"
  by (induction ss arbitrary: fs cs) (auto split: sum.splits)

lemma ok_decode_blob: "ok (coli_decode_blob blob) = ok (decode_blob blob)"
proof (cases "try_map (coli_row blob) [0..<16]")
  case (Inr rs)
  then have rows: "read_table blob [0..<16] = Inr (map fst rs, map snd rs)"
    using ok_read_table [of blob "[0..<16]"] by simp
  have "ok (coli_validate \<lparr>tb_freq = map fst rs, tb_start = map snd rs\<rparr>) =
      ok (validate_table \<lparr>tb_freq = map fst rs, tb_start = map snd rs\<rparr>)"
    by (intro ok_validate) simp
  with Inr rows show ?thesis
    by (simp add: coli_decode_blob_def decode_blob_def Let_def ok_refuse_any differs_iff field_iff slice_def ok_case_sum
        del: upt_Suc refuse_any.simps split: option.split)
next
  case (Inl e)
  then have "ok (read_table blob [0..<16]) = None"
    using ok_read_table [of blob "[0..<16]"] by simp
  then show ?thesis using Inl
    by (simp add: coli_decode_blob_def decode_blob_def Let_def ok_case_sum del: upt_Suc refuse_any.simps split: option.split)
qed

section \<open>Codec tables of a manifest\<close>

lemma ok_descriptor: "ok (coli_descriptor crc region desc codec) = ok (read_descriptor crc region desc codec)"
  by (simp add: coli_descriptor_def read_descriptor_def ok_refuse_any differs_iff field_iff ok_fields ok_decode_blob
      ok_get_range cong: if_cong del: refuse_any.simps)

lemma ok_find: "ok (coli_find crc region table_id codec index n) = ok (find_descriptor crc region table_id codec index n)"
proof (induction n arbitrary: index)
  case (Suc n)
  then show ?case by (simp add: ok_fields ok_descriptor cong: if_cong split: option.split)
qed simp

lemma runtime_tables_agree: "ok (coli_from_manifest crc manifest table_id codec) = ok (table_from_manifest crc manifest table_id codec)"
  by (simp add: coli_from_manifest_def table_from_manifest_def ok_fields ok_find ok_get_range)

section \<open>Streams\<close>

lemma sum_list_cover:
  "x < sum_list fs \<Longrightarrow> \<exists>i < length fs. sum_list (take i fs) \<le> x \<and> x < sum_list (take i fs) + fs ! i" for fs :: "nat list"
proof (induction fs arbitrary: x)
  case (Cons f fs)
  show ?case
  proof (cases "x < f")
    case False
    with Cons.prems have "x - f < sum_list fs" by simp
    from Cons.IH [OF this] obtain i where "i < length fs" "sum_list (take i fs) \<le> x - f" "x - f < sum_list (take i fs) + fs ! i" by blast
    then have "f + sum_list (take i fs) \<le> x \<and> x < f + sum_list (take i fs) + fs ! i" using False by linarith
    with \<open>i < length fs\<close> show ?thesis by (intro exI [of _ "Suc i"]) simp
  qed auto
qed simp

lemma slot_range:
  assumes "valid_table t" "good_slots t 16 slots" "x < scale_m"
  shows "slots ! x < 16" "tb_start t ! (slots ! x) \<le> x" "x < tb_start t ! (slots ! x) + tb_freq t ! (slots ! x)"
proof -
  from sum_list_cover [of x "tb_freq t"] valid_sums [OF assms(1)] assms(3) obtain s where
    s: "s < 16" "tb_start t ! s \<le> x" "x < tb_start t ! s + tb_freq t ! s" by auto
  with assms(2) have "slots ! x = s" by (simp add: good_slots_def)
  with s show "slots ! x < 16" "tb_start t ! (slots ! x) \<le> x" "x < tb_start t ! (slots ! x) + tb_freq t ! (slots ! x)" by simp_all
qed

lemma unat_shift_or: "unat (push_bit 8 w OR ucast (b :: byte) :: 32 word) = wrap_u32 (unat w * 256) + unat b"
proof -
  have "push_bit 8 w AND (ucast b :: 32 word) = 0"
    by (rule bit_word_eqI) (auto simp: bit_simps dest: bit_imp_le_length)
  then have "push_bit 8 w OR ucast b = push_bit 8 w + (ucast b :: 32 word)" by (simp add: disjunctive_add_eq_or)
  moreover have "unat (push_bit 8 w) = wrap_u32 (unat w * 256)"
    by (simp add: push_bit_eq_mult unat_word_ariths wrap_u32_def u32_max_def)
  moreover have "unat (ucast b :: 32 word) = unat b" using unat_byte_lt [of b] by (simp add: unsigned_ucast_eq take_bit_nat_eq_self)
  moreover have "wrap_u32 (unat w * 256) + unat b < 2 ^ 32"
  proof -
    have "wrap_u32 (unat w * 256) = unat w mod 2 ^ 24 * 256"
      using mult_mod_left [of "unat w" "2 ^ 24" 256] by (simp add: wrap_u32_def u32_max_def)
    moreover have "unat w mod 2 ^ 24 < 16777216" using mod_less_divisor [of 16777216 "unat w"] by simp
    ultimately show ?thesis using unat_byte_lt [of b] by simp
  qed
  ultimately show ?thesis by (simp add: unat_word_ariths)
qed

lemma coli_renorm_nat: "map_prod unat id (coli_renorm w bs) = renorm_decode (unat w) bs"
proof (induction bs arbitrary: w)
  case (Cons b bs)
  have "w < word_of_nat rans_l \<longleftrightarrow> unat w < rans_l" by (simp add: word_less_nat_alt rans_l_def)
  with Cons.IH [of "push_bit 8 w OR ucast b"] show ?case by (simp add: unat_shift_or)
qed simp

lemma coli_step_nat:
  fixes w :: "32 word"
  assumes "valid_table t" "good_slots t 16 slots"
  defines "x \<equiv> unat w mod scale_m"
  shows "unat (w AND (word_of_nat scale_m - 1)) = x"
    "unat (word_of_nat (tb_freq t ! (slots ! x)) * drop_bit scale_bits w + (w AND (word_of_nat scale_m - 1)) -
       word_of_nat (tb_start t ! (slots ! x))) =
     wrap_u32 (tb_freq t ! (slots ! x) * (unat w div 2 ^ scale_bits) + x) - tb_start t ! (slots ! x)"
proof -
  let ?f = "tb_freq t ! (slots ! x)" and ?c = "tb_start t ! (slots ! x)" and ?q = "unat w div 2 ^ scale_bits"
  have x: "x < scale_m" by (simp add: x_def rans_consts)
  note r = slot_range [OF assms(1,2) x]
  have fc: "?c + ?f \<le> 16384" using start_bound [OF assms(1) r(1)] by (simp add: rans_consts)
  have "w AND (word_of_nat scale_m - 1) = take_bit 14 w"
    by (simp add: take_bit_eq_mask mask_eq_exp_minus_1 rans_consts)
  then show mask: "unat (w AND (word_of_nat scale_m - 1)) = x"
    by (simp add: take_bit_eq_mod unat_mod_distrib x_def rans_consts)
  have q: "?q < 262144" using unsigned_less [of w] by (simp add: rans_consts div_less_iff_less_mult)
  have "?f * ?q + x < 2 ^ 32"
  proof -
    have "?f * ?q \<le> 16384 * 262143" using fc q by (intro mult_le_mono) auto
    then show ?thesis using x by (simp add: rans_consts)
  qed
  moreover have "unat (word_of_nat ?f :: 32 word) = ?f" "unat (word_of_nat ?c :: 32 word) = ?c"
    using fc by (simp_all add: unsigned_of_nat take_bit_eq_mod)
  moreover have "unat (drop_bit scale_bits w) = ?q" by (simp add: unat_div_distrib drop_bit_eq_div scale_bits_def)
  ultimately have sum: "unat (word_of_nat ?f * drop_bit scale_bits w + (w AND (word_of_nat scale_m - 1))) = ?f * ?q + x"
    by (simp add: unat_word_ariths mask)
  have "?c \<le> ?f * ?q + x" using r(2) by simp
  then show "unat (word_of_nat ?f * drop_bit scale_bits w + (w AND (word_of_nat scale_m - 1)) - word_of_nat ?c) =
     wrap_u32 (?f * ?q + x) - ?c"
    using sum \<open>unat (word_of_nat ?c :: 32 word) = ?c\<close> \<open>?f * ?q + x < 2 ^ 32\<close>
    by (simp add: unat_sub_if_size wrap_u32_def u32_max_def word_le_nat_alt)
qed

lemma coli_symbols_nat:
  assumes "valid_table t" "good_slots t 16 slots"
  shows "(case coli_symbols t slots n w bs of (out, final, rest) \<Rightarrow> (out, unat final, rest)) = decode_symbols t slots n (unat w) bs"
proof (induction n arbitrary: w bs)
  case (Suc n)
  note step = coli_step_nat [OF assms, of w]
  define slot where "slot = w AND (word_of_nat scale_m - 1)"
  define w1 where "w1 = word_of_nat (tb_freq t ! (slots ! unat slot)) * drop_bit scale_bits w + slot -
    word_of_nat (tb_start t ! (slots ! unat slot))"
  obtain w2 bs2 where ren: "coli_renorm w1 bs = (w2, bs2)" by force
  obtain out final rest where dec: "coli_symbols t slots n w2 bs2 = (out, final, rest)" by (metis prod_cases3)
  have "coli_symbols t slots (Suc n) w bs = (word_of_nat (slots ! unat slot) # out, final, rest)"
    using ren dec by (simp add: Let_def slot_def w1_def)
  moreover have "renorm_decode (unat w1) bs = (unat w2, bs2)" using coli_renorm_nat [of w1 bs] ren by simp
  moreover have "decode_symbols t slots n (unat w2) bs2 = (out, unat final, rest)" using Suc.IH [of w2 bs2] dec by simp
  ultimately show ?case using step by (simp add: Let_def slot_def w1_def)
qed simp

lemma ok_stream:
  assumes "valid_table t" "good_slots t 16 slots"
  shows "ok (coli_stream bs n t slots) = ok (decode_stream_checked bs n t slots)"
proof (cases "4 \<le> length bs")
  case True
  define x where "x = le_nat (rev (take 4 bs))"
  have "x < 256 ^ 4" using le_nat_less [of "rev (take 4 bs)"] True by (simp add: x_def)
  then have w: "unat (word_of_nat x :: 32 word) = x" by (simp add: unsigned_of_nat take_bit_eq_mod)
  have L: "unat (word_of_nat rans_l :: 32 word) = rans_l" by (simp add: rans_l_def)
  obtain out final rest where run: "coli_symbols t slots n (word_of_nat x) (drop 4 bs) = (out, final, rest)"
    by (metis prod_cases3)
  have "decode_symbols t slots n x (drop 4 bs) = (out, unat final, rest)"
    using coli_symbols_nat [OF assms, of n "word_of_nat x" "drop 4 bs"] run w by simp
  moreover have "final = word_of_nat rans_l \<longleftrightarrow> unat final = rans_l" using L by (metis word_unat_eq_iff)
  moreover have "(word_of_nat x :: 32 word) < word_of_nat rans_l \<longleftrightarrow> x < rans_l" by (simp add: word_less_nat_alt w L)
  ultimately show ?thesis
    using True run by (simp add: coli_stream_def decode_stream_checked_def Let_def flip: x_def)
next
  case False
  then show ?thesis by (simp add: coli_stream_def decode_stream_checked_def)
qed

section \<open>Records\<close>

lemma ok_read_offsets: "ok (try_map (\<lambda>i. coli_u32 rec (16 + i * 4)) is) = ok (read_offsets rec is)"
proof (induction "is")
  case (Cons i "is")
  then show ?case
    by (cases "u32_at rec (16 + i * 4)"; cases "read_offsets rec is") (simp_all add: ok_fields)
qed simp

lemma offsets_ok_zip: "\<not> list_ex (\<lambda>(a, b). b < a \<or> b - a < 4) (zip xs (tl xs)) \<longleftrightarrow> offsets_ok xs"
  by (induction xs rule: offsets_ok.induct) auto

lemma ok_parse: "ok (coli_parse rec) = ok (parse_record rec)"
proof (cases "length rec < rans_header_bytes")
  case True
  then show ?thesis by (simp add: coli_parse_def parse_record_def record_header_def rans_header_bytes_def)
next
  case False
  have hdr: "rans_header_bytes = record_header" by (simp add: rans_header_bytes_def record_header_def)
  show ?thesis
  proof (cases "u64_at rec 0")
    case n: (Inr n)
    show ?thesis
    proof (cases "u64_at rec 8")
      case p: (Inr p)
      show ?thesis
      proof (cases "read_offsets rec [0..<n_streams + 1]")
        case o: (Inr offs)
        have "try_map (\<lambda>i. coli_u32 rec (16 + i * 4)) [0..<n_streams + 1] = Inr offs"
          using ok_read_offsets [of rec "[0..<n_streams + 1]"] o by simp
        moreover have "coli_u64 rec 0 = Inr n" "coli_u64 rec 8 = Inr p" using n p by (simp_all add: field_iff)
        ultimately show ?thesis using False n p o
          by (simp add: coli_parse_def parse_record_def hdr offsets_ok_zip [symmetric] Let_def slice_def drop_take
              del: upt_Suc split: option.split)
      next
        case o: (Inl e)
        then have "ok (try_map (\<lambda>i. coli_u32 rec (16 + i * 4)) [0..<n_streams + 1]) = None"
          by (simp add: ok_read_offsets del: upt_Suc)
        then show ?thesis using False n p o
          by (simp add: coli_parse_def parse_record_def hdr ok_fields Let_def del: upt_Suc)
      qed
    qed (simp add: coli_parse_def parse_record_def hdr ok_fields Let_def n)
  qed (simp add: coli_parse_def parse_record_def hdr ok_fields Let_def)
qed

lemma ok_streams:
  assumes "valid_table t" "good_slots t 16 slots"
  shows "ok (coli_streams p t slots ss out) = ok (decode_streams p t slots ss out)"
proof (induction ss arbitrary: out)
  case (Cons s ss)
  show ?case
  proof (cases "decode_stream_checked (slice (pd_offsets p ! s) (pd_offsets p ! (s + 1) - pd_offsets p ! s) (pd_payload p))
      (stream_symbol_count (pd_n_symbols p) s) t slots")
    case (Inr decoded)
    then show ?thesis using Cons by (simp add: Let_def ok_stream [OF assms]) (simp add: slice_def)
  next
    case (Inl e)
    then show ?thesis by (simp add: Let_def ok_stream [OF assms]) (simp add: slice_def)
  qed
qed simp

text \<open>A record that parses is small enough for its symbol count not to wrap.\<close>

lemma read_offsets_bounded: "read_offsets rec is = Inr offs \<Longrightarrow> length offs = length is \<and> list_all (\<lambda>x. x < 2 ^ 32) offs"
proof (induction "is" arbitrary: offs)
  case (Cons i "is")
  have "x < 2 ^ 32" if "u32_at rec (16 + i * 4) = Inr x" for x
  proof -
    have "length (take 4 (drop (16 + i * 4) rec)) = 4" using that by (auto simp: u32_at_def at_bytes_def split: if_splits)
    with le_nat_less [of "take 4 (drop (16 + i * 4) rec)"] that show ?thesis
      by (auto simp: u32_at_def at_bytes_def split: if_splits)
  qed
  with Cons show ?case by (auto split: sum.splits)
qed simp

lemma parse_bounds:
  assumes "parse_record rec = Inr p"
  shows "pd_packed_bytes p * 2 < 2 ^ 64"
proof -
  let ?offs = "pd_offsets p" and ?n = "pd_n_symbols p"
  have offs: "read_offsets rec [0..<n_streams + 1] = Inr ?offs" and n: "?n \<le> ?offs ! n_streams * 8 * 2 ^ 15"
    and p: "pd_packed_bytes p = ?n div 2 + ?n mod 2"
    using assms by (auto simp: parse_record_def Let_def simp del: upt_Suc split: sum.splits option.splits if_splits)
  have "?offs ! n_streams < 2 ^ 32"
    using read_offsets_bounded [OF offs] by (simp add: list_all_length del: upt_Suc)
  with n p show ?thesis by simp
qed

lemma runtime_records_agree:
  assumes "table_type t"
  shows "ok (coli_decode_record t rec expected) = ok (decode_bytes rec t expected)"
proof (cases "validate_table t")
  case (Inr u)
  with assms have valid: "valid_table t" by (simp add: valid_table_def)
  from slots_good [OF valid] obtain slots where slots: "slot_to_symbol t = Inr slots" "good_slots t 16 slots" .
  then have cs: "coli_slots t = Inr slots" using ok_slots [OF assms] by simp
  show ?thesis
  proof (cases "parse_record rec")
    case p: (Inr p)
    then have cp: "coli_parse rec = Inr p" using ok_parse [of rec] by simp
    have "pd_packed_bytes p = expected \<Longrightarrow> checked_mul_usize expected 2 = Some (expected * 2) \<and> expected * 2 mod 2 ^ 64 = expected * 2"
      using parse_bounds [OF p] by (simp add: checked_mul_usize_def usize_max_def)
    with p cp cs slots(1) Inr show ?thesis
      by (auto simp: coli_decode_record_def decode_bytes_def ok_streams [OF valid slots(2)] simp del: upt_Suc)
  next
    case (Inl e)
    then have "ok (coli_parse rec) = None" by (simp add: ok_parse)
    with Inl Inr show ?thesis by (simp add: coli_decode_record_def decode_bytes_def)
  qed
next
  case (Inl e)
  then have "ok (coli_slots t) = None" using ok_slots [OF assms] by (simp add: slot_to_symbol_def)
  then have "coli_decode_record t rec expected = Inr x \<Longrightarrow> False" for x
    by (auto simp: coli_decode_record_def try_bind_Inr split: if_splits)
  then have "ok (coli_decode_record t rec expected) = None" by (cases "coli_decode_record t rec expected") auto
  with Inl show ?thesis by (simp add: decode_bytes_def)
qed

section \<open>Across the two crates\<close>

text \<open>
  C34: The two rANS implementations agree: on any manifest bytes the runtime resolves a codec
  table exactly where the compiler's reader does, to the same table, and on any record, table
  and expected length it decodes exactly where the compiler's decoder does, to the same bytes.
\<close>

theorem runtime_decoders_agree:
  assumes "table_type t"
  shows "ok (coli_from_manifest crc manifest table_id codec) = ok (table_from_manifest crc manifest table_id codec) \<and>
    ok (coli_decode_record t rec expected) = ok (decode_bytes rec t expected)"
  using runtime_tables_agree runtime_records_agree [OF assms] by blast

theorem runtime_decoders_agree_witness:
  "ok (coli_from_manifest (\<lambda>_. 0) [] 1 1) = None \<and>
   (\<exists>rec. encode_bytes [0, 0] zero_table = Inr rec \<and> ok (coli_decode_record zero_table rec 2) = Some [0, 0])"
proof -
  have ty: "table_type zero_table" using zero_table_valid by (simp add: valid_table_def)
  have "list_all (\<lambda>b. present zero_table (b AND 0x0F) \<and> present zero_table (drop_bit 4 b)) [0, 0]"
    by (simp add: present_def zero_table_def)
  from rans_roundtrip [OF zero_table_valid _ _ this]
  have "\<exists>rec. encode_bytes [0, 0] zero_table = Inr rec \<and> decode_bytes rec zero_table (length [0, 0 :: byte]) = Inr [0, 0]" by simp
  moreover have "length [0, 0 :: byte] = 2" by simp
  ultimately obtain rec where "encode_bytes [0, 0] zero_table = Inr rec" "decode_bytes rec zero_table 2 = Inr [0, 0]" by metis
  moreover have "ok (coli_from_manifest (\<lambda>_. 0) [] 1 1) = None"
    by (simp add: runtime_decoders_agree [OF ty, THEN conjunct1] table_from_manifest_def u32_at_def at_bytes_def)
  ultimately show ?thesis using runtime_decoders_agree [OF ty, THEN conjunct2, of rec 2] by auto
qed

text \<open>
  C35: What the compiler writes the runtime reads, up to 128 MiB: with the table built from the
  histogram of some matrices (whose nibbles can be counted in \<^verbatim>\<open>u64\<close>), a matrix among them that is
  not empty and has at most 128 MiB, its record, and the manifest the table was appended to, the
  runtime finds the table in the manifest and decodes the record to exactly the matrix.  Beyond
  the bound the decoder can refuse what the encoder wrote (\<^verbatim>\<open>rans_refuses_own_record\<close>).  Of the
  checksum only its width is used, and the manifest is no longer than a \<^verbatim>\<open>usize\<close> can say.
\<close>

theorem runtime_reads_compiled_record:
  assumes table: "histogram_bytes chunks = Inr hist" "from_histogram hist = Inr t" "2 * length (concat chunks) \<le> u64_max"
    and input: "input \<in> set chunks" "input \<noteq> []" "length input \<le> 2 ^ 27"
    and written: "encode_bytes input t = Inr rec" "manifest_table_region crc m (Some t) = Inr m'"
    and "\<And>bs. crc bs < 2 ^ 32" "length m' \<le> usize_max"
  shows "try_bind (coli_from_manifest crc m' rans_table_id rans_codec_id) (\<lambda>t'. coli_decode_record t' rec (length input)) = Inr input"
proof -
  have hist: "length hist = 16" "sum_list hist = 2 * length (concat chunks)"
    using histogram_from_ok [of "replicate 16 0" "concat chunks"] table(1,3)
    by (auto simp: histogram_bytes_def sum_list_replicate)
  have "concat chunks \<noteq> []" using input(1,2) by auto
  then have "0 < sum_list hist" "sum_list hist \<le> u64_max" using table(3) by (simp_all only: hist(2)) simp
  from from_histogram_ok [OF hist(1) this] table(2) have t: "valid_table t" "supports (tb_freq t) hist" by auto
  then have ty: "table_type t" by (simp add: valid_table_def)
  from rans_roundtrip [OF t(1) input(2,3) histogram_presents [OF table(1) input(1) t]] written(1)
  have "decode_bytes rec t (length input) = Inr input" by auto
  then have "coli_decode_record t rec (length input) = Inr input"
    using runtime_records_agree [OF ty, of rec "length input"] by simp
  moreover have "coli_from_manifest crc m' rans_table_id rans_codec_id = Inr t"
    using table_region_roundtrip(1) [OF written(2) ty assms(9,10)] runtime_tables_agree [of crc m' rans_table_id rans_codec_id] by simp
  ultimately show ?thesis by simp
qed

theorem runtime_reads_compiled_record_witness:
  "\<exists>hist t rec m'. histogram_bytes [[0x10, 0x01]] = Inr hist \<and> from_histogram hist = Inr t \<and>
     encode_bytes [0x10, 0x01] t = Inr rec \<and> manifest_table_region (\<lambda>_. 7) (replicate 256 0) (Some t) = Inr m' \<and>
     try_bind (coli_from_manifest (\<lambda>_. 7) m' 1 1) (\<lambda>t'. coli_decode_record t' rec 2) = Inr [0x10, 0x01]"
proof -
  let ?in = "[0x10, 0x01] :: byte list"
  have count: "2 * length (concat [?in]) \<le> u64_max" by (simp add: u64_max_def)
  from histogram_from_ok [of "replicate 16 0" "concat [?in]"] count obtain hist where
    hist: "histogram_bytes [?in] = Inr hist" "length hist = 16" "sum_list hist = 4"
    by (auto simp: histogram_bytes_def sum_list_replicate)
  from from_histogram_ok [OF hist(2)] hist(3) obtain t where
    t: "from_histogram hist = Inr t" "valid_table t" "supports (tb_freq t) hist" by (auto simp: u64_max_def)
  from rans_roundtrip [OF t(2) _ _ histogram_presents [OF hist(1) _ t(2,3)], of ?in] obtain rec where
    rec: "encode_bytes ?in t = Inr rec" by auto
  from table_region_ok [of t "replicate 256 0" "\<lambda>_. 7"] t(2) obtain m' where
    m': "manifest_table_region (\<lambda>_. 7) (replicate 256 0) (Some t) = Inr m'" by (auto simp: slice_zeros)
  have "length m' = 480" using table_region_image [OF m'] t(2) by (auto simp: round16_def valid_table_def)
  then have "try_bind (coli_from_manifest (\<lambda>_. 7) m' rans_table_id rans_codec_id) (\<lambda>t'. coli_decode_record t' rec (length ?in)) = Inr ?in"
    by (intro runtime_reads_compiled_record [OF hist(1) t(1) count _ _ _ rec m']) (simp_all add: usize_max_def)
  moreover have "rans_table_id = 1" "rans_codec_id = 1" "length ?in = 2" by (simp_all add: rans_table_id_def rans_codec_id_def)
  ultimately show ?thesis using hist(1) t(1) rec m' by metis
qed

end
