(* ===== verification/Coli_Verify.thy ===== *)
theory Coli_Verify
  imports Coli_Codecs
begin

text \<open>
  The verifier of COLI packages (\<^verbatim>\<open>logan-format/src/verify.rs\<close>).  A package is a directory
  with a manifest and data shards.  The operating system is the parameter \<open>files\<close>: what opening
  a file of the directory gives, its bytes or an error text.  The CRC-32C crate is the parameter
  \<open>app\<close>, its \<^verbatim>\<open>crc32c_append\<close>.  A panic is a value: indexing outside a slice and allocating more
  than \<^verbatim>\<open>isize::MAX\<close> bytes.
\<close>

section \<open>Outcomes and primitives\<close>

datatype coli_failure = Fails format_error | Panics

type_synonym 'a outcome = "coli_failure + 'a"
type_synonym package_files = "string \<Rightarrow> string + byte list"
type_synonym crc_append = "32 word \<Rightarrow> byte list \<Rightarrow> 32 word"

definition fails :: "format_error + 'a \<Rightarrow> 'a outcome" where
  "fails r = map_sum Fails id r"

definition invalid_package :: "string \<Rightarrow> coli_failure" where
  "invalid_package detail = Fails (invalid_error detail)"

definition misuse :: "string \<Rightarrow> coli_failure" where
  "misuse detail = Fails (usage_error detail)"

abbreviation at_u16 :: "byte list \<Rightarrow> nat \<Rightarrow> nat outcome" where
  "at_u16 bs off \<equiv> fails (coli_u16 bs off)"

abbreviation at_u32 :: "byte list \<Rightarrow> nat \<Rightarrow> nat outcome" where
  "at_u32 bs off \<equiv> fails (coli_u32 bs off)"

abbreviation at_u64 :: "byte list \<Rightarrow> nat \<Rightarrow> nat outcome" where
  "at_u64 bs off \<equiv> fails (coli_u64 bs off)"

abbreviation at_i32 :: "byte list \<Rightarrow> nat \<Rightarrow> int outcome" where
  "at_i32 bs off \<equiv> fails (coli_i32 bs off)"

text \<open>\<^verbatim>\<open>bytes[a..b]\<close> and \<^verbatim>\<open>ok_or_else\<close> on a checked sum or product.\<close>

definition index_range :: "'a list \<Rightarrow> nat \<Rightarrow> nat \<Rightarrow> 'a list outcome" where
  "index_range bs a b = (if a \<le> b \<and> b \<le> length bs then Inr (slice a (b - a) bs) else Inl Panics)"

definition checked :: "'a option \<Rightarrow> string \<Rightarrow> 'a outcome" where
  "checked r detail = (case r of None \<Rightarrow> Inl (misuse detail) | Some x \<Rightarrow> Inr x)"

definition manifest_name :: string where
  "manifest_name = ''manifest.coli''"

definition shard_name :: "nat \<Rightarrow> string" where
  "shard_name i = ''data-'' @ replicate (5 - length (show_nat i)) CHR ''0'' @ show_nat i @ ''.coli''"

definition open_file :: "package_files \<Rightarrow> string \<Rightarrow> byte list outcome" where
  "open_file files name = (case files name of Inl e \<Rightarrow> Inl (Fails (Format_io name e)) | Inr bs \<Rightarrow> Inr bs)"

text \<open>\<^verbatim>\<open>seek\<close>, which refuses an offset beyond \<^verbatim>\<open>i64\<close>, and \<^verbatim>\<open>read_exact\<close>.\<close>

definition seek_to :: "string \<Rightarrow> nat \<Rightarrow> unit outcome" where
  "seek_to name offset = (if isize_max < offset then Inl (Fails (Format_io name ''Invalid argument'')) else Inr ())"

definition read_exact_at :: "string \<Rightarrow> byte list \<Rightarrow> nat \<Rightarrow> nat \<Rightarrow> byte list outcome" where
  "read_exact_at name bs offset n =
     (if n = 0 \<or> offset + n \<le> length bs then Inr (slice offset n bs)
      else Inl (Fails (Format_io name ''failed to fill whole buffer'')))"

text \<open>Seek, allocate, read: the order of the code.\<close>

definition read_span :: "string \<Rightarrow> byte list \<Rightarrow> nat \<Rightarrow> nat \<Rightarrow> byte list outcome" where
  "read_span name bs offset n =
     try_bind (seek_to name offset) (\<lambda>_. if alloc_ok n 1 then read_exact_at name bs offset n else Inl Panics)"

definition read_file_range :: "package_files \<Rightarrow> string \<Rightarrow> nat \<Rightarrow> nat \<Rightarrow> byte list outcome" where
  "read_file_range files name offset n = try_bind (open_file files name) (\<lambda>bs. read_span name bs offset n)"

section \<open>Checksums\<close>

definition crc32c :: "crc_append \<Rightarrow> byte list \<Rightarrow> nat" where
  "crc32c app bs = unat (app 0 bs)"

definition crc32c_update :: "crc_append \<Rightarrow> 32 word \<Rightarrow> byte list \<Rightarrow> 32 word" where
  "crc32c_update app state bs = NOT (app (NOT state) bs)"

definition crc_chunk :: nat where
  "crc_chunk = 64 * 1024"

function crc_chunks :: "crc_append \<Rightarrow> string \<Rightarrow> byte list \<Rightarrow> nat \<Rightarrow> nat \<Rightarrow> 32 word \<Rightarrow> 32 word outcome" where
  "crc_chunks app name bs offset left state =
     (if left = 0 then Inr state
      else
        try_bind (read_exact_at name bs offset (min left crc_chunk)) (\<lambda>chunk.
          crc_chunks app name bs (offset + min left crc_chunk) (left - min left crc_chunk)
            (crc32c_update app state chunk)))"
  by pat_completeness auto

termination crc_chunks
  by (relation "measure (\<lambda>(_, _, _, _, left, _). left)") (auto simp: crc_chunk_def)

declare crc_chunks.simps [simp del]

definition crc32c_file_range :: "crc_append \<Rightarrow> package_files \<Rightarrow> string \<Rightarrow> nat \<Rightarrow> nat \<Rightarrow> nat outcome" where
  "crc32c_file_range app files name offset n =
     try_bind (open_file files name) (\<lambda>bs.
     try_bind (seek_to name offset) (\<lambda>_.
     try_bind (crc_chunks app name bs offset n (NOT 0)) (\<lambda>state. Inr (unat (NOT state)))))"

section \<open>Alignment and layouts\<close>

definition is_power_of_two :: "nat \<Rightarrow> bool" where
  "is_power_of_two n \<longleftrightarrow> list_ex (\<lambda>k. n = 2 ^ k) [0..<64]"

definition align_up :: "nat \<Rightarrow> nat \<Rightarrow> format_error + nat" where
  "align_up value alignment =
     (if \<not> is_power_of_two alignment then Inl (usage_error ''alignment must be a power of two'')
      else case checked_add_u64 value (alignment - 1) of
        None \<Rightarrow> Inl (usage_error ''alignment calculation overflows u64'')
      | Some v \<Rightarrow> Inr (unat ((word_of_nat v :: 64 word) AND NOT (word_of_nat (alignment - 1)))))"

definition layout_none :: nat where
  "layout_none = 0xfffe"

text \<open>The execution layouts of \<^verbatim>\<open>logan-abi\<close> (generated from the target registry).\<close>

definition layout_registered :: "nat \<Rightarrow> bool" where
  "layout_registered lay \<longleftrightarrow> lay = 0x0000 \<or> lay = 0x0201 \<or> lay = 0x0103"

section \<open>Regions and strings of the manifest\<close>

definition region :: "byte list \<Rightarrow> nat \<Rightarrow> nat \<Rightarrow> nat \<Rightarrow> string \<Rightarrow> (nat \<times> nat) outcome" where
  "region bytes offset_field bytes_field expected label =
     try_bind (at_u64 bytes offset_field) (\<lambda>offset.
     try_bind (at_u64 bytes bytes_field) (\<lambda>n.
     if n \<noteq> expected \<or> n \<noteq> 0 \<and> offset mod 16 \<noteq> 0
     then Inl (invalid_package (label @ '' has an invalid size or alignment''))
     else try_bind (checked (checked_add_u64 offset n) ''manifest region overflows'') (\<lambda>finish.
       if length bytes < finish then Inl (invalid_package (label @ '' is outside the manifest'')) else Inr (offset, finish))))"

definition variable_region :: "byte list \<Rightarrow> nat \<Rightarrow> nat \<Rightarrow> string \<Rightarrow> (nat \<times> nat) outcome" where
  "variable_region bytes offset_field bytes_field label =
     try_bind (at_u64 bytes offset_field) (\<lambda>offset.
     try_bind (at_u64 bytes bytes_field) (\<lambda>n.
     if (offset = 0) \<noteq> (n = 0) \<or> n \<noteq> 0 \<and> offset mod 16 \<noteq> 0
     then Inl (invalid_package (label @ '' has an invalid offset or alignment''))
     else try_bind (checked (checked_add_u64 offset n) ''manifest region overflows'') (\<lambda>finish.
       if length bytes < finish then Inl (invalid_package (label @ '' is outside the manifest'')) else Inr (offset, finish))))"

definition validate_string_id :: "byte list \<Rightarrow> nat \<times> nat \<Rightarrow> nat \<Rightarrow> nat \<Rightarrow> unit outcome" where
  "validate_string_id manifest table strings i =
     (if strings \<le> i then Inl (invalid_package ''manifest refers to an invalid string ID'')
      else
        let desc = fst table + i * 16 in
        try_bind (at_u64 manifest desc) (\<lambda>offset.
        try_bind (at_u32 manifest (desc + 8)) (\<lambda>n.
        try_bind (checked (checked_add_usize (fst table) offset) ''string offset overflows'') (\<lambda>data_start.
        try_bind (checked (checked_add_usize data_start n) ''string length overflows'') (\<lambda>data_end.
        let bad = invalid_package ''manifest string descriptor is invalid'' in
        if data_start < fst table + strings * 16 \<or> snd table < data_end then Inl bad
        else try_bind (index_range manifest data_start data_end) (\<lambda>s.
          if \<not> utf8_ok s then Inl bad
          else try_bind (index_range manifest data_start data_end) (\<lambda>s'. if 0 \<in> set s' then Inl bad else Inr ())))))))"

definition string_at :: "byte list \<Rightarrow> nat \<times> nat \<Rightarrow> nat \<Rightarrow> nat \<Rightarrow> byte list outcome" where
  "string_at manifest table strings i =
     (if strings \<le> i then Inl (invalid_package ''manifest refers to an invalid string ID'')
      else
        let desc = fst table + i * 16 in
        try_bind (at_u64 manifest desc) (\<lambda>offset.
        try_bind (at_u32 manifest (desc + 8)) (\<lambda>n.
        try_bind (checked (checked_add_usize (fst table) offset) ''string offset overflows'') (\<lambda>data_start.
        try_bind (checked (checked_add_usize data_start n) ''string length overflows'') (\<lambda>data_end.
        if length manifest < data_end then Inl (misuse ''string outside manifest'')
        else let s = slice data_start (data_end - data_start) manifest in
          if utf8_ok s then Inr s else Inl (misuse ''invalid UTF-8''))))))"

section \<open>The head of a manifest\<close>

definition coli_magic :: "byte list" where
  "coli_magic = ascii_bytes ''COLI'' @ [13, 10, 26, 10]"

definition data_magic :: "byte list" where
  "data_magic = ascii_bytes ''COLIDAT'' @ [0]"

definition coli_header_bytes :: nat where
  "coli_header_bytes = 256"

definition shard_header_bytes :: nat where
  "shard_header_bytes = 128"

record coli_head =
  hd_flags :: nat
  hd_alignment :: nat
  hd_records :: nat
  hd_shards :: nat
  hd_strings :: nat
  hd_shard_table :: "nat \<times> nat"
  hd_record_table :: "nat \<times> nat"
  hd_string_table :: "nat \<times> nat"

text \<open>The fixed fields, in the order they are checked; the verifier and the reader begin with the same code.\<close>

definition check_fixed :: "crc_append \<Rightarrow> byte list \<Rightarrow> (nat \<times> nat) outcome" where
  "check_fixed app m =
     (let bad = invalid_package ''manifest magic/header is invalid'' in
      if length m < coli_header_bytes then Inl bad
      else
      try_bind (index_range m 0 8) (\<lambda>magic.
      if magic \<noteq> coli_magic then Inl bad
      else
      try_bind (refuse_any (invalid_package ''manifest header size is invalid'')
        [differs (at_u16 m 8) 1, differs (at_u16 m 10) 0, differs (at_u32 m 12) coli_header_bytes]) (\<lambda>_.
      try_bind (at_u32 m 16) (\<lambda>flags.
      if flags div 2 ^ 16 \<noteq> 0 then Inl (invalid_package ''manifest contains unknown required feature flags'')
      else
      try_bind (at_u32 m 144) (\<lambda>expected_crc.
      try_bind (index_range m 144 148) (\<lambda>field.
      if crc32c app (put_bytes 144 (map (\<lambda>_. 0) field) m) \<noteq> expected_crc then Inl (invalid_package ''manifest CRC32C does not match'')
      else
      try_bind (at_u32 m 24) (\<lambda>alignment.
      if \<not> is_power_of_two alignment \<or> alignment < 4096 \<or> 1024 * 1024 < alignment
      then Inl (invalid_package ''manifest record alignment is outside COLI v1 limits'')
      else Inr (flags, alignment))))))))"

definition read_head :: "crc_append \<Rightarrow> byte list \<Rightarrow> coli_head outcome" where
  "read_head app m =
     try_bind (check_fixed app m) (\<lambda>(flags, alignment).
     try_bind (at_u64 m 32) (\<lambda>records.
     try_bind (at_u32 m 40) (\<lambda>shards.
     try_bind (at_u32 m 28) (\<lambda>strings.
     try_bind (region m 48 56 (shards * 64) ''shard table'') (\<lambda>shard_table.
     try_bind (checked (checked_mul_u64 records 96) ''record table overflows'') (\<lambda>record_bytes.
     try_bind (region m 64 72 record_bytes ''record table'') (\<lambda>record_table.
     try_bind (variable_region m 80 88 ''string table'') (\<lambda>string_table.
     try_bind (checked (checked_mul_usize strings 16) ''string descriptor table overflows'') (\<lambda>string_desc_bytes.
     if snd string_table - fst string_table < string_desc_bytes
     then Inl (invalid_package ''string table is shorter than its descriptor array'')
     else Inr \<lparr>hd_flags = flags, hd_alignment = alignment, hd_records = records, hd_shards = shards, hd_strings = strings,
            hd_shard_table = shard_table, hd_record_table = record_table, hd_string_table = string_table\<rparr>)))))))))"

text \<open>The fingerprint, and the flag that says whether it is there.\<close>

definition check_fingerprint :: "byte list \<Rightarrow> coli_head \<Rightarrow> byte list outcome" where
  "check_fingerprint m h =
     try_bind (index_range m 112 144) (\<lambda>fp.
     if odd (hd_flags h) \<noteq> list_ex (\<lambda>b. b \<noteq> 0) fp
     then Inl (invalid_package ''manifest source fingerprint validity flag disagrees with bytes'') else Inr fp)"

section \<open>Verification\<close>

record verification_summary =
  vs_shards :: nat
  vs_records :: nat

record verification_progress =
  vp_completed_records :: nat
  vp_total_records :: nat
  vp_verified_bytes :: nat
  vp_current_shard :: nat
  vp_total_shards :: nat

definition verify_shard_header :: "crc_append \<Rightarrow> coli_head \<Rightarrow> byte list \<Rightarrow> nat \<Rightarrow> nat \<Rightarrow> nat \<Rightarrow> byte list \<Rightarrow> unit outcome" where
  "verify_shard_header app h fp i file_bytes header_crc header =
     try_bind (refuse_any (invalid_package ''data shard header disagrees with manifest'')
       [try_bind (index_range header 0 8) (\<lambda>magic. Inr (magic \<noteq> data_magic)),
        differs (at_u16 header 8) 1, differs (at_u16 header 10) 0, differs (at_u32 header 12) shard_header_bytes,
        differs (at_u32 header 20) i, differs (at_u32 header 24) (hd_alignment h), differs (at_u64 header 32) file_bytes,
        try_bind (index_range header 40 72) (\<lambda>fp'. Inr (fp' \<noteq> fp))]) (\<lambda>_.
     try_bind (at_u32 header 72) (\<lambda>actual.
     try_bind (index_range header 72 76) (\<lambda>field.
     if actual \<noteq> header_crc \<or> crc32c app (put_bytes 72 (map (\<lambda>_. 0) field) header) \<noteq> actual
     then Inl (invalid_package ''data shard header CRC32C does not match'') else Inr ())))"

definition verify_shard :: "crc_append \<Rightarrow> package_files \<Rightarrow> byte list \<Rightarrow> coli_head \<Rightarrow> byte list \<Rightarrow> nat \<Rightarrow> nat outcome" where
  "verify_shard app files m h fp i =
     (let desc = fst (hd_shard_table h) + i * 64 in
      try_bind (at_u32 m desc) (\<lambda>found.
      if found \<noteq> i then Inl (invalid_package ''shard IDs are not contiguous'')
      else
      try_bind (at_u32 m (desc + 8)) (\<lambda>name_id.
      try_bind (validate_string_id m (hd_string_table h) (hd_strings h) name_id) (\<lambda>_.
      try_bind (at_u64 m (desc + 16)) (\<lambda>file_bytes.
      try_bind (at_u32 m (desc + 24)) (\<lambda>header_crc.
      try_bind (open_file files (shard_name i)) (\<lambda>bs.
      if length bs \<noteq> file_bytes then Inl (invalid_package ''shard file size does not match manifest'')
      else
      try_bind (read_exact_at (shard_name i) bs 0 shard_header_bytes) (\<lambda>header.
      try_bind (verify_shard_header app h fp i file_bytes header_crc header) (\<lambda>_. Inr file_bytes)))))))))"

definition verify_tensor_record ::
  "crc_append \<Rightarrow> package_files \<Rightarrow> string \<Rightarrow> nat \<Rightarrow> nat \<Rightarrow> nat \<Rightarrow> nat \<Rightarrow> nat \<Rightarrow> nat \<Rightarrow> unit outcome" where
  "verify_tensor_record app files name offset stored decoded codec flags logical_crc =
     (if codec \<noteq> 0 \<or> stored < 128
      then Inl (invalid_package ''tensor record uses an unsupported codec or is truncated'')
      else
      try_bind (read_file_range files name offset 128) (\<lambda>header.
      try_bind (refuse_any (invalid_package ''tensor envelope header is invalid'')
        [try_bind (index_range header 0 8) (\<lambda>magic. Inr (magic \<noteq> ascii_bytes ''COLITENS'')),
         differs (at_u32 header 12) 128, try_bind (at_u16 header 16) (\<lambda>dims. Inr (8 < dims))]) (\<lambda>_.
      try_bind (at_u64 header 96) (\<lambda>data_offset.
      try_bind (at_u64 header 104) (\<lambda>data_stored.
      try_bind (at_u64 header 112) (\<lambda>data_decoded.
      if data_offset < 128 \<or> data_offset mod 16 \<noteq> 0 \<or> data_stored \<noteq> data_decoded \<or> data_decoded \<noteq> decoded \<or>
         (case checked_add_u64 data_offset data_stored of None \<Rightarrow> True | Some e \<Rightarrow> stored < e)
      then Inl (invalid_package ''tensor envelope lengths are invalid'')
      else if even (flags div 2) then Inr ()
      else
      try_bind (at_u32 header 120) (\<lambda>envelope_crc.
      refuse_any (invalid_package ''tensor logical CRC32C does not match'')
        [Inr (envelope_crc \<noteq> logical_crc),
         differs (crc32c_file_range app files name (wrapping_add_u64 offset data_offset) data_decoded) logical_crc])))))))"

definition verify_expert_record ::
  "package_files \<Rightarrow> string \<Rightarrow> nat \<Rightarrow> nat \<Rightarrow> nat \<Rightarrow> int \<Rightarrow> int \<Rightarrow> nat \<Rightarrow> unit outcome" where
  "verify_expert_record files name offset stored decoded layer expert codec =
     (if codec \<noteq> 0 \<or> stored < 448 \<or> layer < 0 \<or> expert < 0
      then Inl (invalid_package ''expert record descriptor is invalid'')
      else
      try_bind (read_file_range files name offset 64) (\<lambda>header.
      refuse_any (invalid_package ''expert envelope header disagrees with its descriptor'')
        [try_bind (index_range header 0 8) (\<lambda>magic. Inr (magic \<noteq> ascii_bytes ''COLIEXPT'')),
         differs (at_u32 header 12) 64, differs (at_i32 header 16) layer, differs (at_i32 header 20) expert,
         differs (at_u16 header 24) 3, differs (at_u32 header 28) 128, differs (at_u64 header 32) 64,
         differs (at_u64 header 40) 448, differs (at_u64 header 48) decoded]))"

text \<open>One record; the result is its id, its shard and its size.\<close>

definition verify_record ::
  "crc_append \<Rightarrow> package_files \<Rightarrow> byte list \<Rightarrow> coli_head \<Rightarrow> nat list \<Rightarrow> nat \<Rightarrow> nat list \<Rightarrow> (nat \<times> nat \<times> nat) outcome" where
  "verify_record app files m h sizes i ids =
     (let desc = fst (hd_record_table h) + i * 96 in
      try_bind (at_u64 m desc) (\<lambda>rid.
      try_bind (at_u16 m (desc + 8)) (\<lambda>kind.
      try_bind (at_u16 m (desc + 10)) (\<lambda>codec.
      try_bind (at_u16 m (desc + 16)) (\<lambda>lay.
      if lay \<noteq> layout_none \<and> \<not> layout_registered lay
      then Inl (invalid_package ''record uses an unregistered execution layout'')
      else
      try_bind (at_u16 m (desc + 18)) (\<lambda>flags.
      try_bind (at_u32 m (desc + 20)) (\<lambda>shard.
      try_bind (at_i32 m (desc + 28)) (\<lambda>layer.
      try_bind (at_i32 m (desc + 32)) (\<lambda>expert.
      try_bind (at_u64 m (desc + 40)) (\<lambda>offset.
      try_bind (at_u64 m (desc + 48)) (\<lambda>stored.
      try_bind (at_u64 m (desc + 56)) (\<lambda>decoded.
      try_bind (at_u32 m (desc + 64)) (\<lambda>stored_crc.
      try_bind (at_u32 m (desc + 68)) (\<lambda>logical_crc.
      try_bind (at_u32 m (desc + 24)) (\<lambda>name_id.
      if rid = 0 \<or> rid \<in> set ids \<or> length sizes \<le> shard
      then Inl (invalid_package ''record ID or shard reference is invalid'')
      else
      try_bind (if name_id = u32_max then Inr () else validate_string_id m (hd_string_table h) (hd_strings h) name_id) (\<lambda>_.
      if offset mod hd_alignment h \<noteq> 0 \<or>
         (case checked_add_u64 offset stored of None \<Rightarrow> True | Some e \<Rightarrow> sizes ! shard < e)
      then Inl (invalid_package ''record range is invalid'')
      else
      try_bind (crc32c_file_range app files (shard_name shard) offset stored) (\<lambda>actual.
      if actual \<noteq> stored_crc then Inl (invalid_package ''record stored CRC32C does not match'')
      else
      try_bind
        (if kind = 1 then verify_tensor_record app files (shard_name shard) offset stored decoded codec flags logical_crc
         else if kind = 2 then verify_expert_record files (shard_name shard) offset stored decoded layer expert codec
         else Inr ()) (\<lambda>_. Inr (rid, shard, stored)))))))))))))))))))"

text \<open>The loop over the records, with the progress it reports before it ends or fails.\<close>

fun verify_records ::
  "(nat \<Rightarrow> nat list \<Rightarrow> (nat \<times> nat \<times> nat) outcome) \<Rightarrow> nat \<Rightarrow> nat \<Rightarrow> nat list \<Rightarrow> nat list \<Rightarrow> nat \<Rightarrow>
     unit outcome \<times> verification_progress list" where
  "verify_records step records shards [] ids verified = (Inr (), [])"
| "verify_records step records shards (i # is) ids verified =
     (case step i ids of
        Inl e \<Rightarrow> (Inl e, [])
      | Inr (rid, shard, stored) \<Rightarrow>
          (case checked_add_u64 verified stored of
             None \<Rightarrow> (Inl (misuse ''verified byte total overflows''), [])
           | Some verified' \<Rightarrow>
               let report = (if (i + 1) mod 64 = 0 \<or> i + 1 = records
                      then [\<lparr>vp_completed_records = i + 1, vp_total_records = records, vp_verified_bytes = verified',
                             vp_current_shard = shard, vp_total_shards = shards\<rparr>] else []);
                   (r, reports) = verify_records step records shards is (rid # ids) verified'
               in (r, report @ reports)))"

definition verify_tables :: "crc_append \<Rightarrow> package_files \<Rightarrow> (byte list \<times> coli_head \<times> nat list) outcome" where
  "verify_tables app files =
     try_bind (open_file files manifest_name) (\<lambda>m.
     try_bind (read_head app m) (\<lambda>h.
     try_bind (at_u32 m 148) (\<lambda>profile_id.
     try_bind (at_u32 m 152) (\<lambda>compiler_id.
     try_bind (validate_string_id m (hd_string_table h) (hd_strings h) profile_id) (\<lambda>_.
     try_bind (validate_string_id m (hd_string_table h) (hd_strings h) compiler_id) (\<lambda>_.
     try_bind (check_fingerprint m h) (\<lambda>fp.
     try_bind (try_map (verify_shard app files m h fp) [0..<hd_shards h]) (\<lambda>sizes. Inr (m, h, sizes)))))))))"

definition verify_package_with_progress ::
  "crc_append \<Rightarrow> package_files \<Rightarrow> verification_summary outcome \<times> verification_progress list" where
  "verify_package_with_progress app files =
     (case verify_tables app files of
        Inl e \<Rightarrow> (Inl e, [])
      | Inr (m, h, sizes) \<Rightarrow>
          (case verify_records (verify_record app files m h sizes) (hd_records h) (hd_shards h) [0..<hd_records h] [] 0 of
             (r, reports) \<Rightarrow>
               (try_bind r (\<lambda>_. Inr \<lparr>vs_shards = hd_shards h, vs_records = hd_records h\<rparr>), reports)))"

definition verify_package :: "crc_append \<Rightarrow> package_files \<Rightarrow> verification_summary outcome" where
  "verify_package app files = fst (verify_package_with_progress app files)"

end
