(* ===== verification/Coli_Package.thy ===== *)
theory Coli_Package
  imports Coli_Verify
begin

text \<open>
  The reader of COLI packages (\<^verbatim>\<open>logan-format/src/package.rs\<close>): it validates the structure when
  it opens a package, and reads and checks the bytes of a record when they are asked for.  An open
  shard is its name with the bytes it had when it was opened.  A lock that another thread's panic
  has poisoned is not modelled.
\<close>

section \<open>Data\<close>

record record_info =
  ri_id :: nat
  ri_kind :: nat
  ri_codec :: nat
  ri_math_format :: nat
  ri_scale_format :: nat
  ri_layout :: nat
  ri_flags :: nat
  ri_shard_id :: nat
  ri_name :: "byte list option"
  ri_layer :: int
  ri_expert :: int
  ri_offset :: nat
  ri_stored :: nat
  ri_decoded :: nat
  ri_stored_crc :: nat
  ri_logical_crc :: nat

type_synonym regions = "(nat \<times> nat) list \<times> (nat \<times> nat) list"

record package =
  pk_manifest :: "byte list"
  pk_alignment :: nat
  pk_profile :: "byte list"
  pk_compiler :: "byte list"
  pk_fingerprint :: "byte list"
  pk_records :: "record_info list"
  pk_by_id :: "(nat, nat) hash_map"
  pk_by_name :: "(byte list, nat) hash_map"
  pk_by_expert :: "(int \<times> int, nat list) hash_map"
  pk_shards :: "(string \<times> byte list) list"
  pk_expert_regions :: "(nat, regions) hash_map"

section \<open>Opening\<close>

definition open_shard :: "package_files \<Rightarrow> byte list \<Rightarrow> coli_head \<Rightarrow> nat \<Rightarrow> (string \<times> byte list) outcome" where
  "open_shard files m h i =
     (let desc = fst (hd_shard_table h) + i * 64 in
      try_bind (at_u32 m desc) (\<lambda>found.
      if found \<noteq> i then Inl (invalid_package ''shard IDs are not contiguous'')
      else
      try_bind (at_u32 m (desc + 8)) (\<lambda>name_id.
      try_bind (validate_string_id m (hd_string_table h) (hd_strings h) name_id) (\<lambda>_.
      try_bind (at_u64 m (desc + 16)) (\<lambda>file_bytes.
      try_bind (open_file files (shard_name i)) (\<lambda>bs.
      if length bs \<noteq> file_bytes then Inl (invalid_package ''shard file size does not match manifest'')
      else Inr (shard_name i, bs)))))))"

definition read_info :: "byte list \<Rightarrow> coli_head \<Rightarrow> nat \<Rightarrow> record_info outcome" where
  "read_info m h desc =
     try_bind (at_u64 m desc) (\<lambda>rid.
     try_bind (at_u16 m (desc + 8)) (\<lambda>kind.
     try_bind (at_u16 m (desc + 10)) (\<lambda>codec.
     try_bind (at_u16 m (desc + 16)) (\<lambda>lay.
     if lay \<noteq> layout_none \<and> \<not> layout_registered lay
     then Inl (invalid_package ''record uses an unregistered execution layout'')
     else
     try_bind (at_u32 m (desc + 24)) (\<lambda>name_id.
     try_bind (if name_id = u32_max then Inr None
       else try_bind (validate_string_id m (hd_string_table h) (hd_strings h) name_id) (\<lambda>_.
            try_bind (string_at m (hd_string_table h) (hd_strings h) name_id) (\<lambda>s. Inr (Some s)))) (\<lambda>name.
     try_bind (at_u16 m (desc + 12)) (\<lambda>math.
     try_bind (at_u16 m (desc + 14)) (\<lambda>scale.
     try_bind (at_u16 m (desc + 18)) (\<lambda>flags.
     try_bind (at_u32 m (desc + 20)) (\<lambda>shard.
     try_bind (at_i32 m (desc + 28)) (\<lambda>layer.
     try_bind (at_i32 m (desc + 32)) (\<lambda>expert.
     try_bind (at_u64 m (desc + 40)) (\<lambda>offset.
     try_bind (at_u64 m (desc + 48)) (\<lambda>stored.
     try_bind (at_u64 m (desc + 56)) (\<lambda>decoded.
     try_bind (at_u32 m (desc + 64)) (\<lambda>stored_crc.
     try_bind (at_u32 m (desc + 68)) (\<lambda>logical_crc.
       Inr \<lparr>ri_id = rid, ri_kind = kind, ri_codec = codec, ri_math_format = math, ri_scale_format = scale,
            ri_layout = lay, ri_flags = flags, ri_shard_id = shard, ri_name = name, ri_layer = layer,
            ri_expert = expert, ri_offset = offset, ri_stored = stored, ri_decoded = decoded,
            ri_stored_crc = stored_crc, ri_logical_crc = logical_crc\<rparr>)))))))))))))))))"

text \<open>The three indexes and the records so far.\<close>

record index_state =
  ix_records :: "record_info list"
  ix_by_id :: "(nat, nat) hash_map"
  ix_by_name :: "(byte list, nat) hash_map"
  ix_by_expert :: "(int \<times> int, nat list) hash_map"

definition push_expert :: "int \<times> int \<Rightarrow> nat \<Rightarrow> (int \<times> int, nat list) hash_map \<Rightarrow> (int \<times> int, nat list) hash_map" where
  "push_expert key i by_expert =
     hm_insert key ((case hm_get by_expert key of None \<Rightarrow> [] | Some is \<Rightarrow> is) @ [i]) by_expert"

text \<open>One record.  An early return drops the maps, so their insertions matter only when the checks pass.\<close>

definition index_record ::
  "byte list \<Rightarrow> coli_head \<Rightarrow> (string \<times> byte list) list \<Rightarrow> nat \<Rightarrow> index_state \<Rightarrow> index_state outcome" where
  "index_record m h shards i ix =
     try_bind (read_info m h (fst (hd_record_table h) + i * 96)) (\<lambda>info.
     if ri_id info = 0 \<or> hm_get (ix_by_id ix) (ri_id info) \<noteq> None \<or> length shards \<le> ri_shard_id info
     then Inl (invalid_package ''record ID or shard reference is invalid'')
     else if ri_offset info mod hd_alignment h \<noteq> 0 \<or>
       (case checked_add_u64 (ri_offset info) (ri_stored info) of
          None \<Rightarrow> True
        | Some e \<Rightarrow> length (snd (shards ! ri_shard_id info)) < e)
     then Inl (invalid_package ''record range is invalid'')
     else if (case ri_name info of None \<Rightarrow> False | Some name \<Rightarrow> hm_get (ix_by_name ix) name \<noteq> None)
     then Inl (invalid_package ''record name is not unique'')
     else
       Inr \<lparr>ix_records = ix_records ix @ [info],
            ix_by_id = hm_insert (ri_id info) i (ix_by_id ix),
            ix_by_name = (case ri_name info of None \<Rightarrow> ix_by_name ix | Some name \<Rightarrow> hm_insert name i (ix_by_name ix)),
            ix_by_expert =
              (if ri_kind info = 2 then push_expert (ri_layer info, ri_expert info) i (ix_by_expert ix) else ix_by_expert ix)\<rparr>)"

fun index_records ::
  "byte list \<Rightarrow> coli_head \<Rightarrow> (string \<times> byte list) list \<Rightarrow> nat list \<Rightarrow> index_state \<Rightarrow> index_state outcome" where
  "index_records m h shards [] ix = Inr ix"
| "index_records m h shards (i # is) ix = try_bind (index_record m h shards i ix) (index_records m h shards is)"

definition open_package :: "crc_append \<Rightarrow> package_files \<Rightarrow> package outcome" where
  "open_package app files =
     try_bind (open_file files manifest_name) (\<lambda>m.
     try_bind (read_head app m) (\<lambda>h.
     try_bind (at_u32 m 148) (\<lambda>profile_id.
     try_bind (string_at m (hd_string_table h) (hd_strings h) profile_id) (\<lambda>profile.
     try_bind (at_u32 m 152) (\<lambda>compiler_id.
     try_bind (string_at m (hd_string_table h) (hd_strings h) compiler_id) (\<lambda>compiler.
     try_bind (check_fingerprint m h) (\<lambda>fp.
     try_bind (try_map (open_shard files m h) [0..<hd_shards h]) (\<lambda>shards.
     try_bind (index_records m h shards [0..<hd_records h]
       \<lparr>ix_records = [], ix_by_id = [], ix_by_name = [], ix_by_expert = []\<rparr>) (\<lambda>ix.
       Inr \<lparr>pk_manifest = m, pk_alignment = hd_alignment h, pk_profile = profile, pk_compiler = compiler,
            pk_fingerprint = fp, pk_records = ix_records ix, pk_by_id = ix_by_id ix, pk_by_name = ix_by_name ix,
            pk_by_expert = ix_by_expert ix, pk_shards = shards, pk_expert_regions = []\<rparr>)))))))))"

section \<open>Lookups\<close>

text \<open>The index maps hold positions; one out of range would be a panic, which no opened package has.\<close>

definition record_by_id :: "package \<Rightarrow> nat \<Rightarrow> record_info option" where
  "record_by_id p rid = map_option (\<lambda>i. pk_records p ! i) (hm_get (pk_by_id p) rid)"

definition record_by_name :: "package \<Rightarrow> byte list \<Rightarrow> record_info option" where
  "record_by_name p name = map_option (\<lambda>i. pk_records p ! i) (hm_get (pk_by_name p) name)"

definition expert_records :: "package \<Rightarrow> int \<Rightarrow> int \<Rightarrow> record_info list" where
  "expert_records p layer expert =
     (case hm_get (pk_by_expert p) (layer, expert) of None \<Rightarrow> [] | Some is \<Rightarrow> map (\<lambda>i. pk_records p ! i) is)"

definition shard_path :: "package \<Rightarrow> nat \<Rightarrow> string option" where
  "shard_path p i = (if i < length (pk_shards p) then Some (fst (pk_shards p ! i)) else None)"

section \<open>Reading\<close>

definition read_shard_range :: "package \<Rightarrow> nat \<Rightarrow> nat \<Rightarrow> nat \<Rightarrow> byte list outcome" where
  "read_shard_range p shard offset n =
     (if length (pk_shards p) \<le> shard then Inl (misuse ''record references a missing shard'')
      else read_span (fst (pk_shards p ! shard)) (snd (pk_shards p ! shard)) offset n)"

definition read_payload_range :: "package \<Rightarrow> record_info \<Rightarrow> nat \<Rightarrow> nat \<Rightarrow> byte list outcome" where
  "read_payload_range p r within_off n = read_shard_range p (ri_shard_id r) (wrapping_add_u64 (ri_offset r) within_off) n"

definition read_record :: "crc_append \<Rightarrow> package \<Rightarrow> record_info \<Rightarrow> byte list outcome" where
  "read_record app p r =
     try_bind (read_shard_range p (ri_shard_id r) (ri_offset r) (ri_stored r)) (\<lambda>bytes.
     if crc32c app bytes \<noteq> ri_stored_crc r then Inl (invalid_package ''record stored CRC32C does not match'') else Inr bytes)"

definition tensor_kind_check :: "record_info \<Rightarrow> unit outcome" where
  "tensor_kind_check r =
     (if ri_kind r \<noteq> 1 then Inl (invalid_package ''record is not a tensor record'')
      else if ri_codec r \<noteq> 0
      then Inl (invalid_package ''tensor record uses an unsupported codec (rANS decode lands with RW-014)'')
      else Inr ())"

text \<open>The envelope of a tensor: where its data lie, of which \<open>room\<close> bytes are there.\<close>

definition tensor_data :: "record_info \<Rightarrow> byte list \<Rightarrow> nat \<Rightarrow> (nat \<times> nat) outcome" where
  "tensor_data r bytes room =
     try_bind (refuse_any (invalid_package ''tensor envelope header is invalid'')
       [try_bind (index_range bytes 0 8) (\<lambda>magic. Inr (magic \<noteq> ascii_bytes ''COLITENS'')),
        differs (at_u32 bytes 12) 128, try_bind (at_u16 bytes 16) (\<lambda>dims. Inr (8 < dims))]) (\<lambda>_.
     try_bind (at_u64 bytes 96) (\<lambda>data_offset.
     try_bind (at_u64 bytes 104) (\<lambda>data_stored.
     try_bind (at_u64 bytes 112) (\<lambda>data_decoded.
     if data_offset < 128 \<or> data_offset mod 16 \<noteq> 0 \<or> data_stored \<noteq> data_decoded \<or> data_stored \<noteq> ri_decoded r \<or>
        (case checked_add_u64 data_offset data_stored of None \<Rightarrow> True | Some e \<Rightarrow> room < e)
     then Inl (invalid_package ''tensor envelope lengths are invalid'') else Inr (data_offset, data_stored)))))"

definition read_tensor_payload_range :: "package \<Rightarrow> record_info \<Rightarrow> nat \<Rightarrow> nat \<Rightarrow> byte list outcome" where
  "read_tensor_payload_range p r within_off n =
     try_bind (tensor_kind_check r) (\<lambda>_.
     try_bind (read_payload_range p r 0 128) (\<lambda>header.
     try_bind (tensor_data r header (ri_stored r)) (\<lambda>(data_offset, data_stored).
     try_bind (checked (checked_add_u64 within_off n) ''tensor payload range overflows'') (\<lambda>finish.
     if data_stored < finish then Inl (invalid_package ''tensor payload range is outside tensor data'')
     else try_bind (checked (checked_add_u64 data_offset within_off) ''tensor payload offset overflows'') (\<lambda>start.
       read_payload_range p r start n)))))"

definition read_tensor_payload :: "crc_append \<Rightarrow> package \<Rightarrow> record_info \<Rightarrow> byte list outcome" where
  "read_tensor_payload app p r =
     try_bind (tensor_kind_check r) (\<lambda>_.
     try_bind (read_record app p r) (\<lambda>bytes.
     try_bind (tensor_data r bytes (length bytes)) (\<lambda>(data_offset, data_stored).
     let data_end = wrapping_add_u64 data_offset data_stored in
     try_bind
       (if even (ri_flags r div 2) then Inr ()
        else try_bind (at_u32 bytes 120) (\<lambda>envelope_crc.
          refuse_any (invalid_package ''tensor logical CRC32C does not match'')
            [Inr (envelope_crc \<noteq> ri_logical_crc r),
             try_bind (index_range bytes data_offset data_end) (\<lambda>d. Inr (crc32c app d \<noteq> ri_logical_crc r))])) (\<lambda>_.
     index_range bytes data_offset data_end))))"

section \<open>Experts\<close>

definition int4_math_format :: nat where
  "int4_math_format = 0x0022"

definition int4_scale_format :: nat where
  "int4_scale_format = 0x0001"

text \<open>A span of the record: its end is checked first, its bytes are taken later.\<close>

definition span_end :: "nat \<Rightarrow> nat \<Rightarrow> string \<Rightarrow> nat outcome" where
  "span_end start n label = checked (checked_add_usize start n) (label @ '' span overflows'')"

definition take_span :: "byte list \<Rightarrow> nat \<Rightarrow> nat \<Rightarrow> string \<Rightarrow> byte list outcome" where
  "take_span bytes start finish label =
     (if finish \<le> length bytes then Inr (slice start (finish - start) bytes)
      else Inl (misuse (label @ '' data outside record'')))"

definition decode_matrix ::
  "crc_append \<Rightarrow> package \<Rightarrow> nat \<Rightarrow> nat \<times> nat \<times> nat \<times> nat \<times> nat \<times> nat \<Rightarrow> nat \<Rightarrow> nat \<Rightarrow> byte list \<Rightarrow> byte list \<Rightarrow> byte list outcome" where
  "decode_matrix app p i = (\<lambda>(role, math, scale, rows, cols, w_decoded) wc wt weights scales.
     if math = 0x0003 \<and> scale = 0x0000 then Inr weights
     else if math = int4_math_format \<and> scale = int4_scale_format then Inr (weights @ scales)
     else if math = 0x0020 \<and> scale = 0x0004 then
       if wc \<noteq> rans_codec_id then Inl (misuse ''Apple8 matrix weight codec is not rANS'')
       else
         try_bind (fails (coli_from_manifest (crc32c app) (pk_manifest p) wt wc)) (\<lambda>t.
         try_bind (fails (apple8_decode weights t rows cols)) (\<lambda>tiles.
         if length tiles \<noteq> w_decoded then Inl (misuse ''Apple8 decoded size disagrees with descriptor'') else Inr tiles))
     else Inl (misuse (''expert matrix '' @ show_nat i @ '' (role '' @ show_nat role @ '') uses unsupported math '' @
            show_hex 4 math @ '' scale '' @ show_hex 4 scale)))"

definition read_matrix :: "crc_append \<Rightarrow> package \<Rightarrow> byte list \<Rightarrow> nat \<Rightarrow> nat \<Rightarrow> byte list outcome" where
  "read_matrix app p bytes desc_size i =
     (let d = 64 + i * desc_size in
      try_bind (at_u16 bytes d) (\<lambda>role.
      try_bind (at_u16 bytes (d + 4)) (\<lambda>math.
      try_bind (at_u16 bytes (d + 6)) (\<lambda>scale.
      try_bind (at_u64 bytes (d + 16)) (\<lambda>rows.
      try_bind (at_u64 bytes (d + 24)) (\<lambda>cols.
      try_bind (at_u16 bytes (d + 8)) (\<lambda>wc.
      try_bind (at_u32 bytes (d + 40)) (\<lambda>wt.
      try_bind (at_u64 bytes (d + 48)) (\<lambda>w_off.
      try_bind (at_u64 bytes (d + 56)) (\<lambda>w_stored.
      try_bind (at_u64 bytes (d + 64)) (\<lambda>w_decoded.
      try_bind (at_u64 bytes (d + 72)) (\<lambda>s_off.
      try_bind (at_u64 bytes (d + 80)) (\<lambda>s_stored.
      try_bind (span_end w_off w_stored ''matrix'') (\<lambda>w_end.
      try_bind (span_end s_off s_stored ''scale'') (\<lambda>s_end.
      try_bind (take_span bytes w_off w_end ''matrix'') (\<lambda>weights.
      try_bind (take_span bytes s_off s_end ''scale'') (\<lambda>scales.
      decode_matrix app p i (role, math, scale, rows, cols, w_decoded) wc wt weights scales)))))))))))))))))"

definition read_expert_matrices :: "crc_append \<Rightarrow> package \<Rightarrow> record_info \<Rightarrow> byte list list outcome" where
  "read_expert_matrices app p r =
     (if ri_kind r \<noteq> 2 then Inl (invalid_package ''record is not an expert record'')
      else
      try_bind (read_record app p r) (\<lambda>bytes.
      try_bind (refuse_any (invalid_package ''expert envelope header is invalid'')
        [try_bind (index_range bytes 0 8) (\<lambda>magic. Inr (magic \<noteq> ascii_bytes ''COLIEXPT'')),
         differs (at_u16 bytes 8) 1, differs (at_u32 bytes 12) 64, differs (at_u16 bytes 24) 3]) (\<lambda>_.
      try_bind (at_u32 bytes 28) (\<lambda>desc_size.
      try_map (read_matrix app p bytes desc_size) [0..<3]))))"

text \<open>
  The regions of the matrices of a raw Apple8 expert, for streaming.  Every reason not to know
  them is \<open>None\<close>; the lengths read are below four times 2^32 and cannot panic.
\<close>

definition region_entry :: "record_info \<Rightarrow> byte list \<Rightarrow> nat \<Rightarrow> nat \<Rightarrow> ((nat \<times> nat) \<times> nat \<times> nat) option" where
  "region_entry r raw desc_size i =
     (let d = 64 + i * desc_size in
      Option.bind (ok (at_u16 raw (d + 4))) (\<lambda>math.
      Option.bind (ok (at_u16 raw (d + 8))) (\<lambda>wc.
      Option.bind (ok (at_u64 raw (d + 16))) (\<lambda>rows.
      Option.bind (ok (at_u64 raw (d + 24))) (\<lambda>cols.
      Option.bind (ok (at_u64 raw (d + 48))) (\<lambda>w_off.
      Option.bind (ok (at_u64 raw (d + 56))) (\<lambda>w_stored.
      if math \<noteq> 0x20 \<or> wc \<noteq> 0 then None
      else Some ((wrapping_add_u64 (ri_offset r) w_off, w_stored), (rows, cols)))))))))"

definition parse_regions :: "package \<Rightarrow> record_info \<Rightarrow> regions option" where
  "parse_regions p r =
     Option.bind (ok (read_payload_range p r 0 (64 + 3 * 88))) (\<lambda>raw.
     if take 8 raw \<noteq> ascii_bytes ''COLIEXPT'' then None
     else
     Option.bind (ok (at_u32 raw 28)) (\<lambda>desc_size.
     if desc_size < 88 then None
     else
     let need = 64 + 3 * desc_size in
     Option.bind (if length raw < need then ok (read_payload_range p r 0 need) else Some raw) (\<lambda>raw'.
     map_option (\<lambda>es. (map fst es, map snd es)) (those (map (region_entry r raw' desc_size) [0..<3])))))"

definition expert_matrix_regions :: "package \<Rightarrow> record_info \<Rightarrow> regions option \<times> package" where
  "expert_matrix_regions p r =
     (case hm_get (pk_expert_regions p) (ri_id r) of
        Some cached \<Rightarrow> (Some cached, p)
      | None \<Rightarrow>
          (case parse_regions p r of
             None \<Rightarrow> (None, p)
           | Some parsed \<Rightarrow> (Some parsed, p\<lparr>pk_expert_regions := hm_insert (ri_id r) parsed (pk_expert_regions p)\<rparr>)))"

end
