(* ===== verification/Coli_Package_Props.thy ===== *)
theory Coli_Package_Props
  imports Coli_Package
begin

text \<open>
  What the reader and the verifier of packages promise: opening and verification do not panic, and
  reading does in one case only; an opened package is consistent with its indexes, and a verified
  one can be read.
\<close>

section \<open>Reading fields\<close>

lemma fails_simps [simp]:
  "fails (Inr x) = Inr x"
  "fails (Inl e) = Inl (Fails e)"
  by (simp_all add: fails_def)

lemma fails_iff [simp]: "fails r = Inr x \<longleftrightarrow> r = Inr x" "Inr x = fails r \<longleftrightarrow> r = Inr x"
  by (cases r; auto)+

lemma ok_fails [simp]: "ok (fails r) = ok r"
  by (cases r) simp_all

lemma coli_at_iff: "coli_at k bs off = Inr v \<longleftrightarrow> off + k \<le> length bs \<and> v = le_nat (slice off k bs)"
  by (auto simp: coli_at_def)

lemmas coli_field_iff = coli_u16_def coli_u32_def coli_u64_def coli_at_iff

lemma coli_i32_iff: "coli_i32 bs off = Inr v \<longleftrightarrow> off + 4 \<le> length bs \<and> v = signed32 (le_nat (slice off 4 bs))"
  by (auto simp: coli_i32_def try_bind_Inr coli_at_iff)

lemma checked_iff [simp]: "checked r d = Inr x \<longleftrightarrow> r = Some x"
  by (auto simp: checked_def split: option.split)

lemma checked_sum_iff:
  "checked_add_u64 a b = Some c \<longleftrightarrow> a + b \<le> u64_max \<and> c = a + b"
  "checked_add_usize a b = Some c \<longleftrightarrow> a + b \<le> usize_max \<and> c = a + b"
  "checked_mul_u64 a b = Some c \<longleftrightarrow> a * b \<le> u64_max \<and> c = a * b"
  "checked_mul_usize a b = Some c \<longleftrightarrow> a * b \<le> usize_max \<and> c = a * b"
  by (auto simp: checked_add_u64_def checked_add_usize_def checked_mul_u64_def checked_mul_usize_def)

lemma index_range_iff: "index_range bs a b = Inr s \<longleftrightarrow> a \<le> b \<and> b \<le> length bs \<and> s = slice a (b - a) bs"
  by (auto simp: index_range_def)

lemma refuse_any_Inr [simp]: "refuse_any e cs = Inr u \<longleftrightarrow> list_all (\<lambda>c. c = Inr False) cs"
  by (induction cs) (auto simp: try_bind_Inr)

lemma guard_Inr [simp]:
  "try_bind r (\<lambda>x. Inr (f x)) = Inr y \<longleftrightarrow> (\<exists>x. r = Inr x \<and> y = f x)"
  "(if b then Inl e else r) = Inr y \<longleftrightarrow> \<not> b \<and> r = Inr y"
  by (auto simp: try_bind_Inr)

lemma try_map_iff: "try_map f xs = Inr ys \<longleftrightarrow> list_all2 (\<lambda>x y. f x = Inr y) xs ys"
  by (induction xs arbitrary: ys) (auto simp: try_bind_Inr list_all2_Cons1)

section \<open>No panics\<close>

definition calm :: "'a outcome \<Rightarrow> bool" where
  "calm r \<longleftrightarrow> r \<noteq> Inl Panics"

named_theorems calm_rules \<open>outcomes that are not panics\<close>

lemma calm_simps [calm_rules, simp]:
  "calm (Inr x)" "calm (Inl (Fails e))" "calm (Inl (invalid_package d))" "calm (Inl (misuse d))"
  "calm (fails r)" "calm (checked v d)" "calm (open_file files name)" "calm (seek_to name off)" "calm (read_exact_at name bs off n)"
  by (auto simp: calm_def invalid_package_def misuse_def fails_def checked_def open_file_def seek_to_def read_exact_at_def
      map_sum_def split: sum.splits option.splits)

lemma calm_bind [calm_rules, intro]: "calm r \<Longrightarrow> (\<And>x. r = Inr x \<Longrightarrow> calm (f x)) \<Longrightarrow> calm (try_bind r f)"
  by (cases r) (auto simp: calm_def)

lemma calm_if [calm_rules, intro]: "(b \<Longrightarrow> calm r) \<Longrightarrow> (\<not> b \<Longrightarrow> calm r') \<Longrightarrow> calm (if b then r else r')"
  by simp

lemma calm_index [calm_rules]: "a \<le> b \<Longrightarrow> b \<le> length bs \<Longrightarrow> calm (index_range bs a b)"
  by (simp add: index_range_def)

lemma calm_differs [calm_rules, intro]: "calm r \<Longrightarrow> calm (differs r v)"
  by (cases r) (simp_all add: calm_def)

lemma calm_refuse: "calm (Inl e :: unit outcome) \<Longrightarrow> list_all calm cs \<Longrightarrow> calm (refuse_any e cs)"
  by (induction cs) (auto intro!: calm_bind)

lemma calm_map [calm_rules]: "(\<And>x. x \<in> set xs \<Longrightarrow> calm (f x)) \<Longrightarrow> calm (try_map f xs)"
  by (induction xs) (auto intro!: calm_bind)

lemma calm_chunks [simp]: "calm (crc_chunks app name bs off n st)"
proof (induction app name bs off n st rule: crc_chunks.induct)
  case (1 app name bs off n st)
  then show ?case by (subst crc_chunks.simps) (auto intro!: calm_bind calm_if)
qed

lemma calm_crc_range [simp]: "calm (crc32c_file_range app files name off n)"
  by (auto simp: crc32c_file_range_def intro!: calm_bind)

lemma calm_span: "alloc_ok n 1 \<Longrightarrow> calm (read_span name bs off n)"
  by (auto simp: read_span_def intro!: calm_bind)

lemma read_span_iff:
  "read_span name bs off n = Inr d \<longleftrightarrow>
     off \<le> isize_max \<and> n \<le> isize_max \<and> (n = 0 \<or> off + n \<le> length bs) \<and> d = slice off n bs"
  by (auto simp: read_span_def seek_to_def alloc_ok_def read_exact_at_def)

lemma calm_file_range: "alloc_ok n 1 \<Longrightarrow> calm (read_file_range files name off n)"
  by (auto simp: read_file_range_def intro!: calm_bind calm_span)

lemma file_range_iff: "read_file_range files name off n = Inr d \<longleftrightarrow> (\<exists>bs. files name = Inr bs \<and> read_span name bs off n = Inr d)"
  by (auto simp: read_file_range_def try_bind_Inr open_file_def split: sum.splits)

lemma file_range_length: "read_file_range files name off n = Inr d \<Longrightarrow> length d = n"
  by (auto simp: file_range_iff read_span_iff slice_def)

lemma alloc_small [simp]: "alloc_ok 128 (Suc 0)" "alloc_ok 64 (Suc 0)"
  by (simp_all add: alloc_ok_def isize_max_def)

lemma region_iff:
  "region m a b expected label = Inr (s, e) \<longleftrightarrow>
     coli_u64 m a = Inr s \<and> coli_u64 m b = Inr expected \<and> (expected \<noteq> 0 \<longrightarrow> s mod 16 = 0) \<and>
     s + expected \<le> u64_max \<and> e = s + expected \<and> e \<le> length m"
  by (auto simp: region_def try_bind_Inr checked_sum_iff not_less)

lemma variable_region_bounds: "variable_region m a b label = Inr (s, e) \<Longrightarrow> s \<le> e \<and> e \<le> length m"
  by (auto simp: variable_region_def try_bind_Inr checked_sum_iff not_less)

definition head_ok :: "byte list \<Rightarrow> coli_head \<Rightarrow> bool" where
  "head_ok m h \<longleftrightarrow> coli_header_bytes \<le> length m \<and>
     fst (hd_shard_table h) + hd_shards h * 64 \<le> length m \<and>
     fst (hd_record_table h) + hd_records h * 96 \<le> length m \<and>
     fst (hd_string_table h) + hd_strings h * 16 \<le> snd (hd_string_table h) \<and> snd (hd_string_table h) \<le> length m \<and>
     is_power_of_two (hd_alignment h) \<and> 4096 \<le> hd_alignment h"

lemma check_fixed_D:
  "check_fixed app m = Inr (flags, alignment) \<Longrightarrow>
     coli_header_bytes \<le> length m \<and> is_power_of_two alignment \<and> 4096 \<le> alignment"
  by (auto simp: check_fixed_def try_bind_Inr Let_def not_less)

lemma read_head_ok: "read_head app m = Inr h \<Longrightarrow> head_ok m h"
  by (auto simp: read_head_def head_ok_def try_bind_Inr checked_sum_iff region_iff not_less
      dest!: check_fixed_D variable_region_bounds)

lemma calm_region [simp]: "calm (region m a b expected label)" "calm (variable_region m a b label)"
  by (auto simp: region_def variable_region_def intro!: calm_bind calm_if)

lemma calm_head [simp]: "calm (read_head app m)"
  by (auto simp: read_head_def check_fixed_def Let_def coli_header_bytes_def not_less
      intro!: calm_bind calm_if calm_refuse calm_index calm_differs)

lemma calm_string_id: "snd table \<le> length m \<Longrightarrow> calm (validate_string_id m table strings i)"
  by (auto simp: validate_string_id_def Let_def not_less checked_sum_iff intro!: calm_bind calm_if calm_index)

lemma calm_string_at [simp]: "calm (string_at m table strings i)"
  by (auto simp: string_at_def Let_def intro!: calm_bind calm_if)

lemma head_string: "head_ok m h \<Longrightarrow> calm (validate_string_id m (hd_string_table h) (hd_strings h) i)"
  by (simp add: head_ok_def calm_string_id)

lemma calm_fingerprint: "head_ok m h \<Longrightarrow> calm (check_fingerprint m h)"
  by (auto simp: check_fingerprint_def head_ok_def coli_header_bytes_def intro!: calm_bind calm_if calm_index)

lemma calm_shard_header: "length header = 128 \<Longrightarrow> calm (verify_shard_header app h fp i n c header)"
  by (auto simp: verify_shard_header_def intro!: calm_bind calm_if calm_refuse calm_index calm_differs)

lemma calm_verify_shard: "head_ok m h \<Longrightarrow> calm (verify_shard app files m h fp i)"
  by (auto simp: verify_shard_def Let_def shard_header_bytes_def read_exact_at_def head_string slice_def split: if_splits
      intro!: calm_bind calm_if calm_shard_header)

lemma calm_tensor_record: "calm (verify_tensor_record app files name off stored decoded codec flags crc)"
  by (auto simp: verify_tensor_record_def dest!: file_range_length
      intro!: calm_bind calm_if calm_refuse calm_index calm_differs calm_file_range)

lemma calm_expert_record: "calm (verify_expert_record files name off stored decoded layer expert codec)"
  by (auto simp: verify_expert_record_def dest!: file_range_length
      intro!: calm_bind calm_if calm_refuse calm_index calm_differs calm_file_range)

lemma calm_verify_record: "head_ok m h \<Longrightarrow> calm (verify_record app files m h sizes i ids)"
  by (auto simp: verify_record_def Let_def head_string calm_tensor_record calm_expert_record intro!: calm_bind calm_if)

lemma verify_records_Cons:
  "fst (verify_records step records shards (i # is) ids n) =
     try_bind (step i ids) (\<lambda>(rid, shard, stored).
     try_bind (checked (checked_add_u64 n stored) ''verified byte total overflows'') (\<lambda>n'.
       fst (verify_records step records shards is (rid # ids) n')))"
  by (auto simp: checked_def Let_def split: sum.split option.split prod.split)

lemma calm_verify_records:
  assumes "\<And>i ids. calm (step i ids)"
  shows "calm (fst (verify_records step records shards is ids n))"
proof (induction "is" arbitrary: ids n)
  case (Cons i "is")
  then show ?case unfolding verify_records_Cons by (auto simp: assms intro!: calm_bind)
qed simp

lemma calm_tables: "calm (verify_tables app files)"
  by (auto simp: verify_tables_def calm_verify_shard calm_fingerprint head_string dest!: read_head_ok intro!: calm_bind calm_map)

lemma verify_tables_D:
  "verify_tables app files = Inr (m, h, sizes) \<Longrightarrow> read_head app m = Inr h \<and> files manifest_name = Inr m"
  by (auto simp: verify_tables_def try_bind_Inr open_file_def split: sum.splits)

lemma calm_verify: "calm (verify_package app files)"
proof (cases "verify_tables app files")
  case (Inl e)
  then show ?thesis using calm_tables [of app files] by (simp add: verify_package_def verify_package_with_progress_def calm_def)
next
  case (Inr s)
  obtain m h sizes where s: "s = (m, h, sizes)" by (cases s)
  have "head_ok m h" using Inr s verify_tables_D read_head_ok by blast
  then have "calm (fst (verify_records (verify_record app files m h sizes) (hd_records h) (hd_shards h) [0..<hd_records h] [] 0))"
    by (intro calm_verify_records calm_verify_record)
  then show ?thesis using Inr s
    by (auto simp: verify_package_def verify_package_with_progress_def split: prod.split intro!: calm_bind)
qed

lemma calm_info: "head_ok m h \<Longrightarrow> calm (read_info m h desc)"
  by (auto simp: read_info_def head_string intro!: calm_bind calm_if)

lemma calm_index_records: "head_ok m h \<Longrightarrow> calm (index_records m h shards is ix)"
  by (induction "is" arbitrary: ix) (auto simp: index_record_def calm_info intro!: calm_bind calm_if)

lemma calm_open: "calm (open_package app files)"
  by (auto simp: open_package_def open_shard_def Let_def calm_fingerprint head_string calm_index_records dest!: read_head_ok
      intro!: calm_bind calm_map calm_if)

section \<open>The indexes of an opened package\<close>

definition record_fits :: "(string \<times> byte list) list \<Rightarrow> nat \<Rightarrow> record_info \<Rightarrow> bool" where
  "record_fits shards alignment r \<longleftrightarrow>
     ri_id r \<noteq> 0 \<and> ri_shard_id r < length shards \<and> ri_offset r mod alignment = 0 \<and>
     ri_offset r + ri_stored r \<le> u64_max \<and>
     ri_offset r + ri_stored r \<le> length (snd (shards ! ri_shard_id r))"

definition is_expert :: "int \<Rightarrow> int \<Rightarrow> record_info \<Rightarrow> bool" where
  "is_expert layer expert r \<longleftrightarrow> ri_kind r = 2 \<and> ri_layer r = layer \<and> ri_expert r = expert"

definition expert_positions :: "(int \<times> int, nat list) hash_map \<Rightarrow> int \<times> int \<Rightarrow> nat list" where
  "expert_positions by_expert k = (case hm_get by_expert k of None \<Rightarrow> [] | Some is \<Rightarrow> is)"

definition indexed :: "index_state \<Rightarrow> bool" where
  "indexed ix \<longleftrightarrow>
     (let rs = ix_records ix in
      (\<forall>v i. hm_get (ix_by_id ix) v = Some i \<longleftrightarrow> i < length rs \<and> ri_id (rs ! i) = v) \<and>
      (\<forall>v i. hm_get (ix_by_name ix) v = Some i \<longleftrightarrow> i < length rs \<and> ri_name (rs ! i) = Some v) \<and>
      (\<forall>l e. expert_positions (ix_by_expert ix) (l, e) = filter (\<lambda>i. is_expert l e (rs ! i)) [0..<length rs]))"

lemma positions_push:
  "expert_positions (push_expert k i m) k' = (if k' = k then expert_positions m k @ [i] else expert_positions m k')"
  by (auto simp: push_expert_def expert_positions_def hm_simps split: option.split)

lemma index_record_D:
  assumes "index_record m h shards i ix = Inr ix'"
  obtains info where "ix_records ix' = ix_records ix @ [info]" "read_info m h (fst (hd_record_table h) + i * 96) = Inr info"
    "record_fits shards (hd_alignment h) info" "hm_get (ix_by_id ix) (ri_id info) = None"
    "case ri_name info of None \<Rightarrow> True | Some name \<Rightarrow> hm_get (ix_by_name ix) name = None"
    "ix_by_id ix' = hm_insert (ri_id info) i (ix_by_id ix)"
    "ix_by_name ix' = (case ri_name info of None \<Rightarrow> ix_by_name ix | Some name \<Rightarrow> hm_insert name i (ix_by_name ix))"
    "ix_by_expert ix' =
       (if ri_kind info = 2 then push_expert (ri_layer info, ri_expert info) i (ix_by_expert ix) else ix_by_expert ix)"
proof -
  obtain info where info: "read_info m h (fst (hd_record_table h) + i * 96) = Inr info"
    using assms by (auto simp: index_record_def try_bind_Inr)
  have fits: "record_fits shards (hd_alignment h) info"
    using assms info by (auto simp: index_record_def record_fits_def checked_sum_iff not_less not_le split: option.splits)
  have fresh: "hm_get (ix_by_id ix) (ri_id info) = None"
    "case ri_name info of None \<Rightarrow> True | Some name \<Rightarrow> hm_get (ix_by_name ix) name = None"
    using assms info by (auto simp: index_record_def split: if_splits option.splits)
  have "ix' = \<lparr>ix_records = ix_records ix @ [info],
      ix_by_id = hm_insert (ri_id info) i (ix_by_id ix),
      ix_by_name = (case ri_name info of None \<Rightarrow> ix_by_name ix | Some name \<Rightarrow> hm_insert name i (ix_by_name ix)),
      ix_by_expert = (if ri_kind info = 2 then push_expert (ri_layer info, ri_expert info) i (ix_by_expert ix) else ix_by_expert ix)\<rparr>"
    using assms info by (simp add: index_record_def)
  then show thesis using info fits fresh by (intro that [of info]) simp_all
qed

lemma index_record_indexed:
  assumes "index_record m h shards (length (ix_records ix)) ix = Inr ix'" "indexed ix"
  shows "indexed ix'"
proof -
  obtain info where recs: "ix_records ix' = ix_records ix @ [info]"
    and "read_info m h (fst (hd_record_table h) + length (ix_records ix) * 96) = Inr info"
    and "record_fits shards (hd_alignment h) info"
    and fresh: "hm_get (ix_by_id ix) (ri_id info) = None"
      "case ri_name info of None \<Rightarrow> True | Some name \<Rightarrow> hm_get (ix_by_name ix) name = None"
    and maps: "ix_by_id ix' = hm_insert (ri_id info) (length (ix_records ix)) (ix_by_id ix)"
      "ix_by_name ix' = (case ri_name info of None \<Rightarrow> ix_by_name ix | Some name \<Rightarrow> hm_insert name (length (ix_records ix)) (ix_by_name ix))"
      "ix_by_expert ix' = (if ri_kind info = 2 then push_expert (ri_layer info, ri_expert info) (length (ix_records ix))
         (ix_by_expert ix) else ix_by_expert ix)"
    by (rule index_record_D [OF assms(1)])
  have old: "hm_get (ix_by_id ix) v = Some i \<longleftrightarrow> i < length (ix_records ix) \<and> ri_id (ix_records ix ! i) = v"
    "hm_get (ix_by_name ix) s = Some i \<longleftrightarrow> i < length (ix_records ix) \<and> ri_name (ix_records ix ! i) = Some s"
    "expert_positions (ix_by_expert ix) (l, e) = filter (\<lambda>i. is_expert l e (ix_records ix ! i)) [0..<length (ix_records ix)]"
    for v s i l e using assms(2) by (auto simp: indexed_def Let_def)
  have unused: "i < length (ix_records ix) \<Longrightarrow> ri_name (ix_records ix ! i) = Some v \<Longrightarrow> ri_name info \<noteq> Some v" for i v
    using fresh(2) old(2) [of v i] by auto
  have "hm_get (ix_by_id ix') v = Some i \<longleftrightarrow> i < length (ix_records ix') \<and> ri_id (ix_records ix' ! i) = v" for v i
    using fresh(1) old(1) [of "ri_id info"] by (auto simp: maps recs hm_simps nth_append less_Suc_eq old(1))
  moreover have "hm_get (ix_by_name ix') v = Some i \<longleftrightarrow> i < length (ix_records ix') \<and> ri_name (ix_records ix' ! i) = Some v" for v i
    using unused by (auto simp: maps recs hm_simps nth_append less_Suc_eq old(2) split: option.splits)
  moreover have "expert_positions (ix_by_expert ix') (l, e) = filter (\<lambda>i. is_expert l e (ix_records ix' ! i)) [0..<length (ix_records ix')]" for l e
    by (auto simp: maps recs positions_push old(3) nth_append is_expert_def intro!: filter_cong)
  ultimately show ?thesis by (simp add: indexed_def Let_def)
qed

lemma index_records_D:
  assumes "index_records m h shards [length (ix_records ix)..<n] ix = Inr ix'" "length (ix_records ix) \<le> n"
  shows "length (ix_records ix') = n \<and> (indexed ix \<longrightarrow> indexed ix') \<and>
    (\<forall>i < n. length (ix_records ix) \<le> i \<longrightarrow>
       read_info m h (fst (hd_record_table h) + i * 96) = Inr (ix_records ix' ! i) \<and>
       record_fits shards (hd_alignment h) (ix_records ix' ! i)) \<and>
    (\<forall>i < length (ix_records ix). ix_records ix' ! i = ix_records ix ! i)"
  using assms
proof (induction "n - length (ix_records ix)" arbitrary: ix)
  case (Suc k)
  then have "[length (ix_records ix)..<n] = length (ix_records ix) # [Suc (length (ix_records ix))..<n]" by (simp add: upt_conv_Cons)
  with Suc.prems obtain mid where mid: "index_record m h shards (length (ix_records ix)) ix = Inr mid"
    "index_records m h shards [Suc (length (ix_records ix))..<n] mid = Inr ix'" by (auto simp: try_bind_Inr)
  obtain info where recs: "ix_records mid = ix_records ix @ [info]"
    "read_info m h (fst (hd_record_table h) + length (ix_records ix) * 96) = Inr info" "record_fits shards (hd_alignment h) info"
    using index_record_D [OF mid(1)] by metis
  have len: "length (ix_records mid) = Suc (length (ix_records ix))" by (simp add: recs)
  have "length (ix_records ix) < n" using Suc.hyps(2) by simp
  with Suc.hyps(1) [of mid] Suc.hyps(2) mid(2) have ih: "length (ix_records ix') = n" "indexed mid \<longrightarrow> indexed ix'"
    "\<forall>i < n. length (ix_records mid) \<le> i \<longrightarrow>
       read_info m h (fst (hd_record_table h) + i * 96) = Inr (ix_records ix' ! i) \<and>
       record_fits shards (hd_alignment h) (ix_records ix' ! i)"
    "\<forall>i < length (ix_records mid). ix_records ix' ! i = ix_records mid ! i" by (auto simp: len)
  moreover have "ix_records ix' ! length (ix_records ix) = info" using ih(4) by (simp add: recs)
  moreover have "i < length (ix_records ix) \<Longrightarrow> ix_records ix' ! i = ix_records ix ! i" for i
    using ih(4) by (simp add: recs nth_append)
  ultimately show ?case using index_record_indexed [OF mid(1)] recs(2,3) len by (auto simp: le_less Suc_le_eq)
qed auto

definition no_index :: index_state where
  "no_index = \<lparr>ix_records = [], ix_by_id = [], ix_by_name = [], ix_by_expert = []\<rparr>"

lemma no_index [simp]: "ix_records no_index = []" "indexed no_index"
  by (simp_all add: no_index_def indexed_def expert_positions_def)

lemma open_package_D:
  assumes "open_package app files = Inr p"
  obtains m h fp shards ix where "files manifest_name = Inr m" "read_head app m = Inr h" "check_fingerprint m h = Inr fp"
    "try_map (open_shard files m h) [0..<hd_shards h] = Inr shards"
    "index_records m h shards [0..<hd_records h] no_index = Inr ix"
    "pk_manifest p = m" "pk_alignment p = hd_alignment h" "pk_shards p = shards" "pk_records p = ix_records ix"
    "pk_by_id p = ix_by_id ix" "pk_by_name p = ix_by_name ix" "pk_by_expert p = ix_by_expert ix" "pk_expert_regions p = []"
  using assms by (auto simp: open_package_def try_bind_Inr open_file_def no_index_def split: sum.splits)

lemma open_shard_iff:
  "open_shard files m h i = Inr s \<longleftrightarrow>
     (\<exists>name_id bs. let desc = fst (hd_shard_table h) + i * 64 in
        coli_u32 m desc = Inr i \<and> coli_u32 m (desc + 8) = Inr name_id \<and>
        validate_string_id m (hd_string_table h) (hd_strings h) name_id = Inr () \<and>
        coli_u64 m (desc + 16) = Inr (length bs) \<and> files (shard_name i) = Inr bs \<and> s = (shard_name i, bs))"
  by (auto simp: open_shard_def Let_def try_bind_Inr open_file_def split: sum.splits)

definition shards_from :: "package_files \<Rightarrow> (string \<times> byte list) list \<Rightarrow> bool" where
  "shards_from files shards \<longleftrightarrow>
     list_all (\<lambda>i. fst (shards ! i) = shard_name i \<and> files (shard_name i) = Inr (snd (shards ! i))) [0..<length shards]"

lemma open_shards_from: "try_map (open_shard files m h) [0..<n] = Inr shards \<Longrightarrow> shards_from files shards \<and> length shards = n"
  by (auto simp: try_map_iff shards_from_def list_all_iff list_all2_conv_all_nth open_shard_iff Let_def)

lemma filter_positions: "map ((!) xs) (filter (\<lambda>i. P (xs ! i)) [0..<length xs]) = filter P xs"
  using filter_map [of P "(!) xs" "[0..<length xs]"] by (simp add: map_nth comp_def)

text \<open>
  The lookups against the list of records: ids and names are unique, and the expert index lists
  the representations of an expert in the order of the manifest.
\<close>

definition package_consistent :: "package_files \<Rightarrow> package \<Rightarrow> bool" where
  "package_consistent files p \<longleftrightarrow>
     shards_from files (pk_shards p) \<and>
     list_all (record_fits (pk_shards p) (pk_alignment p)) (pk_records p) \<and> distinct (map ri_id (pk_records p)) \<and>
     (\<forall>v r. record_by_id p v = Some r \<longleftrightarrow> r \<in> set (pk_records p) \<and> ri_id r = v) \<and>
     (\<forall>v r. record_by_name p v = Some r \<longleftrightarrow> r \<in> set (pk_records p) \<and> ri_name r = Some v) \<and>
     (\<forall>l e. expert_records p l e = filter (is_expert l e) (pk_records p))"

lemma lookups:
  assumes "indexed ix" "pk_records p = ix_records ix" "pk_by_id p = ix_by_id ix" "pk_by_name p = ix_by_name ix"
    "pk_by_expert p = ix_by_expert ix"
  shows "record_by_id p v = Some r \<longleftrightarrow> r \<in> set (pk_records p) \<and> ri_id r = v"
    and "record_by_name p s = Some r \<longleftrightarrow> r \<in> set (pk_records p) \<and> ri_name r = Some s"
    and "expert_records p l e = filter (is_expert l e) (pk_records p)"
    and "distinct (map ri_id (pk_records p))"
proof -
  have ix: "hm_get (ix_by_id ix) v = Some i \<longleftrightarrow> i < length (ix_records ix) \<and> ri_id (ix_records ix ! i) = v"
    "hm_get (ix_by_name ix) s = Some i \<longleftrightarrow> i < length (ix_records ix) \<and> ri_name (ix_records ix ! i) = Some s"
    "expert_positions (ix_by_expert ix) (l, e) = filter (\<lambda>i. is_expert l e (ix_records ix ! i)) [0..<length (ix_records ix)]"
    for v s i l e using assms(1) by (auto simp: indexed_def Let_def)
  show "record_by_id p v = Some r \<longleftrightarrow> r \<in> set (pk_records p) \<and> ri_id r = v"
    by (auto simp: record_by_id_def assms ix(1) in_set_conv_nth)
  show "record_by_name p s = Some r \<longleftrightarrow> r \<in> set (pk_records p) \<and> ri_name r = Some s"
    by (auto simp: record_by_name_def assms ix(2) in_set_conv_nth)
  have "expert_records p l e = map ((!) (ix_records ix)) (expert_positions (ix_by_expert ix) (l, e))"
    by (simp add: expert_records_def expert_positions_def assms split: option.split)
  then show "expert_records p l e = filter (is_expert l e) (pk_records p)" by (simp add: ix(3) filter_positions assms)
  show "distinct (map ri_id (pk_records p))"
    unfolding distinct_conv_nth length_map
  proof (intro allI impI)
    fix i j assume "i < length (pk_records p)" "j < length (pk_records p)" "i \<noteq> j"
    then show "map ri_id (pk_records p) ! i \<noteq> map ri_id (pk_records p) ! j"
      using ix(1) [of "ri_id (ix_records ix ! i)" i] ix(1) [of "ri_id (ix_records ix ! i)" j] by (auto simp: assms)
  qed
qed

lemma open_consistent: "open_package app files = Inr p \<Longrightarrow> package_consistent files p"
proof (erule open_package_D)
  fix m h fp shards ix
  assume head: "read_head app m = Inr h" and shards: "try_map (open_shard files m h) [0..<hd_shards h] = Inr shards"
    and index: "index_records m h shards [0..<hd_records h] no_index = Inr ix"
    and p: "pk_alignment p = hd_alignment h" "pk_shards p = shards" "pk_records p = ix_records ix"
      "pk_by_id p = ix_by_id ix" "pk_by_name p = ix_by_name ix" "pk_by_expert p = ix_by_expert ix"
  have "length (ix_records ix) = hd_records h \<and> indexed ix \<and>
      (\<forall>i < hd_records h. record_fits shards (hd_alignment h) (ix_records ix ! i))"
    using index_records_D [of m h shards no_index "hd_records h" ix] index by simp
  then show ?thesis
    using lookups [of ix p] open_shards_from [OF shards] p by (auto simp: package_consistent_def list_all_length)
qed

section \<open>Reading records\<close>

text \<open>No file is longer than an offset can say, as on every system Rust supports.\<close>

definition real_files :: "package_files \<Rightarrow> bool" where
  "real_files files \<longleftrightarrow> (\<forall>name bs. files name = Inr bs \<longrightarrow> length bs \<le> isize_max)"

definition shard_bytes :: "package \<Rightarrow> record_info \<Rightarrow> byte list" where
  "shard_bytes p r = snd (pk_shards p ! ri_shard_id r)"

lemma record_place:
  assumes "real_files files" "package_consistent files p" "r \<in> set (pk_records p)"
  shows "ri_shard_id r < length (pk_shards p)" "ri_offset r + ri_stored r \<le> length (shard_bytes p r)"
    "length (shard_bytes p r) \<le> isize_max"
proof -
  show shard: "ri_shard_id r < length (pk_shards p)" and "ri_offset r + ri_stored r \<le> length (shard_bytes p r)"
    using assms(2,3) by (auto simp: package_consistent_def list_all_iff record_fits_def shard_bytes_def)
  have "files (shard_name (ri_shard_id r)) = Inr (shard_bytes p r)"
    using assms(2) shard by (auto simp: package_consistent_def shards_from_def list_all_iff shard_bytes_def)
  then show "length (shard_bytes p r) \<le> isize_max" using assms(1) by (simp add: real_files_def)
qed

lemma read_inside:
  assumes "real_files files" "package_consistent files p" "r \<in> set (pk_records p)" "w + n \<le> ri_stored r"
  shows "read_payload_range p r w n = Inr (slice (ri_offset r + w) n (shard_bytes p r))"
    and "w = 0 \<Longrightarrow> read_shard_range p (ri_shard_id r) (ri_offset r) n = Inr (slice (ri_offset r) n (shard_bytes p r))"
proof -
  note place = record_place [OF assms(1-3)]
  have "read_span name (shard_bytes p r) (ri_offset r + w) n = Inr (slice (ri_offset r + w) n (shard_bytes p r))" for name
    using place assms(4) by (simp add: read_span_iff)
  moreover have "wrapping_add_u64 (ri_offset r) w = ri_offset r + w"
    using place assms(4) by (simp add: wrapping_add_u64_def u64_max_def isize_max_def)
  ultimately show "read_payload_range p r w n = Inr (slice (ri_offset r + w) n (shard_bytes p r))"
    and "w = 0 \<Longrightarrow> read_shard_range p (ri_shard_id r) (ri_offset r) n = Inr (slice (ri_offset r) n (shard_bytes p r))"
    using place(1) by (auto simp: read_payload_range_def read_shard_range_def shard_bytes_def)
qed

lemma read_record_iff:
  assumes "real_files files" "package_consistent files p" "r \<in> set (pk_records p)"
  shows "read_record app p r = Inr bytes \<longleftrightarrow>
    bytes = slice (ri_offset r) (ri_stored r) (shard_bytes p r) \<and> crc32c app bytes = ri_stored_crc r"
  using read_inside(2) [OF assms, of 0 "ri_stored r"] by (auto simp: read_record_def)

lemma calm_read_record:
  assumes "real_files files" "package_consistent files p" "r \<in> set (pk_records p)"
  shows "calm (read_record app p r)"
  using read_inside(2) [OF assms, of 0 "ri_stored r"] by (auto simp: read_record_def intro!: calm_bind calm_if)

section \<open>Tensors\<close>

lemma tensor_data_iff:
  "tensor_data r bytes room = Inr (off, n) \<longleftrightarrow>
     slice 0 8 bytes = ascii_bytes ''COLITENS'' \<and> coli_u32 bytes 12 = Inr 128 \<and> (\<exists>dims \<le> 8. coli_u16 bytes 16 = Inr dims) \<and>
     coli_u64 bytes 96 = Inr off \<and> coli_u64 bytes 104 = Inr n \<and> coli_u64 bytes 112 = Inr n \<and>
     128 \<le> off \<and> off mod 16 = 0 \<and> n = ri_decoded r \<and> off + n \<le> room \<and> off + n \<le> u64_max"
  by (auto simp: tensor_data_def try_bind_Inr index_range_iff differs_def checked_add_u64_def coli_field_iff not_less split: if_splits)

lemma field_in_prefix:
  "x + k \<le> 128 \<Longrightarrow> 128 \<le> n \<Longrightarrow> s + n \<le> length bs \<Longrightarrow>
     coli_at k (slice s 128 bs) x = Inr v \<longleftrightarrow> coli_at k (slice s n bs) x = Inr v"
  by (simp add: coli_at_iff buffer_simps slice_slice)

lemma magic_in_prefix: "128 \<le> n \<Longrightarrow> slice 0 8 (slice s 128 bs) = slice 0 8 (slice s n bs)"
  by (simp add: slice_slice)

lemma tensor_data_prefix:
  assumes "128 \<le> n" "s + n \<le> length bs"
  shows "tensor_data r (slice s 128 bs) n = Inr x \<longleftrightarrow> tensor_data r (slice s n bs) n = Inr x"
  using assms by (cases x) (simp add: tensor_data_iff field_in_prefix coli_u16_def coli_u32_def coli_u64_def magic_in_prefix)

lemma payload_D:
  assumes "read_tensor_payload app p r = Inr d"
  shows "tensor_kind_check r = Inr () \<and> (\<exists>bytes off. read_record app p r = Inr bytes \<and>
    tensor_data r bytes (length bytes) = Inr (off, ri_decoded r) \<and> d = slice off (ri_decoded r) bytes)"
proof -
  obtain bytes off n where "tensor_kind_check r = Inr ()" "read_record app p r = Inr bytes"
    and data: "tensor_data r bytes (length bytes) = Inr (off, n)"
    and d: "index_range bytes off (wrapping_add_u64 off n) = Inr d"
    using assms by (auto simp: read_tensor_payload_def try_bind_Inr Let_def)
  moreover have "n = ri_decoded r" "off + n \<le> u64_max" using data by (auto simp: tensor_data_iff)
  ultimately show ?thesis by (auto simp: index_range_iff wrapping_add_u64_def)
qed

lemma payload_range_agrees:
  assumes real: "real_files files" and p: "package_consistent files p" and r: "r \<in> set (pk_records p)"
    and read: "read_tensor_payload app p r = Inr d"
  shows "ok (read_tensor_payload_range p r w n) = (if w + n \<le> length d then Some (slice w n d) else None)"
proof -
  note place = record_place [OF real p r] and inside = read_inside [OF real p r]
  obtain bytes off where kind: "tensor_kind_check r = Inr ()" and bytes: "read_record app p r = Inr bytes"
    and data: "tensor_data r bytes (length bytes) = Inr (off, ri_decoded r)" and d: "d = slice off (ri_decoded r) bytes"
    using payload_D [OF read] by blast
  have bytes: "bytes = slice (ri_offset r) (ri_stored r) (shard_bytes p r)"
    using bytes by (simp add: read_record_iff [OF real p r])
  have len: "length bytes = ri_stored r" using place by (simp add: bytes buffer_simps)
  have bounds: "128 \<le> off" "off + ri_decoded r \<le> ri_stored r" "off + ri_decoded r \<le> u64_max"
    using data by (auto simp: tensor_data_iff len)
  then have "tensor_data r (slice (ri_offset r) 128 (shard_bytes p r)) (ri_stored r) = Inr (off, ri_decoded r)"
    using data place len by (subst tensor_data_prefix) (auto simp: bytes)
  moreover have "length d = ri_decoded r" using bounds by (simp add: d buffer_simps len)
  moreover have "read_payload_range p r 0 128 = Inr (slice (ri_offset r) 128 (shard_bytes p r))"
    using inside(1) [of 0 128] bounds by simp
  moreover have "read_payload_range p r (off + w) n = Inr (slice w n d)" if "w + n \<le> ri_decoded r"
    using inside(1) [of "off + w" n] bounds that by (simp add: d bytes slice_slice add.assoc)
  ultimately show ?thesis using bounds
    by (auto simp: read_tensor_payload_range_def kind checked_def checked_add_u64_def Let_def)
qed

section \<open>Verified packages\<close>

text \<open>What the CRC-32C crate documents of \<^verbatim>\<open>crc32c_append\<close>: a checksum can be continued.\<close>

definition crc_appends :: "crc_append \<Rightarrow> bool" where
  "crc_appends app \<longleftrightarrow> (\<forall>c. app c [] = c) \<and> (\<forall>c a b. app (app c a) b = app c (a @ b))"

lemma crc_chunks_D:
  "crc_appends app \<Longrightarrow> crc_chunks app name bs off n st = Inr st' \<Longrightarrow>
    (n = 0 \<or> off + n \<le> length bs) \<and> NOT st' = app (NOT st) (slice off n bs)"
proof (induction app name bs off n st rule: crc_chunks.induct)
  case (1 app name bs off n st)
  have app: "app c [] = c" "app (app c a) b = app c (a @ b)" for c a b using "1.prems"(1) by (auto simp: crc_appends_def)
  show ?case
  proof (cases "n = 0")
    case True
    with "1.prems"(2) show ?thesis by (simp add: crc_chunks.simps app slice_def)
  next
    case False
    define k where "k = min n crc_chunk"
    have k: "k \<noteq> 0" "k \<le> n" using False by (auto simp: k_def crc_chunk_def)
    have first: "read_exact_at name bs off k = Inr (slice off k bs)" "off + k \<le> length bs"
      and rest: "crc_chunks app name bs (off + k) (n - k) (crc32c_update app st (slice off k bs)) = Inr st'"
      using "1.prems"(2) False k by (auto simp: crc_chunks.simps [of app name bs off n] k_def [symmetric] try_bind_Inr read_exact_at_def
          split: if_splits)
    have "(n - k = 0 \<or> off + k + (n - k) \<le> length bs) \<and>
        NOT st' = app (NOT (crc32c_update app st (slice off k bs))) (slice (off + k) (n - k) bs)"
      using "1.IH" [OF False] "1.prems"(1) first(1) rest by (simp add: k_def)
    moreover have "slice off n bs = slice off k bs @ slice (off + k) (n - k) bs" using slice_add [of off k "n - k" bs] k by simp
    ultimately show ?thesis using first(2) k by (auto simp: crc32c_update_def app)
  qed
qed

lemma file_crc_D:
  assumes "crc_appends app" "crc32c_file_range app files name off n = Inr c"
  shows "\<exists>bs. files name = Inr bs \<and> c = crc32c app (slice off n bs)"
proof -
  obtain bs st where bs: "files name = Inr bs" and st: "crc_chunks app name bs off n (NOT 0) = Inr st" "c = unat (NOT st)"
    using assms(2) by (auto simp: crc32c_file_range_def try_bind_Inr open_file_def split: sum.splits)
  with crc_chunks_D [OF assms(1) st(1)] show ?thesis by (simp add: crc32c_def)
qed

lemma validated_string:
  assumes "validate_string_id m table strings i = Inr ()" "snd table \<le> length m"
  shows "\<exists>s. string_at m table strings i = Inr s"
  using assms by (force simp: validate_string_id_def string_at_def Let_def try_bind_Inr checked_add_usize_def index_range_iff split: if_splits)

definition verified_record :: "crc_append \<Rightarrow> package_files \<Rightarrow> coli_head \<Rightarrow> nat list \<Rightarrow> record_info \<Rightarrow> bool" where
  "verified_record app files h sizes r \<longleftrightarrow>
     ri_id r \<noteq> 0 \<and> ri_shard_id r < length sizes \<and> ri_offset r mod hd_alignment h = 0 \<and>
     ri_offset r + ri_stored r \<le> u64_max \<and> ri_offset r + ri_stored r \<le> sizes ! ri_shard_id r \<and>
     crc32c_file_range app files (shard_name (ri_shard_id r)) (ri_offset r) (ri_stored r) = Inr (ri_stored_crc r) \<and>
     (ri_kind r = 1 \<longrightarrow> verify_tensor_record app files (shard_name (ri_shard_id r)) (ri_offset r) (ri_stored r) (ri_decoded r)
        (ri_codec r) (ri_flags r) (ri_logical_crc r) = Inr ()) \<and>
     (ri_kind r = 2 \<longrightarrow> verify_expert_record files (shard_name (ri_shard_id r)) (ri_offset r) (ri_stored r) (ri_decoded r)
        (ri_layer r) (ri_expert r) (ri_codec r) = Inr ())"

lemma verify_record_D:
  assumes "verify_record app files m h sizes i ids = Inr (rid, shard, stored)" "head_ok m h"
  shows "\<exists>r. read_info m h (fst (hd_record_table h) + i * 96) = Inr r \<and> ri_id r = rid \<and> rid \<notin> set ids \<and>
    verified_record app files h sizes r"
proof -
  define desc where "desc = fst (hd_record_table h) + i * 96"
  let ?name = "le_nat (slice (desc + 24) 4 m)"
  have length: "desc + 72 \<le> length m" using assms(1)
    by (auto simp: verify_record_def Let_def try_bind_Inr coli_field_iff coli_i32_iff desc_def [symmetric])
  have "?name \<noteq> u32_max \<longrightarrow> validate_string_id m (hd_string_table h) (hd_strings h) ?name = Inr ()"
    using assms(1) by (auto simp: verify_record_def Let_def try_bind_Inr coli_field_iff coli_i32_iff desc_def [symmetric] split: if_splits)
  moreover have "validate_string_id m (hd_string_table h) (hd_strings h) ?name = Inr () \<longrightarrow>
      (\<exists>s. string_at m (hd_string_table h) (hd_strings h) ?name = Inr s)"
    using validated_string assms(2) by (auto simp: head_ok_def)
  moreover have "le_nat (slice (desc + 16) 2 m) = layout_none \<or> layout_registered (le_nat (slice (desc + 16) 2 m))"
    using assms(1) by (auto simp: verify_record_def Let_def try_bind_Inr coli_field_iff coli_i32_iff desc_def [symmetric])
  ultimately obtain r where r: "read_info m h desc = Inr r"
    using length by (cases "?name = u32_max")
      (auto simp: read_info_def try_bind_Inr coli_field_iff coli_i32_iff)
  then have "ri_id r = rid \<and> rid \<notin> set ids \<and> verified_record app files h sizes r"
    using assms(1)
    by (auto simp: read_info_def verify_record_def Let_def try_bind_Inr coli_field_iff coli_i32_iff desc_def [symmetric]
        verified_record_def checked_add_u64_def not_less split: if_splits)
  with r show ?thesis by (auto simp: desc_def)
qed

abbreviation name_clash :: coli_failure where
  "name_clash \<equiv> invalid_package ''record name is not unique''"

lemma index_verified:
  assumes "head_ok m h" "sizes = map (length \<circ> snd) shards"
  shows "fst (verify_records (verify_record app files m h sizes) N S is ids n) = Inr () \<Longrightarrow>
    \<forall>v. hm_get (ix_by_id ix) v = None \<longleftrightarrow> v \<notin> set ids \<Longrightarrow>
    (\<exists>ix'. index_records m h shards is ix = Inr ix') \<or> index_records m h shards is ix = Inl name_clash"
proof (induction "is" arbitrary: ids n ix)
  case (Cons i "is")
  obtain rid shard stored n' where step: "verify_record app files m h sizes i ids = Inr (rid, shard, stored)"
    and rest: "fst (verify_records (verify_record app files m h sizes) N S is (rid # ids) n') = Inr ()"
    using Cons.prems(1) unfolding verify_records_Cons by (auto simp: try_bind_Inr)
  obtain r where r: "read_info m h (fst (hd_record_table h) + i * 96) = Inr r" "ri_id r = rid" "rid \<notin> set ids"
    "verified_record app files h sizes r"
    using verify_record_D [OF step assms(1)] by blast
  show ?case
  proof (cases "index_record m h shards i ix")
    case (Inl e)
    then have "e = name_clash" using r Cons.prems(2) assms(2)
      by (auto simp: index_record_def verified_record_def checked_add_u64_def not_less split: if_splits option.splits)
    then show ?thesis by (simp add: Inl)
  next
    case (Inr ix')
    then have "ix_by_id ix' = hm_insert rid i (ix_by_id ix)" using r by (auto elim: index_record_D)
    with Cons.prems(2) have "\<forall>v. hm_get (ix_by_id ix') v = None \<longleftrightarrow> v \<notin> set (rid # ids)" by (auto simp: hm_simps)
    with Cons.IH [OF rest] show ?thesis by (simp add: Inr)
  qed
qed simp

lemma records_verified:
  assumes "head_ok m h"
  shows "fst (verify_records (verify_record app files m h sizes) N S is ids n) = Inr () \<Longrightarrow> i \<in> set is \<Longrightarrow>
    \<exists>r. read_info m h (fst (hd_record_table h) + i * 96) = Inr r \<and> verified_record app files h sizes r"
proof (induction "is" arbitrary: ids n)
  case (Cons j "is")
  obtain rid shard stored n' where step: "verify_record app files m h sizes j ids = Inr (rid, shard, stored)"
    and rest: "fst (verify_records (verify_record app files m h sizes) N S is (rid # ids) n') = Inr ()"
    using Cons.prems(1) unfolding verify_records_Cons by (auto simp: try_bind_Inr)
  show ?case
  proof (cases "i = j")
    case True
    with verify_record_D [OF step assms] show ?thesis by blast
  next
    case False
    with Cons.IH [OF rest] Cons.prems(2) show ?thesis by simp
  qed
qed simp

lemma try_map_abs:
  assumes "\<And>x y. f x = Inr y \<Longrightarrow> \<exists>z. g x = Inr z \<and> a z = y"
  shows "try_map f xs = Inr ys \<Longrightarrow> \<exists>zs. try_map g xs = Inr zs \<and> ys = map a zs"
proof (induction xs arbitrary: ys)
  case (Cons x xs)
  then obtain y ys' where ys: "ys = y # ys'" "f x = Inr y" "try_map f xs = Inr ys'" by (auto simp: try_bind_Inr)
  obtain z where "g x = Inr z" "a z = y" using assms ys(2) by blast
  moreover obtain zs where "try_map g xs = Inr zs" "ys' = map a zs" using Cons.IH ys(3) by blast
  ultimately have "try_map g (x # xs) = Inr (z # zs)" "ys = map a (z # zs)" using ys(1) by simp_all
  then show ?case by blast
qed simp

lemma verified_shards:
  "try_map (verify_shard app files m h fp) is = Inr sizes \<Longrightarrow>
    \<exists>shards. try_map (open_shard files m h) is = Inr shards \<and> sizes = map (length \<circ> snd) shards"
  by (rule try_map_abs) (auto simp: verify_shard_def open_shard_def Let_def try_bind_Inr)

text \<open>What verification establishes, as the reader sees it.\<close>

lemma verify_package_D:
  assumes "verify_package app files = Inr s"
  obtains m h sizes where "verify_tables app files = Inr (m, h, sizes)" "head_ok m h"
    "fst (verify_records (verify_record app files m h sizes) (hd_records h) (hd_shards h) [0..<hd_records h] [] 0) = Inr ()"
    "s = \<lparr>vs_shards = hd_shards h, vs_records = hd_records h\<rparr>"
proof -
  obtain m h sizes where tables: "verify_tables app files = Inr (m, h, sizes)"
    using assms by (auto simp: verify_package_def verify_package_with_progress_def split: sum.splits)
  moreover have "head_ok m h" using verify_tables_D [OF tables] read_head_ok by blast
  ultimately show ?thesis using assms that
    by (auto simp: verify_package_def verify_package_with_progress_def try_bind_Inr split: prod.splits)
qed

lemma verified_opens:
  assumes "verify_package app files = Inr s"
  shows "(\<exists>p. open_package app files = Inr p \<and> length (pk_records p) = vs_records s \<and> length (pk_shards p) = vs_shards s \<and>
      (\<exists>h. pk_alignment p = hd_alignment h \<and> (\<forall>r \<in> set (pk_records p). verified_record app files h (map (length \<circ> snd) (pk_shards p)) r)))
    \<or> open_package app files = Inl name_clash"
proof -
  obtain m h sizes where tables: "verify_tables app files = Inr (m, h, sizes)" and head: "head_ok m h"
    and recs: "fst (verify_records (verify_record app files m h sizes) (hd_records h) (hd_shards h) [0..<hd_records h] [] 0) = Inr ()"
    and s: "s = \<lparr>vs_shards = hd_shards h, vs_records = hd_records h\<rparr>"
    using verify_package_D [OF assms] .
  obtain pid cid fp where m: "files manifest_name = Inr m" "read_head app m = Inr h" "check_fingerprint m h = Inr fp"
    "coli_u32 m 148 = Inr pid" "coli_u32 m 152 = Inr cid"
    and strings: "validate_string_id m (hd_string_table h) (hd_strings h) pid = Inr ()"
      "validate_string_id m (hd_string_table h) (hd_strings h) cid = Inr ()"
    and sizes: "try_map (verify_shard app files m h fp) [0..<hd_shards h] = Inr sizes"
    using tables by (auto simp: verify_tables_def try_bind_Inr open_file_def split: sum.splits)
  obtain shards where shards: "try_map (open_shard files m h) [0..<hd_shards h] = Inr shards" "sizes = map (length \<circ> snd) shards"
    using verified_shards [OF sizes] by blast
  have "snd (hd_string_table h) \<le> length m" using head by (simp add: head_ok_def)
  then obtain profile compiler where "string_at m (hd_string_table h) (hd_strings h) pid = Inr profile"
    "string_at m (hd_string_table h) (hd_strings h) cid = Inr compiler"
    using strings validated_string by meson
  with m shards have opened: "open_package app files = try_bind (index_records m h shards [0..<hd_records h] no_index) (\<lambda>ix.
       Inr \<lparr>pk_manifest = m, pk_alignment = hd_alignment h, pk_profile = profile, pk_compiler = compiler,
            pk_fingerprint = fp, pk_records = ix_records ix, pk_by_id = ix_by_id ix, pk_by_name = ix_by_name ix,
            pk_by_expert = ix_by_expert ix, pk_shards = shards, pk_expert_regions = []\<rparr>)"
    by (simp add: open_package_def open_file_def no_index_def)
  have "(\<exists>ix. index_records m h shards [0..<hd_records h] no_index = Inr ix) \<or>
      index_records m h shards [0..<hd_records h] no_index = Inl name_clash"
    using recs by (intro index_verified [OF head shards(2)]) (auto simp: no_index_def)
  then show ?thesis
  proof
    assume "index_records m h shards [0..<hd_records h] no_index = Inl name_clash"
    then show ?thesis by (simp add: opened)
  next
    assume "\<exists>ix. index_records m h shards [0..<hd_records h] no_index = Inr ix"
    then obtain ix where ix: "index_records m h shards [0..<hd_records h] no_index = Inr ix" by blast
    have all: "length (ix_records ix) = hd_records h"
      "\<forall>i < hd_records h. read_info m h (fst (hd_record_table h) + i * 96) = Inr (ix_records ix ! i)"
      using index_records_D [of m h shards no_index "hd_records h" ix] ix by auto
    have "verified_record app files h sizes r" if "r \<in> set (ix_records ix)" for r
    proof -
      obtain i where "i < hd_records h" "r = ix_records ix ! i" using \<open>r \<in> set (ix_records ix)\<close> all(1) by (auto simp: in_set_conv_nth)
      then show ?thesis using records_verified [OF head recs, of i] all(2) by auto
    qed
    moreover have "length shards = hd_shards h" using open_shards_from [OF shards(1)] by blast
    ultimately show ?thesis using ix all(1) shards(2) by (auto simp: opened s intro: exI [of _ h])
  qed
qed

lemma calm_matrix: "calm (read_matrix app p bytes d i)"
  by (auto simp: read_matrix_def decode_matrix_def span_end_def take_span_def Let_def intro!: calm_bind calm_if)

lemma calm_experts:
  assumes "real_files files" "package_consistent files p" "r \<in> set (pk_records p)" "8 \<le> ri_stored r"
  shows "calm (read_expert_matrices app p r)"
proof -
  have "8 \<le> length bytes" if "read_record app p r = Inr bytes" for bytes
    using that record_place [OF assms(1-3)] assms(4) by (auto simp: read_record_iff [OF assms(1-3)] buffer_simps)
  then show ?thesis
    by (auto simp: read_expert_matrices_def calm_read_record [OF assms(1-3)] calm_matrix
        intro!: calm_bind calm_if calm_refuse calm_differs calm_index calm_map)
qed

lemma tensor_readable:
  assumes real: "real_files files" and app: "crc_appends app" and p: "package_consistent files p" and r: "r \<in> set (pk_records p)"
    and bytes: "read_record app p r = Inr bytes" and kind: "ri_kind r = 1"
    and verified: "verify_tensor_record app files (shard_name (ri_shard_id r)) (ri_offset r) (ri_stored r) (ri_decoded r)
      (ri_codec r) (ri_flags r) (ri_logical_crc r) = Inr ()"
  shows "\<exists>d. read_tensor_payload app p r = Inr d \<and> length d = ri_decoded r"
proof -
  note place = record_place [OF real p r]
  have whole: "bytes = slice (ri_offset r) (ri_stored r) (shard_bytes p r)" using bytes by (simp add: read_record_iff [OF real p r])
  then have len: "length bytes = ri_stored r" using place by (simp add: buffer_simps)
  have stored: "files (shard_name (ri_shard_id r)) = Inr (shard_bytes p r)"
    using p place(1) by (auto simp: package_consistent_def shards_from_def list_all_iff shard_bytes_def)
  obtain header off where "ri_codec r = 0" "128 \<le> ri_stored r"
    and header: "header = slice (ri_offset r) 128 (shard_bytes p r)"
    and data: "tensor_data r header (ri_stored r) = Inr (off, ri_decoded r)"
    and crc: "odd (ri_flags r div 2) \<longrightarrow> coli_u32 header 120 = Inr (ri_logical_crc r) \<and>
      crc32c_file_range app files (shard_name (ri_shard_id r)) (wrapping_add_u64 (ri_offset r) off) (ri_decoded r) = Inr (ri_logical_crc r)"
    using verified
    by (auto simp: verify_tensor_record_def try_bind_Inr file_range_iff stored read_span_iff tensor_data_iff index_range_iff differs_def
        checked_add_u64_def not_less split: if_splits)
  have d: "tensor_data r bytes (length bytes) = Inr (off, ri_decoded r)"
    using data tensor_data_prefix [of "ri_stored r" "ri_offset r" "shard_bytes p r" r] \<open>128 \<le> ri_stored r\<close> place(2)
    by (simp add: header whole len [unfolded whole])
  then have bounds: "off + ri_decoded r \<le> ri_stored r" "off + ri_decoded r \<le> u64_max" by (auto simp: tensor_data_iff len)
  have "odd (ri_flags r div 2) \<longrightarrow> crc32c app (slice off (ri_decoded r) bytes) = ri_logical_crc r"
  proof
    assume "odd (ri_flags r div 2)"
    moreover have "wrapping_add_u64 (ri_offset r) off = ri_offset r + off"
      using place bounds by (simp add: wrapping_add_u64_def u64_max_def isize_max_def)
    ultimately have "ri_logical_crc r = crc32c app (slice (ri_offset r + off) (ri_decoded r) (shard_bytes p r))"
      using crc file_crc_D [OF app] stored by fastforce
    then show "crc32c app (slice off (ri_decoded r) bytes) = ri_logical_crc r" using bounds by (simp add: whole slice_slice)
  qed
  moreover have "odd (ri_flags r div 2) \<longrightarrow> coli_u32 bytes 120 = Inr (ri_logical_crc r)"
    using crc \<open>128 \<le> ri_stored r\<close> place(2) by (simp add: header whole coli_u32_def field_in_prefix)
  ultimately have "read_tensor_payload app p r = Inr (slice off (ri_decoded r) bytes)"
    using bounds d kind \<open>ri_codec r = 0\<close>
    by (simp add: read_tensor_payload_def tensor_kind_check_def bytes wrapping_add_u64_def index_range_def len)
  then show ?thesis using bounds by (simp add: buffer_simps len)
qed

definition readable :: "crc_append \<Rightarrow> package \<Rightarrow> record_info \<Rightarrow> bool" where
  "readable app p r \<longleftrightarrow>
     (\<exists>bytes. read_record app p r = Inr bytes \<and> length bytes = ri_stored r) \<and>
     (ri_kind r = 1 \<longrightarrow> (\<exists>d. read_tensor_payload app p r = Inr d \<and> length d = ri_decoded r)) \<and>
     (ri_kind r = 2 \<longrightarrow> read_expert_matrices app p r \<noteq> Inl Panics)"

lemma verified_readable:
  assumes real: "real_files files" and app: "crc_appends app" and p: "package_consistent files p" and r: "r \<in> set (pk_records p)"
    and ok: "verified_record app files h sizes r"
  shows "readable app p r"
proof -
  note place = record_place [OF real p r]
  have stored: "files (shard_name (ri_shard_id r)) = Inr (shard_bytes p r)"
    using p place(1) by (auto simp: package_consistent_def shards_from_def list_all_iff shard_bytes_def)
  have "crc32c_file_range app files (shard_name (ri_shard_id r)) (ri_offset r) (ri_stored r) = Inr (ri_stored_crc r)"
    using ok by (simp add: verified_record_def)
  then have bytes: "read_record app p r = Inr (slice (ri_offset r) (ri_stored r) (shard_bytes p r))"
    using file_crc_D [OF app] stored by (fastforce simp: read_record_iff [OF real p r])
  have "ri_kind r = 2 \<longrightarrow> 448 \<le> ri_stored r"
    using ok by (auto simp: verified_record_def verify_expert_record_def split: if_splits)
  then have "ri_kind r = 2 \<longrightarrow> read_expert_matrices app p r \<noteq> Inl Panics"
    using calm_experts [OF real p r, of app] by (auto simp: calm_def)
  moreover have "ri_kind r = 1 \<longrightarrow> (\<exists>d. read_tensor_payload app p r = Inr d \<and> length d = ri_decoded r)"
    using tensor_readable [OF real app p r bytes] ok by (simp add: verified_record_def)
  ultimately show ?thesis using bytes place by (simp add: readable_def buffer_simps)
qed

section \<open>A package that verifies\<close>

text \<open>One shard, one tensor of one byte with a logical checksum, under a checksum that is always zero.\<close>

definition demo_crc :: crc_append where
  "demo_crc c bs = c"

definition demo_manifest :: "byte list" where
  "demo_manifest =
     coli_magic @ le_bytes 2 1 @ le_bytes 2 0 @ le_bytes 4 256 @ replicate 8 0 @ le_bytes 4 4096 @ le_bytes 4 1 @ le_bytes 8 1 @
     le_bytes 4 1 @ replicate 4 0 @ le_bytes 8 256 @ le_bytes 8 64 @ le_bytes 8 320 @ le_bytes 8 96 @ le_bytes 8 416 @
     le_bytes 8 17 @ replicate 160 0 @
     replicate 16 0 @ le_bytes 8 4225 @ replicate 40 0 @
     le_bytes 8 7 @ le_bytes 2 1 @ replicate 8 0 @ le_bytes 2 2 @ replicate 20 0 @ le_bytes 8 4096 @ le_bytes 8 129 @ le_bytes 8 1 @
     replicate 32 0 @
     le_bytes 8 16 @ le_bytes 4 1 @ replicate 4 0 @ [97]"

definition demo_shard :: "byte list" where
  "demo_shard =
     data_magic @ le_bytes 2 1 @ le_bytes 2 0 @ le_bytes 4 128 @ replicate 8 0 @ le_bytes 4 4096 @ replicate 4 0 @ le_bytes 8 4225 @
     replicate 88 0 @ replicate 3968 0 @
     ascii_bytes ''COLITENS'' @ replicate 4 0 @ le_bytes 4 128 @ replicate 80 0 @ le_bytes 8 128 @ le_bytes 8 1 @ le_bytes 8 1 @
     replicate 8 0 @ [42]"

definition demo_files :: package_files where
  "demo_files name =
     (if name = manifest_name then Inr demo_manifest else if name = shard_name 0 then Inr demo_shard else Inl ''not found'')"

lemma slice_blocks:
  "length xs \<le> off \<Longrightarrow> slice off k (xs @ ys) = slice (off - length xs) k ys"
  "off + k \<le> length xs \<Longrightarrow> slice off k (xs @ ys) = slice off k xs"
  "length xs = k \<Longrightarrow> slice 0 k xs = xs"
  by (simp_all add: slice_def)

lemma length_magics [simp]: "length coli_magic = 8" "length data_magic = 8" "length (ascii_bytes s) = length s"
  by (simp_all add: coli_magic_def data_magic_def ascii_bytes_def)

lemmas demo_simps = slice_blocks slice_zeros slice_slice le_nat_le_bytes le_nat_zeros coli_u16_def coli_u32_def coli_u64_def
  coli_i32_def coli_at_def signed32_def

lemma length_demo: "length demo_manifest = 433" "length demo_shard = 4225"
  by (simp_all add: demo_manifest_def demo_shard_def)

lemma demo_crc [simp]: "crc32c demo_crc bs = 0"
  by (simp add: crc32c_def demo_crc_def)

lemma demo_head_fields:
  "slice 0 8 demo_manifest = coli_magic" "coli_u16 demo_manifest 8 = Inr 1" "coli_u16 demo_manifest 10 = Inr 0"
  "coli_u32 demo_manifest 12 = Inr 256" "coli_u32 demo_manifest 16 = Inr 0" "coli_u32 demo_manifest 24 = Inr 4096"
  "coli_u32 demo_manifest 28 = Inr 1" "coli_u64 demo_manifest 32 = Inr 1" "coli_u32 demo_manifest 40 = Inr 1"
  "coli_u64 demo_manifest 48 = Inr 256" "coli_u64 demo_manifest 56 = Inr 64" "coli_u64 demo_manifest 64 = Inr 320"
  "coli_u64 demo_manifest 72 = Inr 96" "coli_u64 demo_manifest 80 = Inr 416" "coli_u64 demo_manifest 88 = Inr 17"
  "slice 112 32 demo_manifest = replicate 32 0" "coli_u32 demo_manifest 144 = Inr 0" "coli_u32 demo_manifest 148 = Inr 0"
  "coli_u32 demo_manifest 152 = Inr 0"
  by (simp_all add: demo_manifest_def demo_simps)

lemma demo_table_fields:
  "coli_u32 demo_manifest 256 = Inr 0" "coli_u32 demo_manifest 264 = Inr 0" "coli_u64 demo_manifest 272 = Inr 4225"
  "coli_u32 demo_manifest 280 = Inr 0"
  "coli_u64 demo_manifest 320 = Inr 7" "coli_u16 demo_manifest 328 = Inr 1" "coli_u16 demo_manifest 330 = Inr 0"
  "coli_u16 demo_manifest 332 = Inr 0" "coli_u16 demo_manifest 334 = Inr 0" "coli_u16 demo_manifest 336 = Inr 0"
  "coli_u16 demo_manifest 338 = Inr 2" "coli_u32 demo_manifest 340 = Inr 0" "coli_u32 demo_manifest 344 = Inr 0"
  "coli_i32 demo_manifest 348 = Inr 0" "coli_i32 demo_manifest 352 = Inr 0" "coli_u64 demo_manifest 360 = Inr 4096"
  "coli_u64 demo_manifest 368 = Inr 129" "coli_u64 demo_manifest 376 = Inr 1" "coli_u32 demo_manifest 384 = Inr 0"
  "coli_u32 demo_manifest 388 = Inr 0" "coli_u64 demo_manifest 416 = Inr 16" "coli_u32 demo_manifest 424 = Inr 1"
  "slice 432 (Suc 0) demo_manifest = [97]"
  by (simp_all add: demo_manifest_def demo_simps)

lemma demo_shard_fields:
  "slice 0 8 demo_shard = data_magic" "coli_u16 demo_shard 8 = Inr 1" "coli_u16 demo_shard 10 = Inr 0"
  "coli_u32 demo_shard 12 = Inr 128" "coli_u32 demo_shard 20 = Inr 0" "coli_u32 demo_shard 24 = Inr 4096"
  "coli_u64 demo_shard 32 = Inr 4225" "slice 40 32 demo_shard = replicate 32 0" "coli_u32 demo_shard 72 = Inr 0"
  "slice 4096 8 demo_shard = ascii_bytes ''COLITENS''" "coli_u32 demo_shard 4108 = Inr 128" "coli_u16 demo_shard 4112 = Inr 0"
  "coli_u64 demo_shard 4192 = Inr 128" "coli_u64 demo_shard 4200 = Inr 1" "coli_u64 demo_shard 4208 = Inr 1"
  "coli_u32 demo_shard 4216 = Inr 0" "slice 4224 (Suc 0) demo_shard = [42]"
  by (simp_all add: demo_shard_def demo_simps)

lemma field_in_slice:
  "x + k \<le> n \<Longrightarrow> s + n \<le> length bs \<Longrightarrow> coli_at k (slice s n bs) x = coli_at k bs (s + x)"
  by (simp add: coli_at_def buffer_simps slice_slice)

lemmas fields_in_slice = field_in_slice [of _ 2, folded coli_u16_def] field_in_slice [of _ 4, folded coli_u32_def]
  field_in_slice [of _ 8, folded coli_u64_def]

definition demo_coli_head :: coli_head where
  "demo_coli_head = \<lparr>hd_flags = 0, hd_alignment = 4096, hd_records = 1, hd_shards = 1, hd_strings = 1,
     hd_shard_table = (256, 320), hd_record_table = (320, 416), hd_string_table = (416, 433)\<rparr>"

lemma power_4096: "is_power_of_two 4096"
  unfolding is_power_of_two_def list_ex_iff by (intro bexI [of _ 12]) simp_all

lemma demo_head: "read_head demo_crc demo_manifest = Inr demo_coli_head"
  by (simp add: read_head_def check_fixed_def demo_head_fields index_range_def length_demo coli_header_bytes_def power_4096
      region_def variable_region_def checked_def checked_add_u64_def checked_mul_u64_def checked_mul_usize_def
      u64_max_def usize_max_def demo_coli_head_def)

lemma demo_string: "validate_string_id demo_manifest (416, 433) (Suc 0) 0 = Inr ()" "string_at demo_manifest (416, 433) (Suc 0) 0 = Inr [97]"
  by (simp_all add: validate_string_id_def string_at_def demo_table_fields checked_def checked_add_usize_def usize_max_def
      index_range_def length_demo utf8_ok.simps)

lemma demo_fingerprint: "check_fingerprint demo_manifest demo_coli_head = Inr (replicate 32 0)"
  by (simp add: check_fingerprint_def index_range_def length_demo demo_head_fields demo_coli_head_def list_ex_iff)

lemma demo_sel [simp]:
  "hd_flags demo_coli_head = 0" "hd_alignment demo_coli_head = 4096" "hd_records demo_coli_head = Suc 0"
  "hd_shards demo_coli_head = Suc 0" "hd_strings demo_coli_head = Suc 0" "hd_shard_table demo_coli_head = (256, 320)"
  "hd_record_table demo_coli_head = (320, 416)" "hd_string_table demo_coli_head = (416, 433)"
  by (simp_all add: demo_coli_head_def)

lemma demo_file [simp]: "demo_files manifest_name = Inr demo_manifest" "demo_files (shard_name 0) = Inr demo_shard"
  by (simp_all add: demo_files_def shard_name_def manifest_name_def)

lemma demo_shard_opens: "open_shard demo_files demo_manifest demo_coli_head 0 = Inr (shard_name 0, demo_shard)"
  by (simp add: open_shard_def demo_table_fields demo_string open_file_def length_demo)

lemma demo_shard_verifies: "verify_shard demo_crc demo_files demo_manifest demo_coli_head (replicate 32 0) 0 = Inr 4225"
  by (simp add: verify_shard_def demo_table_fields demo_string open_file_def length_demo read_exact_at_def
      shard_header_bytes_def verify_shard_header_def index_range_def buffer_simps fields_in_slice slice_slice demo_shard_fields)

lemma demo_record_crc: "crc32c_file_range demo_crc demo_files (shard_name 0) 4096 129 = Inr 0"
  by (simp add: crc32c_file_range_def open_file_def seek_to_def isize_max_def crc_chunks.simps crc_chunk_def read_exact_at_def
      length_demo crc32c_update_def demo_crc_def)

lemma demo_data_crc: "crc32c_file_range demo_crc demo_files (shard_name 0) 4224 (Suc 0) = Inr 0"
  by (simp add: crc32c_file_range_def open_file_def seek_to_def isize_max_def crc_chunks.simps crc_chunk_def read_exact_at_def
      length_demo crc32c_update_def demo_crc_def)

lemma demo_tensor: "verify_tensor_record demo_crc demo_files (shard_name 0) 4096 129 (Suc 0) 0 2 0 = Inr ()"
  by (simp add: verify_tensor_record_def read_file_range_def open_file_def read_span_def seek_to_def isize_max_def read_exact_at_def
      length_demo index_range_def buffer_simps fields_in_slice slice_slice demo_shard_fields checked_add_u64_def u64_max_def
      wrapping_add_u64_def demo_data_crc)

lemma demo_verifies: "verify_package demo_crc demo_files = Inr \<lparr>vs_shards = 1, vs_records = 1\<rparr>"
proof -
  have "verify_tables demo_crc demo_files = Inr (demo_manifest, demo_coli_head, [4225])"
    by (simp add: verify_tables_def open_file_def demo_head demo_head_fields demo_fingerprint demo_shard_verifies)
      (simp add: demo_string)
  moreover have "verify_record demo_crc demo_files demo_manifest demo_coli_head [4225] 0 [] = Inr (7, 0, 129)"
    by (simp add: verify_record_def demo_table_fields demo_string layout_registered_def demo_record_crc demo_tensor
        checked_add_u64_def u64_max_def u32_max_def)
  ultimately show ?thesis
    by (simp add: verify_package_def verify_package_with_progress_def checked_add_u64_def u64_max_def)
qed

definition demo_record :: record_info where
  "demo_record = \<lparr>ri_id = 7, ri_kind = 1, ri_codec = 0, ri_math_format = 0, ri_scale_format = 0, ri_layout = 0, ri_flags = 2,
     ri_shard_id = 0, ri_name = Some [97], ri_layer = 0, ri_expert = 0, ri_offset = 4096, ri_stored = 129, ri_decoded = 1,
     ri_stored_crc = 0, ri_logical_crc = 0\<rparr>"

definition demo_package :: package where
  "demo_package = \<lparr>pk_manifest = demo_manifest, pk_alignment = 4096, pk_profile = [97], pk_compiler = [97],
     pk_fingerprint = replicate 32 0, pk_records = [demo_record], pk_by_id = [(7, 0)], pk_by_name = [([97], 0)],
     pk_by_expert = [], pk_shards = [(shard_name 0, demo_shard)], pk_expert_regions = []\<rparr>"

lemma demo_opens: "open_package demo_crc demo_files = Inr demo_package"
proof -
  have "read_info demo_manifest demo_coli_head 320 = Inr demo_record"
    by (simp add: read_info_def demo_table_fields demo_string layout_registered_def u32_max_def demo_record_def)
  then have "index_record demo_manifest demo_coli_head [(shard_name 0, demo_shard)] 0
      \<lparr>ix_records = [], ix_by_id = [], ix_by_name = [], ix_by_expert = []\<rparr> =
      Inr \<lparr>ix_records = [demo_record], ix_by_id = [(7, 0)], ix_by_name = [([97], 0)], ix_by_expert = []\<rparr>"
    by (simp add: index_record_def demo_record_def checked_add_u64_def u64_max_def length_demo)
  then show ?thesis
    by (simp add: open_package_def open_file_def demo_head demo_head_fields demo_string demo_fingerprint demo_shard_opens demo_package_def)
qed

lemma demo_real: "real_files demo_files" "crc_appends demo_crc"
  by (auto simp: real_files_def demo_files_def length_demo isize_max_def crc_appends_def demo_crc_def split: if_splits)

lemma demo_payload: "read_tensor_payload demo_crc demo_package demo_record = Inr [42]"
proof -
  have "read_record demo_crc demo_package demo_record = Inr (slice 4096 129 demo_shard)"
    by (simp add: read_record_def read_shard_range_def demo_package_def demo_record_def read_span_def seek_to_def isize_max_def
        alloc_ok_def read_exact_at_def length_demo)
  moreover have "tensor_data demo_record (slice 4096 129 demo_shard) 129 = Inr (128, Suc 0)"
    by (simp add: tensor_data_iff fields_in_slice length_demo slice_slice demo_shard_fields demo_record_def u64_max_def)
  ultimately show ?thesis
    by (simp add: read_tensor_payload_def tensor_kind_check_def demo_record_def buffer_simps length_demo wrapping_add_u64_def u64_max_def
        fields_in_slice slice_slice demo_shard_fields index_range_def)
qed

section \<open>When the readers panic\<close>

lemma read_record_length:
  assumes "real_files files" "package_consistent files p" "r \<in> set (pk_records p)" "read_record app p r = Inr bytes"
  shows "length bytes = ri_stored r"
  using assms(4) record_place [OF assms(1-3)] by (auto simp: read_record_iff [OF assms(1-3)] buffer_simps)

lemma calm_tensor_data: "8 \<le> length bytes \<Longrightarrow> calm (tensor_data r bytes room)"
  by (auto simp: tensor_data_def intro!: calm_bind calm_if calm_refuse calm_index calm_differs)

lemma calm_kind_check [simp]: "calm (tensor_kind_check r)"
  by (simp add: tensor_kind_check_def)

lemma calm_payload:
  assumes "real_files files" "package_consistent files p" "r \<in> set (pk_records p)" "8 \<le> ri_stored r"
  shows "calm (read_tensor_payload app p r)"
  unfolding read_tensor_payload_def Let_def
proof (intro calm_bind calm_kind_check calm_read_record [OF assms(1-3)])
  fix bytes
  assume bytes: "read_record app p r = Inr bytes"
  note len = read_record_length [OF assms(1-3) bytes]
  show "calm (tensor_data r bytes (length bytes))" using assms(4) by (simp add: calm_tensor_data len)
  fix x
  assume "tensor_data r bytes (length bytes) = Inr x"
  then obtain off n where x: "x = (off, n)" and fits: "off + n \<le> length bytes" "off + n \<le> u64_max"
    by (cases x) (auto simp: tensor_data_iff)
  then have "index_range bytes off (wrapping_add_u64 off n) = Inr (slice off n bytes)"
    by (simp add: index_range_def wrapping_add_u64_def)
  then show "calm (case x of (data_offset, data_stored) \<Rightarrow>
      try_bind (if even (ri_flags r div 2) then Inr ()
        else try_bind (at_u32 bytes 120) (\<lambda>envelope_crc.
          refuse_any (invalid_package ''tensor logical CRC32C does not match'')
            [Inr (envelope_crc \<noteq> ri_logical_crc r),
             try_bind (index_range bytes data_offset (wrapping_add_u64 data_offset data_stored))
               (\<lambda>d. Inr (crc32c app d \<noteq> ri_logical_crc r))]))
        (\<lambda>_. index_range bytes data_offset (wrapping_add_u64 data_offset data_stored)))"
    by (auto simp: x intro!: calm_bind calm_if calm_refuse)
qed

lemma calm_payload_range:
  assumes "real_files files" "package_consistent files p" "r \<in> set (pk_records p)"
  shows "calm (read_tensor_payload_range p r w n)"
proof -
  have span: "alloc_ok k 1 \<Longrightarrow> calm (read_payload_range p r a k)" for a k
    by (auto simp: read_payload_range_def read_shard_range_def calm_span)
  have stored: "ri_stored r \<le> isize_max" using record_place(2,3) [OF assms] by simp
  show ?thesis
    unfolding read_tensor_payload_range_def
  proof (intro calm_bind calm_kind_check)
    show "calm (read_payload_range p r 0 128)" by (rule span) (simp add: alloc_ok_def isize_max_def)
    fix header
    assume "read_payload_range p r 0 128 = Inr header"
    then have "length header = 128"
      by (auto simp: read_payload_range_def read_shard_range_def read_span_iff buffer_simps split: if_splits)
    then show "calm (tensor_data r header (ri_stored r))" by (simp add: calm_tensor_data)
    fix x
    assume "tensor_data r header (ri_stored r) = Inr x"
    then obtain off k where x: "x = (off, k)" and k: "off + k \<le> ri_stored r" by (cases x) (auto simp: tensor_data_iff)
    have "w + n \<le> k \<Longrightarrow> alloc_ok n 1" using k stored by (simp add: alloc_ok_def)
    then show "calm (case x of (data_offset, data_stored) \<Rightarrow>
        try_bind (checked (checked_add_u64 w n) ''tensor payload range overflows'') (\<lambda>finish.
        if data_stored < finish then Inl (invalid_package ''tensor payload range is outside tensor data'')
        else try_bind (checked (checked_add_u64 data_offset w) ''tensor payload offset overflows'') (\<lambda>start.
          read_payload_range p r start n)))"
      by (auto simp: x checked_def checked_add_u64_def intro!: calm_bind calm_if span split: option.splits if_splits)
  qed
qed

text \<open>
  A record shorter than its envelope's magic is accepted when the package is opened, and panics
  the reader of tensors and of experts.
\<close>

lemma short_record_panics:
  assumes "real_files files" "package_consistent files p" "r \<in> set (pk_records p)" "ri_stored r < 8"
  shows "read_expert_matrices app p r = Inl Panics \<longleftrightarrow> ri_kind r = 2 \<and> (\<exists>bytes. read_record app p r = Inr bytes)"
    and "read_tensor_payload app p r = Inl Panics \<longleftrightarrow>
      ri_kind r = 1 \<and> ri_codec r = 0 \<and> (\<exists>bytes. read_record app p r = Inr bytes)"
proof -
  have short: "index_range bytes 0 8 = Inl Panics" if "read_record app p r = Inr bytes" for bytes
    using read_record_length [OF assms(1-3) that] assms(4) by (simp add: index_range_def)
  note quiet = calm_read_record [OF assms(1-3), of app]
  show "read_expert_matrices app p r = Inl Panics \<longleftrightarrow> ri_kind r = 2 \<and> (\<exists>bytes. read_record app p r = Inr bytes)"
    using quiet short by (cases "read_record app p r")
      (auto simp: read_expert_matrices_def calm_def invalid_package_def)
  show "read_tensor_payload app p r = Inl Panics \<longleftrightarrow>
      ri_kind r = 1 \<and> ri_codec r = 0 \<and> (\<exists>bytes. read_record app p r = Inr bytes)"
    using quiet short by (cases "read_record app p r")
      (auto simp: read_tensor_payload_def tensor_kind_check_def tensor_data_def calm_def invalid_package_def)
qed

text \<open>
  C36: What opening builds is consistent, and where panics can come from.  On any files and any
  bytes neither \<^verbatim>\<open>Package::open\<close> nor the verifier panics; and in a package that opens, every record
  lies inside its shard at an aligned offset, ids are unique and not zero, and the lookups by id, by
  name and by expert find exactly the records of the manifest that they name.  Reading can panic:
  with files no longer than an offset can say, reading a record or a range of a tensor does
  not, but reading a tensor or an expert does, precisely when the record is shorter than the
  eight bytes of its magic, has the kind (and for a tensor the codec) the reader expects, and its
  checksum is right.
\<close>

theorem opened_package_consistent:
  "(case open_package app files of Inl e \<Rightarrow> e \<noteq> Panics | Inr p \<Rightarrow> package_consistent files p \<and>
      (real_files files \<longrightarrow> (\<forall>r \<in> set (pk_records p).
         read_record app p r \<noteq> Inl Panics \<and> read_tensor_payload_range p r w n \<noteq> Inl Panics \<and>
         (read_tensor_payload app p r = Inl Panics \<longleftrightarrow>
            ri_stored r < 8 \<and> ri_kind r = 1 \<and> ri_codec r = 0 \<and> (\<exists>bytes. read_record app p r = Inr bytes)) \<and>
         (read_expert_matrices app p r = Inl Panics \<longleftrightarrow>
            ri_stored r < 8 \<and> ri_kind r = 2 \<and> (\<exists>bytes. read_record app p r = Inr bytes))))) \<and>
     verify_package app files \<noteq> Inl Panics"
proof -
  have "read_record app p r \<noteq> Inl Panics \<and> read_tensor_payload_range p r w n \<noteq> Inl Panics \<and>
      (read_tensor_payload app p r = Inl Panics \<longleftrightarrow>
         ri_stored r < 8 \<and> ri_kind r = 1 \<and> ri_codec r = 0 \<and> (\<exists>bytes. read_record app p r = Inr bytes)) \<and>
      (read_expert_matrices app p r = Inl Panics \<longleftrightarrow>
         ri_stored r < 8 \<and> ri_kind r = 2 \<and> (\<exists>bytes. read_record app p r = Inr bytes))"
    if "open_package app files = Inr p" "real_files files" "r \<in> set (pk_records p)" for p r
  proof (cases "ri_stored r < 8")
    case True
    note at = that(2) open_consistent [OF that(1)] that(3)
    show ?thesis
      using True short_record_panics [OF at True, of app] calm_read_record [OF at, of app] calm_payload_range [OF at, of w n]
      by (simp add: calm_def)
  next
    case False
    note at = that(2) open_consistent [OF that(1)] that(3)
    have "8 \<le> ri_stored r" using False by simp
    with False calm_payload [OF at, of app] calm_experts [OF at, of app] calm_read_record [OF at, of app]
      calm_payload_range [OF at, of w n] show ?thesis by (simp add: calm_def)
  qed
  then show ?thesis
    using calm_open [of app files] calm_verify [of app files] open_consistent [of app files]
    by (auto simp: calm_def split: sum.split)
qed

theorem opened_package_consistent_witness:
  "open_package demo_crc demo_files = Inr demo_package \<and> read_tensor_payload demo_crc demo_package demo_record \<noteq> Inl Panics"
  using opened_package_consistent [where app = demo_crc and files = demo_files and w = 0 and n = 0] demo_real(1)
  by (simp add: demo_opens) (simp add: demo_package_def demo_record_def)

section \<open>The promises of a verified package\<close>

text \<open>
  C37: A verified package can be used.  If the verifier accepts a package, the reader opens it,
  with the numbers of shards and records that the verifier reports, unless two records have the
  same name, which the verifier does not look at; then the checksum of every record, which the
  verifier computed in chunks, is the one the reader computes at once, every tensor can be read
  with its checksum, and reading an expert does not panic.
\<close>

theorem verified_package_readable:
  assumes "real_files files" "crc_appends app" "verify_package app files = Inr s"
  shows "case open_package app files of
      Inl e \<Rightarrow> e = name_clash
    | Inr p \<Rightarrow> length (pk_records p) = vs_records s \<and> length (pk_shards p) = vs_shards s \<and>
        (\<forall>r \<in> set (pk_records p). readable app p r)"
  using verified_opens [OF assms(3)] open_consistent [of app files] verified_readable [OF assms(1,2)] by fastforce

theorem verified_package_readable_witness:
  "readable demo_crc demo_package demo_record"
  using verified_package_readable [OF demo_real demo_verifies] by (simp add: demo_opens demo_package_def)

text \<open>
  C38: Streaming reads the same bytes.  For a tensor of an opened package whose payload can be
  read at once, reading a range of it returns that range of the payload, and fails exactly when
  the range ends beyond it.
\<close>

theorem tensor_range_agrees:
  assumes "real_files files" "open_package app files = Inr p" "r \<in> set (pk_records p)" "read_tensor_payload app p r = Inr d"
  shows "ok (read_tensor_payload_range p r w n) = (if w + n \<le> length d then Some (slice w n d) else None)"
  by (rule payload_range_agrees [OF assms(1) open_consistent [OF assms(2)] assms(3,4)])

theorem tensor_range_agrees_witness:
  "ok (read_tensor_payload_range demo_package demo_record 0 1) = Some [42]"
  using tensor_range_agrees [OF demo_real(1) demo_opens _ demo_payload, of 0 1] by (simp add: demo_package_def slice_def)

section \<open>What the interfaces leave open\<close>

text \<open>The checksum of the crate itself satisfies the law: the reflected polynomial of Castagnoli.\<close>

definition castagnoli_bit :: "32 word \<Rightarrow> 32 word" where
  "castagnoli_bit c = (if bit c 0 then drop_bit 1 c XOR 0x82F63B78 else drop_bit 1 c)"

definition castagnoli :: crc_append where
  "castagnoli c bs = NOT (foldl (\<lambda>s b. fold (\<lambda>_. castagnoli_bit) [0..<8::nat] (s XOR ucast b)) (NOT c) bs)"

lemma castagnoli_appends: "crc_appends castagnoli"
  by (simp add: crc_appends_def castagnoli_def)

lemma castagnoli_check: "crc32c castagnoli (ascii_bytes ''a'') = 0xc1d04330"
  by (simp add: crc32c_def castagnoli_def castagnoli_bit_def ascii_bytes_def upt_rec)

text \<open>The cache of regions: on records of the package it answers what a fresh parse would.\<close>

definition cache_sound :: "package \<Rightarrow> bool" where
  "cache_sound p \<longleftrightarrow> (\<forall>r \<in> set (pk_records p). \<forall>parsed. hm_get (pk_expert_regions p) (ri_id r) = Some parsed \<longrightarrow>
     parse_regions p r = Some parsed)"

lemma parse_regions_cache: "parse_regions (p\<lparr>pk_expert_regions := c\<rparr>) r = parse_regions p r"
proof -
  have same: "read_payload_range (p\<lparr>pk_expert_regions := c\<rparr>) = read_payload_range p"
    by (simp add: fun_eq_iff read_payload_range_def read_shard_range_def)
  show ?thesis unfolding parse_regions_def same ..
qed

lemma regions_cached:
  assumes "distinct (map ri_id (pk_records p))" "cache_sound p" "r \<in> set (pk_records p)"
  shows "fst (expert_matrix_regions p r) = parse_regions p r \<and> cache_sound (snd (expert_matrix_regions p r)) \<and>
    (\<exists>c. snd (expert_matrix_regions p r) = p\<lparr>pk_expert_regions := c\<rparr>)"
proof (cases "hm_get (pk_expert_regions p) (ri_id r)")
  case (Some parsed)
  then have "expert_matrix_regions p r = (Some parsed, p)" by (simp add: expert_matrix_regions_def)
  moreover have "parse_regions p r = Some parsed" using assms(2,3) Some unfolding cache_sound_def by blast
  moreover have "p = p\<lparr>pk_expert_regions := pk_expert_regions p\<rparr>" by simp
  ultimately show ?thesis using assms(2) by (metis fst_conv snd_conv)
next
  case None
  show ?thesis
  proof (cases "parse_regions p r")
    case (Some parsed)
    define p' where "p' = p\<lparr>pk_expert_regions := hm_insert (ri_id r) parsed (pk_expert_regions p)\<rparr>"
    have "parse_regions p' r' = Some q" if "r' \<in> set (pk_records p)" "hm_get (pk_expert_regions p') (ri_id r') = Some q" for r' q
    proof (cases "ri_id r' = ri_id r")
      case True
      then have "r' = r" using assms(1,3) that(1) by (auto simp: distinct_map inj_on_def)
      then show ?thesis using that(2) Some by (simp add: p'_def hm_simps parse_regions_cache)
    next
      case False
      then have "hm_get (pk_expert_regions p) (ri_id r') = Some q" using that(2) by (simp add: p'_def hm_simps)
      with assms(2) that(1) have "parse_regions p r' = Some q" unfolding cache_sound_def by blast
      then show ?thesis by (simp add: p'_def parse_regions_cache)
    qed
    then have "cache_sound p'" by (auto simp: cache_sound_def p'_def)
    moreover have "expert_matrix_regions p r = (Some parsed, p')" using None Some by (simp add: expert_matrix_regions_def p'_def)
    ultimately show ?thesis using Some by (auto simp: p'_def)
  next
    case no: None
    have "p = p\<lparr>pk_expert_regions := pk_expert_regions p\<rparr>" by simp
    moreover have "expert_matrix_regions p r = (None, p)" using None no by (simp add: expert_matrix_regions_def)
    ultimately show ?thesis using no assms(2) by (metis fst_conv snd_conv)
  qed
qed

section \<open>Alignment\<close>

lemma clear_low_bits: "unat ((w :: 64 word) AND NOT (mask k)) = unat w - unat w mod 2 ^ k"
proof -
  have "w AND NOT (mask k) = push_bit k (drop_bit k w)" by (rule bit_word_eqI) (auto simp: bit_simps)
  moreover have "push_bit k (drop_bit k w) + take_bit k w = w" by (rule bits_ident)
  ultimately have "w AND NOT (mask k) = w - take_bit k w" by (metis add_diff_cancel_right')
  moreover have t: "unat (take_bit k w) = unat w mod 2 ^ k" by (simp only: unsigned_take_bit_eq) (simp add: take_bit_eq_mod)
  moreover have "take_bit k w \<le> w" by (simp add: word_le_nat_alt t)
  ultimately show ?thesis by (simp add: unat_sub)
qed

lemma is_power_of_two_iff: "is_power_of_two n \<longleftrightarrow> (\<exists>k < 64. n = 2 ^ k)"
  by (auto simp: is_power_of_two_def list_ex_iff)

lemma align_up_least:
  assumes "is_power_of_two alignment" "value + (alignment - 1) \<le> u64_max"
  shows "\<exists>r. align_up value alignment = Inr r \<and> alignment dvd r \<and> value \<le> r \<and> r < value + alignment"
proof -
  obtain k where k: "k < 64" "alignment = 2 ^ k" using assms(1) by (auto simp: is_power_of_two_iff)
  define v where "v = value + (alignment - 1)"
  have "v < 2 ^ 64" using assms(2) by (simp add: v_def u64_max_def)
  then have "unat (word_of_nat v :: 64 word) = v" by (simp add: unsigned_of_nat take_bit_eq_mod)
  moreover have "word_of_nat (alignment - 1) = (mask k :: 64 word)" by (simp add: k mask_eq_decr_exp of_nat_diff)
  moreover have "checked_add_u64 value (alignment - 1) = Some v" using assms(2) by (simp add: checked_add_u64_def v_def)
  ultimately have "align_up value alignment = Inr (v - v mod alignment)"
    using assms(1) by (simp only: align_up_def clear_low_bits k(2) [symmetric]) simp
  moreover have "alignment dvd v - v mod alignment" by (simp add: dvd_minus_mod)
  moreover have "v mod alignment < alignment" by (simp add: k)
  then have "value \<le> v - v mod alignment" "v - v mod alignment < value + alignment" unfolding v_def by linarith+
  ultimately show ?thesis by blast
qed
end
