(* ===== verification/Expert_Store.thy ===== *)
theory Expert_Store
  imports Prelude
begin

text \<open>
  The expert store of the core (\<^verbatim>\<open>logan-core/src/expert.rs\<close>): an LRU cache whose entries own
  slots of the engine.  A hash map points into a slab of nodes; the nodes form a doubly linked
  list by indices, the most recently used first.  An index that does not name a node is a
  panic (\<^verbatim>\<open>unwrap\<close> of \<^verbatim>\<open>None\<close>): the operations return \<open>None\<close> there.  The method \<^verbatim>\<open>release\<close> of a slot
  belongs to the engine, so an operation reports the values it releases.
\<close>

type_synonym expert_key = "nat \<times> nat"

section \<open>Data\<close>

record 'v expert_node =
  nd_key :: expert_key
  nd_value :: 'v
  nd_prev :: "nat option"
  nd_next :: "nat option"

record 'v expert_store =
  ex_map :: "(expert_key, nat) hash_map"
  ex_slab :: "'v expert_node option list"
  ex_head :: "nat option"
  ex_tail :: "nat option"
  ex_cap :: nat
  ex_layer_cap :: "nat option"
  ex_layer_counts :: "(nat, nat) hash_map"
  ex_hits :: nat
  ex_misses :: nat
  ex_evictions :: nat

definition new_store :: "nat \<Rightarrow> 'v expert_store" where
  "new_store cap =
     \<lparr>ex_map = [], ex_slab = [], ex_head = None, ex_tail = None, ex_cap = max cap 1, ex_layer_cap = None,
      ex_layer_counts = [], ex_hits = 0, ex_misses = 0, ex_evictions = 0\<rparr>"

definition new_layered :: "nat \<Rightarrow> nat \<Rightarrow> 'v expert_store" where
  "new_layered layers per_layer_cap =
     \<lparr>ex_map = [], ex_slab = [], ex_head = None, ex_tail = None,
      ex_cap = saturating_mul_usize (max layers 1) (max per_layer_cap 1), ex_layer_cap = Some (max per_layer_cap 1),
      ex_layer_counts = [], ex_hits = 0, ex_misses = 0, ex_evictions = 0\<rparr>"

definition store_len :: "'v expert_store \<Rightarrow> nat" where
  "store_len s = length (ex_map s)"

definition store_is_empty :: "'v expert_store \<Rightarrow> bool" where
  "store_is_empty s \<longleftrightarrow> ex_map s = []"

definition capacity :: "'v expert_store \<Rightarrow> nat" where
  "capacity = ex_cap"

definition per_layer_capacity :: "'v expert_store \<Rightarrow> nat option" where
  "per_layer_capacity = ex_layer_cap"

section \<open>The linked list\<close>

definition node_at :: "'v expert_store \<Rightarrow> nat \<Rightarrow> 'v expert_node option" where
  "node_at s i = (if i < length (ex_slab s) then ex_slab s ! i else None)"

definition change_node :: "nat \<Rightarrow> ('v expert_node \<Rightarrow> 'v expert_node) \<Rightarrow> 'v expert_store \<Rightarrow> 'v expert_store option" where
  "change_node i f s = map_option (\<lambda>n. s\<lparr>ex_slab := (ex_slab s)[i := Some (f n)]\<rparr>) (node_at s i)"

definition unlink :: "nat \<Rightarrow> 'v expert_store \<Rightarrow> 'v expert_store option" where
  "unlink i s =
     Option.bind (node_at s i) (\<lambda>n.
     Option.bind (case nd_prev n of
         Some p \<Rightarrow> change_node p (nd_next_update (\<lambda>_. nd_next n)) s
       | None \<Rightarrow> Some (s\<lparr>ex_head := nd_next n\<rparr>)) (\<lambda>s1.
     case nd_next n of
         Some x \<Rightarrow> change_node x (nd_prev_update (\<lambda>_. nd_prev n)) s1
       | None \<Rightarrow> Some (s1\<lparr>ex_tail := nd_prev n\<rparr>)))"

definition push_front :: "nat \<Rightarrow> 'v expert_store \<Rightarrow> 'v expert_store option" where
  "push_front i s =
     Option.bind (change_node i (\<lambda>n. n\<lparr>nd_prev := None, nd_next := ex_head s\<rparr>) s) (\<lambda>s1.
     Option.bind (case ex_head s of
         Some h \<Rightarrow> change_node h (nd_prev_update (\<lambda>_. Some i)) s1
       | None \<Rightarrow> Some (s1\<lparr>ex_tail := Some i\<rparr>)) (\<lambda>s2.
     Some (s2\<lparr>ex_head := Some i\<rparr>)))"

definition promote :: "nat \<Rightarrow> 'v expert_store \<Rightarrow> 'v expert_store option" where
  "promote i s = Option.bind (unlink i s) (push_front i)"

section \<open>Lookups\<close>

definition store_get :: "expert_key \<Rightarrow> 'v expert_store \<Rightarrow> ('v option \<times> 'v expert_store) option" where
  "store_get key s =
     (case hm_get (ex_map s) key of
        None \<Rightarrow> Some (None, s)
      | Some i \<Rightarrow>
          Option.bind (promote i (s\<lparr>ex_hits := wrapping_add_u64 (ex_hits s) 1\<rparr>)) (\<lambda>s1.
          map_option (\<lambda>n. (Some (nd_value n), s1)) (node_at s1 i)))"

definition store_peek :: "expert_key \<Rightarrow> 'v expert_store \<Rightarrow> 'v option option" where
  "store_peek key s =
     (case hm_get (ex_map s) key of
        None \<Rightarrow> Some None
      | Some i \<Rightarrow> map_option (\<lambda>n. Some (nd_value n)) (node_at s i))"

definition promote_if_present :: "expert_key \<Rightarrow> 'v expert_store \<Rightarrow> (bool \<times> 'v expert_store) option" where
  "promote_if_present key s =
     (case hm_get (ex_map s) key of
        None \<Rightarrow> Some (False, s)
      | Some i \<Rightarrow> map_option (Pair True) (promote i s))"

definition uncount :: "nat \<Rightarrow> 'v expert_store \<Rightarrow> 'v expert_store" where
  "uncount layer s =
     (if ex_layer_cap s = None then s
      else s\<lparr>ex_layer_counts := hm_modify layer (\<lambda>n. saturating_sub n 1) (ex_layer_counts s)\<rparr>)"

definition store_take :: "expert_key \<Rightarrow> 'v expert_store \<Rightarrow> ('v option \<times> 'v expert_store) option" where
  "store_take key s =
     (case hm_get (ex_map s) key of
        None \<Rightarrow> Some (None, s)
      | Some i \<Rightarrow>
          Option.bind (unlink i (s\<lparr>ex_map := hm_remove key (ex_map s)\<rparr>)) (\<lambda>s1.
          map_option (\<lambda>n. (Some (nd_value n), uncount (fst key) (s1\<lparr>ex_slab := (ex_slab s1)[i := None]\<rparr>))) (node_at s1 i)))"

section \<open>Insertion\<close>

text \<open>The walk from the tail to the least recently used entry of a layer; a cyclic list would never end it.\<close>

partial_function (option) layer_victim :: "'v expert_store \<Rightarrow> nat \<Rightarrow> nat option \<Rightarrow> nat option option" where
  "layer_victim s layer cur =
     (case cur of
        None \<Rightarrow> Some None
      | Some i \<Rightarrow>
          (case node_at s i of
             None \<Rightarrow> None
           | Some n \<Rightarrow> if fst (nd_key n) = layer then Some (Some i) else layer_victim s layer (nd_prev n)))"

definition layer_count :: "nat \<Rightarrow> 'v expert_store \<Rightarrow> nat" where
  "layer_count layer s = (case hm_get (ex_layer_counts s) layer of None \<Rightarrow> 0 | Some n \<Rightarrow> n)"

definition find_victim :: "nat \<Rightarrow> 'v expert_store \<Rightarrow> nat option option" where
  "find_victim layer s =
     Option.bind (case ex_layer_cap s of
         Some c \<Rightarrow> if c \<le> layer_count layer s then layer_victim s layer (ex_tail s) else Some None
       | None \<Rightarrow> Some (if ex_cap s \<le> length (ex_map s) then ex_tail s else None)) (\<lambda>victim.
     Some (if victim = None \<and> ex_cap s \<le> length (ex_map s) then ex_tail s else victim))"

definition evict_node :: "nat \<Rightarrow> 'v expert_store \<Rightarrow> ('v \<times> 'v expert_store) option" where
  "evict_node i s =
     Option.bind (node_at s i) (\<lambda>n.
     Option.bind (unlink i s) (\<lambda>s1.
     let s2 = s1\<lparr>ex_map := hm_remove (nd_key n) (ex_map s1)\<rparr> in
     Option.bind (node_at s2 i) (\<lambda>n'.
     let s3 = s2\<lparr>ex_slab := (ex_slab s2)[i := None], ex_evictions := wrapping_add_u64 (ex_evictions s2) 1\<rparr> in
     Some (nd_value n', uncount (fst (nd_key n)) s3))))"

definition place_node :: "expert_key \<Rightarrow> 'v \<Rightarrow> nat option \<Rightarrow> 'v expert_store \<Rightarrow> 'v expert_store option" where
  "place_node key v reuse s =
     (let n = Some \<lparr>nd_key = key, nd_value = v, nd_prev = None, nd_next = None\<rparr>;
          (i, s1) = (case reuse of
              Some i \<Rightarrow> (i, s\<lparr>ex_slab := (ex_slab s)[i := n]\<rparr>)
            | None \<Rightarrow> (length (ex_slab s), s\<lparr>ex_slab := ex_slab s @ [n]\<rparr>));
          s2 = s1\<lparr>ex_map := hm_insert key i (ex_map s1)\<rparr>;
          s3 = (if ex_layer_cap s2 = None then s2
                else s2\<lparr>ex_layer_counts := hm_insert (fst key) (layer_count (fst key) s2 + 1) (ex_layer_counts s2)\<rparr>)
      in push_front i s3)"

text \<open>The result: the evicted value for the caller to release, and the values released here.\<close>

definition store_insert :: "expert_key \<Rightarrow> 'v \<Rightarrow> 'v expert_store \<Rightarrow> ('v option \<times> 'v list \<times> 'v expert_store) option" where
  "store_insert key v s =
     (case hm_get (ex_map s) key of
        Some i \<Rightarrow>
          Option.bind (node_at s i) (\<lambda>n.
          Option.bind (promote i (s\<lparr>ex_slab := (ex_slab s)[i := Some (n\<lparr>nd_value := v\<rparr>)]\<rparr>)) (\<lambda>s1.
          Some (None, [nd_value n], s1)))
      | None \<Rightarrow>
          (let s1 = s\<lparr>ex_misses := wrapping_add_u64 (ex_misses s) 1\<rparr> in
           Option.bind (find_victim (fst key) s1) (\<lambda>victim.
           case victim of
             None \<Rightarrow> map_option (\<lambda>s2. (None, [], s2)) (place_node key v None s1)
           | Some i \<Rightarrow>
               Option.bind (evict_node i s1) (\<lambda>(old, s2).
               map_option (\<lambda>s3. (Some old, [], s3)) (place_node key v (Some i) s2)))))"

text \<open>Dropping the store releases what is resident, in the order of the slab.\<close>

definition store_drop :: "'v expert_store \<Rightarrow> 'v list" where
  "store_drop s = map nd_value (List.map_filter id (ex_slab s))"

section \<open>Runs\<close>

datatype 'v store_op =
  Get expert_key | Peek expert_key | Promote expert_key | Take expert_key | Insert expert_key 'v

datatype 'v store_out =
  Found "'v option" | Resident bool | Taken "'v option" | Inserted "'v option" "'v list"

fun store_step :: "'v store_op \<Rightarrow> 'v expert_store \<Rightarrow> ('v store_out \<times> 'v expert_store) option" where
  "store_step (Get k) s = map_option (\<lambda>(r, s'). (Found r, s')) (store_get k s)"
| "store_step (Peek k) s = map_option (\<lambda>r. (Found r, s)) (store_peek k s)"
| "store_step (Promote k) s = map_option (\<lambda>(r, s'). (Resident r, s')) (promote_if_present k s)"
| "store_step (Take k) s = map_option (\<lambda>(r, s'). (Taken r, s')) (store_take k s)"
| "store_step (Insert k v) s = map_option (\<lambda>(e, rs, s'). (Inserted e rs, s')) (store_insert k v s)"

fun store_run :: "'v store_op list \<Rightarrow> 'v expert_store \<Rightarrow> ('v store_out list \<times> 'v expert_store) option" where
  "store_run [] s = Some ([], s)"
| "store_run (x # xs) s =
     Option.bind (store_step x s) (\<lambda>(out, s1). map_option (\<lambda>(outs, s2). (out # outs, s2)) (store_run xs s1))"

end
