(* ===== verification/Expert_Store_Props.thy ===== *)
theory Expert_Store_Props
  imports Expert_Store
begin

text \<open>
  What the expert store promises: it is an LRU cache.  The specification is a list of entries,
  the most recently used first; the slab, the links, the hash map and the counters of the code
  simulate it, and no index is ever dangling.
\<close>

section \<open>Doubly linked lists\<close>

definition look :: "'v expert_node option list \<Rightarrow> nat \<Rightarrow> 'v expert_node option" where
  "look slab i = (if i < length slab then slab ! i else None)"

lemma node_at_look: "node_at s i = look (ex_slab s) i"
  by (simp add: node_at_def look_def)

definition first :: "nat list \<Rightarrow> nat option \<Rightarrow> nat option" where
  "first is q = (case is of [] \<Rightarrow> q | i # _ \<Rightarrow> Some i)"

fun final :: "nat option \<Rightarrow> nat list \<Rightarrow> nat option" where
  "final p [] = p"
| "final p (i # is) = final (Some i) is"

lemma first_simps [simp]: "first [] q = q" "first (i # is) q = Some i" "first (us @ bs) q = first us (first bs q)"
  by (simp_all add: first_def split: list.split)

lemma final_append [simp]: "final p (us @ bs) = final (final p us) bs"
  by (induction us arbitrary: p) simp_all

fun linked :: "(nat \<Rightarrow> 'v expert_node option) \<Rightarrow> nat option \<Rightarrow> nat list \<Rightarrow> nat option \<Rightarrow> bool" where
  "linked nd p [] q \<longleftrightarrow> True"
| "linked nd p (i # is) q \<longleftrightarrow>
     (\<exists>n. nd i = Some n \<and> nd_prev n = p \<and> nd_next n = first is q) \<and> linked nd (Some i) is q"

lemma linked_append [simp]:
  "linked nd p (us @ bs) q \<longleftrightarrow> linked nd p us (first bs q) \<and> linked nd (final p us) bs q"
  by (induction us arbitrary: p) auto

lemma linked_cong: "(\<And>i. i \<in> set is \<Longrightarrow> nd i = nd' i) \<Longrightarrow> linked nd p is q = linked nd' p is q"
  by (induction "is" arbitrary: p) simp_all

lemma linked_node: "linked nd p is q \<Longrightarrow> i \<in> set is \<Longrightarrow> \<exists>n. nd i = Some n"
  by (induction "is" arbitrary: p) auto

lemma linked_set_next:
  assumes "linked nd p (us @ [a]) q" "a \<notin> set us"
  shows "linked (nd(a := map_option (nd_next_update (\<lambda>_. q')) (nd a))) p (us @ [a]) q'"
proof -
  have "linked (nd(a := map_option (nd_next_update (\<lambda>_. q')) (nd a))) p us (Some a) = linked nd p us (Some a)"
    using assms(2) by (intro linked_cong) auto
  with assms(1) show ?thesis by auto
qed

lemma linked_set_prev:
  assumes "linked nd p (b # bs) q" "b \<notin> set bs"
  shows "linked (nd(b := map_option (nd_prev_update (\<lambda>_. p')) (nd b))) p' (b # bs) q"
proof -
  have "linked (nd(b := map_option (nd_prev_update (\<lambda>_. p')) (nd b))) (Some b) bs q = linked nd (Some b) bs q"
    using assms(2) by (intro linked_cong) auto
  with assms(1) show ?thesis by auto
qed

definition chain :: "'v expert_node option list \<Rightarrow> nat option \<Rightarrow> nat option \<Rightarrow> nat list \<Rightarrow> bool" where
  "chain slab h t is \<longleftrightarrow> distinct is \<and> linked (look slab) None is None \<and> h = first is None \<and> t = final None is"

text \<open>What a node holds besides its links.\<close>

definition holds_at :: "'v expert_node option list \<Rightarrow> nat \<Rightarrow> (expert_key \<times> 'v) option" where
  "holds_at slab i = map_option (\<lambda>n. (nd_key n, nd_value n)) (look slab i)"

lemma change_node_look:
  assumes "look (ex_slab s) i = Some n" "\<And>n. nd_key (f n) = nd_key n \<and> nd_value (f n) = nd_value n"
  obtains slab where "change_node i f s = Some (s\<lparr>ex_slab := slab\<rparr>)" "length slab = length (ex_slab s)"
    "look slab = (look (ex_slab s))(i := map_option f (look (ex_slab s) i))" "holds_at slab = holds_at (ex_slab s)"
proof -
  have i: "i < length (ex_slab s)" using assms(1) by (auto simp: look_def split: if_splits)
  let ?slab = "(ex_slab s)[i := Some (f n)]"
  have look: "look ?slab = (look (ex_slab s))(i := map_option f (look (ex_slab s) i))"
    using assms(1) i by (auto simp: look_def fun_eq_iff)
  moreover have "holds_at ?slab = holds_at (ex_slab s)"
    using assms by (auto simp: holds_at_def look fun_eq_iff)
  moreover have "change_node i f s = Some (s\<lparr>ex_slab := ?slab\<rparr>)"
    using assms(1) by (simp add: change_node_def node_at_look)
  ultimately show thesis using that by simp
qed

lemma unlink_chain:
  assumes "chain (ex_slab s) (ex_head s) (ex_tail s) (us @ i # bs)"
  obtains slab h t where "unlink i s = Some (s\<lparr>ex_slab := slab, ex_head := h, ex_tail := t\<rparr>)"
    "length slab = length (ex_slab s)" "chain slab h t (us @ bs)" "holds_at slab = holds_at (ex_slab s)"
proof -
  let ?nd = "look (ex_slab s)"
  from assms have dist: "distinct (us @ i # bs)" and front: "linked ?nd None us (Some i)"
    and rear: "linked ?nd (Some i) bs None" and ht: "ex_head s = first us (Some i)" "ex_tail s = final (Some i) bs"
    by (auto simp: chain_def)
  obtain n where n: "?nd i = Some n" "nd_prev n = final None us" "nd_next n = first bs None"
    using assms by (auto simp: chain_def)
  obtain slab1 h1 where step1: "(case nd_prev n of Some p \<Rightarrow> change_node p (nd_next_update (\<lambda>_. nd_next n)) s
       | None \<Rightarrow> Some (s\<lparr>ex_head := nd_next n\<rparr>)) = Some (s\<lparr>ex_slab := slab1, ex_head := h1\<rparr>)"
    and len1: "length slab1 = length (ex_slab s)" and h1: "h1 = first (us @ bs) None"
    and keep1: "\<And>j. j \<notin> set us \<Longrightarrow> look slab1 j = ?nd j" "holds_at slab1 = holds_at (ex_slab s)"
    and front1: "linked (look slab1) None us (first bs None)"
  proof (cases us rule: rev_exhaust)
    case Nil
    then show ?thesis using that [of "nd_next n" "ex_slab s"] n(2,3) by simp
  next
    case (snoc us' a)
    then have a: "a \<notin> set us'" "nd_prev n = Some a" using dist n(2) by auto
    obtain na where "?nd a = Some na" using front snoc by auto
    then obtain slab where slab: "change_node a (nd_next_update (\<lambda>_. nd_next n)) s = Some (s\<lparr>ex_slab := slab\<rparr>)"
      "length slab = length (ex_slab s)" "look slab = ?nd(a := map_option (nd_next_update (\<lambda>_. nd_next n)) (?nd a))"
      "holds_at slab = holds_at (ex_slab s)"
      by (rule change_node_look [where f = "nd_next_update (\<lambda>_. nd_next n)"]) simp_all
    have "linked (look slab) None us (first bs None)"
      using linked_set_next [OF front [unfolded snoc] a(1), of "first bs None"] slab(3) n(3) snoc by simp
    then show ?thesis using that [of "ex_head s" slab] slab a(2) snoc ht(1) by (cases us') simp_all
  qed
  have rear1: "linked (look slab1) (Some i) bs None"
    using rear keep1(1) dist by (subst linked_cong [of _ _ ?nd]) auto
  obtain slab2 t2 where step2: "(case nd_next n of Some x \<Rightarrow> change_node x (nd_prev_update (\<lambda>_. nd_prev n)) (s\<lparr>ex_slab := slab1, ex_head := h1\<rparr>)
       | None \<Rightarrow> Some (s\<lparr>ex_slab := slab1, ex_head := h1, ex_tail := nd_prev n\<rparr>)) = Some (s\<lparr>ex_slab := slab2, ex_head := h1, ex_tail := t2\<rparr>)"
    and len2: "length slab2 = length slab1" and t2: "t2 = final None (us @ bs)"
    and keep2: "\<And>j. j \<notin> set bs \<Longrightarrow> look slab2 j = look slab1 j" "holds_at slab2 = holds_at slab1"
    and rear2: "linked (look slab2) (final None us) bs None"
  proof (cases bs)
    case Nil
    then show ?thesis using that [of "nd_prev n" slab1] n(2,3) by simp
  next
    case (Cons b bs')
    then have b: "b \<notin> set bs'" "nd_next n = Some b" using dist n(3) by auto
    obtain nb where nb: "look slab1 b = Some nb" using rear1 Cons by auto
    let ?s = "s\<lparr>ex_slab := slab1, ex_head := h1\<rparr>"
    have "look (ex_slab ?s) b = Some nb" using nb by simp
    then obtain slab where slab: "change_node b (nd_prev_update (\<lambda>_. nd_prev n)) ?s = Some (?s\<lparr>ex_slab := slab\<rparr>)"
      "length slab = length slab1" "look slab = (look slab1)(b := map_option (nd_prev_update (\<lambda>_. nd_prev n)) (look slab1 b))"
      "holds_at slab = holds_at slab1"
      by (rule change_node_look [where f = "nd_prev_update (\<lambda>_. nd_prev n)"]) simp_all
    have "linked (look slab) (final None us) bs None"
      using linked_set_prev [OF rear1 [unfolded Cons] b(1), of "final None us"] slab(3) n(2) Cons by simp
    moreover have "?s\<lparr>ex_slab := slab\<rparr> = s\<lparr>ex_slab := slab, ex_head := h1, ex_tail := ex_tail s\<rparr>" by simp
    ultimately show ?thesis using that [of "ex_tail s" slab] slab b(2) Cons ht(2) by simp
  qed
  have "linked (look slab2) None us (first bs None)"
    using front1 keep2(1) dist by (subst linked_cong [of _ _ "look slab1"]) auto
  with rear2 dist h1 t2 have "chain slab2 h1 t2 (us @ bs)" by (simp add: chain_def)
  moreover have "unlink i s = Some (s\<lparr>ex_slab := slab2, ex_head := h1, ex_tail := t2\<rparr>)"
    using step1 step2 n(1) by (simp add: unlink_def node_at_look)
  ultimately show thesis using that len1 len2 keep1(2) keep2(2) by simp
qed

lemma push_front_chain:
  assumes "chain (ex_slab s) (ex_head s) (ex_tail s) is" "i \<notin> set is" "look (ex_slab s) i = Some n"
  obtains slab h t where "push_front i s = Some (s\<lparr>ex_slab := slab, ex_head := h, ex_tail := t\<rparr>)"
    "length slab = length (ex_slab s)" "chain slab h t (i # is)" "holds_at slab = holds_at (ex_slab s)"
proof -
  let ?f = "\<lambda>n. n\<lparr>nd_prev := None, nd_next := ex_head s\<rparr>"
  from assms(3) obtain slab1 where slab1: "change_node i ?f s = Some (s\<lparr>ex_slab := slab1\<rparr>)"
    "length slab1 = length (ex_slab s)" "look slab1 = (look (ex_slab s))(i := map_option ?f (look (ex_slab s) i))"
    "holds_at slab1 = holds_at (ex_slab s)"
    by (rule change_node_look [where f = ?f]) simp_all
  have rest: "linked (look slab1) None is None"
    using assms(1,2) by (subst linked_cong [of _ _ "look (ex_slab s)"]) (auto simp: chain_def slab1(3))
  have head: "look slab1 i = Some (?f n)" using assms(3) by (simp add: slab1(3))
  show thesis
  proof (cases "is")
    case Nil
    then have "ex_head s = None" using assms(1) by (simp add: chain_def)
    moreover from this have "chain slab1 (Some i) (Some i) [i]" using head by (simp add: chain_def)
    ultimately show thesis using that [of "Some i" "Some i" slab1] slab1 Nil by (simp add: push_front_def)
  next
    case (Cons j js)
    then have j: "ex_head s = Some j" "j \<notin> set js" "i \<noteq> j" using assms(1,2) by (auto simp: chain_def)
    let ?s = "s\<lparr>ex_slab := slab1\<rparr>"
    obtain nj where "look (ex_slab ?s) j = Some nj" using rest Cons by auto
    then obtain slab2 where slab2: "change_node j (nd_prev_update (\<lambda>_. Some i)) ?s = Some (?s\<lparr>ex_slab := slab2\<rparr>)"
      "length slab2 = length (ex_slab ?s)" "look slab2 = (look (ex_slab ?s))(j := map_option (nd_prev_update (\<lambda>_. Some i)) (look (ex_slab ?s) j))"
      "holds_at slab2 = holds_at (ex_slab ?s)"
      by (rule change_node_look [where f = "nd_prev_update (\<lambda>_. Some i)"]) simp_all
    have "linked (look slab2) (Some i) is None"
      using linked_set_prev [OF rest [unfolded Cons] j(2), of "Some i"] slab2(3) Cons by simp
    moreover have "look slab2 i = Some (?f n)" using head slab2(3) j(3) by simp
    ultimately have "chain slab2 (Some i) (ex_tail s) (i # is)"
      using assms(1,2) Cons j(1) by (simp add: chain_def)
    then show thesis using that [of "ex_tail s" "Some i" slab2] slab1 slab2 j(1) by (simp add: push_front_def)
  qed
qed

lemma promote_chain:
  assumes "chain (ex_slab s) (ex_head s) (ex_tail s) (us @ i # bs)"
  obtains slab h t where "promote i s = Some (s\<lparr>ex_slab := slab, ex_head := h, ex_tail := t\<rparr>)"
    "length slab = length (ex_slab s)" "chain slab h t (i # us @ bs)" "holds_at slab = holds_at (ex_slab s)"
proof -
  from assms obtain slab h t where un: "unlink i s = Some (s\<lparr>ex_slab := slab, ex_head := h, ex_tail := t\<rparr>)"
    "length slab = length (ex_slab s)" "chain slab h t (us @ bs)" "holds_at slab = holds_at (ex_slab s)"
    by (rule unlink_chain)
  let ?s = "s\<lparr>ex_slab := slab, ex_head := h, ex_tail := t\<rparr>"
  have "holds_at slab i \<noteq> None" using assms by (auto simp: un(4) holds_at_def chain_def)
  then obtain n where "look (ex_slab ?s) i = Some n" by (auto simp: holds_at_def)
  moreover have "i \<notin> set (us @ bs)" using assms by (auto simp: chain_def)
  moreover have "chain (ex_slab ?s) (ex_head ?s) (ex_tail ?s) (us @ bs)" using un(3) by simp
  ultimately obtain slab' h' t' where "push_front i ?s = Some (?s\<lparr>ex_slab := slab', ex_head := h', ex_tail := t'\<rparr>)"
    "length slab' = length (ex_slab ?s)" "chain slab' h' t' (i # us @ bs)" "holds_at slab' = holds_at (ex_slab ?s)"
    using push_front_chain by metis
  then show thesis using that [of t' h' slab'] un by (simp add: promote_def)
qed

section \<open>The specification\<close>

record 'v lru =
  lr_items :: "(expert_key \<times> 'v) list"
  lr_cap :: nat
  lr_layer_cap :: "nat option"
  lr_hits :: nat
  lr_misses :: nat
  lr_evictions :: nat

definition in_layer :: "nat \<Rightarrow> (expert_key \<times> 'v) list \<Rightarrow> (expert_key \<times> 'v) list" where
  "in_layer layer = filter (\<lambda>(k, _). fst k = layer)"

definition oldest :: "(expert_key \<times> 'v) list \<Rightarrow> expert_key option" where
  "oldest xs = (if xs = [] then None else Some (fst (last xs)))"

definition lru_touch :: "expert_key \<Rightarrow> 'v \<Rightarrow> 'v lru \<Rightarrow> 'v lru" where
  "lru_touch k v a = a\<lparr>lr_items := (k, v) # hm_remove k (lr_items a)\<rparr>"

definition lru_victim :: "nat \<Rightarrow> 'v lru \<Rightarrow> expert_key option" where
  "lru_victim layer a =
     (let global = (if lr_cap a \<le> length (lr_items a) then oldest (lr_items a) else None) in
      case lr_layer_cap a of
        None \<Rightarrow> global
      | Some c \<Rightarrow> if c \<le> length (in_layer layer (lr_items a)) then oldest (in_layer layer (lr_items a)) else global)"

fun lru_step :: "'v store_op \<Rightarrow> 'v lru \<Rightarrow> 'v store_out \<times> 'v lru" where
  "lru_step (Get k) a =
     (case map_of (lr_items a) k of
        None \<Rightarrow> (Found None, a)
      | Some v \<Rightarrow> (Found (Some v), (lru_touch k v a)\<lparr>lr_hits := wrapping_add_u64 (lr_hits a) 1\<rparr>))"
| "lru_step (Peek k) a = (Found (map_of (lr_items a) k), a)"
| "lru_step (Promote k) a =
     (case map_of (lr_items a) k of None \<Rightarrow> (Resident False, a) | Some v \<Rightarrow> (Resident True, lru_touch k v a))"
| "lru_step (Take k) a = (Taken (map_of (lr_items a) k), a\<lparr>lr_items := hm_remove k (lr_items a)\<rparr>)"
| "lru_step (Insert k v) a =
     (case map_of (lr_items a) k of
        Some old \<Rightarrow> (Inserted None [old], lru_touch k v a)
      | None \<Rightarrow>
          let a1 = a\<lparr>lr_misses := wrapping_add_u64 (lr_misses a) 1\<rparr> in
          case lru_victim (fst k) a of
            None \<Rightarrow> (Inserted None [], a1\<lparr>lr_items := (k, v) # lr_items a\<rparr>)
          | Some x \<Rightarrow> (Inserted (map_of (lr_items a) x) [],
              a1\<lparr>lr_items := (k, v) # hm_remove x (lr_items a), lr_evictions := wrapping_add_u64 (lr_evictions a) 1\<rparr>))"

fun lru_run :: "'v store_op list \<Rightarrow> 'v lru \<Rightarrow> 'v store_out list \<times> 'v lru" where
  "lru_run [] a = ([], a)"
| "lru_run (x # xs) a = (let (out, a1) = lru_step x a; (outs, a2) = lru_run xs a1 in (out # outs, a2))"

section \<open>Representation\<close>

definition items :: "'v expert_node option list \<Rightarrow> nat list \<Rightarrow> (expert_key \<times> 'v) list" where
  "items slab is = map (\<lambda>i. the (holds_at slab i)) is"

definition rep :: "'v expert_store \<Rightarrow> nat list \<Rightarrow> bool" where
  "rep s is \<longleftrightarrow> chain (ex_slab s) (ex_head s) (ex_tail s) is \<and> hm_ok (ex_map s) \<and>
     (\<forall>i. holds_at (ex_slab s) i \<noteq> None \<longrightarrow> i \<in> set is) \<and>
     (\<forall>k i. hm_get (ex_map s) k = Some i \<longleftrightarrow> i \<in> set is \<and> (\<exists>v. holds_at (ex_slab s) i = Some (k, v)))"

lemma rep_holds: "rep s is \<Longrightarrow> i \<in> set is \<Longrightarrow> \<exists>k v. holds_at (ex_slab s) i = Some (k, v) \<and> hm_get (ex_map s) k = Some i"
  by (fastforce simp: rep_def chain_def holds_at_def dest: linked_node)

lemma rep_get: "rep s is \<Longrightarrow> hm_get (ex_map s) k = Some i \<longleftrightarrow> i \<in> set is \<and> (\<exists>v. holds_at (ex_slab s) i = Some (k, v))"
  unfolding rep_def by blast

lemma rep_only: "rep s is \<Longrightarrow> holds_at (ex_slab s) i \<noteq> None \<Longrightarrow> i \<in> set is"
  unfolding rep_def by blast

lemma rep_keys: "rep s is \<Longrightarrow> distinct (map fst (items (ex_slab s) is))"
proof -
  assume rep: "rep s is"
  have "inj_on (\<lambda>i. fst (the (holds_at (ex_slab s) i))) (set is)"
  proof (rule inj_onI)
    fix i j assume "i \<in> set is" "j \<in> set is" "fst (the (holds_at (ex_slab s) i)) = fst (the (holds_at (ex_slab s) j))"
    with rep_holds [OF rep \<open>i \<in> set is\<close>] rep_holds [OF rep \<open>j \<in> set is\<close>] show "i = j" by auto
  qed
  with rep show ?thesis by (simp add: items_def distinct_map rep_def chain_def comp_def)
qed

lemma rep_absent: "rep s is \<Longrightarrow> hm_get (ex_map s) k = None \<longleftrightarrow> map_of (items (ex_slab s) is) k = None"
proof -
  assume rep: "rep s is"
  have "k \<in> fst ` set (items (ex_slab s) is) \<longleftrightarrow> (\<exists>i. hm_get (ex_map s) k = Some i)"
  proof
    assume "k \<in> fst ` set (items (ex_slab s) is)"
    then obtain i where "i \<in> set is" "k = fst (the (holds_at (ex_slab s) i))" by (auto simp: items_def)
    with rep_holds [OF rep, of i] show "\<exists>i. hm_get (ex_map s) k = Some i" by auto
  next
    assume "\<exists>i. hm_get (ex_map s) k = Some i"
    then obtain i v where "i \<in> set is" "holds_at (ex_slab s) i = Some (k, v)" using rep_get [OF rep] by metis
    then show "k \<in> fst ` set (items (ex_slab s) is)" by (force simp: items_def)
  qed
  then show ?thesis by (auto simp: map_of_eq_None_iff)
qed

lemma remove_append: "hm_remove k (xs @ ys) = hm_remove k xs @ hm_remove k ys"
  by (simp add: AList.delete_eq)

lemma remove_middle: "distinct (map fst (xs @ (k, v) # ys)) \<Longrightarrow> hm_remove k (xs @ (k, v) # ys) = xs @ ys"
proof -
  assume "distinct (map fst (xs @ (k, v) # ys))"
  then have "map_of xs k = None" "map_of ys k = None" by (auto simp: map_of_eq_None_iff)
  then show ?thesis by (simp add: remove_append hm_remove_absent)
qed

lemma rep_present:
  assumes "rep s is" "hm_get (ex_map s) k = Some i"
  obtains us bs v where "is = us @ i # bs" "holds_at (ex_slab s) i = Some (k, v)"
    "map_of (items (ex_slab s) is) k = Some v" "hm_remove k (items (ex_slab s) is) = items (ex_slab s) (us @ bs)"
    "items (ex_slab s) is = items (ex_slab s) us @ (k, v) # items (ex_slab s) bs"
proof -
  from assms obtain v where v: "i \<in> set is" "holds_at (ex_slab s) i = Some (k, v)" using rep_get by metis
  from v(1) obtain us bs where "is": "is = us @ i # bs" by (meson split_list)
  let ?it = "items (ex_slab s)"
  have split: "?it is = ?it us @ (k, v) # ?it bs" by (simp add: items_def "is" v(2))
  from rep_keys [OF assms(1)] have fresh: "k \<notin> fst ` set (?it us)" "k \<notin> fst ` set (?it bs)" and dist: "distinct (map fst (?it is))"
    unfolding split by (auto simp: image_iff)
  have "map_of (?it us) k = None" using fresh(1) by (simp add: map_of_eq_None_iff)
  then have "map_of (?it is) k = Some v" by (simp add: split map_add_def)
  moreover have "hm_remove k (?it is) = ?it (us @ bs)"
    using dist unfolding split by (subst remove_middle) (simp_all add: items_def)
  ultimately show thesis using that "is" v(2) split by blast
qed

lemma rep_length: "rep s is \<Longrightarrow> length (ex_map s) = length is"
proof -
  assume rep: "rep s is"
  have "set (map snd (ex_map s)) = set is"
  proof (intro equalityI subsetI)
    fix i assume "i \<in> set (map snd (ex_map s))"
    then obtain k where "(k, i) \<in> set (ex_map s)" by auto
    with rep have "hm_get (ex_map s) k = Some i" by (simp add: rep_def hm_in_set_get)
    then show "i \<in> set is" using rep_get [OF rep] by metis
  next
    fix i assume "i \<in> set is"
    from rep_holds [OF rep this] obtain k where "hm_get (ex_map s) k = Some i" by blast
    then show "i \<in> set (map snd (ex_map s))" by (force dest: hm_get_in_set)
  qed
  moreover have "distinct (map snd (ex_map s))"
  proof -
    have ok: "hm_ok (ex_map s)" using rep by (simp add: rep_def)
    have get: "hm_get (ex_map s) (fst r) = Some (snd r)" if "r \<in> set (ex_map s)" for r
      using hm_in_set_get [OF ok, of "fst r" "snd r"] that by simp
    have "inj_on snd (set (ex_map s))"
    proof (rule inj_onI)
      fix p q assume pq: "p \<in> set (ex_map s)" "q \<in> set (ex_map s)" "snd p = snd q"
      have "fst p = fst q" using get [OF pq(1)] get [OF pq(2)] pq(3) rep_get [OF rep] by (metis fst_conv option.inject)
      with pq(3) show "p = q" by (simp add: prod_eq_iff)
    qed
    moreover have "distinct (ex_map s)" using rep by (simp add: rep_def distinct_map)
    ultimately show ?thesis by (simp add: distinct_map)
  qed
  moreover have "distinct is" using rep by (simp add: rep_def chain_def)
  ultimately show ?thesis by (metis distinct_card length_map)
qed

lemma rep_node: "rep s is \<Longrightarrow> i \<in> set is \<Longrightarrow> \<exists>n. look (ex_slab s) i = Some n \<and> hm_get (ex_map s) (nd_key n) = Some i"
  using rep_holds [of s "is" i] by (auto simp: holds_at_def)

section \<open>Simulation\<close>

definition counts_ok :: "'v expert_store \<Rightarrow> nat list \<Rightarrow> bool" where
  "counts_ok s is \<longleftrightarrow> ex_layer_cap s = None \<or> (\<forall>l. layer_count l s = length (in_layer l (items (ex_slab s) is)))"

definition same_shape :: "'v expert_store \<Rightarrow> 'v lru \<Rightarrow> bool" where
  "same_shape s a \<longleftrightarrow> lr_cap a = ex_cap s \<and> lr_layer_cap a = ex_layer_cap s \<and> lr_hits a = ex_hits s \<and>
     lr_misses a = ex_misses s \<and> lr_evictions a = ex_evictions s \<and> 1 \<le> ex_cap s \<and> (\<forall>c. ex_layer_cap s = Some c \<longrightarrow> 1 \<le> c)"

definition simulates :: "'v expert_store \<Rightarrow> nat list \<Rightarrow> 'v lru \<Rightarrow> bool" where
  "simulates s is a \<longleftrightarrow> rep s is \<and> counts_ok s is \<and> lr_items a = items (ex_slab s) is \<and> same_shape s a"

lemma items_simps [simp]:
  "items slab [] = []"
  "items slab (i # is) = the (holds_at slab i) # items slab is"
  "items slab (us @ bs) = items slab us @ items slab bs"
  by (simp_all add: items_def)

lemma in_layer_simps [simp]:
  "in_layer l [] = []"
  "in_layer l (x # xs) = (if fst (fst x) = l then x # in_layer l xs else in_layer l xs)"
  "in_layer l (xs @ ys) = in_layer l xs @ in_layer l ys"
  by (simp_all add: in_layer_def split: prod.split)

lemma oldest_simps [simp]: "oldest [] = None" "oldest (xs @ [x]) = Some (fst x)"
  by (simp_all add: oldest_def)

lemma layer_count_uncount:
  "layer_count l (uncount x s) = layer_count l s - (if ex_layer_cap s \<noteq> None \<and> l = x then 1 else 0)"
  by (simp add: layer_count_def uncount_def hm_simps saturating_sub_def split: option.split)

lemma uncount_simps [simp]:
  "ex_map (uncount x s) = ex_map s" "ex_slab (uncount x s) = ex_slab s" "ex_head (uncount x s) = ex_head s"
  "ex_tail (uncount x s) = ex_tail s" "ex_cap (uncount x s) = ex_cap s" "ex_layer_cap (uncount x s) = ex_layer_cap s"
  "ex_hits (uncount x s) = ex_hits s" "ex_misses (uncount x s) = ex_misses s" "ex_evictions (uncount x s) = ex_evictions s"
  by (simp_all add: uncount_def)

lemma promote_sim:
  assumes "simulates s is a" "hm_get (ex_map s) k = Some i"
  obtains s' is' v where "promote i s = Some s'" "simulates s' is' (lru_touch k v a)" "map_of (lr_items a) k = Some v"
    "holds_at (ex_slab s') i = Some (k, v)" "ex_map s' = ex_map s"
proof -
  from assms(1) have rep: "rep s is" and counts: "counts_ok s is" and its: "lr_items a = items (ex_slab s) is" and shape: "same_shape s a"
    by (simp_all add: simulates_def)
  from rep_present [OF rep assms(2)] obtain us bs v where "is": "is = us @ i # bs" "holds_at (ex_slab s) i = Some (k, v)"
    "map_of (items (ex_slab s) is) k = Some v" "hm_remove k (items (ex_slab s) is) = items (ex_slab s) (us @ bs)" .
  have "chain (ex_slab s) (ex_head s) (ex_tail s) (us @ i # bs)" using rep "is"(1) by (simp add: rep_def)
  then obtain slab h t where p: "promote i s = Some (s\<lparr>ex_slab := slab, ex_head := h, ex_tail := t\<rparr>)"
    "chain slab h t (i # us @ bs)" "holds_at slab = holds_at (ex_slab s)" by (rule promote_chain)
  let ?s = "s\<lparr>ex_slab := slab, ex_head := h, ex_tail := t\<rparr>"
  have its': "items slab = items (ex_slab s)" by (simp add: items_def p(3) fun_eq_iff)
  have "rep ?s (i # us @ bs)" using rep p(2) by (auto simp: rep_def p(3) "is"(1))
  moreover have "counts_ok ?s (i # us @ bs)"
    using counts by (auto simp: counts_ok_def its' "is"(1) layer_count_def)
  moreover have "lr_items (lru_touch k v a) = items slab (i # us @ bs)"
    using "is"(2,4) its by (simp add: lru_touch_def its' p(3))
  moreover have "same_shape ?s (lru_touch k v a)" using shape by (simp add: same_shape_def lru_touch_def)
  ultimately have "simulates ?s (i # us @ bs) (lru_touch k v a)" by (simp add: simulates_def)
  from that [OF p(1) this] show thesis using "is"(2,3) its by (simp add: p(3))
qed

lemma chain_cong: "(\<And>i. i \<in> set is \<Longrightarrow> look slab i = look slab' i) \<Longrightarrow> chain slab h t is = chain slab' h t is"
  using linked_cong [of "is" "look slab" "look slab'"] by (simp add: chain_def)

lemma look_update: "i < length slab \<Longrightarrow> look (slab[i := x]) = (look slab)(i := x)"
  by (auto simp: look_def fun_eq_iff)

lemma look_append: "look (slab @ [x]) = (look slab)(length slab := x)"
  by (auto simp: look_def fun_eq_iff nth_append)

lemma look_length: "look slab i = Some n \<Longrightarrow> i < length slab"
  by (auto simp: look_def split: if_splits)

text \<open>Taking a node out of the list, the slab and the map.\<close>

lemma detach:
  assumes "rep s is" "hm_get (ex_map s) k = Some i" "s' = s\<lparr>ex_map := m\<rparr>"
  obtains slab h t us bs n where "unlink i s' = Some (s'\<lparr>ex_slab := slab, ex_head := h, ex_tail := t\<rparr>)"
    "is = us @ i # bs" "look slab i = Some n" "nd_key n = k" "map_of (items (ex_slab s) is) k = Some (nd_value n)"
    "look (slab[i := None]) i = None" "i < length (slab[i := None])"
    "rep (s\<lparr>ex_map := hm_remove k (ex_map s), ex_slab := slab[i := None], ex_head := h, ex_tail := t\<rparr>) (us @ bs)"
    "items (slab[i := None]) (us @ bs) = hm_remove k (items (ex_slab s) is)"
    "items (ex_slab s) is = items (ex_slab s) us @ (k, nd_value n) # items (ex_slab s) bs"
proof -
  from rep_present [OF assms(1,2)] obtain us bs v where "is": "is = us @ i # bs" "holds_at (ex_slab s) i = Some (k, v)"
    "map_of (items (ex_slab s) is) k = Some v" "hm_remove k (items (ex_slab s) is) = items (ex_slab s) (us @ bs)"
    "items (ex_slab s) is = items (ex_slab s) us @ (k, v) # items (ex_slab s) bs" .
  have "chain (ex_slab s') (ex_head s') (ex_tail s') (us @ i # bs)" using assms(1,3) "is"(1) by (simp add: rep_def)
  then obtain slab h t where un: "unlink i s' = Some (s'\<lparr>ex_slab := slab, ex_head := h, ex_tail := t\<rparr>)"
    "chain slab h t (us @ bs)" "holds_at slab = holds_at (ex_slab s')" by (rule unlink_chain)
  have holds: "holds_at slab = holds_at (ex_slab s)" using un(3) assms(3) by simp
  obtain n where n: "look slab i = Some n" "nd_key n = k" "nd_value n = v"
    using "is"(2) by (auto simp: holds_at_def simp flip: holds)
  have notin: "i \<notin> set (us @ bs)" using assms(1) "is"(1) by (auto simp: rep_def chain_def)
  let ?slab = "slab[i := None]"
  have look: "look ?slab = (look slab)(i := None)" using n(1) by (simp add: look_update look_length)
  have holds': "holds_at ?slab j = (if j = i then None else holds_at (ex_slab s) j)" for j
  proof -
    have "holds_at ?slab j = (if j = i then None else holds_at slab j)" by (simp add: holds_at_def look)
    then show ?thesis by (simp only: holds)
  qed
  have ch: "chain ?slab h t (us @ bs)"
    using un(2) notin by (subst chain_cong [of _ _ slab]) (auto simp: look)
  have "rep (s\<lparr>ex_map := hm_remove k (ex_map s), ex_slab := ?slab, ex_head := h, ex_tail := t\<rparr>) (us @ bs)"
  proof -
    have "hm_get (hm_remove k (ex_map s)) k' = Some j \<longleftrightarrow> j \<in> set (us @ bs) \<and> (\<exists>v. holds_at ?slab j = Some (k', v))" for k' j
    proof (cases "j = i")
      case True
      then show ?thesis using rep_get [OF assms(1), of k' i] "is"(2) notin by (auto simp: hm_simps)
    next
      case False
      then have "k' \<noteq> k" if "hm_get (ex_map s) k' = Some j" using that assms(2) by auto
      with False show ?thesis using rep_get [OF assms(1), of k' j] by (auto simp: hm_simps holds' "is"(1))
    qed
    moreover have "j \<in> set (us @ bs)" if "holds_at ?slab j \<noteq> None" for j
      using that rep_only [OF assms(1), of j] by (auto simp: holds' "is"(1) split: if_splits)
    ultimately show ?thesis using ch assms(1) unfolding rep_def by (simp add: hm_simps del: split_paired_All)
  qed
  moreover have "items ?slab (us @ bs) = hm_remove k (items (ex_slab s) is)"
    using notin "is"(4) by (auto simp: items_def holds')
  moreover have "i < length ?slab" using n(1) by (simp add: look_length)
  ultimately show thesis using that [OF _ "is"(1) n(1,2)] un(1) "is"(3,5) n(3) look by simp
qed

lemma layer_victim_walk:
  assumes "rep s (us @ bs)"
  shows "layer_victim s l (final None us) = Some (Option.bind (oldest (in_layer l (items (ex_slab s) us))) (hm_get (ex_map s)))"
  using assms
proof (induction us arbitrary: bs rule: rev_induct)
  case Nil
  then show ?case by (simp add: layer_victim.simps [of s l None])
next
  case (snoc i us)
  have prev: "\<exists>n. look (ex_slab s) i = Some n \<and> nd_prev n = final None us"
    using snoc.prems by (auto simp: rep_def chain_def)
  from rep_node [OF snoc.prems, of i] obtain n where n: "look (ex_slab s) i = Some n" "hm_get (ex_map s) (nd_key n) = Some i" by auto
  have IH: "layer_victim s l (final None us) = Some (Option.bind (oldest (in_layer l (items (ex_slab s) us))) (hm_get (ex_map s)))"
    using snoc.IH [of "i # bs"] snoc.prems by simp
  have "holds_at (ex_slab s) i = Some (nd_key n, nd_value n)" using n(1) by (simp add: holds_at_def)
  then show ?case using n prev IH by (simp add: layer_victim.simps [of s l "Some i"] node_at_look)
qed

lemma rep_tail:
  assumes "rep s is"
  shows "ex_tail s = Option.bind (oldest (items (ex_slab s) is)) (hm_get (ex_map s))"
proof (cases "is" rule: rev_exhaust)
  case Nil
  then show ?thesis using assms by (simp add: rep_def chain_def)
next
  case (snoc us i)
  from rep_node [OF assms, of i] snoc obtain n where n: "look (ex_slab s) i = Some n" "hm_get (ex_map s) (nd_key n) = Some i" by auto
  have "ex_tail s = Some i" using assms snoc by (simp add: rep_def chain_def)
  then show ?thesis using n snoc by (simp add: holds_at_def)
qed

lemma oldest_member: "oldest xs = Some k \<Longrightarrow> k \<in> fst ` set xs"
  by (auto simp: oldest_def split: if_splits)

lemma find_victim_sim:
  assumes "simulates s is a"
  shows "find_victim l (s\<lparr>ex_misses := x\<rparr>) = Some (Option.bind (lru_victim l a) (hm_get (ex_map s)))"
    and "lru_victim l a = Some k \<Longrightarrow> \<exists>i. hm_get (ex_map s) k = Some i"
proof -
  from assms have rep: "rep s is" and counts: "counts_ok s is" and its: "lr_items a = items (ex_slab s) is" and shape: "same_shape s a"
    by (simp_all add: simulates_def)
  let ?its = "items (ex_slab s) is" and ?s = "s\<lparr>ex_misses := x\<rparr>"
  have len: "length (ex_map s) = length ?its" using rep_length [OF rep] by (simp add: items_def)
  have rep': "rep ?s is" using rep by (simp add: rep_def)
  have walk: "layer_victim ?s l (ex_tail ?s) = Some (Option.bind (oldest (in_layer l ?its)) (hm_get (ex_map s)))"
    using layer_victim_walk [of ?s "is" "[]" l] rep' by (simp add: rep_def chain_def)
  have lc: "layer_count l ?s = length (in_layer l ?its)" if "ex_layer_cap s \<noteq> None"
    using counts that by (simp add: counts_ok_def layer_count_def)
  have found: "\<exists>i. hm_get (ex_map s) k' = Some i" if "oldest xs = Some k'" "set xs \<subseteq> set ?its" for k' xs
  proof -
    have "k' \<in> fst ` set ?its" using oldest_member [OF that(1)] that(2) by blast
    then have "map_of ?its k' \<noteq> None" by (simp add: map_of_eq_None_iff)
    then show ?thesis using rep_absent [OF rep, of k'] by auto
  qed
  have sub: "set (in_layer l ?its) \<subseteq> set ?its" by (auto simp: in_layer_def)
  show second: "lru_victim l a = Some k \<Longrightarrow> \<exists>i. hm_get (ex_map s) k = Some i" for k
    using found [of ?its k] found [OF _ sub, of k] its by (auto simp: lru_victim_def Let_def split: option.splits if_splits)
  show "find_victim l ?s = Some (Option.bind (lru_victim l a) (hm_get (ex_map s)))"
  proof (cases "ex_layer_cap s")
    case None
    then show ?thesis using shape its len rep_tail [OF rep]
      by (simp add: find_victim_def lru_victim_def same_shape_def Let_def)
  next
    case (Some c)
    show ?thesis
    proof (cases "c \<le> length (in_layer l ?its)")
      case True
      then have "in_layer l ?its \<noteq> []" using shape Some by (auto simp: same_shape_def)
      then obtain k where k: "oldest (in_layer l ?its) = Some k" by (auto simp: oldest_def)
      with found [OF k sub] obtain i where "hm_get (ex_map s) k = Some i" by blast
      then show ?thesis using True Some shape its walk k lc by (simp add: find_victim_def lru_victim_def same_shape_def Let_def)
    next
      case False
      then show ?thesis using Some shape its lc len rep_tail [OF rep]
        by (simp add: find_victim_def lru_victim_def same_shape_def Let_def)
    qed
  qed
qed

lemma place_sim:
  assumes rep: "rep s is" and counts: "counts_ok s is" and new: "hm_get (ex_map s) k = None"
    and slot: "\<And>i. reuse = Some i \<Longrightarrow> i < length (ex_slab s) \<and> look (ex_slab s) i = None"
  obtains s' j where "place_node k v reuse s = Some s'" "rep s' (j # is)" "counts_ok s' (j # is)"
    "items (ex_slab s') (j # is) = (k, v) # items (ex_slab s) is"
    "ex_cap s' = ex_cap s \<and> ex_layer_cap s' = ex_layer_cap s \<and> ex_hits s' = ex_hits s \<and> ex_misses s' = ex_misses s \<and>
     ex_evictions s' = ex_evictions s"
proof -
  let ?n = "\<lparr>nd_key = k, nd_value = v, nd_prev = None, nd_next = None\<rparr>"
  define j where "j = (case reuse of Some i \<Rightarrow> i | None \<Rightarrow> length (ex_slab s))"
  define slab where "slab = (case reuse of Some i \<Rightarrow> (ex_slab s)[i := Some ?n] | None \<Rightarrow> ex_slab s @ [Some ?n])"
  have old: "look (ex_slab s) j = None"
    using slot by (cases reuse) (auto simp: j_def look_def)
  have look: "look slab = (look (ex_slab s))(j := Some ?n)"
    using slot by (cases reuse) (auto simp: slab_def j_def look_update look_append)
  have notin: "j \<notin> set is" using old rep_node [OF rep, of j] by auto
  define counts' where "counts' = (if ex_layer_cap s = None then ex_layer_counts s
    else hm_insert (fst k) (layer_count (fst k) s + 1) (ex_layer_counts s))"
  define s1 where "s1 = s\<lparr>ex_slab := slab, ex_map := hm_insert k j (ex_map s), ex_layer_counts := counts'\<rparr>"
  have place: "place_node k v reuse s = push_front j s1"
    by (cases reuse) (simp_all add: place_node_def s1_def counts'_def slab_def j_def layer_count_def Let_def)
  have holds: "holds_at slab i = (if i = j then Some (k, v) else holds_at (ex_slab s) i)" for i
    by (simp add: holds_at_def look)
  have "chain (ex_slab s1) (ex_head s1) (ex_tail s1) is"
    using rep notin by (subst chain_cong [of _ _ "ex_slab s"]) (auto simp: s1_def look rep_def)
  moreover have "look (ex_slab s1) j = Some ?n" by (simp add: s1_def look)
  ultimately obtain slab2 h t where pf: "push_front j s1 = Some (s1\<lparr>ex_slab := slab2, ex_head := h, ex_tail := t\<rparr>)"
    "chain slab2 h t (j # is)" "holds_at slab2 = holds_at (ex_slab s1)" using notin push_front_chain by metis
  let ?s' = "s1\<lparr>ex_slab := slab2, ex_head := h, ex_tail := t\<rparr>"
  have holds2: "holds_at slab2 i = (if i = j then Some (k, v) else holds_at (ex_slab s) i)" for i
    using holds by (simp add: pf(3) s1_def)
  have its: "items slab2 is = items (ex_slab s) is"
    using notin by (auto simp: items_def holds2)
  have none: "holds_at (ex_slab s) j = None" using old by (simp add: holds_at_def)
  have "hm_get (hm_insert k j (ex_map s)) k' = Some i \<longleftrightarrow> i \<in> set (j # is) \<and> (\<exists>v. holds_at slab2 i = Some (k', v))" for k' i
  proof (cases "i = j")
    case True
    then show ?thesis using rep_get [OF rep, of k' j] notin by (auto simp: hm_simps holds2)
  next
    case False
    then show ?thesis using rep_get [OF rep, of k' i] new by (auto simp: hm_simps holds2)
  qed
  moreover have "i \<in> set (j # is)" if "holds_at slab2 i \<noteq> None" for i
    using that rep_only [OF rep, of i] by (auto simp: holds2 split: if_splits)
  ultimately have "rep ?s' (j # is)" using pf(2) rep unfolding rep_def by (simp add: s1_def hm_simps del: split_paired_All)
  moreover have "counts_ok ?s' (j # is)"
    using counts by (auto simp: counts_ok_def s1_def layer_count_def counts'_def its holds2 hm_simps)
  ultimately show thesis using that [of ?s' j] place pf(1) its by (simp add: s1_def holds2)
qed

lemma uncount_counts:
  assumes "counts_ok s is" "items (ex_slab s) is = xs @ (k, v) # ys" "items (ex_slab s1) js = xs @ ys"
    and "ex_layer_counts s1 = ex_layer_counts s" "ex_layer_cap s1 = ex_layer_cap s"
  shows "counts_ok (uncount (fst k) s1) js"
proof -
  have "layer_count l s1 = layer_count l s" for l using assms(4) by (simp add: layer_count_def)
  then show ?thesis using assms(1,5) by (auto simp: counts_ok_def layer_count_uncount assms(2,3))
qed

lemma take_sim:
  assumes "simulates s is a"
  shows "\<exists>s' is'. store_take k s = Some (map_of (lr_items a) k, s') \<and> simulates s' is' (a\<lparr>lr_items := hm_remove k (lr_items a)\<rparr>)"
proof -
  from assms have rep: "rep s is" and counts: "counts_ok s is" and its: "lr_items a = items (ex_slab s) is" and shape: "same_shape s a"
    by (simp_all add: simulates_def)
  show ?thesis
  proof (cases "hm_get (ex_map s) k")
    case None
    then have "map_of (lr_items a) k = None" using rep_absent [OF rep] its by simp
    moreover from this have "a\<lparr>lr_items := hm_remove k (lr_items a)\<rparr> = a" by (simp add: hm_remove_absent)
    ultimately show ?thesis using None assms by (auto simp: store_take_def)
  next
    case (Some i)
    from detach [OF rep Some refl, of "hm_remove k (ex_map s)"] obtain slab h t us bs n where
      un: "unlink i (s\<lparr>ex_map := hm_remove k (ex_map s)\<rparr>) =
        Some (s\<lparr>ex_map := hm_remove k (ex_map s), ex_slab := slab, ex_head := h, ex_tail := t\<rparr>)"
      and n: "look slab i = Some n" "nd_key n = k" and v: "map_of (items (ex_slab s) is) k = Some (nd_value n)"
      and rep': "rep (s\<lparr>ex_map := hm_remove k (ex_map s), ex_slab := slab[i := None], ex_head := h, ex_tail := t\<rparr>) (us @ bs)"
      and items': "items (slab[i := None]) (us @ bs) = hm_remove k (items (ex_slab s) is)"
      and split: "items (ex_slab s) is = items (ex_slab s) us @ (k, nd_value n) # items (ex_slab s) bs" by metis
    define s1 where "s1 = s\<lparr>ex_map := hm_remove k (ex_map s), ex_head := h, ex_tail := t, ex_slab := slab[i := None]\<rparr>"
    have take: "store_take k s = Some (Some (nd_value n), uncount (fst k) s1)"
      using Some un n(1) by (simp add: store_take_def node_at_look s1_def)
    have "rep (uncount (fst k) s1) (us @ bs)" using rep' by (simp add: s1_def rep_def)
    moreover have "counts_ok (uncount (fst k) s1) (us @ bs)"
    proof (rule uncount_counts [OF counts split])
      have "items (ex_slab s1) (us @ bs) = hm_remove k (items (ex_slab s) is)" using items' by (simp add: s1_def)
      also have "... = items (ex_slab s) us @ items (ex_slab s) bs" using rep_keys [OF rep] unfolding split by (rule remove_middle)
      finally show "items (ex_slab s1) (us @ bs) = items (ex_slab s) us @ items (ex_slab s) bs" .
    qed (simp_all add: s1_def)
    moreover have "same_shape (uncount (fst k) s1) (a\<lparr>lr_items := hm_remove k (lr_items a)\<rparr>)"
      using shape by (simp add: same_shape_def s1_def)
    ultimately have "simulates (uncount (fst k) s1) (us @ bs) (a\<lparr>lr_items := hm_remove k (lr_items a)\<rparr>)"
      using items' its by (simp add: simulates_def s1_def)
    then show ?thesis using take v its by auto
  qed
qed

lemma evict_sim:
  assumes rep: "rep s is" and counts: "counts_ok s is" and at: "hm_get (ex_map s) k = Some i"
  obtains s' us bs old where "evict_node i s = Some (old, s')" "rep s' (us @ bs)" "counts_ok s' (us @ bs)"
    "map_of (items (ex_slab s) is) k = Some old" "items (ex_slab s') (us @ bs) = hm_remove k (items (ex_slab s) is)"
    "i < length (ex_slab s') \<and> look (ex_slab s') i = None" "ex_map s' = hm_remove k (ex_map s)"
    "ex_cap s' = ex_cap s \<and> ex_layer_cap s' = ex_layer_cap s \<and> ex_hits s' = ex_hits s \<and> ex_misses s' = ex_misses s \<and>
     ex_evictions s' = wrapping_add_u64 (ex_evictions s) 1"
proof -
  have same: "s = s\<lparr>ex_map := ex_map s\<rparr>" by simp
  from detach [OF rep at same] obtain slab h t us bs n where
    un: "unlink i s = Some (s\<lparr>ex_slab := slab, ex_head := h, ex_tail := t\<rparr>)"
    and "is": "is = us @ i # bs"
    and n: "look slab i = Some n" "nd_key n = k" and v: "map_of (items (ex_slab s) is) k = Some (nd_value n)"
    and slot: "look (slab[i := None]) i = None" "i < length (slab[i := None])"
    and rep': "rep (s\<lparr>ex_map := hm_remove k (ex_map s), ex_slab := slab[i := None], ex_head := h, ex_tail := t\<rparr>) (us @ bs)"
    and items': "items (slab[i := None]) (us @ bs) = hm_remove k (items (ex_slab s) is)"
    and split: "items (ex_slab s) is = items (ex_slab s) us @ (k, nd_value n) # items (ex_slab s) bs" by metis
  obtain n0 where n0: "look (ex_slab s) i = Some n0" "nd_key n0 = k"
    using rep_get [OF rep, of k i] at by (auto simp: holds_at_def)
  define s1 where "s1 = s\<lparr>ex_slab := slab, ex_head := h, ex_tail := t, ex_map := hm_remove k (ex_map s),
    ex_slab := slab[i := None], ex_evictions := wrapping_add_u64 (ex_evictions s) 1\<rparr>"
  have ev: "evict_node i s = Some (nd_value n, uncount (fst k) s1)"
    using un n n0 by (simp add: evict_node_def node_at_look s1_def Let_def)
  have "rep (uncount (fst k) s1) (us @ bs)" using rep' by (simp add: s1_def rep_def)
  moreover have "counts_ok (uncount (fst k) s1) (us @ bs)"
  proof (rule uncount_counts [OF counts split])
    have "items (ex_slab s1) (us @ bs) = hm_remove k (items (ex_slab s) is)" using items' by (simp add: s1_def)
    also have "... = items (ex_slab s) us @ items (ex_slab s) bs" using rep_keys [OF rep] unfolding split by (rule remove_middle)
    finally show "items (ex_slab s1) (us @ bs) = items (ex_slab s) us @ items (ex_slab s) bs" .
  qed (simp_all add: s1_def)
  ultimately show thesis using that [OF ev] v items' slot by (simp add: s1_def)
qed

lemma insert_sim:
  assumes "simulates s is a"
  shows "\<exists>e rs s' is'. store_insert k v s = Some (e, rs, s') \<and> fst (lru_step (Insert k v) a) = Inserted e rs \<and>
    simulates s' is' (snd (lru_step (Insert k v) a))"
proof -
  from assms have rep: "rep s is" and counts: "counts_ok s is" and its: "lr_items a = items (ex_slab s) is" and shape: "same_shape s a"
    by (simp_all add: simulates_def)
  show ?thesis
  proof (cases "hm_get (ex_map s) k")
    case (Some i)
    from rep_present [OF rep Some] obtain us bs old where "is": "is = us @ i # bs" and at: "holds_at (ex_slab s) i = Some (k, old)"
      and old: "map_of (items (ex_slab s) is) k = Some old"
      and rem: "hm_remove k (items (ex_slab s) is) = items (ex_slab s) (us @ bs)" .
    obtain n where n: "look (ex_slab s) i = Some n" "nd_key n = k" "nd_value n = old" using at by (auto simp: holds_at_def)
    define slab where "slab = (ex_slab s)[i := Some (n\<lparr>nd_value := v\<rparr>)]"
    have look: "look slab = (look (ex_slab s))(i := Some (n\<lparr>nd_value := v\<rparr>))"
      using look_length [OF n(1)] by (simp add: slab_def look_update)
    have holds: "holds_at slab j = (if j = i then Some (k, v) else holds_at (ex_slab s) j)" for j
      by (simp add: holds_at_def look n(2))
    have links: "linked (look slab) p xs q = linked (look (ex_slab s)) p xs q" for p xs q
      using n(1) by (induction xs arbitrary: p) (auto simp: look)
    have ch: "chain slab (ex_head s) (ex_tail s) is" using rep by (simp add: rep_def chain_def links)
    let ?s = "s\<lparr>ex_slab := slab\<rparr>" and ?its = "items slab is"
    have "hm_get (ex_map s) k' = Some j \<longleftrightarrow> j \<in> set is \<and> (\<exists>v. holds_at slab j = Some (k', v))" for k' j
      using rep_get [OF rep, of k' j] at by (auto simp: holds)
    moreover have "j \<in> set is" if "holds_at slab j \<noteq> None" for j
      using that rep_only [OF rep, of j] by (auto simp: holds "is" split: if_splits)
    ultimately have "rep ?s is" using ch rep unfolding rep_def by (simp del: split_paired_All split_paired_Ex)
    moreover have ni: "i \<notin> set (us @ bs)" using rep "is" by (auto simp: rep_def chain_def)
    then have keep: "items slab us = items (ex_slab s) us" "items slab bs = items (ex_slab s) bs" by (auto simp: items_def holds)
    have "counts_ok ?s is" using counts at by (auto simp: counts_ok_def layer_count_def "is" keep holds)
    moreover have "same_shape ?s (a\<lparr>lr_items := ?its\<rparr>)" using shape by (simp add: same_shape_def)
    ultimately have "simulates ?s is (a\<lparr>lr_items := ?its\<rparr>)" by (simp add: simulates_def)
    moreover have "hm_get (ex_map ?s) k = Some i" using Some by simp
    ultimately obtain s' is' v' where p: "promote i ?s = Some s'" "simulates s' is' (lru_touch k v' (a\<lparr>lr_items := ?its\<rparr>))"
      "map_of ?its k = Some v'" by (rule promote_sim) auto
    have "hm_remove k ?its = hm_remove k (lr_items a)"
    proof -
      have "hm_remove k ?its = hm_remove k (items slab us) @ hm_remove k (items slab bs)" by (simp add: "is" holds remove_append)
      moreover have "hm_remove k (items (ex_slab s) is) = hm_remove k (items (ex_slab s) us) @ hm_remove k (items (ex_slab s) bs)"
        using at by (simp add: "is" remove_append)
      ultimately show ?thesis by (simp add: its keep)
    qed
    moreover have "v' = v"
    proof -
      have "map_of (items slab us) k = None"
        using rep_keys [OF rep] at unfolding "is" by (auto simp: keep map_of_eq_None_iff)
      then show ?thesis using p(3) by (simp add: "is" holds map_add_def)
    qed
    ultimately have "lru_touch k v' (a\<lparr>lr_items := ?its\<rparr>) = lru_touch k v a" by (simp add: lru_touch_def)
    then show ?thesis using Some n p(1,2) old its by (auto simp: store_insert_def node_at_look slab_def)
  next
    case None
    then have absent: "map_of (lr_items a) k = None" using rep_absent [OF rep] its by simp
    define s1 where "s1 = s\<lparr>ex_misses := wrapping_add_u64 (ex_misses s) 1\<rparr>"
    have rep1: "rep s1 is" and counts1: "counts_ok s1 is" and none1: "hm_get (ex_map s1) k = None"
      using rep counts None by (simp_all add: s1_def rep_def counts_ok_def layer_count_def)
    have fv: "find_victim (fst k) s1 = Some (Option.bind (lru_victim (fst k) a) (hm_get (ex_map s)))"
      unfolding s1_def by (rule find_victim_sim [OF assms])
    show ?thesis
    proof (cases "lru_victim (fst k) a")
      case None
      from place_sim [OF rep1 counts1 none1, of None] obtain s' j where
        "place_node k v None s1 = Some s'" "rep s' (j # is)" "counts_ok s' (j # is)"
        "items (ex_slab s') (j # is) = (k, v) # items (ex_slab s1) is"
        "ex_cap s' = ex_cap s1 \<and> ex_layer_cap s' = ex_layer_cap s1 \<and> ex_hits s' = ex_hits s1 \<and> ex_misses s' = ex_misses s1 \<and>
         ex_evictions s' = ex_evictions s1" by auto
      moreover from this have "simulates s' (j # is) (snd (lru_step (Insert k v) a))"
        using None absent shape its by (simp add: simulates_def same_shape_def s1_def Let_def)
      ultimately show ?thesis using None absent \<open>hm_get (ex_map s) k = None\<close> fv by (auto simp: store_insert_def Let_def s1_def)
    next
      case (Some x)
      from find_victim_sim(2) [OF assms Some] obtain i where i: "hm_get (ex_map s1) x = Some i" by (auto simp: s1_def)
      from evict_sim [OF rep1 counts1 i] obtain s2 us bs old where ev: "evict_node i s1 = Some (old, s2)"
        and rep2: "rep s2 (us @ bs)" and counts2: "counts_ok s2 (us @ bs)" and old: "map_of (items (ex_slab s1) is) x = Some old"
        and items2: "items (ex_slab s2) (us @ bs) = hm_remove x (items (ex_slab s1) is)"
        and slot: "i < length (ex_slab s2) \<and> look (ex_slab s2) i = None" and map2: "ex_map s2 = hm_remove x (ex_map s1)"
        and f2: "ex_cap s2 = ex_cap s1 \<and> ex_layer_cap s2 = ex_layer_cap s1 \<and> ex_hits s2 = ex_hits s1 \<and> ex_misses s2 = ex_misses s1 \<and>
          ex_evictions s2 = wrapping_add_u64 (ex_evictions s1) 1" .
      have none2: "hm_get (ex_map s2) k = None" using none1 by (simp add: map2 hm_simps)
      from place_sim [OF rep2 counts2 none2, of "Some i"] slot obtain s' j where
        pl: "place_node k v (Some i) s2 = Some s'" "rep s' (j # us @ bs)" "counts_ok s' (j # us @ bs)"
        "items (ex_slab s') (j # us @ bs) = (k, v) # items (ex_slab s2) (us @ bs)"
        "ex_cap s' = ex_cap s2 \<and> ex_layer_cap s' = ex_layer_cap s2 \<and> ex_hits s' = ex_hits s2 \<and> ex_misses s' = ex_misses s2 \<and>
         ex_evictions s' = ex_evictions s2" by auto
      then have "simulates s' (j # us @ bs) (snd (lru_step (Insert k v) a))"
        using Some absent shape its f2 items2 by (simp add: simulates_def same_shape_def s1_def Let_def)
      moreover have "store_insert k v s = Some (Some old, [], s')"
        using \<open>hm_get (ex_map s) k = None\<close> fv Some i ev pl(1) by (simp add: store_insert_def Let_def s1_def)
      moreover have "fst (lru_step (Insert k v) a) = Inserted (Some old) []"
        using Some absent old its by (simp add: Let_def s1_def)
      ultimately show ?thesis by blast
    qed
  qed
qed

lemma simulates_hits: "simulates s is a \<Longrightarrow> simulates (s\<lparr>ex_hits := h\<rparr>) is (a\<lparr>lr_hits := h\<rparr>)"
  by (simp add: simulates_def rep_def counts_ok_def layer_count_def same_shape_def)

lemma store_step_sim:
  assumes "simulates s is a"
  shows "\<exists>s' is'. store_step x s = Some (fst (lru_step x a), s') \<and> simulates s' is' (snd (lru_step x a))"
proof -
  from assms have rep: "rep s is" and its: "lr_items a = items (ex_slab s) is" and shape: "same_shape s a"
    by (simp_all add: simulates_def)
  have absent: "map_of (lr_items a) k = None" if "hm_get (ex_map s) k = None" for k
    using rep_absent [OF rep] its that by simp
  show ?thesis
  proof (cases x)
    case (Get k)
    show ?thesis
    proof (cases "hm_get (ex_map s) k")
      case None
      then show ?thesis using absent [OF None] Get assms by (auto simp: store_get_def)
    next
      case (Some i)
      let ?h = "wrapping_add_u64 (ex_hits s) 1"
      have "hm_get (ex_map (s\<lparr>ex_hits := ?h\<rparr>)) k = Some i" using Some by simp
      from promote_sim [OF simulates_hits [OF assms] this] obtain s' is' v where
        p: "promote i (s\<lparr>ex_hits := ?h\<rparr>) = Some s'" "simulates s' is' (lru_touch k v (a\<lparr>lr_hits := ?h\<rparr>))"
        "map_of (lr_items (a\<lparr>lr_hits := ?h\<rparr>)) k = Some v" "holds_at (ex_slab s') i = Some (k, v)" by metis
      have "store_get k s = Some (Some v, s')"
        using Some p(1,4) by (auto simp: store_get_def node_at_look holds_at_def)
      moreover have "lru_touch k v (a\<lparr>lr_hits := ?h\<rparr>) = (lru_touch k v a)\<lparr>lr_hits := ?h\<rparr>" by (simp add: lru_touch_def)
      moreover have "lr_hits a = ex_hits s" using shape by (simp add: same_shape_def)
      ultimately show ?thesis using p(2,3) Get by auto
    qed
  next
    case (Peek k)
    show ?thesis
    proof (cases "hm_get (ex_map s) k")
      case None
      then show ?thesis using absent [OF None] Peek assms by (auto simp: store_peek_def)
    next
      case (Some i)
      from rep_present [OF rep Some] obtain v where "holds_at (ex_slab s) i = Some (k, v)" "map_of (items (ex_slab s) is) k = Some v"
        by metis
      then show ?thesis using Some Peek assms its by (auto simp: store_peek_def node_at_look holds_at_def)
    qed
  next
    case (Promote k)
    show ?thesis
    proof (cases "hm_get (ex_map s) k")
      case None
      then show ?thesis using absent [OF None] Promote assms by (auto simp: promote_if_present_def)
    next
      case (Some i)
      from promote_sim [OF assms Some] obtain s' is' v where
        "promote i s = Some s'" "simulates s' is' (lru_touch k v a)" "map_of (lr_items a) k = Some v" by metis
      then show ?thesis using Promote Some by (auto simp: promote_if_present_def)
    qed
  next
    case (Take k)
    then show ?thesis using take_sim [OF assms, of k] by auto
  next
    case (Insert k v)
    then show ?thesis using insert_sim [OF assms, of k v] by (auto simp del: lru_step.simps)
  qed
qed

lemma store_run_sim:
  "simulates s is a \<Longrightarrow> \<exists>s' is'. store_run xs s = Some (fst (lru_run xs a), s') \<and> simulates s' is' (snd (lru_run xs a))"
proof (induction xs arbitrary: s "is" a)
  case (Cons x xs)
  from store_step_sim [OF Cons.prems, of x] obtain s1 is1 where
    "store_step x s = Some (fst (lru_step x a), s1)" "simulates s1 is1 (snd (lru_step x a))" by blast
  with Cons.IH [OF this(2)] show ?case by (auto simp: Let_def split_beta simp del: lru_step.simps store_step.simps)
qed auto

definition new_lru :: "nat \<Rightarrow> 'v lru" where
  "new_lru cap = \<lparr>lr_items = [], lr_cap = max cap 1, lr_layer_cap = None, lr_hits = 0, lr_misses = 0, lr_evictions = 0\<rparr>"

definition new_layered_lru :: "nat \<Rightarrow> nat \<Rightarrow> 'v lru" where
  "new_layered_lru layers c =
     \<lparr>lr_items = [], lr_cap = min (max layers 1 * max c 1) usize_max, lr_layer_cap = Some (max c 1), lr_hits = 0, lr_misses = 0,
      lr_evictions = 0\<rparr>"

lemma simulates_new:
  "simulates (new_store cap) [] (new_lru cap)" "simulates (new_layered layers c) [] (new_layered_lru layers c)"
  by (simp_all add: simulates_def rep_def counts_ok_def same_shape_def new_store_def new_lru_def new_layered_def new_layered_lru_def
      chain_def holds_at_def look_def layer_count_def saturating_mul_usize_def usize_max_def Suc_le_eq max_def)

text \<open>What a client can observe of a store.\<close>

definition observed :: "'v expert_store \<Rightarrow> 'v lru \<Rightarrow> bool" where
  "observed s a \<longleftrightarrow> store_len s = length (lr_items a) \<and> (\<forall>k. store_peek k s = Some (map_of (lr_items a) k)) \<and>
     ex_hits s = lr_hits a \<and> ex_misses s = lr_misses a \<and> ex_evictions s = lr_evictions a \<and>
     mset (store_drop s) = mset (map snd (lr_items a))"

lemma drop_items:
  assumes "rep s is"
  shows "mset (store_drop s) = mset (map snd (items (ex_slab s) is))"
proof -
  let ?slab = "ex_slab s" and ?val = "\<lambda>i. nd_value (the (look (ex_slab s) i))"
  have filt: "map nd_value (List.map_filter id xs) = map (\<lambda>i. nd_value (the (xs ! i))) (filter (\<lambda>i. xs ! i \<noteq> None) [0..<length xs])"
    for xs :: "'a expert_node option list"
  proof (induction xs rule: rev_induct)
    case (snoc x xs)
    have "filter (\<lambda>i. (xs @ [x]) ! i \<noteq> None) [0..<length xs] = filter (\<lambda>i. xs ! i \<noteq> None) [0..<length xs]"
      by (intro filter_cong) (auto simp: nth_append)
    then show ?case using snoc by (cases x) (simp_all add: List.map_filter_def nth_append)
  qed (simp add: List.map_filter_def)
  let ?live = "filter (\<lambda>i. ?slab ! i \<noteq> None) [0..<length ?slab]"
  have "set ?live = set is"
  proof (intro equalityI subsetI)
    fix i assume "i \<in> set ?live"
    then show "i \<in> set is" using rep_only [OF assms, of i] by (auto simp: holds_at_def look_def)
  next
    fix i assume "i \<in> set is"
    with rep_node [OF assms this] show "i \<in> set ?live" by (auto simp: look_def split: if_splits)
  qed
  moreover have "distinct is" using assms by (simp add: rep_def chain_def)
  ultimately have "mset ?live = mset is" by (metis distinct_filter distinct_upt set_eq_iff_mset_eq_distinct)
  moreover have "store_drop s = map ?val ?live"
    unfolding store_drop_def filt by (intro map_cong) (auto simp: look_def)
  moreover have "map snd (items ?slab is) = map ?val is"
    using rep_node [OF assms] by (fastforce simp: items_def holds_at_def)
  ultimately show ?thesis by (metis mset_map)
qed

lemma simulates_observed: "simulates s is a \<Longrightarrow> observed s a"
proof -
  assume sim: "simulates s is a"
  then have rep: "rep s is" and its: "lr_items a = items (ex_slab s) is" by (simp_all add: simulates_def)
  have "store_peek k s = Some (map_of (lr_items a) k)" for k
    using store_step_sim [OF sim, of "Peek k"] by auto
  then show ?thesis using sim rep_length [OF rep] its drop_items [OF rep]
    by (simp add: observed_def simulates_def same_shape_def store_len_def items_def)
qed

definition behaves_as :: "'v store_op list \<Rightarrow> 'v expert_store \<Rightarrow> 'v lru \<Rightarrow> bool" where
  "behaves_as ops s a \<longleftrightarrow>
     (case store_run ops s of
        None \<Rightarrow> False
      | Some (outs, s') \<Rightarrow> outs = fst (lru_run ops a) \<and> observed s' (snd (lru_run ops a)))"

text \<open>
  C39: The expert store is an LRU cache.  Whatever operations run on a new store, with or
  without a capacity per layer, no index dangles and every loop ends; every answer is that of
  a list of entries kept in order of use, whose least recently used one (of the full layer, if
  layers have a capacity) makes room for a new one; and the lengths, the entries, the counters
  and what dropping the store releases are those of that list.
\<close>

theorem expert_store_refines_lru:
  "behaves_as ops (new_store cap) (new_lru cap) \<and> behaves_as ops (new_layered layers c) (new_layered_lru layers c)"
  using store_run_sim [OF simulates_new(1), of ops cap] store_run_sim [OF simulates_new(2), of ops layers c] simulates_observed
  by (fastforce simp: behaves_as_def)

section \<open>Capacity and ownership\<close>

definition lru_ok :: "'v lru \<Rightarrow> bool" where
  "lru_ok a \<longleftrightarrow> distinct (map fst (lr_items a)) \<and> length (lr_items a) \<le> lr_cap a \<and> 1 \<le> lr_cap a \<and>
     (\<forall>c. lr_layer_cap a = Some c \<longrightarrow> 1 \<le> c \<and> (\<forall>l. length (in_layer l (lr_items a)) \<le> c))"

lemma split_entry:
  assumes "distinct (map fst xs)" "map_of xs k = Some v"
  obtains us bs where "xs = us @ (k, v) # bs" "hm_remove k xs = us @ bs" "k \<notin> fst ` set us" "k \<notin> fst ` set bs"
proof -
  from map_of_SomeD [OF assms(2)] obtain us bs where xs: "xs = us @ (k, v) # bs" by (meson split_list)
  moreover have "hm_remove k xs = us @ bs" using assms(1) unfolding xs by (rule remove_middle)
  moreover have "k \<notin> fst ` set us" "k \<notin> fst ` set bs" using assms(1) unfolding xs by auto
  ultimately show thesis using that by blast
qed

lemma lru_touch_ok:
  assumes "lru_ok a" "map_of (lr_items a) k = Some v"
  shows "lru_ok (lru_touch k w a)"
proof -
  from assms obtain us bs where "lr_items a = us @ (k, v) # bs" "hm_remove k (lr_items a) = us @ bs" "k \<notin> fst ` set us" "k \<notin> fst ` set bs"
    by (auto simp: lru_ok_def elim: split_entry)
  with assms(1) show ?thesis by (auto simp: lru_ok_def lru_touch_def split: if_splits)
qed

lemma in_layer_remove_le: "length (in_layer l (hm_remove k xs)) \<le> length (in_layer l xs)"
  by (induction xs) auto

lemma lru_take_ok: "lru_ok a \<Longrightarrow> lru_ok (a\<lparr>lr_items := hm_remove k (lr_items a)\<rparr>)"
  using in_layer_remove_le [of _ k "lr_items a"] AList.length_delete_le [of k "lr_items a"]
  by (auto simp: lru_ok_def distinct_delete intro: le_trans)

lemma victim_frees:
  assumes "lru_ok a" "lru_victim l a = Some x"
  obtains us bs old where "lr_items a = us @ (x, old) # bs" "hm_remove x (lr_items a) = us @ bs" "map_of (lr_items a) x = Some old"
    "\<And>c. lr_layer_cap a = Some c \<Longrightarrow> length (in_layer l (us @ bs)) < c"
proof -
  have dist: "distinct (map fst (lr_items a))" using assms(1) by (simp add: lru_ok_def)
  have "x \<in> fst ` set (lr_items a)"
  proof -
    have "x \<in> fst ` set (in_layer l (lr_items a)) \<or> x \<in> fst ` set (lr_items a)"
      using assms(2) by (auto simp: lru_victim_def Let_def dest!: oldest_member split: option.splits if_splits)
    then show ?thesis by (auto simp: in_layer_def)
  qed
  then obtain old where old: "map_of (lr_items a) x = Some old" by (auto dest: weak_map_of_SomeI)
  from split_entry [OF dist old] obtain us bs where s: "lr_items a = us @ (x, old) # bs" "hm_remove x (lr_items a) = us @ bs" by metis
  have "length (in_layer l (us @ bs)) < c" if c: "lr_layer_cap a = Some c" for c
  proof (cases "c \<le> length (in_layer l (lr_items a))")
    case True
    then have "oldest (in_layer l (lr_items a)) = Some x" using assms(2) c by (simp add: lru_victim_def Let_def)
    then have "x \<in> fst ` set (in_layer l (lr_items a))" by (rule oldest_member)
    then have "fst x = l" by (auto simp: in_layer_def)
    then have "length (in_layer l (lr_items a)) = Suc (length (in_layer l (us @ bs)))" by (simp add: s(1))
    moreover have "length (in_layer l (lr_items a)) \<le> c" using assms(1) c by (simp add: lru_ok_def)
    ultimately show ?thesis by simp
  next
    case False
    moreover have "length (in_layer l (us @ bs)) \<le> length (in_layer l (lr_items a))" by (simp add: s(1))
    ultimately show ?thesis by simp
  qed
  with that s old show thesis by blast
qed

lemma no_victim_room:
  assumes "lru_ok a" "lru_victim l a = None"
  shows "length (lr_items a) < lr_cap a" "lr_layer_cap a = Some c \<Longrightarrow> length (in_layer l (lr_items a)) < c"
proof -
  have some: "oldest xs \<noteq> None" if "xs \<noteq> []" for xs :: "(expert_key \<times> 'a) list" using that by (simp add: oldest_def)
  have layer: "length (in_layer l (lr_items a)) < c" if "lr_layer_cap a = Some c" for c
  proof (rule ccontr)
    assume "\<not> ?thesis"
    moreover have "1 \<le> c" using assms(1) that by (simp add: lru_ok_def)
    ultimately have "in_layer l (lr_items a) \<noteq> []" by auto
    from some [OF this] assms(2) that \<open>\<not> ?thesis\<close> show False by (auto simp: lru_victim_def Let_def)
  qed
  then show "lr_layer_cap a = Some c \<Longrightarrow> length (in_layer l (lr_items a)) < c" .
  show "length (lr_items a) < lr_cap a"
  proof (rule ccontr)
    assume full: "\<not> ?thesis"
    then have "lr_items a \<noteq> []" using assms(1) by (auto simp: lru_ok_def)
    from some [OF this] full assms(2) layer show False
      by (fastforce simp: lru_victim_def Let_def split: option.splits if_splits)
  qed
qed

lemma lru_cons_ok:
  assumes "lru_ok a" "distinct (map fst xs)" "k \<notin> fst ` set xs" "length xs < lr_cap a"
    and "\<And>c. lr_layer_cap a = Some c \<Longrightarrow> length (in_layer (fst k) xs) < c"
    and "\<And>l. length (in_layer l xs) \<le> length (in_layer l (lr_items a))"
    and "lr_items a' = (k, v) # xs" "lr_cap a' = lr_cap a" "lr_layer_cap a' = lr_layer_cap a"
  shows "lru_ok a'"
proof -
  have "length (in_layer l (lr_items a')) \<le> c" if "lr_layer_cap a = Some c" for l c
  proof (cases "l = fst k")
    case True
    with assms(5) [OF that] show ?thesis by (simp add: assms(7))
  next
    case False
    moreover have "length (in_layer l (lr_items a)) \<le> c" using assms(1) that by (simp add: lru_ok_def)
    ultimately show ?thesis using assms(6) [of l] by (simp add: assms(7))
  qed
  then show ?thesis using assms(1-4,7-9) by (simp add: lru_ok_def)
qed

lemma lru_step_ok: "lru_ok a \<Longrightarrow> lru_ok (snd (lru_step x a))"
proof (cases x)
  case (Insert k v)
  assume ok: "lru_ok a"
  show ?thesis
  proof (cases "map_of (lr_items a) k")
    case None
    then have fresh: "k \<notin> fst ` set (lr_items a)" by (simp add: map_of_eq_None_iff)
    show ?thesis
    proof (cases "lru_victim (fst k) a")
      case victim: None
      have "snd (lru_step x a) = a\<lparr>lr_misses := wrapping_add_u64 (lr_misses a) 1, lr_items := (k, v) # lr_items a\<rparr>"
        by (simp add: Insert Let_def None victim)
      moreover have "distinct (map fst (lr_items a))" using ok by (simp add: lru_ok_def)
      ultimately show ?thesis using no_victim_room [OF ok victim] fresh
        by (intro lru_cons_ok [OF ok, of "lr_items a" k _ v]) simp_all
    next
      case (Some y)
      from victim_frees [OF ok Some] obtain us bs old where y: "lr_items a = us @ (y, old) # bs" "hm_remove y (lr_items a) = us @ bs"
        "map_of (lr_items a) y = Some old" "\<And>c. lr_layer_cap a = Some c \<Longrightarrow> length (in_layer (fst k) (us @ bs)) < c" by metis
      have "distinct (map fst (us @ bs))" "length (us @ bs) < lr_cap a" using ok by (auto simp: lru_ok_def y(1))
      moreover have "k \<notin> fst ` set (us @ bs)" using fresh by (auto simp: y(1))
      moreover have "length (in_layer l (us @ bs)) \<le> length (in_layer l (lr_items a))" for l by (simp add: y(1))
      moreover have "snd (lru_step x a) = a\<lparr>lr_misses := wrapping_add_u64 (lr_misses a) 1, lr_items := (k, v) # us @ bs,
          lr_evictions := wrapping_add_u64 (lr_evictions a) 1\<rparr>"
        by (simp add: Insert Let_def None Some y(2))
      ultimately show ?thesis using y(4) by (intro lru_cons_ok [OF ok, of "us @ bs" k _ v]) simp_all
    qed
  next
    case (Some old)
    then show ?thesis using lru_touch_ok [OF ok Some] by (simp add: Insert)
  qed
next
  case (Get k)
  assume ok: "lru_ok a"
  have "lru_ok (a\<lparr>lr_hits := h\<rparr>)" if "lru_ok a" for h and a :: "'a lru" using that by (simp add: lru_ok_def)
  then show ?thesis using ok lru_touch_ok [OF ok] by (simp add: Get split: option.split)
qed (auto simp: lru_take_ok lru_touch_ok split: option.split)

text \<open>What goes in and what comes out.\<close>

fun op_values :: "'v store_op \<Rightarrow> 'v multiset" where
  "op_values (Insert k v) = {#v#}"
| "op_values _ = {#}"

fun out_values :: "'v store_out \<Rightarrow> 'v multiset" where
  "out_values (Taken r) = (case r of None \<Rightarrow> {#} | Some v \<Rightarrow> {#v#})"
| "out_values (Inserted e rs) = (case e of None \<Rightarrow> {#} | Some v \<Rightarrow> {#v#}) + mset rs"
| "out_values _ = {#}"

lemma mset_remove:
  assumes "distinct (map fst xs)" "map_of xs k = Some v"
  shows "image_mset snd (mset xs) = add_mset v (image_mset snd (mset (hm_remove k xs)))"
  using assms by (rule split_entry) simp

lemma lru_step_conserves:
  assumes "lru_ok a"
  shows "mset (map snd (lr_items a)) + op_values x = mset (map snd (lr_items (snd (lru_step x a)))) + out_values (fst (lru_step x a))"
proof -
  from assms have dist: "distinct (map fst (lr_items a))" by (simp add: lru_ok_def)
  note out = mset_remove [OF dist]
  show ?thesis
  proof (cases x)
    case (Take k)
    then show ?thesis by (cases "map_of (lr_items a) k") (simp_all add: hm_remove_absent out)
  next
    case (Insert k v)
    show ?thesis
    proof (cases "map_of (lr_items a) k")
      case None
      show ?thesis
      proof (cases "lru_victim (fst k) a")
        case (Some y)
        from victim_frees [OF assms Some] obtain old where "map_of (lr_items a) y = Some old" by metis
        then show ?thesis using None Some by (simp add: Insert Let_def out)
      qed (simp add: Insert Let_def None)
    qed (simp add: Insert lru_touch_def out)
  qed (auto simp: lru_touch_def out split: option.split)
qed

lemma lru_run_conserves:
  "lru_ok a \<Longrightarrow> lru_ok (snd (lru_run ops a)) \<and> mset (map snd (lr_items a)) + sum_list (map op_values ops) =
     mset (map snd (lr_items (snd (lru_run ops a)))) + sum_list (map out_values (fst (lru_run ops a)))"
proof (induction ops arbitrary: a)
  case (Cons x xs)
  let ?a = "snd (lru_step x a)"
  from Cons.IH [OF lru_step_ok [OF Cons.prems, of x]] have IH: "lru_ok (snd (lru_run xs ?a))"
    "mset (map snd (lr_items ?a)) + sum_list (map op_values xs) =
       mset (map snd (lr_items (snd (lru_run xs ?a)))) + sum_list (map out_values (fst (lru_run xs ?a)))" by blast+
  have "lru_run (x # xs) a = (fst (lru_step x a) # fst (lru_run xs ?a), snd (lru_run xs ?a))" by (simp add: Let_def split_beta)
  moreover have "mset (map snd (lr_items a)) + (op_values x + sum_list (map op_values xs)) =
      mset (map snd (lr_items (snd (lru_run xs ?a)))) + (out_values (fst (lru_step x a)) + sum_list (map out_values (fst (lru_run xs ?a))))"
    (is "?in + (?o + ?os) = ?end + (?r + ?rs)")
  proof -
    have "?in + (?o + ?os) = (?in + ?o) + ?os" by (simp only: add.assoc)
    also have "... = (mset (map snd (lr_items ?a)) + ?os) + ?r"
      by (simp only: lru_step_conserves [OF Cons.prems] add.assoc add.commute [of ?os])
    also have "... = ?end + (?r + ?rs)" by (simp only: IH(2) add.assoc add.commute [of ?r])
    finally show ?thesis .
  qed
  ultimately show ?case using IH(1) by simp
qed simp

definition layer_len :: "nat \<Rightarrow> 'v expert_store \<Rightarrow> nat" where
  "layer_len layer s = length (filter (\<lambda>(k, _). fst k = layer) (ex_map s))"

lemma size_filter_keys: "size (filter_mset (\<lambda>k. fst k = l) (mset (map fst xs))) = length (filter (\<lambda>(k, _). fst k = l) xs)"
  by (induction xs) auto

lemma layer_len_items:
  assumes "rep s is"
  shows "layer_len l s = length (in_layer l (items (ex_slab s) is))"
proof -
  have "set (map fst (ex_map s)) = set (map fst (items (ex_slab s) is))"
  proof -
    have "k \<in> fst ` set (ex_map s) \<longleftrightarrow> k \<in> fst ` set (items (ex_slab s) is)" for k
      using rep_absent [OF assms, of k] by (metis map_of_eq_None_iff)
    then show ?thesis by (simp add: set_eq_iff del: split_paired_All)
  qed
  moreover have "distinct (map fst (ex_map s))" using assms by (simp add: rep_def)
  ultimately have "mset (map fst (ex_map s)) = mset (map fst (items (ex_slab s) is))"
    using rep_keys [OF assms] by (metis set_eq_iff_mset_eq_distinct)
  then have "size (filter_mset (\<lambda>k. fst k = l) (mset (map fst (ex_map s)))) =
      size (filter_mset (\<lambda>k. fst k = l) (mset (map fst (items (ex_slab s) is))))" by simp
  then show ?thesis unfolding size_filter_keys by (simp add: layer_len_def in_layer_def)
qed

text \<open>The slots of a run: within the capacities, and every one that came in is inside or was handed out.\<close>

definition well_kept :: "'v store_op list \<Rightarrow> 'v expert_store \<Rightarrow> bool" where
  "well_kept ops s0 \<longleftrightarrow>
     (case store_run ops s0 of
        None \<Rightarrow> False
      | Some (outs, s) \<Rightarrow>
          store_len s \<le> capacity s0 \<and>
          (case per_layer_capacity s0 of None \<Rightarrow> True | Some c \<Rightarrow> \<forall>l. layer_len l s \<le> c) \<and>
          sum_list (map op_values ops) = mset (store_drop s) + sum_list (map out_values outs))"

lemma lru_run_caps: "lr_cap (snd (lru_run ops a)) = lr_cap a \<and> lr_layer_cap (snd (lru_run ops a)) = lr_layer_cap a"
proof (induction ops arbitrary: a)
  case (Cons x xs)
  have "lr_cap (snd (lru_step x a)) = lr_cap a \<and> lr_layer_cap (snd (lru_step x a)) = lr_layer_cap a"
    by (cases x) (auto simp: lru_touch_def Let_def split: option.split)
  with Cons show ?case by (simp add: Let_def split_beta)
qed simp

lemma run_well_kept:
  assumes "simulates s [] a" "lr_items a = []"
  shows "well_kept ops s"
proof -
  from store_run_sim [OF assms(1), of ops] obtain s' js where
    run: "store_run ops s = Some (fst (lru_run ops a), s')" "simulates s' js (snd (lru_run ops a))" by blast
  let ?a = "snd (lru_run ops a)"
  have shape: "same_shape s a" using assms(1) by (simp add: simulates_def)
  then have "lru_ok a" using assms(2) by (auto simp: lru_ok_def same_shape_def)
  from lru_run_conserves [OF this, of ops] have ok: "lru_ok ?a"
    and sum: "sum_list (map op_values ops) = mset (map snd (lr_items ?a)) + sum_list (map out_values (fst (lru_run ops a)))"
    by (simp_all add: assms(2))
  from run(2) have rep: "rep s' js" and its: "lr_items ?a = items (ex_slab s') js" and "observed s' ?a"
    by (simp_all add: simulates_def simulates_observed [OF run(2)])
  then have "store_len s' = length (lr_items ?a)" "mset (store_drop s') = mset (map snd (lr_items ?a))" by (simp_all add: observed_def)
  then show ?thesis using run(1) ok sum shape layer_len_items [OF rep] lru_run_caps [of ops a] its
    by (auto simp: well_kept_def lru_ok_def same_shape_def capacity_def per_layer_capacity_def split: option.split)
qed

text \<open>
  C40: Slots are neither lost nor given twice.  After any operations on a new store, of either
  kind, it holds at most its capacity, and of each layer at most the capacity per layer; and
  every value that was inserted is either still resident, to be released when the store is
  dropped, or was evicted, replaced or taken exactly once.
\<close>

theorem expert_slots_conserved: "well_kept ops (new_store cap) \<and> well_kept ops (new_layered layers c)"
  by (intro conjI run_well_kept [OF simulates_new(1)] run_well_kept [OF simulates_new(2)]) (simp_all add: new_lru_def new_layered_lru_def)

text \<open>
  A hole that \<^verbatim>\<open>take\<close> leaves in the slab is never used again: inserting and taking one entry
  over and over makes the slab grow by one node each time, although the store stays empty.
\<close>

definition hollow :: "nat \<Rightarrow> 'v expert_store \<Rightarrow> bool" where
  "hollow n s \<longleftrightarrow> ex_map s = [] \<and> ex_slab s = replicate n None \<and> ex_head s = None \<and> ex_tail s = None \<and> ex_layer_cap s = None \<and> 1 \<le> ex_cap s"

lemma hollow_round:
  assumes "hollow n s"
  shows "\<exists>outs s'. store_run [Insert k v, Take k] s = Some (outs, s') \<and> hollow (Suc n) s'"
  using assms
  by (auto simp: hollow_def store_insert_def find_victim_def place_node_def push_front_def change_node_def node_at_def store_take_def
      unlink_def uncount_def Let_def nth_append list_update_append replicate_append_same)

lemma store_run_append:
  "store_run (xs @ ys) s = Option.bind (store_run xs s) (\<lambda>(outs, s1). map_option (\<lambda>(outs', s2). (outs @ outs', s2)) (store_run ys s1))"
proof (induction xs arbitrary: s)
  case Nil
  then show ?case by (cases "store_run ys s") auto
next
  case (Cons x xs)
  show ?case
  proof (cases "store_step x s")
    case (Some p)
    then obtain out s1 where step: "store_step x s = Some (out, s1)" by (cases p) auto
    show ?thesis
    proof (cases "store_run xs s1")
      case None
      then show ?thesis by (simp add: step Cons.IH)
    next
      case (Some q)
      then show ?thesis by (cases q; cases "store_run ys (snd q)") (auto simp: step Cons.IH)
    qed
  qed simp
qed

lemma take_leaks_slab:
  "\<exists>outs s. store_run (concat (replicate n [Insert k v, Take k])) (new_store cap) = Some (outs, s) \<and> store_len s = 0 \<and> length (ex_slab s) = n"
proof -
  have "\<exists>outs s'. store_run (concat (replicate n [Insert k v, Take k])) s = Some (outs, s') \<and> hollow (m + n) s'" if "hollow m s" for m and s :: "'a expert_store"
    using that
  proof (induction n arbitrary: m s)
    case (Suc n)
    from hollow_round [OF Suc.prems] obtain outs s1 where "store_run [Insert k v, Take k] s = Some (outs, s1)" "hollow (Suc m) s1" by blast
    with Suc.IH [OF this(2)] show ?case
      using store_run_append [of "[Insert k v, Take k]" "concat (replicate n [Insert k v, Take k])" s]
      by (fastforce simp del: store_run.simps)
  qed auto
  from this [of 0 "new_store cap"] show ?thesis by (fastforce simp: hollow_def new_store_def store_len_def)
qed

end
