(* ===== verification/Spec2Isabelle.thy ===== *)
theory Spec2Isabelle
  imports Sched_Props Residency_Props Transactions Prefix_Runtime Accel Executor Ir_Tiered_Props Ir_Plan Artifact_Props Coli_Codecs_Props Coli_Package_Props Expert_Store_Props
begin

text \<open>
  \<^bold>\<open>A verification of the core of Logan\<close> (\<^verbatim>\<open>src/logan-core\<close>): the scheduler with its
  executors and its runtime thread, the residency manager, the causal-state
  snapshots and transactions, the prefix cache and the expert store; of the entropy coder of its
  compiler (\<^verbatim>\<open>src/logan-compiler/src/codec/rans256.rs\<close>) and its decoder in the
  runtime (\<^verbatim>\<open>src/logan-format/src/codecs.rs\<close>); of the planner (\<^verbatim>\<open>src/logan-ir\<close>) that decides
  how a model is stored and where it runs; and of the framing of the artifact that holds
  it (\<^verbatim>\<open>src/logan-artifact\<close>).

  \<^bold>\<open>The program.\<close>  Logan runs language models whose experts do not fit into fast
  memory.  A \<^emph>\<open>scheduler core\<close> (\<^verbatim>\<open>sched/core.rs\<close>) owns sessions and tickets; it does no
  work itself and returns effects.  A \<^emph>\<open>runtime\<close> thread (\<^verbatim>\<open>sched/runtime.rs\<close>) owns the
  core, reads commands from a bounded channel, hands requests to three executor
  lanes and keeps what a full lane refuses.  The \<^emph>\<open>CPU executor\<close>
  (\<^verbatim>\<open>sched/executor.rs\<close>) is one such lane: worker threads over a bounded queue.
  The \<^emph>\<open>residency manager\<close> (\<^verbatim>\<open>sched/residency.rs\<close>) decides what is loaded into which
  memory pool and pins resident entries by leases.  The \<^emph>\<open>accelerator boundary\<close>
  (\<^verbatim>\<open>sched/accel.rs\<close>) ties a ticket of the core to leases of the manager and to a
  target of the \<^emph>\<open>device registry\<close> (\<^verbatim>\<open>sched/device.rs\<close>).  Both state machines have
  deterministic \<^emph>\<open>simulators\<close> that record and replay traces (\<^verbatim>\<open>sched/sim.rs\<close>,
  \<^verbatim>\<open>sched/residency_sim.rs\<close>).  The state of a model is a \<^emph>\<open>causal state\<close>
  (\<^verbatim>\<open>state/\<close>), which has a byte format, snapshots and transactions.  The \<^emph>\<open>prefix
  cache\<close> (\<^verbatim>\<open>prefix/\<close>) keeps snapshots of token prefixes in memory and on disk.  The
  \<^emph>\<open>expert store\<close> (\<^verbatim>\<open>expert.rs\<close>) keeps the engine's slots of recently used experts.  The
  \<^emph>\<open>entropy coder\<close> compresses packed nibbles into 256 interleaved streams under a
  frequency table built from a histogram.  The \<^emph>\<open>planner\<close> works on a tensor graph
  (\<^verbatim>\<open>graph.rs\<close>) and on contracts for context and resources (\<^verbatim>\<open>context.rs\<close>, \<^verbatim>\<open>resource.rs\<close>).
  Two optimizers choose one representation per group of weights under a memory budget
  (\<^verbatim>\<open>optimizer.rs\<close>) or under several memory and storage pools (\<^verbatim>\<open>tiered_optimizer.rs\<close>).
  The chosen plan and an assignment of graph nodes to devices (\<^verbatim>\<open>execution.rs\<close>) travel in
  a versioned \<^emph>\<open>plan artifact\<close> (\<^verbatim>\<open>plan.rs\<close>).  A compiled model is a \<^verbatim>\<open>.logan\<close> artifact, whose
  \<^emph>\<open>manifest\<close> frames checksummed sections and a table of files (\<^verbatim>\<open>logan-artifact\<close>); older
  models are COLI packages, a manifest and data shards, which a reader opens, a verifier
  checks byte by byte, and whose records the runtime decodes with its own copy of the
  entropy decoder (\<^verbatim>\<open>logan-format\<close>).

  \<^bold>\<open>The theories.\<close>
  \<^item> \<^verbatim>\<open>Prelude\<close>: fixed-width integers, hash maps as association lists, and the locale
    \<^verbatim>\<open>bounded_machine\<close> of machines whose counters have room for a number of steps.
  \<^item> \<^verbatim>\<open>Sched_Core\<close>, \<^verbatim>\<open>Sched_Sim\<close>: every operation of \<^verbatim>\<open>SchedulerCore\<close> and the simulator;
    \<^verbatim>\<open>Sched_Spec\<close> states what the scheduler promises without its bookkeeping and
    proves that the model refines it; \<^verbatim>\<open>Sched_Props\<close> carries run-level properties
    over.  \<^verbatim>\<open>Trace_Replay\<close> is the replay contract both simulators meet.
  \<^item> \<^verbatim>\<open>Residency\<close>, \<^verbatim>\<open>Residency_Inv\<close>, \<^verbatim>\<open>Residency_Sim\<close>, \<^verbatim>\<open>Residency_Props\<close>: the residency
    manager, its invariant, its simulator and its properties.
  \<^item> \<^verbatim>\<open>Device_Registry\<close>, \<^verbatim>\<open>Accel\<close>: the registry, and the accelerator boundary in one
    system with the scheduler and the residency manager.
  \<^item> \<^verbatim>\<open>Runtime\<close>, \<^verbatim>\<open>Runtime_Props\<close>: the runtime loop, the locale \<^verbatim>\<open>bounded_executor\<close> of what
    a lane promises, and the accounting of tickets.  \<^verbatim>\<open>Executor\<close>: the CPU executor as a
    transition system at lock granularity, the locale \<^verbatim>\<open>conserved\<close> with its three
    interpretations, the executor as an instance of \<^verbatim>\<open>bounded_executor\<close>, and the
    properties of the runtime with its lanes.
  \<^item> \<^verbatim>\<open>Wire\<close>, \<^verbatim>\<open>Causal_State\<close>, \<^verbatim>\<open>Snapshot\<close>, \<^verbatim>\<open>Transactions\<close>: readers over bytes, the state
    and its size accounting, both byte formats, checkpoints.
  \<^item> \<^verbatim>\<open>Prefix_Key\<close>, \<^verbatim>\<open>Prefix_Cache\<close>, \<^verbatim>\<open>Prefix_Index\<close>, \<^verbatim>\<open>Prefix_Format\<close>, \<^verbatim>\<open>Prefix_Disk\<close>,
    \<^verbatim>\<open>Prefix_Runtime\<close>: keys, the memory tier, the index of the disk tier, the container
    file, the directory, and the runtime that joins them.
  \<^item> \<^verbatim>\<open>Expert_Store\<close>, \<^verbatim>\<open>Expert_Store_Props\<close>: the store of experts, a slab of linked nodes,
    and the list of entries in order of use that it implements.
  \<^item> \<^verbatim>\<open>Float64\<close>, \<^verbatim>\<open>Rans\<close>, \<^verbatim>\<open>Rans_Props\<close>, \<^verbatim>\<open>Rans_Table\<close>: rounding to 53 bits, the entropy
    coder, its streams and records, and the tables it builds.
  \<^item> \<^verbatim>\<open>Buffers\<close>: byte buffers, what a read returns after writes to other ranges.
    \<^verbatim>\<open>Rans_Manifest\<close>: the codec-table region of a manifest.  \<^verbatim>\<open>Coli_Codecs\<close>,
    \<^verbatim>\<open>Coli_Codecs_Props\<close>: the decoders of the runtime, and their agreement with the
    compiler's.  \<^verbatim>\<open>Coli_Verify\<close>, \<^verbatim>\<open>Coli_Package\<close>, \<^verbatim>\<open>Coli_Package_Props\<close>: the verifier and the
    reader of packages.  \<^verbatim>\<open>Artifact\<close>, \<^verbatim>\<open>Artifact_Props\<close>: the reader and the writer of manifests.
  \<^item> \<^verbatim>\<open>Ir_Graph\<close>, \<^verbatim>\<open>Ir_Resource\<close>: the tensor graph with its topological order, and the
    context and resource contracts.
  \<^item> \<^verbatim>\<open>Ir_Optimizer\<close>, \<^verbatim>\<open>Ir_Optimizer_Props\<close>, \<^verbatim>\<open>Ir_Tiered\<close>, \<^verbatim>\<open>Ir_Tiered_Props\<close>: the two
    optimizers and their properties, with the locale \<^verbatim>\<open>pruning\<close> of what dropping
    dominated states keeps.  \<^verbatim>\<open>Ir_Plan\<close>: execution overlays and the plan artifact.

  \<^bold>\<open>How the code is modelled.\<close>  A struct is a record, an enum a datatype, a method a
  function that takes the state and returns its result with the new state.
  Errors are the left side of a sum.  A \<^verbatim>\<open>HashMap\<close> is an association list with
  distinct keys; where the code iterates over one, a theorem shows that the order
  cannot matter or the result says so.  Counters keep their width and wrap or
  saturate where the source does.  Threads are program counters in a step
  relation; a lock is held by the program counters between its acquisition and
  its release.

  \<^bold>\<open>What is shown.\<close>  Scheduler (C1 to C5): the invariant, refinement of the
  specification, one consumption per ticket, bounded waiting, exact replay.
  Residency (C6 to C9): byte budgets, leases that pin, eviction order, every branch of
  loading.  State (C10 to C13): exact sizes, with the overflows of their partial
  products; exact codecs, rollback.  Prefix cache (C14 to
  C20): longest match, budgets, refinement of the cache by the index, exact container
  format, atomic writes; a hit is an entry stored under the query's own contract and
  leading tokens, and what the memory tier admits is found by the next lookup.  Accelerator (C21, C22): pinned references,
  all-or-nothing submission.  Executor and runtime (C23 to C25): conservation of leases,
  reports and records under every interleaving (after shutdown only records nobody
  drained and parked reports are left inside), the race in which shutdown hangs, at most
  one dispatch per ticket, and none after its revocation, unless a client had completed
  the ticket while it waited (\<^verbatim>\<open>frontend_completion_leaves_request\<close> shows that gap).
  Entropy coder (C26, C27): the coder is lossless from the histogram to the decoded
  bytes for matrices that are not empty and have at most 128 MiB, and a table is built
  from every histogram with a count in it whose total fits \<^verbatim>\<open>u64\<close>.  Planner (C28 to C31): the topological
  order is right and complete; for inputs of at most 4096 combinations, sums
  that fit \<^verbatim>\<open>u64\<close> and plan identifiers without collisions, the metrics of the optimizer's
  plans are exactly the Pareto front of the exhaustive search; a tiered plan fits every pool; what a plan
  artifact that was read guarantees.  Artifacts (C32 to C35): the writer and the reader of
  manifests agree, what a parsed manifest guarantees, the two entropy decoders agree on
  every input, and the runtime reads what the compiler wrote, within the bounds of the
  coder.  Packages (C36 to C38): no input panics opening or verification, the indexes of an
  opened package are right, and reading a record of it panics precisely when a tensor or an
  expert is shorter than its magic, which opening does not check; a verified package can be read, and ranges of a tensor are ranges of its payload.  Expert
  store (C39, C40): it refines a list of entries in order of use, and no slot is lost or
  given out twice.

  \<^bold>\<open>Bounds.\<close>  Identifiers are \<^verbatim>\<open>u64\<close> counters and lease counts are \<^verbatim>\<open>u32\<close>; properties over
  runs assume fewer operations than these can count (\<open>roomy\<close>, \<open>res_room\<close>), since after
  a wrap an identifier would be given twice.  Memory pools have budgets below the
  largest \<^verbatim>\<open>usize\<close>, where the saturating arithmetic of the manager is exact.  Files
  are no longer than an allocation can be.  The optimizer keeps at most 4096 states per
  group; its completeness assumes no more combinations and sums that fit \<^verbatim>\<open>u64\<close>.  No definition takes fuel: every loop
  is a terminating function.

  \<^bold>\<open>Parameters.\<close>  SHA-256, CRC-32C, the \<^verbatim>\<open>hex\<close> crate, \<^verbatim>\<open>bincode\<close>, the engine codec behind a snapshot, the
  failures of the operating system, the executors behind the runtime, the handler
  of a job and the answers of a channel are arguments.  What is assumed of them is
  stated where it is used.

  \<^bold>\<open>Not modelled.\<close>  The numeric code (\<^verbatim>\<open>math.rs\<close>, the model engines, the Metal and neural
  engine back ends) is floating-point arithmetic and foreign calls.  The rest of the
  compiler, its import, quantization and export of tensor files, is numeric conversion and
  file input; the file and mapping wrappers of the core (\<^verbatim>\<open>storage.rs\<close>, \<^verbatim>\<open>shared.rs\<close>,
  \<^verbatim>\<open>telemetry.rs\<close>) call the operating system.  The applications are input and output around these parts.  In the executor a handler
  that panics is not modelled, nor are thread creation and joining in the runtime.
\<close>

end
